(* ===== verification/Reko_Prelude.thy ===== *)
theory Reko_Prelude
  imports Main "HOL-Library.Multiset" "HOL-Library.Word"
begin

unbundle bit_operations_syntax

text \<open>
  Shared vocabulary of the development: checked array access (a C\# array read or write
  outside the bounds raises \<open>IndexOutOfRangeException\<close>, here the value None), the
  collections of simplification rules the component theories extend, and generic lemmas on
  lists and multisets that more than one component uses.
\<close>

named_theorems pq_simps \<open>rules for the array-backed priority queue\<close>
named_theorems cfg_simps \<open>rules for the control-flow graph store\<close>
named_theorems lane_simps \<open>rules for lane-wise vector operations\<close>

section \<open>Checked array access\<close>

definition arr_get :: "'a list \<Rightarrow> nat \<Rightarrow> 'a option" where
  "arr_get a i = (if i < length a then Some (a ! i) else None)"

definition arr_set :: "'a list \<Rightarrow> nat \<Rightarrow> 'a \<Rightarrow> 'a list option" where
  "arr_set a i v = (if i < length a then Some (a[i := v]) else None)"

lemma arr_get_in [simp]: "i < length a \<Longrightarrow> arr_get a i = Some (a ! i)"
  by (simp add: arr_get_def)

lemma arr_get_out [simp]: "length a \<le> i \<Longrightarrow> arr_get a i = None"
  by (simp add: arr_get_def)

lemma arr_set_in [simp]: "i < length a \<Longrightarrow> arr_set a i v = Some (a[i := v])"
  by (simp add: arr_set_def)

lemma arr_set_out [simp]: "length a \<le> i \<Longrightarrow> arr_set a i v = None"
  by (simp add: arr_set_def)

section \<open>Lists and multisets\<close>

lemma mset_take_update:
  assumes "i < n" and "n \<le> length xs"
  shows "mset (take n (xs[i := v])) = add_mset v (mset (take n xs) - {#xs ! i#})"
  using assms by (simp add: take_update_swap mset_update)

lemma mset_take_move:
  assumes "i < n" and "j < n" and "n \<le> length xs" and "i \<noteq> j"
  shows "mset (take n (xs[i := xs ! j, j := v])) = mset (take n (xs[i := v]))"
proof -
  let ?l = "(take n xs)[i := v]"
  have "mset (?l[j := ?l ! i, i := ?l ! j]) = mset ?l"
    using assms by (intro mset_swap) auto
  moreover have "?l[j := ?l ! i, i := ?l ! j] = (take n xs)[i := xs ! j, j := v]"
    using assms by (metis list_update_overwrite list_update_swap length_take min.absorb2 nth_list_update_eq
        nth_list_update_neq nth_take)
  ultimately show ?thesis
    using assms by (simp add: take_update_swap)
qed

end
