(* ===== verification/Heap_Queue.thy ===== *)
theory Heap_Queue
  imports Reko_Prelude
begin

text \<open>
  The priority queue of the parallel scanner, \<open>parallel/Scanner/PriorityQueue.cs\<close>: a binary
  max-heap in an array that grows by \<open>2 * Length + 1\<close>. The array is a list, \<open>count\<close> the number
  of live slots; slots beyond \<open>count\<close> hold whatever was left there (\<open>default\<close> in fresh slots,
  the parameter \<open>dflt\<close>). Every array access is checked; None is the
  \<open>IndexOutOfRangeException\<close> that the invariant \<open>pq_inv\<close> rules out. The priority type is any
  linear order (\<open>Comparer<TPriority>.Default\<close>). Indices are natural numbers; the C# \<open>int\<close> of
  \<open>2 * i + 1\<close> is the same below 2^30 entries.
\<close>

section \<open>State\<close>

record ('v, 'p) heap_item =
  hi_value :: 'v
  hi_priority :: 'p

record ('v, 'p) pq =
  heap :: "('v, 'p) heap_item list"
  pq_count :: nat

definition new_pq :: "('v, 'p) heap_item \<Rightarrow> ('v, 'p) pq" where
  "new_pq dflt = \<lparr>heap = replicate 4 dflt, pq_count = 0\<rparr>"

section \<open>Operations\<close>

definition grow_heap :: "('v, 'p) heap_item \<Rightarrow> ('v, 'p) heap_item list \<Rightarrow> ('v, 'p) heap_item list" where
  "grow_heap dflt h = h @ replicate (length h * 2 + 1 - length h) dflt"

text \<open>The parent index; C\# truncates, so the parent of the root is the root itself.\<close>

definition par :: "nat \<Rightarrow> nat" where
  "par i = (i - 1) div 2"

lemma par_less [termination_simp]: "0 < i \<Longrightarrow> par i < i"
  by (auto simp: par_def)

fun bubble_up :: "('v, 'p::linorder) heap_item list \<Rightarrow> nat \<Rightarrow> ('v, 'p) heap_item
    \<Rightarrow> ('v, 'p) heap_item list option" where
  "bubble_up h idx item =
     (if 0 < idx then
        (case arr_get h (par idx) of
           None \<Rightarrow> None
         | Some p \<Rightarrow>
             if hi_priority p < hi_priority item then
               (case arr_set h idx p of
                  None \<Rightarrow> None
                | Some h' \<Rightarrow> bubble_up h' (par idx) item)
             else arr_set h idx item)
      else arr_set h idx item)"

declare par_less [termination_simp del]

definition pick_child :: "('v, 'p::linorder) heap_item list \<Rightarrow> nat \<Rightarrow> nat \<Rightarrow> nat option" where
  "pick_child h cnt iChild =
     (if iChild + 1 < cnt then
        (case (arr_get h iChild, arr_get h (iChild + 1)) of
           (Some l, Some r) \<Rightarrow> Some (if hi_priority l < hi_priority r then iChild + 1 else iChild)
         | _ \<Rightarrow> None)
      else Some iChild)"

lemma pick_child_ge: "pick_child h cnt c = Some c' \<Longrightarrow> c \<le> c' \<and> (c < cnt \<longrightarrow> c' < cnt)"
  by (auto simp: pick_child_def split: if_splits option.splits prod.splits)

function trickle_down :: "('v, 'p::linorder) heap_item list \<Rightarrow> nat \<Rightarrow> nat \<Rightarrow> ('v, 'p) heap_item
    \<Rightarrow> ('v, 'p) heap_item list option" where
  "trickle_down h cnt idx item =
     (if idx * 2 + 1 < cnt then
        (case pick_child h cnt (idx * 2 + 1) of
           None \<Rightarrow> None
         | Some iChild \<Rightarrow>
             (case arr_get h iChild of
                None \<Rightarrow> None
              | Some c \<Rightarrow>
                  (case arr_set h idx c of
                     None \<Rightarrow> None
                   | Some h' \<Rightarrow> trickle_down h' cnt iChild item)))
      else bubble_up h idx item)"
  by pat_completeness auto
termination
  by (relation "measure (\<lambda>(h, cnt, idx, item). cnt - idx)") (auto dest!: pick_child_ge)

declare bubble_up.simps [simp del] trickle_down.simps [simp del]

definition enqueue :: "('v, 'p) heap_item \<Rightarrow> 'v \<Rightarrow> 'p::linorder \<Rightarrow> ('v, 'p) pq \<Rightarrow> ('v, 'p) pq option" where
  "enqueue dflt v p q =
     (let cnt = pq_count q + 1;
          h = (if length (heap q) \<le> cnt then grow_heap dflt (heap q) else heap q)
      in case bubble_up h (cnt - 1) \<lparr>hi_value = v, hi_priority = p\<rparr> of
           None \<Rightarrow> None
         | Some h' \<Rightarrow> Some \<lparr>heap = h', pq_count = cnt\<rparr>)"

text \<open>The result is the out parameter (None when the method returns false) and the new queue.\<close>

definition try_dequeue :: "('v, 'p::linorder) pq \<Rightarrow> ('v option \<times> ('v, 'p) pq) option" where
  "try_dequeue q =
     (if pq_count q \<le> 0 then Some (None, q)
      else
        (case arr_get (heap q) 0 of
           None \<Rightarrow> None
         | Some root \<Rightarrow>
             (case arr_get (heap q) (pq_count q - 1) of
                None \<Rightarrow> None
              | Some lst \<Rightarrow>
                  (case trickle_down (heap q) (pq_count q - 1) 0 lst of
                     None \<Rightarrow> None
                   | Some h' \<Rightarrow> Some (Some (hi_value root), \<lparr>heap = h', pq_count = pq_count q - 1\<rparr>)))))"

definition pq_clear :: "('v, 'p) heap_item \<Rightarrow> ('v, 'p) pq \<Rightarrow> ('v, 'p) pq" where
  "pq_clear dflt q = q\<lparr>pq_count := 0, heap := replicate 4 dflt\<rparr>"

definition pq_contains :: "('v, 'p) pq \<Rightarrow> 'v \<Rightarrow> bool" where
  "pq_contains q v = list_ex (\<lambda>it. hi_value it = v) (take (pq_count q) (heap q))"

definition pq_enumerate :: "('v, 'p) pq \<Rightarrow> 'v list" where
  "pq_enumerate q = map hi_value (take (pq_count q) (heap q))"

text \<open>\<open>CopyTo\<close>: the target array, None when it is too short.\<close>

fun pq_copy_from :: "('v, 'p) heap_item list \<Rightarrow> 'v list \<Rightarrow> nat \<Rightarrow> 'v list option" where
  "pq_copy_from [] arr k = Some arr"
| "pq_copy_from (it # its) arr k =
     (case arr_set arr k (hi_value it) of None \<Rightarrow> None | Some arr' \<Rightarrow> pq_copy_from its arr' (k + 1))"

definition pq_copy_to :: "('v, 'p) pq \<Rightarrow> 'v list \<Rightarrow> nat \<Rightarrow> 'v list option" where
  "pq_copy_to q arr k = pq_copy_from (take (pq_count q) (heap q)) arr k"

section \<open>Invariant and abstraction\<close>

abbreviation pri :: "('v, 'p) heap_item list \<Rightarrow> nat \<Rightarrow> 'p" where
  "pri h i \<equiv> hi_priority (h ! i)"

definition heap_ordered :: "('v, 'p::linorder) heap_item list \<Rightarrow> nat \<Rightarrow> bool" where
  "heap_ordered h n = (\<forall>i<n. 0 < i \<longrightarrow> pri h i \<le> pri h (par i))"

definition pq_inv :: "('v, 'p::linorder) pq \<Rightarrow> bool" where
  "pq_inv q = (pq_count q < length (heap q) \<and> heap_ordered (heap q) (pq_count q))"

definition item_pair :: "('v, 'p) heap_item \<Rightarrow> 'v \<times> 'p" where
  "item_pair it = (hi_value it, hi_priority it)"

definition pq_bag :: "('v, 'p) pq \<Rightarrow> ('v \<times> 'p) multiset" where
  "pq_bag q = image_mset item_pair (mset (take (pq_count q) (heap q)))"

text \<open>
  The state of the two loops: slot \<open>k\<close> is a hole, every other slot is ordered against its
  parent, and the children of the hole lie below the hole's parent.
\<close>

definition hole_ok :: "('v, 'p::linorder) heap_item list \<Rightarrow> nat \<Rightarrow> nat \<Rightarrow> bool" where
  "hole_ok h n k \<longleftrightarrow>
     (\<forall>i<n. 0 < i \<longrightarrow> i \<noteq> k \<longrightarrow> par i \<noteq> k \<longrightarrow> pri h i \<le> pri h (par i)) \<and>
     (\<forall>c<n. 0 < c \<longrightarrow> par c = k \<longrightarrow> 0 < k \<longrightarrow> pri h c \<le> pri h (par k))"

definition kids_below :: "('v, 'p::linorder) heap_item list \<Rightarrow> nat \<Rightarrow> nat \<Rightarrow> 'p \<Rightarrow> bool" where
  "kids_below h n k p \<longleftrightarrow> (\<forall>c<n. 0 < c \<longrightarrow> par c = k \<longrightarrow> pri h c \<le> p)"

lemma ordered_hole: "heap_ordered h n \<Longrightarrow> hole_ok h n k"
  unfolding heap_ordered_def hole_ok_def
  by (metis gr0I le_less_trans less_imp_le order_trans par_less)

lemma hole_okD1:
  "hole_ok h n k \<Longrightarrow> i < n \<Longrightarrow> 0 < i \<Longrightarrow> i \<noteq> k \<Longrightarrow> par i \<noteq> k \<Longrightarrow> pri h i \<le> pri h (par i)"
  by (auto simp: hole_ok_def)

lemma hole_okD2:
  "hole_ok h n k \<Longrightarrow> c < n \<Longrightarrow> 0 < c \<Longrightarrow> par c = k \<Longrightarrow> 0 < k \<Longrightarrow> pri h c \<le> pri h (par k)"
  by (auto simp: hole_ok_def)

lemma hole_up:
  assumes H: "hole_ok h n k" and "0 < k" and "k < n" and "n \<le> length h"
  shows "hole_ok (h[k := h ! par k]) n (par k)"
proof -
  from assms(2) have pk: "par k < k" by (rule par_less)
  have sib: "pri h c \<le> pri h (par k)" if "c < n" "0 < c" "par c = par k" "c \<noteq> k" for c
    using hole_okD1[OF H that(1,2,4)] that(3) pk by simp
  have up: "pri h (par k) \<le> pri h (par (par k))" if "0 < par k"
    using hole_okD1[OF H _ that] par_less[OF that] pk assms(3) by simp
  show ?thesis
    unfolding hole_ok_def
  proof (intro conjI allI impI)
    fix i assume i: "i < n" "0 < i" "i \<noteq> par k" "par i \<noteq> par k"
    then have "i \<noteq> k" by auto
    then show "pri (h[k := h ! par k]) i \<le> pri (h[k := h ! par k]) (par i)"
      using hole_okD1[OF H i(1,2)] hole_okD2[OF H i(1,2)] assms i
      by (cases "par i = k") auto
  next
    fix c assume c: "c < n" "0 < c" "par c = par k" "0 < par k"
    from c(4) have "par (par k) < par k" by (rule par_less)
    with pk have "par (par k) \<noteq> k" by simp
    then show "pri (h[k := h ! par k]) c \<le> pri (h[k := h ! par k]) (par (par k))"
      using c up sib[of c] assms by (cases "c = k") auto
  qed
qed

lemma kids_up:
  assumes "hole_ok h n k" and "0 < k" and "k < n" and "n \<le> length h" and "pri h (par k) \<le> p"
  shows "kids_below (h[k := h ! par k]) n (par k) p"
  unfolding kids_below_def
proof (intro allI impI)
  fix c assume c: "c < n" "0 < c" "par c = par k"
  from assms(2) have "par k < k" by (rule par_less)
  then have "par c \<noteq> k" using c(3) by simp
  then have "c \<noteq> k \<Longrightarrow> pri h c \<le> pri h (par k)"
    using hole_okD1[OF assms(1) c(1,2)] c(3) by simp
  then show "pri (h[k := h ! par k]) c \<le> p"
    using assms c by (cases "c = k") auto
qed

lemma hole_filled:
  assumes "hole_ok h n k" and "k < n" and "n \<le> length h" and "kids_below h n k (hi_priority it)"
    and "0 < k \<Longrightarrow> hi_priority it \<le> pri h (par k)"
  shows "heap_ordered (h[k := it]) n"
  unfolding heap_ordered_def
proof (intro allI impI)
  fix i assume i: "i < n" "0 < i"
  from par_less[OF i(2)] have "par i \<noteq> i" by simp
  then show "pri (h[k := it]) i \<le> pri (h[k := it]) (par i)"
    using assms i unfolding hole_ok_def kids_below_def
    by (cases "i = k"; cases "par i = k") auto
qed

lemma bubble_up_correct:
  assumes "k < n" and "n \<le> length h" and "hole_ok h n k" and "kids_below h n k (hi_priority it)"
  shows "\<exists>h'. bubble_up h k it = Some h' \<and> length h' = length h \<and> heap_ordered h' n \<and>
    mset (take n h') = mset (take n (h[k := it]))"
  using assms
proof (induction h k it rule: bubble_up.induct)
  case (1 h k it)
  show ?case
  proof (cases "0 < k \<and> pri h (par k) < hi_priority it")
    case True
    then have k: "0 < k" and lt: "pri h (par k) < hi_priority it" by auto
    from par_less[OF k] have pk: "par k < k" .
    let ?h1 = "h[k := h ! par k]"
    have "\<exists>h'. bubble_up ?h1 (par k) it = Some h' \<and> length h' = length ?h1 \<and> heap_ordered h' n \<and>
        mset (take n h') = mset (take n (?h1[par k := it]))"
      using "1.prems" k lt pk
      by (intro "1.IH"[of "h ! par k"])
        (auto simp: hole_up kids_up intro: less_imp_le)
    moreover have "mset (take n (?h1[par k := it])) = mset (take n (h[k := it]))"
      using "1.prems" pk by (intro mset_take_move) auto
    ultimately show ?thesis
      using "1.prems" k lt pk by (subst bubble_up.simps) auto
  next
    case False
    then have "0 < k \<Longrightarrow> hi_priority it \<le> pri h (par k)" by auto
    from hole_filled[OF "1.prems"(3,1,2,4) this]
    have "heap_ordered (h[k := it]) n" .
    moreover have "k < length h" "par k < length h" using "1.prems"(1,2) by (auto simp: par_def)
    ultimately show ?thesis
      using False by (subst bubble_up.simps) auto
  qed
qed

lemma pick_child_spec:
  assumes "2 * k + 1 < n" and "n \<le> length h"
  shows "\<exists>c. pick_child h n (k * 2 + 1) = Some c \<and> c < n \<and> 0 < c \<and> par c = k \<and> k < c \<and>
    (\<forall>d<n. 0 < d \<longrightarrow> par d = k \<longrightarrow> pri h d \<le> pri h c)"
proof -
  have kids: "d = 2 * k + 1 \<or> d = 2 * k + 2" if "0 < d" "par d = k" for d
    using that unfolding par_def by arith
  have p: "par (2 * k + 1) = k" "par (2 * k + 2) = k" by (auto simp: par_def)
  show ?thesis
  proof (cases "2 * k + 2 < n \<and> pri h (2 * k + 1) < pri h (2 * k + 2)")
    case True
    then show ?thesis using assms p
      by (intro exI[of _ "2 * k + 2"]) (auto simp: pick_child_def mult.commute dest!: kids)
  next
    case False
    then show ?thesis using assms p
      by (intro exI[of _ "2 * k + 1"]) (fastforce simp: pick_child_def mult.commute dest!: kids)
  qed
qed

lemma hole_down:
  assumes H: "hole_ok h n k" and c: "c < n" "0 < c" "par c = k" "k < c" and n: "n \<le> length h"
    and big: "\<And>d. d < n \<Longrightarrow> 0 < d \<Longrightarrow> par d = k \<Longrightarrow> pri h d \<le> pri h c"
  shows "hole_ok (h[k := h ! c]) n c"
  unfolding hole_ok_def
proof (intro conjI allI impI)
  fix i assume i: "i < n" "0 < i" "i \<noteq> c" "par i \<noteq> c"
  show "pri (h[k := h ! c]) i \<le> pri (h[k := h ! c]) (par i)"
  proof (cases "i = k")
    case True
    with i have "par k \<noteq> k" using par_less[of k] by auto
    with True i c n show ?thesis using hole_okD2[OF H c(1-3)] by simp
  next
    case False
    then show ?thesis
      using i c n big[OF i(1,2)] hole_okD1[OF H i(1,2)] by (cases "par i = k") auto
  qed
next
  fix d assume d: "d < n" "0 < d" "par d = c" "0 < c"
  then have "d \<noteq> k" "par d \<noteq> k" using c par_less[OF d(2)] by auto
  then show "pri (h[k := h ! c]) d \<le> pri (h[k := h ! c]) (par c)"
    using hole_okD1[OF H d(1,2)] d c n by simp
qed

lemma trickle_down_correct:
  assumes "k < n" and "n \<le> length h" and "hole_ok h n k"
  shows "\<exists>h'. trickle_down h n k it = Some h' \<and> length h' = length h \<and> heap_ordered h' n \<and>
    mset (take n h') = mset (take n (h[k := it]))"
  using assms
proof (induction h n k it rule: trickle_down.induct)
  case (1 h n k it)
  show ?case
  proof (cases "k * 2 + 1 < n")
    case True
    then obtain c where c: "pick_child h n (k * 2 + 1) = Some c" "c < n" "0 < c" "par c = k" "k < c"
      and big: "\<And>d. d < n \<Longrightarrow> 0 < d \<Longrightarrow> par d = k \<Longrightarrow> pri h d \<le> pri h c"
      using pick_child_spec[of k n h] "1.prems" by (auto simp: mult.commute)
    let ?h1 = "h[k := h ! c]"
    have in_h: "k < length h" "c < length h" using "1.prems"(1,2) c(2) by auto
    have hd: "hole_ok ?h1 n c"
      by (rule hole_down[OF "1.prems"(3) c(2-5) "1.prems"(2) big])
    have "\<exists>h'. trickle_down ?h1 n c it = Some h' \<and> length h' = length ?h1 \<and> heap_ordered h' n \<and>
        mset (take n h') = mset (take n (?h1[c := it]))"
      by (rule "1.IH"[of c "h ! c" ?h1, OF True c(1) _ _ c(2) _ hd])
        (simp_all add: in_h "1.prems"(2))
    moreover have "mset (take n (?h1[c := it])) = mset (take n (h[k := it]))"
      using "1.prems"(1,2) c(2,5) by (intro mset_take_move) auto
    moreover have "trickle_down h n k it = trickle_down ?h1 n c it"
      using True c(1) in_h by (subst trickle_down.simps) simp
    ultimately show ?thesis by simp
  next
    case False
    then have "kids_below h n k (hi_priority it)"
      unfolding kids_below_def par_def by auto
    from bubble_up_correct[OF "1.prems" this] False
    show ?thesis by (subst trickle_down.simps) simp
  qed
qed

section \<open>The operations against the invariant\<close>

lemma new_pq_inv [pq_simps]: "pq_inv (new_pq dflt)"
  by (simp add: pq_inv_def new_pq_def heap_ordered_def)

lemma new_pq_bag [pq_simps]: "pq_bag (new_pq dflt) = {#}"
  by (simp add: pq_bag_def new_pq_def)

lemma enqueue_spec:
  assumes "pq_inv q"
  shows "\<exists>q'. enqueue dflt v p q = Some q' \<and> pq_inv q' \<and> pq_bag q' = add_mset (v, p) (pq_bag q)"
proof -
  define n where "n = pq_count q + 1"
  define h where "h = (if length (heap q) \<le> n then grow_heap dflt (heap q) else heap q)"
  define it where "it = \<lparr>hi_value = v, hi_priority = p\<rparr>"
  from assms have len: "n < length h" and old: "take (n - 1) h = take (pq_count q) (heap q)"
    by (auto simp: h_def n_def pq_inv_def grow_heap_def)
  have nth: "h ! i = heap q ! i" if "i < n - 1" for i
    using that assms by (auto simp: h_def n_def pq_inv_def grow_heap_def nth_append)
  have ord: "pri h i \<le> pri h (par i)" if "i < n - 1" "0 < i" for i
    using that assms nth[of i] nth[of "par i"] par_less[of i]
    by (simp add: heap_ordered_def pq_inv_def n_def)
  have leaf: "par i \<noteq> n - 1" if "i < n" "0 < i" for i
    using par_less[OF that(2)] that(1) by simp
  have hole: "hole_ok h n (n - 1)"
    using ord leaf by (auto simp: hole_ok_def)
  have kids: "kids_below h n (n - 1) (hi_priority it)"
    using leaf by (auto simp: kids_below_def)
  have "n - 1 < n" "n \<le> length h" using len by (simp_all add: n_def)
  from bubble_up_correct[OF this hole kids]
  obtain h' where h': "bubble_up h (n - 1) it = Some h'" "length h' = length h" "heap_ordered h' n"
      "mset (take n h') = mset (take n (h[n - 1 := it]))"
    by blast
  have "take n (h[n - 1 := it]) = take (pq_count q) (heap q) @ [it]"
    using old len by (simp add: n_def take_Suc_conv_app_nth)
  then have bag: "pq_bag \<lparr>heap = h', pq_count = n\<rparr> = add_mset (v, p) (pq_bag q)"
    by (simp add: pq_bag_def h'(4) it_def item_pair_def)
  have "enqueue dflt v p q = Some \<lparr>heap = h', pq_count = n\<rparr>"
    unfolding enqueue_def Let_def n_def[symmetric] h_def[symmetric] it_def[symmetric] h'(1) by simp
  moreover have "pq_inv \<lparr>heap = h', pq_count = n\<rparr>"
    using h'(2,3) len by (simp add: pq_inv_def)
  ultimately show ?thesis using bag by blast
qed

lemma heap_max_at_root:
  assumes "heap_ordered h n" and "i < n"
  shows "pri h i \<le> pri h 0"
  using assms(2)
proof (induction i rule: less_induct)
  case (less i)
  show ?case
  proof (cases "i = 0")
    case False
    then have "par i < i" by (simp add: par_less)
    with less have "pri h (par i) \<le> pri h 0" by simp
    moreover have "pri h i \<le> pri h (par i)"
      using assms(1) less.prems False by (simp add: heap_ordered_def)
    ultimately show ?thesis by simp
  qed simp
qed

lemma mset_take_pop:
  assumes "0 < n" and "n \<le> length h"
  shows "add_mset (h ! 0) (mset (take (n - 1) (h[0 := h ! (n - 1)]))) = mset (take n h)"
proof -
  from assms obtain x xs where h: "h = x # xs" by (cases h) auto
  show ?thesis
  proof (cases "n = 1")
    case True
    then show ?thesis using h by simp
  next
    case False
    with assms(1) have "n = Suc (Suc (n - 2))" by arith
    then obtain m where n: "n = Suc (Suc m)" by blast
    then have "take (Suc m) xs = take m xs @ [xs ! m]"
      using assms h by (simp add: take_Suc_conv_app_nth)
    then show ?thesis using h n by simp
  qed
qed

lemma try_dequeue_empty [pq_simps]: "pq_count q = 0 \<Longrightarrow> try_dequeue q = Some (None, q)"
  by (simp add: try_dequeue_def)

lemma try_dequeue_spec:
  assumes inv: "pq_inv q" and ne: "pq_count q \<noteq> 0"
  shows "\<exists>v p q'. try_dequeue q = Some (Some v, q') \<and> pq_inv q' \<and> (v, p) \<in># pq_bag q \<and>
    (\<forall>x \<in># pq_bag q. snd x \<le> p) \<and> add_mset (v, p) (pq_bag q') = pq_bag q"
proof -
  define h where "h = heap q"
  define n where "n = pq_count q"
  have len: "n < length h" and ord: "heap_ordered h n" and pos: "0 < n"
    using inv ne by (auto simp: pq_inv_def h_def n_def)
  then have ord': "heap_ordered h (n - 1)" by (auto simp: heap_ordered_def)
  obtain h' where h': "trickle_down h (n - 1) 0 (h ! (n - 1)) = Some h'" "n - 1 < length h'"
      "heap_ordered h' (n - 1)" "mset (take (n - 1) h') = mset (take (n - 1) (h[0 := h ! (n - 1)]))"
  proof (cases "n = 1")
    case True
    moreover have "0 < length h" using len pos by linarith
    ultimately show ?thesis using len that
      by (simp add: trickle_down.simps bubble_up.simps heap_ordered_def)
  next
    case False
    then have b: "0 < n - 1" "n - 1 \<le> length h" using len pos by auto
    from trickle_down_correct[OF b ordered_hole[OF ord'], of "h ! (n - 1)"] obtain h' where
      h': "trickle_down h (n - 1) 0 (h ! (n - 1)) = Some h'" "length h' = length h"
        "heap_ordered h' (n - 1)" "mset (take (n - 1) h') = mset (take (n - 1) (h[0 := h ! (n - 1)]))"
      by blast
    have "n - 1 < length h'" using len h'(2) by simp
    from that[OF h'(1) this h'(3,4)] show ?thesis .
  qed
  let ?q' = "\<lparr>heap = h', pq_count = n - 1\<rparr>"
  have gets: "arr_get h 0 = Some (h ! 0)" "arr_get h (n - 1) = Some (h ! (n - 1))"
    using len pos by (auto simp: arr_get_def)
  have "try_dequeue q = Some (Some (hi_value (h ! 0)), ?q')"
    unfolding try_dequeue_def h_def[symmetric] n_def[symmetric] using h'(1) len pos by (simp add: gets)
  moreover have "pq_inv ?q'" using h' by (simp add: pq_inv_def)
  moreover have "add_mset (item_pair (h ! 0)) (pq_bag ?q') = pq_bag q"
    using mset_take_pop[of n h] h' len pos
    by (simp add: pq_bag_def flip: h_def n_def image_mset_add_mset)
  moreover have "\<forall>x \<in># pq_bag q. snd x \<le> pri h 0"
    using heap_max_at_root[OF ord] len
    by (fastforce simp: pq_bag_def item_pair_def in_set_conv_nth simp flip: h_def n_def)
  moreover have "item_pair (h ! 0) \<in># pq_bag q"
    by (metis calculation(3) union_single_eq_member)
  ultimately show ?thesis
    unfolding item_pair_def by blast
qed

section \<open>The interface: a bag that gives up its largest priority first\<close>

text \<open>Client code over any queue: enqueue a list of pairs, then dequeue until the queue is empty.\<close>

fun enq_all :: "('v \<Rightarrow> 'p \<Rightarrow> 'q \<Rightarrow> 'q option) \<Rightarrow> ('v \<times> 'p) list \<Rightarrow> 'q \<Rightarrow> 'q option" where
  "enq_all enq [] q = Some q"
| "enq_all enq ((v, p) # xs) q =
     (case enq v p q of None \<Rightarrow> None | Some q' \<Rightarrow> enq_all enq xs q')"

fun drain :: "('q \<Rightarrow> ('v option \<times> 'q) option) \<Rightarrow> nat \<Rightarrow> 'q \<Rightarrow> 'v list option" where
  "drain deq 0 q = None"
| "drain deq (Suc fuel) q =
     (case deq q of
        None \<Rightarrow> None
      | Some (None, q') \<Rightarrow> Some []
      | Some (Some v, q') \<Rightarrow> map_option (Cons v) (drain deq fuel q'))"

locale max_queue =
  fixes empty_q :: "'q"
    and enq :: "'v \<Rightarrow> 'p::linorder \<Rightarrow> 'q \<Rightarrow> 'q option"
    and deq :: "'q \<Rightarrow> ('v option \<times> 'q) option"
    and inv :: "'q \<Rightarrow> bool"
    and bag :: "'q \<Rightarrow> ('v \<times> 'p) multiset"
  assumes inv_empty: "inv empty_q"
    and bag_empty: "bag empty_q = {#}"
    and enq_law: "inv q \<Longrightarrow> \<exists>q'. enq v p q = Some q' \<and> inv q' \<and> bag q' = add_mset (v, p) (bag q)"
    and deq_none: "inv q \<Longrightarrow> bag q = {#} \<Longrightarrow> deq q = Some (None, q)"
    and deq_law: "inv q \<Longrightarrow> bag q \<noteq> {#} \<Longrightarrow>
      \<exists>v p q'. deq q = Some (Some v, q') \<and> inv q' \<and> (v, p) \<in># bag q \<and>
        (\<forall>x \<in># bag q. snd x \<le> p) \<and> add_mset (v, p) (bag q') = bag q"
begin

lemma enq_all_bag:
  "inv q \<Longrightarrow> \<exists>q'. enq_all enq xs q = Some q' \<and> inv q' \<and> bag q' = mset xs + bag q"
proof (induction xs arbitrary: q)
  case (Cons x xs)
  obtain v p where x: "x = (v, p)" by (cases x)
  obtain q1 where q1: "enq v p q = Some q1" "inv q1" "bag q1 = add_mset (v, p) (bag q)"
    using enq_law[OF Cons.prems] by blast
  with Cons.IH[OF q1(2)] x show ?case by auto
qed simp

lemma drain_sorted:
  "inv q \<Longrightarrow> size (bag q) < fuel \<Longrightarrow>
   \<exists>ys. drain deq fuel q = Some (map fst ys) \<and> mset ys = bag q \<and>
     sorted_wrt (\<lambda>x y. snd y \<le> snd x) ys"
proof (induction fuel arbitrary: q)
  case (Suc fuel)
  show ?case
  proof (cases "bag q = {#}")
    case True
    with Suc.prems show ?thesis by (intro exI[of _ "[]"]) (simp add: deq_none)
  next
    case False
    then obtain v p q' where d: "deq q = Some (Some v, q')" "inv q'"
        "\<forall>x \<in># bag q. snd x \<le> p" "add_mset (v, p) (bag q') = bag q"
      using deq_law Suc.prems(1) by meson
    from arg_cong[OF d(4), of size] Suc.prems(2) have "size (bag q') < fuel" by simp
    from Suc.IH[OF d(2) this] obtain ys where ys: "drain deq fuel q' = Some (map fst ys)"
        "mset ys = bag q'" "sorted_wrt (\<lambda>x y. snd y \<le> snd x) ys" by blast
    have "\<forall>y \<in> set ys. snd y \<le> p"
      using d(3,4) ys(2) by (metis mset_eq_setD set_mset_mset union_single_eq_member insert_iff
          set_mset_add_mset_insert)
    with d ys show ?thesis by (intro exI[of _ "(v, p) # ys"]) auto
  qed
qed simp

lemma queue_sorts:
  "size xs < fuel \<Longrightarrow>
   \<exists>q ys. enq_all enq xs empty_q = Some q \<and> drain deq fuel q = Some (map fst ys) \<and>
     mset ys = mset xs \<and> sorted_wrt (\<lambda>x y. snd y \<le> snd x) ys"
  using enq_all_bag[OF inv_empty, of xs] drain_sorted[where fuel = fuel]
  by (fastforce simp: bag_empty)

end

lemma pq_bag_empty_iff: "pq_inv q \<Longrightarrow> pq_bag q = {#} \<longleftrightarrow> pq_count q = 0"
  by (cases "heap q") (auto simp: pq_bag_def pq_inv_def)

interpretation pq: max_queue "new_pq dflt" "enqueue dflt" try_dequeue pq_inv pq_bag
  for dflt :: "('v, 'p::linorder) heap_item"
  by unfold_locales
    (simp_all add: pq_simps enqueue_spec try_dequeue_spec pq_bag_empty_iff)

section \<open>Properties\<close>

text \<open>
  C4. Filling an empty queue with any list of items and draining it never reads or writes outside
  the array (through every growth of it), returns exactly the items put in, and returns them in
  non-increasing order of priority.
\<close>

theorem queue_drains_by_priority:
  "\<exists>q ys. enq_all (enqueue dflt) xs (new_pq dflt) = Some q \<and>
     drain try_dequeue (length xs + 1) q = Some (map fst ys) \<and>
     mset ys = mset xs \<and> sorted_wrt (\<lambda>x y. snd y \<le> snd x) ys"
  using pq.queue_sorts[of xs "length xs + 1" dflt] by simp

text \<open>
  On a queue that satisfies the heap invariant, \<open>TryDequeue\<close> answers false exactly when the
  queue is empty; otherwise it returns a value of the largest priority present, removes that one
  entry, and leaves a queue that satisfies the invariant.
\<close>

lemma try_dequeue_takes_maximum:
  assumes "pq_inv q"
  shows "\<exists>r q'. try_dequeue q = Some (r, q') \<and> pq_inv q' \<and> (r = None \<longleftrightarrow> pq_count q = 0) \<and>
    (case r of
       None \<Rightarrow> q' = q
     | Some v \<Rightarrow> \<exists>p. (v, p) \<in># pq_bag q \<and> (\<forall>x \<in># pq_bag q. snd x \<le> p) \<and>
         pq_bag q' = pq_bag q - {#(v, p)#} \<and> pq_count q' = pq_count q - 1)"
proof (cases "pq_count q = 0")
  case True
  with assms show ?thesis by (simp add: pq_simps)
next
  case False
  then obtain v p q' where d: "try_dequeue q = Some (Some v, q')" "pq_inv q'" "(v, p) \<in># pq_bag q"
      "\<forall>x \<in># pq_bag q. snd x \<le> p" "add_mset (v, p) (pq_bag q') = pq_bag q"
    using try_dequeue_spec[OF assms] by blast
  moreover have "pq_count q' = pq_count q - 1"
    using d(1) False by (auto simp: try_dequeue_def split: option.splits)
  moreover have "pq_bag q' = pq_bag q - {#(v, p)#}"
    using d(5) by (metis add_mset_remove_trivial)
  ultimately show ?thesis using False by auto
qed

definition sample_pq :: "(char, nat) pq" where
  "sample_pq = \<lparr>heap = [\<lparr>hi_value = CHR ''a'', hi_priority = 7\<rparr>, \<lparr>hi_value = CHR ''b'', hi_priority = 3\<rparr>,
     \<lparr>hi_value = CHR ''c'', hi_priority = 5\<rparr>, \<lparr>hi_value = CHR ''d'', hi_priority = 0\<rparr>], pq_count = 3\<rparr>"

theorem try_dequeue_takes_maximum_witness:
  "pq_inv sample_pq \<and>
   (\<exists>q'. try_dequeue sample_pq = Some (Some (CHR ''a''), q') \<and> pq_inv q' \<and> pq_count q' = 2)"
proof -
  have inv: "pq_inv sample_pq"
    unfolding pq_inv_def heap_ordered_def sample_pq_def
    by (auto simp: par_def less_Suc_eq numeral_eq_Suc)
  moreover obtain r q' where d: "try_dequeue sample_pq = Some (r, q')" "pq_inv q'"
      "pq_count q' = pq_count sample_pq - 1 \<or> r = None" "r = None \<longleftrightarrow> pq_count sample_pq = 0"
    using try_dequeue_takes_maximum[OF inv] by (fastforce split: option.splits)
  moreover have "pq_count sample_pq = 3" by (simp add: sample_pq_def)
  moreover have "r = Some (CHR ''a'')"
    using d(1) \<open>pq_count sample_pq = 3\<close>
    by (auto simp: try_dequeue_def sample_pq_def split: option.splits)
  ultimately show ?thesis by auto
qed

end
