(* ===== verification/Scan_Cfg.thy ===== *)
theory Scan_Cfg
  imports Reko_Prelude
begin

text \<open>
  The shared store of the parallel scanner: \<open>parallel/Scanner/Cfg.cs\<close> (the graph and its
  concurrent dictionaries) and the operations on it in \<open>parallel/Scanner/Scanner.cs\<close>:
  registration of blocks, block ends, procedures and edges, and \<open>SplitBlock\<close>, the worklist that
  reconciles two blocks that run into the same control transfer instruction. Each dictionary call is one
  atomic step, as on a \<open>ConcurrentDictionary\<close>. Addresses are the unsigned linear addresses
  that Reko's \<open>Address\<close> compares and subtracts; a difference is a (signed) integer.
\<close>

section \<open>Data\<close>

type_synonym address = nat
type_synonym arch_id = string

text \<open>
  A class of Reko's \<open>InstrClass\<close> is a set of flags: those that the scanner tests, and the others
  (padding, zero, ...) by their bit, so that a class such as \<open>Linear|Padding\<close> differs from \<open>Linear\<close>.
\<close>

datatype iflag =
    Linear | Transfer | Conditional | Call_flag | Delay | Return_flag | Invalid_flag
  | Other_flag nat

record instr =
  i_addr :: address
  i_length :: nat
  i_class :: "iflag set"
  i_valid :: bool
  i_last_operand :: "address option"

datatype edge_type = Call | TailCall | Return | IndirectCall | DirectJump | IndirectJump | FallThrough

datatype proc_return = Unknown | Diverges | Returns

record cfg_edge =
  e_type :: edge_type
  e_arch :: arch_id
  e_from :: address
  e_to :: address

record block =
  b_addr :: address
  b_size :: int
  b_instrs :: "instr list"

datatype scan_error =
    ArgumentOutOfRange
  | IndexOutOfRange
  | KeyNotFound
  | InvalidOperation
  | NotImplemented

text \<open>The \<open>Block\<close> constructor refuses a size that is not positive.\<close>

definition mk_block :: "address \<Rightarrow> int \<Rightarrow> instr list \<Rightarrow> scan_error + block" where
  "mk_block addr sz instrs =
     (if 0 < sz then Inr \<lparr>b_addr = addr, b_size = sz, b_instrs = instrs\<rparr>
      else Inl ArgumentOutOfRange)"

record cfg =
  cfg_B :: "address \<rightharpoonup> block"
  cfg_C :: "address \<rightharpoonup> address"
  cfg_E :: "address \<rightharpoonup> cfg_edge list"
  cfg_F :: "address \<rightharpoonup> address"
  cfg_ParentProcedure :: "address \<rightharpoonup> address"
  cfg_BlockEnds :: "address \<rightharpoonup> address"
  cfg_Procedures :: "address \<rightharpoonup> arch_id"
  cfg_ReturnStatuses :: "address \<rightharpoonup> proc_return"
  cfg_Bad :: "address \<rightharpoonup> address"

definition new_cfg :: cfg where
  "new_cfg = \<lparr>cfg_B = Map.empty, cfg_C = Map.empty, cfg_E = Map.empty, cfg_F = Map.empty,
     cfg_ParentProcedure = Map.empty, cfg_BlockEnds = Map.empty, cfg_Procedures = Map.empty,
     cfg_ReturnStatuses = Map.empty, cfg_Bad = Map.empty\<rparr>"

section \<open>Registration\<close>

text \<open>\<open>ConcurrentDictionary.TryAdd\<close>: the first writer of a key wins.\<close>

definition try_add :: "('k \<rightharpoonup> 'v) \<Rightarrow> 'k \<Rightarrow> 'v \<Rightarrow> ('k \<rightharpoonup> 'v) \<times> bool" where
  "try_add m k v = (case m k of None \<Rightarrow> (m(k \<mapsto> v), True) | Some _ \<Rightarrow> (m, False))"

definition try_register_block_start :: "cfg \<Rightarrow> address \<Rightarrow> address \<Rightarrow> cfg \<times> bool" where
  "try_register_block_start g addrStart addrProc =
     (let (m, ok) = try_add (cfg_C g) addrStart addrProc in (g\<lparr>cfg_C := m\<rparr>, ok))"

definition try_register_block_end :: "cfg \<Rightarrow> address \<Rightarrow> address \<Rightarrow> cfg \<times> bool" where
  "try_register_block_end g blockStart addrEnd =
     (let (m, ok) = try_add (cfg_BlockEnds g) addrEnd blockStart in (g\<lparr>cfg_BlockEnds := m\<rparr>, ok))"

definition try_register_procedure :: "cfg \<Rightarrow> arch_id \<Rightarrow> address \<Rightarrow> cfg \<times> bool" where
  "try_register_procedure g arch addrProc =
     (let (f, ok) = try_add (cfg_F g) addrProc addrProc
      in if \<not> ok then (g, False)
         else (g\<lparr>cfg_F := f, cfg_Procedures := fst (try_add (cfg_Procedures g) addrProc arch)\<rparr>, True))"

text \<open>
  \<open>TryRegisterBlock(start, size, instrs)\<close> builds the block first (its size is cast to a 32-bit
  \<open>int\<close>) and then adds it: the constructor may raise.
\<close>

definition to_int32 :: "int \<Rightarrow> int" where
  "to_int32 n = sint (word_of_int n :: 32 word)"

definition try_register_block :: "cfg \<Rightarrow> address \<Rightarrow> int \<Rightarrow> instr list
    \<Rightarrow> scan_error + (cfg \<times> block option)" where
  "try_register_block g blockStart blockSize instrs =
     (case mk_block blockStart (to_int32 blockSize) instrs of
        Inl e \<Rightarrow> Inl e
      | Inr b \<Rightarrow>
          (let (m, ok) = try_add (cfg_B g) blockStart b
           in Inr (g\<lparr>cfg_B := m\<rparr>, if ok then Some b else None)))"

definition try_register_new_block :: "cfg \<Rightarrow> block \<Rightarrow> cfg \<times> block option" where
  "try_register_new_block g newBlock =
     (let (m, ok) = try_add (cfg_B g) (b_addr newBlock) newBlock
      in (g\<lparr>cfg_B := m\<rparr>, if ok then Some newBlock else None))"

definition try_register_bad_block :: "cfg \<Rightarrow> address \<Rightarrow> cfg \<times> bool" where
  "try_register_bad_block g blockStart =
     (let (m, ok) = try_add (cfg_Bad g) blockStart blockStart in (g\<lparr>cfg_Bad := m\<rparr>, ok))"

definition register_edge :: "cfg \<Rightarrow> cfg_edge \<Rightarrow> cfg" where
  "register_edge g edge =
     (case cfg_E g (e_from edge) of
        None \<Rightarrow> g\<lparr>cfg_E := (cfg_E g)(e_from edge \<mapsto> [edge])\<rparr>
      | Some edges \<Rightarrow> g\<lparr>cfg_E := (cfg_E g)(e_from edge \<mapsto> edges @ [edge])\<rparr>)"

definition get_procedure_return_status :: "cfg \<Rightarrow> address \<Rightarrow> proc_return" where
  "get_procedure_return_status g addrProc =
     (case cfg_ReturnStatuses g addrProc of Some pr \<Rightarrow> pr | None \<Rightarrow> Unknown)"

definition set_procedure_return_status :: "cfg \<Rightarrow> address \<Rightarrow> proc_return \<Rightarrow> cfg" where
  "set_procedure_return_status g addrProc r =
     g\<lparr>cfg_ReturnStatuses := (cfg_ReturnStatuses g)(addrProc \<mapsto> r)\<rparr>"

section \<open>Splitting blocks\<close>

text \<open>\<open>Chop\<close>: the instructions with indices in [iStart, iEnd); an empty range reads \<open>instrs[0]\<close>
  out of bounds.\<close>

definition chop :: "block \<Rightarrow> nat \<Rightarrow> nat \<Rightarrow> scan_error + block" where
  "chop b iStart iEnd =
     (let instrs = take (iEnd - iStart) (drop iStart (b_instrs b))
      in case instrs of
           [] \<Rightarrow> Inl IndexOutOfRange
         | i0 # _ \<Rightarrow>
             (let addr = i_addr i0; lst = last instrs
              in mk_block addr (int (i_addr lst) - int addr + int (i_length lst)) instrs))"

definition steal_edges :: "cfg \<Rightarrow> address \<Rightarrow> address \<Rightarrow> cfg" where
  "steal_edges g xi xj =
     (case cfg_E g xi of
        None \<Rightarrow> g
      | Some edges \<Rightarrow>
          (let e1 = (cfg_E g)(xi := None);
               newEdges = map (\<lambda>e. \<lparr>e_type = e_type e, e_arch = e_arch e, e_from = xj, e_to = e_to e\<rparr>) edges
           in g\<lparr>cfg_E := fst (try_add e1 xj newEdges)\<rparr>))"

text \<open>
  \<open>FindCommonInstructions\<close>: walk both arrays from the back while the addresses agree; the result is
  the index of the first shared instruction in each. On the reversed arrays the loop counts the
  agreeing pairs.
\<close>

fun common_len :: "instr list \<Rightarrow> instr list \<Rightarrow> nat" where
  "common_len (a # as) (b # bs) = (if i_addr a \<noteq> i_addr b then 0 else Suc (common_len as bs))"
| "common_len _ _ = 0"

definition find_common_instructions :: "instr list \<Rightarrow> instr list \<Rightarrow> nat \<times> nat" where
  "find_common_instructions as bs =
     (let k = common_len (rev as) (rev bs) in (length as - k, length bs - k))"

text \<open>\<open>ConcurrentDictionary.TryUpdate\<close>: replace the value if it is still the expected one.\<close>

definition try_update :: "('k \<rightharpoonup> 'v) \<Rightarrow> 'k \<Rightarrow> 'v \<Rightarrow> 'v \<Rightarrow> ('k \<rightharpoonup> 'v)" where
  "try_update m k new old = (if m k = Some old then m(k \<mapsto> new) else m)"

type_synonym split_item = "block \<times> arch_id \<times> address"

datatype split_outcome = Stop cfg | More cfg "split_item list"

definition jump_edge :: "arch_id \<Rightarrow> address \<Rightarrow> address \<Rightarrow> cfg_edge" where
  "jump_edge arch a b = \<lparr>e_type = DirectJump, e_arch = arch, e_from = a, e_to = b\<rparr>"

text \<open>Register \<open>b\<close> as ending at \<open>y\<close>, or put it on the worklist when another block already does.\<close>

definition claim_end :: "cfg \<Rightarrow> block \<Rightarrow> address \<Rightarrow> arch_id \<Rightarrow> address \<Rightarrow> cfg \<times> split_item list" where
  "claim_end g b start arch y =
     (let (g', ok) = try_register_block_end g start y in (g', if ok then [] else [(b, arch, y)]))"

text \<open>
  First case of \<open>SplitBlock\<close>: the shared instructions do not consume the whole of a block. The
  shared tail becomes a block of its own unless its start is already taken.
\<close>

definition register_shared_tail :: "cfg \<Rightarrow> block \<Rightarrow> address \<Rightarrow> nat \<Rightarrow> address \<Rightarrow> scan_error + cfg" where
  "register_shared_tail g Bi xi i sAddress =
     (case cfg_C g xi of
        None \<Rightarrow> Inl KeyNotFound
      | Some proc \<Rightarrow>
          (let (g1, fresh) = try_register_block_start g sAddress proc in
           if \<not> fresh then Inr g1
           else
             (let sSize = b_size Bi - (int sAddress - int (i_addr (hd (b_instrs Bi))));
                  sInstrs = drop i (b_instrs Bi)
              in map_sum id fst (try_register_block g1 sAddress sSize sInstrs))))"

definition split_shared_tail :: "cfg \<Rightarrow> block \<Rightarrow> block \<Rightarrow> arch_id \<Rightarrow> address \<Rightarrow> nat \<Rightarrow> nat
    \<Rightarrow> scan_error + split_outcome" where
  "split_shared_tail g Bi Bj arch xi i j =
     (case arr_get (b_instrs Bi) i of
        None \<Rightarrow> Inl IndexOutOfRange
      | Some si \<Rightarrow>
          (let sAddress = i_addr si; xj = b_addr Bj in
           case register_shared_tail g Bi xi i sAddress of
             Inl e \<Rightarrow> Inl e
           | Inr g2 \<Rightarrow>
               (let g3 = steal_edges g2 xi sAddress;
                    g4 = register_edge g3 (jump_edge arch xi sAddress);
                    g5 = register_edge g4 (jump_edge arch xj sAddress)
                in case (chop Bi 0 i, chop Bj 0 j) of
                     (Inl e, _) \<Rightarrow> Inl e
                   | (Inr _, Inl e) \<Rightarrow> Inl e
                   | (Inr newI, Inr newJ) \<Rightarrow>
                       (let (g6, w1) = claim_end g5 newI (b_addr newI) arch sAddress;
                            (g7, w2) = claim_end g6 newJ (b_addr newJ) arch sAddress
                        in Inr (More g7 (w1 @ w2))))))"

text \<open>Second case: the block at \<open>xj\<close> falls through into the one at \<open>xi\<close>.\<close>

definition split_fall_into_i :: "cfg \<Rightarrow> block \<Rightarrow> arch_id \<Rightarrow> address \<Rightarrow> nat
    \<Rightarrow> scan_error + split_outcome" where
  "split_fall_into_i g Bj arch xi j =
     (case chop Bj 0 j of
        Inl e \<Rightarrow> Inl e
      | Inr newJ \<Rightarrow>
          (let xj = b_addr Bj;
               g1 = g\<lparr>cfg_B := try_update (cfg_B g) xj newJ Bj\<rparr>;
               g2 = register_edge g1 (jump_edge arch xj xi);
               addrLast = i_addr (last (b_instrs newJ));
               (g3, w) = claim_end g2 newJ xj arch addrLast
           in Inr (More g3 w)))"

text \<open>Third case: the block at \<open>xi\<close> falls through into the one at \<open>xj\<close>.\<close>

definition split_fall_into_j :: "cfg \<Rightarrow> block \<Rightarrow> block \<Rightarrow> arch_id \<Rightarrow> address \<Rightarrow> nat
    \<Rightarrow> scan_error + split_outcome" where
  "split_fall_into_j g Bi Bj arch xi i =
     (case chop Bi 0 i of
        Inl e \<Rightarrow> Inl e
      | Inr newI \<Rightarrow>
          (let xj = b_addr Bj;
               g1 = g\<lparr>cfg_B := try_update (cfg_B g) (b_addr Bi) newI Bi\<rparr>;
               g2 = steal_edges g1 xi xj;
               g3 = register_edge g2 (jump_edge arch xi xj);
               addrLast = i_addr (last (b_instrs newI));
               (g4, w) = claim_end g3 newI xi arch addrLast
           in Inr (More g4 w)))"

text \<open>One iteration of the worklist loop. \<open>Stop\<close> is the \<open>return\<close> in the middle of it.\<close>

definition split_step :: "cfg \<Rightarrow> split_item \<Rightarrow> scan_error + split_outcome" where
  "split_step g item =
     (case item of (Bj, arch, y) \<Rightarrow>
        (case cfg_BlockEnds g y of
           None \<Rightarrow> Inl KeyNotFound
         | Some xi \<Rightarrow>
             if xi = b_addr Bj then Inr (Stop g)
             else
               (case cfg_B g xi of
                  None \<Rightarrow> Inl KeyNotFound
                | Some Bi \<Rightarrow>
                    (let (i, j) = find_common_instructions (b_instrs Bi) (b_instrs Bj)
                     in if i \<noteq> 0 \<and> j \<noteq> 0 then split_shared_tail g Bi Bj arch xi i j
                        else if b_addr Bj < xi then split_fall_into_i g Bj arch xi j
                        else split_fall_into_j g Bi Bj arch xi i))))"

text \<open>The loop; None when the fuel runs out.\<close>

fun split_loop :: "nat \<Rightarrow> cfg \<Rightarrow> split_item list \<Rightarrow> (scan_error + cfg) option" where
  "split_loop 0 g wl = None"
| "split_loop (Suc fuel) g [] = Some (Inr g)"
| "split_loop (Suc fuel) g (item # wl) =
     (case split_step g item of
        Inl e \<Rightarrow> Some (Inl e)
      | Inr (Stop g') \<Rightarrow> Some (Inr g')
      | Inr (More g' w) \<Rightarrow> split_loop fuel g' (wl @ w))"

text \<open>No item's block ends beyond the last instruction of the new block; that bounds the iterations.\<close>

definition split_fuel :: "block \<Rightarrow> nat" where
  "split_fuel b = 2 ^ (i_addr (last (b_instrs b)) + 3)"

definition split_block :: "cfg \<Rightarrow> block \<Rightarrow> arch_id \<Rightarrow> address \<Rightarrow> (scan_error + cfg) option" where
  "split_block g b arch addrEnd = split_loop (split_fuel b) g [(b, arch, addrEnd)]"

section \<open>Facts about the dictionaries and the helpers\<close>

lemma try_add_simps [cfg_simps]:
  "m k = None \<Longrightarrow> try_add m k v = (m(k \<mapsto> v), True)"
  "m k = Some w \<Longrightarrow> try_add m k v = (m, False)"
  by (auto simp: try_add_def)

lemma try_add_le: "m \<subseteq>\<^sub>m fst (try_add m k v)"
  by (auto simp: try_add_def map_le_def split: option.splits)

lemma claim_end_simps [cfg_simps]:
  "cfg_BlockEnds g y = None \<Longrightarrow>
     claim_end g b s a y = (g\<lparr>cfg_BlockEnds := (cfg_BlockEnds g)(y \<mapsto> s)\<rparr>, [])"
  "cfg_BlockEnds g y = Some z \<Longrightarrow> claim_end g b s a y = (g, [(b, a, y)])"
  by (auto simp: claim_end_def try_register_block_end_def cfg_simps)

lemma register_edge_frame [simp]:
  "cfg_B (register_edge g e) = cfg_B g" "cfg_BlockEnds (register_edge g e) = cfg_BlockEnds g"
  "cfg_C (register_edge g e) = cfg_C g"
  by (auto simp: register_edge_def split: option.splits)

lemma steal_edges_frame [simp]:
  "cfg_B (steal_edges g a b) = cfg_B g" "cfg_BlockEnds (steal_edges g a b) = cfg_BlockEnds g"
  "cfg_C (steal_edges g a b) = cfg_C g"
  by (auto simp: steal_edges_def split: option.splits)

lemma register_start_frame [simp]:
  "cfg_B (fst (try_register_block_start g a b)) = cfg_B g"
  "cfg_BlockEnds (fst (try_register_block_start g a b)) = cfg_BlockEnds g"
  by (auto simp: try_register_block_start_def split: prod.splits)

lemma claim_end_frame [simp]: "cfg_B (fst (claim_end g b s a y)) = cfg_B g"
  by (auto simp: claim_end_def try_register_block_end_def split: prod.splits)

lemma claim_end_ends: "cfg_BlockEnds g \<subseteq>\<^sub>m cfg_BlockEnds (fst (claim_end g b s a y))"
  using try_add_le[of "cfg_BlockEnds g" y s]
  by (auto simp: claim_end_def try_register_block_end_def split: prod.splits)

lemma claim_end_items: "set (snd (claim_end g b s a y)) \<subseteq> {(b, a, y)}"
  by (auto simp: claim_end_def split: prod.splits if_splits)

lemma claim_end_length: "length (snd (claim_end g b s a y)) \<le> 1"
  by (auto simp: claim_end_def split: prod.splits if_splits)

lemma common_len_le: "common_len as bs \<le> length as \<and> common_len as bs \<le> length bs"
  by (induction as bs rule: common_len.induct) auto

lemma common_len_agree:
  "map i_addr (take (common_len as bs) as) = map i_addr (take (common_len as bs) bs)"
  by (induction as bs rule: common_len.induct) auto

lemma find_common_drop:
  assumes "find_common_instructions as bs = (i, j)"
  shows "i \<le> length as" "j \<le> length bs" "length as - i = length bs - j"
    "map i_addr (drop i as) = map i_addr (drop j bs)"
proof -
  define k where "k = common_len (rev as) (rev bs)"
  have k: "k \<le> length as" "k \<le> length bs"
    using common_len_le[of "rev as" "rev bs"] by (auto simp: k_def)
  from assms have ij: "i = length as - k" "j = length bs - k"
    by (auto simp: find_common_instructions_def Let_def k_def)
  show "i \<le> length as" "j \<le> length bs" "length as - i = length bs - j" using ij k by auto
  have "map i_addr (take k (rev as)) = map i_addr (take k (rev bs))"
    unfolding k_def by (rule common_len_agree)
  then show "map i_addr (drop i as) = map i_addr (drop j bs)"
    unfolding take_rev rev_map[symmetric] rev_is_rev_conv ij .
qed

section \<open>Well-formed blocks\<close>

text \<open>A block's instructions have increasing addresses and start at the block's address.\<close>

definition block_ok :: "block \<Rightarrow> bool" where
  "block_ok b \<longleftrightarrow> b_instrs b \<noteq> [] \<and> sorted_wrt (<) (map i_addr (b_instrs b)) \<and>
     i_addr (hd (b_instrs b)) = b_addr b"

definition store_ok :: "cfg \<Rightarrow> bool" where
  "store_ok g \<longleftrightarrow> (\<forall>x b. cfg_B g x = Some b \<longrightarrow> block_ok b \<and> b_addr b = x)"

definition item_ok :: "split_item \<Rightarrow> bool" where
  "item_ok it \<longleftrightarrow> (case it of (b, a, y) \<Rightarrow> block_ok b \<and> (\<forall>i \<in> set (b_instrs b). i_addr i \<le> y))"

lemma store_okD: "store_ok g \<Longrightarrow> cfg_B g x = Some b \<Longrightarrow> block_ok b \<and> b_addr b = x"
  by (auto simp: store_ok_def)

lemma mk_block_Inr:
  "mk_block a n is = Inr b \<longleftrightarrow> 0 < n \<and> b = \<lparr>b_addr = a, b_size = n, b_instrs = is\<rparr>"
  by (auto simp: mk_block_def)

lemma chop_prefix:
  assumes "chop b 0 n = Inr c" and "block_ok b"
  shows "block_ok c" "b_addr c = b_addr b" "b_instrs c = take n (b_instrs b)" "0 < n"
proof -
  define t where "t = take n (b_instrs b)"
  from assms(1) have "t \<noteq> [] \<and> b_instrs c = t \<and> b_addr c = i_addr (hd t)"
    unfolding chop_def minus_nat.diff_0 drop_0 t_def[symmetric]
    by (auto simp: Let_def mk_block_Inr split: list.splits)
  then have ne: "take n (b_instrs b) \<noteq> []" and c: "b_instrs c = take n (b_instrs b)"
      "b_addr c = i_addr (hd (take n (b_instrs b)))"
    unfolding t_def by blast+
  then show "b_instrs c = take n (b_instrs b)" by blast
  show "0 < n" using ne by (cases n) auto
  have "hd (take n (b_instrs b)) = hd (b_instrs b)" using ne by (simp add: hd_take)
  then show "b_addr c = b_addr b" "block_ok c"
    using assms(2) c ne by (auto simp: block_ok_def sorted_wrt_take simp flip: take_map)
qed

lemma chop_suffix_free: "chop b 0 0 = Inl IndexOutOfRange"
  by (simp add: chop_def)

lemma block_ok_drop:
  "block_ok b \<Longrightarrow> i < length (b_instrs b) \<Longrightarrow>
   block_ok \<lparr>b_addr = i_addr (b_instrs b ! i), b_size = n, b_instrs = drop i (b_instrs b)\<rparr>"
  by (auto simp: block_ok_def hd_drop_conv_nth sorted_wrt_drop simp flip: drop_map)

lemma store_ok_add:
  "store_ok g \<Longrightarrow> block_ok b \<Longrightarrow> b_addr b = x \<Longrightarrow> store_ok (g\<lparr>cfg_B := (cfg_B g)(x \<mapsto> b)\<rparr>)"
  by (auto simp: store_ok_def)

lemma store_ok_update:
  "store_ok g \<Longrightarrow> block_ok b \<Longrightarrow> b_addr b = x \<Longrightarrow>
   store_ok (g\<lparr>cfg_B := try_update (cfg_B g) x b old\<rparr>)"
  by (auto simp: store_ok_def try_update_def)

lemma register_block_ok:
  assumes "try_register_block g x n is = Inr (g', r)" and "store_ok g"
    and "\<And>n. block_ok \<lparr>b_addr = x, b_size = n, b_instrs = is\<rparr>"
  shows "store_ok g'" "cfg_BlockEnds g' = cfg_BlockEnds g" "cfg_B g \<subseteq>\<^sub>m cfg_B g'"
  using assms
  by (auto simp: try_register_block_def mk_block_def try_add_def store_ok_def map_le_def
      split: if_splits option.splits)

section \<open>SplitBlock stops\<close>

text \<open>An item is terminal when the loop returns on it: its block owns the block end.\<close>

definition terminal :: "cfg \<Rightarrow> split_item \<Rightarrow> bool" where
  "terminal g it \<longleftrightarrow> (case it of (b, a, y) \<Rightarrow> cfg_BlockEnds g y = Some (b_addr b))"

lemma terminal_stops: "terminal g it \<Longrightarrow> split_step g it = Inr (Stop g)"
  by (auto simp: terminal_def split_step_def split: prod.splits)

lemma terminal_mono: "terminal g it \<Longrightarrow> cfg_BlockEnds g \<subseteq>\<^sub>m cfg_BlockEnds g' \<Longrightarrow> terminal g' it"
  by (auto simp: terminal_def map_le_def dom_def split: prod.splits)

definition progress :: "cfg \<Rightarrow> address \<Rightarrow> cfg \<Rightarrow> split_item list \<Rightarrow> bool" where
  "progress g y g' w \<longleftrightarrow> store_ok g' \<and> cfg_BlockEnds g \<subseteq>\<^sub>m cfg_BlockEnds g' \<and>
     (\<forall>it \<in> set w. item_ok it) \<and> length w \<le> 2 \<and>
     ((w \<noteq> [] \<and> terminal g' (hd w)) \<or> (\<forall>(b, a, z) \<in> set w. z < y))"

lemma last_take_less:
  assumes "sorted_wrt (<) (map i_addr is)" and "0 < n" and "n < length is"
  shows "i_addr (last (take n is)) < i_addr (is ! n)"
proof -
  have "last (take n is) = is ! (n - 1)" using assms by (subst last_conv_nth) auto
  then show ?thesis using assms sorted_wrt_nth_less[OF assms(1), of "n - 1" n] by simp
qed

lemma take_le_last:
  assumes "sorted_wrt (<) (map i_addr is)" and "x \<in> set is"
  shows "i_addr x \<le> i_addr (last is)"
proof -
  have "sorted (map i_addr is)" using assms(1) by (rule strict_sorted_imp_sorted)
  moreover obtain k where "k < length is" "x = is ! k" using assms(2) by (metis in_set_conv_nth)
  ultimately show ?thesis
    by (subst last_conv_nth) (auto dest: sorted_nth_mono[of _ k "length is - 1"])
qed

lemma chopped_item_ok:
  assumes "chop b 0 n = Inr c" and "block_ok b"
  shows "item_ok (c, a, i_addr (last (b_instrs c)))"
  using chop_prefix[OF assms] take_le_last by (auto simp: item_ok_def block_ok_def)

lemma progress_claim:
  assumes "store_ok g2" and "cfg_BlockEnds g2 = cfg_BlockEnds g" and "item_ok (b, arch, z)" and "z < y"
  shows "progress g y (fst (claim_end g2 b s arch z)) (snd (claim_end g2 b s arch z))"
proof -
  define w where "w = snd (claim_end g2 b s arch z)"
  have eq: "it = (b, arch, z)" if "it \<in> set w" for it
    using claim_end_items[of g2 b s arch z] that unfolding w_def by blast
  have "length w \<le> 2" using claim_end_length[of g2 b s arch z] unfolding w_def by linarith
  moreover have "\<forall>it \<in> set w. item_ok it" using eq assms(3) by blast
  moreover have "\<forall>(b', a', z') \<in> set w. z' < y"
  proof
    fix it assume "it \<in> set w"
    then have "it = (b, arch, z)" by (rule eq)
    with assms(4) show "case it of (b', a', z') \<Rightarrow> z' < y" by simp
  qed
  moreover have "store_ok (fst (claim_end g2 b s arch z))"
    using assms(1) by (simp add: store_ok_def)
  moreover have "cfg_BlockEnds g \<subseteq>\<^sub>m cfg_BlockEnds (fst (claim_end g2 b s arch z))"
    using claim_end_ends[of g2 b s arch z] assms(2) by simp
  ultimately show ?thesis
    unfolding progress_def w_def[symmetric] by (intro conjI disjI2)
qed

lemma chopped_below:
  assumes "chop b 0 n = Inr c" and "block_ok b" and "n < length (b_instrs b)"
  shows "i_addr (last (b_instrs c)) < i_addr (b_instrs b ! n)"
  using chop_prefix[OF assms(1,2)] last_take_less assms(2,3) by (simp add: block_ok_def)

lemma step_fall_into_i:
  assumes "split_fall_into_i g Bj arch xi j = Inr out" and "store_ok g" and "item_ok (Bj, arch, y)"
    and "j < length (b_instrs Bj)"
  shows "\<exists>g' w. out = More g' w \<and> progress g y g' w"
proof -
  from assms(1) obtain nj where nj: "chop Bj 0 j = Inr nj"
    by (auto simp: split_fall_into_i_def split: sum.splits)
  have ok: "block_ok Bj" "\<forall>i \<in> set (b_instrs Bj). i_addr i \<le> y"
    using assms(3) by (auto simp: item_ok_def)
  note C = chop_prefix[OF nj ok(1)]
  define z where "z = i_addr (last (b_instrs nj))"
  define g2 where "g2 = register_edge (g\<lparr>cfg_B := try_update (cfg_B g) (b_addr Bj) nj Bj\<rparr>)
    (jump_edge arch (b_addr Bj) xi)"
  have out: "out = More (fst (claim_end g2 nj (b_addr Bj) arch z)) (snd (claim_end g2 nj (b_addr Bj) arch z))"
    using assms(1) nj by (simp add: split_fall_into_i_def Let_def g2_def z_def case_prod_beta)
  have "z < y"
    using chopped_below[OF nj ok(1) assms(4)] ok(2) nth_mem[OF assms(4)]
    unfolding z_def by (meson order_less_le_trans)
  moreover have "store_ok g2"
    using store_ok_update[OF assms(2) C(1) C(2)] by (simp add: g2_def store_ok_def)
  moreover have "item_ok (nj, arch, z)" unfolding z_def by (rule chopped_item_ok[OF nj ok(1)])
  ultimately show ?thesis
    unfolding out by (auto simp: g2_def intro!: progress_claim)
qed

lemma step_fall_into_j:
  assumes "split_fall_into_j g Bi Bj arch xi i = Inr out" and "store_ok g" and "block_ok Bi"
    and "i < length (b_instrs Bi)" and "i_addr (b_instrs Bi ! i) \<le> y"
  shows "\<exists>g' w. out = More g' w \<and> progress g y g' w"
proof -
  from assms(1) obtain ni where ni: "chop Bi 0 i = Inr ni"
    by (auto simp: split_fall_into_j_def split: sum.splits)
  note C = chop_prefix[OF ni assms(3)]
  define z where "z = i_addr (last (b_instrs ni))"
  define g2 where "g2 = register_edge
    (steal_edges (g\<lparr>cfg_B := try_update (cfg_B g) (b_addr Bi) ni Bi\<rparr>) xi (b_addr Bj))
    (jump_edge arch xi (b_addr Bj))"
  have out: "out = More (fst (claim_end g2 ni xi arch z)) (snd (claim_end g2 ni xi arch z))"
    using assms(1) ni by (simp add: split_fall_into_j_def Let_def g2_def z_def case_prod_beta)
  have "z < y" using chopped_below[OF ni assms(3,4)] assms(5) by (simp add: z_def)
  moreover have "store_ok g2"
    using store_ok_update[OF assms(2) C(1) C(2)] by (simp add: g2_def store_ok_def)
  moreover have "item_ok (ni, arch, z)" unfolding z_def by (rule chopped_item_ok[OF ni assms(3)])
  ultimately show ?thesis
    unfolding out by (auto simp: g2_def intro!: progress_claim)
qed

lemma chopped_item_below:
  assumes "chop b 0 n = Inr c" and "block_ok b" and "n < length (b_instrs b)"
    and "i_addr (b_instrs b ! n) = z"
  shows "item_ok (c, a, z)"
proof -
  note C = chop_prefix[OF assms(1,2)]
  have "i_addr x \<le> z" if "x \<in> set (b_instrs c)" for x
    using take_le_last[of "b_instrs c" x] that C(1) chopped_below[OF assms(1-3)] assms(4)
    by (simp add: block_ok_def)
  with C(1) show ?thesis by (simp add: item_ok_def)
qed

lemma register_shared_tail_ok:
  assumes "register_shared_tail g Bi xi i (i_addr (b_instrs Bi ! i)) = Inr g2" and "store_ok g"
    and "block_ok Bi" and "i < length (b_instrs Bi)"
  shows "store_ok g2" "cfg_BlockEnds g2 = cfg_BlockEnds g"
proof -
  define z where "z = i_addr (b_instrs Bi ! i)"
  from assms(1) obtain proc where pr: "cfg_C g xi = Some proc"
    by (auto simp: register_shared_tail_def split: option.splits)
  define r where "r = try_register_block_start g z proc"
  have start: "store_ok (fst r)" "cfg_BlockEnds (fst r) = cfg_BlockEnds g"
    using assms(2) by (auto simp: r_def store_ok_def)
  have "store_ok g2 \<and> cfg_BlockEnds g2 = cfg_BlockEnds g"
  proof (cases "snd r")
    case True
    with assms(1) pr obtain n o2 where "try_register_block (fst r) z n (drop i (b_instrs Bi)) = Inr (g2, o2)"
      by (auto simp: register_shared_tail_def case_prod_beta Let_def map_sum_def r_def z_def
          split: sum.splits)
    from register_block_ok[OF this start(1)] block_ok_drop[OF assms(3,4)] start(2)
    show ?thesis by (simp add: z_def)
  next
    case False
    with assms(1) pr have "g2 = fst r"
      by (simp add: register_shared_tail_def case_prod_beta Let_def r_def z_def)
    with start show ?thesis by simp
  qed
  then show "store_ok g2" "cfg_BlockEnds g2 = cfg_BlockEnds g" by auto
qed

lemma split_shared_tail_Inr:
  assumes "split_shared_tail g Bi Bj arch xi i j = Inr out" and "store_ok g" and "block_ok Bi"
  obtains g5 ni nj z where
    "i < length (b_instrs Bi)" "z = i_addr (b_instrs Bi ! i)"
    "chop Bi 0 i = Inr ni" "chop Bj 0 j = Inr nj"
    "store_ok g5" "cfg_BlockEnds g5 = cfg_BlockEnds g"
    "out = More (fst (claim_end (fst (claim_end g5 ni (b_addr ni) arch z)) nj (b_addr nj) arch z))
       (snd (claim_end g5 ni (b_addr ni) arch z) @
        snd (claim_end (fst (claim_end g5 ni (b_addr ni) arch z)) nj (b_addr nj) arch z))"
proof -
  from assms(1) have i: "i < length (b_instrs Bi)"
    by (auto simp: split_shared_tail_def arr_get_def split: if_splits)
  define z where "z = i_addr (b_instrs Bi ! i)"
  from assms(1) i obtain g2 ni nj where g2: "register_shared_tail g Bi xi i z = Inr g2"
    and ch: "chop Bi 0 i = Inr ni" "chop Bj 0 j = Inr nj"
    by (auto simp: split_shared_tail_def Let_def z_def split: sum.splits)
  define g5 where "g5 = register_edge (register_edge (steal_edges g2 xi z)
      (jump_edge arch xi z)) (jump_edge arch (b_addr Bj) z)"
  have g5: "store_ok g5" "cfg_BlockEnds g5 = cfg_BlockEnds g"
    using register_shared_tail_ok[OF g2[unfolded z_def] assms(2,3) i] by (auto simp: g5_def store_ok_def)
  have "split_shared_tail g Bi Bj arch xi i j =
      (let (g6, w1) = claim_end g5 ni (b_addr ni) arch z;
           (g7, w2) = claim_end g6 nj (b_addr nj) arch z
       in Inr (More g7 (w1 @ w2)))"
    using i g2 ch by (simp add: split_shared_tail_def Let_def g5_def flip: z_def)
  with that[OF i z_def ch g5] assms(1) show ?thesis
    by (simp add: case_prod_beta Let_def)
qed

lemma step_shared_tail:
  assumes "split_shared_tail g Bi Bj arch xi i j = Inr out" and "store_ok g"
    and Bi: "block_ok Bi" "b_addr Bi = xi"
    and y: "cfg_BlockEnds g y = Some xi \<or> (\<forall>x \<in> set (b_instrs Bj). i_addr x < y)"
    and it: "item_ok (Bj, arch, y)"
    and agree: "map i_addr (drop i (b_instrs Bi)) = map i_addr (drop j (b_instrs Bj))"
  shows "\<exists>g' w. out = More g' w \<and> progress g y g' w"
proof -
  obtain g5 ni nj z where i: "i < length (b_instrs Bi)" and z: "z = i_addr (b_instrs Bi ! i)"
    and ni: "chop Bi 0 i = Inr ni" and nj: "chop Bj 0 j = Inr nj"
    and g5: "store_ok g5" "cfg_BlockEnds g5 = cfg_BlockEnds g"
    and out: "out = More (fst (claim_end (fst (claim_end g5 ni (b_addr ni) arch z)) nj (b_addr nj) arch z))
       (snd (claim_end g5 ni (b_addr ni) arch z) @
        snd (claim_end (fst (claim_end g5 ni (b_addr ni) arch z)) nj (b_addr nj) arch z))"
    by (rule split_shared_tail_Inr[OF assms(1,2) Bi(1)])
  define g6 where "g6 = fst (claim_end g5 ni (b_addr ni) arch z)"
  define w1 where "w1 = snd (claim_end g5 ni (b_addr ni) arch z)"
  define g7 where "g7 = fst (claim_end g6 nj (b_addr nj) arch z)"
  define w2 where "w2 = snd (claim_end g6 nj (b_addr nj) arch z)"
  have Bj: "block_ok Bj" "\<forall>x \<in> set (b_instrs Bj). i_addr x \<le> y" using it by (auto simp: item_ok_def)
  have lens: "length (drop i (b_instrs Bi)) = length (drop j (b_instrs Bj))"
    using arg_cong[OF agree, of length] by simp
  then have j: "j < length (b_instrs Bj)" using i by simp
  have zj: "i_addr (b_instrs Bj ! j) = z"
    using arg_cong[OF agree, of hd] i j z by (simp add: hd_drop_conv_nth hd_map)
  have zy: "z \<le> y" using Bj(2) j zj nth_mem by blast
  have zl: "z < y" if "\<forall>x \<in> set (b_instrs Bj). i_addr x < y" using that j zj nth_mem by blast
  have items: "item_ok (ni, arch, z)" "item_ok (nj, arch, z)"
    using chopped_item_below[OF ni Bi(1) i] chopped_item_below[OF nj Bj(1) j zj] z by auto
  have eq: "it = (ni, arch, z) \<or> it = (nj, arch, z)" if "it \<in> set (w1 @ w2)" for it
    using that claim_end_items[of g5 ni "b_addr ni" arch z] claim_end_items[of g6 nj "b_addr nj" arch z]
    unfolding w1_def w2_def by auto
  have ends: "cfg_BlockEnds g \<subseteq>\<^sub>m cfg_BlockEnds g7"
    unfolding g5(2)[symmetric] g7_def g6_def by (rule map_le_trans[OF claim_end_ends claim_end_ends])
  have "(w1 @ w2 \<noteq> [] \<and> terminal g7 (hd (w1 @ w2))) \<or> (\<forall>(b, a, z') \<in> set (w1 @ w2). z' < y)"
  proof (cases "z = y")
    case True
    with zl y have y: "cfg_BlockEnds g y = Some xi" by auto
    with True have "w1 = [(ni, arch, y)]"
      using g5(2) by (simp add: w1_def cfg_simps)
    moreover have "cfg_BlockEnds g7 y = Some xi"
      using ends y by (auto simp: map_le_def dom_def)
    ultimately show ?thesis
      using chop_prefix(2)[OF ni Bi(1)] Bi(2) by (simp add: terminal_def)
  next
    case False
    with zy eq show ?thesis by fastforce
  qed
  moreover have "store_ok g7" using g5(1) by (simp add: g7_def g6_def store_ok_def)
  moreover have "length (w1 @ w2) \<le> 2"
    using claim_end_length[of g5 ni "b_addr ni" arch z] claim_end_length[of g6 nj "b_addr nj" arch z]
    unfolding w1_def w2_def by simp
  moreover have "\<forall>it \<in> set (w1 @ w2). item_ok it" using eq items by blast
  ultimately have "progress g y g7 (w1 @ w2)" using ends unfolding progress_def by blast
  with out show ?thesis unfolding g7_def g6_def w1_def w2_def by blast
qed

lemma common_zero:
  assumes "find_common_instructions as bs = (i, j)" and "as \<noteq> []" and "bs \<noteq> []" and "i = 0 \<or> j = 0"
  shows "i < length as" "j < length bs"
proof -
  note F = find_common_drop[OF assms(1)]
  have "0 < length as" "0 < length bs" using assms(2,3) by simp_all
  with F(1-3) assms(4) show "i < length as" "j < length bs" by linarith+
qed

lemma agree_nth:
  assumes "map i_addr (drop i as) = map i_addr (drop j bs)" and "i < length as"
  shows "i_addr (as ! i) = i_addr (bs ! j)" "j < length bs"
proof -
  have "length (drop i as) = length (drop j bs)"
    using arg_cong[OF assms(1), of length] by simp
  with assms(2) show j: "j < length bs" by simp
  from arg_cong[OF assms(1), of hd] assms(2) j
  show "i_addr (as ! i) = i_addr (bs ! j)" by (simp add: hd_drop_conv_nth hd_map)
qed

text \<open>The bound m is the block end itself, or any address beyond the instructions of the block.\<close>

lemma split_step_progress:
  assumes step: "split_step g (Bj, arch, y) = Inr (More g' w)" and g: "store_ok g"
    and it: "item_ok (Bj, arch, m)" and m: "m = y \<or> (\<forall>x \<in> set (b_instrs Bj). i_addr x < m)"
  shows "progress g m g' w"
proof -
  from step obtain xi Bi where y: "cfg_BlockEnds g y = Some xi" and xi: "xi \<noteq> b_addr Bj"
    and Bi: "cfg_B g xi = Some Bi"
    by (auto simp: split_step_def split: option.splits if_splits)
  obtain i j where ij: "find_common_instructions (b_instrs Bi) (b_instrs Bj) = (i, j)" by fastforce
  note F = find_common_drop[OF ij]
  have okI: "block_ok Bi" "b_addr Bi = xi" using store_okD[OF g Bi] by auto
  have okJ: "block_ok Bj" "\<forall>x \<in> set (b_instrs Bj). i_addr x \<le> m" using it by (auto simp: item_ok_def)
  have ne: "b_instrs Bi \<noteq> []" "b_instrs Bj \<noteq> []" using okI okJ by (auto simp: block_ok_def)
  consider (tail) "i \<noteq> 0 \<and> j \<noteq> 0" | (I) "i = 0 \<or> j = 0" "b_addr Bj < xi"
    | (J) "i = 0 \<or> j = 0" "\<not> b_addr Bj < xi" by (cases "i = 0 \<or> j = 0"; cases "b_addr Bj < xi") auto
  then have "\<exists>g'' w'. More g' w = More g'' w' \<and> progress g m g'' w'"
  proof cases
    case tail
    then have "split_shared_tail g Bi Bj arch xi i j = Inr (More g' w)"
      using step y xi Bi ij by (simp add: split_step_def)
    moreover have "cfg_BlockEnds g m = Some xi \<or> (\<forall>x \<in> set (b_instrs Bj). i_addr x < m)" using y m by auto
    ultimately show ?thesis using step_shared_tail[OF _ g okI _ it F(4)] by blast
  next
    case I
    then have "split_fall_into_i g Bj arch xi j = Inr (More g' w)"
      using step y xi Bi ij by (auto simp: split_step_def)
    from step_fall_into_i[OF this g it common_zero(2)[OF ij ne I(1)]] show ?thesis .
  next
    case J
    then have "split_fall_into_j g Bi Bj arch xi i = Inr (More g' w)"
      using step y xi Bi ij by (auto simp: split_step_def)
    moreover have "i_addr (b_instrs Bi ! i) \<le> m"
      using agree_nth[OF F(4) common_zero(1)[OF ij ne J(1)]] okJ(2) by simp
    ultimately show ?thesis
      using step_fall_into_j g okI(1) common_zero(1)[OF ij ne J(1)] by blast
  qed
  then show ?thesis by blast
qed

lemma split_loop_terminal:
  "k < length wl \<Longrightarrow> terminal g (wl ! k) \<Longrightarrow> k < fuel \<Longrightarrow> store_ok g \<Longrightarrow> \<forall>it \<in> set wl. item_ok it \<Longrightarrow>
   split_loop fuel g wl \<noteq> None"
proof (induction fuel arbitrary: k g wl)
  case (Suc fuel)
  from Suc.prems(1) obtain it rest where wl: "wl = it # rest" by (cases wl) auto
  show ?case
  proof (cases k)
    case 0
    with Suc.prems wl show ?thesis by (simp add: terminal_stops)
  next
    case (Suc k')
    obtain b a y where it: "it = (b, a, y)" by (cases it)
    show ?thesis
    proof (cases "split_step g it")
      case (Inr out)
      show ?thesis
      proof (cases out)
        case (More g' w)
        have P: "progress g y g' w"
          using split_step_progress[of g b a y g' w y] Inr More it wl Suc.prems(4,5) by simp
        have "split_loop fuel g' (rest @ w) \<noteq> None"
        proof (rule Suc.IH[of k'])
          show "k' < length (rest @ w)" "k' < fuel" using Suc.prems wl \<open>k = Suc k'\<close> by auto
          show "terminal g' ((rest @ w) ! k')"
            using Suc.prems wl \<open>k = Suc k'\<close> P terminal_mono
            by (auto simp: nth_append progress_def)
          show "store_ok g'" "\<forall>it \<in> set (rest @ w). item_ok it"
            using P Suc.prems wl by (auto simp: progress_def)
        qed
        with Inr More wl show ?thesis by simp
      qed (simp add: Inr wl)
    qed (simp add: wl)
  qed
qed simp

definition weight :: "split_item \<Rightarrow> nat" where
  "weight it = (case it of (b, a, y) \<Rightarrow> 2 ^ (y + 1) - 1)"

lemma weight_pos: "0 < weight it"
proof -
  obtain b a y where "it = (b, a, y)" by (cases it)
  then have "weight it = 2 * 2 ^ y - 1" by (simp add: weight_def)
  moreover have "0 < (2::nat) ^ y" by (rule zero_less_power) simp
  ultimately show ?thesis by linarith
qed

lemma length_le_weights: "length wl \<le> sum_list (map weight wl)"
proof (induction wl)
  case (Cons it wl)
  then show ?case using weight_pos[of it] by simp
qed simp

lemma weights_below:
  assumes "length w \<le> 2" and "\<forall>(b, a, z) \<in> set w. z < y"
  shows "sum_list (map weight w) < 2 ^ (y + 1) - 1"
proof -
  have "weight it + 1 \<le> 2 ^ y" if "it \<in> set w" for it
  proof -
    obtain b a z where it: "it = (b, a, z)" by (cases it)
    with assms(2) that have "z + 1 \<le> y" by auto
    then have "(2::nat) ^ (z + 1) \<le> 2 ^ y" by (rule power_increasing) simp
    with it show ?thesis by (simp add: weight_def)
  qed
  then have "sum_list (map weight w) \<le> length w * (2 ^ y - 1)"
    using sum_list_mono[of w weight "\<lambda>_. 2 ^ y - 1"] by (force simp: sum_list_triv)
  also have "\<dots> \<le> 2 * (2 ^ y - 1)" using assms(1) by (rule mult_le_mono1)
  also have "\<dots> < 2 ^ (y + 1) - 1"
  proof -
    have "1 \<le> (2::nat) ^ y" by (rule one_le_power) simp
    then show ?thesis by (simp only: power_add power_one_right)
  qed
  finally show ?thesis .
qed

lemma split_loop_total:
  "sum_list (map weight wl) < fuel \<Longrightarrow> store_ok g \<Longrightarrow> \<forall>it \<in> set wl. item_ok it \<Longrightarrow>
   split_loop fuel g wl \<noteq> None"
proof (induction fuel arbitrary: g wl)
  case (Suc fuel)
  show ?case
  proof (cases wl)
    case (Cons it rest)
    obtain b a y where it: "it = (b, a, y)" by (cases it)
    show ?thesis
    proof (cases "split_step g it")
      case (Inr out)
      show ?thesis
      proof (cases out)
        case (More g' w)
        have P: "progress g y g' w"
          using split_step_progress[of g b a y g' w y] Inr More it Cons Suc.prems(2,3) by simp
        have ok: "store_ok g'" "\<forall>it \<in> set (rest @ w). item_ok it"
          using P Suc.prems Cons by (auto simp: progress_def)
        have "split_loop fuel g' (rest @ w) \<noteq> None"
        proof (cases "w \<noteq> [] \<and> terminal g' (hd w)")
          case True
          then have "terminal g' ((rest @ w) ! length rest)" "length rest < length (rest @ w)"
            by (auto simp: nth_append hd_conv_nth[symmetric])
          moreover have "length rest < fuel"
            using Suc.prems(1) Cons length_le_weights[of rest] weight_pos[of it] by simp
          ultimately show ?thesis using split_loop_terminal ok by blast
        next
          case False
          with P have "length w \<le> 2" "\<forall>(b, a, z) \<in> set w. z < y" by (auto simp: progress_def)
          from weights_below[OF this] have "sum_list (map weight w) < weight it"
            by (simp add: it weight_def)
          then have "sum_list (map weight (rest @ w)) < fuel"
            using Suc.prems(1) Cons by simp
          with Suc.IH ok show ?thesis by blast
        qed
        with Inr More Cons show ?thesis by simp
      qed (simp add: Inr Cons)
    qed (simp add: Cons)
  qed simp
qed simp

section \<open>What a split leaves behind\<close>

lemma common_len_append:
  "map i_addr as = map i_addr bs \<Longrightarrow> common_len (as @ xs) (bs @ ys) = length as + common_len xs ys"
  by (induction as bs rule: list_induct2') auto

lemma common_len_zero:
  "xs = [] \<or> ys = [] \<or> i_addr (hd xs) \<noteq> i_addr (hd ys) \<Longrightarrow> common_len xs ys = 0"
  by (cases xs; cases ys) auto

lemma find_common_append:
  assumes "map i_addr s = map i_addr t"
    and "p = [] \<or> q = [] \<or> i_addr (last p) \<noteq> i_addr (last q)"
  shows "find_common_instructions (p @ s) (q @ t) = (length p, length q)"
proof -
  have "common_len (rev s @ rev p) (rev t @ rev q) = length (rev s) + common_len (rev p) (rev q)"
    using assms(1) by (intro common_len_append) (simp add: rev_map[symmetric])
  moreover have "common_len (rev p) (rev q) = 0"
    using assms(2) by (intro common_len_zero) (auto simp: hd_rev)
  moreover have "length s = length t" using assms(1) by (rule map_eq_imp_length_eq)
  ultimately show ?thesis by (simp add: find_common_instructions_def)
qed

text \<open>The instruction addresses that some registered block holds.\<close>

definition covered :: "cfg \<Rightarrow> address set" where
  "covered g = (\<Union>b \<in> ran (cfg_B g). i_addr ` set (b_instrs b))"

lemma covered_frame: "cfg_B g' = cfg_B g \<Longrightarrow> covered g' = covered g"
  by (simp add: covered_def)

lemma covered_trim:
  assumes "cfg_B g x = Some b" and "cfg_B g z = Some c" and "x \<noteq> z"
    and "i_addr ` set (b_instrs b) = i_addr ` set (b_instrs b') \<union> S"
    and "S \<subseteq> i_addr ` set (b_instrs c)" and "cfg_B g' = (cfg_B g)(x \<mapsto> b')"
  shows "covered g' = covered g"
proof -
  let ?A = "\<lambda>b. i_addr ` set (b_instrs b)"
  define R where "R = ran ((cfg_B g)(x := None))"
  have R: "ran (((cfg_B g)(x := None))(x \<mapsto> v)) = insert v R" for v
    unfolding R_def by (rule ran_map_upd) simp
  have "cfg_B g = ((cfg_B g)(x := None))(x \<mapsto> b)" using assms(1) by auto
  then have "ran (cfg_B g) = insert b R" using R by metis
  moreover have "ran (cfg_B g') = insert b' R"
    using R[of b'] assms(6) by simp
  moreover have "c \<in> R" using assms(2,3) unfolding R_def ran_def by auto
  ultimately show ?thesis using assms(4,5) unfolding covered_def by auto
qed

definition prefix_block :: "address \<Rightarrow> instr list \<Rightarrow> block" where
  "prefix_block a is = \<lparr>b_addr = a,
     b_size = int (i_addr (last is)) - int (i_addr (hd is)) + int (i_length (last is)), b_instrs = is\<rparr>"

lemma chop_prefix_block:
  assumes "b_instrs b = p @ s" and "p \<noteq> []" and "block_ok b" and "0 < i_length (last p)"
  shows "chop b 0 (length p) = Inr (prefix_block (b_addr b) p)"
proof -
  obtain i0 r where p: "p = i0 # r" using assms(2) by (cases p) auto
  have "sorted_wrt (<) (map i_addr p)" using assms(1,3) by (simp add: block_ok_def sorted_wrt_append)
  from take_le_last[OF this, of i0] p have "i_addr i0 \<le> i_addr (last p)" by simp
  moreover have "b_addr b = i_addr i0" using assms(1,3) p by (simp add: block_ok_def)
  ultimately show ?thesis
    using assms(1,4) p by (simp add: chop_def Let_def mk_block_def prefix_block_def)
qed

lemma block_ok_hd_less:
  assumes "block_ok b" and "b_instrs b = p @ s" and "p \<noteq> []" and "s \<noteq> []"
  shows "b_addr b < i_addr (hd s)" "i_addr (last p) < i_addr (hd s)"
  using assms by (cases p; cases s; force simp: block_ok_def sorted_wrt_append)+

lemma split_fuel_two: "\<exists>n. split_fuel b = Suc (Suc n)"
proof -
  have "1 < split_fuel b" unfolding split_fuel_def by (rule one_less_power) auto
  then have "split_fuel b = Suc (Suc (split_fuel b - 2))" by arith
  then show ?thesis by blast
qed

lemma split_loop_one:
  assumes "split_step g it = Inr (More g' [])"
  shows "split_loop (split_fuel b) g [it] = Some (Inr g')"
  using split_fuel_two[of b] assms by auto

lemma split_loop_two:
  assumes "split_step g it = Inr (More g' [it'])" and "split_step g' it' = Inl e"
  shows "split_loop (split_fuel b) g [it] = Some (Inl e)"
  using split_fuel_two[of b] assms by auto

lemma split_loop_first:
  assumes "split_step g (b, arch, y) = Inr (More g' w)" and "store_ok g" and "block_ok b"
    and "2 ^ (i_addr (last (b_instrs b)) + 2) \<le> f"
  shows "split_loop f g' w \<noteq> None"
proof -
  define m where "m = Suc (i_addr (last (b_instrs b)))"
  have lt: "\<forall>x \<in> set (b_instrs b). i_addr x < m"
    using take_le_last[of "b_instrs b"] assms(3) by (auto simp: block_ok_def m_def less_Suc_eq_le)
  then have "item_ok (b, arch, m)" using assms(3) by (auto simp: item_ok_def intro: less_imp_le)
  from split_step_progress[OF assms(1,2) this] lt have P: "progress g m g' w" by blast
  have f: "2 ^ (m + 1) \<le> f" using assms(4) by (simp add: m_def)
  have "(0::nat) < 2 ^ (m + 1)" by simp
  with f have pos: "0 < f" by linarith
  show ?thesis
  proof (cases "w \<noteq> [] \<and> terminal g' (hd w)")
    case True
    with pos P show ?thesis
      by (intro split_loop_terminal[of 0]) (auto simp: progress_def hd_conv_nth)
  next
    case False
    with P have "length w \<le> 2" "\<forall>(b, a, z) \<in> set w. z < m" by (auto simp: progress_def)
    from weights_below[OF this] f have "sum_list (map weight w) < f" by linarith
    with P show ?thesis by (intro split_loop_total) (auto simp: progress_def)
  qed
qed

section \<open>Properties\<close>

text \<open>
  C5. \<open>SplitBlock\<close> comes to an end: on a graph whose blocks have increasing instruction addresses and
  start at their own address, and for such a block, the worklist loop returns a graph or raises,
  whatever overlaps the stored blocks have and wherever the block end lies in them. The instruction
  in a delay slot lies beyond the registered block end, and such blocks are included.
\<close>

theorem split_block_ends:
  assumes "store_ok g" and "block_ok b"
  shows "\<exists>r. split_block g b arch y = Some r"
proof -
  define f where "f = split_fuel b - 1"
  have F: "split_fuel b = 2 * 2 ^ (i_addr (last (b_instrs b)) + 2)" by (simp add: split_fuel_def power_add)
  moreover have "0 < (2::nat) ^ (i_addr (last (b_instrs b)) + 2)" by simp
  ultimately have f: "split_fuel b = Suc f" "2 ^ (i_addr (last (b_instrs b)) + 2) \<le> f"
    unfolding f_def by linarith+
  have "split_loop (Suc f) g [(b, arch, y)] \<noteq> None"
    using split_loop_first[OF _ assms f(2)]
    by (cases "split_step g (b, arch, y)") (auto split: split_outcome.splits)
  then show ?thesis by (simp add: split_block_def f(1))
qed

text \<open>
  C6. When the newly traced block \<open>Bj\<close> runs into the start of the registered block \<open>Bi\<close> that owns the
  block end, and no block is registered to end at the last instruction before \<open>Bi\<close>, \<open>SplitBlock\<close> shortens
  \<open>Bj\<close> to the instructions before \<open>Bi\<close>, adds one jump edge from \<open>Bj\<close> to \<open>Bi\<close>, registers \<open>Bj\<close> as the block
  that ends at the address of its new last instruction (the comment at lines 231-233 says: at the
  address of \<open>Bi\<close>; no block end is registered there), leaves every other block alone, and no
  instruction address is lost from the graph.
\<close>

theorem split_block_falls_into_registered:
  assumes "block_ok Bi" and "block_ok Bj" and "b_instrs Bj = p @ s" and "p \<noteq> []"
    and "map i_addr s = map i_addr (b_instrs Bi)" and "0 < i_length (last p)"
    and "cfg_BlockEnds g y = Some (b_addr Bi)" and "cfg_B g (b_addr Bi) = Some Bi"
    and "cfg_B g (b_addr Bj) = Some Bj" and "cfg_BlockEnds g (i_addr (last p)) = None"
  shows "\<exists>g'. split_block g Bj arch y = Some (Inr g') \<and>
    cfg_B g' = (cfg_B g)(b_addr Bj \<mapsto> prefix_block (b_addr Bj) p) \<and>
    cfg_E g' = cfg_E (register_edge g (jump_edge arch (b_addr Bj) (b_addr Bi))) \<and>
    cfg_BlockEnds g' = (cfg_BlockEnds g)(i_addr (last p) \<mapsto> b_addr Bj) \<and> covered g' = covered g"
proof -
  have si: "s \<noteq> []" using assms(1,5) by (auto simp: block_ok_def)
  have "i_addr (hd s) = b_addr Bi"
    using arg_cong[OF assms(5), of hd] si assms(1) by (simp add: hd_map block_ok_def)
  with block_ok_hd_less(1)[OF assms(2,3,4) si] have lt: "b_addr Bj < b_addr Bi" by simp
  have "find_common_instructions ([] @ b_instrs Bi) (p @ s) = (0, length p)"
    using find_common_append[of "b_instrs Bi" s "[]" p] assms(5) by simp
  then have fc: "find_common_instructions (b_instrs Bi) (b_instrs Bj) = (0, length p)"
    using assms(3) by simp
  define Bj' where "Bj' = prefix_block (b_addr Bj) p"
  define g1 where "g1 = register_edge (g\<lparr>cfg_B := (cfg_B g)(b_addr Bj \<mapsto> Bj')\<rparr>)
    (jump_edge arch (b_addr Bj) (b_addr Bi))"
  define g' where "g' = g1\<lparr>cfg_BlockEnds := (cfg_BlockEnds g)(i_addr (last p) \<mapsto> b_addr Bj)\<rparr>"
  have "split_fall_into_i g Bj arch (b_addr Bi) (length p) = Inr (More g' [])"
    using chop_prefix_block[OF assms(3,4,2,6)] assms(9,10)
    by (simp add: split_fall_into_i_def try_update_def Let_def cfg_simps prefix_block_def
        g'_def g1_def Bj'_def)
  then have "split_step g (Bj, arch, y) = Inr (More g' [])"
    using assms(7,8) lt fc by (simp add: split_step_def)
  then have "split_block g Bj arch y = Some (Inr g')"
    unfolding split_block_def by (rule split_loop_one)
  moreover have B: "cfg_B g' = (cfg_B g)(b_addr Bj \<mapsto> Bj')"
    by (simp add: g'_def g1_def)
  moreover have "cfg_E g' = cfg_E (register_edge g (jump_edge arch (b_addr Bj) (b_addr Bi)))"
    by (simp add: g'_def g1_def register_edge_def split: option.splits)
  moreover have "covered g' = covered g"
  proof (rule covered_trim[OF assms(9,8) _ _ _ B])
    show "i_addr ` set (b_instrs Bj) = i_addr ` set (b_instrs Bj') \<union> i_addr ` set s"
      using assms(3) by (auto simp: Bj'_def prefix_block_def)
    show "i_addr ` set s \<subseteq> i_addr ` set (b_instrs Bi)"
      using arg_cong[OF assms(5), of set] by simp
  qed (use lt in simp)
  ultimately show ?thesis by (auto simp: Bj'_def g'_def)
qed

text \<open>
  When the registered block \<open>Bi\<close> that owns the block end runs into the start of the newly traced
  block \<open>Bj\<close>, \<open>SplitBlock\<close> shortens \<open>Bi\<close>, moves its out-edges to \<open>Bj\<close>, links the two, and loses no
  instruction address; the block end itself stays registered to the shortened \<open>Bi\<close>, although
  the comment in the code says that \<open>Bj\<close> replaces it there.
\<close>

lemma split_block_registered_falls_into:
  assumes "block_ok Bi" and "block_ok Bj" and "b_instrs Bi = p @ s" and "p \<noteq> []"
    and "map i_addr s = map i_addr (b_instrs Bj)" and "0 < i_length (last p)"
    and "cfg_BlockEnds g y = Some (b_addr Bi)" and "cfg_B g (b_addr Bi) = Some Bi"
    and "cfg_B g (b_addr Bj) = Some Bj" and "cfg_BlockEnds g (i_addr (last p)) = None"
  shows "\<exists>g'. split_block g Bj arch y = Some (Inr g') \<and>
    cfg_B g' = (cfg_B g)(b_addr Bi \<mapsto> prefix_block (b_addr Bi) p) \<and>
    cfg_E g' = cfg_E (register_edge (steal_edges g (b_addr Bi) (b_addr Bj))
      (jump_edge arch (b_addr Bi) (b_addr Bj))) \<and>
    cfg_BlockEnds g' y = Some (b_addr Bi) \<and>
    cfg_BlockEnds g' (i_addr (last p)) = Some (b_addr Bi) \<and> covered g' = covered g"
proof -
  have sj: "s \<noteq> []" using assms(2,5) by (auto simp: block_ok_def)
  have "i_addr (hd s) = b_addr Bj"
    using arg_cong[OF assms(5), of hd] sj assms(2) by (simp add: hd_map block_ok_def)
  with block_ok_hd_less(1)[OF assms(1,3,4) sj] have lt: "b_addr Bi < b_addr Bj" by simp
  have "find_common_instructions (p @ s) ([] @ b_instrs Bj) = (length p, 0)"
    using find_common_append[of s "b_instrs Bj" p "[]"] assms(5) by simp
  then have fc: "find_common_instructions (b_instrs Bi) (b_instrs Bj) = (length p, 0)"
    using assms(3) by simp
  define Bi' where "Bi' = prefix_block (b_addr Bi) p"
  define g1 where "g1 = register_edge (steal_edges (g\<lparr>cfg_B := (cfg_B g)(b_addr Bi \<mapsto> Bi')\<rparr>)
    (b_addr Bi) (b_addr Bj)) (jump_edge arch (b_addr Bi) (b_addr Bj))"
  define g' where "g' = g1\<lparr>cfg_BlockEnds := (cfg_BlockEnds g)(i_addr (last p) \<mapsto> b_addr Bi)\<rparr>"
  have "split_fall_into_j g Bi Bj arch (b_addr Bi) (length p) = Inr (More g' [])"
    using chop_prefix_block[OF assms(3,4,1,6)] assms(8,10)
    by (simp add: split_fall_into_j_def try_update_def Let_def cfg_simps prefix_block_def
        g'_def g1_def Bi'_def)
  then have "split_step g (Bj, arch, y) = Inr (More g' [])"
    using assms(7,8) lt fc by (simp add: split_step_def)
  then have "split_block g Bj arch y = Some (Inr g')"
    unfolding split_block_def by (rule split_loop_one)
  moreover have B: "cfg_B g' = (cfg_B g)(b_addr Bi \<mapsto> Bi')"
    by (simp add: g'_def g1_def)
  moreover have "cfg_E g' = cfg_E (register_edge (steal_edges g (b_addr Bi) (b_addr Bj))
      (jump_edge arch (b_addr Bi) (b_addr Bj)))"
    by (simp add: g'_def g1_def register_edge_def steal_edges_def Let_def split: option.splits)
  moreover have "covered g' = covered g"
  proof (rule covered_trim[OF assms(8,9) _ _ _ B])
    show "i_addr ` set (b_instrs Bi) = i_addr ` set (b_instrs Bi') \<union> i_addr ` set s"
      using assms(3) by (auto simp: Bi'_def prefix_block_def)
    show "i_addr ` set s \<subseteq> i_addr ` set (b_instrs Bj)"
      using arg_cong[OF assms(5), of set] by simp
  qed (use lt in simp)
  moreover have "cfg_BlockEnds g' y = Some (b_addr Bi)" using assms(7,10) by (simp add: g'_def)
  ultimately show ?thesis by (auto simp: Bi'_def g'_def)
qed

text \<open>The graph after the shared tail got its own block, with the edges to it.\<close>

lemma register_shared_tail_fresh:
  assumes "cfg_C g xi = Some proc" and "cfg_C g z = None"
    and "0 < to_int32 (b_size Bi - (int z - int (i_addr (hd (b_instrs Bi)))))"
  shows "\<exists>g2. register_shared_tail g Bi xi i z = Inr g2 \<and> cfg_BlockEnds g2 = cfg_BlockEnds g \<and>
    (\<forall>x. x \<noteq> z \<longrightarrow> cfg_B g2 x = cfg_B g x)"
  using assms
  by (auto simp: register_shared_tail_def try_register_block_start_def cfg_simps Let_def
      try_register_block_def mk_block_def try_add_def split: option.splits)

text \<open>
  C7. Two blocks that meet in a common tail, each with instructions of its own before it, where no
  block is registered to start or to end at the first common instruction, make \<open>SplitBlock\<close> raise \<open>IndexOutOfRangeException\<close>: the first iteration
  creates the shared block but does not store the shortened blocks, so the second iteration
  compares the shortened new block with the whole old one and indexes one past its end.
\<close>

theorem split_block_shared_tail_raises:
  assumes "block_ok Bi" and "block_ok Bj" and "b_instrs Bi = p @ s" and "b_instrs Bj = q @ t"
    and "p \<noteq> []" and "q \<noteq> []" and "map i_addr s = map i_addr t" and "s \<noteq> []"
    and "i_addr (last p) \<noteq> i_addr (last q)" and "0 < i_length (last p)" and "0 < i_length (last q)"
    and "cfg_BlockEnds g y = Some (b_addr Bi)" and "cfg_B g (b_addr Bi) = Some Bi"
    and "b_addr Bi \<noteq> b_addr Bj" and "cfg_C g (b_addr Bi) = Some proc"
    and "cfg_C g (i_addr (hd s)) = None" and "cfg_BlockEnds g (i_addr (hd s)) = None"
    and "0 < to_int32 (b_size Bi - (int (i_addr (hd s)) - int (b_addr Bi)))"
  shows "split_block g Bj arch y = Some (Inl IndexOutOfRange)"
proof -
  define z where "z = i_addr (hd s)"
  define ni where "ni = prefix_block (b_addr Bi) p"
  define nj where "nj = prefix_block (b_addr Bj) q"
  have ch: "chop Bi 0 (length p) = Inr ni" "chop Bj 0 (length q) = Inr nj"
    unfolding ni_def nj_def by (rule chop_prefix_block; fact)+
  have lt: "b_addr Bi < z" "\<And>x. x \<in> set q \<Longrightarrow> i_addr x < z"
  proof -
    have tz: "t \<noteq> []" "i_addr (hd t) = z"
      using assms(7,8) by (cases s; cases t; simp add: z_def)+
    show "b_addr Bi < z" unfolding z_def by (rule block_ok_hd_less(1)[OF assms(1,3,5,8)])
    show "i_addr x < z" if "x \<in> set q" for x
      using assms(2,4) tz that by (cases t) (auto simp: block_ok_def sorted_wrt_append)
  qed
  have fc: "find_common_instructions (b_instrs Bi) (b_instrs Bj) = (length p, length q)"
    using find_common_append[OF assms(7), of p q] assms(3,4,9) by simp
  have hdI: "i_addr (hd (b_instrs Bi)) = b_addr Bi" using assms(1) by (simp add: block_ok_def)
  obtain g2 where g2: "register_shared_tail g Bi (b_addr Bi) (length p) z = Inr g2"
      "cfg_BlockEnds g2 = cfg_BlockEnds g" "\<forall>x. x \<noteq> z \<longrightarrow> cfg_B g2 x = cfg_B g x"
    using register_shared_tail_fresh[of g "b_addr Bi" proc z Bi "length p"] assms(15,16,18) hdI
    by (auto simp: z_def)
  define g5 where "g5 = register_edge (register_edge (steal_edges g2 (b_addr Bi) z)
    (jump_edge arch (b_addr Bi) z)) (jump_edge arch (b_addr Bj) z)"
  define g6 where "g6 = g5\<lparr>cfg_BlockEnds := (cfg_BlockEnds g)(z \<mapsto> b_addr Bi)\<rparr>"
  have nth: "arr_get (b_instrs Bi) (length p) = Some (hd s)"
    using assms(3,8) by (simp add: arr_get_def nth_append hd_conv_nth)
  have addr: "b_addr ni = b_addr Bi" "b_addr nj = b_addr Bj"
    by (simp_all add: ni_def nj_def prefix_block_def)
  have "split_shared_tail g Bi Bj arch (b_addr Bi) (length p) (length q) = Inr (More g6 [(nj, arch, z)])"
    using nth g2(1,2) ch addr assms(17)
    by (simp add: split_shared_tail_def Let_def cfg_simps g6_def g5_def flip: z_def)
  then have step1: "split_step g (Bj, arch, y) = Inr (More g6 [(nj, arch, z)])"
    using assms(5,6,12-14) fc by (simp add: split_step_def)
  have fc2: "find_common_instructions (b_instrs Bi) (b_instrs nj) = (length (p @ s), length q)"
  proof -
    have "i_addr (last q) < z" using lt(2) assms(6) by simp
    moreover have "z \<le> i_addr (last s)"
    proof -
      have "sorted_wrt (<) (map i_addr s)" using assms(1,3) by (simp add: block_ok_def sorted_wrt_append)
      from take_le_last[OF this] show ?thesis using assms(8) by (simp add: z_def)
    qed
    ultimately have "i_addr (last (p @ s)) \<noteq> i_addr (last q)" using assms(8) by simp
    then show ?thesis
      using find_common_append[of "[]" "[]" "p @ s" q] assms(3) by (simp add: nj_def prefix_block_def)
  qed
  have "split_step g6 (nj, arch, z) = Inl IndexOutOfRange"
    using fc2 g2(3) lt(1) assms(3,5,6,13,14) addr
    by (simp add: split_step_def split_shared_tail_def g6_def g5_def)
  with step1 show ?thesis
    unfolding split_block_def by (rule split_loop_two)
qed

section \<open>Witnesses\<close>

definition op_at :: "address \<Rightarrow> instr" where
  "op_at a = \<lparr>i_addr = a, i_length = 1, i_class = {Linear}, i_valid = True, i_last_operand = None\<rparr>"

definition block_at :: "address \<Rightarrow> address list \<Rightarrow> block" where
  "block_at a as = \<lparr>b_addr = a, b_size = 8, b_instrs = map op_at as\<rparr>"

definition two_blocks :: "block \<Rightarrow> block \<Rightarrow> cfg" where
  "two_blocks Bi Bj = new_cfg\<lparr>cfg_B := [b_addr Bi \<mapsto> Bi, b_addr Bj \<mapsto> Bj],
     cfg_C := [b_addr Bi \<mapsto> 2, b_addr Bj \<mapsto> 2], cfg_BlockEnds := [6 \<mapsto> b_addr Bi]\<rparr>"

lemmas sample_defs = two_blocks_def block_at_def op_at_def new_cfg_def block_ok_def

theorem split_block_ends_witness:
  "\<exists>r. split_block (two_blocks (block_at 2 [2, 4, 6, 8]) (block_at 3 [3, 5, 6, 8])) (block_at 3 [3, 5, 6, 8]) ''mips'' 6 = Some r"
  by (rule split_block_ends) (auto simp: sample_defs store_ok_def split: if_splits)

theorem split_block_falls_into_registered_witness:
  "\<exists>g'. split_block (two_blocks (block_at 4 [4, 6]) (block_at 2 [2, 4, 6])) (block_at 2 [2, 4, 6]) ''x86'' 6 = Some (Inr g') \<and>
     map_option b_instrs (cfg_B g' 2) = Some [op_at 2] \<and> cfg_BlockEnds g' 2 = Some 2"
  using split_block_falls_into_registered[of "block_at 4 [4, 6]" "block_at 2 [2, 4, 6]" "[op_at 2]"
      "[op_at 4, op_at 6]" "two_blocks (block_at 4 [4, 6]) (block_at 2 [2, 4, 6])" 6 "''x86''"]
  by (fastforce simp: sample_defs prefix_block_def)

theorem split_block_registered_falls_into_witness:
  "\<exists>g'. split_block (two_blocks (block_at 2 [2, 4, 6]) (block_at 4 [4, 6])) (block_at 4 [4, 6]) ''x86'' 6 = Some (Inr g') \<and>
     map_option b_instrs (cfg_B g' 2) = Some [op_at 2] \<and> cfg_BlockEnds g' 6 = Some 2"
  using split_block_registered_falls_into[of "block_at 2 [2, 4, 6]" "block_at 4 [4, 6]" "[op_at 2]"
      "[op_at 4, op_at 6]" "two_blocks (block_at 2 [2, 4, 6]) (block_at 4 [4, 6])" 6 "''x86''"]
  by (fastforce simp: sample_defs prefix_block_def)

theorem split_block_shared_tail_raises_witness:
  "split_block (two_blocks (block_at 2 [2, 4, 6]) (block_at 3 [3, 4, 6])) (block_at 3 [3, 4, 6]) ''x86'' 6
     = Some (Inl IndexOutOfRange)"
  by (rule split_block_shared_tail_raises[where Bi = "block_at 2 [2, 4, 6]" and p = "[op_at 2]"
        and s = "[op_at 4, op_at 6]" and q = "[op_at 3]" and t = "[op_at 4, op_at 6]" and proc = 2])
    (simp_all add: sample_defs to_int32_def)

end
