(* ===== verification/Scan_Worker.thy ===== *)
theory Scan_Worker
  imports Scan_Cfg Heap_Queue
begin

text \<open>
  What one \<open>ProcedureWorker\<close> (\<open>parallel/Scanner/ProcedureWorker.cs\<close>) does with a work item: linear
  parsing up to the next control transfer instruction, registration of the block and its end, creation of the
  out-edges, and the handling of each edge. Instructions come from Reko's disassembler, which is
  not part of this repository: \<open>dasm arch addr\<close> is the (finite) sequence it yields from \<open>addr\<close>.
  The locking protocol around these steps is in \<open>Worker_Protocol\<close>.
\<close>

section \<open>State\<close>

record work_item =
  wi_arch :: arch_id
  wi_start :: address
  wi_dasm :: "instr list"
  wi_instrs :: "instr list"

text \<open>The enumeration \<open>Priority\<close> in its declared order.\<close>

definition prio_DirectJump :: nat where "prio_DirectJump = 0"
definition prio_IndirectJump :: nat where "prio_IndirectJump = 1"
definition prio_Call :: nat where "prio_Call = 2"
definition prio_Linear :: nat where "prio_Linear = 3"

record worker =
  w_proc :: address
  w_arch :: arch_id
  w_queue :: "(work_item, nat) pq"
  w_waiting :: "(address \<times> address \<times> address) list"

definition make_work_item :: "(arch_id \<Rightarrow> address \<Rightarrow> instr list) \<Rightarrow> arch_id \<Rightarrow> address \<Rightarrow> work_item" where
  "make_work_item dasm arch addr = \<lparr>wi_arch = arch, wi_start = addr, wi_dasm = dasm arch addr, wi_instrs = []\<rparr>"

definition no_item :: "(work_item, nat) heap_item" where
  "no_item = \<lparr>hi_value = \<lparr>wi_arch = [], wi_start = 0, wi_dasm = [], wi_instrs = []\<rparr>, hi_priority = 0\<rparr>"

definition new_worker :: "(arch_id \<Rightarrow> address \<Rightarrow> instr list) \<Rightarrow> cfg \<Rightarrow> arch_id \<Rightarrow> address
    \<Rightarrow> (cfg \<times> worker) option" where
  "new_worker dasm g arch addrProc =
     (let (g', ok) = try_register_procedure g arch addrProc;
          w = \<lparr>w_proc = addrProc, w_arch = arch, w_queue = new_pq no_item, w_waiting = []\<rparr>
      in if ok then
           map_option (\<lambda>q. (g', w\<lparr>w_queue := q\<rparr>))
             (enqueue no_item (make_work_item dasm arch addrProc) prio_Linear (w_queue w))
         else Some (g', w))"

section \<open>Linear parsing\<close>

text \<open>The loop of \<open>ParseLinear\<close> over the disassembler: the rest of the stream, the collected
  instructions, and the instruction that ended the run (None for a bad or endless run).\<close>

primrec parse_loop :: "instr list \<Rightarrow> instr list \<Rightarrow> instr list \<times> instr list \<times> instr option" where
  "parse_loop [] acc = ([], acc, None)"
| "parse_loop (d # ds) acc =
     (if \<not> i_valid d then (ds, acc, None)
      else if i_class d \<noteq> {Linear} then (ds, acc @ [d], Some d)
      else parse_loop ds (acc @ [d]))"

definition parse_linear :: "work_item \<Rightarrow> work_item \<times> instr option" where
  "parse_linear item =
     (let (ds, is, r) = parse_loop (wi_dasm item) (wi_instrs item)
      in (item\<lparr>wi_dasm := ds, wi_instrs := is\<rparr>, r))"

section \<open>Closing a block\<close>

definition determine_target_address :: "instr \<Rightarrow> address option" where
  "determine_target_address ins = i_last_operand ins"

definition mark_bad_block :: "cfg \<Rightarrow> address \<Rightarrow> cfg" where
  "mark_bad_block g a = fst (try_register_bad_block g a)"

text \<open>The delay slot: None when the block is bad.\<close>

definition take_delay_slot :: "work_item \<Rightarrow> instr \<Rightarrow> work_item option" where
  "take_delay_slot item ins =
     (if Delay \<in> i_class ins then
        (case wi_dasm item of
           [] \<Rightarrow> None
         | d # ds \<Rightarrow>
             if Linear \<notin> i_class d then None
             else Some (item\<lparr>wi_dasm := ds, wi_instrs := wi_instrs item @ [d]\<rparr>))
      else Some item)"

definition edge :: "edge_type \<Rightarrow> arch_id \<Rightarrow> address \<Rightarrow> address \<Rightarrow> cfg_edge" where
  "edge ty arch a b = \<lparr>e_type = ty, e_arch = arch, e_from = a, e_to = b\<rparr>"

text \<open>The out-edges of the block that owns its end; the graph changes for a return.\<close>

definition out_edges :: "cfg \<Rightarrow> worker \<Rightarrow> work_item \<Rightarrow> instr \<Rightarrow> scan_error + (cfg \<times> cfg_edge list)" where
  "out_edges g w item ins =
     (if Transfer \<in> i_class ins then
        (case determine_target_address ins of
           Some addrTarget \<Rightarrow>
             if Call_flag \<in> i_class ins then
               Inr (g, [edge Call (wi_arch item) (wi_start item) addrTarget])
             else
               Inr (g, (if Conditional \<in> i_class ins
                        then [edge DirectJump (wi_arch item) (wi_start item) (i_addr ins + i_length ins)]
                        else []) @
                       [edge DirectJump (wi_arch item) (wi_start item) addrTarget])
         | None \<Rightarrow>
             if Return_flag \<in> i_class ins then
               Inr (set_procedure_return_status g (w_proc w) Returns,
                    [edge Return (w_arch w) (wi_start item) (w_proc w)])
             else Inl NotImplemented)
      else Inl NotImplemented)"

definition register_block_end :: "cfg \<Rightarrow> worker \<Rightarrow> work_item \<Rightarrow> instr
    \<Rightarrow> (scan_error + (cfg \<times> cfg_edge list)) option" where
  "register_block_end g w item0 ins =
     (case take_delay_slot item0 ins of
        None \<Rightarrow> Some (Inr (mark_bad_block g (wi_start item0), []))
      | Some item \<Rightarrow>
          (case try_register_block g (wi_start item)
                  (int (i_addr ins) - int (wi_start item) + int (i_length ins)) (wi_instrs item) of
             Inl e \<Rightarrow> Some (Inl e)
           | Inr (g1, None) \<Rightarrow> Some (Inl InvalidOperation)
           | Inr (g1, Some blk) \<Rightarrow>
               (let (g2, ok) = try_register_block_end g1 (wi_start item) (i_addr ins) in
                if ok then Some (out_edges g2 w item ins)
                else map_option (map_sum id (\<lambda>g3. (g3, [])))
                       (split_block g2 blk (wi_arch item) (i_addr ins)))))"

section \<open>Following the edges\<close>

text \<open>\<open>TryEnqueueWorkitem\<close> on the worker's own queue, outside contention.\<close>

definition push_item :: "work_item \<Rightarrow> nat \<Rightarrow> worker \<Rightarrow> worker option" where
  "push_item item p w = map_option (\<lambda>q. w\<lparr>w_queue := q\<rparr>) (enqueue no_item item p (w_queue w))"

text \<open>\<open>IsCalleeReturnStatusKnown\<close>: for a callee known to return, the fall-through edge is
  registered and the instruction after the call queued.\<close>

definition is_callee_return_status_known :: "(arch_id \<Rightarrow> address \<Rightarrow> instr list) \<Rightarrow> cfg \<Rightarrow> worker
    \<Rightarrow> cfg_edge \<Rightarrow> address \<Rightarrow> address \<Rightarrow> (cfg \<times> worker \<times> bool) option" where
  "is_callee_return_status_known dasm g w e addrProc addrNext =
     (case get_procedure_return_status g addrProc of
        Returns \<Rightarrow>
          map_option (\<lambda>w'. (register_edge g (edge FallThrough (w_arch w) (e_from e) addrNext), w', True))
            (push_item (make_work_item dasm (w_arch w) addrNext) prio_Linear w)
      | Diverges \<Rightarrow> Some (g, w, True)
      | Unknown \<Rightarrow> Some (g, w, False))"

text \<open>What a worker asks of other workers: wait for the return status of a callee, or wake a caller.\<close>

datatype request =
    AwaitCallee address address address
  | WakeCaller address address address

text \<open>\<open>ProcessReturn\<close>: the procedure returns, and every waiting caller is woken, in the order in
  which the callers registered (fall-through address, call, caller).\<close>

definition process_return :: "cfg \<Rightarrow> worker \<Rightarrow> cfg \<times> worker \<times> request list" where
  "process_return g w =
     (set_procedure_return_status g (w_proc w) Returns, w\<lparr>w_waiting := []\<rparr>,
      map (\<lambda>(addrFallthrough, addrCaller, caller). WakeCaller addrFallthrough addrCaller caller) (w_waiting w))"

text \<open>\<open>TryEnqueueCaller\<close> on a worker that is not finishing; \<open>Dictionary.Add\<close> refuses a second entry
  for the same fall-through address (None).\<close>

definition try_enqueue_caller :: "worker \<Rightarrow> address \<Rightarrow> address \<Rightarrow> address \<Rightarrow> worker option" where
  "try_enqueue_caller w caller addrCall addrFallthrough =
     (if addrFallthrough \<in> fst ` set (w_waiting w) then None
      else Some (w\<lparr>w_waiting := w_waiting w @ [(addrFallthrough, addrCall, caller)]\<rparr>))"

text \<open>One turn of the loop in \<open>ProcessEdges\<close>; the request list says what the turn asks of other workers.\<close>

definition process_edge :: "(arch_id \<Rightarrow> address \<Rightarrow> instr list) \<Rightarrow> cfg \<Rightarrow> worker \<Rightarrow> cfg_edge \<Rightarrow> instr
    \<Rightarrow> (scan_error + (cfg \<times> worker \<times> request list)) option" where
  "process_edge dasm g w e lastInstr =
     (case e_type e of
        DirectJump \<Rightarrow>
          map_option (\<lambda>w'. Inr (register_edge g e, w', []))
            (push_item (make_work_item dasm (e_arch e) (e_to e)) prio_Linear w)
      | Call \<Rightarrow>
          (let g1 = register_edge g e; addrNext = i_addr lastInstr + i_length lastInstr in
           map_option (\<lambda>(g2, w2, known).
               Inr (g2, w2, if known then [] else [AwaitCallee (e_to e) (i_addr lastInstr) addrNext]))
             (is_callee_return_status_known dasm g1 w e (e_to e) addrNext))
      | Return \<Rightarrow> Some (Inr (process_return g w))
      | _ \<Rightarrow> Some (Inl NotImplemented))"

fun process_edges :: "(arch_id \<Rightarrow> address \<Rightarrow> instr list) \<Rightarrow> cfg \<Rightarrow> worker \<Rightarrow> cfg_edge list \<Rightarrow> instr
    \<Rightarrow> (scan_error + (cfg \<times> worker \<times> request list)) option" where
  "process_edges dasm g w [] lastInstr = Some (Inr (g, w, []))"
| "process_edges dasm g w (e # es) lastInstr =
     (case process_edge dasm g w e lastInstr of
        None \<Rightarrow> None
      | Some (Inl err) \<Rightarrow> Some (Inl err)
      | Some (Inr (g', w', rs)) \<Rightarrow>
          map_option (map_sum id (\<lambda>(g'', w'', rs'). (g'', w'', rs @ rs')))
            (process_edges dasm g' w' es lastInstr))"

text \<open>The body of the loop in \<open>ProcessWorkQueue\<close> for one dequeued item.\<close>

definition process_item :: "(arch_id \<Rightarrow> address \<Rightarrow> instr list) \<Rightarrow> cfg \<Rightarrow> worker \<Rightarrow> work_item
    \<Rightarrow> (scan_error + (cfg \<times> worker \<times> request list)) option" where
  "process_item dasm g w item =
     (let (g1, mine) = try_register_block_start g (wi_start item) (w_proc w) in
      if \<not> mine then Some (Inr (g1, w, []))
      else
        (case parse_linear item of
           (item', None) \<Rightarrow> Some (Inr (mark_bad_block g1 (wi_start item), w, []))
         | (item', Some lastInstr) \<Rightarrow>
             (case register_block_end g1 w item' lastInstr of
                None \<Rightarrow> None
              | Some (Inl err) \<Rightarrow> Some (Inl err)
              | Some (Inr (g2, edges)) \<Rightarrow> process_edges dasm g2 w edges lastInstr)))"

section \<open>Lemmas\<close>

definition straight :: "instr \<Rightarrow> bool" where
  "straight d \<longleftrightarrow> i_valid d \<and> i_class d = {Linear}"

lemma parse_loop_Some:
  "parse_loop ds acc = (rest, is, Some ins) \<longleftrightarrow>
   (\<exists>pre. ds = pre @ ins # rest \<and> is = acc @ pre @ [ins] \<and> list_all straight pre \<and>
      i_valid ins \<and> \<not> straight ins)"
proof (induction ds arbitrary: acc)
  case (Cons d ds)
  show ?case
  proof (cases "straight d")
    case True
    then have "parse_loop (d # ds) acc = parse_loop ds (acc @ [d])" by (simp add: straight_def)
    moreover have "(\<exists>pre. d # ds = pre @ ins # rest \<and> is = acc @ pre @ [ins] \<and> list_all straight pre \<and>
          i_valid ins \<and> \<not> straight ins) \<longleftrightarrow>
        (\<exists>pre. ds = pre @ ins # rest \<and> is = (acc @ [d]) @ pre @ [ins] \<and> list_all straight pre \<and>
          i_valid ins \<and> \<not> straight ins)" (is "?L \<longleftrightarrow> ?R")
    proof
      assume ?L
      then obtain pre where p: "d # ds = pre @ ins # rest" "is = acc @ pre @ [ins]"
          "list_all straight pre" "i_valid ins" "\<not> straight ins" by blast
      with True obtain pre' where "pre = d # pre'" by (cases pre) auto
      with p show ?R by auto
    next
      assume ?R
      then obtain pre where "ds = pre @ ins # rest" "is = (acc @ [d]) @ pre @ [ins]"
          "list_all straight pre" "i_valid ins" "\<not> straight ins" by blast
      with True show ?L by (intro exI[of _ "d # pre"]) simp
    qed
    ultimately show ?thesis using Cons.IH by simp
  next
    case False
    have "(\<exists>pre. d # ds = pre @ ins # rest \<and> is = acc @ pre @ [ins] \<and> list_all straight pre \<and>
          i_valid ins \<and> \<not> straight ins) \<longleftrightarrow> d = ins \<and> ds = rest \<and> is = acc @ [ins] \<and> i_valid ins"
      (is "?L \<longleftrightarrow> ?R")
    proof
      assume ?L
      then obtain pre where p: "d # ds = pre @ ins # rest" "is = acc @ pre @ [ins]"
          "list_all straight pre" "i_valid ins" by blast
      with False have "pre = []" by (cases pre) auto
      with p show ?R by simp
    next
      assume ?R
      with False show ?L by (intro exI[of _ "[]"]) simp
    qed
    moreover have "parse_loop (d # ds) acc = (rest, is, Some ins) \<longleftrightarrow>
        d = ins \<and> ds = rest \<and> is = acc @ [ins] \<and> i_valid ins"
    proof (cases "i_valid d")
      case True
      with False have "i_class d \<noteq> {Linear}" by (simp add: straight_def)
      with True show ?thesis by auto
    qed auto
    ultimately show ?thesis by metis
  qed
qed simp

lemma parse_loop_None:
  "parse_loop ds acc = (rest, is, None) \<Longrightarrow>
   list_all straight ds \<or> (\<exists>pre d. ds = pre @ d # rest \<and> list_all straight pre \<and> \<not> i_valid d)"
proof (induction ds arbitrary: acc)
  case (Cons d ds)
  show ?case
  proof (cases "straight d")
    case True
    with Cons.prems have "parse_loop ds (acc @ [d]) = (rest, is, None)" by (simp add: straight_def)
    from Cons.IH[OF this] show ?thesis
    proof
      assume "list_all straight ds"
      with True show ?thesis by simp
    next
      assume "\<exists>pre d. ds = pre @ d # rest \<and> list_all straight pre \<and> \<not> i_valid d"
      then obtain pre d' where "ds = pre @ d' # rest" "list_all straight pre" "\<not> i_valid d'" by blast
      with True have "d # ds = (d # pre) @ d' # rest \<and> list_all straight (d # pre) \<and> \<not> i_valid d'" by simp
      then show ?thesis by blast
    qed
  next
    case False
    with Cons.prems have "\<not> i_valid d \<and> ds = rest" by (auto simp: straight_def split: if_splits)
    then have "d # ds = [] @ d # rest \<and> list_all straight [] \<and> \<not> i_valid d" by simp
    then show ?thesis by blast
  qed
qed simp

lemma register_block_fresh:
  "try_register_block g x n is = Inr (g', Some b) \<Longrightarrow>
     cfg_B g x = None \<and> cfg_B g' = (cfg_B g)(x \<mapsto> b) \<and> b_instrs b = is \<and> b_addr b = x \<and>
     cfg_BlockEnds g' = cfg_BlockEnds g \<and> cfg_E g' = cfg_E g"
  by (auto simp: try_register_block_def try_add_def mk_block_def split: if_splits option.splits)

lemma register_end_fresh:
  "try_register_block_end g s y = (g', True) \<Longrightarrow>
     cfg_BlockEnds g y = None \<and> cfg_BlockEnds g' = (cfg_BlockEnds g)(y \<mapsto> s) \<and> cfg_B g' = cfg_B g \<and>
     cfg_E g' = cfg_E g"
  by (auto simp: try_register_block_end_def try_add_def split: option.splits)

lemma map_sum_Inr [simp]: "map_sum id f z = Inr y \<longleftrightarrow> (\<exists>x. z = Inr x \<and> y = f x)"
  by (cases z) auto

lemma out_edges_Inr:
  assumes "out_edges g w item ins = Inr (g', es)"
  shows "es \<noteq> [] \<and> (\<forall>e \<in> set es. e_from e = wi_start item) \<and> cfg_B g' = cfg_B g \<and>
    cfg_BlockEnds g' = cfg_BlockEnds g \<and>
    map (\<lambda>e. (e_type e, e_to e)) es =
      (case i_last_operand ins of
         None \<Rightarrow> [(Return, w_proc w)]
       | Some t \<Rightarrow>
           if Call_flag \<in> i_class ins then [(Call, t)]
           else if Conditional \<in> i_class ins then [(DirectJump, i_addr ins + i_length ins), (DirectJump, t)]
           else [(DirectJump, t)])"
  using assms
  by (auto simp: out_edges_def edge_def determine_target_address_def set_procedure_return_status_def
      split: if_splits option.splits)

section \<open>Properties\<close>

text \<open>
  C8. \<open>ParseLinear\<close> stops at the first instruction that is not plainly linear: it returns an
  instruction exactly when every instruction before it is valid and linear and it is itself valid
  and of another class; it has then collected exactly the run up to and including it and left the
  disassembler right behind it. Otherwise the run is all linear to the end, or meets an invalid
  instruction first.
\<close>

theorem parse_linear_stops_at_first_transfer:
  "case parse_linear item of
     (item', Some ins) \<Rightarrow>
       (\<exists>pre. wi_dasm item = pre @ ins # wi_dasm item' \<and> list_all straight pre \<and> i_valid ins \<and>
          \<not> straight ins \<and> wi_instrs item' = wi_instrs item @ pre @ [ins] \<and>
          wi_start item' = wi_start item)
   | (item', None) \<Rightarrow>
       list_all straight (wi_dasm item) \<or>
       (\<exists>pre d. wi_dasm item = pre @ d # wi_dasm item' \<and> list_all straight pre \<and> \<not> i_valid d)"
proof -
  obtain ds "is" r where p: "parse_loop (wi_dasm item) (wi_instrs item) = (ds, is, r)"
    by (metis prod_cases3)
  show ?thesis
  proof (cases r)
    case None
    with p parse_loop_None[of "wi_dasm item" "wi_instrs item" ds "is"] show ?thesis
      by (simp add: parse_linear_def)
  next
    case (Some ins)
    with p parse_loop_Some[of "wi_dasm item" "wi_instrs item" ds "is" ins] show ?thesis
      by (auto simp: parse_linear_def)
  qed
qed

text \<open>The instruction in the delay slot, which \<open>RegisterBlockEnd\<close> adds to the block.\<close>

fun slot_of :: "work_item \<Rightarrow> instr \<Rightarrow> instr list" where
  "slot_of item ins = (if Delay \<in> i_class ins then take 1 (wi_dasm item) else [])"

lemma take_delay_slot_Some:
  "take_delay_slot item ins = Some item' \<Longrightarrow>
     wi_start item' = wi_start item \<and> wi_arch item' = wi_arch item \<and>
     wi_instrs item' = wi_instrs item @ slot_of item ins \<and>
     (Delay \<in> i_class ins \<longrightarrow> (\<exists>d. slot_of item ins = [d] \<and> Linear \<in> i_class d))"
  by (auto simp: take_delay_slot_def split: if_splits list.splits)

text \<open>
  C9. When \<open>RegisterBlockEnd\<close> yields edges, the worker was the first to register a block at this start
  and the first to reach this end: both are now registered. The block holds the traced instructions
  and, when the last of them has a delay slot, the instruction after it, which is then a linear one;
  the block end is the address of the traced instruction in either case. All edges leave the block, and
  their targets are those of that instruction, in the order fall-through before jump target for
  a conditional branch. The fall-through is the address behind the branch, also when its delay slot
  stands there.
\<close>

theorem register_block_end_edges:
  assumes "register_block_end g w item ins = Some (Inr (g', es))" and "es \<noteq> []"
  shows "\<exists>b. cfg_B g (wi_start item) = None \<and> cfg_B g' = (cfg_B g)(wi_start item \<mapsto> b) \<and>
    b_instrs b = wi_instrs item @ slot_of item ins \<and>
    (Delay \<in> i_class ins \<longrightarrow> (\<exists>d. slot_of item ins = [d] \<and> Linear \<in> i_class d)) \<and>
    cfg_BlockEnds g (i_addr ins) = None \<and>
    cfg_BlockEnds g' = (cfg_BlockEnds g)(i_addr ins \<mapsto> wi_start item) \<and>
    (\<forall>e \<in> set es. e_from e = wi_start item) \<and>
    map (\<lambda>e. (e_type e, e_to e)) es =
      (case i_last_operand ins of
         None \<Rightarrow> [(Return, w_proc w)]
       | Some t \<Rightarrow>
           if Call_flag \<in> i_class ins then [(Call, t)]
           else if Conditional \<in> i_class ins then [(DirectJump, i_addr ins + i_length ins), (DirectJump, t)]
           else [(DirectJump, t)])"
proof -
  define n where "n = int (i_addr ins) - int (wi_start item) + int (i_length ins)"
  from assms obtain it where it: "take_delay_slot item ins = Some it"
    by (auto simp: register_block_end_def split: option.splits)
  note S = take_delay_slot_Some[OF it]
  from assms it S obtain g1 b where b: "try_register_block g (wi_start item) n (wi_instrs it) = Inr (g1, Some b)"
    by (auto simp: register_block_end_def n_def split: sum.splits prod.splits option.splits)
  obtain g2 ok where e: "try_register_block_end g1 (wi_start item) (i_addr ins) = (g2, ok)" by fastforce
  have ok: "ok" "out_edges g2 w it ins = Inr (g', es)"
    using assms b e it S by (auto simp: register_block_end_def n_def split: if_splits sum.splits)
  with e have e': "try_register_block_end g1 (wi_start item) (i_addr ins) = (g2, True)" by simp
  from register_block_fresh[OF b] register_end_fresh[OF e'] out_edges_Inr[OF ok(2)] S
  show ?thesis by (intro exI[of _ b]) simp
qed

definition sample_jcc :: instr where
  "sample_jcc = \<lparr>i_addr = 20, i_length = 4, i_class = {Transfer, Conditional, Delay}, i_valid = True, i_last_operand = Some 40\<rparr>"

theorem register_block_end_edges_witness:
  "\<exists>g' es. register_block_end new_cfg \<lparr>w_proc = 16, w_arch = ''mips'', w_queue = new_pq no_item, w_waiting = []\<rparr>
     \<lparr>wi_arch = ''mips'', wi_start = 16, wi_dasm = [op_at 24], wi_instrs = [op_at 16, sample_jcc]\<rparr> sample_jcc =
       Some (Inr (g', es)) \<and> map e_to es = [24, 40] \<and> cfg_BlockEnds g' 20 = Some 16 \<and>
       map_option b_instrs (cfg_B g' 16) = Some [op_at 16, sample_jcc, op_at 24]"
proof -
  let ?w = "\<lparr>w_proc = 16, w_arch = ''mips'', w_queue = new_pq no_item, w_waiting = []\<rparr>"
  let ?item = "\<lparr>wi_arch = ''mips'', wi_start = 16, wi_dasm = [op_at 24], wi_instrs = [op_at 16, sample_jcc]\<rparr>"
  obtain g' es where r: "register_block_end new_cfg ?w ?item sample_jcc = Some (Inr (g', es))" "es \<noteq> []"
    by (simp add: register_block_end_def take_delay_slot_def sample_jcc_def op_at_def try_register_block_def
        mk_block_def to_int32_def try_add_def new_cfg_def try_register_block_end_def out_edges_def
        determine_target_address_def)
  from register_block_end_edges[OF r] obtain b where b: "cfg_B g' = (cfg_B new_cfg)(16 \<mapsto> b)"
      "b_instrs b = [op_at 16, sample_jcc, op_at 24]" "cfg_BlockEnds g' = (cfg_BlockEnds new_cfg)(20 \<mapsto> 16)"
      "map (\<lambda>e. (e_type e, e_to e)) es = [(DirectJump, 24), (DirectJump, 40)]"
    by (auto simp: sample_jcc_def)
  from arg_cong[OF b(4), of "map snd"] have "map e_to es = [24, 40]" by (simp add: comp_def)
  with r(1) b(1-3) show ?thesis by auto
qed

end
