(* ===== verification/Worker_Protocol.thy ===== *)
theory Worker_Protocol
  imports Reko_Prelude
begin

text \<open>
  The lock-free protocol between a \<open>ProcedureWorker\<close> and the workers that wake it
  (\<open>parallel/Scanner/ProcedureWorker.cs\<close>: \<open>Process\<close>, \<open>TryDequeueWorkitem\<close>, \<open>TryEnqueueWorkitem\<close>,
  \<open>TrySuspending\<close>, \<open>TryFinishing\<close>, \<open>Wake\<close>; \<open>parallel/Scanner/Scanner.cs\<close>: \<open>SuspendWorker\<close>, \<open>WakeWorker\<close>,
  \<open>WorkerFinished\<close>, \<open>TaskFailed\<close>, \<open>TryStartProcedureWorker\<close>). One worker is run by its owner thread; any
  number of other threads call \<open>Wake\<close> or \<open>TryEnqueueWorkitem\<close> on it, and any number of them start a
  worker for the address of its procedure. Each interlocked operation, each plain write of \<open>state\<close>,
  each queue operation and each dictionary call is one atomic step; the threads interleave freely.
  Work items are block addresses; the priority queue is the bag that its interface promises. The
  scanner's dictionaries \<open>workers\<close> and \<open>suspendedWorkers\<close> are keyed by the address of the procedure, so
  what the model keeps of them is which of the two holds the key of this address: the operations
  test, add and remove the key, whichever worker it belongs to. A second worker made for the address
  finds the procedure registered (\<open>ProcedureWorker()\<close>, lines 64-67), so its queue is empty and its
  \<open>Process\<close> goes straight to \<open>WorkerFinished\<close>.
\<close>

section \<open>State\<close>

datatype wstate = StateFinishing | StateWorking | StateQueueBusy | StateSuspending | StateSuspended

text \<open>Which of the dictionaries \<open>workers\<close> and \<open>suspendedWorkers\<close> hold the key of the address.\<close>

datatype registry = In_workers | In_suspended | In_both | In_none

fun has_worker :: "registry \<Rightarrow> bool" where
  "has_worker In_workers = True"
| "has_worker In_both = True"
| "has_worker _ = False"

fun has_suspended :: "registry \<Rightarrow> bool" where
  "has_suspended In_suspended = True"
| "has_suspended In_both = True"
| "has_suspended _ = False"

definition keys_at :: "bool \<Rightarrow> bool \<Rightarrow> registry" where
  "keys_at w z = (if w then (if z then In_both else In_workers) else (if z then In_suspended else In_none))"

abbreviation put_worker :: "registry \<Rightarrow> registry" where
  "put_worker r \<equiv> keys_at True (has_suspended r)"

abbreviation drop_worker :: "registry \<Rightarrow> registry" where
  "drop_worker r \<equiv> keys_at False (has_suspended r)"

abbreviation put_suspended :: "registry \<Rightarrow> registry" where
  "put_suspended r \<equiv> keys_at (has_worker r) True"

abbreviation drop_suspended :: "registry \<Rightarrow> registry" where
  "drop_suspended r \<equiv> keys_at (has_worker r) False"

lemma keys_at_simps [simp]: "has_worker (keys_at w z) = w" "has_suspended (keys_at w z) = z"
  by (simp_all add: keys_at_def)

text \<open>Program points of the owner.\<close>

datatype opc =
    Own_Deq                     \<comment> \<open>the exchange in \<open>TryDequeueWorkitem\<close>\<close>
  | Own_Take                    \<comment> \<open>\<open>workqueue.TryDequeue\<close>\<close>
  | Own_DeqRel "nat option"     \<comment> \<open>\<open>state = StateWorking\<close>, then return the item\<close>
  | Own_Work                    \<comment> \<open>processing the block of an item\<close>
  | Own_Enq nat                 \<comment> \<open>the exchange in \<open>TryEnqueueWorkitem\<close>\<close>
  | Own_Put nat                 \<comment> \<open>\<open>queue.Enqueue\<close>\<close>
  | Own_EnqRel                  \<comment> \<open>\<open>state = StateWorking\<close>\<close>
  | Own_Inc                     \<comment> \<open>registered with the callee; the status is read, then \<open>pendingCalls\<close> counted\<close>
  | Own_Check                   \<comment> \<open>\<open>pendingCalls > 0\<close>\<close>
  | Own_SuspendCas
  | Own_SuspendReg              \<comment> \<open>\<open>workers.TryRemove\<close> in \<open>SuspendWorker\<close>\<close>
  | Own_SuspendAdd              \<comment> \<open>\<open>suspendedWorkers.TryAdd\<close> in \<open>SuspendWorker\<close>\<close>
  | Own_SuspendSet              \<comment> \<open>\<open>state = StateSuspended\<close>\<close>
  | Own_Parked                  \<comment> \<open>\<open>Process\<close> has returned, suspended\<close>
  | Own_FinishCas
  | Own_Finished                \<comment> \<open>\<open>scanner.WorkerFinished\<close>\<close>
  | Own_Gone
  | Own_Fail                    \<comment> \<open>an exception has reached \<open>Process\<close>: \<open>scanner.TaskFailed\<close>\<close>
  | Own_Failed

text \<open>
  Program points of a thread in \<open>Wake\<close> or in \<open>TryEnqueueWorkitem\<close>; the second exchange of \<open>Wake\<close>
  remembers the state the first one saw.
\<close>

datatype wpc =
    Wk_Idle
  | Wk_Cas1 nat
  | Wk_Cas2 nat wstate
  | Wk_PutS nat | Wk_RelS | Wk_DecS
  | Wk_Restart                  \<comment> \<open>\<open>suspendedWorkers.TryRemove\<close> in \<open>WakeWorker\<close>\<close>
  | Wk_Readd                    \<comment> \<open>\<open>workers.TryAdd\<close>, then the task of the owner is started\<close>
  | Wk_PutW nat | Wk_RelW | Wk_DecW
  | Wk_Enq nat | Wk_EnqPut nat | Wk_EnqRel
  | Wk_Refused                  \<comment> \<open>\<open>TryEnqueueWorkitem\<close> returns false\<close>
  | Wk_Done
  | Wk_NotImplemented           \<comment> \<open>the exception at the end of the loop\<close>
  | Wk_InvalidOperation         \<comment> \<open>the exception of \<open>WakeWorker\<close>\<close>

text \<open>Program points of a thread that starts a worker for the address.\<close>

datatype starter =
    Ot_Idle                     \<comment> \<open>\<open>suspendedWorkers.TryGetValue\<close>\<close>
  | Ot_Add                      \<comment> \<open>none is suspended, a new worker is made: \<open>workers.TryAdd\<close>\<close>
  | Ot_Get                      \<comment> \<open>the key was there: \<open>workers.TryGetValue\<close>\<close>
  | Ot_Running                  \<comment> \<open>the new worker is registered and runs\<close>
  | Ot_Gone                     \<comment> \<open>it has finished\<close>

record sys =
  st :: wstate
  queue :: "nat multiset"
  pending :: int
  owed :: nat
  opc :: opc
  wk :: "nat \<Rightarrow> wpc"
  reg :: registry
  ot :: "nat \<Rightarrow> starter"

definition init_sys :: "nat \<Rightarrow> sys" where
  "init_sys x = \<lparr>st = StateWorking, queue = {#x#}, pending = 0, owed = 0, opc = Own_Deq,
     wk = (\<lambda>_. Wk_Idle), reg = In_workers, ot = (\<lambda>_. Ot_Idle)\<rparr>"

text \<open>\<open>Interlocked.CompareExchange(ref state, new, old) == old\<close>.\<close>

definition cas :: "wstate \<Rightarrow> wstate \<Rightarrow> sys \<Rightarrow> sys option" where
  "cas new old s = (if st s = old then Some (s\<lparr>st := new\<rparr>) else None)"

section \<open>Steps of the owner\<close>

definition owner_dequeue :: "sys \<Rightarrow> nat option \<Rightarrow> sys option" where
  "owner_dequeue s choice =
     (case choice of
        None \<Rightarrow> if queue s = {#} then Some (s\<lparr>opc := Own_DeqRel None\<rparr>) else None
      | Some x \<Rightarrow>
          if x \<in># queue s then Some (s\<lparr>queue := queue s - {#x#}, opc := Own_DeqRel (Some x)\<rparr>) else None)"

definition owner_step :: "sys \<Rightarrow> sys option" where
  "owner_step s =
     (case opc s of
        Own_Deq \<Rightarrow>
          (case cas StateQueueBusy StateWorking s of
             Some s' \<Rightarrow> Some (s'\<lparr>opc := Own_Take\<rparr>)
           | None \<Rightarrow> Some s)
      | Own_DeqRel (Some x) \<Rightarrow> Some (s\<lparr>st := StateWorking, opc := Own_Work\<rparr>)
      | Own_DeqRel None \<Rightarrow> Some (s\<lparr>st := StateWorking, opc := Own_Check\<rparr>)
      | Own_Enq x \<Rightarrow>
          (case cas StateQueueBusy StateWorking s of
             Some s' \<Rightarrow> Some (s'\<lparr>opc := Own_Put x\<rparr>)
           | None \<Rightarrow> if st s = StateFinishing then Some (s\<lparr>opc := Own_Work\<rparr>) else Some s)
      | Own_Put x \<Rightarrow> Some (s\<lparr>queue := add_mset x (queue s), opc := Own_EnqRel\<rparr>)
      | Own_EnqRel \<Rightarrow> Some (s\<lparr>st := StateWorking, opc := Own_Work\<rparr>)
      | Own_Inc \<Rightarrow> Some (s\<lparr>pending := pending s + 1, opc := Own_Work\<rparr>)
      | Own_Check \<Rightarrow> Some (s\<lparr>opc := (if 0 < pending s then Own_SuspendCas else Own_FinishCas)\<rparr>)
      | Own_SuspendCas \<Rightarrow>
          (case cas StateSuspending StateWorking s of
             Some s' \<Rightarrow> Some (s'\<lparr>opc := Own_SuspendReg\<rparr>)
           | None \<Rightarrow> Some (s\<lparr>opc := Own_FinishCas\<rparr>))
      | Own_SuspendReg \<Rightarrow>
          if has_worker (reg s) then Some (s\<lparr>reg := drop_worker (reg s), opc := Own_SuspendAdd\<rparr>)
          else Some (s\<lparr>opc := Own_SuspendSet\<rparr>)
      | Own_SuspendAdd \<Rightarrow>
          if has_suspended (reg s) then Some (s\<lparr>opc := Own_Fail\<rparr>)
          else Some (s\<lparr>reg := put_suspended (reg s), opc := Own_SuspendSet\<rparr>)
      | Own_SuspendSet \<Rightarrow> Some (s\<lparr>st := StateSuspended, opc := Own_Parked\<rparr>)
      | Own_FinishCas \<Rightarrow>
          (case cas StateFinishing StateWorking s of
             Some s' \<Rightarrow> Some (s'\<lparr>opc := Own_Finished\<rparr>)
           | None \<Rightarrow> Some (s\<lparr>opc := Own_Deq\<rparr>))
      | Own_Finished \<Rightarrow> Some (s\<lparr>reg := drop_worker (reg s), opc := Own_Gone\<rparr>)
      | Own_Fail \<Rightarrow> Some (s\<lparr>reg := drop_worker (reg s), opc := Own_Failed\<rparr>)
      | _ \<Rightarrow> None)"

section \<open>Steps of the other threads\<close>

definition set_wk :: "nat \<Rightarrow> wpc \<Rightarrow> sys \<Rightarrow> sys" where
  "set_wk k p s = s\<lparr>wk := (wk s)(k := p)\<rparr>"

definition waker_step :: "nat \<Rightarrow> sys \<Rightarrow> sys option" where
  "waker_step k s =
     (case wk s k of
        Wk_Cas1 x \<Rightarrow>
          (case cas StateQueueBusy StateSuspended s of
             Some s' \<Rightarrow> Some (set_wk k (Wk_PutS x) s')
           | None \<Rightarrow> Some (set_wk k (Wk_Cas2 x (st s)) s))
      | Wk_PutS x \<Rightarrow> Some (set_wk k Wk_RelS (s\<lparr>queue := add_mset x (queue s)\<rparr>))
      | Wk_RelS \<Rightarrow> Some (set_wk k Wk_DecS (s\<lparr>st := StateWorking\<rparr>))
      | Wk_DecS \<Rightarrow> Some (set_wk k Wk_Restart (s\<lparr>pending := pending s - 1\<rparr>))
      | Wk_Restart \<Rightarrow>
          if has_suspended (reg s) then Some (set_wk k Wk_Readd (s\<lparr>reg := drop_suspended (reg s)\<rparr>))
          else Some (set_wk k Wk_InvalidOperation s)
      | Wk_Readd \<Rightarrow> Some (set_wk k Wk_Done (s\<lparr>reg := put_worker (reg s), opc := Own_Deq\<rparr>))
      | Wk_Cas2 x old \<Rightarrow>
          (case cas StateQueueBusy StateWorking s of
             Some s' \<Rightarrow> Some (set_wk k (Wk_PutW x) s')
           | None \<Rightarrow>
               if old \<noteq> StateSuspending \<and> old \<noteq> StateQueueBusy then Some (set_wk k Wk_NotImplemented s)
               else Some (set_wk k (Wk_Cas1 x) s))
      | Wk_PutW x \<Rightarrow> Some (set_wk k Wk_RelW (s\<lparr>queue := add_mset x (queue s)\<rparr>))
      | Wk_RelW \<Rightarrow> Some (set_wk k Wk_DecW (s\<lparr>st := StateWorking\<rparr>))
      | Wk_DecW \<Rightarrow> Some (set_wk k Wk_Done (s\<lparr>pending := pending s - 1\<rparr>))
      | Wk_Enq x \<Rightarrow>
          (case cas StateQueueBusy StateWorking s of
             Some s' \<Rightarrow> Some (set_wk k (Wk_EnqPut x) s')
           | None \<Rightarrow> if st s = StateFinishing then Some (set_wk k Wk_Refused s) else Some s)
      | Wk_EnqPut x \<Rightarrow> Some (set_wk k Wk_EnqRel (s\<lparr>queue := add_mset x (queue s)\<rparr>))
      | Wk_EnqRel \<Rightarrow> Some (set_wk k Wk_Done (s\<lparr>st := StateWorking\<rparr>))
      | _ \<Rightarrow> None)"

definition set_ot :: "nat \<Rightarrow> starter \<Rightarrow> sys \<Rightarrow> sys" where
  "set_ot j p s = s\<lparr>ot := (ot s)(j := p)\<rparr>"

definition starter_step :: "nat \<Rightarrow> sys \<Rightarrow> sys option" where
  "starter_step j s =
     (case ot s j of
        Ot_Idle \<Rightarrow> if has_suspended (reg s) then Some s else Some (set_ot j Ot_Add s)
      | Ot_Add \<Rightarrow>
          if has_worker (reg s) then Some (set_ot j Ot_Get s)
          else Some (set_ot j Ot_Running (s\<lparr>reg := put_worker (reg s)\<rparr>))
      | Ot_Get \<Rightarrow> if has_worker (reg s) then Some (set_ot j Ot_Idle s) else Some (set_ot j Ot_Add s)
      | Ot_Running \<Rightarrow> Some (set_ot j Ot_Gone (s\<lparr>reg := drop_worker (reg s)\<rparr>))
      | Ot_Gone \<Rightarrow> None)"

section \<open>The system\<close>

text \<open>
  While the owner processes a block it may enqueue an item on its own queue, register with a callee
  (\<open>TryEnqueueCaller\<close>: from now on one \<open>Wake\<close> is owed to it) and then either count the call
  (\<open>Owner\<close> at \<open>Own_Inc\<close>) or, when the status of the callee has become known, return without counting
  it (\<open>Owner_Known\<close>, lines 256-257); a callee that refuses the registration makes it decrement the
  count (\<open>Owner_Refused\<close>, line 262). It may go on to the next item, or raise. A call of \<open>Wake\<close> uses up
  one that is owed.
\<close>

datatype action =
    Owner
  | Owner_Take "nat option"
  | Owner_Emit nat
  | Owner_Call
  | Owner_Known
  | Owner_Refused
  | Owner_Next
  | Owner_Raise
  | Start_Wake nat nat
  | Start_Enqueue nat nat
  | Waker nat
  | Starter nat

definition exec :: "sys \<Rightarrow> action \<Rightarrow> sys option" where
  "exec s a =
     (case a of
        Owner \<Rightarrow> owner_step s
      | Owner_Take c \<Rightarrow> if opc s = Own_Take then owner_dequeue s c else None
      | Owner_Emit x \<Rightarrow> if opc s = Own_Work then Some (s\<lparr>opc := Own_Enq x\<rparr>) else None
      | Owner_Call \<Rightarrow> if opc s = Own_Work then Some (s\<lparr>owed := owed s + 1, opc := Own_Inc\<rparr>) else None
      | Owner_Known \<Rightarrow> if opc s = Own_Inc then Some (s\<lparr>opc := Own_Work\<rparr>) else None
      | Owner_Refused \<Rightarrow> if opc s = Own_Work then Some (s\<lparr>pending := pending s - 1\<rparr>) else None
      | Owner_Raise \<Rightarrow> if opc s = Own_Work then Some (s\<lparr>opc := Own_Fail\<rparr>) else None
      | Owner_Next \<Rightarrow> if opc s = Own_Work then Some (s\<lparr>opc := Own_Deq\<rparr>) else None
      | Start_Wake k x \<Rightarrow>
          if wk s k = Wk_Idle \<and> 0 < owed s then Some (set_wk k (Wk_Cas1 x) (s\<lparr>owed := owed s - 1\<rparr>)) else None
      | Start_Enqueue k x \<Rightarrow> if wk s k = Wk_Idle then Some (set_wk k (Wk_Enq x) s) else None
      | Waker k \<Rightarrow> waker_step k s
      | Starter j \<Rightarrow> starter_step j s)"

fun run :: "sys \<Rightarrow> action list \<Rightarrow> sys option" where
  "run s [] = Some s"
| "run s (a # as) = (case exec s a of None \<Rightarrow> None | Some s' \<Rightarrow> run s' as)"

inductive reachable :: "nat \<Rightarrow> sys \<Rightarrow> bool" for x where
  start: "reachable x (init_sys x)"
| step: "reachable x s \<Longrightarrow> exec s a = Some s' \<Longrightarrow> reachable x s'"

lemma run_reachable: "reachable x s \<Longrightarrow> run s as = Some s' \<Longrightarrow> reachable x s'"
  by (induction as arbitrary: s) (auto split: option.splits intro: reachable.step)

section \<open>Invariants\<close>

fun owner_cs :: "opc \<Rightarrow> bool" where
  "owner_cs Own_Take = True"
| "owner_cs (Own_DeqRel _) = True"
| "owner_cs (Own_Put _) = True"
| "owner_cs Own_EnqRel = True"
| "owner_cs _ = False"

fun waker_cs :: "wpc \<Rightarrow> bool" where
  "waker_cs (Wk_PutS _) = True"
| "waker_cs Wk_RelS = True"
| "waker_cs (Wk_PutW _) = True"
| "waker_cs Wk_RelW = True"
| "waker_cs (Wk_EnqPut _) = True"
| "waker_cs Wk_EnqRel = True"
| "waker_cs _ = False"

text \<open>Threads that found the worker suspended and are about to restart it.\<close>

fun restarting :: "wpc \<Rightarrow> bool" where
  "restarting (Wk_PutS _) = True"
| "restarting Wk_RelS = True"
| "restarting Wk_DecS = True"
| "restarting Wk_Restart = True"
| "restarting Wk_Readd = True"
| "restarting _ = False"

definition in_cs :: "sys \<Rightarrow> nat set" where
  "in_cs s = {k. waker_cs (wk s k)}"

definition restarters :: "sys \<Rightarrow> nat set" where
  "restarters s = {k. restarting (wk s k)}"

text \<open>At most one thread is between winning the exchange and writing \<open>StateWorking\<close> back, and the state
  word says so.\<close>

definition mutex :: "sys \<Rightarrow> bool" where
  "mutex s \<longleftrightarrow>
     (st s = StateQueueBusy \<longleftrightarrow> owner_cs (opc s) \<or> in_cs s \<noteq> {}) \<and>
     (owner_cs (opc s) \<longrightarrow> in_cs s = {}) \<and> (\<forall>k \<in> in_cs s. in_cs s = {k})"

fun own_suspending :: "opc \<Rightarrow> bool" where
  "own_suspending Own_SuspendReg = True"
| "own_suspending Own_SuspendAdd = True"
| "own_suspending Own_SuspendSet = True"
| "own_suspending _ = False"

fun own_ended :: "opc \<Rightarrow> bool" where
  "own_ended Own_Fail = True"
| "own_ended Own_Failed = True"
| "own_ended _ = False"

definition parked_inv :: "sys \<Rightarrow> bool" where
  "parked_inv s \<longleftrightarrow>
     (own_suspending (opc s) \<longrightarrow> st s = StateSuspending) \<and>
     (st s = StateSuspending \<longrightarrow> own_suspending (opc s) \<or> own_ended (opc s)) \<and>
     (st s = StateFinishing \<longleftrightarrow> opc s = Own_Finished \<or> opc s = Own_Gone) \<and>
     (st s = StateSuspended \<longrightarrow> opc s = Own_Parked \<and> restarters s = {}) \<and>
     (restarters s \<noteq> {} \<longrightarrow> opc s = Own_Parked) \<and>
     (\<forall>k \<in> restarters s. restarters s \<subseteq> {k})"

text \<open>The key is in \<open>suspendedWorkers\<close> only while the worker is parked and nobody is restarting it.\<close>

definition suspended_inv :: "sys \<Rightarrow> bool" where
  "suspended_inv s \<longleftrightarrow>
     (has_suspended (reg s) \<longrightarrow>
        (opc s = Own_SuspendSet \<or> opc s = Own_Parked) \<and> (\<forall>k. wk s k \<noteq> Wk_Readd))"

text \<open>Threads that have registered a second worker for the address.\<close>

fun registered :: "starter \<Rightarrow> bool" where
  "registered Ot_Running = True"
| "registered Ot_Gone = True"
| "registered _ = False"

definition alone :: "sys \<Rightarrow> bool" where
  "alone s \<longleftrightarrow> (\<forall>j. \<not> registered (ot s j))"

text \<open>What the dictionaries hold as long as no second worker has been registered.\<close>

fun key_kept :: "opc \<Rightarrow> bool \<Rightarrow> registry" where
  "key_kept Own_SuspendAdd _ = In_none"
| "key_kept Own_SuspendSet _ = In_suspended"
| "key_kept Own_Parked b = (if b then In_none else In_suspended)"
| "key_kept Own_Gone _ = In_none"
| "key_kept Own_Failed _ = In_none"
| "key_kept _ _ = In_workers"

definition alone_inv :: "sys \<Rightarrow> bool" where
  "alone_inv s \<longleftrightarrow>
     (alone s \<longrightarrow> reg s = key_kept (opc s) (\<exists>k. wk s k = Wk_Readd) \<and> (\<forall>k. wk s k \<noteq> Wk_InvalidOperation))"

lemma set_wk_simps [simp]:
  "st (set_wk k p s) = st s" "queue (set_wk k p s) = queue s" "opc (set_wk k p s) = opc s"
  "reg (set_wk k p s) = reg s" "ot (set_wk k p s) = ot s" "wk (set_wk k p s) = (wk s)(k := p)"
  "in_cs (set_wk k p s) = (if waker_cs p then insert k (in_cs s) else in_cs s - {k})"
  "restarters (set_wk k p s) = (if restarting p then insert k (restarters s) else restarters s - {k})"
  by (auto simp: set_wk_def in_cs_def restarters_def)

lemma set_ot_simps [simp]:
  "st (set_ot j p s) = st s" "queue (set_ot j p s) = queue s" "opc (set_ot j p s) = opc s"
  "reg (set_ot j p s) = reg s" "wk (set_ot j p s) = wk s" "ot (set_ot j p s) = (ot s)(j := p)"
  "in_cs (set_ot j p s) = in_cs s" "restarters (set_ot j p s) = restarters s"
  by (auto simp: set_ot_def in_cs_def restarters_def)

lemma sets_frame [simp]:
  "in_cs (s\<lparr>st := a\<rparr>) = in_cs s" "in_cs (s\<lparr>opc := b\<rparr>) = in_cs s" "in_cs (s\<lparr>queue := c\<rparr>) = in_cs s"
  "in_cs (s\<lparr>pending := d\<rparr>) = in_cs s"
  "in_cs (s\<lparr>owed := e\<rparr>) = in_cs s" "in_cs (s\<lparr>reg := f\<rparr>) = in_cs s"
  "restarters (s\<lparr>st := a\<rparr>) = restarters s" "restarters (s\<lparr>opc := b\<rparr>) = restarters s"
  "restarters (s\<lparr>queue := c\<rparr>) = restarters s" "restarters (s\<lparr>pending := d\<rparr>) = restarters s"
  "restarters (s\<lparr>owed := e\<rparr>) = restarters s" "restarters (s\<lparr>reg := f\<rparr>) = restarters s"
  by (auto simp: in_cs_def restarters_def)

lemmas step_defs = exec_def owner_step_def owner_dequeue_def waker_step_def starter_step_def set_wk_def
  set_ot_def cas_def keys_at_def

lemma init_inv: "mutex (init_sys x)" "parked_inv (init_sys x)" "suspended_inv (init_sys x)" "alone_inv (init_sys x)"
  by (auto simp: mutex_def parked_inv_def suspended_inv_def alone_inv_def init_sys_def in_cs_def restarters_def)

lemma parked_restarting: "parked_inv s \<Longrightarrow> restarting (wk s k) \<Longrightarrow> opc s = Own_Parked"
  unfolding parked_inv_def restarters_def by blast

lemma owner_mutex: "owner_step s = Some s' \<Longrightarrow> parked_inv s \<Longrightarrow> mutex s \<Longrightarrow> mutex s'"
  unfolding owner_step_def cas_def
  by (cases "opc s") (auto simp: mutex_def parked_inv_def split: option.splits if_splits)

lemma owner_parked: "owner_step s = Some s' \<Longrightarrow> mutex s \<Longrightarrow> parked_inv s \<Longrightarrow> parked_inv s'"
  unfolding owner_step_def cas_def
  by (cases "opc s") (auto simp: mutex_def parked_inv_def split: option.splits if_splits)

lemma in_csI: "waker_cs (wk s k) \<Longrightarrow> k \<in> in_cs s" "\<not> waker_cs (wk s k) \<Longrightarrow> k \<notin> in_cs s"
  and restartersI: "restarting (wk s k) \<Longrightarrow> k \<in> restarters s" "\<not> restarting (wk s k) \<Longrightarrow> k \<notin> restarters s"
  by (auto simp: in_cs_def restarters_def)

lemma waker_mutex: "waker_step k s = Some s' \<Longrightarrow> parked_inv s \<Longrightarrow> mutex s \<Longrightarrow> mutex s'"
  using parked_restarting[of s k] in_csI[of s k] unfolding waker_step_def cas_def
  by (cases "wk s k") (auto simp: mutex_def split: option.splits if_splits)

lemma mutex_busy: "mutex s \<Longrightarrow> waker_cs (wk s k) \<Longrightarrow> st s = StateQueueBusy"
  unfolding mutex_def in_cs_def by blast

lemma parked_invD:
  assumes "parked_inv s"
  shows "own_suspending (opc s) \<Longrightarrow> st s = StateSuspending"
    and "st s = StateSuspending \<Longrightarrow> own_suspending (opc s) \<or> own_ended (opc s)"
    and "st s = StateFinishing \<longleftrightarrow> opc s = Own_Finished \<or> opc s = Own_Gone"
    and "st s = StateSuspended \<Longrightarrow> opc s = Own_Parked"
    and "st s = StateSuspended \<Longrightarrow> restarters s = {}"
    and "k \<in> restarters s \<Longrightarrow> opc s = Own_Parked"
    and "k \<in> restarters s \<Longrightarrow> restarters s = {k}"
  using assms unfolding parked_inv_def by blast+

lemma restarting_facts:
  assumes "parked_inv s" and "restarting (wk s k)"
  shows "restarters s = {k}" "opc s = Own_Parked"
    "st s \<noteq> StateSuspending" "st s \<noteq> StateFinishing" "st s \<noteq> StateSuspended"
proof -
  have k: "k \<in> restarters s" using assms(2) by (simp add: restarters_def)
  note D = parked_invD[OF assms(1)]
  show R: "restarters s = {k}" and P: "opc s = Own_Parked" using D(6,7)[OF k] by auto
  show "st s \<noteq> StateSuspending" "st s \<noteq> StateFinishing" using D(2,3) P by auto
  show "st s \<noteq> StateSuspended" using D(5) R by auto
qed

lemma parked_move:
  assumes "parked_inv s" and "restarters s' = restarters s" and "opc s' = opc s"
    and "st s' = st s \<or> {st s, st s'} \<subseteq> {StateWorking, StateQueueBusy}"
  shows "parked_inv s'"
  using assms(4)
proof
  assume e: "st s' = st s"
  from assms(1) show ?thesis unfolding parked_inv_def assms(2,3) e .
next
  assume "{st s, st s'} \<subseteq> {StateWorking, StateQueueBusy}"
  then have "st s \<noteq> StateSuspending" "st s \<noteq> StateFinishing" "st s \<noteq> StateSuspended"
    "st s' \<noteq> StateSuspending" "st s' \<noteq> StateFinishing" "st s' \<noteq> StateSuspended" by auto
  note ne = this and D = parked_invD[OF assms(1)]
  have a: "\<not> own_suspending (opc s)" using D(1) ne by blast
  have b: "opc s \<noteq> Own_Finished" "opc s \<noteq> Own_Gone" using D(3) ne by blast+
  have c: "(restarters s \<noteq> {} \<longrightarrow> opc s = Own_Parked) \<and> (\<forall>k \<in> restarters s. restarters s \<subseteq> {k})"
    using assms(1) unfolding parked_inv_def by (elim conjE) (intro conjI; assumption)
  show ?thesis unfolding parked_inv_def assms(2,3) using a b c ne by simp
qed

fun own_plain :: "opc \<Rightarrow> bool" where
  "own_plain Own_SuspendReg = False"
| "own_plain Own_SuspendAdd = False"
| "own_plain Own_SuspendSet = False"
| "own_plain Own_Parked = False"
| "own_plain Own_Finished = False"
| "own_plain Own_Gone = False"
| "own_plain _ = True"

lemma own_plainD:
  "own_plain a \<Longrightarrow> \<not> own_suspending a \<and> a \<noteq> Own_Parked \<and> a \<noteq> Own_Finished \<and> a \<noteq> Own_Gone"
  by (cases a) auto

lemma parked_quiet:
  assumes "parked_inv s" and "restarters s' = restarters s" and "st s' = st s"
    and "own_plain (opc s)" and "own_plain (opc s')" and "own_ended (opc s) \<longrightarrow> own_ended (opc s')"
  shows "parked_inv s'"
  using assms(1-3,6) own_plainD[OF assms(4)] own_plainD[OF assms(5)] unfolding parked_inv_def by metis

lemma waker_parked:
  assumes "waker_step k s = Some s'" and "mutex s" and "parked_inv s"
  shows "parked_inv s'"
proof (cases "wk s k")
  case (Wk_Cas1 x)
  show ?thesis
  proof (cases "st s = StateSuspended")
    case True
    note D = parked_invD(4,5)[OF assms(3) this]
    from True assms(1) Wk_Cas1 have "s' = set_wk k (Wk_PutS x) (s\<lparr>st := StateQueueBusy\<rparr>)"
      by (simp add: waker_step_def cas_def)
    with D show ?thesis by (simp add: parked_inv_def)
  next
    case False
    with Wk_Cas1 assms(1) have "s' = set_wk k (Wk_Cas2 x (st s)) s" by (simp add: waker_step_def cas_def)
    then show ?thesis
      using Wk_Cas1 restartersI[of s k] by (intro parked_move[OF assms(3)]) auto
  qed
next
  case Wk_Restart
  then have "restarting (wk s k)" by simp
  note F = restarting_facts[OF assms(3) this]
  show ?thesis
  proof (cases "has_suspended (reg s)")
    case True
    with Wk_Restart assms(1) have "s' = set_wk k Wk_Readd (s\<lparr>reg := drop_suspended (reg s)\<rparr>)"
      by (simp add: waker_step_def)
    with F show ?thesis by (simp add: parked_inv_def)
  next
    case False
    with Wk_Restart assms(1) have "s' = set_wk k Wk_InvalidOperation s" by (simp add: waker_step_def)
    with F show ?thesis by (simp add: parked_inv_def)
  qed
next
  case Wk_Readd
  then have "restarting (wk s k)" by simp
  note F = restarting_facts[OF assms(3) this]
  from Wk_Readd assms(1) have "s' = set_wk k Wk_Done (s\<lparr>reg := put_worker (reg s), opc := Own_Deq\<rparr>)"
    by (simp add: waker_step_def)
  with F show ?thesis by (simp add: parked_inv_def)
next
  case Wk_RelS
  with assms(1) show ?thesis
    using restartersI[of s k] mutex_busy[OF assms(2), of k]
    by (intro parked_move[OF assms(3)]) (auto simp: waker_step_def)
next
  case Wk_RelW
  with assms(1) show ?thesis
    using restartersI[of s k] mutex_busy[OF assms(2), of k]
    by (intro parked_move[OF assms(3)]) (auto simp: waker_step_def)
next
  case Wk_EnqRel
  with assms(1) show ?thesis
    using restartersI[of s k] mutex_busy[OF assms(2), of k]
    by (intro parked_move[OF assms(3)]) (auto simp: waker_step_def)
qed (use assms(1) restartersI[of s k] in
      \<open>auto intro!: parked_move[OF assms(3)] simp: waker_step_def cas_def split: if_splits\<close>)

lemma other_inv:
  assumes "exec s a = Some s'" and "a \<noteq> Owner" and "\<forall>k. a \<noteq> Waker k" and "mutex s" and "parked_inv s"
  shows "mutex s'" "parked_inv s'"
proof -
  have same: "in_cs s' = in_cs s \<and> st s' = st s \<and> restarters s' = restarters s \<and>
      owner_cs (opc s') = owner_cs (opc s)"
    using assms(1-3) in_csI[of s] restartersI[of s]
    by (cases a) (auto simp: exec_def owner_dequeue_def starter_step_def split: option.splits if_splits starter.splits)
  then show "mutex s'" using assms(4) by (simp add: mutex_def)
  have "opc s' = opc s \<or> own_plain (opc s) \<and> own_plain (opc s') \<and> \<not> own_ended (opc s)"
    using assms(1-3)
    by (cases a) (auto simp: exec_def owner_dequeue_def starter_step_def split: option.splits if_splits starter.splits)
  then show "parked_inv s'"
    using same parked_move[OF assms(5), of s'] parked_quiet[OF assms(5), of s'] by blast
qed

lemma exec_inv:
  assumes "exec s a = Some s'" and "mutex s" and "parked_inv s"
  shows "mutex s'" "parked_inv s'"
proof -
  have "mutex s' \<and> parked_inv s'"
  proof (cases a)
    case Owner
    with assms owner_mutex owner_parked show ?thesis by (simp add: exec_def)
  next
    case (Waker k)
    with assms waker_mutex waker_parked show ?thesis by (simp add: exec_def)
  qed (use other_inv[OF assms(1)] assms(2,3) in auto)
  then show "mutex s'" "parked_inv s'" by auto
qed

text \<open>A waking thread that is not restarting the worker leaves the dictionaries and the owner alone.\<close>

lemma waker_frame:
  assumes "waker_step k s = Some s'" and "wk s k \<noteq> Wk_Restart" and "wk s k \<noteq> Wk_Readd"
  shows "reg s' = reg s" "opc s' = opc s" "ot s' = ot s"
    "l \<noteq> k \<longrightarrow> wk s' l = wk s l" "wk s' k \<noteq> Wk_Readd" "wk s' k \<noteq> Wk_InvalidOperation"
  using assms unfolding waker_step_def cas_def
  by (cases "wk s k"; auto split: option.splits if_splits)+

lemma no_readd: "parked_inv s \<Longrightarrow> opc s \<noteq> Own_Parked \<Longrightarrow> wk s k \<noteq> Wk_Readd"
  using parked_restarting[of s k] by auto

lemma one_restarter: "parked_inv s \<Longrightarrow> restarting (wk s k) \<Longrightarrow> restarting (wk s l) \<Longrightarrow> l = k"
  using restarting_facts(1)[of s k] restartersI(1)[of s l] by auto

lemma owner_suspended: "owner_step s = Some s' \<Longrightarrow> parked_inv s \<Longrightarrow> suspended_inv s \<Longrightarrow> suspended_inv s'"
  using no_readd[of s] unfolding owner_step_def cas_def
  by (cases "opc s") (auto simp: suspended_inv_def split: option.splits if_splits)

lemma waker_suspended:
  assumes "waker_step k s = Some s'" and "parked_inv s" and "suspended_inv s"
  shows "suspended_inv s'"
proof (cases "wk s k = Wk_Restart \<or> wk s k = Wk_Readd")
  case True
  with assms(1,3) show ?thesis
    by (auto simp: suspended_inv_def waker_step_def split: if_splits)
next
  case False
  then have n: "wk s k \<noteq> Wk_Restart" "wk s k \<noteq> Wk_Readd" by auto
  note F = waker_frame[OF assms(1) n]
  have "wk s' l \<noteq> Wk_Readd" if "wk s l \<noteq> Wk_Readd" for l
    using F(4)[of l] F(5) that by (cases "l = k") simp_all
  with F(1,2) assms(3) show ?thesis by (auto simp: suspended_inv_def)
qed

lemma exec_suspended: "exec s a = Some s' \<Longrightarrow> parked_inv s \<Longrightarrow> suspended_inv s \<Longrightarrow> suspended_inv s'"
  using owner_suspended waker_suspended
  by (cases a)
    (auto simp: exec_def owner_dequeue_def starter_step_def suspended_inv_def
      split: option.splits if_splits starter.splits)

lemma owner_ot: "owner_step s = Some s' \<Longrightarrow> ot s' = ot s"
  unfolding owner_step_def cas_def by (cases "opc s") (auto split: option.splits if_splits)

lemma waker_ot: "waker_step k s = Some s' \<Longrightarrow> ot s' = ot s"
  unfolding waker_step_def cas_def by (cases "wk s k") (auto split: option.splits if_splits)

lemma starter_registered: "starter_step j s = Some s' \<Longrightarrow> registered (ot s i) \<Longrightarrow> registered (ot s' i)"
  unfolding starter_step_def by (cases "ot s j") (auto split: if_splits)

lemma registered_stays: "exec s a = Some s' \<Longrightarrow> alone s' \<Longrightarrow> alone s"
  using owner_ot[of s s'] waker_ot[of _ s s'] starter_registered[of _ s s']
  by (cases a) (auto simp: exec_def alone_def owner_dequeue_def split: option.splits if_splits)

lemma owner_alone: "owner_step s = Some s' \<Longrightarrow> parked_inv s \<Longrightarrow> alone_inv s \<Longrightarrow> alone s \<Longrightarrow> alone_inv s'"
  using no_readd[of s] unfolding owner_step_def cas_def
  by (cases "opc s") (auto simp: alone_inv_def keys_at_def split: option.splits if_splits)

lemma waker_alone:
  assumes "waker_step k s = Some s'" and "parked_inv s" and "alone_inv s" and "alone s"
  shows "alone_inv s'"
proof (cases "wk s k = Wk_Restart \<or> wk s k = Wk_Readd")
  case True
  then have r: "restarting (wk s k)" by auto
  then have o: "opc s = Own_Parked" using parked_restarting[OF assms(2)] by blast
  have u: "l = k" if "wk s l = Wk_Readd" for l using one_restarter[OF assms(2) r, of l] that by simp
  from True show ?thesis
  proof
    assume w: "wk s k = Wk_Restart"
    with u have "\<nexists>l. wk s l = Wk_Readd" by fastforce
    with assms(1,3,4) w o show ?thesis
      by (auto simp: alone_inv_def waker_step_def keys_at_def split: if_splits)
  next
    assume w: "wk s k = Wk_Readd"
    with u have "\<nexists>l. l \<noteq> k \<and> wk s l = Wk_Readd" by blast
    with assms(1,3,4) w o show ?thesis
      by (auto simp: alone_inv_def waker_step_def keys_at_def split: if_splits)
  qed
next
  case False
  then have n: "wk s k \<noteq> Wk_Restart" "wk s k \<noteq> Wk_Readd" by auto
  note F = waker_frame[OF assms(1) n]
  have e: "wk s' l = Wk_Readd \<longleftrightarrow> wk s l = Wk_Readd" for l
    using F(4)[of l] F(5) n by (cases "l = k") simp_all
  have "wk s' l = Wk_InvalidOperation \<longrightarrow> wk s l = Wk_InvalidOperation" for l
    using F(4)[of l] F(6) by (cases "l = k") simp_all
  with F(1,2) e assms(3,4) show ?thesis by (auto simp: alone_inv_def)
qed

lemma starter_alone: "starter_step j s = Some s' \<Longrightarrow> alone_inv s \<Longrightarrow> alone s' \<Longrightarrow> alone s \<Longrightarrow> alone_inv s'"
  unfolding starter_step_def
  by (cases "ot s j") (auto simp: alone_inv_def alone_def split: if_splits)

lemma call_alone:
  assumes "wk s k = Wk_Idle" and "p \<noteq> Wk_Readd" and "p \<noteq> Wk_InvalidOperation" and "alone_inv s" and "alone s"
    and "reg s' = reg s" and "opc s' = opc s" and "wk s' = (wk s)(k := p)"
  shows "alone_inv s'"
proof -
  have "(\<exists>l. wk s' l = Wk_Readd) \<longleftrightarrow> (\<exists>l. wk s l = Wk_Readd)"
    using assms(1,2) unfolding assms(8) by (metis fun_upd_apply wpc.distinct)
  with assms show ?thesis by (simp add: alone_inv_def del: fun_upd_apply) (simp split: if_splits)
qed

lemma exec_alone:
  assumes "exec s a = Some s'" and "parked_inv s" and "alone_inv s"
  shows "alone_inv s'"
proof (cases "alone s'")
  case True
  then have al: "alone s" using registered_stays[OF assms(1)] by blast
  show ?thesis
  proof (cases a)
    case Owner
    with assms owner_alone al show ?thesis by (simp add: exec_def)
  next
    case (Waker k)
    with assms waker_alone al show ?thesis by (simp add: exec_def)
  next
    case (Starter j)
    with assms starter_alone al True show ?thesis by (simp add: exec_def)
  next
    case (Start_Wake k y)
    with assms(1) have "wk s k = Wk_Idle" "s' = set_wk k (Wk_Cas1 y) (s\<lparr>owed := owed s - 1\<rparr>)"
      by (auto simp: exec_def split: if_splits)
    then show ?thesis by (intro call_alone[OF _ _ _ assms(3) al]) auto
  next
    case (Start_Enqueue k y)
    with assms(1) have "wk s k = Wk_Idle" "s' = set_wk k (Wk_Enq y) s"
      by (auto simp: exec_def split: if_splits)
    then show ?thesis by (intro call_alone[OF _ _ _ assms(3) al]) auto
  qed (use assms al in \<open>auto simp: exec_def owner_dequeue_def alone_inv_def split: option.splits if_splits\<close>)
qed (simp add: alone_inv_def)

lemma reachable_inv: "reachable x s \<Longrightarrow> mutex s \<and> parked_inv s \<and> suspended_inv s \<and> alone_inv s"
proof (induction rule: reachable.induct)
  case start
  show ?case using init_inv by blast
next
  case (step s a s')
  then show ?case using exec_inv exec_suspended exec_alone by blast
qed

section \<open>Properties\<close>

text \<open>
  C1. In every interleaving of the owner with any number of waking threads, the work queue is touched
  by at most one thread at a time, and \<open>state\<close> is \<open>StateQueueBusy\<close> exactly while some thread is
  between winning the exchange and writing \<open>StateWorking\<close> back.
\<close>

theorem queue_mutual_exclusion:
  assumes "reachable x s"
  shows "(st s = StateQueueBusy \<longleftrightarrow> owner_cs (opc s) \<or> (\<exists>k. waker_cs (wk s k))) \<and>
    (owner_cs (opc s) \<longrightarrow> (\<forall>k. \<not> waker_cs (wk s k))) \<and>
    (\<forall>k l. waker_cs (wk s k) \<longrightarrow> waker_cs (wk s l) \<longrightarrow> k = l)"
proof -
  have m: "mutex s" using reachable_inv[OF assms] by blast
  have "k = l" if "waker_cs (wk s k)" "waker_cs (wk s l)" for k l
  proof -
    have "k \<in> in_cs s" "l \<in> in_cs s" using that by (simp_all add: in_cs_def)
    with m show ?thesis unfolding mutex_def by blast
  qed
  with m show ?thesis unfolding mutex_def in_cs_def by blast
qed

definition one_call :: "action list" where
  "one_call = [Owner, Owner_Take (Some 16), Owner, Owner_Call, Owner, Owner_Next, Owner, Owner_Take None, Owner, Owner]"

lemma one_call_run:
  "run (init_sys 16) one_call = Some \<lparr>st = StateWorking, queue = {#}, pending = 1, owed = 1, opc = Own_SuspendCas,
     wk = (\<lambda>_. Wk_Idle), reg = In_workers, ot = (\<lambda>_. Ot_Idle)\<rparr>"
  by (simp add: one_call_def init_sys_def exec_def owner_step_def owner_dequeue_def cas_def)

text \<open>A worker that calls, suspends and is woken with item y; starter 0 registers a second worker between
  the two dictionary operations of \<open>SuspendWorker\<close>, which finishes while the first one runs again.\<close>

definition suspend_steps :: "action list" where
  "suspend_steps = [Owner_Call, Owner, Owner_Next, Owner, Owner_Take None, Owner, Owner, Owner, Owner]"

definition wake_steps :: "nat \<Rightarrow> nat \<Rightarrow> action list" where
  "wake_steps k y = [Start_Wake k y, Waker k, Waker k, Waker k, Waker k, Waker k]"

definition second_worker :: "nat \<Rightarrow> nat \<Rightarrow> nat \<Rightarrow> action list" where
  "second_worker x y z =
     [Owner, Owner_Take (Some x), Owner, Starter 0] @ suspend_steps @ [Starter 0, Owner, Owner] @
     wake_steps 0 y @ [Waker 0, Starter 0, Owner, Owner_Take (Some y), Owner] @ suspend_steps @ [Owner] @
     wake_steps 1 z"

lemmas second_worker_simps = second_worker_def suspend_steps_def wake_steps_def

lemma second_worker_run:
  "\<exists>s. run (init_sys x) (second_worker x y z) = Some s \<and> wk s 1 = Wk_InvalidOperation \<and>
     opc s = Own_Parked \<and> st s = StateWorking \<and> queue s = {#z#} \<and> reg s = In_none"
  by (simp add: second_worker_simps init_sys_def step_defs)

text \<open>
  C2. In every interleaving \<open>SuspendWorker\<close> finds no suspended worker under the key it adds, so it never
  raises; \<open>WakeWorker\<close> raises only if another thread has registered a second worker for the same
  address. That can happen, because \<open>TryStartProcedureWorker\<close> looks into \<open>suspendedWorkers\<close> first and
  adds to \<open>workers\<close> later: there is an interleaving that ends with \<open>WakeWorker\<close> raising
  InvalidOperationException while the worker stays parked, in neither dictionary, with the item it
  was woken for in its queue.
\<close>

theorem wake_worker_raises_for_second_worker:
  assumes "reachable x s"
  shows "(opc s = Own_SuspendAdd \<longrightarrow> \<not> has_suspended (reg s)) \<and>
    (wk s k = Wk_InvalidOperation \<longrightarrow> (\<exists>j. registered (ot s j))) \<and>
    (\<exists>t. reachable x t \<and> wk t 1 = Wk_InvalidOperation \<and> opc t = Own_Parked \<and> reg t = In_none \<and>
       queue t = {#z#})"
proof -
  have I: "suspended_inv s" "alone_inv s" using reachable_inv[OF assms] by auto
  have "\<exists>t. reachable x t \<and> wk t 1 = Wk_InvalidOperation \<and> opc t = Own_Parked \<and> reg t = In_none \<and>
      queue t = {#z#}"
    using second_worker_run[of x z z] run_reachable[OF reachable.start] by blast
  with I show ?thesis by (auto simp: suspended_inv_def alone_inv_def alone_def)
qed

text \<open>
  C3. A wake-up can be lost. There is an interleaving in which the waker holds the queue just when the
  owner tries to suspend, so \<open>TrySuspending\<close> fails, and has released it when the owner then calls
  \<open>TryFinishing\<close>: the worker finishes and is removed from the scanner although the item it was woken
  for is in its queue. \<open>Process\<close> tests the queue before the exchange in \<open>TryFinishing\<close>, not after it.
\<close>

theorem finished_with_work_queued:
  "\<exists>s. reachable 16 s \<and> opc s = Own_Gone \<and> reg s = In_none \<and> queue s = {#32#} \<and>
     wk s = (\<lambda>_. Wk_Idle)(0 := Wk_Done) \<and> owed s = 0 \<and> pending s = 0"
proof -
  obtain s where s: "run (init_sys 16) one_call = Some s" and
    v: "s = \<lparr>st = StateWorking, queue = {#}, pending = 1, owed = 1, opc = Own_SuspendCas,
     wk = (\<lambda>_. Wk_Idle), reg = In_workers, ot = (\<lambda>_. Ot_Idle)\<rparr>"
    using one_call_run by blast
  have r: "reachable 16 s" by (rule run_reachable[OF reachable.start s])
  define as where "as = [Start_Wake 0 32, Waker 0, Waker 0, Owner, Waker 0, Waker 0, Owner, Waker 0, Owner]"
  have "\<exists>s'. run s as = Some s' \<and> opc s' = Own_Gone \<and> reg s' = In_none \<and> queue s' = {#32#} \<and>
      wk s' = (\<lambda>_. Wk_Idle)(0 := Wk_Done) \<and> owed s' = 0 \<and> pending s' = 0"
    by (simp add: v as_def step_defs)
  with run_reachable[OF r] show ?thesis by blast
qed

text \<open>
  \<open>Wake\<close> can raise \<open>NotImplementedException\<close> on a worker that is running normally: the first
  exchange sees \<open>StateWorking\<close>, the owner takes the queue before the second exchange, and the
  remembered state is then neither of the two that the loop tolerates.
\<close>

lemma wake_raises_on_a_working_worker:
  "\<exists>s. reachable 16 s \<and> wk s 0 = Wk_NotImplemented \<and> st s = StateQueueBusy \<and> reg s = In_workers \<and>
     owner_cs (opc s)"
proof -
  define as where "as = [Owner, Owner_Take (Some 16), Owner, Owner_Call, Owner, Start_Wake 0 32, Waker 0,
    Owner_Next, Owner, Waker 0]"
  have "\<exists>s'. run (init_sys 16) as = Some s' \<and> wk s' 0 = Wk_NotImplemented \<and> st s' = StateQueueBusy \<and>
      reg s' = In_workers \<and> owner_cs (opc s')"
    by (simp add: as_def init_sys_def step_defs)
  with run_reachable[OF reachable.start] show ?thesis by blast
qed

text \<open>
  A callee that refuses the registration makes the caller decrement a count it never incremented
  (line 262). After one refusal the next call is counted as none, and the worker finishes although a
  callee still owes it a \<open>Wake\<close>.
\<close>

lemma finishes_while_waiting:
  "\<exists>s. reachable 16 s \<and> opc s = Own_Gone \<and> owed s = 1 \<and> pending s = 0"
proof -
  define as where "as = [Owner, Owner_Take (Some 16), Owner, Owner_Refused, Owner_Call, Owner, Owner_Next,
    Owner, Owner_Take None, Owner, Owner, Owner, Owner]"
  have "\<exists>s'. run (init_sys 16) as = Some s' \<and> opc s' = Own_Gone \<and> owed s' = 1 \<and> pending s' = 0"
    by (simp add: as_def init_sys_def step_defs)
  with run_reachable[OF reachable.start] show ?thesis by blast
qed

section \<open>Witnesses\<close>

text \<open>A reachable state with the waker in its critical section.\<close>

lemma sample_reachable:
  "\<exists>s. reachable 16 s \<and> wk s 0 = Wk_PutW 32 \<and> opc s = Own_SuspendCas"
proof -
  have "\<exists>s'. run (init_sys 16) (one_call @ [Start_Wake 0 32, Waker 0, Waker 0]) = Some s' \<and>
      wk s' 0 = Wk_PutW 32 \<and> opc s' = Own_SuspendCas"
    by (simp add: one_call_def init_sys_def exec_def owner_step_def owner_dequeue_def waker_step_def cas_def set_wk_def)
  with run_reachable[OF reachable.start] show ?thesis by blast
qed

theorem queue_mutual_exclusion_witness:
  "\<exists>s. reachable 16 s \<and> wk s 0 = Wk_PutW 32 \<and> st s = StateQueueBusy \<and> \<not> owner_cs (opc s)"
proof -
  obtain s where s: "reachable 16 s" "wk s 0 = Wk_PutW 32" "opc s = Own_SuspendCas"
    using sample_reachable by blast
  then have "waker_cs (wk s 0)" by simp
  with queue_mutual_exclusion[OF s(1)] s show ?thesis by blast
qed

theorem wake_worker_raises_for_second_worker_witness:
  "\<exists>s. reachable 16 s \<and> wk s 1 = Wk_InvalidOperation \<and> (\<exists>j. registered (ot s j))"
proof -
  obtain s where s: "run (init_sys 16) (second_worker 16 32 48) = Some s" "wk s 1 = Wk_InvalidOperation"
    using second_worker_run by blast
  have r: "reachable 16 s" by (rule run_reachable[OF reachable.start s(1)])
  with wake_worker_raises_for_second_worker[OF r, of 1 48] s(2) show ?thesis by blast
qed

end
