(* ===== verification/Segment_List.thy ===== *)
theory Segment_List
  imports Reko_Prelude
begin

text \<open>
  \<open>prologs/SegmentList.cs\<close>: the map of occupied address ranges that the CFG recovery of \<open>prologs\<close>
  keeps.  Addresses and sizes are integers (\<open>Address\<close> is Reko's type; the model has no address
  wrap-around).  A loop of the code that may run forever is a partial function whose value is None
  when it does.
\<close>

section \<open>The state\<close>

record segment =
  seg_start :: int
  seg_end :: int
  seg_sort :: string

abbreviation seg :: "int \<Rightarrow> int \<Rightarrow> string \<Rightarrow> segment" where
  "seg a b s \<equiv> \<lparr>seg_start = a, seg_end = b, seg_sort = s\<rparr>"

definition seg_size :: "segment \<Rightarrow> int" where
  "seg_size s = seg_end s - seg_start s"

record segment_list =
  sl_list :: "segment list"
  sl_bytes :: int

definition new_segment_list :: segment_list where
  "new_segment_list = \<lparr>sl_list = [], sl_bytes = 0\<rparr>"

definition remove_at :: "nat \<Rightarrow> 'a list \<Rightarrow> 'a list" where
  "remove_at i xs = take i xs @ drop (Suc i) xs"

definition insert_at :: "nat \<Rightarrow> 'a \<Rightarrow> 'a list \<Rightarrow> 'a list" where
  "insert_at i x xs = take i xs @ x # drop i xs"

section \<open>Searching\<close>

text \<open>The bounds of the binary search never cross, so its loop condition \<open>start != end\<close> is \<open>start < end\<close>.\<close>

function search_loop :: "segment list \<Rightarrow> int \<Rightarrow> nat \<Rightarrow> nat \<Rightarrow> nat" where
  "search_loop xs addr start fin =
     (if start < fin then
        let mid = start + (fin - start) div 2
        in if addr < seg_start (xs ! mid) then search_loop xs addr start mid
           else if seg_end (xs ! mid) \<le> addr then search_loop xs addr (mid + 1) fin
           else mid
      else start)"
  by pat_completeness auto
termination
  by (relation "measure (\<lambda>(xs, addr, start, fin). fin - start)") auto

declare search_loop.simps [simp del]

definition search :: "segment_list \<Rightarrow> int \<Rightarrow> nat" where
  "search sl addr = search_loop (sl_list sl) addr 0 (length (sl_list sl))"

section \<open>Inserting and merging\<close>

text \<open>The pieces of two overlapping segments of different sorts.\<close>

definition overlap_pieces :: "bool \<Rightarrow> segment \<Rightarrow> segment \<Rightarrow> segment list" where
  "overlap_pieces forward prev s =
     (let kind = if forward then seg_sort prev else seg_sort s
      in if seg_start s < seg_start prev then
           seg (seg_start s) (seg_start prev) (seg_sort s) # seg (seg_start prev) (seg_end prev) kind
           # (if seg_end s < seg_end prev then [seg (seg_end s) (seg_end prev) (seg_sort prev)]
              else if seg_end prev < seg_end s then [seg (seg_end prev) (seg_end s) (seg_sort s)]
              else [])
         else
           (if seg_start prev < seg_start s then [seg (seg_start prev) (seg_start s) (seg_sort prev)] else [])
           @ (if seg_end prev < seg_end s then
                [seg (seg_start s) (seg_end prev) kind, seg (seg_end prev) (seg_end s) (seg_sort s)]
              else if seg_end s < seg_end prev then
                [seg (seg_start s) (seg_end s) kind, seg (seg_end s) (seg_end prev) (seg_sort prev)]
              else [seg (seg_start s) (seg_end s) kind]))"

fun merge_pieces :: "segment list \<Rightarrow> segment list" where
  "merge_pieces (s0 # s1 # ss) =
     (if seg_sort s0 = seg_sort s1 then merge_pieces (seg (seg_start s0) (seg_end s1) (seg_sort s0) # ss)
      else s0 # merge_pieces (s1 # ss))"
| "merge_pieces ss = ss"

text \<open>
  \<open>_insert_and_merge_core\<close> returns whether it merged, the next position, the change of the byte
  count, and the list.  Overlapping segments of different sorts are cut into pieces whose list
  (\<open>nl\<close> in the code) is built and not stored: the list stays as it was.
\<close>

definition insert_and_merge_core :: "bool \<Rightarrow> nat \<Rightarrow> segment list \<Rightarrow> bool \<times> nat \<times> int \<times> segment list" where
  "insert_and_merge_core forward pos xs =
     (if forward \<and> pos = length xs - 1 \<or> \<not> forward \<and> pos = 0 then (False, pos, 0, xs)
      else
        let previous_pos = if forward then pos else pos - 1;
            segment_pos = if forward then pos + 1 else pos;
            prev = xs ! previous_pos;
            s = xs ! segment_pos
        in if seg_start s \<le> seg_end prev then
             if seg_sort s = seg_sort prev then
               let new_end = max (seg_end prev) (seg_start s + seg_size s);
                   new_start = min (seg_start prev) (seg_start s);
                   new_size = new_end - new_start
               in (True, previous_pos, - (seg_size s + seg_size prev - new_size),
                   remove_at previous_pos (xs[segment_pos := seg new_start new_end (seg_sort s)]))
             else if seg_start s = seg_end prev then (False, pos, 0, xs)
             else
               let new_segments = merge_pieces (overlap_pieces forward prev s);
                   old_size = sum_list (map seg_size [prev, s]);
                   new_size = sum_list (map seg_size new_segments)
               in (True, if forward then previous_pos + length new_segments - 1 else previous_pos,
                   new_size - old_size, xs)
           else (False, pos, 0, xs))"

partial_function (option) forward_loop :: "nat \<Rightarrow> segment_list \<Rightarrow> segment_list option" where
  "forward_loop pos sl =
     (if pos < length (sl_list sl) then
        case insert_and_merge_core True pos (sl_list sl) of (merged, p, change, xs) \<Rightarrow>
          if \<not> merged then Some (sl\<lparr>sl_list := xs\<rparr>)
          else forward_loop p \<lparr>sl_list = xs, sl_bytes = sl_bytes sl + change\<rparr>
      else Some sl)"

partial_function (option) backward_loop :: "nat \<Rightarrow> segment_list \<Rightarrow> segment_list option" where
  "backward_loop pos sl =
     (if 0 < pos then
        case insert_and_merge_core False pos (sl_list sl) of (merged, p, change, xs) \<Rightarrow>
          if \<not> merged then Some (sl\<lparr>sl_list := xs\<rparr>)
          else backward_loop p \<lparr>sl_list = xs, sl_bytes = sl_bytes sl + change\<rparr>
      else Some sl)"

fun insert_and_merge :: "int \<Rightarrow> int \<Rightarrow> string \<Rightarrow> nat \<Rightarrow> segment_list \<Rightarrow> segment_list option" where
  "insert_and_merge address sz kind idx sl =
     (if 0 < idx \<and> address + sz \<le> seg_start (sl_list sl ! (idx - 1))
      then insert_and_merge address sz kind (idx - 1) sl
      else
        case forward_loop idx
            \<lparr>sl_list = insert_at idx (seg address (address + sz) kind) (sl_list sl), sl_bytes = sl_bytes sl + sz\<rparr> of
          None \<Rightarrow> None
        | Some sl' \<Rightarrow> backward_loop idx sl')"

declare insert_and_merge.simps [simp del]

definition occupy :: "int \<Rightarrow> int \<Rightarrow> string \<Rightarrow> segment_list \<Rightarrow> segment_list option" where
  "occupy address sz kind sl =
     (if sz \<le> 0 then Some sl
      else if sl_list sl = [] then
        Some \<lparr>sl_list = [seg address (address + sz) kind], sl_bytes = sl_bytes sl + sz\<rparr>
      else insert_and_merge address sz kind (search sl address) sl)"

section \<open>Removing\<close>

text \<open>
  \<open>_remove\<close>: Inl is the exception \<open>Unreachable reached\<close>.  The search for the next segment runs on the
  list as changed.
\<close>

partial_function (option) remove_loop ::
  "int \<Rightarrow> int \<Rightarrow> nat \<Rightarrow> segment list \<Rightarrow> (unit + segment list) option" where
  "remove_loop address sz idx xs =
     (if idx < length xs then
        let s = xs ! idx
        in if seg_start s \<le> address then
             if address < seg_start s + seg_size s \<and> seg_start s + seg_size s < address + sz then
               let s' = s\<lparr>seg_end := address\<rparr>;
                   new_address = seg_start s' + seg_size s';
                   xs' = xs[idx := s']
               in remove_loop new_address (address + sz - new_address) (search_loop xs' new_address 0 (length xs')) xs'
             else if address < seg_start s + seg_size s \<and> address + sz \<le> seg_start s + seg_size s then
               let seg0 = seg (seg_start s) address (seg_sort s);
                   seg1 = seg (address + sz) (seg_start s + seg_size s) (seg_sort s);
                   xs1 = remove_at idx xs;
                   xs2 = if 0 < seg_size seg1 then insert_at idx seg1 xs1 else xs1;
                   xs3 = if 0 < seg_size seg0 then insert_at idx seg0 xs2 else xs2
               in Some (Inr xs3)
             else Some (Inl ())
           else if address + sz \<le> seg_start s then Some (Inr xs)
           else if seg_start s < address + sz \<and> address + sz \<le> seg_start s + seg_size s then
             let s' = s\<lparr>seg_start := address + sz\<rparr>
             in Some (Inr (if seg_size s' = 0 then remove_at idx xs else xs[idx := s']))
           else if seg_start s + seg_size s < address + sz then
             let xs' = remove_at idx xs;
                 new_address = seg_end s
             in remove_loop new_address (address + sz - new_address) (search_loop xs' new_address 0 (length xs')) xs'
           else Some (Inl ())
      else Some (Inr xs))"

definition release :: "int \<Rightarrow> int \<Rightarrow> segment_list \<Rightarrow> (unit + segment_list) option" where
  "release address sz sl =
     (if sz \<le> 0 \<or> sl_list sl = [] then Some (Inr sl)
      else
        let idx = search sl address
        in if idx < length (sl_list sl) then
             map_option (map_sum id (\<lambda>xs. sl\<lparr>sl_list := xs\<rparr>)) (remove_loop address sz idx (sl_list sl))
           else Some (Inr sl))"

section \<open>Queries\<close>

text \<open>The scan over segments that abut, in \<open>next_free_pos\<close>.\<close>

function run_end :: "segment list \<Rightarrow> nat \<Rightarrow> nat" where
  "run_end xs i =
     (if i + 1 < length xs \<and> seg_end (xs ! i) = seg_start (xs ! (i + 1)) then run_end xs (i + 1) else i)"
  by pat_completeness auto
termination
  by (relation "measure (\<lambda>(xs, i). length xs - i)") auto

declare run_end.simps [simp del]

text \<open>
  The test \<open>i == Count\<close> after the scan, which would index the list at -1, never holds: the scan stops
  inside the list.
\<close>

definition holds_at :: "segment_list \<Rightarrow> int \<Rightarrow> nat \<Rightarrow> bool" where
  "holds_at sl address idx \<longleftrightarrow>
     seg_start (sl_list sl ! idx) \<le> address \<and> address < seg_end (sl_list sl ! idx)"

definition next_free_pos :: "int \<Rightarrow> segment_list \<Rightarrow> int" where
  "next_free_pos address sl =
     (let idx = search sl address
      in if idx < length (sl_list sl) \<and> holds_at sl address idx
         then seg_end (sl_list sl ! run_end (sl_list sl) idx)
         else address)"

fun first_sort_not_in :: "int \<Rightarrow> string set \<Rightarrow> int option \<Rightarrow> segment list \<Rightarrow> int option" where
  "first_sort_not_in address sorts max_distance [] = None"
| "first_sort_not_in address sorts max_distance (s # ss) =
     (if (case max_distance of None \<Rightarrow> False | Some d \<Rightarrow> address + d < seg_start s) then None
      else if seg_sort s \<notin> sorts then Some (seg_start s)
      else first_sort_not_in address sorts max_distance ss)"

definition next_pos_with_sort_not_in :: "int \<Rightarrow> string set \<Rightarrow> int option \<Rightarrow> segment_list \<Rightarrow> int option" where
  "next_pos_with_sort_not_in address sorts max_distance sl =
     (let idx = search sl address
      in if idx < length (sl_list sl) then
           let block = sl_list sl ! idx
           in if (case max_distance of None \<Rightarrow> False | Some d \<Rightarrow> address + d < seg_start block) then None
              else if holds_at sl address idx then
                if seg_sort block \<notin> sorts then Some address
                else first_sort_not_in address sorts max_distance (drop (idx + 1) (sl_list sl))
              else first_sort_not_in address sorts max_distance (drop idx (sl_list sl))
         else None)"

definition is_occupied :: "int \<Rightarrow> segment_list \<Rightarrow> bool" where
  "is_occupied address sl =
     (let idx = search sl address
      in if length (sl_list sl) \<le> idx then False
         else if holds_at sl address idx then True
         else 0 < idx \<and> address < seg_end (sl_list sl ! (idx - 1)))"

definition occupied_by :: "int \<Rightarrow> segment_list \<Rightarrow> (int \<times> int \<times> string) option" where
  "occupied_by address sl =
     (let idx = search sl address;
          answer = (\<lambda>s. Some (seg_start s, seg_size s, seg_sort s))
      in if length (sl_list sl) \<le> idx then None
         else if holds_at sl address idx then answer (sl_list sl ! idx)
         else if 0 < idx \<and> address < seg_end (sl_list sl ! (idx - 1)) then answer (sl_list sl ! (idx - 1))
         else None)"

definition occupied_by_sort :: "int \<Rightarrow> segment_list \<Rightarrow> string option" where
  "occupied_by_sort address sl =
     (let idx = search sl address
      in if length (sl_list sl) \<le> idx then None
         else if holds_at sl address idx then Some (seg_sort (sl_list sl ! idx))
         else if 0 < idx \<and> address < seg_end (sl_list sl ! (idx - 1)) then Some (seg_sort (sl_list sl ! (idx - 1)))
         else None)"

section \<open>The map a list stands for\<close>

text \<open>A segment list is well formed when its segments are in order and do not overlap.\<close>

definition wf_segs :: "segment list \<Rightarrow> bool" where
  "wf_segs xs \<longleftrightarrow> sorted_wrt (\<lambda>s t. seg_end s \<le> seg_start t) xs \<and> (\<forall>s \<in> set xs. seg_start s \<le> seg_end s)"

definition covers :: "segment \<Rightarrow> int \<Rightarrow> bool" where
  "covers s x \<longleftrightarrow> seg_start s \<le> x \<and> x < seg_end s"

fun sort_at :: "segment list \<Rightarrow> int \<Rightarrow> string option" where
  "sort_at [] x = None"
| "sort_at (s # ss) x = (if covers s x then Some (seg_sort s) else sort_at ss x)"

lemma wf_Cons [simp]: "wf_segs (s # ss) \<longleftrightarrow> seg_start s \<le> seg_end s \<and> (\<forall>t \<in> set ss. seg_end s \<le> seg_start t) \<and> wf_segs ss"
  by (auto simp: wf_segs_def)

lemma wf_Nil [simp]: "wf_segs []"
  by (simp add: wf_segs_def)

lemma wf_append [simp]:
  "wf_segs (xs @ ys) \<longleftrightarrow> wf_segs xs \<and> wf_segs ys \<and> (\<forall>s \<in> set xs. \<forall>t \<in> set ys. seg_end s \<le> seg_start t)"
  by (auto simp: wf_segs_def sorted_wrt_append)

lemma sort_at_append: "sort_at (xs @ ys) x = (case sort_at xs x of None \<Rightarrow> sort_at ys x | Some s \<Rightarrow> Some s)"
  by (induction xs) simp_all

lemma sort_at_None: "sort_at xs x = None \<longleftrightarrow> (\<forall>s \<in> set xs. \<not> covers s x)"
  by (induction xs) auto

lemma wf_nth_less: "\<lbrakk>wf_segs xs; i < j; j < length xs\<rbrakk> \<Longrightarrow> seg_end (xs ! i) \<le> seg_start (xs ! j)"
  by (simp add: wf_segs_def sorted_wrt_iff_nth_less)

lemma wf_nth: "\<lbrakk>wf_segs xs; i < length xs\<rbrakk> \<Longrightarrow> seg_start (xs ! i) \<le> seg_end (xs ! i)"
  by (simp add: wf_segs_def)

definition first_after :: "segment list \<Rightarrow> int \<Rightarrow> nat \<Rightarrow> bool" where
  "first_after xs addr i \<longleftrightarrow>
     i \<le> length xs \<and> (\<forall>j < i. seg_end (xs ! j) \<le> addr) \<and> (i < length xs \<longrightarrow> addr < seg_end (xs ! i))"

lemma search_loop_first:
  assumes "wf_segs xs" "start \<le> fin" "fin \<le> length xs" "\<forall>j < start. seg_end (xs ! j) \<le> addr"
    "fin < length xs \<longrightarrow> addr < seg_end (xs ! fin)"
  shows "first_after xs addr (search_loop xs addr start fin)"
  using assms
proof (induction xs addr start fin rule: search_loop.induct)
  case (1 xs addr start fin)
  let ?mid = "start + (fin - start) div 2"
  show ?case
  proof (cases "start < fin")
    case False
    then have "search_loop xs addr start fin = start" by (simp add: search_loop.simps [of xs addr start fin])
    then show ?thesis using 1 False by (auto simp: first_after_def)
  next
    case True
    then have mid: "?mid < fin" "?mid < length xs" using 1 by auto
    consider "addr < seg_start (xs ! ?mid)" | "seg_end (xs ! ?mid) \<le> addr" "seg_start (xs ! ?mid) \<le> addr"
      | "seg_start (xs ! ?mid) \<le> addr" "addr < seg_end (xs ! ?mid)" by linarith
    then show ?thesis
    proof cases
      case 1
      then have "addr < seg_end (xs ! ?mid)" using wf_nth [OF \<open>wf_segs xs\<close> mid(2)] by simp
      then show ?thesis using 1 "1.IH"(1) [OF True refl 1] "1.prems" mid True
        by (simp add: search_loop.simps [of xs addr start fin] Let_def)
    next
      case 2
      have "seg_end (xs ! j) \<le> addr" if "j < ?mid + 1" for j
        using that wf_nth_less [OF \<open>wf_segs xs\<close> _ mid(2), of j] 2 by (cases "j = ?mid") auto
      then show ?thesis using 2 "1.IH"(2) [OF True refl] "1.prems" mid True
        by (simp add: search_loop.simps [of xs addr start fin] Let_def not_less)
    next
      case 3
      have "seg_end (xs ! j) \<le> addr" if "j < ?mid" for j
        using that wf_nth_less [OF \<open>wf_segs xs\<close> that mid(2)] 3 by simp
      then show ?thesis using 3 mid True
        by (simp add: search_loop.simps [of xs addr start fin] Let_def first_after_def)
    qed
  qed
qed

lemma search_first: "wf_segs (sl_list sl) \<Longrightarrow> first_after (sl_list sl) addr (search sl addr)"
  unfolding search_def by (rule search_loop_first) auto

lemma first_after_split:
  assumes "first_after xs addr i" "i < length xs"
  shows "\<exists>as s bs. xs = as @ s # bs \<and> length as = i \<and> (\<forall>t \<in> set as. seg_end t \<le> addr) \<and> addr < seg_end s"
proof -
  have "xs = take i xs @ xs ! i # drop (Suc i) xs" using assms(2) by (rule id_take_nth_drop)
  moreover have "\<forall>t \<in> set (take i xs). seg_end t \<le> addr"
    using assms by (auto simp: first_after_def in_set_conv_nth)
  ultimately show ?thesis using assms by (intro exI [of _ "take i xs"]) (auto simp: first_after_def)
qed

lemma first_after_end: "\<lbrakk>first_after xs addr i; length xs \<le> i; t \<in> set xs\<rbrakk> \<Longrightarrow> seg_end t \<le> addr"
  by (auto simp: first_after_def in_set_conv_nth)

lemma sort_at_before: "(\<forall>t \<in> set as. seg_end t \<le> x) \<Longrightarrow> sort_at (as @ ss) x = sort_at ss x"
  by (induction as) (auto simp: covers_def)

lemma sort_at_after: "\<lbrakk>\<forall>t \<in> set ss. x < seg_start t\<rbrakk> \<Longrightarrow> sort_at ss x = None"
  by (induction ss) (auto simp: covers_def)

text \<open>
  The binary search is right on every well-formed list: the queries \<open>is_occupied\<close>,
  \<open>occupied_by_sort\<close> and \<open>occupied_by\<close> answer for the segment that contains the address, if there is
  one (their last branch, after the comment that it seems never to be reached, is never taken).
\<close>

lemma queries_find_the_segment:
  assumes "wf_segs (sl_list sl)"
  shows "occupied_by_sort x sl = sort_at (sl_list sl) x
    \<and> is_occupied x sl = (\<exists>s \<in> set (sl_list sl). covers s x)
    \<and> (occupied_by x sl = Some (a, n, k)
        \<longleftrightarrow> (\<exists>s \<in> set (sl_list sl). covers s x \<and> a = seg_start s \<and> n = seg_end s - seg_start s \<and> k = seg_sort s))"
proof (cases "search sl x < length (sl_list sl)")
  case True
  then obtain as s bs where d: "sl_list sl = as @ s # bs" "length as = search sl x"
    "\<forall>t \<in> set as. seg_end t \<le> x" "x < seg_end s"
    using first_after_split [OF search_first [OF assms]] by metis
  have nth: "sl_list sl ! search sl x = s" using d(1,2) by (metis nth_append_length)
  have low: "\<not> x < seg_end (sl_list sl ! (search sl x - 1))" if "0 < search sl x"
  proof -
    have "sl_list sl ! (search sl x - 1) = as ! (search sl x - 1)" using d(1,2) that by (simp add: nth_append)
    moreover have "as ! (search sl x - 1) \<in> set as" using d(2) that by simp
    ultimately show ?thesis using d(3) by force
  qed
  have hold: "holds_at sl x (search sl x) \<longleftrightarrow> covers s x" using nth by (simp add: holds_at_def covers_def)
  have before: "\<not> covers t x" if "t \<in> set as" for t using d(3) that by (auto simp: covers_def)
  have after: "\<not> covers t x" if "t \<in> set bs" for t using assms d(1,4) that by (auto simp: covers_def)
  have sorted: "sort_at (sl_list sl) x = (if covers s x then Some (seg_sort s) else None)"
    using d(1,3) after by (simp add: sort_at_before sort_at_None)
  show ?thesis
    using True low hold sorted before after nth unfolding d(1)
    by (auto simp: is_occupied_def occupied_by_sort_def occupied_by_def Let_def seg_size_def d(1))
next
  case False
  then have "seg_end t \<le> x" if "t \<in> set (sl_list sl)" for t
    using first_after_end [OF search_first [OF assms]] that by simp
  then have no: "\<not> covers t x" if "t \<in> set (sl_list sl)" for t using that by (force simp: covers_def)
  then have "sort_at (sl_list sl) x = None" by (simp add: sort_at_None)
  then show ?thesis using False no by (auto simp: is_occupied_def occupied_by_sort_def occupied_by_def Let_def)
qed

theorem queries_find_the_segment_witness:
  "occupied_by_sort 5 \<lparr>sl_list = [seg 0 4 ''code'', seg 4 9 ''data''], sl_bytes = 9\<rparr> = Some ''data''
    \<and> occupied_by 9 \<lparr>sl_list = [seg 0 4 ''code'', seg 4 9 ''data''], sl_bytes = 9\<rparr> \<noteq> Some (4, 5, ''data'')"
  using queries_find_the_segment [of "\<lparr>sl_list = [seg 0 4 ''code'', seg 4 9 ''data''], sl_bytes = 9\<rparr>" 5 4 5 "''data''"]
    queries_find_the_segment [of "\<lparr>sl_list = [seg 0 4 ''code'', seg 4 9 ''data''], sl_bytes = 9\<rparr>" 9 4 5 "''data''"]
  by (simp add: covers_def)

section \<open>Occupying\<close>

abbreviation joined :: "segment \<Rightarrow> segment \<Rightarrow> segment" where
  "joined p s \<equiv> seg (min (seg_start p) (seg_start s)) (max (seg_end p) (seg_end s)) (seg_sort s)"

lemma core_last: "insert_and_merge_core True (length xs) (xs @ [c]) = (False, length xs, 0, xs @ [c])"
  "insert_and_merge_core False 0 xs = (False, 0, 0, xs)"
  by (simp_all add: insert_and_merge_core_def)

lemma remove_join: "remove_at (length xs) ((xs @ c # y # ys)[Suc (length xs) := z]) = xs @ z # ys"
  by (simp add: remove_at_def list_update_append)

lemma core_pair:
  "insert_and_merge_core True (length xs) (xs @ c # y # ys) =
    (if seg_start y \<le> seg_end c \<and> seg_sort y = seg_sort c
     then (True, length xs, seg_size (joined c y) - seg_size c - seg_size y, xs @ joined c y # ys)
     else if seg_start y < seg_end c
     then let ns = merge_pieces (overlap_pieces True c y)
          in (True, length xs + length ns - 1, sum_list (map seg_size ns) - seg_size c - seg_size y, xs @ c # y # ys)
     else (False, length xs, 0, xs @ c # y # ys))"
  "insert_and_merge_core False (Suc (length xs)) (xs @ c # y # ys) =
    (if seg_start y \<le> seg_end c \<and> seg_sort y = seg_sort c
     then (True, length xs, seg_size (joined c y) - seg_size c - seg_size y, xs @ joined c y # ys)
     else if seg_start y < seg_end c
     then let ns = merge_pieces (overlap_pieces False c y)
          in (True, length xs, sum_list (map seg_size ns) - seg_size c - seg_size y, xs @ c # y # ys)
     else (False, Suc (length xs), 0, xs @ c # y # ys))"
  by (auto simp: insert_and_merge_core_def nth_append seg_size_def remove_join Let_def)

definition total_size :: "segment list \<Rightarrow> int" where
  "total_size xs = sum_list (map seg_size xs)"

lemma total_simps [simp]: "total_size [] = 0" "total_size (s # ss) = seg_size s + total_size ss" "total_size (xs @ ys) = total_size xs + total_size ys"
  by (simp_all add: total_size_def)

text \<open>A segment fits a list when it overlaps no segment of another sort.\<close>

definition fits :: "segment \<Rightarrow> segment list \<Rightarrow> bool" where
  "fits c ys \<longleftrightarrow> (\<forall>t \<in> set ys. seg_start t < seg_end c \<longrightarrow> seg_sort t = seg_sort c)"

lemma forward_merges:
  assumes "wf_segs ys" "seg_start c \<le> seg_end c" "\<forall>t \<in> set ys. seg_start c \<le> seg_end t" "fits c ys"
  shows "\<exists>c' ys'. forward_loop (length xs) \<lparr>sl_list = xs @ c # ys, sl_bytes = n\<rparr>
      = Some \<lparr>sl_list = xs @ c' # ys', sl_bytes = n + total_size (c' # ys') - total_size (c # ys)\<rparr>
    \<and> wf_segs (c' # ys') \<and> seg_sort c' = seg_sort c
    \<and> seg_start c' \<le> seg_start c \<and> (\<forall>b. b \<le> seg_start c \<and> (\<forall>t \<in> set ys. b \<le> seg_start t) \<longrightarrow> b \<le> seg_start c')
    \<and> (\<forall>x. sort_at (c' # ys') x = (if covers c x then Some (seg_sort c) else sort_at ys x))"
  using assms
proof (induction ys arbitrary: c n)
  case Nil
  then show ?case
    by (intro exI [of _ c] exI [of _ "[]"])
      (simp add: forward_loop.simps [of "length xs" "\<lparr>sl_list = xs @ [c], sl_bytes = n\<rparr>"] core_last)
next
  case (Cons y ys)
  let ?sl = "\<lparr>sl_list = xs @ c # y # ys, sl_bytes = n\<rparr>"
  show ?case
  proof (cases "seg_start y \<le> seg_end c \<and> seg_sort y = seg_sort c")
    case True
    let ?j = "joined c y"
    have step: "forward_loop (length xs) ?sl
        = forward_loop (length xs) \<lparr>sl_list = xs @ ?j # ys, sl_bytes = n + (seg_size ?j - seg_size c - seg_size y)\<rparr>"
      using True by (subst forward_loop.simps) (simp add: core_pair)
    have prem: "wf_segs ys" "seg_start ?j \<le> seg_end ?j" "\<forall>t \<in> set ys. seg_start ?j \<le> seg_end t"
      using Cons.prems by (auto simp: min_def max_def)
    have "fits ?j ys" using Cons.prems True by (fastforce simp: fits_def)
    from Cons.IH [OF prem this, of "n + (seg_size ?j - seg_size c - seg_size y)"]
    obtain c' ys' where r: "forward_loop (length xs)
        \<lparr>sl_list = xs @ ?j # ys, sl_bytes = n + (seg_size ?j - seg_size c - seg_size y)\<rparr>
      = Some \<lparr>sl_list = xs @ c' # ys', sl_bytes = n + (seg_size ?j - seg_size c - seg_size y) + total_size (c' # ys') - total_size (?j # ys)\<rparr>"
      "wf_segs (c' # ys')" "seg_sort c' = seg_sort y" "seg_start c' \<le> seg_start ?j"
      "\<forall>b. b \<le> seg_start ?j \<and> (\<forall>t \<in> set ys. b \<le> seg_start t) \<longrightarrow> b \<le> seg_start c'"
      "\<forall>x. sort_at (c' # ys') x = (if covers ?j x then Some (seg_sort y) else sort_at ys x)"
      by auto
    have cov: "covers ?j x \<longleftrightarrow> covers c x \<or> covers y x" for x
      using True Cons.prems(1-3) by (auto simp: covers_def)
    have "seg_start c' \<le> seg_start c" using r(4) by simp
    then show ?thesis
      using r True cov unfolding step by (intro exI [of _ c'] exI [of _ ys']) (simp del: sort_at.simps, auto)
  next
    case False
    then have gap: "seg_end c \<le> seg_start y" using Cons.prems(4) by (auto simp: fits_def)
    then have "forward_loop (length xs) ?sl = Some ?sl"
      using False by (subst forward_loop.simps) (auto simp: core_pair)
    moreover have "wf_segs (c # y # ys)" using Cons.prems(1,2) gap by auto
    ultimately show ?thesis
      by (intro exI [of _ c] exI [of _ "y # ys"]) (auto simp: covers_def)
  qed
qed

lemma backward_merges:
  assumes "wf_segs (xs @ c # ys)"
  shows "\<exists>zs. backward_loop (length xs) \<lparr>sl_list = xs @ c # ys, sl_bytes = n\<rparr>
      = Some \<lparr>sl_list = zs, sl_bytes = n + total_size zs - total_size (xs @ c # ys)\<rparr>
    \<and> wf_segs zs \<and> sort_at zs = sort_at (xs @ c # ys)"
  using assms
proof (induction xs arbitrary: c n rule: rev_induct)
  case Nil
  then show ?case by (subst backward_loop.simps) simp
next
  case (snoc p xs)
  let ?sl = "\<lparr>sl_list = (xs @ [p]) @ c # ys, sl_bytes = n\<rparr>"
  show ?case
  proof (cases "seg_start c \<le> seg_end p \<and> seg_sort c = seg_sort p")
    case True
    let ?j = "joined p c"
    have step: "backward_loop (length (xs @ [p])) ?sl
        = backward_loop (length xs) \<lparr>sl_list = xs @ ?j # ys, sl_bytes = n + (seg_size ?j - seg_size p - seg_size c)\<rparr>"
      using True by (subst backward_loop.simps) (simp add: core_pair)
    have wf: "wf_segs (xs @ ?j # ys)" using snoc.prems by (auto simp: min_def max_def)
    have cov: "covers ?j x \<longleftrightarrow> covers p x \<or> covers c x" for x
      using True snoc.prems by (auto simp: covers_def)
    have "sort_at (xs @ ?j # ys) x = sort_at ((xs @ [p]) @ c # ys) x" for x
      using True cov [of x] by (simp add: sort_at_append split: option.split)
    then have same: "sort_at (xs @ ?j # ys) = sort_at ((xs @ [p]) @ c # ys)" by (rule ext)
    show ?thesis
      using snoc.IH [OF wf, of "n + (seg_size ?j - seg_size p - seg_size c)"] unfolding step same by auto
  next
    case False
    then have "backward_loop (length (xs @ [p])) ?sl = Some ?sl"
      using snoc.prems by (subst backward_loop.simps) (auto simp: core_pair)
    then show ?thesis using snoc.prems by (intro exI [of _ "(xs @ [p]) @ c # ys"]) simp
  qed
qed


lemma first_after_parts:
  assumes "wf_segs xs" "first_after xs a i"
  shows "\<forall>t \<in> set (take i xs). seg_end t \<le> a" "\<forall>t \<in> set (drop i xs). a < seg_end t" "length (take i xs) = i"
proof -
  show "length (take i xs) = i" and 1: "\<forall>t \<in> set (take i xs). seg_end t \<le> a"
    using assms(2) by (auto simp: first_after_def in_set_conv_nth)
  show "\<forall>t \<in> set (drop i xs). a < seg_end t"
  proof (cases "i < length xs")
    case True
    then have d: "drop i xs = xs ! i # drop (Suc i) xs" by (simp add: Cons_nth_drop_Suc)
    have "wf_segs (xs ! i # drop (Suc i) xs)" using assms(1) by (metis append_take_drop_id d wf_append)
    moreover have "a < seg_end (xs ! i)" using assms(2) True by (simp add: first_after_def)
    ultimately show ?thesis unfolding d by (force simp: wf_segs_def)
  qed simp
qed

text \<open>
  C26. \<open>occupy\<close> refines the map from addresses to sorts: when the new range overlaps no segment of another
  sort, it returns, the list stays well-formed, exactly the addresses of the range get the new sort, and
  \<open>occupied_size\<close> changes by what the segments' sizes change (whatever merging took place).
\<close>

theorem occupy_overrides:
  assumes wf: "wf_segs (sl_list sl)" and sz: "0 < sz"
    and fit: "\<forall>t \<in> set (sl_list sl). seg_start t < a + sz \<and> a < seg_end t \<longrightarrow> seg_sort t = k"
  shows "\<exists>sl'. occupy a sz k sl = Some sl' \<and> wf_segs (sl_list sl')
    \<and> (\<forall>x. sort_at (sl_list sl') x = (if a \<le> x \<and> x < a + sz then Some k else sort_at (sl_list sl) x))
    \<and> sl_bytes sl' - total_size (sl_list sl') = sl_bytes sl - total_size (sl_list sl)"
proof (cases "sl_list sl = []")
  case True
  then show ?thesis using sz by (simp add: occupy_def covers_def seg_size_def)
next
  case False
  let ?c = "seg a (a + sz) k" and ?i = "search sl a"
  let ?as = "take ?i (sl_list sl)" and ?ys = "drop ?i (sl_list sl)"
  have l: "sl_list sl = ?as @ ?ys" by simp
  note parts = first_after_parts [OF wf search_first [OF wf, of a]]
  have wf2: "wf_segs ?as" "wf_segs ?ys" "\<forall>s \<in> set ?as. \<forall>t \<in> set ?ys. seg_end s \<le> seg_start t"
    using wf l wf_append by metis+
  have le: "\<forall>t \<in> set ?ys. seg_start ?c \<le> seg_end t" using parts(2) by auto
  have ft: "fits ?c ?ys" using fit parts(2) by (auto simp: fits_def dest: in_set_dropD)
  obtain c' ys' where f: "forward_loop (length ?as) \<lparr>sl_list = ?as @ ?c # ?ys, sl_bytes = sl_bytes sl + sz\<rparr>
      = Some \<lparr>sl_list = ?as @ c' # ys', sl_bytes = sl_bytes sl + sz + total_size (c' # ys') - total_size (?c # ?ys)\<rparr>"
    "wf_segs (c' # ys')" "\<forall>b. b \<le> seg_start ?c \<and> (\<forall>t \<in> set ?ys. b \<le> seg_start t) \<longrightarrow> b \<le> seg_start c'"
    "\<forall>x. sort_at (c' # ys') x = (if covers ?c x then Some (seg_sort ?c) else sort_at ?ys x)"
    using forward_merges [OF wf2(2) _ le ft, of ?as "sl_bytes sl + sz"] sz by auto
  have "seg_end s \<le> seg_start c'" if "s \<in> set ?as" for s using f(3) that parts(1) wf2(3) by auto
  then have wf3: "wf_segs (?as @ c' # ys')" using f(2) wf2(1) by fastforce
  obtain zs where b: "backward_loop (length ?as)
      \<lparr>sl_list = ?as @ c' # ys', sl_bytes = sl_bytes sl + sz + total_size (c' # ys') - total_size (?c # ?ys)\<rparr>
    = Some \<lparr>sl_list = zs, sl_bytes = sl_bytes sl + sz + total_size (c' # ys') - total_size (?c # ?ys)
        + total_size zs - total_size (?as @ c' # ys')\<rparr>"
    "wf_segs zs" "sort_at zs = sort_at (?as @ c' # ys')"
    using backward_merges [OF wf3] by metis
  have "\<not> (0 < ?i \<and> a + sz \<le> seg_start (sl_list sl ! (?i - 1)))"
  proof (cases "?i = 0")
    case False
    then have i: "?i - 1 < length ?as" using parts(3) by simp
    then have "?as ! (?i - 1) \<in> set ?as" by (rule nth_mem)
    then have "seg_start (?as ! (?i - 1)) \<le> a" using parts(1) wf2(1) unfolding wf_segs_def by force
    then show ?thesis using sz i by simp
  qed simp
  then have "occupy a sz k sl = Some \<lparr>sl_list = zs, sl_bytes = sl_bytes sl + sz + total_size (c' # ys')
      - total_size (?c # ?ys) + total_size zs - total_size (?as @ c' # ys')\<rparr>"
    using sz False f(1) b(1) unfolding parts(3)
    by (auto simp add: occupy_def insert_and_merge.simps [of a sz k ?i sl] insert_at_def simp del: total_simps)
  moreover have "total_size (sl_list sl) = total_size ?as + total_size ?ys" using l total_simps(3) by metis
  moreover have "sort_at zs x = (if a \<le> x \<and> x < a + sz then Some k else sort_at (sl_list sl) x)" for x
  proof -
    have "sort_at (sl_list sl) x = (case sort_at ?as x of None \<Rightarrow> sort_at ?ys x | Some s \<Rightarrow> Some s)"
      using l sort_at_append by metis
    moreover have "sort_at ?as x = None" if "a \<le> x"
      using parts(1) that unfolding sort_at_None by (force simp: covers_def)
    moreover have "sort_at (c' # ys') x = (if a \<le> x \<and> x < a + sz then Some k else sort_at ?ys x)"
      using f(4) [rule_format, of x] by (simp add: covers_def [of ?c] del: sort_at.simps)
    ultimately show ?thesis unfolding b(3) sort_at_append by (auto simp del: sort_at.simps split: option.split)
  qed
  ultimately show ?thesis using b(2) by (auto simp: seg_size_def)
qed

theorem occupy_overrides_witness:
  "\<exists>sl'. occupy 2 5 ''code'' \<lparr>sl_list = [seg 0 4 ''code'', seg 5 6 ''code'', seg 7 9 ''data''], sl_bytes = 7\<rparr> = Some sl'
    \<and> wf_segs (sl_list sl') \<and> sort_at (sl_list sl') 4 = Some ''code'' \<and> sort_at (sl_list sl') 7 = Some ''data''"
  using occupy_overrides [of "\<lparr>sl_list = [seg 0 4 ''code'', seg 5 6 ''code'', seg 7 9 ''data''], sl_bytes = 7\<rparr>" 5 2 "''code''"]
  by (auto simp: covers_def)

text \<open>A loop step that keeps the list and the position is taken for ever.\<close>

lemma forward_loop_stuck:
  assumes "insert_and_merge_core True pos xs = (True, pos, n, xs)" "pos < length xs"
  shows "forward_loop pos \<lparr>sl_list = xs, sl_bytes = m\<rparr> = None"
proof -
  have "\<not> (pos' = pos \<and> sl_list sl = xs)" if run: "forward_loop pos' sl = Some r" for pos' sl r
  proof (rule forward_loop.raw_induct [where P = "\<lambda>p s _. \<not> (p = pos \<and> sl_list s = xs)", OF _ run])
    fix f :: "nat \<Rightarrow> segment_list \<Rightarrow> segment_list option" and p s r'
    assume ih: "\<And>p s q. f p s = Some q \<Longrightarrow> \<not> (p = pos \<and> sl_list s = xs)"
      and body: "(if p < length (sl_list s) then case insert_and_merge_core True p (sl_list s) of (merged, p, change, xs) \<Rightarrow>
          if \<not> merged then Some (s\<lparr>sl_list := xs\<rparr>) else f p \<lparr>sl_list = xs, sl_bytes = sl_bytes s + change\<rparr>
        else Some s) = Some r'"
    show "\<not> (p = pos \<and> sl_list s = xs)"
      using body assms ih [of pos "\<lparr>sl_list = xs, sl_bytes = sl_bytes s + n\<rparr>" r'] by auto
  qed
  from this [of pos "\<lparr>sl_list = xs, sl_bytes = m\<rparr>"] show ?thesis by (cases "forward_loop pos \<lparr>sl_list = xs, sl_bytes = m\<rparr>") auto
qed

lemma merge_pieces_same: "\<lbrakk>ss \<noteq> []; \<forall>s \<in> set ss. seg_sort s = k\<rbrakk> \<Longrightarrow> length (merge_pieces ss) = 1"
  by (induction ss rule: merge_pieces.induct) auto

text \<open>
  C28. \<open>occupy\<close> does not return when the range covers, without being longer on the left, the whole
  segment of another sort that it finds: the list of new segments is never stored, the position stays, and the
  forward loop repeats the same step.
\<close>

theorem occupy_never_returns:
  assumes "0 < sz" "search sl a < length (sl_list sl)" "a \<le> seg_start (sl_list sl ! search sl a)"
    "seg_start (sl_list sl ! search sl a) < a + sz" "seg_end (sl_list sl ! search sl a) \<le> a + sz"
    "seg_sort (sl_list sl ! search sl a) \<noteq> k"
    "0 < search sl a \<longrightarrow> seg_start (sl_list sl ! (search sl a - 1)) < a + sz"
  shows "occupy a sz k sl = None"
proof -
  let ?i = "search sl a"
  let ?y = "sl_list sl ! ?i" and ?c = "seg a (a + sz) k"
  let ?as = "take ?i (sl_list sl)" and ?bs = "drop (Suc ?i) (sl_list sl)"
  let ?xs = "?as @ ?c # ?y # ?bs"
  have ins: "insert_at ?i ?c (sl_list sl) = ?xs" using assms(2) by (simp add: insert_at_def Cons_nth_drop_Suc)
  have len: "length ?as = ?i" using assms(2) by simp
  have "length (merge_pieces (overlap_pieces True ?c ?y)) = 1"
    using assms(3-6) by (intro merge_pieces_same [of _ k]) (auto simp: overlap_pieces_def Let_def)
  then have "\<exists>n. insert_and_merge_core True ?i ?xs = (True, ?i, n, ?xs)"
    using core_pair(1) [of ?as ?c ?y ?bs] assms(4,6) unfolding len by (simp add: Let_def)
  then obtain n where "insert_and_merge_core True ?i ?xs = (True, ?i, n, ?xs)" by blast
  then have "forward_loop ?i \<lparr>sl_list = ?xs, sl_bytes = sl_bytes sl + sz\<rparr> = None"
    using len by (intro forward_loop_stuck) auto
  then show ?thesis using assms(1,2,7) by (auto simp: occupy_def insert_and_merge.simps [of a sz k ?i sl] ins)
qed

theorem occupy_never_returns_witness:
  "occupy 2 4 ''data'' \<lparr>sl_list = [seg 0 2 ''code'', seg 3 5 ''code''], sl_bytes = 4\<rparr> = None"
  by (rule occupy_never_returns) (simp_all add: search_def search_loop.simps)

text \<open>
  A range that ends inside or after a segment of another sort: \<open>occupy\<close> returns with an unsorted list, and
  an address just occupied is not found.
\<close>

lemma overlapped_address_lost:
  shows "occupy 0 4 ''code'' new_segment_list = Some \<lparr>sl_list = [seg 0 4 ''code''], sl_bytes = 4\<rparr>"
    and "occupy 2 4 ''data'' \<lparr>sl_list = [seg 0 4 ''code''], sl_bytes = 4\<rparr>
      = Some \<lparr>sl_list = [seg 2 6 ''data'', seg 0 4 ''code''], sl_bytes = 6\<rparr>"
    and "is_occupied 5 \<lparr>sl_list = [seg 2 6 ''data'', seg 0 4 ''code''], sl_bytes = 6\<rparr> = False"
  subgoal by (simp add: occupy_def new_segment_list_def)
  subgoal apply (simp add: occupy_def search_def search_loop.simps
     insert_and_merge.simps insert_at_def Let_def)
  apply (simp add: forward_loop.simps backward_loop.simps insert_and_merge_core_def
     overlap_pieces_def seg_size_def Let_def) done
  subgoal by (simp add: is_occupied_def holds_at_def search_def search_loop.simps)
  done

section \<open>Releasing\<close>

lemma first_after_prefix:
  assumes "first_after (ps @ qs) a i" "\<forall>t \<in> set ps. seg_end t \<le> a"
  shows "length ps \<le> i"
proof (rule ccontr)
  assume "\<not> length ps \<le> i"
  then have "i < length (ps @ qs)" "(ps @ qs) ! i \<in> set ps" by (simp_all add: nth_append)
  then show False using assms by (force simp: first_after_def)
qed

lemma remove_loop_clears:
  assumes "wf_segs (as @ ys)" "\<forall>t \<in> set as. seg_end t \<le> a" "\<forall>t \<in> set ys. a < seg_end t" "0 < sz"
  shows "\<exists>zs. remove_loop a sz (length as) (as @ ys) = Some (Inr zs) \<and> wf_segs zs
    \<and> (\<forall>x. sort_at zs x = (if a \<le> x \<and> x < a + sz then None else sort_at (as @ ys) x))"
  using assms
proof (induction "length ys" arbitrary: as ys a sz rule: less_induct)
  case less
  have again: "\<exists>zs. remove_loop a' sz' (search_loop (ps @ qs) a' 0 (length (ps @ qs))) (ps @ qs) = Some (Inr zs) \<and> wf_segs zs
      \<and> (\<forall>x. sort_at zs x = (if a' \<le> x \<and> x < a' + sz' then None else sort_at (ps @ qs) x))"
    if "wf_segs (ps @ qs)" "\<forall>t \<in> set ps. seg_end t \<le> a'" "length qs < length ys" "0 < sz'" for ps qs a' sz'
  proof -
    let ?i = "search_loop (ps @ qs) a' 0 (length (ps @ qs))"
    have fa: "first_after (ps @ qs) a' ?i" using that(1) by (intro search_loop_first) auto
    note parts = first_after_parts [OF that(1) fa]
    have "length (drop ?i (ps @ qs)) < length ys" using first_after_prefix [OF fa that(2)] that(3) by simp
    from less.hyps [OF this, of "take ?i (ps @ qs)" a' sz'] show ?thesis
      using parts that(1,4) by (simp only: append_take_drop_id)
  qed
  show ?case
  proof (cases ys)
    case Nil
    have "sort_at as x = None" if "a \<le> x" for x using less.prems(2) that by (force simp: sort_at_None covers_def)
    then show ?thesis using Nil less.prems by (intro exI [of _ as]) (simp add: remove_loop.simps [of a sz "length as" as])
  next
    case (Cons y bs)
    have before: "sort_at as x = None" if "a \<le> x" for x using less.prems(2) that by (force simp: sort_at_None covers_def)
    have after: "sort_at bs x = None" if "x < seg_end y" for x
      using less.prems(1) Cons that by (force simp: sort_at_None covers_def)
    have low: "seg_end t \<le> seg_start y" if "t \<in> set as" for t using less.prems(1) Cons that by simp
    have ordered: "wf_segs as" "wf_segs bs" "seg_start y \<le> seg_end y" "\<forall>t \<in> set bs. seg_end y \<le> seg_start t"
      "\<forall>s \<in> set as. \<forall>t \<in> set bs. seg_end s \<le> seg_start t"
      using less.prems(1) Cons by auto
    have y: "a < seg_end y" using less.prems(3) Cons by simp
    have loop: "remove_loop a sz (length as) (as @ ys) = remove_loop a sz (length as) (as @ y # bs)" using Cons by simp
    have same: "sort_at (as @ ys) x = (case sort_at as x of None \<Rightarrow> if covers y x then Some (seg_sort y) else sort_at bs x
        | Some s \<Rightarrow> Some s)" for x using Cons by (simp add: sort_at_append split: option.split)
    consider "seg_start y \<le> a" "seg_end y < a + sz" | "seg_start y \<le> a" "a + sz \<le> seg_end y"
      | "a + sz \<le> seg_start y" | "a < seg_start y" "seg_start y < a + sz" "a + sz \<le> seg_end y"
      | "a < seg_start y" "seg_end y < a + sz" by linarith
    then show ?thesis
    proof cases
      case 1
      let ?s = "y\<lparr>seg_end := a\<rparr>" and ?xs = "as @ y\<lparr>seg_end := a\<rparr> # bs"
      have step: "remove_loop a sz (length as) (as @ ys) = remove_loop a sz (search_loop ?xs a 0 (length ?xs)) ?xs"
        unfolding loop using 1 y by (subst remove_loop.simps) (simp add: seg_size_def Let_def)
      have "wf_segs ((as @ [?s]) @ bs)" using ordered 1 y low by force
      moreover have "\<forall>t \<in> set (as @ [?s]). seg_end t \<le> a" using less.prems(2) by simp
      ultimately obtain zs where z: "remove_loop a sz (search_loop ?xs a 0 (length ?xs)) ?xs = Some (Inr zs)" "wf_segs zs"
        "\<forall>x. sort_at zs x = (if a \<le> x \<and> x < a + sz then None else sort_at ?xs x)"
        using again [of "as @ [?s]" bs a sz] less.prems(4) Cons by auto
      have "sort_at ?xs x = sort_at (as @ ys) x" if "\<not> (a \<le> x \<and> x < a + sz)" for x
        using that 1 y unfolding same by (auto simp: sort_at_append covers_def split: option.split)
      then show ?thesis using z unfolding step by auto
    next
      case 2
      let ?l = "seg (seg_start y) a (seg_sort y)" and ?r = "seg (a + sz) (seg_end y) (seg_sort y)"
      let ?zs = "as @ (if seg_start y < a then [?l] else []) @ (if a + sz < seg_end y then [?r] else []) @ bs"
      have "remove_loop a sz (length as) (as @ ys) = Some (Inr ?zs)"
        unfolding loop using 2 y by (subst remove_loop.simps) (auto simp: seg_size_def Let_def remove_at_def insert_at_def)
      moreover have "wf_segs ?zs" using ordered low 2 less.prems(2,4) by force
      moreover have "sort_at ?zs x = (if a \<le> x \<and> x < a + sz then None else sort_at (as @ ys) x)" for x
        using before [of x] after [of x] 2 less.prems(4) unfolding same by (auto simp: sort_at_append covers_def split: option.split)
      ultimately show ?thesis by blast
    next
      case 3
      have "remove_loop a sz (length as) (as @ ys) = Some (Inr (as @ ys))"
        unfolding loop using 3 less.prems(4) Cons by (subst remove_loop.simps) (simp add: seg_size_def)
      moreover have "sort_at (as @ ys) x = None" if "a \<le> x" "x < a + sz" for x
        using that before after [of x] 3 ordered(3) unfolding same by (simp add: covers_def)
      ultimately show ?thesis using less.prems(1) by auto
    next
      case 4
      let ?zs = "as @ (if a + sz < seg_end y then [y\<lparr>seg_start := a + sz\<rparr>] else []) @ bs"
      have "remove_loop a sz (length as) (as @ ys) = Some (Inr ?zs)"
        unfolding loop using 4 less.prems(4) by (subst remove_loop.simps) (auto simp: seg_size_def Let_def remove_at_def)
      moreover have "wf_segs ?zs" using ordered low 4 by force
      moreover have "sort_at ?zs x = (if a \<le> x \<and> x < a + sz then None else sort_at (as @ ys) x)" for x
        using before [of x] after [of x] 4 unfolding same by (auto simp: sort_at_append covers_def split: option.split)
      ultimately show ?thesis by blast
    next
      case 5
      let ?e = "seg_end y" and ?xs = "as @ bs"
      have step: "remove_loop a sz (length as) (as @ ys) = remove_loop ?e (a + sz - ?e) (search_loop ?xs ?e 0 (length ?xs)) ?xs"
        unfolding loop using 5 y less.prems(4) ordered(3)
        by (subst remove_loop.simps) (simp add: seg_size_def Let_def remove_at_def)
      have "wf_segs (as @ bs)" "\<forall>t \<in> set as. seg_end t \<le> ?e" using ordered less.prems(2) y by force+
      then obtain zs where z: "remove_loop ?e (a + sz - ?e) (search_loop ?xs ?e 0 (length ?xs)) ?xs = Some (Inr zs)" "wf_segs zs"
        "\<forall>x. sort_at zs x = (if ?e \<le> x \<and> x < a + sz then None else sort_at ?xs x)"
        using again [of as bs ?e "a + sz - ?e"] 5 Cons by auto
      have "(if ?e \<le> x \<and> x < a + sz then None else sort_at ?xs x) = (if a \<le> x \<and> x < a + sz then None else sort_at (as @ ys) x)" for x
        using before [of x] after [of x] 5 y unfolding same by (auto simp: sort_at_append covers_def split: option.split)
      then show ?thesis using z unfolding step by auto
    qed
  qed
qed

text \<open>
  C27. \<open>release\<close> refines the removal of a range from the map from addresses to sorts: on every well-formed
  list, for every address and size, it returns, without the exception \<open>Unreachable reached\<close>, a well-formed list in
  which exactly the addresses of the range are free.  The byte count is the old one.
\<close>

theorem release_vacates:
  assumes wf: "wf_segs (sl_list sl)"
  shows "\<exists>zs. release a sz sl = Some (Inr (sl\<lparr>sl_list := zs\<rparr>)) \<and> wf_segs zs
    \<and> (\<forall>x. sort_at zs x = (if a \<le> x \<and> x < a + sz then None else sort_at (sl_list sl) x))"
proof (cases "0 < sz \<and> search sl a < length (sl_list sl)")
  case True
  note parts = first_after_parts [OF wf search_first [OF wf, of a]]
  have "\<exists>zs. remove_loop a sz (search sl a) (sl_list sl) = Some (Inr zs) \<and> wf_segs zs
    \<and> (\<forall>x. sort_at zs x = (if a \<le> x \<and> x < a + sz then None else sort_at (sl_list sl) x))"
    using remove_loop_clears [of "take (search sl a) (sl_list sl)" "drop (search sl a) (sl_list sl)" a sz] parts wf True
    by (simp only: append_take_drop_id)
  then show ?thesis using True by (auto simp: release_def Let_def)
next
  case False
  have "sort_at (sl_list sl) x = None" if "a \<le> x" "x < a + sz" for x
  proof -
    have "length (sl_list sl) \<le> search sl a" using that False by simp
    then have "\<forall>t \<in> set (sl_list sl). seg_end t \<le> x"
      using first_after_end [OF search_first [OF wf]] that(1) by force
    then show ?thesis by (force simp: sort_at_None covers_def)
  qed
  then have "release a sz sl = Some (Inr sl)" "\<forall>x. sort_at (sl_list sl) x = (if a \<le> x \<and> x < a + sz then None else sort_at (sl_list sl) x)"
    using False by (auto simp: release_def Let_def)
  then show ?thesis using wf by (intro exI [of _ "sl_list sl"]) simp
qed

theorem release_vacates_witness:
  "\<exists>zs. release 3 4 \<lparr>sl_list = [seg 0 4 ''code'', seg 5 9 ''data''], sl_bytes = 8\<rparr>
      = Some (Inr \<lparr>sl_list = zs, sl_bytes = 8\<rparr>)
    \<and> wf_segs zs \<and> sort_at zs 3 = None \<and> sort_at zs 6 = None \<and> sort_at zs 7 = Some ''data''"
  using release_vacates [of "\<lparr>sl_list = [seg 0 4 ''code'', seg 5 9 ''data''], sl_bytes = 8\<rparr>" 3 4]
  by (auto simp: covers_def)

text \<open>
  \<open>occupied_size\<close> is not updated, and a segment whose start is the released address stays in the list,
  empty, when the released range is longer.
\<close>

lemma release_keeps_the_byte_count:
  "release 0 8 \<lparr>sl_list = [seg 0 4 ''code''], sl_bytes = 4\<rparr>
    = Some (Inr \<lparr>sl_list = [seg 0 0 ''code''], sl_bytes = 4\<rparr>)"
  by (simp add: release_def search_def search_loop.simps remove_loop.simps seg_size_def Let_def)

section \<open>Looking for addresses\<close>

lemma run_end_run:
  assumes "wf_segs xs" "i < length xs"
  shows "i \<le> run_end xs i \<and> run_end xs i < length xs
    \<and> (run_end xs i + 1 < length xs \<longrightarrow> seg_end (xs ! run_end xs i) < seg_start (xs ! (run_end xs i + 1)))
    \<and> (\<forall>x. seg_start (xs ! i) \<le> x \<and> x < seg_end (xs ! run_end xs i) \<longrightarrow> (\<exists>t \<in> set xs. covers t x))"
  using assms
proof (induction xs i rule: run_end.induct)
  case (1 xs i)
  show ?case
  proof (cases "i + 1 < length xs \<and> seg_end (xs ! i) = seg_start (xs ! (i + 1))")
    case True
    then have r: "run_end xs i = run_end xs (i + 1)" by (simp add: run_end.simps [of xs i])
    have "\<exists>t \<in> set xs. covers t x" if "seg_start (xs ! i) \<le> x" "x < seg_end (xs ! run_end xs (i + 1))" for x
    proof (cases "x < seg_end (xs ! i)")
      case True
      then have "covers (xs ! i) x" using that(1) by (simp add: covers_def)
      then show ?thesis using 1(3) nth_mem by blast
    next
      case False
      then show ?thesis using 1(1) [OF True 1(2)] that(2) True by auto
    qed
    then show ?thesis using 1(1) [OF True 1(2)] True unfolding r by auto
  next
    case False
    then have r: "run_end xs i = i" by (subst run_end.simps) auto
    have "covers (xs ! i) x" if "seg_start (xs ! i) \<le> x" "x < seg_end (xs ! i)" for x using that by (simp add: covers_def)
    then show ?thesis unfolding r using 1(3) False wf_nth_less [OF 1(2), of i "i + 1"] nth_mem [of i xs] by fastforce
  qed
qed

text \<open>
  \<open>next_free_pos\<close> returns the least address, not below the one given, that no segment contains.
\<close>

lemma next_free_pos_is_next:
  assumes "wf_segs (sl_list sl)"
  shows "a \<le> next_free_pos a sl \<and> sort_at (sl_list sl) (next_free_pos a sl) = None
    \<and> (\<forall>x. a \<le> x \<and> x < next_free_pos a sl \<longrightarrow> sort_at (sl_list sl) x \<noteq> None)"
proof (cases "search sl a < length (sl_list sl) \<and> holds_at sl a (search sl a)")
  case True
  let ?xs = "sl_list sl" and ?i = "search sl a"
  let ?r = "run_end ?xs ?i"
  have p: "next_free_pos a sl = seg_end (?xs ! ?r)" using True by (simp add: next_free_pos_def)
  note r = run_end_run [OF assms, of ?i]
  have i: "?i < length ?xs" "seg_start (?xs ! ?i) \<le> a" "a < seg_end (?xs ! ?i)" using True by (simp_all add: holds_at_def)
  have le: "seg_end (?xs ! j) \<le> seg_end (?xs ! ?r)" if "j \<le> ?r" for j
    using that r i(1) wf_nth_less [OF assms, of j ?r] wf_nth [OF assms, of ?r] by (cases "j = ?r") auto
  have ge: "seg_end (?xs ! ?r) < seg_start (?xs ! j)" if "?r < j" "j < length ?xs" for j
  proof -
    have "?r + 1 < length ?xs" using that by simp
    then have n: "seg_end (?xs ! ?r) < seg_start (?xs ! (?r + 1))" using r i(1) by simp
    show ?thesis
      using n wf_nth_less [OF assms, of "?r + 1" j] wf_nth [OF assms, of "?r + 1"] that by (cases "j = ?r + 1") auto
  qed
  have "\<not> covers (?xs ! j) (seg_end (?xs ! ?r))" if "j < length ?xs" for j
    using le [of j] ge [of j] that by (cases "j \<le> ?r") (auto simp: covers_def)
  then have "sort_at ?xs (next_free_pos a sl) = None" unfolding p sort_at_None by (metis in_set_conv_nth)
  moreover have "a \<le> next_free_pos a sl" unfolding p using le [of ?i] r i by simp
  moreover have "sort_at ?xs x \<noteq> None" if "a \<le> x" "x < next_free_pos a sl" for x
    using that r i unfolding p sort_at_None by auto
  ultimately show ?thesis by blast
next
  case False
  then have p: "next_free_pos a sl = a" by (auto simp: next_free_pos_def)
  have "sort_at (sl_list sl) a = None"
  proof (cases "search sl a < length (sl_list sl)")
    case True
    then obtain as s bs where d: "sl_list sl = as @ s # bs" "length as = search sl a"
      "\<forall>t \<in> set as. seg_end t \<le> a" "a < seg_end s"
      using first_after_split [OF search_first [OF assms]] by metis
    have "a < seg_start s" using False True d(1,4) unfolding holds_at_def d(2) [symmetric] by simp
    moreover have "a < seg_start t" if "t \<in> set bs" for t using assms d(1,4) that by auto
    ultimately show ?thesis using d(1,3) by (simp add: sort_at_before sort_at_after covers_def)
  next
    case False
    then have "\<forall>t \<in> set (sl_list sl). seg_end t \<le> a" using first_after_end [OF search_first [OF assms]] by simp
    then show ?thesis by (force simp: sort_at_None covers_def)
  qed
  then show ?thesis unfolding p by auto
qed

theorem next_free_pos_is_next_witness:
  "sort_at (sl_list \<lparr>sl_list = [seg 0 4 ''code'', seg 4 9 ''data''], sl_bytes = 9\<rparr>)
      (next_free_pos 2 \<lparr>sl_list = [seg 0 4 ''code'', seg 4 9 ''data''], sl_bytes = 9\<rparr>) = None"
  using next_free_pos_is_next [of "\<lparr>sl_list = [seg 0 4 ''code'', seg 4 9 ''data''], sl_bytes = 9\<rparr>" 2] by simp

definition wanted_at :: "segment list \<Rightarrow> string set \<Rightarrow> int \<Rightarrow> bool" where
  "wanted_at xs sorts x \<longleftrightarrow> (\<exists>k. sort_at xs x = Some k \<and> k \<notin> sorts)"

definition in_distance :: "int \<Rightarrow> int option \<Rightarrow> int \<Rightarrow> bool" where
  "in_distance a d x \<longleftrightarrow> (case d of None \<Rightarrow> True | Some e \<Rightarrow> x \<le> a + e)"

definition first_wanted :: "segment list \<Rightarrow> string set \<Rightarrow> int \<Rightarrow> int option \<Rightarrow> int option \<Rightarrow> bool" where
  "first_wanted xs sorts a d r \<longleftrightarrow> (case r of
     Some p \<Rightarrow> a \<le> p \<and> in_distance a d p \<and> wanted_at xs sorts p \<and> (\<forall>x. a \<le> x \<and> x < p \<longrightarrow> \<not> wanted_at xs sorts x)
   | None \<Rightarrow> \<forall>x. a \<le> x \<and> in_distance a d x \<longrightarrow> \<not> wanted_at xs sorts x)"

lemma first_wanted_cong:
  "(\<And>x. a \<le> x \<Longrightarrow> wanted_at xs sorts x = wanted_at ys sorts x) \<Longrightarrow> first_wanted xs sorts a d r = first_wanted ys sorts a d r"
  by (cases r) (auto simp: first_wanted_def)

lemma first_sort_first:
  assumes "wf_segs ys" "\<forall>t \<in> set ys. seg_start t < seg_end t \<and> a \<le> seg_start t"
  shows "first_wanted ys sorts a d (first_sort_not_in a sorts d ys)"
  using assms
proof (induction ys)
  case Nil
  then show ?case by (simp add: first_wanted_def wanted_at_def)
next
  case (Cons y ys)
  have late: "sort_at ys x = None" if "x < seg_end y" for x
    using Cons.prems that by (force simp: sort_at_None covers_def)
  have none: "\<not> wanted_at (y # ys) sorts x" if "x < seg_start y" for x
    using late [of x] that Cons.prems by (auto simp: wanted_at_def covers_def)
  show ?case
  proof (cases "in_distance a d (seg_start y)")
    case False
    then have "first_sort_not_in a sorts d (y # ys) = None" by (auto simp: in_distance_def split: option.splits)
    moreover have "\<not> wanted_at (y # ys) sorts x" if "in_distance a d x" for x
      using that False by (intro none) (auto simp: in_distance_def split: option.splits)
    ultimately show ?thesis by (simp add: first_wanted_def)
  next
    case True
    show ?thesis
    proof (cases "seg_sort y \<in> sorts")
      case False
      then have r: "first_sort_not_in a sorts d (y # ys) = Some (seg_start y)"
        using True by (auto simp: in_distance_def split: option.splits)
      show ?thesis using none True False Cons.prems by (simp add: r first_wanted_def del: first_sort_not_in.simps) (simp add: wanted_at_def covers_def)
    next
      case skip: True
      then have r: "first_sort_not_in a sorts d (y # ys) = first_sort_not_in a sorts d ys"
        using True by (auto simp: in_distance_def split: option.splits)
      have "wanted_at (y # ys) sorts x = wanted_at ys sorts x" for x
        using late [of x] skip by (auto simp: wanted_at_def covers_def)
      then show ?thesis unfolding r using Cons first_wanted_cong [of a "y # ys" sorts ys] by simp
    qed
  qed
qed

text \<open>
  \<open>next_pos_with_sort_not_in\<close> returns the least address, not below the one given and within the
  distance, that a segment of none of the sorts contains, and nothing when there is none.
\<close>

lemma next_pos_is_first:
  assumes "wf_segs (sl_list sl)" "\<forall>t \<in> set (sl_list sl). seg_start t < seg_end t" "\<forall>e. d = Some e \<longrightarrow> 0 \<le> e"
  shows "first_wanted (sl_list sl) sorts a d (next_pos_with_sort_not_in a sorts d sl)"
proof (cases "search sl a < length (sl_list sl)")
  case True
  then obtain as s bs where l: "sl_list sl = as @ s # bs" "length as = search sl a"
    "\<forall>t \<in> set as. seg_end t \<le> a" "a < seg_end s"
    using first_after_split [OF search_first [OF assms(1)]] by metis
  have nth: "sl_list sl ! search sl a = s" "drop (search sl a) (sl_list sl) = s # bs"
    "drop (Suc (search sl a)) (sl_list sl) = bs" using l(1) unfolding l(2) [symmetric] by simp_all
  have hold: "holds_at sl a (search sl a) \<longleftrightarrow> covers s a" using nth by (simp add: holds_at_def covers_def)
  have wanted: "wanted_at (sl_list sl) sorts x = wanted_at (s # bs) sorts x" if "a \<le> x" for x
  proof -
    have "\<forall>t \<in> set as. seg_end t \<le> x" using l(3) that by auto
    then show ?thesis unfolding wanted_at_def l(1) by (simp only: sort_at_before)
  qed
  have first: "first_wanted (sl_list sl) sorts a d r = first_wanted (s # bs) sorts a d r" for r
    by (rule first_wanted_cong) (rule wanted)
  have rest: "wf_segs (s # bs)" "\<forall>t \<in> set (s # bs). seg_start t < seg_end t" using assms(1,2) l(1) by auto
  have far: "(case d of None \<Rightarrow> False | Some e \<Rightarrow> a + e < seg_start s) = (\<not> in_distance a d (seg_start s))"
    by (auto simp: in_distance_def split: option.split)
  have late: "sort_at bs x = None" if "x < seg_end s" for x
    using rest(1) that by (force simp: sort_at_None covers_def)
  show ?thesis
  proof (cases "covers s a")
    case False
    then have "\<forall>t \<in> set (s # bs). seg_start t < seg_end t \<and> a \<le> seg_start t"
      using rest l(4) by (fastforce simp: covers_def)
    from first_sort_first [OF rest(1) this, of sorts d] show ?thesis
      using True False by (auto simp: next_pos_with_sort_not_in_def Let_def nth hold far first in_distance_def split: option.splits)
  next
    case cov: True
    have near: "in_distance a d (seg_start s)" "in_distance a d a"
      using cov assms(3) by (auto simp: in_distance_def covers_def split: option.split)
    show ?thesis
    proof (cases "seg_sort s \<in> sorts")
      case False
      then have "wanted_at (s # bs) sorts a" using cov by (simp add: wanted_at_def)
      then show ?thesis
        using True False cov near by (simp add: next_pos_with_sort_not_in_def Let_def nth hold far first) (auto simp: first_wanted_def)
    next
      case skip: True
      have "\<forall>t \<in> set bs. seg_start t < seg_end t \<and> a \<le> seg_start t" using rest l(4) by force
      moreover have "wf_segs bs" using rest(1) by simp
      moreover have "wanted_at (s # bs) sorts x = wanted_at bs sorts x" for x
        using skip late [of x] by (auto simp: wanted_at_def covers_def)
      then have "first_wanted (s # bs) sorts a d r = first_wanted bs sorts a d r" for r by (rule first_wanted_cong)
      ultimately show ?thesis
        using True skip cov near first_sort_first [of bs a sorts d]
        by (simp add: next_pos_with_sort_not_in_def Let_def nth hold far first)
    qed
  qed
next
  case False
  then have "\<forall>t \<in> set (sl_list sl). seg_end t \<le> a" using first_after_end [OF search_first [OF assms(1)]] by simp
  then have "sort_at (sl_list sl) x = None" if "a \<le> x" for x using that by (force simp: sort_at_None covers_def)
  then show ?thesis using False by (simp add: next_pos_with_sort_not_in_def Let_def first_wanted_def wanted_at_def)
qed

theorem next_pos_is_first_witness:
  "first_wanted [seg 0 4 ''code'', seg 5 9 ''data''] {''code''} 2 (Some 8)
    (next_pos_with_sort_not_in 2 {''code''} (Some 8) \<lparr>sl_list = [seg 0 4 ''code'', seg 5 9 ''data''], sl_bytes = 8\<rparr>)"
  using next_pos_is_first [of "\<lparr>sl_list = [seg 0 4 ''code'', seg 5 9 ''data''], sl_bytes = 8\<rparr>" "Some 8" "{''code''}" 2] by simp

end
