(* ===== verification/Sea_Nodes.thy ===== *)
theory Sea_Nodes
  imports Reko_Prelude
begin

text \<open>
  \<open>seaofnodes/SeaOfNodes/Nodes\<close>: the node graph.  A reference to a node is a natural number, the
  graph a store from references to nodes with the next free reference and the counter of \<open>NodeFactory\<close>.
  Data types, constants and storages are Reko's classes and stay type variables.  The input at index 0
  is the control-flow node or null (None).
\<close>

section \<open>Nodes\<close>

datatype op_type =
  Op_IAdd | Op_ISub | Op_USub | Op_IMul | Op_SMul | Op_UMul | Op_SDiv | Op_UDiv | Op_IMod | Op_SMod | Op_UMod
  | Op_FAdd | Op_FSub | Op_FMul | Op_FDiv | Op_FMod | Op_FNeg | Op_And | Op_Or | Op_Xor | Op_Shr | Op_Sar | Op_Shl
  | Op_Cand | Op_Cor | Op_Lt | Op_Gt | Op_Le | Op_Ge | Op_Feq | Op_Fne | Op_Flt | Op_Fgt | Op_Fle | Op_Fge
  | Op_Ult | Op_Ugt | Op_Ule | Op_Uge | Op_Eq | Op_Ne | Op_Comma

datatype unary_type = Un_Not | Un_Neg | Un_Comp | Un_AddrOf

text \<open>Reko's \<open>ConditionCode\<close>: the members the code names, and the others by their number.\<close>

datatype condition_code =
  CC_EQ | CC_NE | CC_LT | CC_LE | CC_GT | CC_GE | CC_ULT | CC_ULE | CC_UGT | CC_UGE | CC_Other nat

datatype 'c node_kind =
  AddressNode | ApplicationNode | BinaryNode op_type | BlockNode | CallNode | CondNode | ConstantNode 'c
  | ConversionNode | DefNode | EndNode | IfNode | LoadNode | MemoryNode | OutArgumentNode | PhiNode
  | ProcedureConstantNode | ReturnNode | SegmentedPointerNode | SeqNode | SideEffectNode | SliceNode int
  | StartNode | StoreNode | StringNode | SwitchNode | TestNode condition_code | UnaryNode unary_type | UseNode

record ('t, 'c, 's) node =
  n_kind :: "'c node_kind"
  n_number :: int
  n_type :: 't
  n_storage :: "'s option"
  n_inputs :: "nat option list"
  n_outputs :: "nat list"

record ('t, 'c, 's) graph =
  g_node :: "nat \<Rightarrow> ('t, 'c, 's) node"
  g_next :: nat
  g_number :: int

definition upd :: "nat \<Rightarrow> (('t, 'c, 's) node \<Rightarrow> ('t, 'c, 's) node) \<Rightarrow> ('t, 'c, 's) graph \<Rightarrow> ('t, 'c, 's) graph" where
  "upd i f g = g\<lparr>g_node := (g_node g)(i := f (g_node g i))\<rparr>"

section \<open>Edges\<close>

fun add_edge :: "nat option \<Rightarrow> nat \<Rightarrow> ('t, 'c, 's) graph \<Rightarrow> ('t, 'c, 's) graph" where
  "add_edge None use g = g"
| "add_edge (Some def) use g =
     upd use (n_inputs_update (\<lambda>ins. ins @ [Some def])) (upd def (n_outputs_update (\<lambda>outs. outs @ [use])) g)"

text \<open>The loop of the constructors: an edge for a node, a null input for null.\<close>

definition connect :: "nat \<Rightarrow> nat option \<Rightarrow> ('t, 'c, 's) graph \<Rightarrow> ('t, 'c, 's) graph" where
  "connect use input g =
     (case input of None \<Rightarrow> upd use (n_inputs_update (\<lambda>ins. ins @ [None])) g | Some def \<Rightarrow> add_edge (Some def) use g)"

definition new_node :: "'c node_kind \<Rightarrow> 't \<Rightarrow> 's option \<Rightarrow> nat option list \<Rightarrow> ('t, 'c, 's) graph \<Rightarrow> nat \<times> ('t, 'c, 's) graph" where
  "new_node kind dt stg ins g =
     (g_next g,
      fold (connect (g_next g)) ins
        (upd (g_next g) (\<lambda>_. \<lparr>n_kind = kind, n_number = g_number g + 1, n_type = dt, n_storage = stg,
            n_inputs = [], n_outputs = []\<rparr>)
          (g\<lparr>g_next := g_next g + 1, g_number := g_number g + 1\<rparr>)))"

text \<open>\<open>RemoveOutput\<close>: the first occurrence is overwritten by the last entry, and the list shortened.\<close>

definition drop_output :: "nat \<Rightarrow> nat list \<Rightarrow> nat list" where
  "drop_output n outs =
     (let i = length (takeWhile (\<lambda>o'. o' \<noteq> n) outs); count = length outs
      in if i < count then butlast (if i < count - 1 then outs[i := outs ! (count - 1)] else outs) else outs)"

definition remove_output :: "nat \<Rightarrow> nat \<Rightarrow> ('t, 'c, 's) graph \<Rightarrow> ('t, 'c, 's) graph" where
  "remove_output n from_node g = upd from_node (n_outputs_update (drop_output n)) g"

definition leave_input :: "nat \<Rightarrow> nat option \<Rightarrow> ('t, 'c, 's) graph \<Rightarrow> ('t, 'c, 's) graph" where
  "leave_input n input g = (case input of None \<Rightarrow> g | Some def \<Rightarrow> remove_output n def g)"

definition remove_from_inputs :: "nat \<Rightarrow> ('t, 'c, 's) graph \<Rightarrow> ('t, 'c, 's) graph" where
  "remove_from_inputs n g =
     upd n (n_inputs_update (\<lambda>_. [])) (fold (leave_input n) (n_inputs (g_node g n)) g)"

definition redirect :: "nat \<Rightarrow> nat \<Rightarrow> nat \<Rightarrow> ('t, 'c, 's) graph \<Rightarrow> ('t, 'c, 's) graph" where
  "redirect original substitute consumer g =
     upd substitute (n_outputs_update (\<lambda>outs. outs @ [consumer]))
       (upd consumer (n_inputs_update (map (\<lambda>i. if i = Some original then Some substitute else i))) g)"

definition replace :: "nat \<Rightarrow> nat \<Rightarrow> ('t, 'c, 's) graph \<Rightarrow> ('t, 'c, 's) graph" where
  "replace original substitute g =
     (let g1 = fold (redirect original substitute) (n_outputs (g_node g original)) g;
          g2 = fold (leave_input original) (n_inputs (g_node g1 original)) g1;
          g3 = upd original (\<lambda>n. n\<lparr>n_inputs := [], n_outputs := []\<rparr>) g2
      in upd substitute (\<lambda>n. n\<lparr>n_number := min (n_number (g_node g3 original)) (n_number n),
            n_storage := (case n_storage n of None \<Rightarrow> n_storage (g_node g3 original) | Some s \<Rightarrow> Some s)\<rparr>) g3)"

definition replace_input :: "nat \<Rightarrow> nat \<Rightarrow> nat \<Rightarrow> ('t, 'c, 's) graph \<Rightarrow> ('t, 'c, 's) graph option" where
  "replace_input n i replacement g =
     (if i < length (n_inputs (g_node g n)) then
        case n_inputs (g_node g n) ! i of
          None \<Rightarrow> None
        | Some old \<Rightarrow>
            Some (upd replacement (n_outputs_update (\<lambda>outs. outs @ [n]))
              (upd n (n_inputs_update (\<lambda>ins. ins[i := Some replacement])) (remove_output n old g)))
      else None)"

section \<open>The invariant: definitions and uses agree\<close>

definition outs :: "('t, 'c, 's) graph \<Rightarrow> nat \<Rightarrow> nat list" where
  "outs g i = n_outputs (g_node g i)"

definition ins :: "('t, 'c, 's) graph \<Rightarrow> nat \<Rightarrow> nat option list" where
  "ins g i = n_inputs (g_node g i)"

definition edges_ok :: "('t, 'c, 's) graph \<Rightarrow> bool" where
  "edges_ok g \<longleftrightarrow>
     (\<forall>d < g_next g. \<forall>u < g_next g. count_list (outs g d) u = count_list (ins g u) (Some d))
     \<and> (\<forall>i < g_next g. (\<forall>u \<in> set (outs g i). u < g_next g) \<and> (\<forall>d. Some d \<in> set (ins g i) \<longrightarrow> d < g_next g))"

lemma upd_simps [simp]:
  "g_next (upd i f g) = g_next g" "g_number (upd i f g) = g_number g"
  "g_node (upd i f g) j = (if j = i then f (g_node g i) else g_node g j)"
  by (simp_all add: upd_def)

lemma takeWhile_first:
  "n \<notin> set ys \<Longrightarrow> takeWhile (\<lambda>o'. o' \<noteq> n) ys = ys"
  "n \<notin> set ys \<Longrightarrow> takeWhile (\<lambda>o'. o' \<noteq> n) (ys @ n # zs) = ys"
  by (induction ys) auto

lemma drop_output_out: "n \<notin> set xs \<Longrightarrow> drop_output n xs = xs"
  by (simp add: drop_output_def Let_def takeWhile_first)

lemma drop_output_last: "n \<notin> set ys \<Longrightarrow> drop_output n (ys @ [n]) = ys"
  by (simp add: drop_output_def Let_def takeWhile_first)

lemma drop_output_inner: "n \<notin> set ys \<Longrightarrow> drop_output n (ys @ n # zs @ [l]) = ys @ l # zs"
  by (simp add: drop_output_def Let_def takeWhile_first nth_append butlast_append list_update_append)

lemma drop_output_cases:
  obtains "n \<notin> set xs" "drop_output n xs = xs"
    | ys where "n \<notin> set ys" "xs = ys @ [n]" "drop_output n xs = ys"
    | ys zs l where "n \<notin> set ys" "xs = ys @ n # zs @ [l]" "drop_output n xs = ys @ l # zs"
proof (cases "n \<in> set xs")
  case False
  then show ?thesis using that(1) drop_output_out by metis
next
  case True
  then obtain ys ts where s: "xs = ys @ n # ts" "n \<notin> set ys" by (meson split_list_first)
  show ?thesis
  proof (cases ts rule: rev_cases)
    case Nil
    then show ?thesis using s that(2) drop_output_last by metis
  next
    case (snoc zs l)
    then show ?thesis using s that(3) drop_output_inner by metis
  qed
qed

lemma drop_output_count [simp]: "count_list (drop_output n xs) m = count_list xs m - (if m = n then 1 else 0)"
  by (cases rule: drop_output_cases [of n xs]) (auto simp: count_notin)

lemma drop_output_subset: "set (drop_output n xs) \<subseteq> set xs"
  by (cases rule: drop_output_cases [of n xs]) auto

lemma add_edge_simps [simp]:
  "g_next (add_edge (Some d) u g) = g_next g" "g_number (add_edge (Some d) u g) = g_number g"
  "outs (add_edge (Some d) u g) i = (if i = d then outs g i @ [u] else outs g i)"
  "ins (add_edge (Some d) u g) i = (if i = u then ins g i @ [Some d] else ins g i)"
  by (simp_all add: outs_def ins_def)

lemma connect_simps [simp]:
  "g_next (connect u d g) = g_next g" "g_number (connect u d g) = g_number g"
  "outs (connect u d g) i = (if d = Some i then outs g i @ [u] else outs g i)"
  "ins (connect u d g) i = (if i = u then ins g i @ [d] else ins g i)"
  by (cases d; simp add: connect_def outs_def ins_def)+

lemma edges_okD:
  assumes "edges_ok g"
  shows "\<lbrakk>d < g_next g; u < g_next g\<rbrakk> \<Longrightarrow> count_list (outs g d) u = count_list (ins g u) (Some d)"
    and "\<lbrakk>i < g_next g; u \<in> set (outs g i)\<rbrakk> \<Longrightarrow> u < g_next g"
    and "\<lbrakk>i < g_next g; Some d \<in> set (ins g i)\<rbrakk> \<Longrightarrow> d < g_next g"
  using assms unfolding edges_ok_def by blast+

lemma edges_okI:
  assumes "\<And>d u. \<lbrakk>d < g_next g; u < g_next g\<rbrakk> \<Longrightarrow> count_list (outs g d) u = count_list (ins g u) (Some d)"
    and "\<And>i u. \<lbrakk>i < g_next g; u \<in> set (outs g i)\<rbrakk> \<Longrightarrow> u < g_next g"
    and "\<And>i d. \<lbrakk>i < g_next g; Some d \<in> set (ins g i)\<rbrakk> \<Longrightarrow> d < g_next g"
  shows "edges_ok g"
  unfolding edges_ok_def using assms by blast

lemma edges_connect:
  assumes "edges_ok g" "u < g_next g" "\<forall>e. d = Some e \<longrightarrow> e < g_next g"
  shows "edges_ok (connect u d g)"
proof (rule edges_okI)
  fix d' u' assume "d' < g_next (connect u d g)" "u' < g_next (connect u d g)"
  then show "count_list (outs (connect u d g) d') u' = count_list (ins (connect u d g) u') (Some d')"
    using edges_okD(1) [OF assms(1), of d' u'] by auto
next
  fix i u' assume "i < g_next (connect u d g)" "u' \<in> set (outs (connect u d g) i)"
  then show "u' < g_next (connect u d g)"
    using edges_okD(2) [OF assms(1), of i u'] assms(2) by (simp split: if_splits) blast
next
  fix i d' assume "i < g_next (connect u d g)" "Some d' \<in> set (ins (connect u d g) i)"
  then show "d' < g_next (connect u d g)"
    using edges_okD(3) [OF assms(1), of i d'] assms(3) by (simp split: if_splits) blast
qed

lemma edges_fold_connect:
  assumes "edges_ok g" "u < g_next g" "\<forall>d. Some d \<in> set ds \<longrightarrow> d < g_next g"
  shows "edges_ok (fold (connect u) ds g)"
  using assms by (induction ds arbitrary: g) (auto simp: edges_connect)

lemma edges_new_node:
  assumes ok: "edges_ok g" and ds: "\<forall>d. Some d \<in> set ds \<longrightarrow> d < g_next g"
  shows "edges_ok (snd (new_node kind dt stg ds g))"
proof -
  let ?g = "upd (g_next g) (\<lambda>_. \<lparr>n_kind = kind, n_number = g_number g + 1, n_type = dt, n_storage = stg,
      n_inputs = [], n_outputs = []\<rparr>) (g\<lparr>g_next := g_next g + 1, g_number := g_number g + 1\<rparr>)"
  have outs: "outs ?g i = (if i = g_next g then [] else outs g i)" "ins ?g i = (if i = g_next g then [] else ins g i)" for i
    by (simp_all add: outs_def ins_def)
  have fresh: "count_list (outs g d) (g_next g) = 0" "count_list (ins g d) (Some (g_next g)) = 0" if "d < g_next g" for d
    using edges_okD(2) [OF ok that, of "g_next g"] edges_okD(3) [OF ok that, of "g_next g"] by (auto intro: count_notin)
  have "edges_ok ?g"
  proof (rule edges_okI)
    fix d u assume "d < g_next ?g" "u < g_next ?g"
    then show "count_list (outs ?g d) u = count_list (ins ?g u) (Some d)"
      using edges_okD(1) [OF ok, of d u] fresh [of d] fresh [of u] unfolding outs by (auto simp: less_Suc_eq)
  next
    fix i u assume "i < g_next ?g" "u \<in> set (outs ?g i)"
    then show "u < g_next ?g" using edges_okD(2) [OF ok, of i u] unfolding outs by (auto split: if_splits)
  next
    fix i d assume "i < g_next ?g" "Some d \<in> set (ins ?g i)"
    then show "d < g_next ?g" using edges_okD(3) [OF ok, of i d] unfolding outs by (auto split: if_splits)
  qed
  then show ?thesis
    unfolding new_node_def snd_conv by (rule edges_fold_connect) (use ds in auto)
qed

lemma leave_input_simps [simp]:
  "g_next (leave_input n d g) = g_next g" "ins (leave_input n d g) i = ins g i"
  "outs (leave_input n d g) i = (if d = Some i then drop_output n (outs g i) else outs g i)"
  by (cases d; simp add: leave_input_def remove_output_def outs_def ins_def)+

lemma fold_leave_simps [simp]:
  "g_next (fold (leave_input n) ds g) = g_next g" "ins (fold (leave_input n) ds g) i = ins g i"
  by (induction ds arbitrary: g) simp_all

lemma fold_leave_count:
  "count_list (outs (fold (leave_input n) ds g) d) u = count_list (outs g d) u - (if u = n then count_list ds (Some d) else 0)"
  by (induction ds arbitrary: g) auto

lemma fold_leave_subset: "set (outs (fold (leave_input n) ds g) i) \<subseteq> set (outs g i)"
proof (induction ds arbitrary: g)
  case (Cons d ds)
  have "set (outs (leave_input n d g) i) \<subseteq> set (outs g i)" using drop_output_subset [of n "outs g i"] by simp
  then show ?case using Cons [of "leave_input n d g"] by (simp add: order_trans)
qed simp

abbreviation subst_ref :: "nat \<Rightarrow> nat \<Rightarrow> nat option \<Rightarrow> nat option" where
  "subst_ref original substitute i \<equiv> if i = Some original then Some substitute else i"

lemma redirect_simps [simp]:
  "g_next (redirect p q c g) = g_next g"
  "ins (redirect p q c g) i = (if i = c then map (subst_ref p q) (ins g i) else ins g i)"
  "outs (redirect p q c g) i = (if i = q then outs g i @ [c] else outs g i)"
  by (simp_all add: redirect_def outs_def ins_def)

lemma fold_redirect_simps:
  "g_next (fold (redirect p q) cs g) = g_next g"
  "p \<noteq> q \<Longrightarrow> ins (fold (redirect p q) cs g) i = (if i \<in> set cs then map (subst_ref p q) (ins g i) else ins g i)"
  "outs (fold (redirect p q) cs g) i = (if i = q then outs g i @ cs else outs g i)"
  by (induction cs arbitrary: g) auto

lemma count_subst:
  "p \<noteq> q \<Longrightarrow> count_list (map (subst_ref p q) xs) (Some d)
    = (if d = p then 0 else if d = q then count_list xs (Some q) + count_list xs (Some p) else count_list xs (Some d))"
  by (induction xs) auto

lemma replace_outs_ins:
  assumes "p \<noteq> q"
  shows "g_next (replace p q g) = g_next g"
    and "ins (replace p q g) i = (if i = p then [] else if i \<in> set (outs g p) then map (subst_ref p q) (ins g i) else ins g i)"
    and "outs (replace p q g) i = (if i = p then [] else
      outs (fold (leave_input p) (ins (fold (redirect p q) (outs g p) g) p) (fold (redirect p q) (outs g p) g)) i)"
proof -
  let ?g1 = "fold (redirect p q) (outs g p) g"
  let ?g2 = "fold (leave_input p) (ins ?g1 p) ?g1"
  have n: "g_next ?g2 = g_next g" by (simp add: fold_redirect_simps)
  have i: "ins ?g2 i = (if i \<in> set (outs g p) then map (subst_ref p q) (ins g i) else ins g i)" for i
    using fold_redirect_simps(2) [OF assms, of "outs g p" g i] by simp
  show "g_next (replace p q g) = g_next g"
    using n by (simp add: replace_def Let_def outs_def ins_def)
  show "ins (replace p q g) i = (if i = p then [] else if i \<in> set (outs g p) then map (subst_ref p q) (ins g i) else ins g i)"
    using i [of i] assms by (auto simp: replace_def Let_def outs_def ins_def)
  show "outs (replace p q g) i = (if i = p then [] else outs ?g2 i)"
    using assms by (auto simp: replace_def Let_def outs_def ins_def)
qed

lemma edges_replace:
  assumes ok: "edges_ok g" and ne: "p \<noteq> q" and le: "p < g_next g" "q < g_next g"
  shows "edges_ok (replace p q g)"
proof (rule edges_okI; simp only: replace_outs_ins(1) [OF ne])
  let ?g1 = "fold (redirect p q) (outs g p) g"
  have ins1: "ins ?g1 u = (if u \<in> set (outs g p) then map (subst_ref p q) (ins g u) else ins g u)" for u
    by (rule fold_redirect_simps(2) [OF ne])
  have none: "count_list (ins g u) (Some p) = 0" if "u < g_next g" "u \<notin> set (outs g p)" for u
    using edges_okD(1) [OF ok le(1) that(1)] that(2) by (simp add: count_notin)
  have cins: "count_list (ins ?g1 u) (Some d)
      = (if d = p then 0 else if d = q then count_list (ins g u) (Some q) + count_list (ins g u) (Some p) else count_list (ins g u) (Some d))"
    if "u < g_next g" for u d
    using none [OF that] unfolding ins1 by (simp add: count_subst [OF ne])
  fix d u assume d: "d < g_next g" and u: "u < g_next g"
  show "count_list (outs (replace p q g) d) u = count_list (ins (replace p q g) u) (Some d)"
  proof (cases "d = p")
    case True
    then show ?thesis using cins [OF u, of p] by (simp add: replace_outs_ins [OF ne] ins1 [symmetric] split: if_splits)
  next
    case False
    have "count_list (outs ?g1 d) u = count_list (ins ?g1 u) (Some d)"
      using edges_okD(1) [OF ok d u] edges_okD(1) [OF ok le(1) u] False unfolding cins [OF u]
      by (auto simp: fold_redirect_simps)
    then show ?thesis using False by (auto simp: replace_outs_ins [OF ne] fold_leave_count ins1 [symmetric])
  qed
next
  fix i u assume "i < g_next g" "u \<in> set (outs (replace p q g) i)"
  then have "u \<in> set (outs g i) \<union> set (outs g p)"
    using fold_leave_subset by (fastforce simp: replace_outs_ins [OF ne] fold_redirect_simps split: if_splits)
  then show "u < g_next g" using edges_okD(2) [OF ok] \<open>i < g_next g\<close> le by blast
next
  fix i d assume "i < g_next g" "Some d \<in> set (ins (replace p q g) i)"
  then have "Some d \<in> set (ins g i) \<or> d = q" by (auto simp: replace_outs_ins [OF ne] split: if_splits)
  then show "d < g_next g" using edges_okD(3) [OF ok \<open>i < g_next g\<close>] le by blast
qed

lemma map_subst_id: "count_list xs (Some p) = 0 \<Longrightarrow> map (subst_ref p q) xs = xs"
  by (induction xs) (auto split: if_splits)

lemma step_fields:
  "n_number (g_node (leave_input n d g) i) = n_number (g_node g i)"
  "n_kind (g_node (leave_input n d g) i) = n_kind (g_node g i)"
  "n_type (g_node (leave_input n d g) i) = n_type (g_node g i)"
  "n_number (g_node (redirect p q c g) i) = n_number (g_node g i)"
  "n_kind (g_node (redirect p q c g) i) = n_kind (g_node g i)"
  "n_type (g_node (redirect p q c g) i) = n_type (g_node g i)"
  by (simp_all add: leave_input_def remove_output_def redirect_def split: option.split)

lemma fold_fields:
  "n_number (g_node (fold (leave_input n) ds g) i) = n_number (g_node g i)"
  "n_kind (g_node (fold (leave_input n) ds g) i) = n_kind (g_node g i)"
  "n_type (g_node (fold (leave_input n) ds g) i) = n_type (g_node g i)"
  "n_number (g_node (fold (redirect p q) cs g) i) = n_number (g_node g i)"
  "n_kind (g_node (fold (redirect p q) cs g) i) = n_kind (g_node g i)"
  "n_type (g_node (fold (redirect p q) cs g) i) = n_type (g_node g i)"
  by ((induction ds arbitrary: g; simp add: step_fields)+)[3] ((induction cs arbitrary: g; simp add: step_fields)+)

lemma replace_other_fields:
  "n_number (g_node (replace p q g) q) = min (n_number (g_node g p)) (n_number (g_node g q))"
  "n_kind (g_node (replace p q g) i) = n_kind (g_node g i)" "n_type (g_node (replace p q g) i) = n_type (g_node g i)"
  by (auto simp: replace_def Let_def fold_fields)

text \<open>
  C24. \<open>Node.Replace\<close> with another node rewires the graph exactly: every input list has the substitute
  in place of the original, in the same positions; the original keeps neither inputs nor outputs; every node's
  outputs still list each consumer as often as the consumer has it as an input; and the substitute's number is
  the smaller one.
\<close>

theorem replace_rewires:
  assumes "edges_ok g" "original \<noteq> substitute" "original < g_next g" "substitute < g_next g"
  shows "edges_ok (replace original substitute g)
    \<and> ins (replace original substitute g) original = [] \<and> outs (replace original substitute g) original = []
    \<and> (u < g_next g \<and> u \<noteq> original \<longrightarrow>
        ins (replace original substitute g) u = map (\<lambda>i. if i = Some original then Some substitute else i) (ins g u))
    \<and> n_number (g_node (replace original substitute g) substitute)
        = min (n_number (g_node g original)) (n_number (g_node g substitute))"
proof -
  have "ins (replace original substitute g) u = map (subst_ref original substitute) (ins g u)"
    if "u < g_next g" "u \<noteq> original"
  proof (cases "u \<in> set (outs g original)")
    case False
    then have "count_list (ins g u) (Some original) = 0"
      using edges_okD(1) [OF assms(1,3) that(1)] by (simp add: count_notin)
    then show ?thesis using that False by (simp add: replace_outs_ins [OF assms(2)] map_subst_id)
  qed (simp add: replace_outs_ins [OF assms(2)] that(2))
  then show ?thesis
    using edges_replace [OF assms] replace_outs_ins(2,3) [OF assms(2), of g original] replace_other_fields(1) by simp
qed

text \<open>A small graph: a definition, a constant, and their sum with a repeated operand.\<close>

definition empty_graph :: "('t, 'c, 's) graph" where
  "empty_graph = \<lparr>g_node = (\<lambda>_. \<lparr>n_kind = StartNode, n_number = 0, n_type = undefined, n_storage = None,
      n_inputs = [], n_outputs = []\<rparr>), g_next = 0, g_number = 0\<rparr>"

definition sample_graph :: "(unit, nat, unit) graph" where
  "sample_graph = snd (new_node (BinaryNode Op_IAdd) () None [None, Some 0, Some 0]
     (snd (new_node (ConstantNode 7) () None [None] (snd (new_node DefNode () (Some ()) [None] empty_graph)))))"

lemma new_node_next [simp]: "g_next (snd (new_node kind dt stg ds g)) = g_next g + 1"
proof -
  have "g_next (fold (connect u) ds h) = g_next h" for u and h :: "('a, 'b, 'c) graph"
    by (induction ds arbitrary: h) simp_all
  then show ?thesis by (simp add: new_node_def)
qed

lemma sample_ok: "edges_ok sample_graph" "g_next sample_graph = 3"
proof -
  have "edges_ok (empty_graph :: (unit, nat, unit) graph)" by (simp add: edges_ok_def empty_graph_def)
  then show "edges_ok sample_graph" unfolding sample_graph_def by (intro edges_new_node) (auto simp: empty_graph_def)
  show "g_next sample_graph = 3" by (simp add: sample_graph_def empty_graph_def)
qed

lemma sample_ins: "ins sample_graph 2 = [None, Some 0, Some 0]"
  by (simp add: sample_graph_def empty_graph_def new_node_def connect_def ins_def)

theorem replace_rewires_witness:
  "ins (replace 0 1 sample_graph) 2 = [None, Some 1, Some 1]"
  using replace_rewires [of sample_graph 0 1 2] sample_ok sample_ins by simp

lemma remove_from_inputs_simps:
  "g_next (remove_from_inputs n g) = g_next g"
  "ins (remove_from_inputs n g) i = (if i = n then [] else ins g i)"
  "outs (remove_from_inputs n g) i = outs (fold (leave_input n) (ins g n) g) i"
proof -
  have *: "n_inputs (g_node (fold (leave_input n) ds g) i) = n_inputs (g_node g i)" for ds i
    using fold_leave_simps(2) [of n ds g i] by (simp add: ins_def)
  show "g_next (remove_from_inputs n g) = g_next g" "ins (remove_from_inputs n g) i = (if i = n then [] else ins g i)"
    "outs (remove_from_inputs n g) i = outs (fold (leave_input n) (ins g n) g) i"
    by (simp_all add: remove_from_inputs_def ins_def outs_def *)
qed

lemma edges_remove_from_inputs:
  assumes ok: "edges_ok g" and n: "n < g_next g"
  shows "edges_ok (remove_from_inputs n g)"
proof (rule edges_okI; simp only: remove_from_inputs_simps(1))
  fix d u assume du: "d < g_next g" "u < g_next g"
  then show "count_list (outs (remove_from_inputs n g) d) u = count_list (ins (remove_from_inputs n g) u) (Some d)"
    using edges_okD(1) [OF ok du] by (simp add: remove_from_inputs_simps fold_leave_count)
next
  fix i u assume "i < g_next g" "u \<in> set (outs (remove_from_inputs n g) i)"
  then show "u < g_next g"
    using edges_okD(2) [OF ok] fold_leave_subset by (fastforce simp: remove_from_inputs_simps)
next
  fix i d assume "i < g_next g" "Some d \<in> set (ins (remove_from_inputs n g) i)"
  then show "d < g_next g" using edges_okD(3) [OF ok] by (auto simp: remove_from_inputs_simps split: if_splits)
qed

lemma count_update:
  "i < length xs \<Longrightarrow>
    count_list (xs[i := y]) z + (if xs ! i = z then 1 else 0) = count_list xs z + (if y = z then 1 else 0)"
proof (induction xs arbitrary: i)
  case (Cons x xs)
  show ?case
  proof (cases i)
    case (Suc j)
    then have "j < length xs" using Cons.prems by simp
    from Cons.IH [OF this] Suc show ?thesis by (cases "y = z"; cases "xs ! j = z") simp_all
  qed simp
qed simp

lemma replace_input_simps:
  assumes "replace_input n i r g = Some g'"
  obtains old where "i < length (ins g n)" "ins g n ! i = Some old" "g_next g' = g_next g"
    "\<And>j. ins g' j = (if j = n then (ins g n)[i := Some r] else ins g j)"
    "\<And>j. outs g' j = (if j = old then drop_output n (outs g j) else outs g j) @ (if j = r then [n] else [])"
proof -
  obtain old where o: "i < length (ins g n)" "ins g n ! i = Some old"
    and g': "g' = upd r (n_outputs_update (\<lambda>outs. outs @ [n]))
      (upd n (n_inputs_update (\<lambda>ins. ins[i := Some r])) (remove_output n old g))"
    using assms by (auto simp: replace_input_def ins_def split: if_splits option.splits)
  show ?thesis
    by (rule that [OF o]) (simp_all add: g' outs_def ins_def remove_output_def)
qed

lemma edges_replace_input:
  assumes ok: "edges_ok g" and le: "n < g_next g" "r < g_next g" and g': "replace_input n i r g = Some g'"
  shows "edges_ok g'"
proof -
  obtain old where o: "i < length (ins g n)" "ins g n ! i = Some old" and next': "g_next g' = g_next g"
    and ins': "\<And>j. ins g' j = (if j = n then (ins g n)[i := Some r] else ins g j)"
    and outs': "\<And>j. outs g' j = (if j = old then drop_output n (outs g j) else outs g j) @ (if j = r then [n] else [])"
    using replace_input_simps [OF g'] by blast
  have old: "old < g_next g" using edges_okD(3) [OF ok le(1)] o nth_mem by metis
  show ?thesis
  proof (rule edges_okI; simp only: next')
    fix d u assume du: "d < g_next g" "u < g_next g"
    show "count_list (outs g' d) u = count_list (ins g' u) (Some d)"
    proof (cases "u = n")
      case True
      have "0 < count_list (ins g n) (Some old)" using o nth_mem count_list_0_iff by (metis gr0I)
      then show ?thesis
        using True edges_okD(1) [OF ok du] count_update [OF o(1), of "Some r" "Some d"] o(2) by (auto simp: ins' outs')
    qed (use edges_okD(1) [OF ok du] in \<open>auto simp: ins' outs'\<close>)
  next
    fix j u assume "j < g_next g" "u \<in> set (outs g' j)"
    then show "u < g_next g"
      using edges_okD(2) [OF ok] drop_output_subset le(1) by (fastforce simp: outs' split: if_splits)
  next
    fix j d assume j: "j < g_next g" "Some d \<in> set (ins g' j)"
    then have "Some d \<in> set (ins g j) \<or> d = r"
      using set_update_subset_insert [of "ins g n" i "Some r"] by (auto simp: ins' split: if_splits)
    then show "d < g_next g" using edges_okD(3) [OF ok j(1)] le(2) by blast
  qed
qed

text \<open>
  Creating a node, \<open>Node.RemoveFromInputs\<close> and \<open>Node.ReplaceInput\<close> keep the agreement of inputs
  and outputs; after \<open>RemoveFromInputs\<close> no node lists the removed node as an output.
\<close>

lemma edges_kept:
  assumes "edges_ok g" "n < g_next g"
  shows "edges_ok (remove_from_inputs n g) \<and> (d < g_next g \<longrightarrow> n \<notin> set (outs (remove_from_inputs n g) d))
    \<and> ((\<forall>d. Some d \<in> set ds \<longrightarrow> d < g_next g) \<longrightarrow> edges_ok (snd (new_node kind dt stg ds g)))
    \<and> (r < g_next g \<and> replace_input n i r g = Some g' \<longrightarrow>
        edges_ok g' \<and> ins g' n = (ins g n)[i := Some r])"
proof -
  have "count_list (outs (remove_from_inputs n g) d) n = 0" if "d < g_next g"
    using edges_okD(1) [OF assms(1) that assms(2)] by (simp add: remove_from_inputs_simps fold_leave_count)
  moreover have "ins g' n = (ins g n)[i := Some r]" if "replace_input n i r g = Some g'"
    using replace_input_simps [OF that] by metis
  ultimately show ?thesis
    using edges_remove_from_inputs [OF assms] edges_new_node [OF assms(1)] edges_replace_input [OF assms(1,2)]
    by (auto simp: count_list_0_iff)
qed

theorem edges_kept_witness:
  "edges_ok (remove_from_inputs 2 sample_graph) \<and> 2 \<notin> set (outs (remove_from_inputs 2 sample_graph) 0)
    \<and> edges_ok (snd (new_node PhiNode () None [Some 2, Some 1] sample_graph))
    \<and> (\<exists>g'. replace_input 2 1 1 sample_graph = Some g' \<and> edges_ok g')"
proof -
  have "\<exists>g'. replace_input 2 1 1 sample_graph = Some g'" using sample_ins by (simp add: replace_input_def ins_def)
  then obtain g' where "replace_input 2 1 1 sample_graph = Some g'" by blast
  then show ?thesis
    using edges_kept [of sample_graph 2 0 "[Some 2, Some 1]" PhiNode "()" None 1 1 g'] sample_ok by auto
qed

end
