(* ===== verification/Sea_Peephole.thy ===== *)
theory Sea_Peephole
  imports Sea_Nodes "HOL-Library.Monad_Syntax"
begin

text \<open>
  \<open>seaofnodes/SeaOfNodes/Analysis/PeepholeOptimizer.Bin.cs\<close> and the node factory it calls.  What the
  code uses of Reko's constants and types is the record \<open>reko\<close>, an argument of the definitions; \<open>reko_ok\<close>
  states what it is documented to do.  A node that was replaced has no inputs left; reading one of them raises,
  which is \<open>None\<close>.
\<close>

section \<open>Reko's constants and types\<close>

record ('t, 'c) reko =
  apply_constants :: "op_type \<Rightarrow> 't \<Rightarrow> 'c \<Rightarrow> 'c \<Rightarrow> 'c"
  const_type :: "'c \<Rightarrow> 't"
  is_zero :: "'c \<Rightarrow> bool"
  is_negative :: "'c \<Rightarrow> bool"
  is_max_unsigned :: "'c \<Rightarrow> bool"
  negate :: "'c \<Rightarrow> 'c"
  zero_const :: "'t \<Rightarrow> 'c"
  bit_size :: "'t \<Rightarrow> nat"
  is_add_or_sub :: "op_type \<Rightarrow> bool"

section \<open>The node factory\<close>

definition m_const :: "('t, 'c) reko \<Rightarrow> 'c \<Rightarrow> ('t, 'c, 's) graph \<Rightarrow> nat \<times> ('t, 'c, 's) graph" where
  "m_const R c = new_node (ConstantNode c) (const_type R c) None [None]"

definition m_bin :: "'t \<Rightarrow> op_type \<Rightarrow> nat option \<Rightarrow> nat \<Rightarrow> nat \<Rightarrow> ('t, 'c, 's) graph \<Rightarrow> nat \<times> ('t, 'c, 's) graph" where
  "m_bin dt op cf left right = new_node (BinaryNode op) dt None [cf, Some left, Some right]"

definition m_unary :: "'t \<Rightarrow> unary_type \<Rightarrow> nat option \<Rightarrow> nat \<Rightarrow> ('t, 'c, 's) graph \<Rightarrow> nat \<times> ('t, 'c, 's) graph" where
  "m_unary dt op cf operand = new_node (UnaryNode op) dt None [cf, Some operand]"

section \<open>The peephole optimizer\<close>

definition as_constant :: "('t, 'c, 's) graph \<Rightarrow> nat \<Rightarrow> 'c option" where
  "as_constant g i = (case n_kind (g_node g i) of ConstantNode c \<Rightarrow> Some c | _ \<Rightarrow> None)"

definition input_of :: "('t, 'c, 's) graph \<Rightarrow> nat \<Rightarrow> nat \<Rightarrow> nat" where
  "input_of g i k = the (n_inputs (g_node g i) ! k)"

text \<open>An input after the first is never null (the constructors of the nodes see to that): it is there, or reading it raises.\<close>

definition input_at :: "('t, 'c, 's) graph \<Rightarrow> nat \<Rightarrow> nat \<Rightarrow> nat option" where
  "input_at g n k = Option.bind (arr_get (n_inputs (g_node g n)) k) id"

definition is_symmetric :: "op_type \<Rightarrow> bool" where
  "is_symmetric op =
     (case op of Op_IAdd \<Rightarrow> True | Op_IMul \<Rightarrow> True | Op_SMul \<Rightarrow> True | Op_UMul \<Rightarrow> True
      | Op_And \<Rightarrow> True | Op_Or \<Rightarrow> True | Op_Xor \<Rightarrow> True | _ \<Rightarrow> False)"

text \<open>
  A constant added to or subtracted from a sum or difference with a constant: the operand, the constant's value,
  and the graph with the constant node, when \<open>left\<close> is such a node.
\<close>

definition fold_inner ::
  "('t, 'c) reko \<Rightarrow> bool \<Rightarrow> 't \<Rightarrow> nat \<Rightarrow> nat \<Rightarrow> 'c \<Rightarrow> ('t, 'c, 's) graph \<Rightarrow> (nat \<times> nat \<times> 'c \<times> ('t, 'c, 's) graph) option" where
  "fold_inner R inverted dt left right c g =
     (case n_kind (g_node g left) of
        BinaryNode inner_op \<Rightarrow>
          if is_add_or_sub R inner_op then do {
            inner_right \<leftarrow> input_at g left 2;
            case as_constant g inner_right of
              Some c_inner \<Rightarrow> do {
                inner_left \<leftarrow> input_at g left 1;
                let op = (if inverted then if inner_op = Op_IAdd then Op_ISub else Op_IAdd else inner_op);
                let c' = apply_constants R op dt c c_inner;
                let (r, g') = m_const R c' g;
                Some (inner_left, r, c', g')
              }
            | None \<Rightarrow> Some (left, right, c, g)
          }
          else Some (left, right, c, g)
      | _ \<Rightarrow> Some (left, right, c, g))"

text \<open>The end of the cases \<open>IAdd\<close> and \<open>ISub\<close> with a constant on the right.\<close>

definition add_constant ::
  "('t, 'c) reko \<Rightarrow> 't \<Rightarrow> op_type \<Rightarrow> op_type \<Rightarrow> nat option \<Rightarrow> nat \<times> nat \<times> 'c \<times> ('t, 'c, 's) graph \<Rightarrow> nat \<times> ('t, 'c, 's) graph" where
  "add_constant R dt op opposite cf a =
     (case a of (left, right, c, g) \<Rightarrow>
        if is_zero R c then (left, g)
        else if is_negative R c then
          let (r, g') = m_const R (negate R c) g in m_bin dt opposite cf left r g'
        else m_bin dt op cf left right g)"

text \<open>The switch over the operator; \<open>c_right\<close> is the value of the right operand when it is a constant.\<close>

definition bin_op ::
  "('t, 'c) reko \<Rightarrow> 't \<Rightarrow> op_type \<Rightarrow> nat option \<Rightarrow> nat \<Rightarrow> nat \<Rightarrow> 'c option \<Rightarrow> ('t, 'c, 's) graph
    \<Rightarrow> (nat \<times> ('t, 'c, 's) graph) option" where
  "bin_op R dt op cf left right c_right g =
     (case op of
     Op_IAdd \<Rightarrow>
       (case c_right of
          Some c \<Rightarrow> map_option (add_constant R dt Op_IAdd Op_ISub cf) (fold_inner R False dt left right c g)
        | None \<Rightarrow> Some (m_bin dt op cf left right g))
   | Op_ISub \<Rightarrow>
       if left = right then Some (m_const R (zero_const R dt) g)
       else
         (case c_right of
            Some c \<Rightarrow> map_option (add_constant R dt Op_ISub Op_IAdd cf) (fold_inner R True dt left right c g)
          | None \<Rightarrow> Some (m_bin dt op cf left right g))
   | Op_And \<Rightarrow>
       if left = right then Some (left, g)
       else
         (case c_right of
            Some c \<Rightarrow>
              if is_zero R c then Some (m_const R (zero_const R dt) g)
              else if is_max_unsigned R c then Some (left, g)
              else Some (m_bin dt op cf left right g)
          | None \<Rightarrow> Some (m_bin dt op cf left right g))
   | Op_Or \<Rightarrow>
       if left = right then Some (left, g)
       else
         (case c_right of
            Some c \<Rightarrow> if is_zero R c then Some (left, g) else Some (m_bin dt op cf left right g)
          | None \<Rightarrow> Some (m_bin dt op cf left right g))
   | Op_Xor \<Rightarrow>
       if left = right then Some (m_const R (zero_const R dt) g)
       else
         (case c_right of
            Some c \<Rightarrow> if is_zero R c then Some (left, g) else Some (m_bin dt op cf left right g)
          | None \<Rightarrow> Some (m_bin dt op cf left right g))
   | _ \<Rightarrow> Some (m_bin dt op cf left right g))"

definition bin :: "('t, 'c) reko \<Rightarrow> 't \<Rightarrow> op_type \<Rightarrow> nat option \<Rightarrow> nat \<Rightarrow> nat \<Rightarrow> ('t, 'c, 's) graph
    \<Rightarrow> (nat \<times> ('t, 'c, 's) graph) option" where
  "bin R dt op cf left right g =
     (case (as_constant g left, as_constant g right) of
        (Some c1, Some c2) \<Rightarrow> Some (m_const R (apply_constants R op dt c1 c2) g)
      | (c_left, c_right) \<Rightarrow>
          if is_symmetric op \<and> c_left \<noteq> None then bin_op R dt op cf right left c_left g
          else bin_op R dt op cf left right c_right g)"

definition neg :: "'t \<Rightarrow> nat \<Rightarrow> ('t, 'c, 's) graph \<Rightarrow> (nat \<times> ('t, 'c, 's) graph) option" where
  "neg dt i g =
     (if n_kind (g_node g i) = UnaryNode Un_Neg then map_option (\<lambda>x. (x, g)) (input_at g i 1)
      else Some (m_unary dt Un_Neg None i g))"

text \<open>\<open>NodeValuePropagator.VisitBinaryNode\<close>: (x + c1) + c2 becomes x + (c1 + c2).\<close>

definition visit_binary_node :: "('t, 'c) reko \<Rightarrow> nat \<Rightarrow> ('t, 'c, 's) graph \<Rightarrow> (nat \<times> ('t, 'c, 's) graph) option" where
  "visit_binary_node R n g =
     (case (n_kind (g_node g n), n_kind (g_node g (input_of g n 1)), as_constant g (input_of g n 2)) of
        (BinaryNode op, BinaryNode left_op, Some c_right) \<Rightarrow>
          (case as_constant g (input_of g (input_of g n 1) 2) of
             Some c_left_right \<Rightarrow>
               if left_op = Op_IAdd \<and> op = Op_IAdd then
                 let x = input_of g (input_of g n 1) 1;
                     (r, g') = m_const R (apply_constants R op (n_type (g_node g n)) c_left_right c_right) g
                 in Some (m_bin (n_type (g_node g' x)) Op_IAdd None x r g')
               else None
           | None \<Rightarrow> None)
      | _ \<Rightarrow> None)"

section \<open>Values\<close>

definition op_sem :: "(op_type \<Rightarrow> nat \<Rightarrow> int \<Rightarrow> int \<Rightarrow> int) \<Rightarrow> op_type \<Rightarrow> nat \<Rightarrow> int \<Rightarrow> int \<Rightarrow> int" where
  "op_sem other op b x y = take_bit b
     (case op of Op_IAdd \<Rightarrow> x + y | Op_ISub \<Rightarrow> x - y | Op_And \<Rightarrow> x AND y | Op_Or \<Rightarrow> x OR y | Op_Xor \<Rightarrow> x XOR y
      | _ \<Rightarrow> other op b x y)"

definition reko_ok :: "('t, 'c) reko \<Rightarrow> (op_type \<Rightarrow> nat \<Rightarrow> int \<Rightarrow> int \<Rightarrow> int) \<Rightarrow> ('c \<Rightarrow> int) \<Rightarrow> bool" where
  "reko_ok R other val \<longleftrightarrow>
     (\<forall>op dt c d. const_type R (apply_constants R op dt c d) = dt
        \<and> (bit_size R (const_type R c) = bit_size R dt \<and> bit_size R (const_type R d) = bit_size R dt \<longrightarrow>
            val (apply_constants R op dt c d) = op_sem other op (bit_size R dt) (val c) (val d)))
     \<and> (\<forall>c. 0 \<le> val c \<and> val c < 2 ^ bit_size R (const_type R c)
          \<and> is_zero R c = (val c = 0)
          \<and> is_max_unsigned R c = (val c = 2 ^ bit_size R (const_type R c) - 1)
          \<and> const_type R (negate R c) = const_type R c
          \<and> val (negate R c) = take_bit (bit_size R (const_type R c)) (- val c))
     \<and> (\<forall>dt. const_type R (zero_const R dt) = dt \<and> val (zero_const R dt) = 0)
     \<and> (\<forall>op. is_add_or_sub R op = (op = Op_IAdd \<or> op = Op_ISub))
     \<and> (\<forall>b x y. \<forall>op \<in> {Op_IMul, Op_SMul, Op_UMul}. other op b x y = other op b y x)"

definition well_shaped ::
  "('t, 'c) reko \<Rightarrow> ('t, 'c, 's) graph \<Rightarrow> 'c node_kind \<Rightarrow> 't \<Rightarrow> nat option list \<Rightarrow> bool" where
  "well_shaped R g kind dt ds \<longleftrightarrow>
     (\<forall>c. kind = ConstantNode c \<longrightarrow> dt = const_type R c)
     \<and> (\<forall>op. kind = BinaryNode op \<longrightarrow> (\<exists>cf l r. ds = [cf, Some l, Some r] \<and> l < g_next g \<and> r < g_next g
         \<and> (op = Op_IAdd \<or> op = Op_ISub \<longrightarrow>
              bit_size R (n_type (g_node g l)) = bit_size R dt \<and> bit_size R (n_type (g_node g r)) = bit_size R dt)))
     \<and> (kind = UnaryNode Un_Neg \<longrightarrow> (\<exists>cf l. ds = [cf, Some l] \<and> l < g_next g \<and> bit_size R (n_type (g_node g l)) = bit_size R dt))"

definition typed :: "('t, 'c) reko \<Rightarrow> ('t, 'c, 's) graph \<Rightarrow> bool" where
  "typed R g \<longleftrightarrow> (\<forall>i < g_next g. well_shaped R g (n_kind (g_node g i)) (n_type (g_node g i)) (ins g i))"

definition has_value ::
  "(op_type \<Rightarrow> nat \<Rightarrow> int \<Rightarrow> int \<Rightarrow> int) \<Rightarrow> ('c \<Rightarrow> int) \<Rightarrow> 'c node_kind \<Rightarrow> nat \<Rightarrow> (nat \<Rightarrow> int) \<Rightarrow> nat \<Rightarrow> nat \<Rightarrow> int \<Rightarrow> bool" where
  "has_value other val kind b env l r v \<longleftrightarrow> 0 \<le> v \<and> v < 2 ^ b
     \<and> (\<forall>c. kind = ConstantNode c \<longrightarrow> v = val c)
     \<and> (\<forall>op. kind = BinaryNode op \<longrightarrow> v = op_sem other op b (env l) (env r))
     \<and> (kind = UnaryNode Un_Neg \<longrightarrow> v = take_bit b (- env l))"

definition node_ok ::
  "('t, 'c) reko \<Rightarrow> (op_type \<Rightarrow> nat \<Rightarrow> int \<Rightarrow> int \<Rightarrow> int) \<Rightarrow> ('c \<Rightarrow> int) \<Rightarrow> ('t, 'c, 's) graph \<Rightarrow> (nat \<Rightarrow> int) \<Rightarrow> nat \<Rightarrow> bool" where
  "node_ok R other val g env i \<longleftrightarrow>
     has_value other val (n_kind (g_node g i)) (bit_size R (n_type (g_node g i))) env (input_of g i 1) (input_of g i 2) (env i)"

definition valuation ::
  "('t, 'c) reko \<Rightarrow> (op_type \<Rightarrow> nat \<Rightarrow> int \<Rightarrow> int \<Rightarrow> int) \<Rightarrow> ('c \<Rightarrow> int) \<Rightarrow> ('t, 'c, 's) graph \<Rightarrow> (nat \<Rightarrow> int) \<Rightarrow> bool" where
  "valuation R other val g env \<longleftrightarrow> (\<forall>i < g_next g. node_ok R other val g env i)"

section \<open>New nodes\<close>

lemma new_node_fields:
  assumes "new_node kind dt stg ds g = (n, g')"
  shows "n = g_next g" "g_next g' = g_next g + 1"
    "n_kind (g_node g' n) = kind" "n_type (g_node g' n) = dt" "ins g' n = ds"
    "i < g_next g \<Longrightarrow> n_kind (g_node g' i) = n_kind (g_node g i)"
    "i < g_next g \<Longrightarrow> n_type (g_node g' i) = n_type (g_node g i)"
    "i < g_next g \<Longrightarrow> ins g' i = ins g i"
proof -
  let ?h = "upd (g_next g) (\<lambda>_. \<lparr>n_kind = kind, n_number = g_number g + 1, n_type = dt, n_storage = stg,
            n_inputs = [], n_outputs = []\<rparr>) (g\<lparr>g_next := g_next g + 1, g_number := g_number g + 1\<rparr>)"
  have k: "n_kind (g_node (connect u d h) i) = n_kind (g_node h i)" "n_type (g_node (connect u d h) i) = n_type (g_node h i)"
    for u d i and h :: "('a, 'b, 'c) graph"
    by (cases d; simp add: connect_def)+
  have f: "n_kind (g_node (fold (connect u) ds h) i) = n_kind (g_node h i)"
    "n_type (g_node (fold (connect u) ds h) i) = n_type (g_node h i)"
    "g_next (fold (connect u) ds h) = g_next h"
    "ins (fold (connect u) ds h) i = (if i = u then ins h i @ ds else ins h i)"
    for u ds i and h :: "('a, 'b, 'c) graph"
    by (induction ds arbitrary: h) (simp_all add: k)
  have g': "g' = fold (connect n) ds ?h" and n: "n = g_next g" using assms by (auto simp: new_node_def)
  show "n = g_next g" "g_next g' = g_next g + 1" "n_kind (g_node g' n) = kind" "n_type (g_node g' n) = dt" "ins g' n = ds"
    by (simp_all add: g' n f) (simp add: ins_def)
  show "i < g_next g \<Longrightarrow> n_kind (g_node g' i) = n_kind (g_node g i)"
    "i < g_next g \<Longrightarrow> n_type (g_node g' i) = n_type (g_node g i)" "i < g_next g \<Longrightarrow> ins g' i = ins g i"
    by (simp_all add: g' n f) (simp add: ins_def)
qed


definition keeps :: "('t, 'c, 's) graph \<Rightarrow> ('t, 'c, 's) graph \<Rightarrow> bool" where
  "keeps g g' \<longleftrightarrow> g_next g \<le> g_next g'
     \<and> (\<forall>i < g_next g. n_kind (g_node g' i) = n_kind (g_node g i) \<and> n_type (g_node g' i) = n_type (g_node g i)
          \<and> ins g' i = ins g i)"

definition yields where
  "yields R other val g res b F \<longleftrightarrow> (case res of (n, g') \<Rightarrow>
     keeps g g' \<and> n < g_next g' \<and> typed R g' \<and> bit_size R (n_type (g_node g' n)) = b
     \<and> (\<forall>env. valuation R other val g' env \<longrightarrow> valuation R other val g env \<and> env n = F env)
     \<and> (\<forall>env. valuation R other val g env \<longrightarrow>
          (\<exists>env'. valuation R other val g' env' \<and> (\<forall>i < g_next g. env' i = env i))))"

lemma keeps_refl [simp]: "keeps g g"
  by (simp add: keeps_def)

lemma keeps_trans: "\<lbrakk>keeps g g'; keeps g' g''\<rbrakk> \<Longrightarrow> keeps g g''"
  by (auto simp: keeps_def)

lemma yields_old:
  assumes "typed R g" "n < g_next g" "bit_size R (n_type (g_node g n)) = b"
    "\<And>env. valuation R other val g env \<Longrightarrow> env n = F env"
  shows "yields R other val g (n, g) b F"
  using assms by (auto simp: yields_def)

lemma yields_trans:
  assumes 1: "yields R other val g (m, g1) b1 F1" and 2: "yields R other val g1 res b F"
    and eq: "\<And>env. \<lbrakk>valuation R other val g1 env; valuation R other val g env; env m = F1 env\<rbrakk> \<Longrightarrow> F env = F' env"
  shows "yields R other val g res b F'"
proof -
  obtain n g' where res: "res = (n, g')" by force
  have k: "keeps g g1" "keeps g1 g'" using 1 2 by (auto simp: yields_def res)
  have le: "g_next g \<le> g_next g1" using k(1) by (simp add: keeps_def)
  have "\<exists>env'. valuation R other val g' env' \<and> (\<forall>i < g_next g. env' i = env i)" if v: "valuation R other val g env" for env
  proof -
    obtain e1 where e1: "valuation R other val g1 e1" "\<forall>i < g_next g. e1 i = env i"
      using 1 v by (auto simp: yields_def)
    then obtain e2 where "valuation R other val g' e2" "\<forall>i < g_next g1. e2 i = e1 i"
      using 2 by (auto simp: yields_def res)
    then show ?thesis using e1 le by (intro exI [of _ e2]) auto
  qed
  moreover have "valuation R other val g env \<and> env n = F' env" if v: "valuation R other val g' env" for env
  proof -
    have "valuation R other val g1 env" "env n = F env" using 2 v by (auto simp: yields_def res)
    moreover have "valuation R other val g env" "env m = F1 env" using 1 calculation(1) by (auto simp: yields_def)
    ultimately show ?thesis using eq by simp
  qed
  moreover have "keeps g g'" using k by (rule keeps_trans)
  ultimately show ?thesis using 2 by (simp add: yields_def res)
qed

text \<open>Adding one node whose value follows from the old nodes.\<close>

lemma valuation_new:
  assumes "new_node kind dt stg ds g = (n, g')"
  shows "valuation R other val g' env \<longleftrightarrow> valuation R other val g env
    \<and> has_value other val kind (bit_size R dt) env (the (ds ! 1)) (the (ds ! 2)) (env n)"
proof -
  note f = new_node_fields [OF assms]
  have i: "input_of g' n k = the (ds ! k)" for k using f(5) by (simp add: input_of_def ins_def)
  have o: "input_of g' i k = input_of g i k" if "i < g_next g" for i k
    using f(8) [OF that] by (simp add: input_of_def ins_def)
  have "node_ok R other val g' env i = node_ok R other val g env i" if "i < g_next g" for i
    using f(6,7) [OF that] o [OF that] by (simp add: node_ok_def)
  moreover have "node_ok R other val g' env n
      \<longleftrightarrow> has_value other val kind (bit_size R dt) env (the (ds ! 1)) (the (ds ! 2)) (env n)"
    using f(3,4) i by (simp add: node_ok_def)
  ultimately show ?thesis
    unfolding valuation_def f(2) using f(1) by (auto simp: less_Suc_eq)
qed

lemma typed_new:
  assumes ty: "typed R g" and new: "new_node kind dt stg ds g = (n, g')" and "well_shaped R g kind dt ds"
  shows "typed R g'"
proof -
  note f = new_node_fields [OF new]
  have more: "well_shaped R g' k d xs" if "well_shaped R g k d xs" for k d xs
    using that f(2,7) unfolding well_shaped_def by (fastforce intro: less_SucI)
  have "well_shaped R g' (n_kind (g_node g' i)) (n_type (g_node g' i)) (ins g' i)" if i: "i < g_next g'" for i
  proof (cases "i < g_next g")
    case True
    then show ?thesis using ty more f(6-8) by (simp add: typed_def)
  next
    case False
    then have "i = n" using i f(1,2) by simp
    then show ?thesis using more [OF assms(3)] f(3-5) by simp
  qed
  then show ?thesis by (simp add: typed_def)
qed

lemma valuation_old:
  assumes "typed R g" "\<forall>i < g_next g. env' i = env i"
  shows "valuation R other val g env' = valuation R other val g env"
proof -
  have "node_ok R other val g env' i = node_ok R other val g env i" if i: "i < g_next g" for i
  proof -
    have "env' (input_of g i k) = env (input_of g i k)"
      if "n_kind (g_node g i) = BinaryNode op \<and> (k = 1 \<or> k = 2) \<or> n_kind (g_node g i) = UnaryNode Un_Neg \<and> k = 1" for op k
    proof -
      have "input_of g i k < g_next g" using assms(1) i that by (fastforce simp: typed_def well_shaped_def input_of_def ins_def)
      then show ?thesis using assms(2) by blast
    qed
    then show ?thesis using assms(2) i by (auto simp: node_ok_def has_value_def)
  qed
  then show ?thesis by (simp add: valuation_def)
qed

lemma yields_new:
  assumes ty: "typed R g" and new: "new_node kind dt stg ds g = (n, g')" and shape: "well_shaped R g kind dt ds"
    and kind: "\<And>env v. valuation R other val g env \<Longrightarrow>
        has_value other val kind (bit_size R dt) env (the (ds ! 1)) (the (ds ! 2)) v = (v = F env)"
    and local: "\<And>env env'. (\<forall>i < g_next g. env' i = env i) \<Longrightarrow> F env' = F env"
  shows "yields R other val g (n, g') (bit_size R dt) F"
proof -
  note f = new_node_fields [OF new]
  note v = valuation_new [OF new, of R other val]
  have "\<exists>env'. valuation R other val g' env' \<and> (\<forall>i < g_next g. env' i = env i)" if ve: "valuation R other val g env" for env
  proof (intro exI conjI)
    let ?e = "env(n := F env)"
    show same: "\<forall>i < g_next g. ?e i = env i" using f(1) by simp
    have "valuation R other val g ?e" using valuation_old [OF ty same] ve by blast
    moreover have "F ?e = F env" by (rule local [OF same])
    ultimately show "valuation R other val g' ?e" unfolding v using kind [of ?e "?e n"] by simp
  qed
  moreover have "valuation R other val g env \<and> env n = F env" if "valuation R other val g' env" for env
    using that kind unfolding v by blast
  ultimately show ?thesis
    using f(1-4,6-8) typed_new [OF ty new shape] unfolding yields_def by (simp add: keeps_def)
qed

lemma yields_const:
  assumes "reko_ok R other val" "typed R g"
  shows "yields R other val g (m_const R c g) (bit_size R (const_type R c)) (\<lambda>_. val c)"
proof -
  obtain n g' where new: "new_node (ConstantNode c) (const_type R c) None [None] g = (n, g')" by force
  have "0 \<le> val c \<and> val c < 2 ^ bit_size R (const_type R c)" using assms(1) by (simp add: reko_ok_def)
  then have "yields R other val g (n, g') (bit_size R (const_type R c)) (\<lambda>_. val c)"
    by (intro yields_new [OF assms(2) new]) (auto simp: well_shaped_def has_value_def)
  then show ?thesis unfolding m_const_def new .
qed

lemma op_sem_range: "0 \<le> op_sem other op b x y" "op_sem other op b x y < 2 ^ b"
  by (simp_all add: op_sem_def)

lemma yields_bin:
  assumes "typed R g" "l < g_next g" "r < g_next g"
    "op = Op_IAdd \<or> op = Op_ISub \<Longrightarrow>
      bit_size R (n_type (g_node g l)) = bit_size R dt \<and> bit_size R (n_type (g_node g r)) = bit_size R dt"
  shows "yields R other val g (m_bin dt op cf l r g) (bit_size R dt) (\<lambda>env. op_sem other op (bit_size R dt) (env l) (env r))"
proof -
  obtain n g' where new: "new_node (BinaryNode op) dt None [cf, Some l, Some r] g = (n, g')" by force
  have "yields R other val g (n, g') (bit_size R dt) (\<lambda>env. op_sem other op (bit_size R dt) (env l) (env r))"
    using assms by (intro yields_new [OF assms(1) new]) (auto simp: well_shaped_def has_value_def op_sem_range)
  then show ?thesis unfolding m_bin_def new .
qed

section \<open>The optimizer keeps the value\<close>

lemma reko_okD:
  assumes "reko_ok R other val"
  shows "const_type R (apply_constants R op dt c d) = dt"
    "\<lbrakk>bit_size R (const_type R c) = bit_size R dt; bit_size R (const_type R d) = bit_size R dt\<rbrakk>
      \<Longrightarrow> val (apply_constants R op dt c d) = op_sem other op (bit_size R dt) (val c) (val d)"
    "is_zero R c \<longleftrightarrow> val c = 0" "is_max_unsigned R c \<longleftrightarrow> val c = 2 ^ bit_size R (const_type R c) - 1"
    "const_type R (negate R c) = const_type R c" "val (negate R c) = take_bit (bit_size R (const_type R c)) (- val c)"
    "const_type R (zero_const R dt) = dt" "val (zero_const R dt) = 0"
    "is_add_or_sub R op \<longleftrightarrow> op = Op_IAdd \<or> op = Op_ISub"
    "op \<in> {Op_IMul, Op_SMul, Op_UMul} \<Longrightarrow> other op b x y = other op b y x"
  using assms unfolding reko_ok_def by blast+

lemma as_constantD:
  assumes "as_constant g i = Some c" "i < g_next g"
  shows "n_kind (g_node g i) = ConstantNode c"
    and "typed R g \<Longrightarrow> n_type (g_node g i) = const_type R c"
    and "valuation R other val g env \<Longrightarrow> env i = val c"
proof -
  show k: "n_kind (g_node g i) = ConstantNode c"
    using assms(1) by (auto simp: as_constant_def split: node_kind.splits)
  show "typed R g \<Longrightarrow> n_type (g_node g i) = const_type R c"
    using k assms(2) by (auto simp: typed_def well_shaped_def)
  show "valuation R other val g env \<Longrightarrow> env i = val c"
    using k assms(2) by (auto simp: valuation_def node_ok_def has_value_def)
qed

lemma valuation_old_range:
  "\<lbrakk>valuation R other val g env; i < g_next g\<rbrakk> \<Longrightarrow> 0 \<le> env i \<and> env i < 2 ^ bit_size R (n_type (g_node g i))"
  by (simp add: valuation_def node_ok_def has_value_def)

lemma valuation_range:
  "\<lbrakk>valuation R other val g env; i < g_next g; bit_size R (n_type (g_node g i)) = b\<rbrakk> \<Longrightarrow> take_bit b (env i) = env i"
  using valuation_old_range by (fastforce simp: take_bit_int_eq_self)

text \<open>What an optimizer step may assume of an operand of the size of the result.\<close>

definition operand :: "('t, 'c) reko \<Rightarrow> ('t, 'c, 's) graph \<Rightarrow> nat \<Rightarrow> nat \<Rightarrow> bool" where
  "operand R g b i \<longleftrightarrow> i < g_next g \<and> bit_size R (n_type (g_node g i)) = b"

lemma operand_keeps: "\<lbrakk>keeps g g'; operand R g b i\<rbrakk> \<Longrightarrow> operand R g' b i"
  by (auto simp: operand_def keeps_def)

lemma add_constant_value:
  assumes ok: "reko_ok R other val" and ty: "typed R g"
    and l: "operand R g (bit_size R dt) left" and r: "operand R g (bit_size R dt) right" "as_constant g right = Some c"
    and ops: "(op, opposite) \<in> {(Op_IAdd, Op_ISub), (Op_ISub, Op_IAdd)}"
  shows "yields R other val g (add_constant R dt op opposite cf (left, right, c, g)) (bit_size R dt)
    (\<lambda>env. op_sem other op (bit_size R dt) (env left) (val c))"
proof -
  let ?b = "bit_size R dt"
  have c: "bit_size R (const_type R c) = ?b" using as_constantD(2) [OF r(2) _ ty] r(1) by (simp add: operand_def)
  have lv: "take_bit ?b (env left) = env left" if "valuation R other val g env" for env
    using valuation_range [OF that] l by (simp add: operand_def)
  have rv: "env right = val c" if "valuation R other val g env" for env
    using as_constantD(3) [OF r(2) _ that] r(1) by (simp add: operand_def)
  consider "is_zero R c" | "\<not> is_zero R c" "is_negative R c" | "\<not> is_zero R c" "\<not> is_negative R c" by blast
  then show ?thesis
  proof cases
    case 1
    have "yields R other val g (left, g) ?b (\<lambda>env. op_sem other op ?b (env left) (val c))"
      using 1 l lv ops by (intro yields_old [OF ty]) (auto simp: operand_def op_sem_def reko_okD(3) [OF ok])
    then show ?thesis using 1 by (simp add: add_constant_def)
  next
    case 2
    obtain m g1 where m: "m_const R (negate R c) g = (m, g1)" by force
    have y: "yields R other val g (m, g1) ?b (\<lambda>_. take_bit ?b (- val c))"
      using yields_const [OF ok ty, of "negate R c"] unfolding m by (simp add: reko_okD(5,6) [OF ok] c)
    have "operand R g1 ?b left" "operand R g1 ?b m" "typed R g1"
      using y l by (auto simp: yields_def operand_def keeps_def)
    then have "yields R other val g1 (m_bin dt opposite cf left m g1) ?b (\<lambda>env. op_sem other opposite ?b (env left) (env m))"
      by (intro yields_bin) (auto simp: operand_def)
    then have "yields R other val g (m_bin dt opposite cf left m g1) ?b (\<lambda>env. op_sem other op ?b (env left) (val c))"
      by (rule yields_trans [OF y]) (use ops in \<open>auto simp: op_sem_def take_bit_eq_mod mod_simps\<close>)
    then show ?thesis using 2 m by (simp add: add_constant_def)
  next
    case 3
    have "yields R other val g (m_bin dt op cf left right g) ?b (\<lambda>env. op_sem other op ?b (env left) (env right))"
      using l r by (intro yields_bin [OF ty]) (auto simp: operand_def)
    then have "yields R other val g (m_bin dt op cf left right g) ?b (\<lambda>env. op_sem other op ?b (env left) (val c))"
      using rv by (auto simp: yields_def split: prod.splits)
    then show ?thesis using 3 by (simp add: add_constant_def)
  qed
qed


lemma binaryD:
  assumes "typed R g" "i < g_next g" "n_kind (g_node g i) = BinaryNode op" "op = Op_IAdd \<or> op = Op_ISub"
  shows "operand R g (bit_size R (n_type (g_node g i))) (input_of g i 1)"
    "operand R g (bit_size R (n_type (g_node g i))) (input_of g i 2)"
    "valuation R other val g env \<Longrightarrow>
      env i = op_sem other op (bit_size R (n_type (g_node g i))) (env (input_of g i 1)) (env (input_of g i 2))"
proof -
  have w: "well_shaped R g (BinaryNode op) (n_type (g_node g i)) (ins g i)"
    using assms(1-3) unfolding typed_def by metis
  show "operand R g (bit_size R (n_type (g_node g i))) (input_of g i 1)"
    "operand R g (bit_size R (n_type (g_node g i))) (input_of g i 2)"
    using w assms(4) by (auto simp: well_shaped_def operand_def input_of_def ins_def)
  show "valuation R other val g env \<Longrightarrow>
      env i = op_sem other op (bit_size R (n_type (g_node g i))) (env (input_of g i 1)) (env (input_of g i 2))"
    using assms(2,3) by (simp add: valuation_def node_ok_def has_value_def)
qed

lemma input_at_in: "\<lbrakk>ins g n = xs; k < length xs\<rbrakk> \<Longrightarrow> input_at g n k = xs ! k"
  by (auto simp: input_at_def ins_def)

lemma binary_inputs:
  assumes "typed R g" "i < g_next g" "n_kind (g_node g i) = BinaryNode op"
  shows "input_at g i 1 = Some (input_of g i 1)" "input_at g i 2 = Some (input_of g i 2)"
proof -
  have "well_shaped R g (BinaryNode op) (n_type (g_node g i)) (ins g i)" using assms unfolding typed_def by metis
  then obtain cf l r where "ins g i = [cf, Some l, Some r]" by (auto simp: well_shaped_def)
  then show "input_at g i 1 = Some (input_of g i 1)" "input_at g i 2 = Some (input_of g i 2)"
    by (simp_all add: input_at_def input_of_def ins_def)
qed

lemma fold_inner_value:
  assumes ok: "reko_ok R other val" and ty: "typed R g"
    and l: "operand R g (bit_size R dt) left" and r: "operand R g (bit_size R dt) right" "as_constant g right = Some c"
    and ops: "(inverted, op, opposite) \<in> {(False, Op_IAdd, Op_ISub), (True, Op_ISub, Op_IAdd)}"
  shows "\<exists>a. fold_inner R inverted dt left right c g = Some a \<and> yields R other val g (add_constant R dt op opposite cf a) (bit_size R dt)
    (\<lambda>env. op_sem other op (bit_size R dt) (env left) (val c))"
proof -
  let ?b = "bit_size R dt"
  have ops': "(op, opposite) \<in> {(Op_IAdd, Op_ISub), (Op_ISub, Op_IAdd)}" using ops by auto
  have left: "left < g_next g" "bit_size R (n_type (g_node g left)) = ?b" using l by (simp_all add: operand_def)
  note inputs = binary_inputs [OF ty left(1)]
  show ?thesis
  proof (cases "\<exists>iop ci. n_kind (g_node g left) = BinaryNode iop \<and> (iop = Op_IAdd \<or> iop = Op_ISub)
      \<and> as_constant g (input_of g left 2) = Some ci")
    case False
    then have "fold_inner R inverted dt left right c g = Some (left, right, c, g)"
      using inputs(2) by (auto simp: fold_inner_def reko_okD(9) [OF ok] split: node_kind.split option.split)
    then show ?thesis using add_constant_value [OF ok ty l r ops'] by simp
  next
    case True
    then obtain iop ci where i: "n_kind (g_node g left) = BinaryNode iop" "iop = Op_IAdd \<or> iop = Op_ISub"
      "as_constant g (input_of g left 2) = Some ci" by blast
    let ?x = "input_of g left 1"
    let ?op = "if inverted then if iop = Op_IAdd then Op_ISub else Op_IAdd else iop"
    let ?c = "apply_constants R ?op dt c ci"
    obtain m g1 where m: "m_const R ?c g = (m, g1)" by force
    note inner = binaryD [OF ty left(1) i(1,2), unfolded left(2)]
    have sizes: "bit_size R (const_type R c) = ?b" "bit_size R (const_type R ci) = ?b"
      using as_constantD(2) [OF r(2) _ ty] as_constantD(2) [OF i(3) _ ty] r(1) inner(2) by (auto simp: operand_def)
    have fold: "fold_inner R inverted dt left right c g = Some (?x, m, ?c, g1)"
      using i m inputs [OF i(1)] by (auto simp: fold_inner_def reko_okD(9) [OF ok] Let_def)
    have y: "yields R other val g (m, g1) ?b (\<lambda>_. val ?c)"
      using yields_const [OF ok ty, of ?c] unfolding m by (simp add: reko_okD(1) [OF ok])
    have new: "operand R g1 ?b ?x" "operand R g1 ?b m" "typed R g1"
      using y operand_keeps [OF _ inner(1), of g1] by (auto simp: yields_def operand_def)
    have "n_kind (g_node g1 m) = ConstantNode ?c"
      using m new_node_fields(3) [of "ConstantNode ?c"] by (metis m_const_def)
    then have cm: "as_constant g1 m = Some ?c" by (simp add: as_constant_def)
    have "yields R other val g (add_constant R dt op opposite cf (?x, m, ?c, g1)) ?b
        (\<lambda>env. op_sem other op ?b (env left) (val c))"
    proof (rule yields_trans [OF y add_constant_value [OF ok new(3) new(1,2) cm ops']])
      fix env assume v: "valuation R other val g env"
      have "env left = op_sem other iop ?b (env ?x) (val ci)"
        using inner(3) [OF v] as_constantD(3) [OF i(3) _ v] inner(2) by (simp add: operand_def)
      then show "op_sem other op ?b (env ?x) (val ?c) = op_sem other op ?b (env left) (val c)"
        using ops i(2) unfolding reko_okD(2) [OF ok sizes] by (auto simp: op_sem_def take_bit_eq_mod mod_simps algebra_simps)
    qed
    then show ?thesis unfolding fold by blast
  qed
qed

lemma yields_eq:
  assumes "yields R other val g res b F" "\<And>env. valuation R other val g env \<Longrightarrow> F env = F' env"
  shows "yields R other val g res b F'"
  using assms by (auto simp: yields_def split: prod.splits)

lemma logic_sem:
  "op_sem other Op_And b x 0 = 0" "op_sem other Op_And b x x = take_bit b x"
  "op_sem other Op_And b x (2 ^ b - 1) = take_bit b x"
  "op_sem other Op_Or b x 0 = take_bit b x" "op_sem other Op_Or b x x = take_bit b x"
  "op_sem other Op_Xor b x 0 = take_bit b x" "op_sem other Op_Xor b x x = 0"
  by (simp_all add: op_sem_def) (simp add: take_bit_eq_mask mask_eq_exp_minus_1 and.assoc)

text \<open>A result that is there.\<close>

definition returns :: "('r \<Rightarrow> bool) \<Rightarrow> 'r option \<Rightarrow> bool" where
  "returns P m = case_option False P m"

lemma returns_simps [simp]: "returns P (Some r) = P r" "\<not> returns P None"
  by (simp_all add: returns_def)

lemma returnsE: "\<lbrakk>returns P m; \<And>r. \<lbrakk>m = Some r; P r\<rbrakk> \<Longrightarrow> thesis\<rbrakk> \<Longrightarrow> thesis"
  by (cases m) simp_all

lemma returns_iff: "returns P m \<longleftrightarrow> (\<exists>r. m = Some r \<and> P r)"
  by (cases m) simp_all

lemma bin_op_value:
  assumes ok: "reko_ok R other val" and ty: "typed R g"
    and l: "operand R g (bit_size R dt) left" and r: "operand R g (bit_size R dt) right"
  shows "returns (\<lambda>res. yields R other val g res (bit_size R dt)
    (\<lambda>env. op_sem other op (bit_size R dt) (env left) (env right))) (bin_op R dt op cf left right (as_constant g right) g)"
proof -
  let ?b = "bit_size R dt"
  let ?F = "\<lambda>env. op_sem other op ?b (env left) (env right)"
  have plain: "yields R other val g (m_bin dt op cf left right g) ?b ?F"
    using l r by (intro yields_bin [OF ty]) (auto simp: operand_def)
  have rv: "env right = val c" if "as_constant g right = Some c" "valuation R other val g env" for c env
    using as_constantD(3) [OF that(1) _ that(2)] r by (simp add: operand_def)
  have lv: "take_bit ?b (env left) = env left" if "valuation R other val g env" for env
    using valuation_range [OF that] l by (simp add: operand_def)
  have size: "bit_size R (const_type R c) = ?b" if "as_constant g right = Some c" for c
    using as_constantD(2) [OF that _ ty] r by (simp add: operand_def)
  have the_left: "yields R other val g (left, g) ?b ?F"
    if "\<And>env. valuation R other val g env \<Longrightarrow> ?F env = env left"
    using l that by (intro yields_old [OF ty]) (auto simp: operand_def)
  have zero: "yields R other val g (m_const R (zero_const R dt) g) ?b ?F"
    if "\<And>env. valuation R other val g env \<Longrightarrow> ?F env = 0"
    by (rule yields_eq [where F = "\<lambda>_. 0"])
      (use that yields_const [OF ok ty, of "zero_const R dt"] in \<open>simp_all add: reko_okD(7,8) [OF ok]\<close>)
  have zero_const': "yields R other val g (m_const R (zero_const R dt) g) ?b ?F"
    if "as_constant g right = Some c" "\<And>x. op_sem other op ?b x (val c) = 0" for c
    using rv [OF that(1)] that(2) by (intro zero) simp
  have left_const: "yields R other val g (left, g) ?b ?F"
    if "as_constant g right = Some c" "\<And>x. op_sem other op ?b x (val c) = take_bit ?b x" for c
    using rv [OF that(1)] that(2) lv by (intro the_left) simp
  have same: "yields R other val g (left, g) ?b ?F" if "left = right" "op = Op_And \<or> op = Op_Or"
  proof (rule the_left)
    fix env assume "valuation R other val g env"
    then show "?F env = env left" using that lv [of env] by (auto simp: logic_sem)
  qed
  have same_zero: "yields R other val g (m_const R (zero_const R dt) g) ?b ?F" if "left = right" "op = Op_Xor"
    by (rule zero) (use that in \<open>simp add: logic_sem\<close>)
  have add: "returns (\<lambda>res. yields R other val g res ?b ?F)
      (map_option (add_constant R dt op opposite cf) (fold_inner R inverted dt left right c g))"
    if ops: "(inverted, op, opposite) \<in> {(False, Op_IAdd, Op_ISub), (True, Op_ISub, Op_IAdd)}" and c: "as_constant g right = Some c"
    for inverted opposite c
  proof -
    obtain a where a: "fold_inner R inverted dt left right c g = Some a"
      "yields R other val g (add_constant R dt op opposite cf a) ?b (\<lambda>env. op_sem other op ?b (env left) (val c))"
      using fold_inner_value [OF ok ty l r c ops] by blast
    then have "yields R other val g (add_constant R dt op opposite cf a) ?b ?F" by (elim yields_eq) (simp add: rv [OF c])
    then show ?thesis using a(1) by simp
  qed
  consider "op = Op_IAdd" | "op = Op_ISub" | "op = Op_And" | "op = Op_Or" | "op = Op_Xor"
    | "op \<notin> {Op_IAdd, Op_ISub, Op_And, Op_Or, Op_Xor}" by blast
  then show ?thesis
  proof cases
    case 1
    then show ?thesis using add [of False Op_ISub] plain by (cases "as_constant g right") (simp_all add: bin_op_def)
  next
    case 2
    show ?thesis
    proof (cases "left = right")
      case True
      then show ?thesis using 2 zero by (simp add: bin_op_def op_sem_def)
    next
      case False
      then show ?thesis using 2 add [of True Op_IAdd] plain by (cases "as_constant g right") (simp_all add: bin_op_def)
    qed
  next
    case 3
    then show ?thesis using plain same same_zero
      by (auto simp: bin_op_def reko_okD(3,4) [OF ok] logic_sem size split: option.split intro: zero_const' [unfolded 3] left_const [unfolded 3])
  next
    case 4
    then show ?thesis using plain same same_zero
      by (auto simp: bin_op_def reko_okD(3) [OF ok] logic_sem split: option.split intro: left_const [unfolded 4])
  next
    case 5
    then show ?thesis using plain same same_zero
      by (auto simp: bin_op_def reko_okD(3) [OF ok] logic_sem split: option.split intro: left_const [unfolded 5])
  next
    case 6
    then have "bin_op R dt op cf left right (as_constant g right) g = Some (m_bin dt op cf left right g)"
      by (cases op) (simp_all add: bin_op_def)
    then show ?thesis using plain by simp
  qed
qed

lemma op_sem_commute: "\<lbrakk>reko_ok R other val; is_symmetric op\<rbrakk> \<Longrightarrow> op_sem other op b x y = op_sem other op b y x"
  using reko_okD(10) [of R other val op b x y]
  by (cases op) (auto simp: is_symmetric_def op_sem_def add.commute and.commute or.commute xor.commute)

text \<open>
  C23. The peephole optimizer returns and keeps the value: for operands of the size of the result in a well-typed graph, the
  node that \<open>Bin\<close> returns (an operand, a folded constant, or a new operation, possibly on the operand of an inner
  sum) has the value of the operation on the operands under every valuation of the resulting graph; old nodes keep
  their kind, type, inputs and value, the graph stays well-typed, and every valuation of the old graph extends.
\<close>

theorem bin_keeps_value:
  assumes ok: "reko_ok R other val" and ty: "typed R g"
    and l: "operand R g (bit_size R dt) left" and r: "operand R g (bit_size R dt) right"
  shows "\<exists>res. bin R dt op cf left right g = Some res \<and> yields R other val g res (bit_size R dt)
    (\<lambda>env. op_sem other op (bit_size R dt) (env left) (env right))"
proof -
  let ?b = "bit_size R dt"
  consider c1 c2 where "as_constant g left = Some c1" "as_constant g right = Some c2"
    | "\<not> (as_constant g left \<noteq> None \<and> as_constant g right \<noteq> None)" "is_symmetric op" "as_constant g left \<noteq> None"
    | "\<not> (as_constant g left \<noteq> None \<and> as_constant g right \<noteq> None)" "\<not> (is_symmetric op \<and> as_constant g left \<noteq> None)"
    by (cases "as_constant g left"; cases "as_constant g right") auto
  then show ?thesis
  proof cases
    case 1
    have le: "left < g_next g" "right < g_next g" using l r by (simp_all add: operand_def)
    have sizes: "bit_size R (const_type R c1) = ?b" "bit_size R (const_type R c2) = ?b"
      using as_constantD(2) [OF 1(1) le(1) ty] as_constantD(2) [OF 1(2) le(2) ty] l r by (simp_all add: operand_def)
    have "yields R other val g (m_const R (apply_constants R op dt c1 c2) g) ?b
        (\<lambda>env. op_sem other op ?b (env left) (env right))"
    proof (rule yields_eq)
      show "yields R other val g (m_const R (apply_constants R op dt c1 c2) g) ?b (\<lambda>_. op_sem other op ?b (val c1) (val c2))"
        using yields_const [OF ok ty, of "apply_constants R op dt c1 c2"]
        unfolding reko_okD(1) [OF ok] reko_okD(2) [OF ok sizes] .
    qed (simp add: as_constantD(3) [OF 1(1) le(1)] as_constantD(3) [OF 1(2) le(2)])
    then show ?thesis using 1 by (simp add: bin_def)
  next
    case 2
    then have "bin R dt op cf left right g = bin_op R dt op cf right left (as_constant g left) g"
      by (auto simp: bin_def)
    moreover obtain res where "bin_op R dt op cf right left (as_constant g left) g = Some res"
      "yields R other val g res ?b (\<lambda>env. op_sem other op ?b (env right) (env left))"
      using bin_op_value [OF ok ty r l, of op cf] by (rule returnsE)
    moreover have "yields R other val g res ?b (\<lambda>env. op_sem other op ?b (env left) (env right))"
      using calculation(3) by (rule yields_eq) (rule op_sem_commute [OF ok 2(2)])
    ultimately show ?thesis by simp
  next
    case 3
    then have "bin R dt op cf left right g = bin_op R dt op cf left right (as_constant g right) g"
      by (auto simp: bin_def split: option.split)
    then show ?thesis using bin_op_value [OF ok ty l r, of op cf] by (simp add: returns_iff)
  qed
qed


text \<open>A concrete Reko: a type is a size in bits, a constant a size and a number.\<close>

definition sample_value :: "nat \<times> int \<Rightarrow> int" where
  "sample_value c = take_bit (fst c) (snd c)"

definition sample_reko :: "(nat, nat \<times> int) reko" where
  "sample_reko = \<lparr>apply_constants = (\<lambda>op dt c d. (dt, op_sem (\<lambda>_ _ x y. x * y) op dt (sample_value c) (sample_value d))),
     const_type = fst, is_zero = (\<lambda>c. sample_value c = 0),
     is_negative = (\<lambda>c. 2 ^ fst c \<le> 2 * sample_value c),
     is_max_unsigned = (\<lambda>c. sample_value c = 2 ^ fst c - 1), negate = (\<lambda>c. (fst c, - sample_value c)),
     zero_const = (\<lambda>dt. (dt, 0)), bit_size = id, is_add_or_sub = (\<lambda>op. op = Op_IAdd \<or> op = Op_ISub)\<rparr>"

lemma sample_value_simps:
  "0 \<le> sample_value c" "sample_value c < 2 ^ fst c" "sample_value (b, x) = take_bit b x"
  "take_bit b (op_sem other op b x y) = op_sem other op b x y"
  by (simp_all add: sample_value_def op_sem_def)

lemma sample_reko_ok: "reko_ok sample_reko (\<lambda>_ _ x y. x * y) sample_value"
  by (auto simp: reko_ok_def sample_reko_def sample_value_simps mult.commute)

definition sum_graph :: "(nat, nat \<times> int, unit) graph" where
  "sum_graph = snd (m_const sample_reko (32, 5) (snd (m_bin 32 Op_IAdd None 0 1
     (snd (m_const sample_reko (32, 4) (snd (new_node DefNode 32 None [None] empty_graph)))))))"

lemma sum_graph_ok:
  "typed sample_reko sum_graph" "operand sample_reko sum_graph 32 2" "operand sample_reko sum_graph 32 3"
  by (auto simp: typed_def well_shaped_def operand_def sum_graph_def m_const_def m_bin_def new_node_def connect_def
      empty_graph_def ins_def sample_reko_def less_Suc_eq numeral_eq_Suc)

theorem bin_keeps_value_witness:
  "\<exists>res. bin sample_reko 32 Op_ISub None 2 3 sum_graph = Some res
    \<and> yields sample_reko (\<lambda>_ _ x y. x * y) sample_value sum_graph res 32
     (\<lambda>env. op_sem (\<lambda>_ _ x y. x * y) Op_ISub 32 (env 2) (env 3))"
  using bin_keeps_value [of sample_reko "\<lambda>_ _ x y. x * y" sample_value sum_graph 32 2 3 Op_ISub None]
    sample_reko_ok sum_graph_ok by (simp add: sample_reko_def)

lemma neg_keeps_value:
  assumes ty: "typed R g" and i: "operand R g (bit_size R dt) i"
  shows "\<exists>res. neg dt i g = Some res \<and> yields R other val g res (bit_size R dt) (\<lambda>env. take_bit (bit_size R dt) (- env i))"
proof (cases "n_kind (g_node g i) = UnaryNode Un_Neg")
  case True
  have le: "i < g_next g" "bit_size R (n_type (g_node g i)) = bit_size R dt" using i by (simp_all add: operand_def)
  have "well_shaped R g (UnaryNode Un_Neg) (n_type (g_node g i)) (ins g i)" using ty le True unfolding typed_def by metis
  then have o: "operand R g (bit_size R dt) (input_of g i 1)"
    and inp: "input_at g i 1 = Some (input_of g i 1)"
    using le by (auto simp: well_shaped_def operand_def input_of_def input_at_def ins_def)
  have "env (input_of g i 1) = take_bit (bit_size R dt) (- env i)" if v: "valuation R other val g env" for env
  proof -
    have "env i = take_bit (bit_size R dt) (- env (input_of g i 1))"
      using v le True unfolding valuation_def by (simp add: node_ok_def has_value_def)
    moreover have "take_bit (bit_size R dt) (env (input_of g i 1)) = env (input_of g i 1)"
      using valuation_range [OF v] o by (simp add: operand_def)
    ultimately show ?thesis by (simp add: take_bit_eq_mod mod_simps)
  qed
  then show ?thesis using True o inp yields_old [OF ty] by (simp add: neg_def operand_def)
next
  case False
  obtain n g' where new: "new_node (UnaryNode Un_Neg) dt None [None, Some i] g = (n, g')" by force
  have "yields R other val g (n, g') (bit_size R dt) (\<lambda>env. take_bit (bit_size R dt) (- env i))"
    using i by (intro yields_new [OF ty new]) (auto simp: well_shaped_def has_value_def operand_def)
  then show ?thesis using False new by (simp add: neg_def m_unary_def)
qed

text \<open>
  \<open>NodeValuePropagator.VisitBinaryNode\<close> replaces a node only by one of the same value.
\<close>

lemma visit_binary_node_keeps_value:
  assumes ok: "reko_ok R other val" and ty: "typed R g" and n: "n < g_next g" and v: "visit_binary_node R n g = Some res"
  shows "yields R other val g res (bit_size R (n_type (g_node g n))) (\<lambda>env. env n)"
proof -
  let ?b = "bit_size R (n_type (g_node g n))" and ?l = "input_of g n 1"
  let ?x = "input_of g ?l 1" and ?r = "input_of g n 2"
  obtain c1 c2 where k: "n_kind (g_node g n) = BinaryNode Op_IAdd" "n_kind (g_node g ?l) = BinaryNode Op_IAdd"
    "as_constant g (input_of g ?l 2) = Some c1" "as_constant g ?r = Some c2"
    and res: "res = (case m_const R (apply_constants R Op_IAdd (n_type (g_node g n)) c1 c2) g of
      (r, g') \<Rightarrow> m_bin (n_type (g_node g' ?x)) Op_IAdd None ?x r g')"
    using v unfolding visit_binary_node_def Let_def
    by (auto split: node_kind.splits option.splits if_splits prod.splits)
  note outer = binaryD [OF ty n k(1) disjI1 [OF refl]]
  have l: "?l < g_next g" "bit_size R (n_type (g_node g ?l)) = ?b" using outer(1) by (simp_all add: operand_def)
  note inner = binaryD [OF ty l(1) k(2) disjI1 [OF refl], unfolded l(2)]
  have le: "input_of g ?l 2 < g_next g" "?r < g_next g" using inner(2) outer(2) by (simp_all add: operand_def)
  have sizes: "bit_size R (const_type R c1) = ?b" "bit_size R (const_type R c2) = ?b"
    using as_constantD(2) [OF k(3) le(1) ty] as_constantD(2) [OF k(4) le(2) ty] inner(2) outer(2) by (simp_all add: operand_def)
  let ?c = "apply_constants R Op_IAdd (n_type (g_node g n)) c1 c2"
  obtain m g1 where m: "m_const R ?c g = (m, g1)" by force
  have y: "yields R other val g (m, g1) ?b (\<lambda>_. val ?c)"
    using yields_const [OF ok ty, of ?c] unfolding m by (simp add: reko_okD(1) [OF ok])
  have new: "operand R g1 ?b ?x" "operand R g1 ?b m" "typed R g1"
    using y operand_keeps [OF _ inner(1), of g1] by (auto simp: yields_def operand_def)
  let ?d = "n_type (g_node g1 ?x)"
  have d: "bit_size R ?d = ?b" using new(1) by (simp add: operand_def)
  have "yields R other val g1 (m_bin ?d Op_IAdd None ?x m g1) (bit_size R ?d)
      (\<lambda>env. op_sem other Op_IAdd (bit_size R ?d) (env ?x) (env m))"
    using new d by (intro yields_bin [OF new(3)]) (auto simp: operand_def)
  then have "yields R other val g (m_bin ?d Op_IAdd None ?x m g1) ?b (\<lambda>env. env n)"
    unfolding d
  proof (rule yields_trans [OF y])
    fix env assume ve: "valuation R other val g env" and vm: "env m = val ?c"
    have "env n = op_sem other Op_IAdd ?b (env ?l) (val c2)" "env ?l = op_sem other Op_IAdd ?b (env ?x) (val c1)"
      using outer(3) [OF ve] inner(3) [OF ve] as_constantD(3) [OF k(3) le(1) ve] as_constantD(3) [OF k(4) le(2) ve] by simp_all
    then show "op_sem other Op_IAdd ?b (env ?x) (env m) = env n"
      unfolding vm reko_okD(2) [OF ok sizes] by (simp add: op_sem_def take_bit_eq_mod mod_simps algebra_simps)
  qed
  then show ?thesis unfolding res m by simp
qed


definition nested_sum_graph :: "(nat, nat \<times> int, unit) graph" where
  "nested_sum_graph = snd (m_bin 32 Op_IAdd None 2 3 sum_graph)"

lemma nested_sum_graph_ok: "typed sample_reko nested_sum_graph"
  "g_next nested_sum_graph = 5" "\<exists>res. visit_binary_node sample_reko 4 nested_sum_graph = Some res"
proof -
  have "g_next sum_graph = 4"
    by (simp add: sum_graph_def m_const_def m_bin_def empty_graph_def)
  moreover have "yields sample_reko (\<lambda>_ _ x y. x * y) sample_value sum_graph (m_bin 32 Op_IAdd None 2 3 sum_graph)
      (bit_size sample_reko 32) (\<lambda>env. op_sem (\<lambda>_ _ x y. x * y) Op_IAdd (bit_size sample_reko 32) (env 2) (env 3))"
    using sum_graph_ok by (intro yields_bin) (auto simp: operand_def sample_reko_def)
  ultimately show "typed sample_reko nested_sum_graph" "g_next nested_sum_graph = 5"
    by (auto simp: nested_sum_graph_def yields_def m_bin_def split: prod.splits)
  show "\<exists>res. visit_binary_node sample_reko 4 nested_sum_graph = Some res"
    by (simp add: visit_binary_node_def nested_sum_graph_def sum_graph_def m_const_def m_bin_def new_node_def connect_def
      empty_graph_def input_of_def as_constant_def Let_def split: prod.split)
qed

theorem visit_binary_node_keeps_value_witness:
  "\<exists>res. visit_binary_node sample_reko 4 nested_sum_graph = Some res
    \<and> yields sample_reko (\<lambda>_ _ x y. x * y) sample_value nested_sum_graph res
        (bit_size sample_reko (n_type (g_node nested_sum_graph 4))) (\<lambda>env. env 4)"
  using visit_binary_node_keeps_value [of sample_reko "\<lambda>_ _ x y. x * y" sample_value nested_sum_graph 4]
    sample_reko_ok nested_sum_graph_ok by fastforce

end
