(* ===== verification/Sea_Seq.thy ===== *)
theory Sea_Seq
  imports Sea_Peephole "HOL-Library.Monad_Syntax"
begin

text \<open>
  \<open>seaofnodes/SeaOfNodes/Analysis/PeepholeOptimizer.Seq.cs\<close> and \<open>PeepholeOptimizer.Slice.cs\<close>: building
  a sequence (a concatenation of values, the most significant first) and a slice.  A node that was replaced has
  no inputs left; reading one of them raises, which is \<open>None\<close>.
\<close>

section \<open>The code\<close>

text \<open>
  What else the code uses of Reko: \<open>PrimitiveType.Create\<close> with the domain of a type, the constants'
  big integers, and sequence storages.
\<close>

record ('t, 'c, 's) reko_seq =
  base :: "('t, 'c) reko"
  resize :: "'t \<Rightarrow> nat \<Rightarrow> 't"
  create_const :: "'t \<Rightarrow> int \<Rightarrow> 'c"
  big_integer :: "'c \<Rightarrow> int"
  seq_elements :: "'s \<Rightarrow> 's list option"
  sequence_storage :: "'t \<Rightarrow> 's option list \<Rightarrow> 's"

abbreviation size_of :: "('t, 'c, 's) reko_seq \<Rightarrow> ('t, 'c, 's) graph \<Rightarrow> nat \<Rightarrow> nat" where
  "size_of X g i \<equiv> bit_size (base X) (n_type (g_node g i))"

definition m_slice :: "'t \<Rightarrow> nat \<Rightarrow> int \<Rightarrow> ('t, 'c, 's) graph \<Rightarrow> nat \<times> ('t, 'c, 's) graph" where
  "m_slice dt input offset = new_node (SliceNode offset) dt None [None, Some input]"

definition m_seq :: "'t \<Rightarrow> nat list \<Rightarrow> ('t, 'c, 's) graph \<Rightarrow> nat \<times> ('t, 'c, 's) graph" where
  "m_seq dt inputs = new_node SeqNode dt None (None # map Some inputs)"

definition m_def :: "nat option \<Rightarrow> 's \<Rightarrow> 't \<Rightarrow> ('t, 'c, 's) graph \<Rightarrow> nat \<times> ('t, 'c, 's) graph" where
  "m_def cf stg dt = new_node DefNode dt (Some stg) [cf]"

definition slice :: "('t, 'c, 's) reko_seq \<Rightarrow> 't \<Rightarrow> nat \<Rightarrow> int \<Rightarrow> ('t, 'c, 's) graph \<Rightarrow> nat \<times> ('t, 'c, 's) graph" where
  "slice X dt input offset g =
     (if offset = 0 \<and> bit_size (base X) dt = size_of X g input then (input, g) else m_slice dt input offset g)"

definition flatten_nested_sequences :: "('t, 'c, 's) graph \<Rightarrow> nat list \<Rightarrow> nat list" where
  "flatten_nested_sequences g inputs =
     concat (map (\<lambda>n. case n_kind (g_node g n) of SeqNode \<Rightarrow> List.map_filter id (drop 1 (n_inputs (g_node g n))) | _ \<Rightarrow> [n]) inputs)"

text \<open>The local variables \<open>curSlice\<close>, \<open>slicedNode\<close>, \<open>dom\<close> (as the first slice's type), \<open>bitsize\<close>, \<open>offset\<close>.\<close>

record 't slice_run =
  cur_slice :: nat
  sliced_node :: nat
  run_type :: 't
  run_bits :: nat
  run_offset :: int

definition slice_offset :: "('t, 'c, 's) graph \<Rightarrow> nat \<Rightarrow> int option" where
  "slice_offset g n = (case n_kind (g_node g n) of SliceNode off \<Rightarrow> Some off | _ \<Rightarrow> None)"

definition are_adjacent_slices :: "('t, 'c, 's) reko_seq \<Rightarrow> ('t, 'c, 's) graph \<Rightarrow> nat \<Rightarrow> nat \<Rightarrow> bool option" where
  "are_adjacent_slices X g hi lo = do {
     hi_input \<leftarrow> arr_get (n_inputs (g_node g hi)) 1;
     lo_input \<leftarrow> arr_get (n_inputs (g_node g lo)) 1;
     Some (hi_input = lo_input \<and> the (slice_offset g hi) = the (slice_offset g lo) + int (size_of X g lo))
   }"

definition emit_run :: "('t, 'c, 's) reko_seq \<Rightarrow> 't slice_run \<Rightarrow> ('t, 'c, 's) graph \<Rightarrow> nat \<times> ('t, 'c, 's) graph" where
  "emit_run X r g = slice X (resize X (run_type r) (run_bits r)) (sliced_node r) (run_offset r) g"

fun fuse_loop ::
  "('t, 'c, 's) reko_seq \<Rightarrow> nat list \<Rightarrow> 't slice_run option \<Rightarrow> nat list \<Rightarrow> ('t, 'c, 's) graph
    \<Rightarrow> (nat list \<times> ('t, 'c, 's) graph) option" where
  "fuse_loop X [] None acc g = Some (acc, g)"
| "fuse_loop X [] (Some r) acc g = (case emit_run X r g of (m, g') \<Rightarrow> Some (acc @ [m], g'))"
| "fuse_loop X (n # ns) cur acc g =
     (case (slice_offset g n, cur) of
        (Some off, None) \<Rightarrow>
          (case arr_get (n_inputs (g_node g n)) 1 of
             Some (Some input) \<Rightarrow>
               fuse_loop X ns (Some \<lparr>cur_slice = n, sliced_node = input, run_type = n_type (g_node g n),
                   run_bits = size_of X g n, run_offset = off\<rparr>) acc g
           | _ \<Rightarrow> None)
      | (Some off, Some r) \<Rightarrow> do {
          adjacent \<leftarrow> are_adjacent_slices X g (cur_slice r) n;
          if adjacent then
            fuse_loop X ns (Some (r\<lparr>run_bits := run_bits r + size_of X g n, run_offset := off\<rparr>)) acc g
          else (case emit_run X r g of (m, g') \<Rightarrow> fuse_loop X ns None (acc @ [m]) g')
        }
      | (None, Some r) \<Rightarrow> (case emit_run X r g of (m, g') \<Rightarrow> fuse_loop X ns None (acc @ [m]) g')
      | (None, None) \<Rightarrow> fuse_loop X ns None (acc @ [n]) g)"

definition fuse_adjacent_slices ::
  "('t, 'c, 's) reko_seq \<Rightarrow> nat list \<Rightarrow> ('t, 'c, 's) graph \<Rightarrow> (nat list \<times> ('t, 'c, 's) graph) option" where
  "fuse_adjacent_slices X nodes g = fuse_loop X nodes None [] g"

definition fuse_adjacent_constants ::
  "('t, 'c, 's) reko_seq \<Rightarrow> 't \<Rightarrow> nat list \<Rightarrow> ('t, 'c, 's) graph \<Rightarrow> (nat \<times> ('t, 'c, 's) graph) option" where
  "fuse_adjacent_constants X dt nodes g =
     (if list_all (\<lambda>n. as_constant g n \<noteq> None) nodes then
        let v = foldl (\<lambda>v n. push_bit (size_of X g n) v OR big_integer X (the (as_constant g n))) 0 nodes
        in Some (m_const (base X) (create_const X dt v) g)
      else None)"

definition make_sequence_storage :: "('t, 'c, 's) reko_seq \<Rightarrow> 't \<Rightarrow> 's option list \<Rightarrow> 's" where
  "make_sequence_storage X dt storages =
     sequence_storage X dt (concat (map (\<lambda>s. case s of None \<Rightarrow> [None]
        | Some st \<Rightarrow> (case seq_elements X st of None \<Rightarrow> [s] | Some es \<Rightarrow> map Some es)) storages))"

fun redefine_as_slices :: "('t, 'c, 's) reko_seq \<Rightarrow> nat \<Rightarrow> nat list \<Rightarrow> int \<Rightarrow> ('t, 'c, 's) graph \<Rightarrow> ('t, 'c, 's) graph" where
  "redefine_as_slices X fused [] off g = g"
| "redefine_as_slices X fused (d # ds) off g =
     (case slice X (n_type (g_node g d)) fused off g of (sl, g1) \<Rightarrow>
        let g2 = replace d sl g1
        in redefine_as_slices X fused ds (off + int (size_of X g2 d)) g2)"

fun same_control ::
  "('t, 'c, 's) graph \<Rightarrow> nat option \<Rightarrow> nat list \<Rightarrow> bool option" where
  "same_control g cf [] = Some True"
| "same_control g cf (n # ns) = do {
     input \<leftarrow> arr_get (n_inputs (g_node g n)) 0;
     if input = cf then same_control g cf ns else Some False
   }"

text \<open>\<open>Some None\<close> is the result null.\<close>

definition fuse_defs ::
  "('t, 'c, 's) reko_seq \<Rightarrow> 't \<Rightarrow> nat list \<Rightarrow> ('t, 'c, 's) graph \<Rightarrow> (nat \<times> ('t, 'c, 's) graph) option option" where
  "fuse_defs X dt nodes g =
     (if list_all (\<lambda>n. n_kind (g_node g n) = DefNode) nodes then do {
        first \<leftarrow> arr_get nodes 0;
        cf \<leftarrow> arr_get (n_inputs (g_node g first)) 0;
        same \<leftarrow> same_control g cf nodes;
        if same then
          let stg = make_sequence_storage X dt (map (\<lambda>n. n_storage (g_node g n)) nodes)
          in case m_def cf stg dt g of (fused, g1) \<Rightarrow>
               Some (Some (fused, redefine_as_slices X fused (rev nodes) 0 g1))
        else Some None
      }
      else Some None)"

definition seq ::
  "('t, 'c, 's) reko_seq \<Rightarrow> 't \<Rightarrow> nat list \<Rightarrow> ('t, 'c, 's) graph \<Rightarrow> (nat \<times> ('t, 'c, 's) graph) option" where
  "seq X dt inputs g = do {
     (nodes, g1) \<leftarrow> fuse_adjacent_slices X (flatten_nested_sequences g inputs) g;
     if length nodes = 1 then Some (nodes ! 0, g1)
     else
       case fuse_adjacent_constants X dt nodes g1 of
         Some res \<Rightarrow> Some res
       | None \<Rightarrow> do {
           def \<leftarrow> fuse_defs X dt nodes g1;
           Some (case def of Some res \<Rightarrow> res | None \<Rightarrow> m_seq dt nodes g1)
         }
   }"

section \<open>What it keeps\<close>

text \<open>A node other than a sequence, so that the flattening leaves it alone.\<close>

definition plain :: "('t, 'c, 's) graph \<Rightarrow> nat \<Rightarrow> bool" where
  "plain g n \<longleftrightarrow> n_kind (g_node g n) \<noteq> SeqNode"

lemma flatten_plain: "\<forall>n \<in> set ns. plain g n \<Longrightarrow> flatten_nested_sequences g ns = ns"
  by (induction ns) (auto simp: flatten_nested_sequences_def plain_def split: node_kind.splits)

lemma slice_offset_plain: "slice_offset g n = Some off \<Longrightarrow> plain g n"
  by (auto simp: slice_offset_def plain_def)

text \<open>A slice of the node \<open>x\<close> at \<open>off\<close> that has its inputs.\<close>

definition slices :: "('t, 'c, 's) graph \<Rightarrow> nat \<Rightarrow> nat \<Rightarrow> int \<Rightarrow> bool" where
  "slices g n x off \<longleftrightarrow> slice_offset g n = Some off \<and> arr_get (n_inputs (g_node g n)) 1 = Some (Some x)"

lemma slices_plain: "slices g n x off \<Longrightarrow> plain g n"
  by (simp add: slices_def slice_offset_plain)

lemma adjacent_slices:
  assumes "slices g hi x a" "slices g lo y b"
  shows "are_adjacent_slices X g hi lo = Some (x = y \<and> a = b + int (size_of X g lo))"
  using assms by (simp add: slices_def are_adjacent_slices_def)

lemma seq_of_run:
  assumes "\<forall>n \<in> set ns. plain g n" "fuse_loop X ns None [] g = (case emit_run X r g of (m, g') \<Rightarrow> Some ([m], g'))"
  shows "seq X dt ns g = Some (emit_run X r g)"
  using assms by (cases "emit_run X r g") (simp add: seq_def fuse_adjacent_slices_def flatten_plain)

lemma seq_drops_after_slice:
  assumes s: "slices g s x0 off" and x: "plain g x"
    and "slice_offset g x = None \<or> (\<exists>y b. slices g x y b \<and> \<not> (x0 = y \<and> off = b + int (size_of X g x)))"
  shows "seq X dt [s, x] g = seq X dt [s] g"
proof -
  let ?r = "\<lparr>cur_slice = s, sliced_node = x0, run_type = n_type (g_node g s),
              run_bits = size_of X g s, run_offset = off\<rparr>"
  have "seq X dt [s, x] g = Some (emit_run X ?r g)"
    using assms(3)
  proof (elim disjE exE conjE)
    assume "slice_offset g x = None"
    then show ?thesis
      using s x slices_plain [OF s] by (intro seq_of_run) (auto simp: slices_def split: prod.split)
  next
    fix y b assume y: "slices g x y b" "\<not> (x0 = y \<and> off = b + int (size_of X g x))"
    then have "are_adjacent_slices X g s x = Some False" using adjacent_slices [OF s y(1)] by simp
    moreover have "slice_offset g x = Some b" using y(1) by (simp add: slices_def)
    ultimately show ?thesis
      using s x slices_plain [OF s] by (intro seq_of_run) (auto simp: slices_def split: prod.split)
  qed
  moreover have "seq X dt [s] g = Some (emit_run X ?r g)"
    using s slices_plain [OF s] by (intro seq_of_run) (auto simp: slices_def split: prod.split)
  ultimately show ?thesis by simp
qed

lemma seq_of_two_slices:
  assumes s: "slices g hi x a" "slices g lo x b" and adj: "a = b + int (size_of X g lo)"
  shows "seq X dt [hi, lo] g = Some (emit_run X \<lparr>cur_slice = hi, sliced_node = x, run_type = n_type (g_node g hi),
              run_bits = size_of X g hi + size_of X g lo, run_offset = b\<rparr> g)"
proof -
  have "are_adjacent_slices X g hi lo = Some True" using adjacent_slices [OF s] adj by simp
  then show ?thesis
    using s slices_plain [OF s(1)] slices_plain [OF s(2)]
    by (intro seq_of_run) (auto simp: slices_def split: prod.split)
qed

lemma seq_drops_third_slice:
  assumes s: "slices g hi x a" "slices g mid x b" "slices g lo x c"
    and pos: "0 < size_of X g mid" and adj: "a = b + int (size_of X g mid)" "b = c + int (size_of X g lo)"
  shows "seq X dt [hi, mid, lo] g = seq X dt [hi, mid] g"
proof -
  have "are_adjacent_slices X g hi mid = Some True" "are_adjacent_slices X g hi lo = Some False"
    using adjacent_slices [OF s(1,2)] adjacent_slices [OF s(1,3)] adj pos by simp_all
  then have "seq X dt [hi, mid, lo] g = Some (emit_run X \<lparr>cur_slice = hi, sliced_node = x, run_type = n_type (g_node g hi),
              run_bits = size_of X g hi + size_of X g mid, run_offset = b\<rparr> g)"
    using s slices_plain [OF s(1)] slices_plain [OF s(2)] slices_plain [OF s(3)]
    by (intro seq_of_run) (auto simp: slices_def split: prod.split)
  then show ?thesis using seq_of_two_slices [OF s(1,2) adj(1)] by simp
qed


text \<open>
  C25. \<open>FuseAdjacentSlices\<close> loses operands: a sequence of a slice and another node that does not continue
  it is the sequence of the slice alone, and of three adjacent slices the last one is lost.
\<close>

theorem seq_loses_operands:
  "(slices g s x0 off \<and> plain g x
        \<and> (slice_offset g x = None \<or> (\<exists>y b. slices g x y b \<and> \<not> (x0 = y \<and> off = b + int (size_of X g x))))
      \<longrightarrow> seq X dt [s, x] g = seq X dt [s] g)
    \<and> (slices g hi y a \<and> slices g mid y b \<and> slices g lo y c \<and> 0 < size_of X g mid
        \<and> a = b + int (size_of X g mid) \<and> b = c + int (size_of X g lo)
      \<longrightarrow> seq X dt [hi, mid, lo] g = seq X dt [hi, mid] g)"
  by (intro conjI impI; elim conjE) (rule seq_drops_after_slice seq_drops_third_slice; assumption)+

definition sample_seq :: "(nat, nat \<times> int, unit) reko_seq" where
  "sample_seq = \<lparr>base = sample_reko, resize = (\<lambda>_ b. b), create_const = Pair, big_integer = sample_value,
     seq_elements = (\<lambda>_. None), sequence_storage = (\<lambda>_ _. ())\<rparr>"

lemma sample_seq_simps [simp]: "resize sample_seq t b = b" "bit_size (base sample_seq) t = t"
  by (simp_all add: sample_seq_def sample_reko_def)

text \<open>A definition of 32 bits, its high and low halves, its lowest byte, the byte above it, and a definition of 16 bits.\<close>

definition slice_graph :: "(nat, nat \<times> int, unit) graph" where
  "slice_graph = snd (m_def None () 16 (snd (m_slice 8 0 8 (snd (m_slice 8 0 0 (snd (m_slice 16 0 0
     (snd (m_slice 16 0 16 (snd (m_def None () 32 empty_graph)))))))))))"

lemma slice_graph_fields:
  "g_next slice_graph = 6" "slice_offset slice_graph 1 = Some 16" "slice_offset slice_graph 2 = Some 0"
  "slice_offset slice_graph 3 = Some 0" "slice_offset slice_graph 4 = Some 8" "slice_offset slice_graph 5 = None"
  "slice_offset slice_graph 0 = None" "plain slice_graph 5"
  "n_inputs (g_node slice_graph 1) = [None, Some 0]" "n_inputs (g_node slice_graph 2) = [None, Some 0]"
  "n_inputs (g_node slice_graph 3) = [None, Some 0]" "n_inputs (g_node slice_graph 4) = [None, Some 0]"
  "size_of sample_seq slice_graph 0 = 32" "size_of sample_seq slice_graph 1 = 16"
  "size_of sample_seq slice_graph 2 = 16" "size_of sample_seq slice_graph 3 = 8"
  "size_of sample_seq slice_graph 4 = 8" "size_of sample_seq slice_graph 5 = 16"
  by (simp_all add: slice_graph_def m_def_def m_slice_def new_node_def connect_def empty_graph_def slice_offset_def
    plain_def)

lemma slice_graph_slices:
  "slices slice_graph 1 0 16" "slices slice_graph 2 0 0" "slices slice_graph 3 0 0" "slices slice_graph 4 0 8"
  using slice_graph_fields by (simp_all add: slices_def)

theorem seq_loses_operands_witness:
  "seq sample_seq 32 [1, 5] slice_graph = seq sample_seq 32 [1] slice_graph
    \<and> seq sample_seq 32 [1, 4, 3] slice_graph = seq sample_seq 32 [1, 4] slice_graph"
  using seq_loses_operands [of slice_graph 1 0 16 5 sample_seq 32 1 0 16 4 8 3 0] slice_graph_fields slice_graph_slices
  by simp

text \<open>Values of slices and ranges of all values.\<close>

definition slice_valuation :: "('t, 'c, 's) reko_seq \<Rightarrow> ('t, 'c, 's) graph \<Rightarrow> (nat \<Rightarrow> int) \<Rightarrow> bool" where
  "slice_valuation X g env \<longleftrightarrow> (\<forall>i < g_next g. 0 \<le> env i \<and> env i < 2 ^ size_of X g i
     \<and> (\<forall>off. slice_offset g i = Some off \<longrightarrow>
          0 \<le> off \<and> env i = take_bit (size_of X g i) (drop_bit (nat off) (env (input_of g i 1)))))"

lemma concat_slices:
  "take_bit h (drop_bit (o' + l) x) * 2 ^ l + take_bit l (drop_bit o' x) = take_bit (h + l) (drop_bit o' (x :: int))"
proof -
  have "take_bit (h + l) y = push_bit l (take_bit h (drop_bit l y)) + take_bit l y" for y :: int
    by (metis add.commute bits_ident drop_bit_take_bit add_diff_cancel_right' take_bit_take_bit min.absorb1 le_add2)
  from this [of "drop_bit o' x"] show ?thesis
    by (simp add: push_bit_eq_mult drop_bit_drop_bit add.commute mult.commute)
qed

text \<open>
  The sequence of two adjacent slices of one node is that node or one slice of it, and has the value and
  the size of the concatenation.
\<close>

lemma seq_joins_two_slices:
  assumes s: "slices g hi x a" "slices g lo x b" and off: "a = b + int (size_of X g lo)"
    and le: "hi < g_next g" "lo < g_next g" "x < g_next g"
    and resize: "\<And>t b. bit_size (base X) (resize X t b) = b"
    and res: "seq X dt [hi, lo] g = Some (n, g')" and v: "slice_valuation X g' env"
  shows "env n = env hi * 2 ^ size_of X g lo + env lo \<and> size_of X g' n = size_of X g hi + size_of X g lo"
proof -
  let ?h = "size_of X g hi" and ?l = "size_of X g lo"
  have e: "slice X (resize X (n_type (g_node g hi)) (?h + ?l)) x b g = (n, g')"
    using seq_of_two_slices [OF s off, of dt] res by (simp add: emit_run_def)
  have so1: "slice_offset g hi = Some a" "slice_offset g lo = Some b" using s by (simp_all add: slices_def)
  have inp1: "input_of g hi 1 = x" "input_of g lo 1 = x"
    using s by (auto simp: slices_def input_of_def arr_get_def split: if_splits)
  show ?thesis
  proof (cases "b = 0 \<and> ?h + ?l = size_of X g x")
    case True
    then have "(n, g') = (x, g)" using e resize by (simp only: slice_def simp_thms if_True)
    then have ng: "n = x" "g' = g" by simp_all
    have vals: "env hi = take_bit ?h (drop_bit (nat a) (env x))" "env lo = take_bit ?l (drop_bit (nat b) (env x))"
      "0 \<le> env x" "env x < 2 ^ size_of X g x"
      using v so1 inp1 le unfolding ng slice_valuation_def by auto
    then have "take_bit (?h + ?l) (env x) = env x" using True by (simp add: take_bit_int_eq_self)
    then show ?thesis using vals(1,2) concat_slices [of ?h 0 ?l "env x"] True off ng by (simp add: mult.commute)
  next
    case False
    then have new: "new_node (SliceNode b) (resize X (n_type (g_node g hi)) (?h + ?l)) None [None, Some x] g = (n, g')"
      using e resize by (auto simp: slice_def m_slice_def)
    note f = new_node_fields [OF new]
    have so: "slice_offset g' n = Some b" "slice_offset g' hi = Some a" "slice_offset g' lo = Some b"
      using f(3,6) so1 le by (simp_all add: slice_offset_def)
    have inp: "input_of g' n 1 = x" "input_of g' hi 1 = x" "input_of g' lo 1 = x"
      using f(5,8) le inp1 by (simp_all add: input_of_def ins_def)
    have size: "size_of X g' n = ?h + ?l" "size_of X g' hi = ?h" "size_of X g' lo = ?l"
      using f(4,7) le resize by simp_all
    have lt: "n < g_next g'" "hi < g_next g'" "lo < g_next g'" using f(1,2) le by simp_all
    have vals: "env n = take_bit (?h + ?l) (drop_bit (nat b) (env x))" "env hi = take_bit ?h (drop_bit (nat a) (env x))"
      "env lo = take_bit ?l (drop_bit (nat b) (env x))" "0 \<le> b"
      using v so inp size lt unfolding slice_valuation_def by metis+
    have "nat a = nat b + ?l" using off vals(4) by simp
    then show ?thesis using vals concat_slices [of ?h "nat b" ?l "env x"] size by (simp add: mult.commute)
  qed
qed


theorem seq_joins_two_slices_witness:
  "\<exists>n g' env. seq sample_seq 32 [1, 2] slice_graph = Some (n, g') \<and> env n = env 1 * 2 ^ 16 + (env 2 :: int) \<and> env 1 = 4660"
proof -
  let ?env = "(\<lambda>i. [305419896, 4660, 22136, 120, 86, 7] ! i) :: nat \<Rightarrow> int"
  have "flatten_nested_sequences slice_graph [1, 2] = [1, 2]"
    using slice_offset_plain [OF slice_graph_fields(2)] slice_offset_plain [OF slice_graph_fields(3)]
    by (intro flatten_plain) simp
  then have "seq sample_seq 32 [1, 2] slice_graph = Some (0, slice_graph)"
    using seq_of_two_slices [OF slice_graph_slices(1,2), of sample_seq 32] slice_graph_fields
    by (simp add: emit_run_def slice_def)
  moreover have "slice_valuation sample_seq slice_graph ?env"
    using slice_graph_fields
    by (auto simp: slice_valuation_def less_Suc_eq numeral_eq_Suc input_of_def take_bit_eq_mod drop_bit_eq_div)
  ultimately show ?thesis
    using seq_joins_two_slices [of slice_graph 1 0 16 2 0 sample_seq 32 0 slice_graph ?env] slice_graph_fields slice_graph_slices
    by (intro exI [of _ 0] exI [of _ slice_graph] exI [of _ ?env]) simp
qed

end
