(* ===== verification/Sea_Test.thy ===== *)
theory Sea_Test
  imports Sea_Peephole
begin

text \<open>
  \<open>seaofnodes/SeaOfNodes/Analysis/NodeValuePropagator.Test.cs\<close>: a test of condition codes becomes a
  comparison of the operands of the subtraction that set them, through phi nodes.  Reko's \<open>WorkList\<close> is
  the record \<open>worklist\<close>, an argument; so is the type of the new nodes, \<open>PrimitiveType.Bool\<close>.
\<close>

section \<open>Reaching condition-code definitions\<close>

record 'w worklist =
  wl_new :: 'w
  wl_add :: "nat \<Rightarrow> 'w \<Rightarrow> 'w"
  wl_take :: "'w \<Rightarrow> (nat \<times> 'w) option"

definition is_cf_node :: "'c node_kind \<Rightarrow> bool" where
  "is_cf_node k =
     (case k of BlockNode \<Rightarrow> True | CallNode \<Rightarrow> True | IfNode \<Rightarrow> True | ReturnNode \<Rightarrow> True | SwitchNode \<Rightarrow> True
      | StartNode \<Rightarrow> True | _ \<Rightarrow> False)"

definition get_data_input_start_index :: "('t, 'c, 's) graph \<Rightarrow> nat \<Rightarrow> nat" where
  "get_data_input_start_index g n =
     (case ins g n of Some i # _ \<Rightarrow> if is_cf_node (n_kind (g_node g i)) then 1 else 0 | _ \<Rightarrow> 0)"

definition add_inputs :: "'w worklist \<Rightarrow> nat option list \<Rightarrow> 'w \<Rightarrow> 'w" where
  "add_inputs W = fold (\<lambda>i w. case i of None \<Rightarrow> w | Some d \<Rightarrow> wl_add W d w)"

partial_function (option) find_conds_loop ::
  "'w worklist \<Rightarrow> ('t, 'c, 's) graph \<Rightarrow> 'w \<Rightarrow> nat set \<Rightarrow> nat set \<Rightarrow> nat set option" where
  "find_conds_loop W g w visited result =
     (case wl_take W w of
        None \<Rightarrow> Some result
      | Some (n, w') \<Rightarrow>
          if n \<in> visited then find_conds_loop W g w' visited result
          else if n_kind (g_node g n) = CondNode then find_conds_loop W g w' (insert n visited) (insert n result)
          else find_conds_loop W g (add_inputs W (drop (get_data_input_start_index g n) (ins g n)) w')
                 (insert n visited) result)"

definition find_reaching_conds :: "'w worklist \<Rightarrow> ('t, 'c, 's) graph \<Rightarrow> nat \<Rightarrow> nat set option" where
  "find_reaching_conds W g start = find_conds_loop W g (wl_add W start (wl_new W)) {} {}"

section \<open>The comparison\<close>

datatype test_error = Invalid_Operation | Not_Implemented | Argument_Out_Of_Range

definition cc_operator :: "condition_code \<Rightarrow> op_type option" where
  "cc_operator cc =
     (case cc of CC_EQ \<Rightarrow> Some Op_Eq | CC_NE \<Rightarrow> Some Op_Ne | CC_LT \<Rightarrow> Some Op_Lt | CC_LE \<Rightarrow> Some Op_Le
      | CC_GT \<Rightarrow> Some Op_Gt | CC_GE \<Rightarrow> Some Op_Ge | CC_ULT \<Rightarrow> Some Op_Ult | CC_ULE \<Rightarrow> Some Op_Ule
      | CC_UGT \<Rightarrow> Some Op_Ugt | CC_UGE \<Rightarrow> Some Op_Uge | CC_Other _ \<Rightarrow> None)"

definition as_isub :: "('t, 'c, 's) graph \<Rightarrow> nat option \<Rightarrow> nat option" where
  "as_isub g input =
     (case input of None \<Rightarrow> None | Some n \<Rightarrow> if n_kind (g_node g n) = BinaryNode Op_ISub then Some n else None)"

text \<open>\<open>m.Bin\<close> with operands that may be null: the constructor of \<open>Node\<close> refuses the first and skips the second.\<close>

definition rewrite_cond_to_comparison ::
  "'t \<Rightarrow> condition_code \<Rightarrow> nat \<Rightarrow> ('t, 'c, 's) graph \<Rightarrow> test_error + nat \<times> ('t, 'c, 's) graph" where
  "rewrite_cond_to_comparison bool_type cc cond g =
     (case arr_get (ins g cond) 1 of
        None \<Rightarrow> Inl Argument_Out_Of_Range
      | Some input \<Rightarrow>
          (case as_isub g input of
             None \<Rightarrow> Inl Not_Implemented
           | Some sub \<Rightarrow>
               (case cc_operator cc of
                  None \<Rightarrow> Inl Not_Implemented
                | Some op \<Rightarrow>
                    (case (arr_get (ins g sub) 1, arr_get (ins g sub) 2) of
                       (Some (Some left), Some (Some right)) \<Rightarrow> Inr (m_bin bool_type op None left right g)
                     | (Some (Some left), Some None) \<Rightarrow> Inr (new_node (BinaryNode op) bool_type None [None, Some left] g)
                     | (Some None, Some _) \<Rightarrow> Inl Invalid_Operation
                     | _ \<Rightarrow> Inl Argument_Out_Of_Range))))"

section \<open>The explicit stack\<close>

datatype rewrite_stage = Enter | Process_Phi | Await_Child | Done

record rewrite_frame =
  f_node :: nat
  f_stage :: rewrite_stage
  f_phi :: "nat option"
  f_pushed :: "nat option"
  f_child :: nat
  f_result :: "nat option"

record ('t, 'c, 's) rewrite_state =
  r_active :: "nat set"
  r_stack :: "rewrite_frame list"
  r_last :: "nat option"
  r_graph :: "('t, 'c, 's) graph"

definition new_frame :: "nat \<Rightarrow> rewrite_frame" where
  "new_frame n = \<lparr>f_node = n, f_stage = Enter, f_phi = None, f_pushed = None, f_child = 0, f_result = None\<rparr>"

definition m_phi :: "'t \<Rightarrow> nat \<Rightarrow> ('t, 'c, 's) graph \<Rightarrow> nat \<times> ('t, 'c, 's) graph" where
  "m_phi dt cf = new_node PhiNode dt None [Some cf]"

text \<open>The frame is done with this result; the result of a node that is not a phi node.\<close>

definition finish :: "nat option \<Rightarrow> rewrite_frame \<Rightarrow> rewrite_frame" where
  "finish result f = f\<lparr>f_result := result, f_stage := Done\<rparr>"

definition leaf_result ::
  "'w worklist \<Rightarrow> 't \<Rightarrow> condition_code \<Rightarrow> nat \<Rightarrow> ('t, 'c, 's) graph \<Rightarrow> (test_error + nat option \<times> ('t, 'c, 's) graph) option" where
  "leaf_result W bool_type cc n g =
     (let result = \<lambda>cond. map_sum id (map_prod Some id) (rewrite_cond_to_comparison bool_type cc cond g)
      in if n_kind (g_node g n) = CondNode then Some (result n)
         else map_option (\<lambda>conds. if card conds \<noteq> 1 then Inr (None, g) else result (the_elem conds))
                (find_reaching_conds W g n))"

text \<open>One turn of the loop on the top frame \<open>f\<close> of the stack; None if a search does not return.\<close>

definition rewrite_step ::
  "'w worklist \<Rightarrow> 't \<Rightarrow> condition_code \<Rightarrow> rewrite_frame \<Rightarrow> rewrite_frame list \<Rightarrow> ('t, 'c, 's) rewrite_state
    \<Rightarrow> (test_error + ('t, 'c, 's) rewrite_state) option" where
  "rewrite_step W bool_type cc f rest s =
     (let g = r_graph s in
      case f_stage f of
        Enter \<Rightarrow>
          if f_node f \<in> r_active s then Some (Inr (s\<lparr>r_stack := finish None f # rest\<rparr>))
          else
            let s' = s\<lparr>r_active := insert (f_node f) (r_active s)\<rparr> in
            if n_kind (g_node g (f_node f)) = PhiNode then
              if length (ins g (f_node f)) < 2 then Some (Inr (s'\<lparr>r_stack := finish None f # rest\<rparr>))
              else
                case ins g (f_node f) ! 0 of
                  None \<Rightarrow> Some (Inr (s'\<lparr>r_stack := finish None f # rest\<rparr>))
                | Some cf \<Rightarrow>
                    let (p, g') = m_phi bool_type cf g
                    in Some (Inr (s'\<lparr>r_stack := f\<lparr>f_phi := Some (f_node f), f_pushed := Some p, f_child := 1,
                                        f_stage := Process_Phi\<rparr> # rest, r_graph := g'\<rparr>))
            else map_option (map_sum id (\<lambda>(result, g'). s'\<lparr>r_stack := finish result f # rest, r_graph := g'\<rparr>))
                   (leaf_result W bool_type cc (f_node f) g)
      | Process_Phi \<Rightarrow>
          (case f_phi f of
             None \<Rightarrow> Some (Inl Invalid_Operation)
           | Some phi \<Rightarrow>
               if length (ins g phi) \<le> f_child f then Some (Inr (s\<lparr>r_stack := finish (f_pushed f) f # rest\<rparr>))
               else
                 case ins g phi ! f_child f of
                   None \<Rightarrow> Some (Inr (s\<lparr>r_stack := finish None f # rest\<rparr>))
                 | Some m \<Rightarrow> Some (Inr (s\<lparr>r_stack := new_frame m # f\<lparr>f_stage := Await_Child\<rparr> # rest\<rparr>)))
      | Await_Child \<Rightarrow>
          (case r_last s of
             None \<Rightarrow> Some (Inr (s\<lparr>r_stack := finish None f # rest\<rparr>))
           | Some result \<Rightarrow>
               (case f_pushed f of
                  None \<Rightarrow> Some (Inl Invalid_Operation)
                | Some p \<Rightarrow> Some (Inr (s\<lparr>r_stack := f\<lparr>f_child := f_child f + 1, f_stage := Process_Phi\<rparr> # rest,
                      r_graph := add_edge (Some result) p g\<rparr>))))
      | Done \<Rightarrow> Some (Inr (s\<lparr>r_last := f_result f, r_active := r_active s - {f_node f}, r_stack := rest\<rparr>)))"

partial_function (option) rewrite_loop ::
  "'w worklist \<Rightarrow> 't \<Rightarrow> condition_code \<Rightarrow> ('t, 'c, 's) rewrite_state
    \<Rightarrow> (test_error + nat option \<times> ('t, 'c, 's) graph) option" where
  "rewrite_loop W bool_type cc s =
     (case r_stack s of
        [] \<Rightarrow> Some (Inr (r_last s, r_graph s))
      | f # rest \<Rightarrow>
          (case rewrite_step W bool_type cc f rest s of
             None \<Rightarrow> None
           | Some (Inl e) \<Rightarrow> Some (Inl e)
           | Some (Inr s') \<Rightarrow> rewrite_loop W bool_type cc s'))"

definition rewrite_test_from_cc_node ::
  "'w worklist \<Rightarrow> 't \<Rightarrow> condition_code \<Rightarrow> nat \<Rightarrow> ('t, 'c, 's) graph \<Rightarrow> (test_error + nat option \<times> ('t, 'c, 's) graph) option" where
  "rewrite_test_from_cc_node W bool_type cc cc_node g =
     rewrite_loop W bool_type cc \<lparr>r_active = {}, r_stack = [new_frame cc_node], r_last = None, r_graph = g\<rparr>"

definition visit_test_node ::
  "'w worklist \<Rightarrow> 't \<Rightarrow> condition_code \<Rightarrow> nat \<Rightarrow> ('t, 'c, 's) graph \<Rightarrow> (test_error + nat option \<times> ('t, 'c, 's) graph) option" where
  "visit_test_node W bool_type cc n g =
     (case arr_get (ins g n) 1 of
        None \<Rightarrow> Some (Inl Argument_Out_Of_Range)
      | Some None \<Rightarrow> Some (Inl Invalid_Operation)
      | Some (Some cc_node) \<Rightarrow> rewrite_test_from_cc_node W bool_type cc cc_node g)"

declare find_conds_loop.simps [code] rewrite_loop.simps [code]

section \<open>The search finds the reaching definitions\<close>

text \<open>What is documented of the work list: a queue without duplicates; \<open>items w\<close> is its content.\<close>

definition worklist_ok :: "'w worklist \<Rightarrow> ('w \<Rightarrow> nat multiset) \<Rightarrow> bool" where
  "worklist_ok W items \<longleftrightarrow> items (wl_new W) = {#}
     \<and> (\<forall>x w. items (wl_add W x w) = (if x \<in># items w then items w else add_mset x (items w)))
     \<and> (\<forall>w. case wl_take W w of None \<Rightarrow> items w = {#} | Some (x, w') \<Rightarrow> items w = add_mset x (items w'))"

definition fifo :: "nat list worklist" where
  "fifo = \<lparr>wl_new = [], wl_add = (\<lambda>x w. if x \<in> set w then w else w @ [x]),
     wl_take = (\<lambda>w. case w of [] \<Rightarrow> None | x # xs \<Rightarrow> Some (x, xs))\<rparr>"

lemma fifo_ok: "worklist_ok fifo mset"
  by (auto simp: worklist_ok_def fifo_def split: list.split)

lemma worklist_okD:
  assumes "worklist_ok W items"
  shows "items (wl_new W) = {#}" "set_mset (items (wl_add W x w)) = insert x (set_mset (items w))"
    "size (items (wl_add W x w)) \<le> Suc (size (items w))" "wl_take W w = None \<Longrightarrow> items w = {#}"
    "wl_take W w = Some (y, w') \<Longrightarrow> items w = add_mset y (items w')"
  using assms unfolding worklist_ok_def by (auto split: option.splits dest: spec [of _ w])

text \<open>The nodes the search visits from \<open>s\<close>: it does not look past a definition of condition codes.\<close>

definition data_inputs :: "('t, 'c, 's) graph \<Rightarrow> nat \<Rightarrow> nat set" where
  "data_inputs g n = {d. Some d \<in> set (drop (get_data_input_start_index g n) (ins g n))}"

inductive data_reach :: "('t, 'c, 's) graph \<Rightarrow> nat \<Rightarrow> nat \<Rightarrow> bool" for g s where
  start: "data_reach g s s"
| input: "\<lbrakk>data_reach g s n; n_kind (g_node g n) \<noteq> CondNode; d \<in> data_inputs g n\<rbrakk> \<Longrightarrow> data_reach g s d"

definition reaching_conds :: "('t, 'c, 's) graph \<Rightarrow> nat \<Rightarrow> nat set" where
  "reaching_conds g s = {n. data_reach g s n \<and> n_kind (g_node g n) = CondNode}"

definition inputs_below :: "nat \<Rightarrow> ('t, 'c, 's) graph \<Rightarrow> bool" where
  "inputs_below N g \<longleftrightarrow> (\<forall>n < N. \<forall>d. Some d \<in> set (ins g n) \<longrightarrow> d < N)"

lemma inputs_belowD: "\<lbrakk>inputs_below N g; n < N; d \<in> data_inputs g n\<rbrakk> \<Longrightarrow> d < N"
  unfolding inputs_below_def data_inputs_def by (auto dest: in_set_dropD)

lemma data_reach_below: "\<lbrakk>data_reach g s n; inputs_below N g; s < N\<rbrakk> \<Longrightarrow> n < N"
  by (induction rule: data_reach.induct) (auto dest: inputs_belowD)

lemma add_inputs_items:
  assumes "worklist_ok W items"
  shows "set_mset (items (add_inputs W ds w)) = {d. Some d \<in> set ds} \<union> set_mset (items w)"
    "size (items (add_inputs W ds w)) \<le> length ds + size (items w)"
proof -
  show "set_mset (items (add_inputs W ds w)) = {d. Some d \<in> set ds} \<union> set_mset (items w)"
    by (induction ds arbitrary: w) (auto simp: add_inputs_def worklist_okD(2) [OF assms] split: option.split)
  show "size (items (add_inputs W ds w)) \<le> length ds + size (items w)"
  proof (induction ds arbitrary: w)
    case (Cons i ds)
    show ?case
      using Cons.IH [of w] Cons.IH [of "wl_add W (the i) w"] worklist_okD(3) [OF assms, of "the i" w]
      by (cases i) (simp_all add: add_inputs_def)
  qed (simp add: add_inputs_def)
qed

text \<open>The invariant of the loop: \<open>todo\<close> is the content of the work list.\<close>

definition search_inv :: "('t, 'c, 's) graph \<Rightarrow> nat \<Rightarrow> nat set \<Rightarrow> nat set \<Rightarrow> nat set \<Rightarrow> bool" where
  "search_inv g s todo visited result \<longleftrightarrow>
     s \<in> visited \<union> todo \<and> (\<forall>x \<in> visited \<union> todo. data_reach g s x)
     \<and> result = {n \<in> visited. n_kind (g_node g n) = CondNode}
     \<and> (\<forall>x \<in> visited. n_kind (g_node g x) \<noteq> CondNode \<longrightarrow> data_inputs g x \<subseteq> visited \<union> todo)"

lemma search_inv_end: "search_inv g s {} visited result \<Longrightarrow> result = reaching_conds g s"
proof -
  assume inv: "search_inv g s {} visited result"
  have "n \<in> visited" if "data_reach g s n" for n
    using that by (induction rule: data_reach.induct) (use inv in \<open>auto simp: search_inv_def\<close>)
  then show "result = reaching_conds g s" using inv by (auto simp: search_inv_def reaching_conds_def)
qed

lemma search_inv_step:
  assumes "search_inv g s (insert n todo) visited result"
  shows "n \<in> visited \<Longrightarrow> search_inv g s todo visited result"
    and "\<lbrakk>n \<notin> visited; n_kind (g_node g n) = CondNode\<rbrakk> \<Longrightarrow> search_inv g s todo (insert n visited) (insert n result)"
    and "\<lbrakk>n \<notin> visited; n_kind (g_node g n) \<noteq> CondNode\<rbrakk> \<Longrightarrow>
      search_inv g s (data_inputs g n \<union> todo) (insert n visited) result"
  using assms by (auto simp: search_inv_def intro: data_reach.input)

lemma find_conds_loop_exact:
  assumes W: "worklist_ok W items" and N: "inputs_below N g" and s: "s < N"
    and "search_inv g s (set_mset (items w)) visited result" "visited \<subseteq> {..<N}"
  shows "find_conds_loop W g w visited result = Some (reaching_conds g s)"
  using assms(4,5)
proof (induction "size (items w) + (\<Sum>n \<in> {..<N} - visited. length (ins g n))" arbitrary: w visited result rule: less_induct)
  case less
  note inv = less.prems(1)
  show ?case
  proof (cases "wl_take W w")
    case None
    then show ?thesis
      using inv search_inv_end worklist_okD(4) [OF W None] by (subst find_conds_loop.simps) auto
  next
    case (Some p)
    obtain n w' where p: "p = (n, w')" by force
    have items: "items w = add_mset n (items w')" using worklist_okD(5) [OF W] Some p by simp
    note step = search_inv_step [OF inv [unfolded items set_mset_add_mset_insert]]
    have n: "n < N" using inv items data_reach_below [OF _ N s] by (simp add: search_inv_def)
    let ?ds = "drop (get_data_input_start_index g n) (ins g n)"
    have sum: "(\<Sum>k \<in> {..<N} - insert n visited. length (ins g k)) + length (ins g n)
        = (\<Sum>k \<in> {..<N} - visited. length (ins g k))" if "n \<notin> visited"
    proof -
      have "{..<N} - insert n visited = {..<N} - visited - {n}" by blast
      then show ?thesis using sum.remove [of "{..<N} - visited" n "\<lambda>k. length (ins g k)"] that n by simp
    qed
    consider "n \<in> visited" | "n \<notin> visited" "n_kind (g_node g n) = CondNode" | "n \<notin> visited" "n_kind (g_node g n) \<noteq> CondNode"
      by blast
    then show ?thesis
    proof cases
      case 1
      have "find_conds_loop W g w' visited result = Some (reaching_conds g s)"
        by (rule less.hyps) (use items less.prems(2) step(1) 1 in simp_all)
      then show ?thesis by (subst find_conds_loop.simps) (simp add: Some p 1)
    next
      case 2
      have "find_conds_loop W g w' (insert n visited) (insert n result) = Some (reaching_conds g s)"
        by (rule less.hyps) (use items less.prems(2) step(2) [OF 2] sum [OF 2(1)] n in simp_all)
      then show ?thesis by (subst find_conds_loop.simps) (simp add: Some p 2)
    next
      case 3
      have "set_mset (items (add_inputs W ?ds w')) = data_inputs g n \<union> set_mset (items w')"
        by (simp add: add_inputs_items(1) [OF W] data_inputs_def)
      then have "find_conds_loop W g (add_inputs W ?ds w') (insert n visited) result = Some (reaching_conds g s)"
        by (intro less.hyps)
          (use items less.prems(2) step(3) [OF 3] sum [OF 3(1)] n add_inputs_items(2) [OF W, of ?ds w'] in simp_all)
      then show ?thesis by (subst find_conds_loop.simps) (simp add: Some p 3)
    qed
  qed
qed

lemma find_reaching_conds_exact:
  assumes "worklist_ok W items" "inputs_below N g" "s < N"
  shows "find_reaching_conds W g s = Some (reaching_conds g s)"
proof -
  have "search_inv g s (set_mset (items (wl_add W s (wl_new W)))) {} {}"
    using worklist_okD(1,2) [OF assms(1)] by (simp add: search_inv_def data_reach.start)
  then show ?thesis unfolding find_reaching_conds_def by (rule find_conds_loop_exact [OF assms]) simp
qed

end
