(* ===== verification/Sea_Long.thy ===== *)
theory Sea_Long
  imports Sea_Seq Sea_Test
begin

text \<open>
  \<open>seaofnodes/SeaOfNodes/Analysis/LongAddRewriter.cs\<close>: arithmetic on the halves of a long value, chained by
  the carry, becomes one operation on the sequence of the halves and two slices of the result.

  An input after the first is never null (the constructors of the nodes see to that), so reading it gives a node,
  or raises when the node was replaced and has no inputs left.  Raising is \<open>None\<close>; a method with a result that may
  be null returns an option inside.
\<close>

section \<open>What the code uses of Reko\<close>

text \<open>The intrinsic procedures of \<open>CommonOps\<close> whose names the code compares.\<close>

datatype intrinsic = IAddC | ISubC | RorC | RolC | Other_Procedure

record ('t, 'c, 's) reko_long =
  seqs :: "('t, 'c, 's) reko_seq"
  is_word :: "'t \<Rightarrow> bool"
  create_word :: "nat \<Rightarrow> 't"
  to_int64 :: "'c \<Rightarrow> int"
  to_uint64 :: "'c \<Rightarrow> int"
  procedure :: "nat \<Rightarrow> intrinsic"

abbreviation reko_of :: "('t, 'c, 's) reko_long \<Rightarrow> ('t, 'c) reko" where
  "reko_of L \<equiv> base (seqs L)"

abbreviation bits :: "('t, 'c, 's) reko_long \<Rightarrow> 't \<Rightarrow> nat" where
  "bits L \<equiv> bit_size (reko_of L)"

text \<open>The graph, and the dictionary \<open>replacements\<close>.\<close>

type_synonym ('t, 'c, 's) fusing = "('t, 'c, 's) graph \<times> (nat \<rightharpoonup> nat)"

section \<open>Patterns\<close>

definition type_at :: "('t, 'c, 's) graph \<Rightarrow> nat \<Rightarrow> 't" where
  "type_at g n = n_type (g_node g n)"

definition binary_op :: "('t, 'c, 's) graph \<Rightarrow> nat \<Rightarrow> op_type option" where
  "binary_op g n = (case n_kind (g_node g n) of BinaryNode op \<Rightarrow> Some op | _ \<Rightarrow> None)"

definition is_negation :: "('t, 'c, 's) graph \<Rightarrow> nat \<Rightarrow> bool" where
  "is_negation g n \<longleftrightarrow> n_kind (g_node g n) = UnaryNode Un_Neg"

definition is_zero_constant :: "('t, 'c, 's) reko_long \<Rightarrow> ('t, 'c, 's) graph \<Rightarrow> nat \<Rightarrow> bool" where
  "is_zero_constant L g n \<longleftrightarrow> (case as_constant g n of None \<Rightarrow> False | Some c \<Rightarrow> is_zero (reko_of L) c)"

definition is_one :: "('t, 'c, 's) reko_long \<Rightarrow> ('t, 'c, 's) graph \<Rightarrow> nat \<Rightarrow> bool" where
  "is_one L g n \<longleftrightarrow> (case as_constant g n of None \<Rightarrow> False | Some c \<Rightarrow> to_int64 L c = 1)"

definition combine_types :: "('t, 'c, 's) reko_long \<Rightarrow> 't \<Rightarrow> 't \<Rightarrow> 't" where
  "combine_types L upper lower =
     (let total_bits = bits L lower + bits L upper
      in if is_word L upper then create_word L total_bits else resize (seqs L) upper total_bits)"

text \<open>\<open>x & c\<close> for a constant \<open>c\<close> gives \<open>x\<close>, every other node itself.\<close>

definition unmasked :: "('t, 'c, 's) graph \<Rightarrow> nat \<Rightarrow> nat option" where
  "unmasked g n =
     (if binary_op g n = Some Op_And then do {
        and_left \<leftarrow> input_at g n 1;
        and_right \<leftarrow> input_at g n 2;
        Some (if as_constant g and_right \<noteq> None then and_left else n)
      }
      else Some n)"

definition is_maybe_masked_cond_node :: "('t, 'c, 's) graph \<Rightarrow> nat \<Rightarrow> nat option option" where
  "is_maybe_masked_cond_node g n = do {
     n' \<leftarrow> unmasked g n;
     Some (if n_kind (g_node g n') = CondNode then Some n' else None)
   }"

definition is_add_sub :: "('t, 'c, 's) reko_long \<Rightarrow> ('t, 'c, 's) graph \<Rightarrow> nat \<Rightarrow> (op_type \<times> nat \<times> nat) option option" where
  "is_add_sub L g n =
     (case binary_op g n of
        None \<Rightarrow> Some None
      | Some op \<Rightarrow>
          if is_add_or_sub (reko_of L) op then do {
            left \<leftarrow> input_at g n 1;
            right \<leftarrow> input_at g n 2;
            Some (Some (op, left, right))
          }
          else Some None)"

definition is_carry_add_sub :: "('t, 'c, 's) reko_long \<Rightarrow> ('t, 'c, 's) graph \<Rightarrow> nat \<Rightarrow> bool option" where
  "is_carry_add_sub L g n =
     (case binary_op g n of
        None \<Rightarrow> Some False
      | Some op \<Rightarrow>
          if is_add_or_sub (reko_of L) op then do {
            right \<leftarrow> input_at g n 2;
            cond \<leftarrow> is_maybe_masked_cond_node g right;
            Some (cond \<noteq> None)
          }
          else Some False)"

text \<open>
  The sum that adds the second operand after an addition of only the carry: its right operand and the sum,
  or \<open>hi_right\<close> and the addition itself.
\<close>

fun high_sum ::
  "('t, 'c, 's) reko_long \<Rightarrow> ('t, 'c, 's) graph \<Rightarrow> nat \<Rightarrow> op_type \<Rightarrow> nat \<Rightarrow> nat list \<Rightarrow> (nat \<times> nat) option" where
  "high_sum L g addc op hi_right [] = Some (hi_right, addc)"
| "high_sum L g addc op hi_right (u # us) = do {
     m \<leftarrow> is_add_sub L g u;
     case m of
       None \<Rightarrow> high_sum L g addc op hi_right us
     | Some (op_ex, ex_left, ex_right) \<Rightarrow>
         if ex_left = addc \<and> op_ex = op then do {
           carry \<leftarrow> is_carry_add_sub L g u;
           if carry then high_sum L g addc op hi_right us else Some (ex_right, u)
         }
         else high_sum L g addc op hi_right us
   }"

section \<open>The wide operation and its halves\<close>

definition split_wide ::
  "('t, 'c, 's) reko_long \<Rightarrow> 't \<Rightarrow> 't \<Rightarrow> nat \<Rightarrow> ('t, 'c, 's) graph \<Rightarrow> nat \<times> nat \<times> ('t, 'c, 's) graph" where
  "split_wide L dt_lo dt_hi wide g =
     (case slice (seqs L) dt_lo wide 0 g of (lo, g1) \<Rightarrow>
        case slice (seqs L) dt_hi wide (int (bits L dt_lo)) g1 of (hi, g2) \<Rightarrow> (lo, hi, g2))"

text \<open>The wide node, its low and its high slice.\<close>

definition wide_sum ::
  "('t, 'c, 's) reko_long \<Rightarrow> op_type \<Rightarrow> nat \<Rightarrow> nat \<Rightarrow> nat \<Rightarrow> nat \<Rightarrow> ('t, 'c, 's) graph
    \<Rightarrow> (nat \<times> nat \<times> nat \<times> ('t, 'c, 's) graph) option" where
  "wide_sum L op hi_left lo_left hi_right lo_right g =
     (let dt_lo = type_at g lo_left; dt_hi = type_at g hi_left; dt = combine_types L dt_hi dt_lo
      in do {
        (seq_left, g1) \<leftarrow> seq (seqs L) dt [hi_left, lo_left] g;
        (seq_right, g2) \<leftarrow> seq (seqs L) dt [hi_right, lo_right] g1;
        (wide, g3) \<leftarrow> bin (reko_of L) dt op None seq_left seq_right g2;
        Some (wide, split_wide L dt_lo dt_hi wide g3)
      })"

definition wide_shift ::
  "('t, 'c, 's) reko_long \<Rightarrow> op_type \<Rightarrow> 't \<Rightarrow> 't \<Rightarrow> nat \<Rightarrow> nat \<Rightarrow> nat \<Rightarrow> ('t, 'c, 's) graph
    \<Rightarrow> (nat \<times> nat \<times> nat \<times> ('t, 'c, 's) graph) option" where
  "wide_shift L op dt_hi dt_lo hi lo amount g =
     (let dt = combine_types L dt_hi dt_lo
      in do {
        (seq_node, g1) \<leftarrow> seq (seqs L) dt [hi, lo] g;
        (wide, g2) \<leftarrow> bin (reko_of L) dt op None seq_node amount g1;
        Some (wide, split_wide L dt_lo dt_hi wide g2)
      })"

definition wide_negation ::
  "('t, 'c, 's) reko_long \<Rightarrow> 't \<Rightarrow> 't \<Rightarrow> nat \<Rightarrow> nat \<Rightarrow> ('t, 'c, 's) graph
    \<Rightarrow> (nat \<times> nat \<times> nat \<times> ('t, 'c, 's) graph) option" where
  "wide_negation L dt_hi dt_lo hi lo g =
     (let dt = combine_types L dt_hi dt_lo
      in do {
        (seq_node, g1) \<leftarrow> seq (seqs L) dt [hi, lo] g;
        (wide, g2) \<leftarrow> neg dt seq_node g1;
        Some (wide, split_wide L dt_lo dt_hi wide g2)
      })"

fun replace_conds :: "nat \<Rightarrow> nat list \<Rightarrow> ('t, 'c, 's) graph \<Rightarrow> ('t, 'c, 's) graph option" where
  "replace_conds wide [] g = Some g"
| "replace_conds wide (u # us) g =
     (if n_kind (g_node g u) = CondNode then do {
        g' \<leftarrow> replace_input u 1 wide g;
        replace_conds wide us g'
      }
      else replace_conds wide us g)"

definition replace_cond_ofs :: "nat \<Rightarrow> nat \<Rightarrow> ('t, 'c, 's) graph \<Rightarrow> ('t, 'c, 's) graph option" where
  "replace_cond_ofs n wide g = replace_conds wide (outs g n) g"

section \<open>Fusing\<close>

definition try_fuse_sar_rorc ::
  "('t, 'c, 's) reko_long \<Rightarrow> nat \<Rightarrow> ('t, 'c, 's) fusing \<Rightarrow> (nat option \<times> ('t, 'c, 's) fusing) option" where
  "try_fuse_sar_rorc L rorc st = (case st of (g, replacements) \<Rightarrow> do {
     carry \<leftarrow> input_at g rorc 4;
     cy \<leftarrow> unmasked g carry;
     if n_kind (g_node g cy) \<noteq> CondNode then Some (None, st)
     else do {
       shift \<leftarrow> input_at g cy 1;
       if binary_op g shift \<notin> {Some Op_Sar, Some Op_Shr} then Some (None, st)
       else do {
         amount \<leftarrow> input_at g shift 2;
         count \<leftarrow> input_at g rorc 3;
         if is_one L g amount \<and> is_one L g count then do {
           left \<leftarrow> input_at g shift 1;
           right \<leftarrow> input_at g rorc 2;
           (wide, lo_slice, hi_slice, g1) \<leftarrow>
             wide_shift L (the (binary_op g shift)) (type_at g shift) (type_at g rorc) left right amount g;
           g2 \<leftarrow> replace_cond_ofs rorc wide g1;
           let g3 = replace shift hi_slice (replace rorc lo_slice g2);
           Some (Some wide, remove_from_inputs shift (remove_from_inputs rorc g3),
             replacements(rorc \<mapsto> lo_slice, shift \<mapsto> hi_slice))
         }
         else Some (None, st)
       }
     }
   })"

definition try_fuse_shl_rolc ::
  "('t, 'c, 's) reko_long \<Rightarrow> nat \<Rightarrow> ('t, 'c, 's) fusing \<Rightarrow> (nat option \<times> ('t, 'c, 's) fusing) option" where
  "try_fuse_shl_rolc L rolc st = (case st of (g, replacements) \<Rightarrow> do {
     carry \<leftarrow> input_at g rolc 4;
     cy \<leftarrow> unmasked g carry;
     if n_kind (g_node g cy) \<noteq> CondNode then Some (None, st)
     else do {
       shift \<leftarrow> input_at g cy 1;
       if binary_op g shift \<noteq> Some Op_Shl then Some (None, st)
       else do {
         amount \<leftarrow> input_at g shift 2;
         count \<leftarrow> input_at g rolc 3;
         if is_one L g amount \<and> is_one L g count then do {
           left \<leftarrow> input_at g rolc 2;
           right \<leftarrow> input_at g shift 1;
           (wide, lo_slice, hi_slice, g1) \<leftarrow>
             wide_shift L Op_Shl (type_at g rolc) (type_at g shift) left right amount g;
           g2 \<leftarrow> replace_cond_ofs rolc wide g1;
           let g3 = replace rolc hi_slice (replace shift lo_slice g2);
           Some (Some wide, remove_from_inputs rolc (remove_from_inputs shift g3),
             replacements(shift \<mapsto> lo_slice, rolc \<mapsto> hi_slice))
         }
         else Some (None, st)
       }
     }
   })"

definition try_fuse_add_sub ::
  "('t, 'c, 's) reko_long \<Rightarrow> nat \<Rightarrow> op_type \<Rightarrow> ('t, 'c, 's) fusing \<Rightarrow> (nat option \<times> ('t, 'c, 's) fusing) option" where
  "try_fuse_add_sub L addc op st = (case st of (g, replacements) \<Rightarrow>
     if length (ins g addc) \<noteq> 5 then Some (None, st)
     else do {
       hi_left \<leftarrow> input_at g addc 2;
       hi_right \<leftarrow> input_at g addc 3;
       cy_right \<leftarrow> input_at g addc 4;
       c \<leftarrow> is_maybe_masked_cond_node g cy_right;
       case c of
         None \<Rightarrow> Some (None, st)
       | Some cond \<Rightarrow> do {
           flags \<leftarrow> input_at g cond 1;
           lo_add_sub \<leftarrow> (if slice_offset g flags \<noteq> None then input_at g flags 1 else Some flags);
           m \<leftarrow> is_add_sub L g lo_add_sub;
           case m of
             None \<Rightarrow> Some (None, st)
           | Some (op_lo, lo_left, lo_right) \<Rightarrow>
               if op_lo \<noteq> op then Some (None, st)
               else do {
                 (hi_right', hi_to_replace) \<leftarrow>
                   (if is_zero_constant L g hi_right then high_sum L g addc op hi_right (outs g addc)
                    else Some (hi_right, addc));
                 (wide, sum_lo, sum_hi, g1) \<leftarrow> wide_sum L op hi_left lo_left hi_right' lo_right g;
                 g2 \<leftarrow> replace_cond_ofs addc wide g1;
                 let g3 = replace lo_add_sub sum_lo (replace hi_to_replace sum_hi g2);
                 Some (Some wide, remove_from_inputs lo_add_sub (remove_from_inputs addc g3),
                   replacements(addc \<mapsto> sum_hi, lo_add_sub \<mapsto> sum_lo))
               }
         }
     })"

text \<open>\<open>IsCarryNe0\<close>: the operand of the negation, and the comparison with zero that makes the carry.\<close>

definition is_carry_ne0 :: "('t, 'c, 's) reko_long \<Rightarrow> ('t, 'c, 's) graph \<Rightarrow> nat \<Rightarrow> nat \<Rightarrow> (nat \<times> nat) option option" where
  "is_carry_ne0 L g subc carry = do {
     hi_neg \<leftarrow> input_at g subc 2;
     if \<not> is_negation g hi_neg then Some None
     else do {
       hi \<leftarrow> input_at g hi_neg 1;
       carry' \<leftarrow> (if n_kind (g_node g carry) = CondNode then input_at g carry 1 else Some carry);
       if binary_op g carry' \<noteq> Some Op_Ne then Some None
       else do {
         right \<leftarrow> input_at g carry' 2;
         Some (if is_zero_constant L g right then Some (hi, carry') else None)
       }
     }
   }"

definition find_negation :: "('t, 'c, 's) graph \<Rightarrow> nat \<Rightarrow> nat option" where
  "find_negation g n = (if is_negation g n then Some n else find (is_negation g) (outs g n))"

text \<open>The \<open>-lo\<close> that sets the carry of \<open>__subc(0, hi, cond(-lo))\<close>.\<close>

definition carried_negation :: "('t, 'c, 's) reko_long \<Rightarrow> ('t, 'c, 's) graph \<Rightarrow> nat \<Rightarrow> nat \<Rightarrow> nat option option" where
  "carried_negation L g zero_left carry =
     (if is_zero_constant L g zero_left then do {
        c \<leftarrow> is_maybe_masked_cond_node g carry;
        case c of
          None \<Rightarrow> Some None
        | Some cond \<Rightarrow> do {
            x \<leftarrow> input_at g cond 1;
            Some (if is_negation g x then Some x else None)
          }
      }
      else Some None)"

text \<open>\<open>__subc(0, hi, cond(-lo))\<close>, and \<open>__subc(-hi, 0, cond(lo != 0))\<close> beside a \<open>-lo\<close>.\<close>

definition try_fuse_negation ::
  "('t, 'c, 's) reko_long \<Rightarrow> nat \<Rightarrow> ('t, 'c, 's) fusing \<Rightarrow> (nat option \<times> ('t, 'c, 's) fusing) option" where
  "try_fuse_negation L subc st = (case st of (g, replacements) \<Rightarrow> do {
     zero_left \<leftarrow> input_at g subc 2;
     hi_neg \<leftarrow> input_at g subc 3;
     carry \<leftarrow> input_at g subc 4;
     lo_neg \<leftarrow> carried_negation L g zero_left carry;
     case lo_neg of
       Some lo_neg_node \<Rightarrow> do {
         lo \<leftarrow> input_at g lo_neg_node 1;
         (wide, slice_lo, slice_hi, g1) \<leftarrow> wide_negation L (type_at g hi_neg) (type_at g lo_neg_node) hi_neg lo g;
         g2 \<leftarrow> replace_cond_ofs subc wide g1;
         let g3 = replace lo_neg_node slice_lo (replace subc slice_hi g2);
         Some (Some wide, remove_from_inputs subc g3, replacements)
       }
     | None \<Rightarrow>
         if \<not> is_zero_constant L g hi_neg then Some (None, st)
         else do {
           m \<leftarrow> is_carry_ne0 L g subc carry;
           case m of
             None \<Rightarrow> Some (None, st)
           | Some (hi, op_cy) \<Rightarrow> do {
               compared \<leftarrow> input_at g op_cy 1;
               case find_negation g compared of
                 None \<Rightarrow> Some (None, st)
               | Some lo_neg_node \<Rightarrow> do {
                   lo \<leftarrow> input_at g lo_neg_node 1;
                   (wide, slice_lo, slice_hi, g1) \<leftarrow> wide_negation L (type_at g hi) (type_at g lo_neg_node) hi lo g;
                   g2 \<leftarrow> replace_cond_ofs subc wide g1;
                   let g3 = replace subc slice_hi (replace lo_neg_node slice_lo g2);
                   Some (Some wide, remove_from_inputs subc g3, replacements)
                 }
             }
         }
   })"

text \<open>The low negation in \<open>-hi - cond(-lo)\<close>, and in \<open>-hi - (word) (-lo <u 0)\<close>.\<close>

definition borrowed_negation :: "('t, 'c, 's) reko_long \<Rightarrow> ('t, 'c, 's) graph \<Rightarrow> nat \<Rightarrow> nat option option" where
  "borrowed_negation L g sub_right =
     (if n_kind (g_node g sub_right) = CondNode then do {
        x \<leftarrow> input_at g sub_right 1;
        Some (if is_negation g x then Some x else None)
      }
      else if n_kind (g_node g sub_right) = ConversionNode then do {
        ucmp \<leftarrow> input_at g sub_right 1;
        if binary_op g ucmp \<noteq> Some Op_Ult then Some None
        else do {
          zero \<leftarrow> input_at g ucmp 2;
          if \<not> is_zero_constant L g zero then Some None
          else do {
            x \<leftarrow> input_at g ucmp 1;
            Some (if is_negation g x then Some x else None)
          }
        }
      }
      else Some None)"

definition try_fuse_negation_binary ::
  "('t, 'c, 's) reko_long \<Rightarrow> nat \<Rightarrow> ('t, 'c, 's) fusing \<Rightarrow> (nat option \<times> ('t, 'c, 's) fusing) option" where
  "try_fuse_negation_binary L sub st = (case st of (g, replacements) \<Rightarrow> do {
     sub_left \<leftarrow> input_at g sub 1;
     sub_right \<leftarrow> input_at g sub 2;
     if \<not> is_negation g sub_left then Some (None, st)
     else do {
       sub_right' \<leftarrow> unmasked g sub_right;
       m \<leftarrow> borrowed_negation L g sub_right';
       case m of
         None \<Rightarrow> Some (None, st)
       | Some neg_lo \<Rightarrow> do {
           lo \<leftarrow> input_at g neg_lo 1;
           hi \<leftarrow> input_at g sub_left 1;
           (wide, slice_lo, slice_hi, g1) \<leftarrow> wide_negation L (type_at g hi) (type_at g lo) hi lo g;
           g2 \<leftarrow> replace_cond_ofs sub wide g1;
           let g3 = replace neg_lo slice_lo (replace sub slice_hi g2);
           Some (Some wide, remove_from_inputs sub g3, replacements)
         }
     }
   })"

definition is_low_shift_and_spill :: "('t, 'c, 's) graph \<Rightarrow> nat \<Rightarrow> nat \<Rightarrow> bool" where
  "is_low_shift_and_spill g low spill \<longleftrightarrow>
     binary_op g low \<in> {Some Op_Shr, Some Op_Sar} \<and> binary_op g spill = Some Op_Shl"

text \<open>\<open>-amount + bit_size\<close>.\<close>

definition matches_complementary_shift_amount ::
  "('t, 'c, 's) reko_long \<Rightarrow> ('t, 'c, 's) graph \<Rightarrow> nat \<Rightarrow> nat \<Rightarrow> nat \<Rightarrow> bool option" where
  "matches_complementary_shift_amount L g spill_amount shift_amount low_bits =
     (if binary_op g spill_amount \<noteq> Some Op_IAdd then Some False
      else do {
        neg_node \<leftarrow> input_at g spill_amount 1;
        if \<not> is_negation g neg_node then Some False
        else do {
          negated \<leftarrow> input_at g neg_node 1;
          if negated \<noteq> shift_amount then Some False
          else do {
            right \<leftarrow> input_at g spill_amount 2;
            Some (case as_constant g right of None \<Rightarrow> False | Some c \<Rightarrow> to_uint64 L c = int low_bits)
          }
        }
      })"

fun find_matching_high_shift ::
  "('t, 'c, 's) graph \<Rightarrow> nat \<Rightarrow> nat \<Rightarrow> nat \<Rightarrow> nat list \<Rightarrow> nat option option" where
  "find_matching_high_shift g high_input shift_amount low_shift [] = Some None"
| "find_matching_high_shift g high_input shift_amount low_shift (u # us) =
     (if u = low_shift \<or> binary_op g u = None \<or> binary_op g u \<noteq> binary_op g low_shift then
        find_matching_high_shift g high_input shift_amount low_shift us
      else do {
        left \<leftarrow> input_at g u 1;
        if left \<noteq> high_input then find_matching_high_shift g high_input shift_amount low_shift us
        else do {
          right \<leftarrow> input_at g u 2;
          if right \<noteq> shift_amount then find_matching_high_shift g high_input shift_amount low_shift us
          else Some (Some u)
        }
      })"

definition try_fuse_long_shift_right ::
  "('t, 'c, 's) reko_long \<Rightarrow> nat \<Rightarrow> ('t, 'c, 's) fusing \<Rightarrow> (bool \<times> ('t, 'c, 's) fusing) option" where
  "try_fuse_long_shift_right L or_node st = (case st of (g, replacements) \<Rightarrow>
     if length (ins g or_node) \<noteq> 3 \<or> binary_op g or_node \<noteq> Some Op_Or then Some (False, st)
     else do {
       left \<leftarrow> input_at g or_node 1;
       right \<leftarrow> input_at g or_node 2;
       let (low_shift, spill_shift) = (if is_low_shift_and_spill g left right then (left, right) else (right, left));
       if \<not> is_low_shift_and_spill g low_shift spill_shift
           \<or> length (ins g low_shift) \<noteq> 3 \<or> length (ins g spill_shift) \<noteq> 3 then Some (False, st)
       else do {
         low_input \<leftarrow> input_at g low_shift 1;
         shift_amount \<leftarrow> input_at g low_shift 2;
         high_input \<leftarrow> input_at g spill_shift 1;
         spill_amount \<leftarrow> input_at g spill_shift 2;
         complementary \<leftarrow> matches_complementary_shift_amount L g spill_amount shift_amount (bits L (type_at g low_input));
         if \<not> complementary then Some (False, st)
         else do {
           h \<leftarrow> find_matching_high_shift g high_input shift_amount low_shift (outs g high_input);
           case h of
             None \<Rightarrow> Some (False, st)
           | Some high_shift \<Rightarrow> do {
               (wide, slice_low, slice_high, g1) \<leftarrow>
                 wide_shift L (the (binary_op g low_shift)) (type_at g high_input) (type_at g low_input)
                   high_input low_input shift_amount g;
               Some (True, replace high_shift slice_high (replace or_node slice_low g1),
                 replacements(or_node \<mapsto> slice_low, high_shift \<mapsto> slice_high))
             }
         }
       }
     })"

section \<open>The work list\<close>

text \<open>A node that \<open>TryFuse\dots\<close> returned is added to the work list.\<close>

definition add_result :: "'w worklist \<Rightarrow> 'w \<Rightarrow> nat option \<times> ('t, 'c, 's) fusing \<Rightarrow> ('t, 'c, 's) fusing \<times> 'w" where
  "add_result W w res = (case res of (None, st) \<Rightarrow> (st, w) | (Some n, st) \<Rightarrow> (st, wl_add W n w))"

definition process_binary ::
  "('t, 'c, 's) reko_long \<Rightarrow> 'w worklist \<Rightarrow> op_type \<Rightarrow> nat \<Rightarrow> ('t, 'c, 's) fusing \<Rightarrow> 'w \<Rightarrow> (('t, 'c, 's) fusing \<times> 'w) option" where
  "process_binary L W op n st w =
     (case op of
        Op_ISub \<Rightarrow> map_option (add_result W w) (try_fuse_negation_binary L n st)
      | Op_Or \<Rightarrow> do {
          (fused, st') \<leftarrow> try_fuse_long_shift_right L n st;
          let g = fst st';
          Some (st', if fused then fold (wl_add W) (filter (\<lambda>u. binary_op g u \<noteq> None) (outs g n)) w else w)
        }
      | _ \<Rightarrow> Some (st, w))"

definition process_application ::
  "('t, 'c, 's) reko_long \<Rightarrow> 'w worklist \<Rightarrow> nat \<Rightarrow> ('t, 'c, 's) fusing \<Rightarrow> 'w \<Rightarrow> (('t, 'c, 's) fusing \<times> 'w) option" where
  "process_application L W n st w = do {
     pc \<leftarrow> input_at (fst st) n 1;
     if n_kind (g_node (fst st) pc) \<noteq> ProcedureConstantNode then Some (st, w)
     else
       map_option (add_result W w)
         (case procedure L pc of
            IAddC \<Rightarrow> try_fuse_add_sub L n Op_IAdd st
          | ISubC \<Rightarrow> do {
              (new_node, st') \<leftarrow> try_fuse_add_sub L n Op_ISub st;
              if new_node = None then try_fuse_negation L n st' else Some (new_node, st')
            }
          | RorC \<Rightarrow> try_fuse_sar_rorc L n st
          | RolC \<Rightarrow> try_fuse_shl_rolc L n st
          | Other_Procedure \<Rightarrow> Some (None, st))
   }"

definition process_node ::
  "('t, 'c, 's) reko_long \<Rightarrow> 'w worklist \<Rightarrow> nat \<Rightarrow> ('t, 'c, 's) fusing \<Rightarrow> 'w \<Rightarrow> (('t, 'c, 's) fusing \<times> 'w) option" where
  "process_node L W n st w =
     (if n \<in> dom (snd st) then Some (st, w)
      else
        case n_kind (g_node (fst st) n) of
          BinaryNode op \<Rightarrow> process_binary L W op n st w
        | ApplicationNode \<Rightarrow> process_application L W n st w
        | _ \<Rightarrow> Some (st, w))"

text \<open>\<open>Inl\<close> is the exception of an access to an input that is not there; \<open>None\<close> would be a loop that does not end.\<close>

partial_function (option) process_loop ::
  "('t, 'c, 's) reko_long \<Rightarrow> 'w worklist \<Rightarrow> ('t, 'c, 's) fusing \<Rightarrow> 'w \<Rightarrow> (test_error + ('t, 'c, 's) fusing) option" where
  "process_loop L W st w =
     (case wl_take W w of
        None \<Rightarrow> Some (Inr st)
      | Some (n, w') \<Rightarrow>
          (case process_node L W n st w' of
             None \<Rightarrow> Some (Inl Argument_Out_Of_Range)
           | Some (st', w'') \<Rightarrow> process_loop L W st' w''))"

text \<open>\<open>Node.CollectReachableNodes\<close>: along outputs and inputs, in the order they are added to the set.\<close>

partial_function (option) collect_loop ::
  "('t, 'c, 's) graph \<Rightarrow> nat list \<Rightarrow> nat list \<Rightarrow> nat list option" where
  "collect_loop g stack reachable =
     (case stack of
        [] \<Rightarrow> Some reachable
      | n # rest \<Rightarrow>
          if n \<in> set reachable then collect_loop g rest reachable
          else collect_loop g (rev (outs g n @ List.map_filter id (ins g n)) @ rest) (reachable @ [n]))"

definition transform_long ::
  "('t, 'c, 's) reko_long \<Rightarrow> 'w worklist \<Rightarrow> nat \<Rightarrow> ('t, 'c, 's) graph \<Rightarrow> (test_error + ('t, 'c, 's) fusing) option" where
  "transform_long L W start g =
     (case collect_loop g [start] [] of
        None \<Rightarrow> None
      | Some reachable \<Rightarrow>
          process_loop L W (g, Map.empty)
            (fold (wl_add W) (sort_key (\<lambda>n. n_number (g_node g n)) reachable) (wl_new W)))"

declare process_loop.simps [code] collect_loop.simps [code]

end
