(* ===== verification/Sea_Edges.thy ===== *)
theory Sea_Edges
  imports Sea_Long
begin

text \<open>
  The fusions of \<open>Sea_Long\<close> keep the agreement of inputs and outputs and the shape of the condition nodes, so
  that \<open>ReplaceCondOfs\<close> never raises.
\<close>

section \<open>The invariant\<close>

definition cond_shape :: "nat option list \<Rightarrow> bool" where
  "cond_shape ds \<longleftrightarrow> ds = [] \<or> (\<exists>c x. ds = [c, Some x])"

definition conds_ok :: "('t, 'c, 's) graph \<Rightarrow> bool" where
  "conds_ok g \<longleftrightarrow> (\<forall>u < g_next g. n_kind (g_node g u) = CondNode \<longrightarrow> cond_shape (ins g u))"

definition graph_ok :: "('t, 'c, 's) graph \<Rightarrow> bool" where
  "graph_ok g \<longleftrightarrow> edges_ok g \<and> conds_ok g"

text \<open>What an operation on a well-formed graph leaves.\<close>

definition grown :: "('t, 'c, 's) graph \<Rightarrow> ('t, 'c, 's) graph \<Rightarrow> bool" where
  "grown g g' \<longleftrightarrow> graph_ok g' \<and> g_next g \<le> g_next g'"

lemma cond_shape_simps: "cond_shape []" "cond_shape ds \<Longrightarrow> cond_shape (map (subst_ref p q) ds)"
  "cond_shape ds \<Longrightarrow> cond_shape (ds[Suc 0 := Some x])"
  by (auto simp: cond_shape_def split: if_splits)

lemma grownD: "grown g g' \<Longrightarrow> graph_ok g'" "grown g g' \<Longrightarrow> i < g_next g \<Longrightarrow> i < g_next g'"
  by (simp_all add: grown_def)

lemma grown_refl: "graph_ok g \<Longrightarrow> grown g g"
  by (simp add: grown_def)

lemma grown_trans: "\<lbrakk>grown g g'; grown g' g''\<rbrakk> \<Longrightarrow> grown g g''"
  by (simp add: grown_def)

lemma grown_new:
  assumes ok: "graph_ok g" and new: "new_node kind dt stg ds g = (n, g')"
    and "\<forall>d. Some d \<in> set ds \<longrightarrow> d < g_next g" and "kind \<noteq> CondNode"
  shows "grown g g'" "n = g_next g" "n < g_next g'"
proof -
  note f = new_node_fields [OF new]
  have "edges_ok g'" using edges_new_node [of g ds kind dt stg] assms by (simp add: graph_ok_def)
  moreover have "conds_ok g'"
    using ok assms(4) f unfolding conds_ok_def graph_ok_def by (metis less_Suc_eq Suc_eq_plus1)
  ultimately show "grown g g'" "n = g_next g" "n < g_next g'" using f(1,2) by (simp_all add: grown_def graph_ok_def)
qed

lemma grown_replace:
  assumes "graph_ok g" "p \<noteq> q" "p < g_next g" "q < g_next g"
  shows "grown g (replace p q g)"
proof -
  note r = replace_outs_ins [OF assms(2)]
  have "conds_ok (replace p q g)"
    using assms(1) cond_shape_simps by (auto simp: conds_ok_def graph_ok_def r(1,2) replace_other_fields(2))
  moreover have "edges_ok (replace p q g)" using edges_replace [OF _ assms(2-4)] assms(1) by (simp add: graph_ok_def)
  ultimately show ?thesis using r(1) [of g] by (simp add: grown_def graph_ok_def)
qed

lemma remove_from_inputs_kind: "n_kind (g_node (remove_from_inputs n g) i) = n_kind (g_node g i)"
  by (simp add: remove_from_inputs_def fold_fields)

lemma grown_remove_from_inputs:
  assumes "graph_ok g" "n < g_next g"
  shows "grown g (remove_from_inputs n g)"
proof -
  have "conds_ok (remove_from_inputs n g)"
    using assms(1) cond_shape_simps by (auto simp: conds_ok_def graph_ok_def remove_from_inputs_simps remove_from_inputs_kind)
  moreover have "edges_ok (remove_from_inputs n g)" using edges_remove_from_inputs [OF _ assms(2)] assms(1) by (simp add: graph_ok_def)
  ultimately show ?thesis by (simp add: grown_def graph_ok_def remove_from_inputs_simps)
qed

section \<open>Building nodes\<close>

lemma grown_slice:
  assumes "graph_ok g" "slice X dt x off g = (n, g')" "x < g_next g"
  shows "grown g g'" "n < g_next g'" "n = x \<or> g_next g \<le> n" "off \<noteq> 0 \<Longrightarrow> g_next g \<le> n"
proof -
  have "grown g g' \<and> n < g_next g' \<and> (n = x \<or> g_next g \<le> n) \<and> (off \<noteq> 0 \<longrightarrow> g_next g \<le> n)"
  proof (cases "n = x \<and> g' = g \<and> off = 0")
    case True
    then show ?thesis using grown_refl [OF assms(1)] assms(3) by simp
  next
    case False
    then have new: "new_node (SliceNode off) dt None [None, Some x] g = (n, g')"
      using assms(2) by (auto simp: slice_def m_slice_def split: if_splits)
    show ?thesis using grown_new [OF assms(1) new] assms(3) by simp
  qed
  then show "grown g g'" "n < g_next g'" "n = x \<or> g_next g \<le> n" "off \<noteq> 0 \<Longrightarrow> g_next g \<le> n" by blast+
qed

lemma input_below:
  assumes "graph_ok g" "n < g_next g" "Some x \<in> set (ins g n)"
  shows "x < g_next g"
  using edges_okD(3) [of g n x] assms by (simp add: graph_ok_def)

lemma input_at_mem: "input_at g n k = Some x \<Longrightarrow> Some x \<in> set (ins g n)"
  unfolding input_at_def ins_def arr_get_def bind_eq_Some_conv by (auto split: if_splits) (metis nth_mem)

lemma input_at_below: "\<lbrakk>graph_ok g; n < g_next g; input_at g n k = Some x\<rbrakk> \<Longrightarrow> x < g_next g"
  by (rule input_below [OF _ _ input_at_mem])

lemma flatten_below:
  assumes "graph_ok g" "\<forall>n \<in> set ns. n < g_next g"
  shows "\<forall>n \<in> set (flatten_nested_sequences g ns). n < g_next g"
proof
  fix m assume that': "m \<in> set (flatten_nested_sequences g ns)"
  obtain n where n: "n \<in> set ns" "m = n \<or> m \<in> set (List.map_filter id (drop 1 (n_inputs (g_node g n))))"
  proof -
    from that' obtain n where n: "n \<in> set ns"
      "m \<in> set (case n_kind (g_node g n) of SeqNode \<Rightarrow> List.map_filter id (drop 1 (n_inputs (g_node g n))) | _ \<Rightarrow> [n])"
      unfolding flatten_nested_sequences_def set_concat set_map by blast
    then show thesis using that by (cases "n_kind (g_node g n)") simp_all
  qed
  have le: "n < g_next g" using n(1) assms(2) by blast
  have "Some m \<in> set (ins g n)" if "m \<in> set (List.map_filter id (drop 1 (n_inputs (g_node g n))))"
  proof -
    have "Some m \<in> set (drop 1 (n_inputs (g_node g n)))" using that by (auto simp: List.map_filter_def)
    then show ?thesis unfolding ins_def by (rule in_set_dropD)
  qed
  then show "m < g_next g" using n(2) le input_below [OF assms(1) le] by metis
qed

lemma grown_emit_run:
  assumes "graph_ok g" "emit_run X r g = (m, g')" "sliced_node r < g_next g"
  shows "grown g g'" "m < g_next g'"
  using grown_slice [OF assms(1) assms(2) [unfolded emit_run_def] assms(3)] by blast+

lemma grown_fuse_loop:
  assumes "fuse_loop X ns cur acc g = Some (nodes, g')" "graph_ok g" "\<forall>n \<in> set ns. n < g_next g" "\<forall>n \<in> set acc. n < g_next g"
    "\<forall>r. cur = Some r \<longrightarrow> sliced_node r < g_next g"
  shows "grown g g' \<and> (\<forall>n \<in> set nodes. n < g_next g')"
  using assms
proof (induction ns arbitrary: cur acc g)
  case Nil
  show ?case
  proof (cases cur)
    case (Some r)
    obtain m g1 where e: "emit_run X r g = (m, g1)" by force
    note em = grown_emit_run [OF Nil(2) e]
    show ?thesis using Nil Some e em grownD(2) [of g g1] by auto
  qed (use Nil in \<open>auto simp: grown_refl\<close>)
next
  case (Cons n ns)
  have stop: ?case if r: "cur = Some r" and e: "emit_run X r g = (m, g1)"
    and loop: "fuse_loop X ns None (acc @ [m]) g1 = Some (nodes, g')" for r m g1
  proof -
    note em = grown_emit_run [OF Cons(3) e] and up = grownD(2) [of g g1]
    have "grown g1 g' \<and> (\<forall>n \<in> set nodes. n < g_next g')"
      by (rule Cons.IH [OF loop]) (use Cons(4-6) r em up in \<open>auto simp: grownD(1)\<close>)
    then show ?thesis using em Cons(6) r grown_trans by blast
  qed
  show ?case
  proof (cases cur)
    case None
    show ?thesis
    proof (cases "slice_offset g n")
      case none: None
      show ?thesis by (rule Cons.IH [of None "acc @ [n]"]) (use Cons None none in auto)
    next
      case (Some off)
      then obtain x where x: "arr_get (n_inputs (g_node g n)) 1 = Some (Some x)"
        using Cons(2) None by (auto split: option.splits)
      have "x < g_next g" using input_at_below [OF Cons(3), of n 1 x] Cons(4) x by (simp add: input_at_def)
      then show ?thesis
        by (intro Cons.IH [of "Some \<lparr>cur_slice = n, sliced_node = x, run_type = n_type (g_node g n), run_bits = size_of X g n,
            run_offset = off\<rparr>" acc]) (use Cons None Some x in auto)
    qed
  next
    case (Some r)
    obtain m g1 where e: "emit_run X r g = (m, g1)" by force
    show ?thesis
    proof (cases "slice_offset g n")
      case None
      then have "fuse_loop X ns None (acc @ [m]) g1 = Some (nodes, g')" using Cons(2) Some e by simp
      then show ?thesis by (rule stop [OF Some e])
    next
      case off: (Some off)
      then obtain adj where adj: "are_adjacent_slices X g (cur_slice r) n = Some adj"
        using Cons(2) Some by (auto simp: bind_eq_Some_conv)
      show ?thesis
      proof (cases adj)
        case True
        show ?thesis
          by (rule Cons.IH [of "Some (r\<lparr>run_bits := run_bits r + size_of X g n, run_offset := off\<rparr>)" acc])
            (use Cons Some off adj True in auto)
      next
        case False
        then have "fuse_loop X ns None (acc @ [m]) g1 = Some (nodes, g')" using Cons(2) Some e off adj by simp
        then show ?thesis by (rule stop [OF Some e])
      qed
    qed
  qed
qed

lemma grown_redefine_as_slices:
  assumes "graph_ok g" "fused < g_next g" "\<forall>d \<in> set ds. d < fused"
  shows "grown g (redefine_as_slices X fused ds off g)"
  using assms
proof (induction ds arbitrary: off g)
  case (Cons d ds)
  obtain n g1 where e: "slice X (n_type (g_node g d)) fused off g = (n, g1)" by force
  note sl = grown_slice [OF Cons(2) e Cons(3)]
  have d: "d < fused" "d \<noteq> n" "d < g_next g1" using Cons(3,4) sl(3) grownD(2) [OF sl(1), of d] by auto
  note re = grown_replace [OF grownD(1) [OF sl(1)] d(2,3) sl(2)]
  have "fused < g_next (replace d n g1)" using Cons(3) grownD(2) [OF grown_trans [OF sl(1) re]] by blast
  then have "grown (replace d n g1) (redefine_as_slices X fused ds (off + int (size_of X (replace d n g1) d)) (replace d n g1))"
    using Cons(4) by (intro Cons.IH grownD(1) [OF re]) auto
  then show ?case using e sl(1) re by (auto simp: Let_def intro: grown_trans)
qed (simp add: grown_refl)

lemma grown_fuse_defs:
  assumes "graph_ok g" "fuse_defs X dt nodes g = Some (Some (n, g'))" "\<forall>n \<in> set nodes. n < g_next g"
  shows "grown g g' \<and> n < g_next g'"
proof -
  obtain first cf where first: "arr_get nodes 0 = Some first" and cf: "arr_get (n_inputs (g_node g first)) 0 = Some cf"
    using assms(2) by (auto simp: fuse_defs_def bind_eq_Some_conv split: if_splits)
  let ?stg = "make_sequence_storage X dt (map (\<lambda>n. n_storage (g_node g n)) nodes)"
  obtain fused g1 where d: "m_def cf ?stg dt g = (fused, g1)" by force
  have n: "n = fused" "g' = redefine_as_slices X fused (rev nodes) 0 g1"
    using assms(2) first cf d by (auto simp: fuse_defs_def bind_eq_Some_conv split: if_splits)
  have "first < g_next g" using first assms(3) by (cases nodes) (auto simp: arr_get_def)
  moreover have "cf \<in> set (ins g first)" using cf by (cases "ins g first") (auto simp: arr_get_def ins_def)
  ultimately have "\<forall>d. Some d \<in> set [cf] \<longrightarrow> d < g_next g" using input_below [OF assms(1), of first] by auto
  note new = grown_new [OF assms(1) d [unfolded m_def_def] this]
  have "grown g1 g'" unfolding n using new assms(3) by (intro grown_redefine_as_slices) (auto simp: grown_def)
  then show ?thesis using new n(1) grown_trans grownD(2) by auto
qed

lemma grown_seq:
  assumes ok: "graph_ok g" and s: "seq X dt xs g = Some (n, g')" and xs: "\<forall>x \<in> set xs. x < g_next g"
  shows "grown g g'" "n < g_next g'"
proof -
  obtain nodes g1 where f: "fuse_adjacent_slices X (flatten_nested_sequences g xs) g = Some (nodes, g1)"
    using s by (auto simp: seq_def bind_eq_Some_conv)
  have 1: "grown g g1" "\<forall>n \<in> set nodes. n < g_next g1"
    using grown_fuse_loop [OF f [unfolded fuse_adjacent_slices_def] ok flatten_below [OF ok xs]] by simp_all
  note ok1 = grownD(1) [OF 1(1)]
  have eq: "(if length nodes = 1 then Some (nodes ! 0, g1)
     else case fuse_adjacent_constants X dt nodes g1 of Some res \<Rightarrow> Some res
       | None \<Rightarrow> Option.bind (fuse_defs X dt nodes g1) (\<lambda>def. Some (case def of Some res \<Rightarrow> res | None \<Rightarrow> m_seq dt nodes g1)))
     = Some (n, g')"
    using s by (simp add: seq_def f)
  consider "length nodes = 1" "n = nodes ! 0" "g' = g1"
    | v where "m_const (base X) (create_const X dt v) g1 = (n, g')"
    | "fuse_defs X dt nodes g1 = Some (Some (n, g'))" | "m_seq dt nodes g1 = (n, g')"
  proof (cases "length nodes = 1")
    case True
    then show ?thesis using eq that(1) by simp
  next
    case False
    show ?thesis
    proof (cases "fuse_adjacent_constants X dt nodes g1")
      case None
      then show ?thesis using eq False that(3,4) by (auto simp: bind_eq_Some_conv split: option.splits)
    next
      case (Some res)
      then show ?thesis using eq False that(2) by (auto simp: fuse_adjacent_constants_def Let_def split: if_splits)
    qed
  qed
  then have "grown g1 g' \<and> n < g_next g'"
  proof cases
    case 1
    then show ?thesis using grown_refl [OF ok1] \<open>\<forall>n \<in> set nodes. n < g_next g1\<close> by (cases nodes) auto
  next
    case (2 v)
    show ?thesis using grown_new [OF ok1 2 [unfolded m_const_def]] by simp
  next
    case 3
    show ?thesis by (rule grown_fuse_defs [OF ok1 3 1(2)])
  next
    case 4
    show ?thesis using grown_new [OF ok1 4 [unfolded m_seq_def]] 1(2) by auto
  qed
  then show "grown g g'" "n < g_next g'" using grown_trans [OF 1(1)] by blast+
qed

section \<open>Operations\<close>

lemma grown_m_const: "\<lbrakk>graph_ok g; m_const R c g = (n, g')\<rbrakk> \<Longrightarrow> grown g g' \<and> n < g_next g' \<and> n = g_next g"
  using grown_new [of g "ConstantNode c" "const_type R c" None "[None]" n g'] by (simp add: m_const_def)

lemma grown_m_bin:
  "\<lbrakk>graph_ok g; m_bin dt op None l r g = (n, g'); l < g_next g; r < g_next g\<rbrakk> \<Longrightarrow> grown g g' \<and> n < g_next g' \<and> n = g_next g"
  using grown_new [of g "BinaryNode op" dt None "[None, Some l, Some r]" n g'] by (simp add: m_bin_def)

lemma grown_fold_inner:
  assumes ok: "graph_ok g" and f: "fold_inner R inverted dt left right c g = Some (l, r, c', g')" and le: "left < g_next g" "right < g_next g"
  shows "grown g g'" "l < g_next g'" "r < g_next g'"
proof -
  have cases: "l = left \<and> r = right \<and> g' = g \<or> input_at g left 1 = Some l \<and> (\<exists>k. m_const R k g = (r, g'))"
    using f by (auto simp: fold_inner_def Let_def case_prod_unfold bind_eq_Some_conv simp del: One_nat_def
        split: node_kind.splits if_splits option.splits) blast+
  have "grown g g' \<and> l < g_next g' \<and> r < g_next g'"
    using cases
  proof (elim disjE conjE exE)
    fix k assume l: "input_at g left 1 = Some l" and m: "m_const R k g = (r, g')"
    note m = grown_m_const [OF ok m]
    then show ?thesis using grownD(2) input_at_below [OF ok le(1) l] by blast
  qed (use grown_refl [OF ok] le in simp)
  then show "grown g g'" "l < g_next g'" "r < g_next g'" by blast+
qed

lemma grown_add_constant:
  assumes ok: "graph_ok g" and a: "add_constant R dt op opposite None (l, r, c, g) = (n, g')" and le: "l < g_next g" "r < g_next g"
  shows "grown g g' \<and> n < g_next g'"
proof -
  show ?thesis
  proof (cases "is_zero R c")
    case True
    then show ?thesis using a grown_refl [OF ok] le by (simp add: add_constant_def)
  next
    case zero: False
    show ?thesis
    proof (cases "is_negative R c")
      case True
      obtain m g1 where m: "m_const R (negate R c) g = (m, g1)" by force
      have k: "grown g g1" "m < g_next g1" using grown_m_const [OF ok m] by simp_all
      have b: "m_bin dt opposite None l m g1 = (n, g')" using a zero True m by (simp add: add_constant_def)
      show ?thesis using grown_m_bin [OF grownD(1) [OF k(1)] b grownD(2) [OF k(1) le(1)] k(2)] grown_trans [OF k(1)] by blast
    next
      case False
      then have "m_bin dt op None l r g = (n, g')" using a zero by (simp add: add_constant_def)
      then show ?thesis using grown_m_bin [OF ok _ le] by blast
    qed
  qed
qed

lemma grown_bin_op:
  assumes ok: "graph_ok g" and b: "bin_op R dt op None left right c g = Some (n, g')" and le: "left < g_next g" "right < g_next g"
  shows "grown g g' \<and> n < g_next g'"
proof -
  have folded: ?thesis if f: "fold_inner R inverted dt left right k g = Some a" and a: "add_constant R dt o1 o2 None a = (n, g')"
    for inverted k a o1 o2
  proof -
    obtain l r c' g1 where a': "a = (l, r, c', g1)" using prod_cases4 by blast
    note fi = grown_fold_inner [OF ok f [unfolded a'] le]
    show ?thesis using grown_add_constant [OF grownD(1) [OF fi(1)] a [unfolded a'] fi(2,3)] grown_trans [OF fi(1)] by blast
  qed
  have binary: ?thesis if "m_bin dt op None left right g = (n, g')" using grown_m_bin [OF ok that le] by blast
  have const: ?thesis if "m_const R k g = (n, g')" for k using grown_m_const [OF ok that] by blast
  have same: ?thesis if "n = left" "g' = g" using grown_refl [OF ok] le that by simp
  consider "op = Op_IAdd" | "op = Op_ISub" | "op \<in> {Op_And, Op_Or, Op_Xor}" | "op \<notin> {Op_IAdd, Op_ISub, Op_And, Op_Or, Op_Xor}" by blast
  then show ?thesis
  proof cases
    case 1
    then show ?thesis using b folded binary by (auto simp: bin_op_def split: option.splits)
  next
    case 2
    then show ?thesis using b folded binary const by (auto simp: bin_op_def split: option.splits if_splits)
  next
    case 3
    then show ?thesis using b binary const same by (auto simp: bin_op_def split: option.splits if_splits)
  next
    case 4
    then have "bin_op R dt op None left right c g = Some (m_bin dt op None left right g)" by (cases op) (simp_all add: bin_op_def)
    then show ?thesis using b binary by simp
  qed
qed

lemma grown_bin:
  assumes ok: "graph_ok g" and b: "bin R dt op None left right g = Some (n, g')" and le: "left < g_next g" "right < g_next g"
  shows "grown g g'" "n < g_next g'" "op \<in> {Op_Shl, Op_Shr, Op_Sar} \<Longrightarrow> g_next g \<le> n"
proof -
  have "(\<exists>k. m_const R k g = (n, g')) \<or> (\<exists>c. bin_op R dt op None right left c g = Some (n, g')) \<and> is_symmetric op
      \<or> (\<exists>c. bin_op R dt op None left right c g = Some (n, g'))"
    using b by (auto simp: bin_def split: option.splits if_splits)
  then show "grown g g'" "n < g_next g'" "op \<in> {Op_Shl, Op_Shr, Op_Sar} \<Longrightarrow> g_next g \<le> n"
    using grown_m_const [OF ok] grown_bin_op [OF ok _ le] grown_bin_op [OF ok _ le(2,1)] grown_m_bin [OF ok _ le]
    by (auto simp: bin_op_def is_symmetric_def)
qed

lemma grown_neg:
  assumes ok: "graph_ok g" and b: "neg dt i g = Some (n, g')" and le: "i < g_next g"
  shows "grown g g'" "n < g_next g'"
proof -
  have "input_at g i 1 = Some n \<and> g' = g \<or> new_node (UnaryNode Un_Neg) dt None [None, Some i] g = (n, g')"
    using b by (auto simp: neg_def m_unary_def split: if_splits)
  then show "grown g g'" "n < g_next g'"
    using grown_refl [OF ok] input_at_below [OF ok le] grown_new [OF ok, of "UnaryNode Un_Neg" dt None "[None, Some i]" n g'] le by auto
qed

section \<open>The wide nodes\<close>

text \<open>The nodes of the definitions \<open>wide_\<dots>\<close>: the slices are new when the wide node is.\<close>

definition wide_ok :: "('t, 'c, 's) graph \<Rightarrow> nat \<times> nat \<times> nat \<times> ('t, 'c, 's) graph \<Rightarrow> bool" where
  "wide_ok g res \<longleftrightarrow> (case res of (wide, lo, hi, g') \<Rightarrow>
     grown g g' \<and> wide < g_next g' \<and> lo < g_next g' \<and> hi < g_next g' \<and> g_next g \<le> hi \<and> (g_next g \<le> wide \<longrightarrow> g_next g \<le> lo))"

lemma wide_ok_split:
  assumes "grown g g1" "wide < g_next g1" "0 < bits L dt_lo"
  shows "wide_ok g (wide, split_wide L dt_lo dt_hi wide g1)"
proof -
  obtain lo g2 where lo: "slice (seqs L) dt_lo wide 0 g1 = (lo, g2)" by force
  obtain hi g3 where hi: "slice (seqs L) dt_hi wide (int (bits L dt_lo)) g2 = (hi, g3)" by force
  note l = grown_slice [OF grownD(1) [OF assms(1)] lo assms(2)]
  have w: "wide < g_next g2" by (rule grownD(2) [OF l(1) assms(2)])
  note h = grown_slice [OF grownD(1) [OF l(1)] hi w]
  have "int (bits L dt_lo) \<noteq> 0" using assms(3) by simp
  then have "g_next g2 \<le> hi" by (rule h(4))
  moreover have "g_next g \<le> g_next g1" "g_next g1 \<le> g_next g2" using assms(1) l(1) by (simp_all add: grown_def)
  ultimately show ?thesis
    using grown_trans [OF assms(1) grown_trans [OF l(1) h(1)]] grownD(2) [OF h(1)] w l(2,3) h(2)
    by (auto simp: wide_ok_def split_wide_def lo hi)
qed

lemma wide_sum_ok:
  assumes ok: "graph_ok g" and pos: "0 < bits L (type_at g b)" and w: "wide_sum L op a b c d g = Some res"
    and le: "a < g_next g" "b < g_next g" "c < g_next g" "d < g_next g"
  shows "wide_ok g res"
proof -
  let ?dt = "combine_types L (type_at g a) (type_at g b)"
  have "\<exists>p. seq (seqs L) ?dt [a, b] g = Some p" using w unfolding wide_sum_def Let_def bind_eq_Some_conv by blast
  then obtain s1 g1 where 1: "seq (seqs L) ?dt [a, b] g = Some (s1, g1)" by auto
  have "\<exists>p. seq (seqs L) ?dt [c, d] g1 = Some p"
    using w unfolding wide_sum_def Let_def 1 Option.bind.simps prod.case bind_eq_Some_conv by blast
  then obtain s2 g2 where 2: "seq (seqs L) ?dt [c, d] g1 = Some (s2, g2)" by auto
  have "\<exists>p. bin (reko_of L) ?dt op None s1 s2 g2 = Some p"
    using w unfolding wide_sum_def Let_def 1 2 Option.bind.simps prod.case bind_eq_Some_conv by blast
  then obtain n g3 where 3: "bin (reko_of L) ?dt op None s1 s2 g2 = Some (n, g3)" by auto
  have res: "res = (n, split_wide L (type_at g b) (type_at g a) n g3)" using w 1 2 3 by (simp add: wide_sum_def Let_def)
  have e1: "\<forall>x \<in> set [a, b]. x < g_next g" using le by simp
  note h1 = grown_seq [OF ok 1 e1]
  have e2: "\<forall>x \<in> set [c, d]. x < g_next g1" using le grownD(2) [OF h1(1)] by simp
  note h2 = grown_seq [OF grownD(1) [OF h1(1)] 2 e2]
  note h3 = grown_bin [OF grownD(1) [OF h2(1)] 3 grownD(2) [OF h2(1) h1(2)] h2(2)]
  show ?thesis
    unfolding res by (rule wide_ok_split [OF grown_trans [OF h1(1) grown_trans [OF h2(1) h3(1)]] h3(2) pos])
qed

lemma wide_shift_ok:
  assumes ok: "graph_ok g" and pos: "0 < bits L dt_lo" and w: "wide_shift L op dt_hi dt_lo a b amount g = Some res"
    and le: "a < g_next g" "b < g_next g" "amount < g_next g" and op: "op \<in> {Op_Shl, Op_Shr, Op_Sar}"
  shows "wide_ok g res \<and> g_next g \<le> fst res"
proof -
  let ?dt = "combine_types L dt_hi dt_lo"
  have "\<exists>p. seq (seqs L) ?dt [a, b] g = Some p" using w unfolding wide_shift_def Let_def bind_eq_Some_conv by blast
  then obtain s1 g1 where 1: "seq (seqs L) ?dt [a, b] g = Some (s1, g1)" by auto
  have "\<exists>p. bin (reko_of L) ?dt op None s1 amount g1 = Some p"
    using w unfolding wide_shift_def Let_def 1 Option.bind.simps prod.case bind_eq_Some_conv by blast
  then obtain n g2 where 2: "bin (reko_of L) ?dt op None s1 amount g1 = Some (n, g2)" by auto
  have res: "res = (n, split_wide L dt_lo dt_hi n g2)" using w 1 2 by (simp add: wide_shift_def Let_def)
  have e1: "\<forall>x \<in> set [a, b]. x < g_next g" using le by simp
  note h1 = grown_seq [OF ok 1 e1]
  note h2 = grown_bin [OF grownD(1) [OF h1(1)] 2 h1(2) grownD(2) [OF h1(1) le(3)]]
  have "g_next g \<le> n" using h2(3) [OF op] h1(1) by (simp add: grown_def)
  then show ?thesis unfolding res using wide_ok_split [OF grown_trans [OF h1(1) h2(1)] h2(2) pos] by simp
qed

lemma wide_negation_ok:
  assumes ok: "graph_ok g" and pos: "0 < bits L dt_lo" and w: "wide_negation L dt_hi dt_lo a b g = Some res"
    and le: "a < g_next g" "b < g_next g"
  shows "wide_ok g res"
proof -
  let ?dt = "combine_types L dt_hi dt_lo"
  have "\<exists>p. seq (seqs L) ?dt [a, b] g = Some p" using w unfolding wide_negation_def Let_def bind_eq_Some_conv by blast
  then obtain s1 g1 where 1: "seq (seqs L) ?dt [a, b] g = Some (s1, g1)" by auto
  have "\<exists>p. neg ?dt s1 g1 = Some p"
    using w unfolding wide_negation_def Let_def 1 Option.bind.simps prod.case bind_eq_Some_conv by blast
  then obtain n g2 where 2: "neg ?dt s1 g1 = Some (n, g2)" by auto
  have res: "res = (n, split_wide L dt_lo dt_hi n g2)" using w 1 2 by (simp add: wide_negation_def Let_def)
  have e1: "\<forall>x \<in> set [a, b]. x < g_next g" using le by simp
  note h1 = grown_seq [OF ok 1 e1]
  note h2 = grown_neg [OF grownD(1) [OF h1(1)] 2 h1(2)]
  show ?thesis unfolding res by (rule wide_ok_split [OF grown_trans [OF h1(1) h2(1)] h2(2) pos])
qed

section \<open>Condition nodes\<close>

lemma replace_input_kind: "replace_input n i r g = Some g' \<Longrightarrow> n_kind (g_node g' j) = n_kind (g_node g j)"
  by (auto simp: replace_input_def remove_output_def split: if_splits option.splits)

text \<open>A user of a node has inputs, so a condition among them has the one that \<open>ReplaceInput\<close> replaces.\<close>

lemma replace_conds_returns:
  assumes "graph_ok g" "wide < g_next g" "\<forall>u \<in> set us. u < g_next g \<and> ins g u \<noteq> []"
  obtains g' where "replace_conds wide us g = Some g'" "grown g g'"
proof -
  have "\<exists>g'. replace_conds wide us g = Some g' \<and> grown g g'"
    using assms
  proof (induction us arbitrary: g)
    case (Cons u us)
    show ?case
    proof (cases "n_kind (g_node g u) = CondNode")
      case True
      have u: "u < g_next g" "ins g u \<noteq> []" using Cons.prems(3) by simp_all
      have "cond_shape (ins g u)" using Cons.prems(1) True u(1) by (simp add: graph_ok_def conds_ok_def)
      then obtain c x where i: "ins g u = [c, Some x]" using u(2) by (auto simp: cond_shape_def)
      then obtain g1 where g1: "replace_input u 1 wide g = Some g1" by (auto simp: replace_input_def simp flip: ins_def)
      obtain old where r: "g_next g1 = g_next g" "\<And>j. ins g1 j = (if j = u then (ins g u)[1 := Some wide] else ins g j)"
        using replace_input_simps [OF g1] by metis
      have "conds_ok g1"
        using Cons.prems(1) cond_shape_simps(3) r replace_input_kind [OF g1] by (auto simp: graph_ok_def conds_ok_def)
      moreover have "edges_ok g1"
        using edges_replace_input [OF _ u(1) Cons.prems(2) g1] Cons.prems(1) by (simp add: graph_ok_def)
      ultimately have g: "grown g g1" using r(1) by (simp add: grown_def graph_ok_def)
      have "\<exists>g'. replace_conds wide us g1 = Some g' \<and> grown g1 g'"
        by (rule Cons.IH) (use g Cons.prems r i in \<open>auto simp: grown_def\<close>)
      then show ?thesis using True g1 g grown_trans by fastforce
    next
      case False
      then show ?thesis using Cons by simp
    qed
  qed (auto simp: grown_refl)
  then show ?thesis using that by blast
qed

lemma replace_cond_ofs_returns:
  assumes "graph_ok g" "wide < g_next g" "n < g_next g"
  obtains g' where "replace_cond_ofs n wide g = Some g'" "grown g g'"
proof -
  have e: "edges_ok g" using assms(1) by (simp add: graph_ok_def)
  have "\<forall>u \<in> set (outs g n). u < g_next g \<and> ins g u \<noteq> []"
  proof
    fix u assume u: "u \<in> set (outs g n)"
    then have le: "u < g_next g" by (rule edges_okD(2) [OF e assms(3)])
    have "count_list (outs g n) u \<noteq> 0" using u by (simp add: count_list_0_iff)
    then show "u < g_next g \<and> ins g u \<noteq> []" using edges_okD(1) [OF e assms(3) le] le by auto
  qed
  from replace_conds_returns [OF assms(1,2) this] that show ?thesis unfolding replace_cond_ofs_def by blast
qed

section \<open>Matched patterns\<close>

definition is_operation :: "('t, 'c, 's) graph \<Rightarrow> nat \<Rightarrow> bool" where
  "is_operation g u \<longleftrightarrow> binary_op g u \<noteq> None \<or> is_negation g u"

lemma binary_op_eq: "binary_op g n = Some op \<longleftrightarrow> n_kind (g_node g n) = BinaryNode op"
  by (auto simp: binary_op_def split: node_kind.splits)

lemma is_add_sub_Some:
  assumes "is_add_sub L g n = Some (Some (op, left, right))"
  shows "n_kind (g_node g n) = BinaryNode op" "input_at g n 1 = Some left" "input_at g n 2 = Some right"
  using assms by (auto simp: is_add_sub_def binary_op_eq bind_eq_Some_conv split: option.splits if_splits)

lemma high_sum_cases:
  assumes "high_sum L g addc op hi_right us = Some (r, u)"
  obtains "r = hi_right" "u = addc"
    | "u \<in> set us" "n_kind (g_node g u) = BinaryNode op" "input_at g u 1 = Some addc" "input_at g u 2 = Some r"
  using assms
proof (induction us arbitrary: thesis)
  case (Cons v us)
  obtain m where m: "is_add_sub L g v = Some m" using Cons.prems(3) by (auto simp: bind_eq_Some_conv)
  show ?case
  proof (cases "high_sum L g addc op hi_right us = Some (r, u)")
    case True
    then show ?thesis using Cons.IH [OF _ _ True] Cons.prems(1,2) by (metis list.set_intros(2))
  next
    case False
    then obtain "m = Some (op, addc, r)" "u = v"
      using Cons.prems(3) m by (auto simp: bind_eq_Some_conv split: option.splits if_splits)
    then show ?thesis using is_add_sub_Some [of L g v op addc r] m Cons.prems(2) by simp
  qed
qed simp

section \<open>Fusing\<close>

text \<open>The branch that a result was taken from.\<close>

lemma taken:
  "\<lbrakk>Option.bind m f = Some y; \<And>x. \<lbrakk>m = Some x; f x = Some y\<rbrakk> \<Longrightarrow> thesis\<rbrakk> \<Longrightarrow> thesis"
  "\<lbrakk>(case m of None \<Rightarrow> a | Some x \<Rightarrow> h x) = Some y; \<lbrakk>m = None; a = Some y\<rbrakk> \<Longrightarrow> thesis; \<And>x. \<lbrakk>m = Some x; h x = Some y\<rbrakk> \<Longrightarrow> thesis\<rbrakk>
    \<Longrightarrow> thesis"
  "\<lbrakk>(case p of (u, v) \<Rightarrow> k u v) = Some y; \<And>u v. \<lbrakk>p = (u, v); k u v = Some y\<rbrakk> \<Longrightarrow> thesis\<rbrakk> \<Longrightarrow> thesis"
  "\<lbrakk>(if b then c else d) = Some y; \<lbrakk>b; c = Some y\<rbrakk> \<Longrightarrow> thesis; \<lbrakk>\<not> b; d = Some y\<rbrakk> \<Longrightarrow> thesis\<rbrakk> \<Longrightarrow> thesis"
  by (auto simp: bind_eq_Some_conv split: if_splits option.splits prod.splits)

lemma rewired:
  assumes "wide_ok g (wide, lo, hi, g1)" "g_next g \<le> wide" "n < g_next g" "p < g_next g" "q < g_next g"
    "replace_cond_ofs n wide g1 = Some g2"
  shows "grown g g2" "grown g (replace p hi (replace q lo g2))" "grown g (replace q lo (replace p hi g2))"
proof -
  have w: "grown g g1" "wide < g_next g1" "lo < g_next g1" "hi < g_next g1" "g_next g \<le> lo" "g_next g \<le> hi"
    using assms(1,2) by (simp_all add: wide_ok_def)
  obtain g2' where "replace_cond_ofs n wide g1 = Some g2'" "grown g1 g2'"
    by (rule replace_cond_ofs_returns [OF grownD(1) [OF w(1)] w(2) grownD(2) [OF w(1) assms(3)]])
  then have g2: "grown g1 g2" using assms(6) by simp
  show g: "grown g g2" by (rule grown_trans [OF w(1) g2])
  have twice: "grown g (replace a x (replace b y g2))"
    if "a < g_next g" "b < g_next g" "x < g_next g1" "y < g_next g1" "g_next g \<le> x" "g_next g \<le> y" for a b x y
  proof -
    have le: "b \<noteq> y" "b < g_next g2" "y < g_next g2" "a \<noteq> x" "a < g_next g2" "x < g_next g2"
      using that grownD(2) [OF g] grownD(2) [OF g2] by auto
    note r1 = grown_replace [OF grownD(1) [OF g] le(1-3)]
    note r2 = grown_replace [OF grownD(1) [OF r1] le(4) grownD(2) [OF r1 le(5)] grownD(2) [OF r1 le(6)]]
    show ?thesis by (rule grown_trans [OF g grown_trans [OF r1 r2]])
  qed
  show "grown g (replace p hi (replace q lo g2))" "grown g (replace q lo (replace p hi g2))"
    using twice [of p q hi lo] twice [of q p lo hi] assms(4,5) w(3-6) by blast+
qed

lemma grown_remove: "\<lbrakk>grown g g'; n < g_next g\<rbrakk> \<Longrightarrow> grown g (remove_from_inputs n g')"
  using grown_remove_from_inputs [of g' n] by (auto simp: grown_def)

lemma output_below: "\<lbrakk>graph_ok g; n < g_next g; u \<in> set (outs g n)\<rbrakk> \<Longrightarrow> u < g_next g"
  using edges_okD(2) [of g n u] by (simp add: graph_ok_def)

lemma unmasked_below:
  assumes "graph_ok g" "n < g_next g" "unmasked g n = Some m"
  shows "m < g_next g"
  using assms(2,3) input_at_below [OF assms(1,2)] by (auto simp: unmasked_def bind_eq_Some_conv split: if_splits)

lemma masked_cond_below:
  assumes "graph_ok g" "n < g_next g" "is_maybe_masked_cond_node g n = Some (Some m)"
  shows "m < g_next g"
  using unmasked_below [OF assms(1,2)] assms(3) by (auto simp: is_maybe_masked_cond_node_def bind_eq_Some_conv split: if_splits)

text \<open>Operands of unary and binary operations, and their results, are no control-flow nodes: they have a size.\<close>

definition sized :: "('t, 'c, 's) reko_long \<Rightarrow> ('t, 'c, 's) graph \<Rightarrow> bool" where
  "sized L g \<longleftrightarrow> (\<forall>u < g_next g. is_operation g u \<longrightarrow>
     0 < bits L (type_at g u) \<and> (\<forall>x. input_at g u 1 = Some x \<longrightarrow> 0 < bits L (type_at g x)))"

lemma sizedD:
  assumes "sized L g" "u < g_next g" "binary_op g u = Some op \<or> is_negation g u"
  shows "0 < bits L (type_at g u)" "input_at g u 1 = Some x \<Longrightarrow> 0 < bits L (type_at g x)"
  using assms by (auto simp: sized_def is_operation_def)

lemma add_sub_grown:
  assumes ok: "graph_ok g" and pos: "sized L g" and n: "addc < g_next g"
    and f: "try_fuse_add_sub L addc op (g, r) = Some (Some wide, g', r')" and new: "g_next g \<le> wide"
  shows "grown g g'"
proof -
  note below = input_at_below [OF ok]
  obtain hi_left hi_right cy cond flags lo_sum op_lo lo_left lo_right operand hi_sum lo hi g1 g2 where
    i: "input_at g addc 2 = Some hi_left" "input_at g addc 3 = Some hi_right" "input_at g addc 4 = Some cy"
    and c: "is_maybe_masked_cond_node g cy = Some (Some cond)" "input_at g cond 1 = Some flags"
      "lo_sum = flags \<or> input_at g flags 1 = Some lo_sum"
      "is_add_sub L g lo_sum = Some (Some (op_lo, lo_left, lo_right))"
    and h: "operand = hi_right \<and> hi_sum = addc \<or> high_sum L g addc op hi_right (outs g addc) = Some (operand, hi_sum)"
    and w: "wide_sum L op hi_left lo_left operand lo_right g = Some (wide, lo, hi, g1)"
    and g2: "replace_cond_ofs addc wide g1 = Some g2"
    and g': "g' = remove_from_inputs lo_sum (remove_from_inputs addc (replace lo_sum lo (replace hi_sum hi g2)))"
    using f unfolding try_fuse_add_sub_def prod.case Let_def
    by (elim taken) (simp_all del: One_nat_def, (blast+)?)
  have le: "hi_left < g_next g" "hi_right < g_next g" "cy < g_next g" using below [OF n] i by blast+
  have cond: "cond < g_next g" by (rule masked_cond_below [OF ok le(3) c(1)])
  have flags: "flags < g_next g" by (rule below [OF cond c(2)])
  then have lo_sum: "lo_sum < g_next g" using c(3) below [OF flags] by blast
  have lo_le: "lo_left < g_next g" "lo_right < g_next g"
    using is_add_sub_Some(2,3) [OF c(4)] below [OF lo_sum] by blast+
  have "operand < g_next g \<and> hi_sum < g_next g"
    using h
  proof
    assume "high_sum L g addc op hi_right (outs g addc) = Some (operand, hi_sum)"
    then show ?thesis
      by (cases rule: high_sum_cases) (use le n below output_below [OF ok n] in blast)+
  qed (use le n in simp)
  then have hi_le: "operand < g_next g" "hi_sum < g_next g" by simp_all
  have "binary_op g lo_sum = Some op_lo" using is_add_sub_Some(1) [OF c(4)] by (simp add: binary_op_eq)
  then have sized: "0 < bits L (type_at g lo_left)" using sizedD(2) [OF pos lo_sum] is_add_sub_Some(2) [OF c(4)] by blast
  note wo = wide_sum_ok [OF ok sized w le(1) lo_le(1) hi_le(1) lo_le(2)]
  show ?thesis
    unfolding g' by (intro grown_remove rewired(3) [OF wo new n hi_le(2) lo_sum g2] n lo_sum)
qed

lemma sar_rorc_grown:
  assumes ok: "graph_ok g" and pos: "0 < bits L (type_at g rorc)" and n: "rorc < g_next g"
    and f: "try_fuse_sar_rorc L rorc (g, r) = Some (Some wide, g', r')"
  shows "grown g g'"
proof -
  note below = input_at_below [OF ok]
  obtain carry cy shift amount left right lo hi g1 g2 where
    i: "input_at g rorc 4 = Some carry" "unmasked g carry = Some cy" "input_at g cy 1 = Some shift"
      "input_at g shift 2 = Some amount" "input_at g shift 1 = Some left" "input_at g rorc 2 = Some right"
    and op: "binary_op g shift = Some Op_Sar \<or> binary_op g shift = Some Op_Shr"
    and w: "wide_shift L (the (binary_op g shift)) (type_at g shift) (type_at g rorc) left right amount g = Some (wide, lo, hi, g1)"
    and g2: "replace_cond_ofs rorc wide g1 = Some g2"
    and g': "g' = remove_from_inputs shift (remove_from_inputs rorc (replace shift hi (replace rorc lo g2)))"
    using f unfolding try_fuse_sar_rorc_def prod.case Let_def
    by (elim taken) (simp_all del: One_nat_def, (blast+)?)
  have cy: "cy < g_next g" by (rule unmasked_below [OF ok below [OF n i(1)] i(2)])
  have shift: "shift < g_next g" by (rule below [OF cy i(3)])
  have le: "amount < g_next g" "left < g_next g" "right < g_next g" using below [OF shift] below [OF n] i(4-6) by blast+
  have "the (binary_op g shift) \<in> {Op_Shl, Op_Shr, Op_Sar}" using op by auto
  then have wo: "wide_ok g (wide, lo, hi, g1)" "g_next g \<le> wide" using wide_shift_ok [OF ok pos w le(2,3,1)] by simp_all
  show ?thesis unfolding g' by (intro grown_remove rewired(2) [OF wo n shift n g2] n shift)
qed

lemma shl_rolc_grown:
  assumes ok: "graph_ok g" and pos: "sized L g" and n: "rolc < g_next g"
    and f: "try_fuse_shl_rolc L rolc (g, r) = Some (Some wide, g', r')"
  shows "grown g g'"
proof -
  note below = input_at_below [OF ok]
  obtain carry cy shift amount left right lo hi g1 g2 where
    i: "input_at g rolc 4 = Some carry" "unmasked g carry = Some cy" "input_at g cy 1 = Some shift"
      "input_at g shift 2 = Some amount" "input_at g rolc 2 = Some left" "input_at g shift 1 = Some right"
    and shift_op: "binary_op g shift = Some Op_Shl"
    and w: "wide_shift L Op_Shl (type_at g rolc) (type_at g shift) left right amount g = Some (wide, lo, hi, g1)"
    and g2: "replace_cond_ofs rolc wide g1 = Some g2"
    and g': "g' = remove_from_inputs rolc (remove_from_inputs shift (replace rolc hi (replace shift lo g2)))"
    using f unfolding try_fuse_shl_rolc_def prod.case Let_def
    by (elim taken) (simp_all del: One_nat_def, (blast+)?)
  have cy: "cy < g_next g" by (rule unmasked_below [OF ok below [OF n i(1)] i(2)])
  have shift: "shift < g_next g" by (rule below [OF cy i(3)])
  have le: "amount < g_next g" "left < g_next g" "right < g_next g" using below [OF shift] below [OF n] i(4-6) by blast+
  have sized: "0 < bits L (type_at g shift)" using sizedD(1) [OF pos shift] shift_op by blast
  have wo: "wide_ok g (wide, lo, hi, g1)" "g_next g \<le> wide" using wide_shift_ok [OF ok sized w le(2,3,1)] by simp_all
  show ?thesis unfolding g' by (intro grown_remove rewired(2) [OF wo n n shift g2] n shift)
qed

lemma negation_binary_grown:
  assumes ok: "graph_ok g" and pos: "sized L g" and n: "sub < g_next g"
    and f: "try_fuse_negation_binary L sub (g, r) = Some (Some wide, g', r')" and new: "g_next g \<le> wide"
  shows "grown g g'"
proof -
  note below = input_at_below [OF ok]
  obtain sub_left sub_right right' neg_lo low high lo hi g1 g2 where
    i: "input_at g sub 1 = Some sub_left" "input_at g sub 2 = Some sub_right" "unmasked g sub_right = Some right'"
    and m: "borrowed_negation L g right' = Some (Some neg_lo)" "input_at g neg_lo 1 = Some low" "input_at g sub_left 1 = Some high"
    and w: "wide_negation L (type_at g high) (type_at g low) high low g = Some (wide, lo, hi, g1)"
    and g2: "replace_cond_ofs sub wide g1 = Some g2"
    and g': "g' = remove_from_inputs sub (replace neg_lo lo (replace sub hi g2))"
    using f unfolding try_fuse_negation_binary_def prod.case Let_def
    by (elim taken) (simp_all del: One_nat_def, (blast+)?)
  have right: "right' < g_next g" by (rule unmasked_below [OF ok below [OF n i(2)] i(3)])
  have "input_at g right' 1 = Some neg_lo \<or> (\<exists>u. input_at g right' 1 = Some u \<and> input_at g u 1 = Some neg_lo)"
    using m(1) unfolding borrowed_negation_def by (elim taken) (simp_all del: One_nat_def split: if_splits)
  then have neg_lo: "neg_lo < g_next g" using below [OF right] below by blast
  have negated: "is_negation g neg_lo"
    using m(1) unfolding borrowed_negation_def by (elim taken) (simp_all del: One_nat_def split: if_splits)
  have le: "high < g_next g" "low < g_next g" using below [OF below [OF n i(1)] m(3)] below [OF neg_lo m(2)] .
  have sized: "0 < bits L (type_at g low)" using sizedD(2) [OF pos neg_lo] negated m(2) by blast
  note wo = wide_negation_ok [OF ok sized w le]
  show ?thesis unfolding g' by (intro grown_remove rewired(3) [OF wo new n n neg_lo g2] n)
qed

lemma find_mem: "find P xs = Some x \<Longrightarrow> x \<in> set xs"
  by (auto simp: find_Some_iff)

lemma if_option_eq: "((if b then Some x else None) = Some y) = (b \<and> x = y)" "((if b then Some x else None) = None) = (\<not> b)"
  by simp_all

lemma negation_grown:
  assumes ok: "graph_ok g" and pos: "sized L g" and n: "subc < g_next g"
    and f: "try_fuse_negation L subc (g, r) = Some (Some wide, g', r')" and new: "g_next g \<le> wide"
  shows "grown g g'"
proof -
  note below = input_at_below [OF ok]
  consider zero hi_neg carry lo_neg low lo hi g1 g2 where
      "input_at g subc 3 = Some hi_neg" "input_at g subc 4 = Some carry"
      "carried_negation L g zero carry = Some (Some lo_neg)" "input_at g lo_neg 1 = Some low"
      "wide_negation L (type_at g hi_neg) (type_at g lo_neg) hi_neg low g = Some (wide, lo, hi, g1)"
      "replace_cond_ofs subc wide g1 = Some g2" "g' = remove_from_inputs subc (replace lo_neg lo (replace subc hi g2))"
    | carry high op_cy compared lo_neg low lo hi g1 g2 where
      "input_at g subc 4 = Some carry" "is_carry_ne0 L g subc carry = Some (Some (high, op_cy))" "input_at g op_cy 1 = Some compared"
      "find_negation g compared = Some lo_neg" "input_at g lo_neg 1 = Some low"
      "wide_negation L (type_at g high) (type_at g lo_neg) high low g = Some (wide, lo, hi, g1)"
      "replace_cond_ofs subc wide g1 = Some g2" "g' = remove_from_inputs subc (replace subc hi (replace lo_neg lo g2))"
    using f unfolding try_fuse_negation_def prod.case Let_def
    by (elim taken) (simp_all del: One_nat_def, (blast+)?)
  then show ?thesis
  proof cases
    case 1
    obtain cond where c: "is_maybe_masked_cond_node g carry = Some (Some cond)" "input_at g cond 1 = Some lo_neg" "is_negation g lo_neg"
      using 1(3) unfolding carried_negation_def by (elim taken) (simp_all del: One_nat_def add: if_option_eq)
    have cond: "cond < g_next g" by (rule masked_cond_below [OF ok below [OF n 1(2)] c(1)])
    have lo_neg: "lo_neg < g_next g" by (rule below [OF cond c(2)])
    have sized: "0 < bits L (type_at g lo_neg)" using sizedD(1) [OF pos lo_neg] c(3) by blast
    note wo = wide_negation_ok [OF ok sized 1(5) below [OF n 1(1)] below [OF lo_neg 1(4)]]
    show ?thesis unfolding 1(7) by (intro grown_remove rewired(3) [OF wo new n n lo_neg 1(6)] n)
  next
    case 2
    obtain hi_neg where h: "input_at g subc 2 = Some hi_neg" "input_at g hi_neg 1 = Some high"
      and cy: "op_cy = carry \<or> input_at g carry 1 = Some op_cy"
      using 2(2) unfolding is_carry_ne0_def by (elim taken) (simp_all del: One_nat_def split: if_splits)
    have op_cy: "op_cy < g_next g" using below [OF n 2(1)] below [OF below [OF n 2(1)]] cy by blast
    have compared: "compared < g_next g" by (rule below [OF op_cy 2(3)])
    have lo_neg: "lo_neg < g_next g" "is_negation g lo_neg"
    proof -
      show "is_negation g lo_neg" using 2(4) by (auto simp: find_negation_def find_Some_iff split: if_splits)
      show "lo_neg < g_next g"
      proof (cases "is_negation g compared")
        case True
        then show ?thesis using 2(4) compared by (simp add: find_negation_def)
      next
        case False
        then have "find (is_negation g) (outs g compared) = Some lo_neg" using 2(4) by (simp add: find_negation_def split: if_splits)
        then show ?thesis by (rule output_below [OF ok compared find_mem])
      qed
    qed
    have sized: "0 < bits L (type_at g lo_neg)" using sizedD(1) [OF pos lo_neg(1)] lo_neg(2) by blast
    note wo = wide_negation_ok [OF ok sized 2(6) below [OF below [OF n h(1)] h(2)] below [OF lo_neg(1) 2(5)]]
    show ?thesis unfolding 2(8) by (intro grown_remove rewired(2) [OF wo new n n lo_neg(1) 2(7)] n)
  qed
qed

lemma high_shift_mem: "find_matching_high_shift g x amount low us = Some (Some u) \<Longrightarrow> u \<in> set us"
proof (induction us)
  case (Cons v us)
  then show ?case unfolding find_matching_high_shift.simps by (elim taken) (auto split: if_splits)
qed simp

lemma long_shift_grown:
  assumes ok: "graph_ok g" and pos: "sized L g" and n: "or_node < g_next g"
    and f: "try_fuse_long_shift_right L or_node (g, r) = Some (b, g', r')"
  shows "grown g g'"
proof -
  note below = input_at_below [OF ok]
  consider "g' = g"
    | left right low_shift spill_shift low_input amount high_input high_shift wide lo hi g1 where
      "input_at g or_node 1 = Some left" "input_at g or_node 2 = Some right"
      "(low_shift, spill_shift) = (left, right) \<or> (low_shift, spill_shift) = (right, left)"
      "is_low_shift_and_spill g low_shift spill_shift"
      "input_at g low_shift 1 = Some low_input" "input_at g low_shift 2 = Some amount" "input_at g spill_shift 1 = Some high_input"
      "find_matching_high_shift g high_input amount low_shift (outs g high_input) = Some (Some high_shift)"
      "wide_shift L (the (binary_op g low_shift)) (type_at g high_input) (type_at g low_input) high_input low_input amount g
        = Some (wide, lo, hi, g1)"
      "g' = replace high_shift hi (replace or_node lo g1)"
    using f unfolding try_fuse_long_shift_right_def prod.case Let_def
    by (elim taken) (simp_all del: One_nat_def split: if_splits, (blast+)?)
  then show ?thesis
  proof cases
    case 1
    then show ?thesis using grown_refl [OF ok] by simp
  next
    case 2
    have shifts: "low_shift < g_next g" "spill_shift < g_next g" using 2(3) below [OF n 2(1)] below [OF n 2(2)] by auto
    have le: "high_input < g_next g" "low_input < g_next g" "amount < g_next g"
      using below [OF shifts(2) 2(7)] below [OF shifts(1) 2(5)] below [OF shifts(1) 2(6)] .
    have high: "high_shift < g_next g" by (rule output_below [OF ok le(1) high_shift_mem [OF 2(8)]])
    have "the (binary_op g low_shift) \<in> {Op_Shl, Op_Shr, Op_Sar}" using 2(4) by (auto simp: is_low_shift_and_spill_def)
    have "\<exists>op. binary_op g low_shift = Some op" using 2(4) by (auto simp: is_low_shift_and_spill_def)
    then have sized: "0 < bits L (type_at g low_input)" using sizedD(2) [OF pos shifts(1)] 2(5) by blast
    have "wide_ok g (wide, lo, hi, g1)" "g_next g \<le> wide" using \<open>the _ \<in> _\<close> wide_shift_ok [OF ok sized 2(9) le] by simp_all
    then have w: "grown g g1" "lo < g_next g1" "hi < g_next g1" "g_next g \<le> lo" "g_next g \<le> hi" by (simp_all add: wide_ok_def)
    have ne: "or_node \<noteq> lo" "high_shift \<noteq> hi" using n high w(4,5) by auto
    note r1 = grown_replace [OF grownD(1) [OF w(1)] ne(1) grownD(2) [OF w(1) n] w(2)]
    note r2 = grown_replace [OF grownD(1) [OF r1] ne(2) grownD(2) [OF r1 grownD(2) [OF w(1) high]] grownD(2) [OF r1 w(3)]]
    show ?thesis unfolding 2(10) by (rule grown_trans [OF w(1) grown_trans [OF r1 r2]])
  qed
qed

section \<open>Sample graphs\<close>

definition start_graph :: "(nat, nat \<times> int, unit) graph" where
  "start_graph = \<lparr>g_node = (\<lambda>_. \<lparr>n_kind = StartNode, n_number = 0, n_type = 0, n_storage = None, n_inputs = [], n_outputs = []\<rparr>),
     g_next = 0, g_number = 0\<rparr>"

text \<open>The nodes of a list, each with its kind, its size and its inputs; a reference is a position in the list.\<close>

definition build :: "((nat \<times> int) node_kind \<times> nat \<times> nat option list) list \<Rightarrow> (nat, nat \<times> int, unit) graph" where
  "build xs = foldl (\<lambda>g (k, t, ds). snd (new_node k t (if k = DefNode then Some () else None) ds g)) start_graph xs"

lemma build_snoc: "build (xs @ [(k, t, ds)]) = snd (new_node k t (if k = DefNode then Some () else None) ds (build xs))"
  by (simp add: build_def)

lemma build_fields:
  "g_next (build xs) = length xs"
  "i < length xs \<Longrightarrow> n_kind (g_node (build xs) i) = fst (xs ! i) \<and> n_type (g_node (build xs) i) = fst (snd (xs ! i))
     \<and> ins (build xs) i = snd (snd (xs ! i))"
proof (induction xs arbitrary: i rule: rev_induct)
  case (snoc x xs)
  obtain k t ds where x: "x = (k, t, ds)" using prod_cases3 by blast
  obtain n g where new: "new_node k t (if k = DefNode then Some () else None) ds (build xs) = (n, g)" by force
  have b: "build (xs @ [x]) = g" using new by (simp add: build_def x)
  note f = new_node_fields [OF new]
  { case 1
    show ?case unfolding b using f(2) snoc.IH(1) by simp }
  { case 2
    show ?case
    proof (cases "i < length xs")
      case True
      then show ?thesis unfolding b using f(6-8) [of i] snoc.IH(1) snoc.IH(2) [OF True] by (simp add: nth_append)
    next
      case False
      then have "i = n" using 2 f(1) snoc.IH(1) by simp
      then show ?thesis unfolding b using f(1,3-5) snoc.IH(1) x by (simp add: nth_append)
    qed }
qed (simp_all add: build_def start_graph_def)

lemma build_edges:
  "\<forall>i < length xs. \<forall>d. Some d \<in> set (snd (snd (xs ! i))) \<longrightarrow> d < i \<Longrightarrow> edges_ok (build xs)"
proof (induction xs rule: rev_induct)
  case Nil
  then show ?case by (simp add: build_def start_graph_def edges_ok_def)
next
  case (snoc x xs)
  obtain k t ds where x: "x = (k, t, ds)" using prod_cases3 by blast
  have "\<forall>i < length xs. \<forall>d. Some d \<in> set (snd (snd (xs ! i))) \<longrightarrow> d < i"
  proof (intro allI impI)
    fix i d assume i: "i < length xs" "Some d \<in> set (snd (snd (xs ! i)))"
    then have "i < length (xs @ [x])" "(xs @ [x]) ! i = xs ! i" by (simp_all add: nth_append)
    then show "d < i" using snoc.prems i(2) by metis
  qed
  then have "edges_ok (build xs)" by (rule snoc.IH)
  moreover have "\<forall>d. Some d \<in> set ds \<longrightarrow> d < length xs"
    using spec [OF snoc.prems, of "length xs"] x by simp
  ultimately show ?case
    using edges_new_node [of "build xs" ds k t "if k = DefNode then Some () else None"] by (simp add: build_fields(1) x build_snoc)
qed

text \<open>A type is a size, a constant a size and a number.\<close>

definition sample_ops :: "op_type \<Rightarrow> nat \<Rightarrow> int \<Rightarrow> int \<Rightarrow> int" where
  "sample_ops op b x y =
     (case op of Op_Shl \<Rightarrow> push_bit (nat y) x | Op_Shr \<Rightarrow> drop_bit (nat y) x | Op_Sar \<Rightarrow> drop_bit (nat y) (signed_take_bit (b - 1) x)
      | Op_Ult \<Rightarrow> of_bool (x < y) | _ \<Rightarrow> x * y)"

definition sample_long :: "(nat, nat \<times> int, unit) reko_long" where
  "sample_long = \<lparr>seqs = sample_seq\<lparr>base := sample_reko\<lparr>apply_constants :=
       (\<lambda>op dt c d. (dt, op_sem sample_ops op dt (sample_value c) (sample_value d)))\<rparr>\<rparr>,
     is_word = (\<lambda>_. True), create_word = id, to_int64 = sample_value, to_uint64 = sample_value, procedure = (\<lambda>_. IAddC)\<rparr>"

lemma sample_bits [simp]: "bits sample_long t = t"
  by (simp add: sample_long_def sample_seq_def sample_reko_def)

lemma sample_const_type [simp]: "const_type (reko_of sample_long) = fst"
  by (simp add: sample_long_def sample_seq_def sample_reko_def)

lemma build_graph_ok:
  assumes "\<forall>i < length xs. (\<forall>d. Some d \<in> set (snd (snd (xs ! i))) \<longrightarrow> d < i) \<and> (fst (xs ! i) = CondNode \<longrightarrow> cond_shape (snd (snd (xs ! i))))"
  shows "graph_ok (build xs)"
  using assms build_edges [of xs] by (simp add: graph_ok_def conds_ok_def build_fields)

lemmas sample_simps = build_fields input_at_def arr_get_def type_at_def less_Suc_eq all_conj_distrib

text \<open>The sum of a pair of registers that the procedure receives and of a pair of a register and a constant.\<close>

definition sum_nodes :: "((nat \<times> int) node_kind \<times> nat \<times> nat option list) list" where
  "sum_nodes = [(BlockNode, 0, []), (DefNode, 16, [Some 0]), (DefNode, 16, [Some 0]), (DefNode, 16, [Some 0]),
     (ConstantNode (16, 2), 16, [None]), (BinaryNode Op_IAdd, 16, [None, Some 2, Some 4]), (CondNode, 1, [None, Some 5]),
     (ProcedureConstantNode, 0, [None]), (ApplicationNode, 16, [None, Some 7, Some 1, Some 3, Some 6])]"

lemma sum_nodes_ok: "graph_ok (build sum_nodes)" "typed (reko_of sample_long) (build sum_nodes)"
proof -
  show "graph_ok (build sum_nodes)"
    by (rule build_graph_ok) (simp add: sum_nodes_def less_Suc_eq all_conj_distrib cond_shape_def)
  show "typed (reko_of sample_long) (build sum_nodes)"
    by (simp add: typed_def sample_simps sum_nodes_def well_shaped_def)
qed

text \<open>A pair of registers that the procedure receives, shifted right by one.\<close>

definition shift_nodes :: "((nat \<times> int) node_kind \<times> nat \<times> nat option list) list" where
  "shift_nodes = [(BlockNode, 0, []), (DefNode, 16, [Some 0]), (ProcedureConstantNode, 0, [None]),
     (DefNode, 16, [Some 0]), (ConstantNode (16, 1), 16, [None]), (BinaryNode Op_Sar, 16, [None, Some 1, Some 4]),
     (CondNode, 1, [None, Some 5]), (ApplicationNode, 16, [None, Some 2, Some 3, Some 4, Some 6])]"

lemma shift_nodes_ok:
  "graph_ok (build shift_nodes)" "typed (reko_of sample_long) (build shift_nodes)" "sized sample_long (build shift_nodes)"
proof -
  show "graph_ok (build shift_nodes)"
    by (rule build_graph_ok) (simp add: shift_nodes_def less_Suc_eq all_conj_distrib cond_shape_def)
  show "typed (reko_of sample_long) (build shift_nodes)"
    by (simp add: typed_def sample_simps shift_nodes_def well_shaped_def)
  show "sized sample_long (build shift_nodes)"
    by (simp add: sized_def sample_simps shift_nodes_def is_operation_def binary_op_def is_negation_def flip: ins_def)
qed

end
