(* ===== verification/Sea_Renamed.thy ===== *)
theory Sea_Renamed
  imports Sea_Edges
begin

text \<open>
  What \<open>FuseDefs\<close> (\<open>PeepholeOptimizer.Seq.cs\<close>) does to the graph: the sequence of two definitions is one new
  definition, and each of the two is replaced by a slice of it everywhere.  The graph is then the old one with
  the definitions renamed.
\<close>

section \<open>Renamed graphs\<close>

text \<open>
  The nodes of \<open>g\<close> are in \<open>g'\<close> with references to \<open>\<sigma> i\<close> in place of those to \<open>i\<close>; only definitions are renamed,
  to new slices of the same type, and lose their inputs.
\<close>

definition renames :: "(nat \<Rightarrow> nat) \<Rightarrow> ('t, 'c, 's) graph \<Rightarrow> ('t, 'c, 's) graph \<Rightarrow> bool" where
  "renames \<sigma> g g' \<longleftrightarrow> g_next g \<le> g_next g' \<and> (\<forall>i \<ge> g_next g. \<sigma> i = i)
     \<and> (\<forall>i < g_next g. n_kind (g_node g' i) = n_kind (g_node g i) \<and> n_type (g_node g' i) = n_type (g_node g i)
          \<and> (if \<sigma> i = i then ins g' i = map (map_option \<sigma>) (ins g i)
             else ins g' i = [] \<and> n_kind (g_node g i) = DefNode \<and> g_next g \<le> \<sigma> i \<and> \<sigma> i < g_next g'
               \<and> (\<exists>off. n_kind (g_node g' (\<sigma> i)) = SliceNode off) \<and> n_type (g_node g' (\<sigma> i)) = n_type (g_node g i)))"

text \<open>A renamed node has the value of the slice.\<close>

definition named :: "(nat \<Rightarrow> nat) \<Rightarrow> (nat \<Rightarrow> int) \<Rightarrow> bool" where
  "named \<sigma> env \<longleftrightarrow> (\<forall>i. env (\<sigma> i) = env i)"

lemma namedD: "named \<sigma> env \<Longrightarrow> env (\<sigma> i) = env i"
  by (simp add: named_def)

lemma renamesD:
  assumes "renames \<sigma> g g'"
  shows "g_next g \<le> g_next g'" "g_next g \<le> i \<Longrightarrow> \<sigma> i = i"
    "i < g_next g \<Longrightarrow> n_kind (g_node g' i) = n_kind (g_node g i)"
    "i < g_next g \<Longrightarrow> n_type (g_node g' i) = n_type (g_node g i)"
    "i < g_next g \<Longrightarrow> \<sigma> i = i \<Longrightarrow> ins g' i = map (map_option \<sigma>) (ins g i)"
    "i < g_next g \<Longrightarrow> \<sigma> i \<noteq> i \<Longrightarrow> ins g' i = [] \<and> n_kind (g_node g i) = DefNode \<and> g_next g \<le> \<sigma> i"
    "i < g_next g \<Longrightarrow> \<sigma> i < g_next g'" "i < g_next g \<Longrightarrow> n_type (g_node g' (\<sigma> i)) = n_type (g_node g i)"
    "i < g_next g \<Longrightarrow> \<sigma> i \<noteq> i \<Longrightarrow> \<exists>off. n_kind (g_node g' (\<sigma> i)) = SliceNode off"
proof -
  note D = assms [unfolded renames_def]
  show "g_next g \<le> g_next g'" "g_next g \<le> i \<Longrightarrow> \<sigma> i = i" using D by blast+
  assume i: "i < g_next g"
  from D i show "n_kind (g_node g' i) = n_kind (g_node g i)" "n_type (g_node g' i) = n_type (g_node g i)" by blast+
  from D i show "\<sigma> i = i \<Longrightarrow> ins g' i = map (map_option \<sigma>) (ins g i)" by auto
  from D i show "\<sigma> i \<noteq> i \<Longrightarrow> ins g' i = [] \<and> n_kind (g_node g i) = DefNode \<and> g_next g \<le> \<sigma> i" by auto
  from D i show "\<sigma> i \<noteq> i \<Longrightarrow> \<exists>off. n_kind (g_node g' (\<sigma> i)) = SliceNode off" by auto
  from D i show "\<sigma> i < g_next g'" by (cases "\<sigma> i = i") auto
  from D i show "n_type (g_node g' (\<sigma> i)) = n_type (g_node g i)" by (cases "\<sigma> i = i") auto
qed

lemma renames_fixes: "renames \<sigma> g g' \<Longrightarrow> n_kind (g_node g i) \<noteq> DefNode \<Longrightarrow> \<sigma> i = i"
  using renamesD(2,6) [of \<sigma> g g' i] by (cases "i < g_next g") auto

lemma map_option_id: "map (map_option (\<lambda>x. x)) xs = xs"
  by (induction xs) (simp_all add: option.map_ident)

lemma renames_keeps: "keeps g g' \<Longrightarrow> renames id g g'"
  by (simp add: renames_def keeps_def id_def map_option_id)

lemma renames_keeps_trans: "renames \<sigma> g h \<Longrightarrow> keeps h g' \<Longrightarrow> renames \<sigma> g g'"
  unfolding renames_def keeps_def by (auto 0 3)

lemma renames_trans:
  assumes 1: "renames \<sigma> g h" and 2: "renames \<tau> h g'" and old: "\<And>i. g_next g \<le> i \<Longrightarrow> \<tau> i = i"
  shows "renames (\<tau> \<circ> \<sigma>) g g'"
proof -
  note D = renamesD [OF 1] and E = renamesD [OF 2]
  have node: "n_kind (g_node g' i) = n_kind (g_node g i) \<and> n_type (g_node g' i) = n_type (g_node g i)
          \<and> (if (\<tau> \<circ> \<sigma>) i = i then ins g' i = map (map_option (\<tau> \<circ> \<sigma>)) (ins g i)
             else ins g' i = [] \<and> n_kind (g_node g i) = DefNode \<and> g_next g \<le> (\<tau> \<circ> \<sigma>) i \<and> (\<tau> \<circ> \<sigma>) i < g_next g'
               \<and> (\<exists>off. n_kind (g_node g' ((\<tau> \<circ> \<sigma>) i)) = SliceNode off) \<and> n_type (g_node g' ((\<tau> \<circ> \<sigma>) i)) = n_type (g_node g i))"
    if i: "i < g_next g" for i
  proof -
    have ih: "i < g_next h" using i D(1) by simp
    have f: "n_kind (g_node g' i) = n_kind (g_node g i)" "n_type (g_node g' i) = n_type (g_node g i)"
      using D(3,4) [OF i] E(3,4) [OF ih] by simp_all
    show ?thesis
    proof (cases "\<sigma> i = i")
      case True
      note s = this
      show ?thesis
      proof (cases "\<tau> i = i")
        case True
        then show ?thesis using s f D(5) [OF i s] E(5) [OF ih True] by (simp add: option.map_comp)
      next
        case False
        then show ?thesis
          using s f E(6,9) [OF ih False] E(7,8) [OF ih] D(1,3,4) i by auto
      qed
    next
      case False
      note m = D(6,9) [OF i False] D(7,8) [OF i]
      have t: "\<tau> (\<sigma> i) = \<sigma> i" using m old by blast
      have "ins g' i = []"
        using E(5,6) [OF ih] m(1) by (cases "\<tau> i = i") auto
      then show ?thesis
        using t f m False E(3,4) [OF m(3)] E(1) by auto
    qed
  qed
  have "(\<tau> \<circ> \<sigma>) i = i" if "g_next g \<le> i" for i using D(2) [OF that] old [OF that] by simp
  then show ?thesis unfolding renames_def using node D(1) E(1) by (meson le_trans)
qed

text \<open>The replacement of one definition by a new slice.\<close>

lemma renames_replace:
  assumes r: "renames \<sigma> g h" and edges: "edges_ok h" and p: "p < g_next g" "\<sigma> p = p" "n_kind (g_node g p) = DefNode"
    and q: "q < g_next h" "g_next g \<le> q" "n_kind (g_node h q) = SliceNode off" "n_type (g_node h q) = n_type (g_node g p)"
  shows "renames (\<sigma>(p := q)) g (replace p q h)"
proof -
  note D = renamesD [OF r]
  have ne: "p \<noteq> q" using p q by simp
  note ro = replace_outs_ins [OF ne, of h]
  have ph: "p < g_next h" using p(1) D(1) by simp
  have ins: "ins (replace p q h) i = (if i = p then [] else map (subst_ref p q) (ins h i))" if i: "i < g_next h" for i
  proof (cases "i \<in> set (outs h p)")
    case False
    then have "count_list (ins h i) (Some p) = 0" using edges_okD(1) [OF edges ph i] by (simp add: count_notin)
    then show ?thesis using False ro(2) by (simp add: map_subst_id)
  qed (simp add: ro(2))
  have image: "\<sigma> x = p \<longleftrightarrow> x = p" for x
    using D(2) [of x] D(6) [of x] p by (cases "x < g_next g"; cases "\<sigma> x = x") auto
  have "map (subst_ref p q) (map (map_option \<sigma>) ds) = map (map_option (\<sigma>(p := q))) ds" for ds
  proof -
    have "subst_ref p q (map_option \<sigma> d) = map_option (\<sigma>(p := q)) d" for d
      using image by (cases d) auto
    then show ?thesis by simp
  qed
  note subst = this
  have node: "n_kind (g_node (replace p q h) i) = n_kind (g_node g i) \<and> n_type (g_node (replace p q h) i) = n_type (g_node g i)
          \<and> (if (\<sigma>(p := q)) i = i then ins (replace p q h) i = map (map_option (\<sigma>(p := q))) (ins g i)
             else ins (replace p q h) i = [] \<and> n_kind (g_node g i) = DefNode \<and> g_next g \<le> (\<sigma>(p := q)) i
               \<and> (\<sigma>(p := q)) i < g_next (replace p q h)
               \<and> (\<exists>off. n_kind (g_node (replace p q h) ((\<sigma>(p := q)) i)) = SliceNode off)
               \<and> n_type (g_node (replace p q h) ((\<sigma>(p := q)) i)) = n_type (g_node g i))"
    if i: "i < g_next g" for i
  proof -
    have ih: "i < g_next h" using i D(1) by simp
    show ?thesis
    proof (cases "i = p")
      case True
      then show ?thesis using ne ins [OF ih] D(3,4) [OF i] p q ro(1) by (simp add: replace_other_fields)
    next
      case False
      then show ?thesis
        using ins [OF ih] subst D(3,4,7,8) [OF i] D(5,6,9) [OF i] ro(1) by (auto simp: replace_other_fields)
    qed
  qed
  have "(\<sigma>(p := q)) i = i" if "g_next g \<le> i" for i using D(2) [OF that] p(1) that by auto
  moreover have "g_next g \<le> g_next (replace p q h)" using D(1) ro(1) by simp
  ultimately show ?thesis unfolding renames_def using node by blast
qed

section \<open>Values and types\<close>

lemma renames_input_of:
  assumes "renames \<sigma> g g'" "i < g_next g" "n_kind (g_node g i) \<noteq> DefNode" "k < length (ins g i)" "ins g i ! k = Some x"
  shows "input_of g i k = x" "input_of g' i k = \<sigma> x"
  using assms renamesD(5) [OF assms(1,2) renames_fixes [OF assms(1,3)]]
  by (simp_all add: input_of_def flip: ins_def)

lemma renames_valuation:
  assumes r: "renames \<sigma> g g'" and ty: "typed R g" and n: "named \<sigma> env" and v: "valuation R other val g' env"
  shows "valuation R other val g env"
proof -
  note D = renamesD [OF r]
  have "node_ok R other val g env i" if i: "i < g_next g" for i
  proof -
    have ok: "node_ok R other val g' env i" using v i D(1) by (simp add: valuation_def)
    note ws = ty [unfolded typed_def, rule_format, OF i]
    have bin: "env (input_of g' i 1) = env (input_of g i 1) \<and> env (input_of g' i 2) = env (input_of g i 2)"
      if k: "n_kind (g_node g i) = BinaryNode op" for op
    proof -
      obtain cf a b where ds: "ins g i = [cf, Some a, Some b]" using ws k by (auto simp: well_shaped_def)
      show ?thesis
        using renames_input_of [OF r i, of 1 a] renames_input_of [OF r i, of 2 b] ds k namedD [OF n] by simp
    qed
    have un: "env (input_of g' i 1) = env (input_of g i 1)" if k: "n_kind (g_node g i) = UnaryNode Un_Neg"
    proof -
      obtain cf a where ds: "ins g i = [cf, Some a]" using ws k by (auto simp: well_shaped_def)
      show ?thesis using renames_input_of [OF r i, of 1 a] ds k namedD [OF n] by simp
    qed
    show ?thesis
      using ok D(3,4) [OF i] bin un by (auto simp: node_ok_def has_value_def)
  qed
  then show ?thesis by (simp add: valuation_def)
qed

lemma renames_typed:
  assumes r: "renames \<sigma> g g'" and ty: "typed R g"
    and new: "\<And>i. g_next g \<le> i \<Longrightarrow> i < g_next g' \<Longrightarrow> n_kind (g_node g' i) = DefNode \<or> (\<exists>off. n_kind (g_node g' i) = SliceNode off)"
  shows "typed R g'"
proof -
  note D = renamesD [OF r]
  have "well_shaped R g' (n_kind (g_node g' i)) (n_type (g_node g' i)) (ins g' i)" if ig: "i < g_next g'" for i
  proof (cases "i < g_next g")
    case False
    then show ?thesis using new [of i] ig by (auto simp: well_shaped_def)
  next
    case True
    note ws = ty [unfolded typed_def, rule_format, OF True]
    show ?thesis
    proof (cases "n_kind (g_node g i) = DefNode")
      case d: True
      then show ?thesis using D(3) [OF True] by (simp add: well_shaped_def)
    next
      case False
      note f = D(3,4) [OF True] D(5) [OF True renames_fixes [OF r False]]
      show ?thesis
        using ws D(7,8) unfolding f well_shaped_def by auto
    qed
  qed
  then show ?thesis by (simp add: typed_def)
qed

section \<open>The sequence of two definitions\<close>

lemma fused_pair:
  assumes k: "n_kind (g_node g hi) = DefNode" "n_kind (g_node g lo) = DefNode" and le: "hi < g_next g" "lo < g_next g" "hi \<noteq> lo"
    and cf: "arr_get (ins g hi) 0 = Some cf" "arr_get (ins g lo) 0 = Some cf" and edges: "edges_ok g"
    and size: "size_of X g hi = h" "size_of X g lo = l" "0 < h" "0 < l" "bit_size (base X) dt = h + l"
  obtains s a b g' where "seq X dt [hi, lo] g = Some (s, g')" "renames (id(lo := a, hi := b)) g g'"
    "s = g_next g" "g_next g' = g_next g + 3" "a < g_next g'" "b < g_next g'" "edges_ok g'"
    "n_kind (g_node g' s) = DefNode" "n_type (g_node g' s) = dt"
    "n_kind (g_node g' a) = SliceNode 0" "ins g' a = [None, Some s]"
    "n_kind (g_node g' b) = SliceNode (int l)" "ins g' b = [None, Some s]"
    "\<forall>i. g_next g \<le> i \<longrightarrow> i < g_next g' \<longrightarrow> i = s \<or> i = a \<or> i = b"
proof -
  let ?stg = "make_sequence_storage X dt (map (\<lambda>n. n_storage (g_node g n)) [hi, lo])"
  obtain d g1 where d: "m_def cf ?stg dt g = (d, g1)" by force
  note nd = d [unfolded m_def_def] and fd = new_node_fields [OF d [unfolded m_def_def]]
  have cfle: "x < g_next g" if "cf = Some x" for x
    using edges_okD(3) [OF edges le(1), of x] cf(1) nth_mem [of 0 "ins g hi"] that
    by (auto simp: arr_get_def simp del: nth_mem split: if_splits)
  have e1: "edges_ok g1"
    using edges_new_node [OF edges, of "[cf]" DefNode dt "Some ?stg"] nd cfle by simp
  obtain a g2 where a: "new_node (SliceNode 0) (n_type (g_node g lo)) None [None, Some d] g1 = (a, g2)" by force
  note fa = new_node_fields [OF a]
  have sa: "slice X (n_type (g_node g1 lo)) d 0 g1 = (a, g2)"
    using a fd(3,4) fd(7) [OF le(2)] size by (simp add: slice_def m_slice_def)
  have e2: "edges_ok g2"
    using edges_new_node [OF e1, of "[None, Some d]" "SliceNode 0" "n_type (g_node g lo)" None] a fd(1,2) by simp
  let ?g3 = "replace lo a g2"
  have k1: "keeps g g1" using fd by (simp add: keeps_def)
  have k2: "keeps g1 g2" using fa by (simp add: keeps_def)
  have r2: "renames id g g2" by (rule renames_keeps [OF keeps_trans [OF k1 k2]])
  have na: "lo \<noteq> a" "hi \<noteq> a" using le fa(1) fd(2) by simp_all
  have a2: "a < g_next g2" "g_next g \<le> a" using fa(1,2) fd(2) by simp_all
  have r3: "renames (id(lo := a)) g ?g3"
    by (rule renames_replace [OF r2 e2 le(2) _ k(2) a2, of 0]) (use fa(3,4) in simp_all)
  have e3: "edges_ok ?g3" by (rule edges_replace [OF e2 na(1)]) (use le fa(1,2) fd(2) in simp_all)
  note ro3 = replace_outs_ins [OF na(1), of g2]
  have n3: "g_next ?g3 = g_next g + 2" using ro3(1) fa(2) fd(2) by simp
  have types3: "n_type (g_node ?g3 i) = n_type (g_node g i)" if "i < g_next g" for i
    using renamesD(4) [OF r3 that] .
  obtain b g4 where b: "new_node (SliceNode (int l)) (n_type (g_node g hi)) None [None, Some d] ?g3 = (b, g4)" by force
  note fb = new_node_fields [OF b]
  have sb: "slice X (n_type (g_node ?g3 hi)) d (int (size_of X ?g3 lo)) ?g3 = (b, g4)"
    using b types3 le size by (simp add: slice_def m_slice_def)
  have e4: "edges_ok g4"
    using edges_new_node [OF e3, of "[None, Some d]" "SliceNode (int l)" "n_type (g_node g hi)" None] b fd(1) n3 by simp
  have r4: "renames (id(lo := a)) g g4"
    by (rule renames_keeps_trans [OF r3]) (use fb in \<open>simp add: keeps_def\<close>)
  have nb: "hi \<noteq> b" "lo \<noteq> b" "a \<noteq> b" "d \<noteq> b" "d \<noteq> a" "lo \<noteq> d" "hi \<noteq> d"
    using le fb(1) n3 fa(1) fd(1,2) by simp_all
  have b4: "b < g_next g4" "g_next g \<le> b" using fb(1,2) n3 by simp_all
  let ?g5 = "replace hi b g4"
  have r5: "renames ((id(lo := a))(hi := b)) g ?g5"
    by (rule renames_replace [OF r4 e4 le(1) _ k(1) b4, of "int l"]) (use le fb(3,4) in simp_all)
  have e5: "edges_ok ?g5" by (rule edges_replace [OF e4 nb(1)]) (use le fb(1,2) n3 in simp_all)
  note ro5 = replace_outs_ins [OF nb(1), of g4]
  have n5: "g_next ?g5 = g_next g + 3" using ro5(1) fb(2) n3 by simp
  have dg: "d = g_next g" "a = g_next g + 1" "b = g_next g + 2" using fd(1,2) fa(1) fb(1) n3 by simp_all
  have i2: "ins g2 a = [None, Some d]" by (rule fa(5))
  have i3: "ins ?g3 a = [None, Some d]" using ro3(2) [of a] i2 na nb by simp
  have i4: "ins g4 a = [None, Some d]" using fb(8) [of a] i3 n3 dg by simp
  have i5: "ins ?g5 a = [None, Some d]" "ins ?g5 b = [None, Some d]"
    using ro5(2) [of a] ro5(2) [of b] i4 fb(5) na nb by simp_all
  have k5: "n_kind (g_node ?g5 i) = n_kind (g_node g4 i)" "n_type (g_node ?g5 i) = n_type (g_node g4 i)" for i
    by (simp_all add: replace_other_fields)
  have k4: "n_kind (g_node g4 i) = n_kind (g_node g2 i)" "n_type (g_node g4 i) = n_type (g_node g2 i)" if "i < g_next ?g3" for i
    using fb(6,7) [OF that] by (simp_all add: replace_other_fields)
  have s: "seq X dt [hi, lo] g = Some (d, ?g5)"
  proof -
    have "flatten_nested_sequences g [hi, lo] = [hi, lo]" by (simp add: flatten_nested_sequences_def k)
    moreover have "fuse_adjacent_slices X [hi, lo] g = Some ([hi, lo], g)"
      by (simp add: fuse_adjacent_slices_def slice_offset_def k)
    moreover have "fuse_adjacent_constants X dt [hi, lo] g = None" by (simp add: fuse_adjacent_constants_def as_constant_def k)
    moreover have "fuse_defs X dt [hi, lo] g = Some (Some (d, ?g5))"
      using cf d sa sb by (simp add: fuse_defs_def k ins_def)
    ultimately show ?thesis by (simp add: seq_def)
  qed
  show ?thesis
    by (rule that [OF s r5 dg(1) n5 _ _ e5])
      (use k5 k4 [of d] k4 [of a] n3 n5 dg fa(3) fa(6,7) [of d] fd(2-4) fb(3) i5 in auto)
qed

end
