(* ===== verification/Sea_Halves.thy ===== *)
theory Sea_Halves
  imports Sea_Renamed
begin

text \<open>
  What the fusions of \<open>Sea_Long\<close> do to values: the slices of the wide operation have the values of the nodes
  they replace, where the code recognizes the carry correctly.
\<close>

section \<open>Laws and values\<close>

text \<open>
  What Reko's types and constants are documented to do: types of the size asked for; \<open>val\<close> is the pattern of bits
  of a constant as an unsigned number, \<open>ToBigInteger\<close> gives that number or, for a signed constant, the one with
  the same bits in two's complement, and \<open>ToInt64\<close> gives 1 for the constant 1 only.
\<close>

definition long_ok :: "('t, 'c, 's) reko_long \<Rightarrow> (op_type \<Rightarrow> nat \<Rightarrow> int \<Rightarrow> int \<Rightarrow> int) \<Rightarrow> ('c \<Rightarrow> int) \<Rightarrow> bool" where
  "long_ok L other val \<longleftrightarrow> reko_ok (reko_of L) other val
     \<and> (\<forall>n t. bits L (create_word L n) = n \<and> bits L (resize (seqs L) t n) = n)
     \<and> (\<forall>t v. const_type (reko_of L) (create_const (seqs L) t v) = t
          \<and> val (create_const (seqs L) t v) = take_bit (bits L t) v)
     \<and> (\<forall>c. (big_integer (seqs L) c = val c \<or> big_integer (seqs L) c = val c - 2 ^ bits L (const_type (reko_of L) c))
          \<and> (to_int64 L c = 1 \<longrightarrow> val c = 1))
     \<and> (\<forall>dt c d. \<forall>op \<in> {Op_Shl, Op_Shr, Op_Sar}. bits L (const_type (reko_of L) c) = bits L dt \<longrightarrow>
          val (apply_constants (reko_of L) op dt c d) = op_sem other op (bits L dt) (val c) (val d))"

lemma long_okD:
  assumes "long_ok L other val"
  shows "reko_ok (reko_of L) other val" "bits L (create_word L n) = n" "bits L (resize (seqs L) t n) = n"
    "const_type (reko_of L) (create_const (seqs L) t v) = t" "val (create_const (seqs L) t v) = take_bit (bits L t) v"
    "big_integer (seqs L) c = val c \<or> big_integer (seqs L) c = val c - 2 ^ bits L (const_type (reko_of L) c)"
    "to_int64 L c = 1 \<Longrightarrow> val c = 1"
    "\<lbrakk>op \<in> {Op_Shl, Op_Shr, Op_Sar}; bits L (const_type (reko_of L) c) = bits L dt\<rbrakk> \<Longrightarrow>
       val (apply_constants (reko_of L) op dt c d) = op_sem other op (bits L dt) (val c) (val d)"
  using assms unfolding long_ok_def by blast+

lemma bits_combine: "long_ok L other val \<Longrightarrow> bits L (combine_types L hi lo) = bits L lo + bits L hi"
  by (simp add: combine_types_def Let_def long_okD)

text \<open>The values of slices and sequences, beside the \<open>valuation\<close> of constants and operations.\<close>

definition wide_values :: "('t, 'c, 's) reko_seq \<Rightarrow> ('t, 'c, 's) graph \<Rightarrow> (nat \<Rightarrow> int) \<Rightarrow> bool" where
  "wide_values X g env \<longleftrightarrow> (\<forall>i < g_next g.
     (n_kind (g_node g i) = SeqNode \<longrightarrow>
        env i = foldl (\<lambda>v n. v * 2 ^ size_of X g n + env n) 0 (map the (drop 1 (ins g i))))
     \<and> (\<forall>off. n_kind (g_node g i) = SliceNode off \<longrightarrow>
          env i = take_bit (size_of X g i) (drop_bit (nat off) (env (input_of g i 1)))))"

text \<open>
  The sequence of \<open>hi\<close> and \<open>lo\<close>: a new node of that kind, the constant, or the definition of which both are slices.
\<close>

definition joins :: "('t, 'c, 's) reko_seq \<Rightarrow> ('c \<Rightarrow> int) \<Rightarrow> ('t, 'c, 's) graph \<Rightarrow> nat \<Rightarrow> nat \<Rightarrow> nat \<Rightarrow> bool" where
  "joins X val g hi lo s \<longleftrightarrow> s < g_next g \<and> hi < g_next g \<and> lo < g_next g \<and> size_of X g s = size_of X g hi + size_of X g lo
     \<and> (n_kind (g_node g s) = SeqNode \<and> ins g s = [None, Some hi, Some lo]
        \<or> (\<exists>c d e. n_kind (g_node g hi) = ConstantNode c \<and> n_kind (g_node g lo) = ConstantNode d
             \<and> n_kind (g_node g s) = ConstantNode e \<and> val e = val c * 2 ^ size_of X g lo + val d)
        \<or> n_kind (g_node g hi) = SliceNode (int (size_of X g lo)) \<and> ins g hi = [None, Some s]
             \<and> n_kind (g_node g lo) = SliceNode 0 \<and> ins g lo = [None, Some s])"

lemma split_value:
  assumes "0 \<le> x" "x < (2 :: int) ^ (h + l)"
  shows "x = take_bit h (drop_bit l x) * 2 ^ l + take_bit l x"
proof -
  have "take_bit h (drop_bit l x) = drop_bit l (take_bit (l + h) x)" by (simp add: drop_bit_take_bit)
  also have "take_bit (l + h) x = x" using assms by (simp add: take_bit_int_eq_self add.commute)
  finally show ?thesis using bits_ident [of l x] by (simp add: push_bit_eq_mult)
qed

lemma joins_value:
  assumes "joins X val g hi lo s" "valuation (base X) other val g env" "wide_values X g env"
  shows "env s = env hi * 2 ^ size_of X g lo + env lo"
proof -
  have le: "s < g_next g" "hi < g_next g" "lo < g_next g" using assms(1) by (simp_all add: joins_def)
  have const: "env i = val c" if "i < g_next g" "n_kind (g_node g i) = ConstantNode c" for i c
    using assms(2) that by (simp add: valuation_def node_ok_def has_value_def)
  have slice: "env i = take_bit (size_of X g i) (drop_bit (nat off) (env s))"
    if "i < g_next g" "n_kind (g_node g i) = SliceNode off" "ins g i = [None, Some s]" for i off
    using assms(3) that by (simp add: wide_values_def input_of_def flip: ins_def)
  have range: "0 \<le> env s" "env s < 2 ^ size_of X g s" using valuation_old_range [OF assms(2) le(1)] by simp_all
  show ?thesis
    using assms(1) unfolding joins_def
  proof (elim conjE disjE exE)
    assume "n_kind (g_node g s) = SeqNode" "ins g s = [None, Some hi, Some lo]"
    then show ?thesis using assms(3) le(1) by (simp add: wide_values_def)
  next
    assume "n_kind (g_node g hi) = SliceNode (int (size_of X g lo))" "ins g hi = [None, Some s]"
      "n_kind (g_node g lo) = SliceNode 0" "ins g lo = [None, Some s]"
      and size: "size_of X g s = size_of X g hi + size_of X g lo"
    then have "env hi = take_bit (size_of X g hi) (drop_bit (size_of X g lo) (env s))" "env lo = take_bit (size_of X g lo) (env s)"
      using slice le by simp_all
    then show ?thesis using split_value [of "env s" "size_of X g hi" "size_of X g lo"] range size by simp
  qed (use const le in simp)
qed

lemma joins_renames:
  assumes j: "joins X val g hi lo s" and r: "renames \<tau> g g'" and s: "\<tau> s = s"
  shows "joins X val g' (\<tau> hi) (\<tau> lo) s"
proof -
  note D = renamesD [OF r]
  have le: "s < g_next g" "hi < g_next g" "lo < g_next g" using j by (simp_all add: joins_def)
  have le': "s < g_next g'" "\<tau> hi < g_next g'" "\<tau> lo < g_next g'" using le D(1,7) by auto
  have size: "size_of X g' s = size_of X g s" "size_of X g' (\<tau> hi) = size_of X g hi" "size_of X g' (\<tau> lo) = size_of X g lo"
    using D(4) [OF le(1)] D(8) [OF le(2)] D(8) [OF le(3)] by simp_all
  have other: "\<tau> i = i \<and> n_kind (g_node g' i) = n_kind (g_node g i) \<and> ins g' i = map (map_option \<tau>) (ins g i)"
    if "i < g_next g" "n_kind (g_node g i) \<noteq> DefNode" for i
    using D(3,5) [OF that(1)] renames_fixes [OF r that(2)] by simp
  show ?thesis
    using j unfolding joins_def [of X val g]
  proof (elim conjE disjE exE)
    assume "n_kind (g_node g s) = SeqNode" "ins g s = [None, Some hi, Some lo]"
      "size_of X g s = size_of X g hi + size_of X g lo"
    then show ?thesis using other [OF le(1)] size le' by (simp add: joins_def)
  next
    fix c d e
    assume "n_kind (g_node g hi) = ConstantNode c" "n_kind (g_node g lo) = ConstantNode d"
      "n_kind (g_node g s) = ConstantNode e" "val e = val c * 2 ^ size_of X g lo + val d"
      "size_of X g s = size_of X g hi + size_of X g lo"
    then show ?thesis using other [OF le(1)] other [OF le(2)] other [OF le(3)] size le' by (auto simp: joins_def)
  next
    assume "n_kind (g_node g hi) = SliceNode (int (size_of X g lo))" "ins g hi = [None, Some s]"
      "n_kind (g_node g lo) = SliceNode 0" "ins g lo = [None, Some s]"
      "size_of X g s = size_of X g hi + size_of X g lo"
    then show ?thesis using other [OF le(2)] other [OF le(3)] size le' s by (simp add: joins_def)
  qed
qed

lemma joined:
  assumes "joins X val g hi lo s" "keeps g g'" "valuation (base X) other val g' env" "wide_values X g' env"
  shows "env s = env hi * 2 ^ size_of X g lo + env lo"
proof -
  have "size_of X g' lo = size_of X g lo" using assms(1,2) by (simp add: joins_def keeps_def)
  then show ?thesis
    using joins_value [OF joins_renames [OF assms(1) renames_keeps [OF assms(2)]] assms(3,4)] by simp
qed

lemma new_node_keeps: "new_node kind dt stg ds g = (n, g') \<Longrightarrow> keeps g g'"
  using new_node_fields [of kind dt stg ds g n g'] by (simp add: keeps_def)

section \<open>The sequence of two halves\<close>

text \<open>An operand that \<open>Seq\<close> neither flattens nor joins with its neighbour.\<close>

definition half :: "('t, 'c, 's) graph \<Rightarrow> nat \<Rightarrow> bool" where
  "half g n \<longleftrightarrow> n < g_next g \<and> plain g n \<and> slice_offset g n = None"

definition paired :: "('t, 'c, 's) graph \<Rightarrow> nat \<Rightarrow> nat \<Rightarrow> bool" where
  "paired g hi lo \<longleftrightarrow> n_kind (g_node g hi) = DefNode \<and> n_kind (g_node g lo) = DefNode"

text \<open>
  The two halves of a value, neither of them a slice or a sequence.  A constant in the low half is not negative,
  since \<open>FuseAdjacentConstants\<close> would spread its sign over the high half; two definitions (a register pair that
  the procedure receives) are different ones and have not been replaced.
\<close>

definition halves :: "('t, 'c, 's) reko_seq \<Rightarrow> ('t, 'c, 's) graph \<Rightarrow> nat \<Rightarrow> nat \<Rightarrow> bool" where
  "halves X g hi lo \<longleftrightarrow> half g hi \<and> half g lo \<and> (\<forall>c. as_constant g lo = Some c \<longrightarrow> 0 \<le> big_integer X c)
     \<and> (paired g hi lo \<longrightarrow> hi \<noteq> lo \<and> ins g hi \<noteq> [] \<and> ins g lo \<noteq> [])"

lemma halves_below: "halves X g hi lo \<Longrightarrow> hi < g_next g \<and> lo < g_next g"
  by (simp add: halves_def half_def)

text \<open>Two pairs of halves, the second without a definition of the first when that is fused.\<close>

definition apart :: "('t, 'c, 's) graph \<Rightarrow> nat \<Rightarrow> nat \<Rightarrow> nat \<Rightarrow> nat \<Rightarrow> bool" where
  "apart g hi lo hi' lo' \<longleftrightarrow> (paired g hi lo \<longrightarrow> {hi', lo'} \<inter> {hi, lo} = {})"

lemma halves_renames:
  assumes h: "halves X g hi lo" and r: "renames \<sigma> g g'" and same: "\<sigma> hi = hi" "\<sigma> lo = lo"
  shows "halves X g' hi lo"
proof -
  note le = halves_below [OF h]
  note D = renamesD [OF r]
  have "n_kind (g_node g' i) = n_kind (g_node g i)" "i < g_next g'" if "i < g_next g" for i using D(1,3) that by auto
  then have k: "n_kind (g_node g' hi) = n_kind (g_node g hi)" "n_kind (g_node g' lo) = n_kind (g_node g lo)"
    "hi < g_next g'" "lo < g_next g'" using le by auto
  moreover have "ins g' hi = map (map_option \<sigma>) (ins g hi)" "ins g' lo = map (map_option \<sigma>) (ins g lo)"
    using D(5) le same by simp_all
  ultimately show ?thesis
    using h by (auto simp: halves_def half_def paired_def plain_def slice_offset_def as_constant_def)
qed

lemma typed_const_size: "\<lbrakk>typed R g; i < g_next g; n_kind (g_node g i) = ConstantNode c\<rbrakk> \<Longrightarrow> n_type (g_node g i) = const_type R c"
  by (auto simp: typed_def well_shaped_def)

lemma join_bits: "\<lbrakk>0 \<le> y; y < 2 ^ n\<rbrakk> \<Longrightarrow> push_bit n x OR y = x * 2 ^ n + (y :: int)"
proof -
  assume "0 \<le> y" "y < 2 ^ n"
  then have y: "take_bit n y = y" by (simp add: take_bit_int_eq_self)
  have "push_bit n x OR take_bit n y = push_bit n x + take_bit n y"
    by (rule disjunctive_add [symmetric]) (auto simp: bit_simps)
  then show ?thesis by (simp add: y push_bit_eq_mult)
qed

lemma constants_join:
  assumes "0 \<le> c" "c < 2 ^ h" "0 \<le> d" "d < (2 :: int) ^ l" "x = c \<or> x = c - 2 ^ h"
  shows "take_bit (h + l) (push_bit l x OR d) = c * 2 ^ l + d"
proof -
  have e: "push_bit l x OR d = x * 2 ^ l + d" by (rule join_bits [OF assms(3,4)])
  have "c * 2 ^ l + d < (c + 1) * 2 ^ l" using assms(4) by (simp add: algebra_simps)
  also have "\<dots> \<le> 2 ^ h * 2 ^ l" using assms(2) by (intro mult_right_mono) simp_all
  also have "\<dots> = 2 ^ (h + l)" by (simp add: power_add)
  finally have self: "take_bit (h + l) (c * 2 ^ l + d) = c * 2 ^ l + d" using assms by (simp add: take_bit_int_eq_self)
  have "(c - 2 ^ h) * 2 ^ l + d = c * 2 ^ l + d + 2 ^ (h + l) * (- 1)" by (simp add: power_add algebra_simps)
  then have "take_bit (h + l) ((c - 2 ^ h) * 2 ^ l + d) = take_bit (h + l) (c * 2 ^ l + d)"
    by (simp only: take_bit_eq_mod mod_mult_self2)
  then show ?thesis using assms(5) e self by auto
qed

text \<open>A negative constant in the low half: its sign replaces the high half.\<close>

lemma negative_low_constant:
  assumes "as_constant g hi = Some c" "as_constant g lo = Some d" "big_integer X d = -1"
  shows "fuse_adjacent_constants X dt [hi, lo] g = Some (m_const (base X) (create_const X dt (-1)) g)"
  using assms by (simp add: fuse_adjacent_constants_def Let_def)

lemma seq_of_new:
  assumes ok: "long_ok L other val" and ty: "typed (reko_of L) g" and edges: "edges_ok g" and h: "halves (seqs L) g hi lo"
    and dt: "bits L dt = size_of (seqs L) g hi + size_of (seqs L) g lo"
    and fd: "fuse_defs (seqs L) dt [hi, lo] g = Some None"
  obtains s g' where "seq (seqs L) dt [hi, lo] g = Some (s, g')" "keeps g g'" "joins (seqs L) val g' hi lo s"
    "typed (reko_of L) g'" "edges_ok g'" "s = g_next g"
proof -
  let ?R = "reko_of L"
  note ok = long_okD [OF ok]
  have le: "hi < g_next g" "lo < g_next g" using halves_below [OF h] by simp_all
  have fl: "flatten_nested_sequences g [hi, lo] = [hi, lo]"
    using h by (intro flatten_plain) (simp add: halves_def half_def)
  have fs: "fuse_adjacent_slices (seqs L) [hi, lo] g = Some ([hi, lo], g)"
    using h by (simp add: fuse_adjacent_slices_def halves_def half_def)
  obtain s g' kind where s: "seq (seqs L) dt [hi, lo] g = Some (s, g')"
    and new: "new_node kind dt None (None # (if kind = SeqNode then [Some hi, Some lo] else [])) g = (s, g')"
    and kind: "kind = SeqNode \<or> (\<exists>c d e. n_kind (g_node g hi) = ConstantNode c \<and> n_kind (g_node g lo) = ConstantNode d
             \<and> kind = ConstantNode e \<and> const_type ?R e = dt \<and> val e = val c * 2 ^ size_of (seqs L) g lo + val d)"
  proof (cases "as_constant g hi \<noteq> None \<and> as_constant g lo \<noteq> None")
    case True
    then obtain c d where cd: "as_constant g hi = Some c" "as_constant g lo = Some d" by blast
    note k = as_constantD(1) [OF cd(1) le(1)] as_constantD(1) [OF cd(2) le(2)]
    let ?h = "size_of (seqs L) g hi" and ?l = "size_of (seqs L) g lo"
    note t = typed_const_size [OF ty le(1) k(1)] typed_const_size [OF ty le(2) k(2)]
    have range: "0 \<le> val c" "val c < 2 ^ ?h" "0 \<le> val d" "val d < 2 ^ ?l"
      using ok(1) t by (auto simp: reko_ok_def)
    have "0 \<le> big_integer (seqs L) d" using h cd(2) by (simp add: halves_def)
    then have d: "big_integer (seqs L) d = val d" using ok(6) [of d] range(4) t(2) by auto
    have c: "big_integer (seqs L) c = val c \<or> big_integer (seqs L) c = val c - 2 ^ ?h" using ok(6) [of c] t(1) by simp
    let ?e = "create_const (seqs L) dt (push_bit ?l (big_integer (seqs L) c) OR val d)"
    have e: "const_type ?R ?e = dt" "val ?e = val c * 2 ^ ?l + val d"
      using ok(4,5) constants_join [OF range c] dt by simp_all
    obtain s g' where m: "m_const ?R ?e g = (s, g')" by force
    have "seq (seqs L) dt [hi, lo] g = Some (s, g')"
      using cd d m by (simp add: seq_def fl fs fuse_adjacent_constants_def Let_def)
    moreover have "new_node (ConstantNode ?e) dt None [None] g = (s, g')"
      using m e(1) by (simp add: m_const_def)
    ultimately show ?thesis using e k by (intro that [of s g' "ConstantNode ?e"]) auto
  next
    case False
    then have "fuse_adjacent_constants (seqs L) dt [hi, lo] g = None" by (simp add: fuse_adjacent_constants_def)
    then have q: "seq (seqs L) dt [hi, lo] g = Some (m_seq dt [hi, lo] g)" by (simp add: seq_def fl fs fd)
    obtain s g' where m: "m_seq dt [hi, lo] g = (s, g')" by force
    show ?thesis using q m by (intro that [of s g' SeqNode]) (simp_all add: m_seq_def)
  qed
  note f = new_node_fields [OF new]
  have "typed ?R g'" by (rule typed_new [OF ty new]) (use kind in \<open>auto simp: well_shaped_def\<close>)
  moreover have "edges_ok g'"
    using edges_new_node [OF edges, of "None # (if kind = SeqNode then [Some hi, Some lo] else [])" kind dt None] le
    by (auto simp: new split: if_splits)
  moreover have "joins (seqs L) val g' hi lo s"
    using kind f le dt unfolding joins_def by auto
  ultimately show ?thesis using that s new_node_keeps [OF new] f(1) by blast
qed

lemma seq_halves:
  assumes ok: "long_ok L other val" and ty: "typed (reko_of L) g" and edges: "edges_ok g" and h: "halves (seqs L) g hi lo"
    and dt: "bits L dt = size_of (seqs L) g hi + size_of (seqs L) g lo"
    and pos: "0 < size_of (seqs L) g hi" "0 < size_of (seqs L) g lo"
  obtains s g' \<sigma> where "seq (seqs L) dt [hi, lo] g = Some (s, g')" "renames \<sigma> g g'"
    "joins (seqs L) val g' (\<sigma> hi) (\<sigma> lo) s" "typed (reko_of L) g'" "edges_ok g'" "g_next g \<le> s"
    "\<And>i. \<sigma> i \<noteq> i \<Longrightarrow> (i = hi \<or> i = lo) \<and> paired g hi lo"
proof -
  have le: "hi < g_next g" "lo < g_next g" using halves_below [OF h] by simp_all
  show ?thesis
  proof (cases "paired g hi lo \<and> ins g hi ! 0 = ins g lo ! 0")
    case True
    then have k: "n_kind (g_node g hi) = DefNode" "n_kind (g_node g lo) = DefNode"
      and ne: "hi \<noteq> lo" "ins g hi \<noteq> []" "ins g lo \<noteq> []" using h by (auto simp: halves_def paired_def)
    have cf: "arr_get (ins g hi) 0 = Some (ins g hi ! 0)" "arr_get (ins g lo) 0 = Some (ins g hi ! 0)"
      using True ne by (simp_all add: arr_get_def)
    obtain s a b g' where F: "seq (seqs L) dt [hi, lo] g = Some (s, g')" "renames (id(lo := a, hi := b)) g g'"
      "s = g_next g" "g_next g' = g_next g + 3" "a < g_next g'" "b < g_next g'" "edges_ok g'"
      "n_kind (g_node g' s) = DefNode" "n_type (g_node g' s) = dt"
      "n_kind (g_node g' a) = SliceNode 0" "ins g' a = [None, Some s]"
      "n_kind (g_node g' b) = SliceNode (int (size_of (seqs L) g lo))" "ins g' b = [None, Some s]"
      "\<forall>i. g_next g \<le> i \<longrightarrow> i < g_next g' \<longrightarrow> i = s \<or> i = a \<or> i = b"
      by (rule fused_pair [OF k le ne(1) cf edges refl refl pos dt]) blast
    let ?\<sigma> = "id(lo := a, hi := b)"
    have m: "?\<sigma> lo = a" "?\<sigma> hi = b" using ne(1) by auto
    have t: "typed (reko_of L) g'"
      by (rule renames_typed [OF F(2) ty]) (use F(8,10,12,14) in blast)
    have "size_of (seqs L) g' a = size_of (seqs L) g lo" "size_of (seqs L) g' b = size_of (seqs L) g hi"
      using renamesD(8) [OF F(2) le(2)] renamesD(8) [OF F(2) le(1)] unfolding m by simp_all
    then have j: "joins (seqs L) val g' (?\<sigma> hi) (?\<sigma> lo) s"
      unfolding m joins_def using F(3-6,9-13) dt by simp
    have "g_next g \<le> s" using F(3) by simp
    moreover have "(i = hi \<or> i = lo) \<and> paired g hi lo" if "?\<sigma> i \<noteq> i" for i using that True by (auto split: if_splits)
    ultimately show ?thesis by (rule that [OF F(1,2) j t F(7)])
  next
    case False
    have fd: "fuse_defs (seqs L) dt [hi, lo] g = Some None"
    proof (cases "paired g hi lo")
      case True
      with False h have "ins g hi ! 0 \<noteq> ins g lo ! 0" "ins g hi \<noteq> []" "ins g lo \<noteq> []" by (auto simp: halves_def)
      then show ?thesis by (simp add: fuse_defs_def arr_get_def flip: ins_def)
    qed (auto simp: fuse_defs_def paired_def)
    obtain s g' where "seq (seqs L) dt [hi, lo] g = Some (s, g')" "keeps g g'" "joins (seqs L) val g' hi lo s"
      "typed (reko_of L) g'" "edges_ok g'" "s = g_next g"
      by (rule seq_of_new [OF ok ty edges h dt fd])
    then show ?thesis by (intro that [of s g' id] renames_keeps) simp_all
  qed
qed

section \<open>Slicing the result\<close>

text \<open>The two slices of a node as wide as both together are new nodes.\<close>

lemma split_wide_new:
  assumes "split_wide L dt_lo dt_hi wide g = (lo, hi, g')" "wide < g_next g"
    and "size_of (seqs L) g wide = bits L dt_lo + bits L dt_hi" "0 < bits L dt_lo" "0 < bits L dt_hi"
  shows "lo = g_next g" "hi = g_next g + 1" "g_next g' = g_next g + 2" "keeps g g'"
    "typed (reko_of L) g \<Longrightarrow> typed (reko_of L) g'" "edges_ok g \<Longrightarrow> edges_ok g'"
    "valuation (reko_of L) other val g' env \<Longrightarrow> valuation (reko_of L) other val g env"
    "wide_values (seqs L) g' env \<Longrightarrow> env lo = take_bit (bits L dt_lo) (env wide)
       \<and> env hi = take_bit (bits L dt_hi) (drop_bit (bits L dt_lo) (env wide))"
proof -
  obtain g1 where 1: "new_node (SliceNode 0) dt_lo None [None, Some wide] g = (lo, g1)"
    and 2: "new_node (SliceNode (int (bits L dt_lo))) dt_hi None [None, Some wide] g1 = (hi, g')"
    using assms by (auto simp: split_wide_def slice_def m_slice_def split: prod.splits)
  note f1 = new_node_fields [OF 1] and f2 = new_node_fields [OF 2]
  show "lo = g_next g" "hi = g_next g + 1" "g_next g' = g_next g + 2" using f1(1,2) f2(1,2) by simp_all
  show "keeps g g'" by (rule keeps_trans [OF new_node_keeps [OF 1] new_node_keeps [OF 2]])
  show "typed (reko_of L) g'" if "typed (reko_of L) g"
    by (rule typed_new [OF typed_new [OF that 1] 2]) (simp_all add: well_shaped_def)
  show "edges_ok g'" if "edges_ok g"
    using edges_new_node [OF edges_new_node [OF that, of "[None, Some wide]" "SliceNode 0" dt_lo None],
        of "[None, Some wide]" "SliceNode (int (bits L dt_lo))" dt_hi None] assms(2) f1(2) by (simp add: 1 2)
  show "valuation (reko_of L) other val g' env \<Longrightarrow> valuation (reko_of L) other val g env"
    by (simp add: valuation_new [OF 1] valuation_new [OF 2])
  have lt: "lo < g_next g'" "hi < g_next g'" using f1(1,2) f2(1,2) by simp_all
  have lo: "n_kind (g_node g' lo) = SliceNode 0" "n_type (g_node g' lo) = dt_lo" "input_of g' lo 1 = wide"
    using f1(1-5) f2(6-8) [of lo] by (simp_all add: input_of_def flip: ins_def)
  have hi: "n_kind (g_node g' hi) = SliceNode (int (bits L dt_lo))" "n_type (g_node g' hi) = dt_hi" "input_of g' hi 1 = wide"
    using f2(3-5) by (simp_all add: input_of_def flip: ins_def)
  assume v: "wide_values (seqs L) g' env"
  show "env lo = take_bit (bits L dt_lo) (env wide)
       \<and> env hi = take_bit (bits L dt_hi) (drop_bit (bits L dt_lo) (env wide))"
    using v lt lo hi by (simp add: wide_values_def)
qed

section \<open>The wide operations\<close>

text \<open>What the definitions of \<open>Sea_Long\<close> build: nodes whose values are the halves of a value \<open>F\<close>.\<close>

definition halved ::
  "('t, 'c, 's) reko_long \<Rightarrow> (op_type \<Rightarrow> nat \<Rightarrow> int \<Rightarrow> int \<Rightarrow> int) \<Rightarrow> ('c \<Rightarrow> int) \<Rightarrow> nat \<Rightarrow> nat \<Rightarrow> (nat \<Rightarrow> nat) \<Rightarrow> ('t, 'c, 's) graph
    \<Rightarrow> nat \<times> nat \<times> nat \<times> ('t, 'c, 's) graph \<Rightarrow> ((nat \<Rightarrow> int) \<Rightarrow> int) \<Rightarrow> bool" where
  "halved L other val l h \<sigma> g res F \<longleftrightarrow> (case res of (wide, lo, hi, g') \<Rightarrow>
     renames \<sigma> g g' \<and> lo < g_next g' \<and> hi < g_next g' \<and> g_next g \<le> lo \<and> g_next g \<le> hi \<and> wide < g_next g'
     \<and> (\<forall>env. named \<sigma> env \<and> valuation (reko_of L) other val g' env \<and> wide_values (seqs L) g' env \<longrightarrow>
          valuation (reko_of L) other val g env \<and> env lo = take_bit l (F env) \<and> env hi = take_bit h (drop_bit l (F env))))"

lemma builtD:
  assumes "halved L other val l h \<sigma> g (wide, lo, hi, g') F" "named \<sigma> env" "valuation (reko_of L) other val g' env"
    "wide_values (seqs L) g' env"
  shows "valuation (reko_of L) other val g env" "env lo = take_bit l (F env)" "env hi = take_bit h (drop_bit l (F env))"
  using assms by (simp_all add: halved_def)

lemma halved_renames: "halved L other val l h \<sigma> g (wide, lo, hi, g') F \<Longrightarrow> renames \<sigma> g g'"
  by (simp add: halved_def)

lemma yieldsD:
  assumes "yields R other val g (n, g') b F"
  shows "keeps g g'" "n < g_next g'" "typed R g'" "bit_size R (n_type (g_node g' n)) = b"
    "valuation R other val g' env \<Longrightarrow> valuation R other val g env \<and> env n = F env"
  using assms by (simp_all add: yields_def)

lemma built_by:
  assumes y: "yields (reko_of L) other val g1 (wide, g2) (l + h) F" and k: "renames \<sigma> g g1" and ty: "typed (reko_of L) g"
    and eq: "\<And>env g'. \<lbrakk>named \<sigma> env; valuation (reko_of L) other val g' env; wide_values (seqs L) g' env; keeps g1 g'\<rbrakk> \<Longrightarrow> F env = F' env"
    and sizes: "bits L dt_lo = l" "bits L dt_hi = h" "0 < l" "0 < h"
  shows "halved L other val l h \<sigma> g (wide, split_wide L dt_lo dt_hi wide g2) F'"
proof -
  obtain lo hi g' where s: "split_wide L dt_lo dt_hi wide g2 = (lo, hi, g')" using prod_cases3 by blast
  note y = yieldsD [OF y]
  note n = split_wide_new [OF s y(2)]
  have size: "size_of (seqs L) g2 wide = bits L dt_lo + bits L dt_hi" using y(4) sizes by simp
  have pos: "0 < bits L dt_lo" "0 < bits L dt_hi" using sizes by simp_all
  note n = n [OF size pos]
  have le: "g_next g \<le> g_next g1" "g_next g1 \<le> g_next g2" using renamesD(1) [OF k] y(1) by (simp_all add: keeps_def)
  have k2: "keeps g1 g'" by (rule keeps_trans [OF y(1) n(4)])
  have ren: "renames \<sigma> g g'" by (rule renames_keeps_trans [OF k k2])
  have "valuation (reko_of L) other val g env \<and> env lo = take_bit l (F' env) \<and> env hi = take_bit h (drop_bit l (F' env))"
    if e: "named \<sigma> env" "valuation (reko_of L) other val g' env" "wide_values (seqs L) g' env" for env
  proof -
    have v2: "valuation (reko_of L) other val g2 env" using n(7) [OF e(2)] .
    then have "env wide = F env" using y(5) by blast
    then have "env wide = F' env" using eq [OF e(1,2,3) k2] by simp
    then show ?thesis using n(8) [OF e(3)] renames_valuation [OF ren ty e(1,2)] sizes by simp
  qed
  then show ?thesis
    using n(1-3) le y(2) ren by (simp add: halved_def s)
qed

lemma joins_operand: "joins X val g hi lo s \<Longrightarrow> b = size_of X g hi + size_of X g lo \<Longrightarrow> operand (base X) g b s"
  by (auto simp: operand_def joins_def)

lemma wide_sum_built:
  assumes ok: "long_ok L other val" and ty: "typed (reko_of L) g" and edges: "edges_ok g"
    and h: "halves (seqs L) g hi_left lo_left" "halves (seqs L) g hi_right lo_right" and ap: "apart g hi_left lo_left hi_right lo_right"
    and size: "size_of (seqs L) g hi_left = h" "size_of (seqs L) g hi_right = h"
      "size_of (seqs L) g lo_left = l" "size_of (seqs L) g lo_right = l" "0 < l" "0 < h"
  obtains res \<sigma> where "wide_sum L op hi_left lo_left hi_right lo_right g = Some res" "halved L other val l h \<sigma> g res
    (\<lambda>env. op_sem other op (l + h) (env hi_left * 2 ^ l + env lo_left) (env hi_right * 2 ^ l + env lo_right))"
proof -
  let ?dt = "combine_types L (type_at g hi_left) (type_at g lo_left)"
  have dt: "bits L ?dt = l + h" using size by (simp add: bits_combine [OF ok] type_at_def)
  have le: "hi_right < g_next g" "lo_right < g_next g" "hi_left < g_next g" "lo_left < g_next g"
    using halves_below [OF h(1)] halves_below [OF h(2)] by simp_all
  have d1: "bits L ?dt = size_of (seqs L) g hi_left + size_of (seqs L) g lo_left"
    "0 < size_of (seqs L) g hi_left" "0 < size_of (seqs L) g lo_left" using dt size by simp_all
  obtain s1 g1 \<sigma> where 1: "seq (seqs L) ?dt [hi_left, lo_left] g = Some (s1, g1)" "renames \<sigma> g g1"
    "joins (seqs L) val g1 (\<sigma> hi_left) (\<sigma> lo_left) s1" "typed (reko_of L) g1" "edges_ok g1" "g_next g \<le> s1"
    "\<And>i. \<sigma> i \<noteq> i \<Longrightarrow> (i = hi_left \<or> i = lo_left) \<and> paired g hi_left lo_left"
    by (rule seq_halves [OF ok ty edges h(1) d1]) blast
  note D1 = renamesD [OF 1(2)]
  have same: "\<sigma> hi_right = hi_right" "\<sigma> lo_right = lo_right" using 1(7) ap unfolding apart_def by blast+
  have d2: "bits L ?dt = size_of (seqs L) g1 hi_right + size_of (seqs L) g1 lo_right"
    "0 < size_of (seqs L) g1 hi_right" "0 < size_of (seqs L) g1 lo_right" using dt size D1(4) le by simp_all
  obtain s2 g2 \<tau> where 2: "seq (seqs L) ?dt [hi_right, lo_right] g1 = Some (s2, g2)" "renames \<tau> g1 g2"
    "joins (seqs L) val g2 (\<tau> hi_right) (\<tau> lo_right) s2" "typed (reko_of L) g2" "edges_ok g2" "g_next g1 \<le> s2"
    "\<And>i. \<tau> i \<noteq> i \<Longrightarrow> (i = hi_right \<or> i = lo_right) \<and> paired g1 hi_right lo_right"
    by (rule seq_halves [OF ok 1(4,5) halves_renames [OF h(2) 1(2) same] d2]) blast
  note D2 = renamesD [OF 2(2)]
  have old: "\<tau> i = i" if "g_next g \<le> i" for i using 2(7) [of i] le that by auto
  have r: "renames (\<tau> \<circ> \<sigma>) g g2" by (rule renames_trans [OF 1(2) 2(2) old])
  have j1: "joins (seqs L) val g2 ((\<tau> \<circ> \<sigma>) hi_left) ((\<tau> \<circ> \<sigma>) lo_left) s1"
    using joins_renames [OF 1(3) 2(2) old [OF 1(6)]] by simp
  have j2: "joins (seqs L) val g2 ((\<tau> \<circ> \<sigma>) hi_right) ((\<tau> \<circ> \<sigma>) lo_right) s2" using 2(3) same by simp
  note sz = renamesD(8) [OF r]
  have o: "operand (reko_of L) g2 (bits L ?dt) s1" "operand (reko_of L) g2 (bits L ?dt) s2"
    using joins_operand [OF j1] joins_operand [OF j2] sz [OF le(1)] sz [OF le(2)] sz [OF le(3)] sz [OF le(4)] dt size
    by (simp_all add: add.commute)
  obtain wide g3 where 3: "bin (reko_of L) ?dt op None s1 s2 g2 = Some (wide, g3)"
    "yields (reko_of L) other val g2 (wide, g3) (bits L ?dt) (\<lambda>env. op_sem other op (bits L ?dt) (env s1) (env s2))"
    using bin_keeps_value [OF long_okD(1) [OF ok] 2(4) o, of op None] by auto
  have res: "wide_sum L op hi_left lo_left hi_right lo_right g
      = Some (wide, split_wide L (type_at g lo_left) (type_at g hi_left) wide g3)"
    using 1(1) 2(1) 3(1) by (simp add: wide_sum_def Let_def)
  show ?thesis
  proof (rule that [OF res], rule built_by [OF 3(2) [unfolded dt] r ty])
    fix env g'
    assume e: "named (\<tau> \<circ> \<sigma>) env" "valuation (reko_of L) other val g' env" "wide_values (seqs L) g' env" "keeps g2 g'"
    have "env s1 = env hi_left * 2 ^ l + env lo_left"
      using joined [OF j1 e(4,2,3)] namedD [OF e(1)] sz [OF le(4)] size by simp
    moreover have "env s2 = env hi_right * 2 ^ l + env lo_right"
      using joined [OF j2 e(4,2,3)] namedD [OF e(1)] sz [OF le(2)] size by simp
    ultimately show "op_sem other op (l + h) (env s1) (env s2)
        = op_sem other op (l + h) (env hi_left * 2 ^ l + env lo_left) (env hi_right * 2 ^ l + env lo_right)" by simp
  qed (use size in \<open>auto simp: type_at_def\<close>)
qed

lemma wide_shift_built:
  assumes ok: "long_ok L other val" and ty: "typed (reko_of L) g" and edges: "edges_ok g" and h: "halves (seqs L) g hi lo"
    and size: "size_of (seqs L) g hi = h" "size_of (seqs L) g lo = l" "bits L dt_hi = h" "bits L dt_lo = l" "0 < l" "0 < h"
    and op: "op \<in> {Op_Shl, Op_Shr, Op_Sar}" and amount: "amount < g_next g"
  obtains res \<sigma> where "wide_shift L op dt_hi dt_lo hi lo amount g = Some res"
    "halved L other val l h \<sigma> g res (\<lambda>env. op_sem other op (l + h) (env hi * 2 ^ l + env lo) (env amount))"
proof -
  let ?dt = "combine_types L dt_hi dt_lo"
  have dt: "bits L ?dt = l + h" using size by (simp add: bits_combine [OF ok])
  have d: "bits L ?dt = size_of (seqs L) g hi + size_of (seqs L) g lo"
    "0 < size_of (seqs L) g hi" "0 < size_of (seqs L) g lo" using dt size by simp_all
  obtain s g1 \<sigma> where 1: "seq (seqs L) ?dt [hi, lo] g = Some (s, g1)" "renames \<sigma> g g1"
    "joins (seqs L) val g1 (\<sigma> hi) (\<sigma> lo) s" "typed (reko_of L) g1" "edges_ok g1" "g_next g \<le> s"
    by (rule seq_halves [OF ok ty edges h d]) blast
  have le: "hi < g_next g" "lo < g_next g" using halves_below [OF h] by simp_all
  note sz = renamesD(8) [OF 1(2)]
  have lt: "s < g_next g1" "amount < g_next g1" using 1(3) amount renamesD(1) [OF 1(2)] by (simp_all add: joins_def)
  have ss: "size_of (seqs L) g1 s = bits L ?dt" using 1(3) sz [OF le(1)] sz [OF le(2)] d by (simp add: joins_def)
  have "\<exists>wide g2. bin (reko_of L) ?dt op None s amount g1 = Some (wide, g2)
    \<and> yields (reko_of L) other val g1 (wide, g2) (l + h) (\<lambda>env. op_sem other op (l + h) (env s) (env amount))"
  proof (cases "as_constant g1 s \<noteq> None \<and> as_constant g1 amount \<noteq> None")
    case True
    then obtain c d where cd: "as_constant g1 s = Some c" "as_constant g1 amount = Some d" by auto
    have c: "bits L (const_type (reko_of L) c) = bits L ?dt"
      using as_constantD(2) [OF cd(1) lt(1) 1(4)] ss by simp
    let ?e = "apply_constants (reko_of L) op ?dt c d"
    have e: "const_type (reko_of L) ?e = ?dt" "val ?e = op_sem other op (l + h) (val c) (val d)"
      using reko_okD(1) [OF long_okD(1) [OF ok]] long_okD(8) [OF ok op c] dt by simp_all
    have "yields (reko_of L) other val g1 (m_const (reko_of L) ?e g1) (bits L ?dt) (\<lambda>_. val ?e)"
      using yields_const [OF long_okD(1) [OF ok] 1(4), of ?e] unfolding e(1) .
    then have "yields (reko_of L) other val g1 (m_const (reko_of L) ?e g1) (l + h)
        (\<lambda>env. op_sem other op (l + h) (env s) (env amount))"
      unfolding dt e(2)
      by (rule yields_eq) (simp add: as_constantD(3) [OF cd(1) lt(1)] as_constantD(3) [OF cd(2) lt(2)])
    then show ?thesis using cd by (cases "m_const (reko_of L) ?e g1") (simp add: bin_def)
  next
    case False
    then have "bin (reko_of L) ?dt op None s amount g1 = Some (m_bin ?dt op None s amount g1)"
      using op by (auto simp: bin_def bin_op_def is_symmetric_def split: option.split)
    moreover have "yields (reko_of L) other val g1 (m_bin ?dt op None s amount g1) (bits L ?dt)
        (\<lambda>env. op_sem other op (bits L ?dt) (env s) (env amount))"
      using op lt by (intro yields_bin [OF 1(4)]) auto
    ultimately show ?thesis unfolding dt by (cases "m_bin ?dt op None s amount g1") simp
  qed
  then obtain wide g2 where 2: "bin (reko_of L) ?dt op None s amount g1 = Some (wide, g2)"
    "yields (reko_of L) other val g1 (wide, g2) (l + h) (\<lambda>env. op_sem other op (l + h) (env s) (env amount))" by blast
  have res: "wide_shift L op dt_hi dt_lo hi lo amount g = Some (wide, split_wide L dt_lo dt_hi wide g2)"
    using 1(1) 2(1) by (simp add: wide_shift_def Let_def)
  show ?thesis
  proof (rule that [OF res], rule built_by [OF 2(2) 1(2) ty])
    fix env g'
    assume e: "named \<sigma> env" "valuation (reko_of L) other val g' env" "wide_values (seqs L) g' env" "keeps g1 g'"
    have "env s = env hi * 2 ^ l + env lo"
      using joined [OF 1(3) e(4,2,3)] namedD [OF e(1)] sz [OF le(2)] size by simp
    then show "op_sem other op (l + h) (env s) (env amount) = op_sem other op (l + h) (env hi * 2 ^ l + env lo) (env amount)"
      by simp
  qed (use size in auto)
qed

lemma wide_negation_built:
  assumes ok: "long_ok L other val" and ty: "typed (reko_of L) g" and edges: "edges_ok g" and h: "halves (seqs L) g hi lo"
    and size: "size_of (seqs L) g hi = h" "size_of (seqs L) g lo = l" "bits L dt_hi = h" "bits L dt_lo = l" "0 < l" "0 < h"
  obtains res \<sigma> where "wide_negation L dt_hi dt_lo hi lo g = Some res"
    "halved L other val l h \<sigma> g res (\<lambda>env. take_bit (l + h) (- (env hi * 2 ^ l + env lo)))"
proof -
  let ?dt = "combine_types L dt_hi dt_lo"
  have dt: "bits L ?dt = l + h" using size by (simp add: bits_combine [OF ok])
  have d: "bits L ?dt = size_of (seqs L) g hi + size_of (seqs L) g lo"
    "0 < size_of (seqs L) g hi" "0 < size_of (seqs L) g lo" using dt size by simp_all
  obtain s g1 \<sigma> where 1: "seq (seqs L) ?dt [hi, lo] g = Some (s, g1)" "renames \<sigma> g g1"
    "joins (seqs L) val g1 (\<sigma> hi) (\<sigma> lo) s" "typed (reko_of L) g1" "edges_ok g1" "g_next g \<le> s"
    by (rule seq_halves [OF ok ty edges h d]) blast
  have le: "hi < g_next g" "lo < g_next g" using halves_below [OF h] by simp_all
  note sz = renamesD(8) [OF 1(2)]
  have o: "operand (reko_of L) g1 (bits L ?dt) s"
    using joins_operand [OF 1(3)] sz [OF le(1)] sz [OF le(2)] d by simp
  obtain wide g2 where 2: "neg ?dt s g1 = Some (wide, g2)"
    "yields (reko_of L) other val g1 (wide, g2) (bits L ?dt) (\<lambda>env. take_bit (bits L ?dt) (- env s))"
    using neg_keeps_value [OF 1(4) o, of other val] by auto
  have res: "wide_negation L dt_hi dt_lo hi lo g = Some (wide, split_wide L dt_lo dt_hi wide g2)"
    using 1(1) 2(1) by (simp add: wide_negation_def Let_def)
  show ?thesis
  proof (rule that [OF res], rule built_by [OF 2(2) [unfolded dt] 1(2) ty])
    fix env g'
    assume e: "named \<sigma> env" "valuation (reko_of L) other val g' env" "wide_values (seqs L) g' env" "keeps g1 g'"
    have "env s = env hi * 2 ^ l + env lo"
      using joined [OF 1(3) e(4,2,3)] namedD [OF e(1)] sz [OF le(2)] size by simp
    then show "take_bit (l + h) (- env s) = take_bit (l + h) (- (env hi * 2 ^ l + env lo))" by simp
  qed (use size in auto)
qed

section \<open>Arithmetic on halves\<close>

lemma low_half:
  "take_bit l (take_bit (l + h) ((a * 2 ^ l + b) + (c * 2 ^ l + d))) = take_bit l (b + d :: int)"
  "take_bit l (take_bit (l + h) ((a * 2 ^ l + b) - (c * 2 ^ l + d))) = take_bit l (b - d)"
  "take_bit l (take_bit (l + h) (- (a * 2 ^ l + b))) = take_bit l (- b)"
proof -
  have "(a * 2 ^ l + b) + (c * 2 ^ l + d) = b + d + 2 ^ l * (a + c)" "(a * 2 ^ l + b) - (c * 2 ^ l + d) = b - d + 2 ^ l * (a - c)"
    "- (a * 2 ^ l + b) = - b + 2 ^ l * (- a)"
    by (simp_all add: algebra_simps)
  then show "take_bit l (take_bit (l + h) ((a * 2 ^ l + b) + (c * 2 ^ l + d))) = take_bit l (b + d)"
    "take_bit l (take_bit (l + h) ((a * 2 ^ l + b) - (c * 2 ^ l + d))) = take_bit l (b - d)"
    "take_bit l (take_bit (l + h) (- (a * 2 ^ l + b))) = take_bit l (- b)"
    by (simp_all only: take_bit_take_bit min.absorb1 [OF le_add1]) (simp_all only: take_bit_eq_mod mod_mult_self2)
qed

lemma high_part: "take_bit h (drop_bit l (take_bit (l + h) (x + 2 ^ l * y))) = take_bit h (y + x div 2 ^ l :: int)"
proof -
  have "(x + 2 ^ l * y) div 2 ^ l = y + x div 2 ^ l" by simp
  moreover have "drop_bit l (take_bit (l + h) z) = take_bit h (drop_bit l z)" for z :: int by (simp add: drop_bit_take_bit)
  ultimately show ?thesis by (simp only: drop_bit_eq_div take_bit_take_bit min.idem)
qed

lemma carry_out:
  assumes "0 \<le> b" "b < 2 ^ l" "0 \<le> d" "d < (2 :: int) ^ l"
  shows "(b + d) div 2 ^ l = of_bool (2 ^ l \<le> b + d)" "(b - d) div 2 ^ l = - of_bool (b < d)" "(- b) div 2 ^ l = - of_bool (b \<noteq> 0)"
proof -
  have q: "x div 2 ^ l = k" if "k * 2 ^ l \<le> x" "x < (k + 1) * 2 ^ l" for x k :: int
    using that by (intro int_div_pos_eq [where r = "x - k * 2 ^ l"]) (auto simp: algebra_simps)
  show "(b + d) div 2 ^ l = of_bool (2 ^ l \<le> b + d)" using assms by (intro q) auto
  show "(b - d) div 2 ^ l = - of_bool (b < d)" using assms by (intro q) auto
  show "(- b) div 2 ^ l = - of_bool (b \<noteq> 0)" using assms by (intro q) auto
qed

lemma high_half:
  assumes "0 \<le> b" "b < 2 ^ l" "0 \<le> d" "d < (2 :: int) ^ l"
  shows "take_bit h (drop_bit l (take_bit (l + h) ((a * 2 ^ l + b) + (c * 2 ^ l + d)))) = take_bit h (a + c + of_bool (2 ^ l \<le> b + d))"
    "take_bit h (drop_bit l (take_bit (l + h) ((a * 2 ^ l + b) - (c * 2 ^ l + d)))) = take_bit h (a - c - of_bool (b < d))"
    "take_bit h (drop_bit l (take_bit (l + h) (- (a * 2 ^ l + b)))) = take_bit h (- a - of_bool (b \<noteq> 0))"
proof -
  have "(a * 2 ^ l + b) + (c * 2 ^ l + d) = b + d + 2 ^ l * (a + c)" "(a * 2 ^ l + b) - (c * 2 ^ l + d) = b - d + 2 ^ l * (a - c)"
    "- (a * 2 ^ l + b) = - b + 2 ^ l * (- a)"
    by (simp_all add: algebra_simps)
  then show "take_bit h (drop_bit l (take_bit (l + h) ((a * 2 ^ l + b) + (c * 2 ^ l + d)))) = take_bit h (a + c + of_bool (2 ^ l \<le> b + d))"
    "take_bit h (drop_bit l (take_bit (l + h) ((a * 2 ^ l + b) - (c * 2 ^ l + d)))) = take_bit h (a - c - of_bool (b < d))"
    "take_bit h (drop_bit l (take_bit (l + h) (- (a * 2 ^ l + b)))) = take_bit h (- a - of_bool (b \<noteq> 0))"
    using carry_out [OF assms] by (simp_all only: high_part) (simp_all add: algebra_simps)
qed

section \<open>Additions and subtractions\<close>

lemma binary_value:
  assumes "typed R g" "valuation R other val g env" "i < g_next g" "n_kind (g_node g i) = BinaryNode op"
    "input_at g i 1 = Some x" "input_at g i 2 = Some y"
  shows "env i = op_sem other op (bit_size R (n_type (g_node g i))) (env x) (env y)" "x < g_next g" "y < g_next g"
    "op = Op_IAdd \<or> op = Op_ISub \<Longrightarrow> bit_size R (n_type (g_node g x)) = bit_size R (n_type (g_node g i))
       \<and> bit_size R (n_type (g_node g y)) = bit_size R (n_type (g_node g i))"
proof -
  have "well_shaped R g (BinaryNode op) (n_type (g_node g i)) (ins g i)" using assms(1,3,4) unfolding typed_def by metis
  then obtain cf l r where i: "ins g i = [cf, Some l, Some r]" and s: "l < g_next g" "r < g_next g"
    "op = Op_IAdd \<or> op = Op_ISub \<longrightarrow>
              bit_size R (n_type (g_node g l)) = bit_size R (n_type (g_node g i)) \<and> bit_size R (n_type (g_node g r)) = bit_size R (n_type (g_node g i))"
    by (auto simp: well_shaped_def)
  have "x = l" "y = r" using assms(5,6) input_at_in [OF i, of 1] input_at_in [OF i, of 2] by simp_all
  moreover have "env i = op_sem other op (bit_size R (n_type (g_node g i))) (env l) (env r)"
    using assms(2-4) i by (simp add: valuation_def node_ok_def has_value_def input_of_def flip: ins_def)
  ultimately show "env i = op_sem other op (bit_size R (n_type (g_node g i))) (env x) (env y)" "x < g_next g" "y < g_next g"
    "op = Op_IAdd \<or> op = Op_ISub \<Longrightarrow> bit_size R (n_type (g_node g x)) = bit_size R (n_type (g_node g i))
       \<and> bit_size R (n_type (g_node g y)) = bit_size R (n_type (g_node g i))"
    using s by auto
qed

text \<open>The value of an addition or subtraction with the carry or borrow of the operation on the low halves.\<close>

definition carried :: "op_type \<Rightarrow> nat \<Rightarrow> nat \<Rightarrow> int \<Rightarrow> int \<Rightarrow> int \<Rightarrow> int \<Rightarrow> int" where
  "carried op h l hi_left hi_right lo_left lo_right =
     take_bit h (if op = Op_IAdd then hi_left + hi_right + of_bool (2 ^ l \<le> lo_left + lo_right)
                 else hi_left - hi_right - of_bool (lo_left < lo_right))"

lemma carried_halves:
  assumes "op = Op_IAdd \<or> op = Op_ISub" "0 \<le> b" "b < 2 ^ l" "0 \<le> d" "d < (2 :: int) ^ l"
  shows "take_bit l (op_sem other op (l + h) (a * 2 ^ l + b) (c * 2 ^ l + d)) = op_sem other op l b d"
    "take_bit h (drop_bit l (op_sem other op (l + h) (a * 2 ^ l + b) (c * 2 ^ l + d))) = carried op h l a c b d"
    "op_sem other op h (carried op h l a 0 b d) e = carried op h l a e b d"
proof -
  show "take_bit l (op_sem other op (l + h) (a * 2 ^ l + b) (c * 2 ^ l + d)) = op_sem other op l b d"
    using assms(1) low_half(1,2) [of l h a b c d] by (auto simp: op_sem_def)
  show "take_bit h (drop_bit l (op_sem other op (l + h) (a * 2 ^ l + b) (c * 2 ^ l + d))) = carried op h l a c b d"
    using assms(1) high_half [OF assms(2-5)] by (auto simp: op_sem_def carried_def)
  show "op_sem other op h (carried op h l a 0 b d) e = carried op h l a e b d"
    using assms(1) by (auto simp: op_sem_def carried_def take_bit_eq_mod mod_simps algebra_simps)
qed

text \<open>The high operation: the one with the carry, or the one that adds the operand to it when it has a zero operand.\<close>

lemma high_sum_value:
  assumes ok: "long_ok L other val" and ty: "typed (reko_of L) g" and edges: "edges_ok g" and v: "valuation (reko_of L) other val g env"
    and op: "op = Op_IAdd \<or> op = Op_ISub" and addc: "addc < g_next g" "input_at g addc 3 = Some hi_right"
    and hi: "(if is_zero_constant L g hi_right then high_sum L g addc op hi_right (outs g addc) else Some (hi_right, addc))
        = Some (hi_operand, hi_sum)"
    and size: "size_of (seqs L) g addc = h"
    and range: "0 \<le> env lo_left \<and> env lo_left < 2 ^ l" "0 \<le> env lo_right \<and> env lo_right < 2 ^ l"
    and carry: "env addc = carried op h l (env hi_left) (env hi_right) (env lo_left) (env lo_right)"
  shows "env hi_sum = carried op h l (env hi_left) (env hi_operand) (env lo_left) (env lo_right)"
proof (cases "is_zero_constant L g hi_right")
  case False
  then show ?thesis using hi carry by simp
next
  case True
  obtain c where c: "as_constant g hi_right = Some c" "is_zero (reko_of L) c"
    using True by (auto simp: is_zero_constant_def split: option.splits)
  have "hi_right < g_next g" using edges_okD(3) [OF edges addc(1)] input_at_mem [OF addc(2)] by blast
  then have zero: "env hi_right = 0"
    using as_constantD(3) [OF c(1) _ v] c(2) reko_okD(3) [OF long_okD(1) [OF ok]] by simp
  have "high_sum L g addc op hi_right (outs g addc) = Some (hi_operand, hi_sum)" using hi True by simp
  then show ?thesis
  proof (cases rule: high_sum_cases)
    case 1
    then show ?thesis using carry by simp
  next
    case 2
    have lt: "hi_sum < g_next g" by (rule edges_okD(2) [OF edges addc(1) 2(1)])
    note bv = binary_value [OF ty v lt 2(2-4)]
    have "size_of (seqs L) g hi_sum = h" using bv(4) [OF op] size by simp
    then show ?thesis
      using bv(1) carry zero carried_halves(3) [OF op, of "env lo_left" l "env lo_right"] range by simp
  qed
qed

text \<open>
  C15. Fusing an addition or subtraction with carry keeps the values: where the carry is that of the operation on
  the low halves, possibly masked, the two slices that \<open>TryFuseAddSub\<close> puts in place of the low operation and of
  the high one have the values of those nodes; in the form with two high operations (first the carry, then the
  operand) the high one is the second.  A pair of halves may be two definitions, as for a register pair that the
  procedure receives: \<open>Seq\<close> then replaces them by slices of one definition, and \<open>\<sigma>\<close> names the replacements.
  The condition \<open>halves\<close> excludes slices and sequences (C25 shows what \<open>Seq\<close> does to those) and a negative
  constant in a low half, \<open>apart\<close> a right operand that is a definition of a fused left pair (for which C19 shows
  that the code raises); \<open>long_ok\<close> states the laws of Reko's types and constants.
\<close>

theorem add_sub_keeps_value:
  assumes ok: "long_ok L other val" and ty: "typed (reko_of L) g" and graph: "graph_ok g" and op: "op = Op_IAdd \<or> op = Op_ISub"
    and addc: "addc < g_next g" "ins g addc = [cf, Some pc, Some hi_left, Some hi_right, Some carry]"
    and flags: "is_maybe_masked_cond_node g carry = Some (Some cond)" "input_at g cond 1 = Some lo_sum"
    and lo: "lo_sum < g_next g" "is_add_sub L g lo_sum = Some (Some (op, lo_left, lo_right))"
    and hi: "(if is_zero_constant L g hi_right then high_sum L g addc op hi_right (outs g addc) else Some (hi_right, addc))
        = Some (hi_operand, hi_sum)"
    and halves: "halves (seqs L) g hi_left lo_left" "halves (seqs L) g hi_operand lo_right"
    and apart: "apart g hi_left lo_left hi_operand lo_right"
    and sizes: "size_of (seqs L) g hi_left = h" "size_of (seqs L) g addc = h" "size_of (seqs L) g hi_operand = h"
      "size_of (seqs L) g lo_sum = l" "0 < h" "0 < l"
  shows "\<exists>\<sigma> wide lo_slice hi_slice g1 g2. renames \<sigma> g g1 \<and> replace_cond_ofs addc wide g1 = Some g2
    \<and> try_fuse_add_sub L addc op (g, r) = Some (Some wide,
        remove_from_inputs lo_sum (remove_from_inputs addc (replace lo_sum lo_slice (replace hi_sum hi_slice g2))),
        r(addc \<mapsto> hi_slice, lo_sum \<mapsto> lo_slice))
    \<and> (\<forall>env. named \<sigma> env \<and> valuation (reko_of L) other val g1 env \<and> wide_values (seqs L) g1 env
          \<and> env addc = carried op h l (env hi_left) (env hi_right) (env lo_left) (env lo_right) \<longrightarrow>
        env lo_slice = env lo_sum \<and> env hi_slice = env hi_sum)"
proof -
  have edges: "edges_ok g" using graph by (simp add: graph_ok_def)
  note k = is_add_sub_Some [OF lo(2)]
  have plain: "slice_offset g lo_sum = None" using k(1) by (simp add: slice_offset_def)
  have inputs: "input_at g addc 2 = Some hi_left" "input_at g addc 3 = Some hi_right" "input_at g addc 4 = Some carry"
    "length (ins g addc) = 5"
    using input_at_in [OF addc(2)] addc(2) by simp_all
  have lo_sizes: "size_of (seqs L) g lo_left = l" "size_of (seqs L) g lo_right = l"
  proof -
    have "well_shaped (reko_of L) g (BinaryNode op) (n_type (g_node g lo_sum)) (ins g lo_sum)"
      using ty lo(1) k(1) unfolding typed_def by metis
    then obtain c x y where i: "ins g lo_sum = [c, Some x, Some y]"
      "size_of (seqs L) g x = l" "size_of (seqs L) g y = l" using op sizes(4) by (auto simp: well_shaped_def)
    then show "size_of (seqs L) g lo_left = l" "size_of (seqs L) g lo_right = l"
      using k(2,3) input_at_in [OF i(1), of 1] input_at_in [OF i(1), of 2] by simp_all
  qed
  obtain res \<sigma> where res: "wide_sum L op hi_left lo_left hi_operand lo_right g = Some res"
    "halved L other val l h \<sigma> g res
      (\<lambda>env. op_sem other op (l + h) (env hi_left * 2 ^ l + env lo_left) (env hi_operand * 2 ^ l + env lo_right))"
    by (rule wide_sum_built [OF ok ty edges halves apart sizes(1,3) lo_sizes sizes(6,5)])
  obtain wide lo_slice hi_slice g1 where r: "res = (wide, lo_slice, hi_slice, g1)" by (cases res)
  note b = res(2) [unfolded r]
  have below: "hi_left < g_next g" "lo_left < g_next g" "hi_operand < g_next g" "lo_right < g_next g"
    using halves_below [OF halves(1)] halves_below [OF halves(2)] by simp_all
  have low: "0 < bits L (type_at g lo_left)" using lo_sizes(1) sizes(6) by (simp add: type_at_def)
  have w: "grown g g1" "wide < g_next g1" using wide_sum_ok [OF graph low res(1) below] by (simp_all add: wide_ok_def r)
  obtain g2 where g2: "replace_cond_ofs addc wide g1 = Some g2"
    by (rule replace_cond_ofs_returns [OF grownD(1) [OF w(1)] w(2) grownD(2) [OF w(1) addc(1)]])
  have fused: "try_fuse_add_sub L addc op (g, r) = Some (Some wide,
        remove_from_inputs lo_sum (remove_from_inputs addc (replace lo_sum lo_slice (replace hi_sum hi_slice g2))),
        r(addc \<mapsto> hi_slice, lo_sum \<mapsto> lo_slice))"
    using res(1) r g2 by (simp add: try_fuse_add_sub_def inputs flags plain lo(2) hi del: One_nat_def)
  have vals: "env lo_slice = env lo_sum \<and> env hi_slice = env hi_sum"
    if e: "named \<sigma> env" "valuation (reko_of L) other val g1 env" "wide_values (seqs L) g1 env"
      "env addc = carried op h l (env hi_left) (env hi_right) (env lo_left) (env lo_right)" for env
  proof -
    note bs = builtD [OF b e(1-3)]
    note v = bs(1)
    note range = valuation_old_range [OF v below(2), unfolded lo_sizes] valuation_old_range [OF v below(4), unfolded lo_sizes]
    have s: "env lo_slice = op_sem other op l (env lo_left) (env lo_right)"
      "env hi_slice = carried op h l (env hi_left) (env hi_operand) (env lo_left) (env lo_right)"
      using bs(2,3) carried_halves(1,2) [OF op, of "env lo_left" l "env lo_right"] range by simp_all
    have "env lo_sum = op_sem other op l (env lo_left) (env lo_right)"
      using binary_value(1) [OF ty v lo(1) k] sizes(4) by simp
    moreover have "env hi_sum = carried op h l (env hi_left) (env hi_operand) (env lo_left) (env lo_right)"
      by (rule high_sum_value [OF ok ty edges v op addc(1) inputs(2) hi sizes(2) range e(4)])
    ultimately show ?thesis using s by simp
  qed
  show ?thesis
    by (intro exI [of _ \<sigma>] exI [of _ wide] exI [of _ lo_slice] exI [of _ hi_slice] exI [of _ g1] exI [of _ g2]
        conjI halved_renames [OF b] g2 fused) (use vals in blast)
qed

lemma sample_long_ok: "long_ok sample_long sample_ops sample_value"
  using sample_reko_ok
  by (auto simp: long_ok_def reko_ok_def sample_long_def sample_seq_def sample_reko_def sample_value_simps sample_ops_def mult.commute)

lemma sample_constants: "as_constant g n = Some c \<Longrightarrow> 0 \<le> big_integer (seqs sample_long) c"
  by (simp add: sample_long_def sample_seq_def sample_value_simps)

lemma sum_nodes_halves: "halves (seqs sample_long) (build sum_nodes) 1 2" "halves (seqs sample_long) (build sum_nodes) 3 4"
  "apart (build sum_nodes) 1 2 3 4"
  by (simp_all add: halves_def half_def paired_def apart_def plain_def slice_offset_def sample_constants sample_simps sum_nodes_def
      flip: ins_def)

lemma shift_nodes_halves: "halves (seqs sample_long) (build shift_nodes) 1 3"
  by (simp add: halves_def half_def paired_def plain_def slice_offset_def sample_constants sample_simps shift_nodes_def flip: ins_def)

lemma sample_adds: "is_add_or_sub (reko_of sample_long) op \<longleftrightarrow> op = Op_IAdd \<or> op = Op_ISub"
  by (simp add: sample_long_def sample_seq_def sample_reko_def)

lemma nth_nodes:
  "g_next (build sum_nodes) = 9"
  "n_kind (g_node (build sum_nodes) 3) = DefNode" "n_kind (g_node (build sum_nodes) 5) = BinaryNode Op_IAdd"
  "n_kind (g_node (build sum_nodes) 6) = CondNode"
  "n_type (g_node (build sum_nodes) (Suc 0)) = 16" "n_type (g_node (build sum_nodes) 3) = 16" "n_type (g_node (build sum_nodes) 5) = 16"
  "n_type (g_node (build sum_nodes) 8) = 16"
  "ins (build sum_nodes) 5 = [None, Some 2, Some 4]"
  "ins (build sum_nodes) 6 = [None, Some 5]"
  "ins (build sum_nodes) 8 = [None, Some 7, Some 1, Some 3, Some 6]"
  by (simp_all add: build_fields sum_nodes_def)

theorem add_sub_keeps_value_witness:
  "\<exists>\<sigma> wide lo_slice hi_slice g1 g2. renames \<sigma> (build sum_nodes) g1 \<and> replace_cond_ofs 8 wide g1 = Some g2
    \<and> try_fuse_add_sub sample_long 8 Op_IAdd (build sum_nodes, Map.empty) = Some (Some wide,
        remove_from_inputs 5 (remove_from_inputs 8 (replace 5 lo_slice (replace 8 hi_slice g2))), [8 \<mapsto> hi_slice, 5 \<mapsto> lo_slice])
    \<and> (\<forall>env. named \<sigma> env \<and> valuation (reko_of sample_long) sample_ops sample_value g1 env \<and> wide_values (seqs sample_long) g1 env
          \<and> env 8 = carried Op_IAdd 16 16 (env 1) (env 3) (env 2) (env 4) \<longrightarrow> env lo_slice = env 5 \<and> env hi_slice = env 8)"
  by (rule add_sub_keeps_value [OF sample_long_ok sum_nodes_ok(2,1) _ _ _ _ _ _ _ _ sum_nodes_halves,
      where cf = None and pc = 7 and hi_right = 3 and carry = 6 and cond = 6])
    (simp_all add: nth_nodes input_at_def arr_get_def type_at_def is_maybe_masked_cond_node_def unmasked_def binary_op_def is_add_sub_def
      is_zero_constant_def as_constant_def sample_adds flip: ins_def)

section \<open>The graph after a fusion\<close>

text \<open>
  C17. Every fusion keeps the graph: the outputs of each node are the nodes that have it as an input, once for each
  time, no reference is to a node that is not there, and a condition node has its one operand or has lost all its
  inputs; so no later \<open>ReplaceCondOfs\<close> or \<open>RemoveFromInputs\<close> raises.  The wide operation is a new node, which only
  a simplification to one of its operands prevents.
\<close>

theorem fusing_keeps_graph:
  assumes ok: "graph_ok g" and pos: "sized L g" and n: "n < g_next g" "0 < bits L (type_at g n)"
    and fuse: "fuse \<in> {try_fuse_sar_rorc L, try_fuse_shl_rolc L, \<lambda>n. try_fuse_add_sub L n Op_IAdd,
      \<lambda>n. try_fuse_add_sub L n Op_ISub, try_fuse_negation L, try_fuse_negation_binary L}"
    and f: "fuse n (g, r) = Some (Some wide, g', r')" and new: "g_next g \<le> wide"
  shows "graph_ok g' \<and> g_next g \<le> g_next g'"
proof -
  have "grown g g'"
    using fuse f sar_rorc_grown [OF ok n(2,1), of r wide g' r'] shl_rolc_grown [OF ok pos n(1), of r wide g' r']
      add_sub_grown [OF ok pos n(1) _ new, of _ r g' r'] negation_grown [OF ok pos n(1) _ new, of r g' r']
      negation_binary_grown [OF ok pos n(1) _ new, of r g' r']
    by auto
  then show ?thesis by (simp add: grown_def)
qed

theorem fusing_keeps_graph_witness:
  "\<exists>wide g' r'. try_fuse_sar_rorc sample_long 7 (build shift_nodes, Map.empty) = Some (Some wide, g', r') \<and> graph_ok g'"
proof -
  let ?g = "build shift_nodes"
  have h: "halves (seqs sample_long) ?g 1 3" by (rule shift_nodes_halves)
  have edges: "edges_ok ?g" using shift_nodes_ok(1) by (simp add: graph_ok_def)
  have sizes: "size_of (seqs sample_long) ?g 1 = 16" "size_of (seqs sample_long) ?g 3 = 16"
    by (simp_all add: sample_simps shift_nodes_def)
  obtain res where res: "wide_shift sample_long Op_Sar 16 16 1 3 4 ?g = Some res"
    by (rule wide_shift_built [OF sample_long_ok shift_nodes_ok(2) edges h sizes, of 16 16 Op_Sar 4])
      (simp_all add: sample_simps shift_nodes_def)
  obtain wide lo hi g1 where r: "res = (wide, lo, hi, g1)" by (cases res)
  have w: "grown ?g g1" "wide < g_next g1" "g_next ?g \<le> wide"
    using wide_shift_ok [OF shift_nodes_ok(1) _ res] by (simp_all add: r wide_ok_def sample_simps shift_nodes_def)
  have n: "7 < g_next ?g" by (simp add: sample_simps shift_nodes_def)
  obtain g2 where "replace_cond_ofs 7 wide g1 = Some g2"
    by (rule replace_cond_ofs_returns [OF grownD(1) [OF w(1)] w(2) grownD(2) [OF w(1) n]])
  then have "\<exists>g' r'. try_fuse_sar_rorc sample_long 7 (?g, Map.empty) = Some (Some wide, g', r')"
    using res by (simp add: try_fuse_sar_rorc_def sample_simps shift_nodes_def r unmasked_def binary_op_def is_one_def
      as_constant_def sample_long_def sample_value_simps flip: ins_def)
  then show ?thesis
    using fusing_keeps_graph [OF shift_nodes_ok(1,3) n _ _ _ w(3), of "try_fuse_sar_rorc sample_long" Map.empty]
    by (fastforce simp: sample_simps shift_nodes_def)
qed

end
