(* ===== verification/Sea_Fused.thy ===== *)
theory Sea_Fused
  imports Sea_Halves
begin

text \<open>
  The other fusions of \<open>Sea_Long\<close>: shifts by one through the carry and negations, the sums that raise, and the
  agreement of inputs and outputs.
\<close>

section \<open>Shifts through the carry\<close>

text \<open>Reko's shifts by one of a value of \<open>b\<close> bits.\<close>

definition shift_law :: "(op_type \<Rightarrow> nat \<Rightarrow> int \<Rightarrow> int \<Rightarrow> int) \<Rightarrow> bool" where
  "shift_law other \<longleftrightarrow> (\<forall>b x. other Op_Shl b x 1 = push_bit 1 x \<and> other Op_Shr b x 1 = drop_bit 1 x
     \<and> other Op_Sar b x 1 = drop_bit 1 (signed_take_bit (b - 1) x))"

text \<open>Rotation of \<open>l\<close> bits by one through a carry, to the right and to the left.\<close>

definition rotate_right :: "nat \<Rightarrow> int \<Rightarrow> int \<Rightarrow> int" where
  "rotate_right l x carry = drop_bit 1 x OR push_bit (l - 1) (take_bit 1 carry)"

definition rotate_left :: "nat \<Rightarrow> int \<Rightarrow> int \<Rightarrow> int" where
  "rotate_left h x carry = take_bit h (push_bit 1 x OR take_bit 1 carry)"

lemma bit_range: "\<lbrakk>0 \<le> (x :: int); x < 2 ^ n; n \<le> k\<rbrakk> \<Longrightarrow> \<not> bit x k"
proof -
  assume "0 \<le> x" "x < 2 ^ n" "n \<le> k"
  then have "take_bit n x = x" "n \<le> k" by (simp_all add: take_bit_int_eq_self)
  then show "\<not> bit x k" by (metis bit_take_bit_iff not_le)
qed

lemma bit_wide: "\<lbrakk>0 \<le> y; y < 2 ^ l\<rbrakk> \<Longrightarrow> bit (x * 2 ^ l + y :: int) n = (if n < l then bit y n else bit x (n - l))"
  using bit_range [of y l n] join_bits [of y l x] by (auto simp: bit_simps simp flip: join_bits)

lemma shifted_halves:
  assumes "shift_law other" "0 < l" "0 < h" "0 \<le> x" "x < (2 :: int) ^ h" "0 \<le> y" "y < (2 :: int) ^ l"
  shows "op \<in> {Op_Sar, Op_Shr} \<Longrightarrow> take_bit l (op_sem other op (l + h) (x * 2 ^ l + y) 1) = rotate_right l y x"
    "op \<in> {Op_Sar, Op_Shr} \<Longrightarrow> take_bit h (drop_bit l (op_sem other op (l + h) (x * 2 ^ l + y) 1)) = op_sem other op h x 1"
    "take_bit l (op_sem other Op_Shl (l + h) (x * 2 ^ l + y) 1) = op_sem other Op_Shl l y 1"
    "take_bit h (drop_bit l (op_sem other Op_Shl (l + h) (x * 2 ^ l + y) 1)) = rotate_left h x (drop_bit (l - 1) y)"
proof -
  have law: "other Op_Shl b z 1 = push_bit 1 z" "other Op_Shr b z 1 = drop_bit 1 z"
    "other Op_Sar b z 1 = drop_bit 1 (signed_take_bit (b - 1) z)" for b z
    using assms(1) by (simp_all add: shift_law_def)
  have shr: "bit (op_sem other Op_Shr b z 1) n \<longleftrightarrow> n < b \<and> bit z (Suc n)" for b z n
    by (auto simp: op_sem_def law bit_simps)
  have sar: "bit (op_sem other Op_Sar b z 1) n \<longleftrightarrow> n < b \<and> bit z (min (Suc n) (b - 1))" for b z n
    by (auto simp: op_sem_def law bit_simps min.commute)
  have push: "bit (push_bit 1 z) n \<longleftrightarrow> 0 < n \<and> bit z (n - 1)" for z :: int and n
    by (simp only: bit_push_bit_iff_int) auto
  have shl: "bit (op_sem other Op_Shl b z 1) n \<longleftrightarrow> n < b \<and> 0 < n \<and> bit z (n - 1)" for b z n
    by (simp only: op_sem_def op_type.simps law bit_take_bit_iff push)
  have wide: "bit (x * 2 ^ l + y) n = (if n < l then bit y n else bit x (n - l))" for n by (rule bit_wide [OF assms(6,7)])
  have out: "\<not> bit x n" if "h \<le> n" for n by (rule bit_range [OF assms(4,5) that])
  have out_y: "\<not> bit y n" if "l \<le> n" for n by (rule bit_range [OF assms(6,7) that])
  have right: "bit (rotate_right l y x) n \<longleftrightarrow> Suc n < l \<and> bit y (Suc n) \<or> Suc n = l \<and> bit x 0" for n
  proof -
    have "bit (rotate_right l y x) n \<longleftrightarrow> bit y (Suc n) \<or> l - 1 \<le> n \<and> n - (l - 1) < 1 \<and> bit x (n - (l - 1))"
      by (auto simp: rotate_right_def bit_simps bit_0)
    moreover have "l - 1 \<le> n \<and> n - (l - 1) < 1 \<longleftrightarrow> Suc n = l" using assms(2) by auto
    ultimately show ?thesis using out_y [of "Suc n"] by (cases "Suc n < l") auto
  qed
  have left: "bit (rotate_left h x c) n \<longleftrightarrow> n < h \<and> (if n = 0 then bit c 0 else bit x (n - 1))" for n c
    by (simp only: rotate_left_def bit_take_bit_iff bit_or_iff push) auto
  show "take_bit l (op_sem other op (l + h) (x * 2 ^ l + y) 1) = rotate_right l y x" if op: "op \<in> {Op_Sar, Op_Shr}"
  proof (rule bit_eqI)
    fix n
    have m: "bit (op_sem other op (l + h) (x * 2 ^ l + y) 1) n \<longleftrightarrow> bit (x * 2 ^ l + y) (Suc n)" if "n < l"
    proof -
      have "min (Suc n) (l + h - 1) = Suc n" using that assms(3) by simp
      then show ?thesis using op that shr sar by auto
    qed
    show "bit (take_bit l (op_sem other op (l + h) (x * 2 ^ l + y) 1)) n = bit (rotate_right l y x) n"
    proof (cases "n < l")
      case True
      then have "\<not> Suc n < l \<longleftrightarrow> Suc n = l" by auto
      then show ?thesis using True m [OF True] by (auto simp: bit_take_bit_iff wide right)
    qed (auto simp: bit_take_bit_iff right)
  qed
  show "take_bit h (drop_bit l (op_sem other op (l + h) (x * 2 ^ l + y) 1)) = op_sem other op h x 1" if op: "op \<in> {Op_Sar, Op_Shr}"
  proof (rule bit_eqI)
    fix n
    have "min (Suc (l + n)) (l + h - 1) = l + min (Suc n) (h - 1)" using assms(3) by auto
    then have "bit (op_sem other op (l + h) (x * 2 ^ l + y) 1) (l + n) \<longleftrightarrow> bit (op_sem other op h x 1) n"
      using op shr sar by (auto simp: wide)
    moreover have "bit (op_sem other op h x 1) n \<Longrightarrow> n < h" using op shr sar by auto
    ultimately show "bit (take_bit h (drop_bit l (op_sem other op (l + h) (x * 2 ^ l + y) 1))) n = bit (op_sem other op h x 1) n"
      by (auto simp: bit_take_bit_iff bit_drop_bit_eq)
  qed
  show "take_bit l (op_sem other Op_Shl (l + h) (x * 2 ^ l + y) 1) = op_sem other Op_Shl l y 1"
    by (rule bit_eqI) (auto simp: bit_take_bit_iff shl wide)
  show "take_bit h (drop_bit l (op_sem other Op_Shl (l + h) (x * 2 ^ l + y) 1)) = rotate_left h x (drop_bit (l - 1) y)"
  proof (rule bit_eqI)
    fix n
    have "bit (x * 2 ^ l + y) (l + n - 1) = (if n = 0 then bit y (l - 1) else bit x (n - 1))" using assms(2) by (auto simp: wide)
    then show "bit (take_bit h (drop_bit l (op_sem other Op_Shl (l + h) (x * 2 ^ l + y) 1))) n
        = bit (rotate_left h x (drop_bit (l - 1) y)) n"
      using assms(2) by (auto simp: bit_take_bit_iff bit_drop_bit_eq shl left)
  qed
qed

lemma binary_shape:
  assumes "typed R g" "i < g_next g" "n_kind (g_node g i) = BinaryNode op" "input_at g i 1 = Some x" "input_at g i 2 = Some y"
  shows "y < g_next g"
proof -
  have "well_shaped R g (BinaryNode op) (n_type (g_node g i)) (ins g i)" using assms(1-3) unfolding typed_def by metis
  then obtain cf l r where i: "ins g i = [cf, Some l, Some r]" "r < g_next g" by (auto simp: well_shaped_def)
  then show ?thesis using assms(5) input_at_in [OF i(1), of 2] by simp
qed

lemma binary_sizes:
  assumes "typed R g" "i < g_next g" "n_kind (g_node g i) = BinaryNode op" "input_at g i 1 = Some x" "op = Op_IAdd \<or> op = Op_ISub"
  shows "bit_size R (n_type (g_node g x)) = bit_size R (n_type (g_node g i))"
proof -
  have "well_shaped R g (BinaryNode op) (n_type (g_node g i)) (ins g i)" using assms(1-3) unfolding typed_def by metis
  then obtain cf l r where i: "ins g i = [cf, Some l, Some r]" "bit_size R (n_type (g_node g l)) = bit_size R (n_type (g_node g i))"
    using assms(5) by (auto simp: well_shaped_def)
  then show ?thesis using assms(4) input_at_in [OF i(1), of 1] by simp
qed

lemma is_one_value:
  assumes "long_ok L other val" "is_one L g n" "n < g_next g" "valuation (reko_of L) other val g env"
  shows "env n = 1"
proof -
  obtain c where "as_constant g n = Some c" "to_int64 L c = 1" using assms(2) by (auto simp: is_one_def split: option.splits)
  then show ?thesis using as_constantD(3) [OF _ assms(3,4)] long_okD(7) [OF assms(1), of c] by simp
qed

text \<open>
  C16. Fusing a rotation through the carry with the shift that sets the carry keeps the values: the slices that
  \<open>TryFuseSarRorC\<close> puts in place of the shift right of the high half and of the rotation of the low half have the
  values of these nodes, the rotation taking in the bit that the shift drops.  The two halves may be two definitions
  (a register pair that the procedure receives), which \<open>Seq\<close> replaces by slices of one, named by \<open>\<sigma>\<close>; the
  condition \<open>halves\<close> excludes slices and sequences (C25 shows what \<open>Seq\<close> does to those) and a negative constant as
  the low half.  \<open>long_ok\<close> and \<open>shift_law\<close> are the laws of Reko's types, constants and shifts by one.
\<close>

theorem sar_rorc_keeps_value:
  assumes ok: "long_ok L other val" and law: "shift_law other" and ty: "typed (reko_of L) g" and graph: "graph_ok g"
    and rorc: "rorc < g_next g" "ins g rorc = [cf, Some pc, Some low, Some steps, Some carry]"
    and flags: "unmasked g carry = Some cond" "n_kind (g_node g cond) = CondNode" "input_at g cond 1 = Some shift"
    and shift: "shift < g_next g" "n_kind (g_node g shift) = BinaryNode op" "op \<in> {Op_Sar, Op_Shr}"
      "input_at g shift 1 = Some high" "input_at g shift 2 = Some amount"
    and halves: "halves (seqs L) g high low"
    and sizes: "size_of (seqs L) g high = h" "size_of (seqs L) g shift = h" "size_of (seqs L) g low = l"
      "size_of (seqs L) g rorc = l" "0 < h" "0 < l"
    and ones: "is_one L g amount" "is_one L g steps"
  shows "\<exists>\<sigma> wide lo_slice hi_slice g1 g2. renames \<sigma> g g1 \<and> replace_cond_ofs rorc wide g1 = Some g2
    \<and> try_fuse_sar_rorc L rorc (g, r) = Some (Some wide,
        remove_from_inputs shift (remove_from_inputs rorc (replace shift hi_slice (replace rorc lo_slice g2))),
        r(rorc \<mapsto> lo_slice, shift \<mapsto> hi_slice))
    \<and> (\<forall>env. named \<sigma> env \<and> valuation (reko_of L) other val g1 env \<and> wide_values (seqs L) g1 env
          \<and> env rorc = rotate_right l (env low) (env high) \<longrightarrow>
        env lo_slice = env rorc \<and> env hi_slice = env shift)"
proof -
  have edges: "edges_ok g" using graph by (simp add: graph_ok_def)
  have inputs: "input_at g rorc 2 = Some low" "input_at g rorc 3 = Some steps" "input_at g rorc 4 = Some carry"
    using input_at_in [OF rorc(2)] by simp_all
  have bop: "binary_op g shift = Some op" using shift(2) by (simp add: binary_op_eq)
  have amount: "amount < g_next g" by (rule binary_shape [OF ty shift(1,2,4,5)])
  have op: "op \<in> {Op_Shl, Op_Shr, Op_Sar}" using shift(3) by blast
  have types: "bits L (type_at g shift) = h" "bits L (type_at g rorc) = l" using sizes by (simp_all add: type_at_def)
  have pos: "0 < bits L (type_at g rorc)" using types sizes by simp
  obtain res \<sigma> where res: "wide_shift L op (type_at g shift) (type_at g rorc) high low amount g = Some res"
    "halved L other val l h \<sigma> g res (\<lambda>env. op_sem other op (l + h) (env high * 2 ^ l + env low) (env amount))"
    by (rule wide_shift_built [OF ok ty edges halves sizes(1,3) types sizes(6,5) op amount])
  obtain wide lo_slice hi_slice g1 where r: "res = (wide, lo_slice, hi_slice, g1)" by (cases res)
  note b = res(2) [unfolded r]
  have le: "high < g_next g" "low < g_next g" using halves_below [OF halves] by simp_all
  have w: "grown g g1" "wide < g_next g1" using wide_shift_ok [OF graph pos res(1) le amount op] by (simp_all add: wide_ok_def r)
  obtain g2 where g2: "replace_cond_ofs rorc wide g1 = Some g2"
    by (rule replace_cond_ofs_returns [OF grownD(1) [OF w(1)] w(2) grownD(2) [OF w(1) rorc(1)]])
  have fused: "try_fuse_sar_rorc L rorc (g, r) = Some (Some wide,
        remove_from_inputs shift (remove_from_inputs rorc (replace shift hi_slice (replace rorc lo_slice g2))),
        r(rorc \<mapsto> lo_slice, shift \<mapsto> hi_slice))"
    using res(1) r g2 shift(3) ones by (auto simp: try_fuse_sar_rorc_def inputs flags bop shift(4,5) simp del: One_nat_def)
  have vals: "env lo_slice = env rorc \<and> env hi_slice = env shift"
    if e: "named \<sigma> env" "valuation (reko_of L) other val g1 env" "wide_values (seqs L) g1 env" "env rorc = rotate_right l (env low) (env high)" for env
  proof -
    note bs = builtD [OF b e(1-3)]
    note range = valuation_old_range [OF bs(1) le(1), unfolded sizes(1)] valuation_old_range [OF bs(1) le(2), unfolded sizes(3)]
    have "env amount = 1" by (rule is_one_value [OF ok ones(1) amount bs(1)])
    then show ?thesis
      using bs(2,3) e(4) binary_value(1) [OF ty bs(1) shift(1,2,4,5)] sizes(2)
        shifted_halves(1,2) [OF law sizes(6,5), of "env high" "env low" op] range shift(3) by simp
  qed
  show ?thesis
    by (intro exI [of _ \<sigma>] exI [of _ wide] exI [of _ lo_slice] exI [of _ hi_slice] exI [of _ g1] exI [of _ g2]
        conjI halved_renames [OF b] g2 fused) (use vals in blast)
qed

lemma sample_to_int64: "to_int64 sample_long = sample_value"
  by (simp add: sample_long_def)

lemma sample_shift_law: "shift_law sample_ops"
  by (simp add: shift_law_def sample_ops_def)

lemma shift_nodes_at:
  "g_next (build shift_nodes) = 8"
  "n_kind (g_node (build shift_nodes) 4) = ConstantNode (16, 1)" "n_kind (g_node (build shift_nodes) 5) = BinaryNode Op_Sar"
  "n_kind (g_node (build shift_nodes) 6) = CondNode"
  "n_type (g_node (build shift_nodes) (Suc 0)) = 16" "n_type (g_node (build shift_nodes) 3) = 16"
  "n_type (g_node (build shift_nodes) 5) = 16" "n_type (g_node (build shift_nodes) 7) = 16"
  "ins (build shift_nodes) 5 = [None, Some 1, Some 4]" "ins (build shift_nodes) 6 = [None, Some 5]"
  "ins (build shift_nodes) 7 = [None, Some 2, Some 3, Some 4, Some 6]"
  by (simp_all add: build_fields shift_nodes_def)

theorem sar_rorc_keeps_value_witness:
  "\<exists>\<sigma> wide lo_slice hi_slice g1 g2. renames \<sigma> (build shift_nodes) g1 \<and> replace_cond_ofs 7 wide g1 = Some g2
    \<and> try_fuse_sar_rorc sample_long 7 (build shift_nodes, Map.empty) = Some (Some wide,
        remove_from_inputs 5 (remove_from_inputs 7 (replace 5 hi_slice (replace 7 lo_slice g2))), [7 \<mapsto> lo_slice, 5 \<mapsto> hi_slice])
    \<and> (\<forall>env. named \<sigma> env \<and> valuation (reko_of sample_long) sample_ops sample_value g1 env \<and> wide_values (seqs sample_long) g1 env
          \<and> env 7 = rotate_right 16 (env 3) (env 1) \<longrightarrow> env lo_slice = env 7 \<and> env hi_slice = env 5)"
proof (rule sar_rorc_keeps_value [OF sample_long_ok sample_shift_law shift_nodes_ok(2,1),
      where cf = None and pc = 2 and steps = 4 and carry = 6 and cond = 6 and op = Op_Sar and amount = 4 and h = 16 and l = 16])
  show "halves (seqs sample_long) (build shift_nodes) 1 3" by (rule shift_nodes_halves)
qed (simp_all add: shift_nodes_at input_at_def arr_get_def unmasked_def binary_op_def is_one_def as_constant_def
    sample_to_int64 sample_value_simps flip: ins_def)

text \<open>The shift left of the low half and the rotation of the high half.\<close>

lemma shl_rolc_keeps_value:
  assumes ok: "long_ok L other val" and law: "shift_law other" and ty: "typed (reko_of L) g" and graph: "graph_ok g"
    and rolc: "rolc < g_next g" "ins g rolc = [cf, Some pc, Some high, Some steps, Some carry]"
    and flags: "unmasked g carry = Some cond" "n_kind (g_node g cond) = CondNode" "input_at g cond 1 = Some shift"
    and shift: "shift < g_next g" "n_kind (g_node g shift) = BinaryNode Op_Shl"
      "input_at g shift 1 = Some low" "input_at g shift 2 = Some amount"
    and halves: "halves (seqs L) g high low"
    and sizes: "size_of (seqs L) g high = h" "size_of (seqs L) g rolc = h" "size_of (seqs L) g low = l"
      "size_of (seqs L) g shift = l" "0 < h" "0 < l"
    and ones: "is_one L g amount" "is_one L g steps"
  shows "\<exists>\<sigma> wide lo_slice hi_slice g1 g2. renames \<sigma> g g1 \<and> replace_cond_ofs rolc wide g1 = Some g2
    \<and> try_fuse_shl_rolc L rolc (g, r) = Some (Some wide,
        remove_from_inputs rolc (remove_from_inputs shift (replace rolc hi_slice (replace shift lo_slice g2))),
        r(shift \<mapsto> lo_slice, rolc \<mapsto> hi_slice))
    \<and> (\<forall>env. named \<sigma> env \<and> valuation (reko_of L) other val g1 env \<and> wide_values (seqs L) g1 env
          \<and> env rolc = rotate_left h (env high) (drop_bit (l - 1) (env low)) \<longrightarrow>
        env lo_slice = env shift \<and> env hi_slice = env rolc)"
proof -
  have edges: "edges_ok g" using graph by (simp add: graph_ok_def)
  have inputs: "input_at g rolc 2 = Some high" "input_at g rolc 3 = Some steps" "input_at g rolc 4 = Some carry"
    using input_at_in [OF rolc(2)] by simp_all
  have bop: "binary_op g shift = Some Op_Shl" using shift(2) by (simp add: binary_op_eq)
  have op: "Op_Shl \<in> {Op_Shl, Op_Shr, Op_Sar}" by simp
  have amount: "amount < g_next g" by (rule binary_shape [OF ty shift])
  have types: "bits L (type_at g rolc) = h" "bits L (type_at g shift) = l" using sizes by (simp_all add: type_at_def)
  have pos: "0 < bits L (type_at g shift)" using types sizes by simp
  obtain res \<sigma> where res: "wide_shift L Op_Shl (type_at g rolc) (type_at g shift) high low amount g = Some res"
    "halved L other val l h \<sigma> g res (\<lambda>env. op_sem other Op_Shl (l + h) (env high * 2 ^ l + env low) (env amount))"
    by (rule wide_shift_built [OF ok ty edges halves sizes(1,3) types sizes(6,5) op amount])
  obtain wide lo_slice hi_slice g1 where r: "res = (wide, lo_slice, hi_slice, g1)" by (cases res)
  note b = res(2) [unfolded r]
  have le: "high < g_next g" "low < g_next g" using halves_below [OF halves] by simp_all
  have w: "grown g g1" "wide < g_next g1" using wide_shift_ok [OF graph pos res(1) le amount op] by (simp_all add: wide_ok_def r)
  obtain g2 where g2: "replace_cond_ofs rolc wide g1 = Some g2"
    by (rule replace_cond_ofs_returns [OF grownD(1) [OF w(1)] w(2) grownD(2) [OF w(1) rolc(1)]])
  have fused: "try_fuse_shl_rolc L rolc (g, r) = Some (Some wide,
        remove_from_inputs rolc (remove_from_inputs shift (replace rolc hi_slice (replace shift lo_slice g2))),
        r(shift \<mapsto> lo_slice, rolc \<mapsto> hi_slice))"
    using res(1) r g2 ones by (auto simp: try_fuse_shl_rolc_def inputs flags bop shift(3,4) simp del: One_nat_def)
  have vals: "env lo_slice = env shift \<and> env hi_slice = env rolc"
    if e: "named \<sigma> env" "valuation (reko_of L) other val g1 env" "wide_values (seqs L) g1 env"
      "env rolc = rotate_left h (env high) (drop_bit (l - 1) (env low))" for env
  proof -
    note bs = builtD [OF b e(1-3)]
    note range = valuation_old_range [OF bs(1) le(1), unfolded sizes(1)] valuation_old_range [OF bs(1) le(2), unfolded sizes(3)]
    have "env amount = 1" using is_one_value [OF ok ones(1) amount] bs(1) by simp
    then show ?thesis
      using bs(2,3) e(4) binary_value(1) [OF ty bs(1) shift] sizes(4)
        shifted_halves(3,4) [OF law sizes(6,5), of "env high" "env low"] range by simp
  qed
  show ?thesis
    by (intro exI [of _ \<sigma>] exI [of _ wide] exI [of _ lo_slice] exI [of _ hi_slice] exI [of _ g1] exI [of _ g2]
        conjI halved_renames [OF b] g2 fused) (use vals in blast)
qed

section \<open>Negations\<close>

lemma negation_shape:
  assumes "typed R g" "i < g_next g" "is_negation g i" "input_at g i 1 = Some x"
  shows "bit_size R (n_type (g_node g x)) = bit_size R (n_type (g_node g i))" "input_of g i 1 = x" "x < g_next g"
proof -
  have k: "n_kind (g_node g i) = UnaryNode Un_Neg" using assms(3) by (simp add: is_negation_def)
  have "well_shaped R g (UnaryNode Un_Neg) (n_type (g_node g i)) (ins g i)" using assms(1,2) k unfolding typed_def by metis
  then obtain cf l where i: "ins g i = [cf, Some l]" "l < g_next g" "bit_size R (n_type (g_node g l)) = bit_size R (n_type (g_node g i))"
    by (auto simp: well_shaped_def)
  have "x = l" using assms(4) input_at_in [OF i(1), of 1] by simp
  then show "bit_size R (n_type (g_node g x)) = bit_size R (n_type (g_node g i))" "input_of g i 1 = x" "x < g_next g"
    using i by (simp_all add: input_of_def flip: ins_def)
qed

lemma negation_value:
  assumes "valuation R other val g env" "typed R g" "i < g_next g" "is_negation g i" "input_at g i 1 = Some x"
  shows "env i = take_bit (bit_size R (n_type (g_node g i))) (- env x)"
  using assms negation_shape(2) [OF assms(2-5)] by (simp add: valuation_def node_ok_def has_value_def is_negation_def)

lemma take_bit_diff_cancel: "take_bit n (a - b) = take_bit n (a - c) \<longleftrightarrow> take_bit n b = take_bit n (c :: int)"
  by (simp add: take_bit_eq_mod mod_eq_dvd_iff) (simp add: dvd_diff_commute)

lemma borrow_cancel:
  assumes "0 < h"
  shows "take_bit h (a - of_bool p) = take_bit h (a - b) \<longleftrightarrow> take_bit h b = (of_bool p :: int)"
proof -
  have "take_bit h (of_bool p) = (of_bool p :: int)" using assms by (cases h) auto
  then show ?thesis by (auto simp only: take_bit_diff_cancel)
qed

lemma difference_value:
  assumes ty: "typed R g" and v: "valuation R other val g env"
    and sub: "sub < g_next g" "n_kind (g_node g sub) = BinaryNode Op_ISub" "input_at g sub 1 = Some neg_hi" "input_at g sub 2 = Some borrow"
    and neg_hi: "neg_hi < g_next g" "is_negation g neg_hi" "input_at g neg_hi 1 = Some hi"
    and size: "bit_size R (n_type (g_node g sub)) = h"
  shows "env sub = take_bit h (- env hi - env borrow)"
proof -
  have "env sub = take_bit h (env neg_hi - env borrow)" using binary_value(1) [OF ty v sub] size by (simp add: op_sem_def)
  moreover have "env neg_hi = take_bit h (- env hi)"
    using negation_value [OF v ty neg_hi] binary_sizes [OF ty sub(1-3)] size by simp
  ultimately show ?thesis by (simp add: take_bit_eq_mod mod_simps)
qed

text \<open>
  C18. Fusing \<open>-hi - borrow\<close> with \<open>-lo\<close> puts the low half of the wide negation in place of \<open>-lo\<close>, which has its
  value; the high half, which replaces the difference, has its value exactly when the borrow is 1 for a \<open>lo\<close> other
  than 0 and 0 otherwise.  In the form where the borrow is \<open>-lo <u 0\<close>, which is never true, that is only so for
  \<open>lo\<close> = 0: the code replaces the difference by another value for every other \<open>lo\<close>.  The halves may be two
  definitions, replaced by slices of one and named by \<open>\<sigma>\<close>; \<open>halves\<close> excludes slices, sequences and a negative
  constant as the low half.
\<close>

theorem negation_borrow:
  assumes ok: "long_ok L other val" and ty: "typed (reko_of L) g" and graph: "graph_ok g"
    and sub: "sub < g_next g" "n_kind (g_node g sub) = BinaryNode Op_ISub" "input_at g sub 1 = Some neg_hi" "input_at g sub 2 = Some borrow"
    and neg_hi: "neg_hi < g_next g" "is_negation g neg_hi" "input_at g neg_hi 1 = Some hi"
    and unmasked: "unmasked g borrow = Some borrow'" and form: "borrowed_negation L g borrow' = Some (Some neg_lo)"
    and neg_lo: "neg_lo < g_next g" "is_negation g neg_lo" "input_at g neg_lo 1 = Some lo"
    and halves: "halves (seqs L) g hi lo" and sizes: "size_of (seqs L) g sub = h" "size_of (seqs L) g neg_lo = l" "0 < h" "0 < l"
  shows "\<exists>\<sigma> wide lo_slice hi_slice g1 g2. renames \<sigma> g g1 \<and> replace_cond_ofs sub wide g1 = Some g2
    \<and> try_fuse_negation_binary L sub (g, r) = Some (Some wide,
        remove_from_inputs sub (replace neg_lo lo_slice (replace sub hi_slice g2)), r)
    \<and> (\<forall>env. named \<sigma> env \<and> valuation (reko_of L) other val g1 env \<and> wide_values (seqs L) g1 env \<longrightarrow>
          env lo_slice = env neg_lo
          \<and> (env hi_slice = env sub \<longleftrightarrow> take_bit h (env borrow) = of_bool (env lo \<noteq> 0))
          \<and> (borrow' = borrow \<and> input_at g borrow 1 = Some ucmp \<and> env borrow = env ucmp \<and> ucmp < g_next g
              \<and> n_kind (g_node g ucmp) = BinaryNode Op_Ult \<and> input_at g ucmp 1 = Some neg_lo \<and> input_at g ucmp 2 = Some zero
              \<and> env zero = 0 \<and> (\<forall>b x. other Op_Ult b x 0 = 0)
              \<longrightarrow> (env hi_slice = env sub \<longleftrightarrow> env lo = 0)))"
proof -
  have edges: "edges_ok g" using graph by (simp add: graph_ok_def)
  have shape: "bit_size (reko_of L) (n_type (g_node g x)) = bit_size (reko_of L) (n_type (g_node g i))"
    if "i < g_next g" "is_negation g i" "input_at g i 1 = Some x" for i x
    using negation_shape(1) [OF ty that] .
  have "size_of (seqs L) g neg_hi = h"
    using binary_sizes [OF ty sub(1-3)] sizes(1) by simp
  then have s: "size_of (seqs L) g hi = h" "size_of (seqs L) g lo = l"
    using shape [OF neg_hi] shape [OF neg_lo] sizes(2) by simp_all
  then have types: "bits L (type_at g hi) = h" "bits L (type_at g lo) = l" by (simp_all add: type_at_def)
  have pos: "0 < bits L (type_at g lo)" using types sizes by simp
  obtain res \<sigma> where res: "wide_negation L (type_at g hi) (type_at g lo) hi lo g = Some res"
    "halved L other val l h \<sigma> g res (\<lambda>env. take_bit (l + h) (- (env hi * 2 ^ l + env lo)))"
    by (rule wide_negation_built [OF ok ty edges halves s types sizes(4,3)])
  obtain wide lo_slice hi_slice g1 where r: "res = (wide, lo_slice, hi_slice, g1)" by (cases res)
  note b = res(2) [unfolded r]
  have le: "hi < g_next g" "lo < g_next g" using halves_below [OF halves] by simp_all
  have w: "grown g g1" "wide < g_next g1" using wide_negation_ok [OF graph pos res(1) le] by (simp_all add: wide_ok_def r)
  obtain g2 where g2: "replace_cond_ofs sub wide g1 = Some g2"
    by (rule replace_cond_ofs_returns [OF grownD(1) [OF w(1)] w(2) grownD(2) [OF w(1) sub(1)]])
  have fused: "try_fuse_negation_binary L sub (g, r) = Some (Some wide,
        remove_from_inputs sub (replace neg_lo lo_slice (replace sub hi_slice g2)), r)"
    using res(1) r g2 by (simp add: try_fuse_negation_binary_def sub neg_hi unmasked form neg_lo del: One_nat_def)
  have vals: "env lo_slice = env neg_lo" "env hi_slice = env sub \<longleftrightarrow> take_bit h (env borrow) = of_bool (env lo \<noteq> 0)"
    and v: "valuation (reko_of L) other val g env"
    if e: "named \<sigma> env" "valuation (reko_of L) other val g1 env" "wide_values (seqs L) g1 env" for env
  proof -
    note bs = builtD [OF b e(1-3)]
    show v: "valuation (reko_of L) other val g env" by (rule bs(1))
    note range = valuation_old_range [OF v le(2), unfolded s(2)]
    show "env lo_slice = env neg_lo"
      using bs(2) negation_value [OF v ty neg_lo] sizes(2) low_half(3) [of l h "env hi" "env lo"] by (simp add: add.commute)
    have "env hi_slice = take_bit h (- env hi - of_bool (env lo \<noteq> 0))"
      using bs(3) high_half(3) [of "env lo" l "env lo" h "env hi"] range by simp
    then show "env hi_slice = env sub \<longleftrightarrow> take_bit h (env borrow) = of_bool (env lo \<noteq> 0)"
      using difference_value [OF ty v sub neg_hi sizes(1)] by (simp add: borrow_cancel [OF sizes(3)])
  qed
  have never: "env hi_slice = env sub \<longleftrightarrow> env lo = 0"
    if e: "named \<sigma> env" "valuation (reko_of L) other val g1 env" "wide_values (seqs L) g1 env" and "env borrow = env ucmp"
      and u: "ucmp < g_next g" "n_kind (g_node g ucmp) = BinaryNode Op_Ult" "input_at g ucmp 1 = Some neg_lo"
        "input_at g ucmp 2 = Some zero" "env zero = 0" "\<forall>b x. other Op_Ult b x 0 = 0" for env
  proof -
    have "env ucmp = 0" using binary_value(1) [OF ty v [OF e] u(1-4)] u(5,6) by (simp add: op_sem_def)
    then show ?thesis using vals(2) [OF e] \<open>env borrow = env ucmp\<close> by simp
  qed
  show ?thesis
    by (intro exI [of _ \<sigma>] exI [of _ wide] exI [of _ lo_slice] exI [of _ hi_slice] exI [of _ g1] exI [of _ g2]
        conjI halved_renames [OF b] g2 fused)
      (use vals never in blast)
qed

lemma sample_zero: "is_zero (reko_of sample_long) c \<longleftrightarrow> sample_value c = 0"
  by (simp add: sample_long_def sample_seq_def sample_reko_def)

text \<open>\<open>-hi - (-lo <u 0)\<close> for a pair of registers that the procedure receives.\<close>

definition borrow_nodes :: "((nat \<times> int) node_kind \<times> nat \<times> nat option list) list" where
  "borrow_nodes = [(BlockNode, 0, []), (DefNode, 16, [Some 0]), (DefNode, 16, [Some 0]),
     (UnaryNode Un_Neg, 16, [None, Some 1]), (UnaryNode Un_Neg, 16, [None, Some 2]), (ConstantNode (16, 0), 16, [None]),
     (BinaryNode Op_Ult, 16, [None, Some 4, Some 5]), (ConversionNode, 16, [None, Some 6]),
     (BinaryNode Op_ISub, 16, [None, Some 3, Some 7])]"

lemma borrow_nodes_ok: "graph_ok (build borrow_nodes)" "typed (reko_of sample_long) (build borrow_nodes)"
proof -
  show "graph_ok (build borrow_nodes)"
    by (rule build_graph_ok) (simp add: borrow_nodes_def less_Suc_eq all_conj_distrib cond_shape_def)
  show "typed (reko_of sample_long) (build borrow_nodes)"
    by (simp add: typed_def sample_simps borrow_nodes_def well_shaped_def)
qed

lemma borrow_nodes_at:
  "g_next (build borrow_nodes) = 9"
  "n_kind (g_node (build borrow_nodes) 3) = UnaryNode Un_Neg" "n_kind (g_node (build borrow_nodes) 4) = UnaryNode Un_Neg"
  "n_kind (g_node (build borrow_nodes) 5) = ConstantNode (16, 0)" "n_kind (g_node (build borrow_nodes) 6) = BinaryNode Op_Ult"
  "n_kind (g_node (build borrow_nodes) 7) = ConversionNode" "n_kind (g_node (build borrow_nodes) 8) = BinaryNode Op_ISub"
  "n_type (g_node (build borrow_nodes) 8) = 16" "n_type (g_node (build borrow_nodes) 4) = 16"
  "ins (build borrow_nodes) 3 = [None, Some 1]" "ins (build borrow_nodes) 4 = [None, Some 2]"
  "ins (build borrow_nodes) 6 = [None, Some 4, Some 5]" "ins (build borrow_nodes) 7 = [None, Some 6]"
  "ins (build borrow_nodes) 8 = [None, Some 3, Some 7]"
  by (simp_all add: build_fields borrow_nodes_def)

theorem negation_borrow_witness:
  "\<exists>\<sigma> wide lo_slice hi_slice g1 g2. renames \<sigma> (build borrow_nodes) g1 \<and> replace_cond_ofs 8 wide g1 = Some g2
    \<and> try_fuse_negation_binary sample_long 8 (build borrow_nodes, Map.empty) = Some (Some wide,
        remove_from_inputs 8 (replace 4 lo_slice (replace 8 hi_slice g2)), Map.empty)
    \<and> (\<forall>env. named \<sigma> env \<and> valuation (reko_of sample_long) sample_ops sample_value g1 env \<and> wide_values (seqs sample_long) g1 env \<longrightarrow>
          env lo_slice = env 4 \<and> (env hi_slice = env 8 \<longleftrightarrow> take_bit 16 (env 7) = of_bool (env 2 \<noteq> 0))
          \<and> (7 = (7 :: nat) \<and> input_at (build borrow_nodes) 7 1 = Some 6 \<and> env 7 = env 6 \<and> 6 < g_next (build borrow_nodes)
              \<and> n_kind (g_node (build borrow_nodes) 6) = BinaryNode Op_Ult \<and> input_at (build borrow_nodes) 6 1 = Some 4
              \<and> input_at (build borrow_nodes) 6 2 = Some 5 \<and> env 5 = 0 \<and> (\<forall>b x. sample_ops Op_Ult b x 0 = 0)
              \<longrightarrow> (env hi_slice = env 8 \<longleftrightarrow> env 2 = 0)))"
proof (rule negation_borrow [OF sample_long_ok borrow_nodes_ok(2,1), where neg_hi = 3 and hi = 1 and h = 16 and l = 16])
  show "halves (seqs sample_long) (build borrow_nodes) 1 2"
    by (simp add: halves_def half_def paired_def plain_def slice_offset_def sample_constants sample_simps borrow_nodes_def flip: ins_def)
  show "borrowed_negation sample_long (build borrow_nodes) 7 = Some (Some 4)"
    by (simp add: borrowed_negation_def borrow_nodes_at input_at_def arr_get_def binary_op_def is_zero_constant_def as_constant_def
        is_negation_def sample_zero sample_value_simps flip: ins_def)
qed (simp_all add: borrow_nodes_at input_at_def arr_get_def unmasked_def binary_op_def is_negation_def flip: ins_def)

section \<open>A pair added to itself\<close>

lemma slice_fields:
  assumes "slice X dt x off g = (n, g')" "i < g_next g"
  shows "n_kind (g_node g' i) = n_kind (g_node g i)" "g_next g \<le> g_next g'" "n = x \<or> g_next g \<le> n"
proof -
  have "(n = x \<and> g' = g) \<or> new_node (SliceNode off) dt None [None, Some x] g = (n, g')"
    using assms(1) by (auto simp: slice_def m_slice_def split: if_splits)
  then show "n_kind (g_node g' i) = n_kind (g_node g i)" "g_next g \<le> g_next g'" "n = x \<or> g_next g \<le> n"
    using new_node_fields [of "SliceNode off" dt None "[None, Some x]" g n g'] assms(2) by auto
qed

text \<open>The sequence of two definitions replaces both, which leaves them without inputs.\<close>

lemma seq_of_defs:
  assumes k: "n_kind (g_node g hi) = DefNode" "n_kind (g_node g lo) = DefNode" and le: "hi < g_next g" "lo < g_next g"
    and cf: "arr_get (ins g hi) 0 = Some cf" "arr_get (ins g lo) 0 = Some cf"
  obtains s g1 where "seq X dt [hi, lo] g = Some (s, g1)" "ins g1 hi = []"
    "n_kind (g_node g1 hi) = DefNode" "n_kind (g_node g1 lo) = DefNode"
proof -
  let ?stg = "make_sequence_storage X dt (map (\<lambda>n. n_storage (g_node g n)) [hi, lo])"
  obtain d g1 where d: "m_def cf ?stg dt g = (d, g1)" by force
  obtain a g2 where a: "slice X (n_type (g_node g1 lo)) d 0 g1 = (a, g2)" by force
  let ?g3 = "replace lo a g2" and ?off = "int (size_of X (replace lo a g2) lo)"
  obtain b g4 where b: "slice X (n_type (g_node ?g3 hi)) d ?off ?g3 = (b, g4)" by force
  note fd = new_node_fields [OF d [unfolded m_def_def]]
  have g1: "hi < g_next g1" "lo < g_next g1" using fd(2) le by simp_all
  note fa = slice_fields [OF a g1(1)] slice_fields [OF a g1(2)]
  have "lo \<noteq> a" using fa(6) g1 fd(1) le by auto
  then have g3: "g_next ?g3 = g_next g2" "n_kind (g_node ?g3 i) = n_kind (g_node g2 i)" for i
    using replace_outs_ins(1) replace_other_fields(2) by metis+
  have lt3: "hi < g_next ?g3" "lo < g_next ?g3" using g1 fa(2) g3 by simp_all
  note fb = slice_fields [OF b lt3(1)] slice_fields [OF b lt3(2)]
  have "hi \<noteq> b" using fb(3) lt3 fd(1) le by auto
  then have "ins (replace hi b g4) hi = []" using replace_outs_ins(2) [of hi b g4 hi] by simp
  moreover have "n_kind (g_node (replace hi b g4) i) = DefNode" if "i = hi \<or> i = lo" for i
    using that k le fd(6) fa(1,4) fb(1,4) g3(2) by (auto simp: replace_other_fields(2))
  moreover have "seq X dt [hi, lo] g = Some (d, replace hi b g4)"
  proof -
    have "flatten_nested_sequences g [hi, lo] = [hi, lo]" by (simp add: flatten_nested_sequences_def k)
    moreover have "fuse_adjacent_slices X [hi, lo] g = Some ([hi, lo], g)"
      by (simp add: fuse_adjacent_slices_def slice_offset_def k)
    moreover have "fuse_adjacent_constants X dt [hi, lo] g = None" by (simp add: fuse_adjacent_constants_def as_constant_def k)
    moreover have "fuse_defs X dt [hi, lo] g = Some (Some (d, replace hi b g4))"
      using cf d a b by (simp add: fuse_defs_def k ins_def)
    ultimately show ?thesis by (simp add: seq_def)
  qed
  ultimately show ?thesis using that by blast
qed

lemma seq_of_dead_defs:
  assumes "n_kind (g_node g hi) = DefNode" "n_kind (g_node g lo) = DefNode" "ins g hi = []"
  shows "seq X dt [hi, lo] g = None"
  using assms
  by (simp add: seq_def flatten_nested_sequences_def fuse_adjacent_slices_def slice_offset_def fuse_adjacent_constants_def
      as_constant_def fuse_defs_def ins_def)

text \<open>
  C19. \<open>TryFuseAddSub\<close> raises when a register pair that the procedure receives is added to itself (or subtracted
  from itself) with the carry: the sequence of the left operands replaces both definitions, and the sequence of
  the right operands, which are the same nodes, then reads the input of a definition that has none.
\<close>

theorem doubling_raises:
  assumes addc: "ins g addc = [c, Some pc, Some hi, Some hi, Some carry]"
    and flags: "is_maybe_masked_cond_node g carry = Some (Some cond)" "input_at g cond 1 = Some lo_sum"
    and lo: "is_add_sub L g lo_sum = Some (Some (op, lo, lo))"
    and defs: "n_kind (g_node g hi) = DefNode" "n_kind (g_node g lo) = DefNode" "hi < g_next g" "lo < g_next g"
      "arr_get (ins g hi) 0 = Some cf" "arr_get (ins g lo) 0 = Some cf"
  shows "try_fuse_add_sub L addc op (g, r) = None"
proof -
  have inputs: "input_at g addc 2 = Some hi" "input_at g addc 3 = Some hi" "input_at g addc 4 = Some carry"
    "length (ins g addc) = 5"
    using input_at_in [OF addc] addc by simp_all
  have plain: "slice_offset g lo_sum = None" using is_add_sub_Some(1) [OF lo] by (simp add: slice_offset_def)
  have zero: "\<not> is_zero_constant L g hi" by (simp add: is_zero_constant_def as_constant_def defs)
  let ?dt = "combine_types L (type_at g hi) (type_at g lo)"
  obtain s g1 where "seq (seqs L) ?dt [hi, lo] g = Some (s, g1)" "ins g1 hi = []"
    "n_kind (g_node g1 hi) = DefNode" "n_kind (g_node g1 lo) = DefNode"
    by (rule seq_of_defs [OF defs])
  then have "wide_sum L op hi lo hi lo g = None"
    using seq_of_dead_defs [of g1 hi lo "seqs L" ?dt] by (simp add: wide_sum_def Let_def)
  then show ?thesis
    by (simp add: try_fuse_add_sub_def inputs flags plain lo zero del: One_nat_def)
qed

text \<open>\<open>add ax,ax\<close> and \<open>adc dx,dx\<close> on the values that the procedure receives.\<close>

definition doubling_nodes :: "((nat \<times> int) node_kind \<times> nat \<times> nat option list) list" where
  "doubling_nodes = [(BlockNode, 0, []), (DefNode, 16, [Some 0]), (DefNode, 16, [Some 0]),
     (BinaryNode Op_IAdd, 16, [None, Some 1, Some 1]), (CondNode, 1, [None, Some 3]), (ProcedureConstantNode, 0, [None]),
     (ApplicationNode, 16, [None, Some 5, Some 2, Some 2, Some 4])]"

lemma doubling_nodes_at:
  "g_next (build doubling_nodes) = 7"
  "n_kind (g_node (build doubling_nodes) (Suc 0)) = DefNode" "n_kind (g_node (build doubling_nodes) 2) = DefNode"
  "n_kind (g_node (build doubling_nodes) 3) = BinaryNode Op_IAdd" "n_kind (g_node (build doubling_nodes) 4) = CondNode"
  "ins (build doubling_nodes) (Suc 0) = [Some 0]" "ins (build doubling_nodes) 2 = [Some 0]"
  "ins (build doubling_nodes) 3 = [None, Some 1, Some 1]" "ins (build doubling_nodes) 4 = [None, Some 3]"
  "ins (build doubling_nodes) 6 = [None, Some 5, Some 2, Some 2, Some 4]"
  by (simp_all add: build_fields doubling_nodes_def)

theorem doubling_raises_witness:
  "try_fuse_add_sub sample_long 6 Op_IAdd (build doubling_nodes, Map.empty) = None"
  by (rule doubling_raises [where c = None and pc = 5 and hi = 2 and carry = 4 and cond = 4 and lo_sum = 3 and lo = 1 and cf = "Some 0"])
    (simp_all add: doubling_nodes_at input_at_def arr_get_def is_maybe_masked_cond_node_def unmasked_def binary_op_def is_add_sub_def
      sample_adds flip: ins_def)

end
