(* ===== verification/Base_Address.thy ===== *)
theory Base_Address
  imports Reko_Prelude "HOL-Library.Product_Lexorder"
begin

text \<open>
  \<open>findbaseaddr/find_load_addr\<close>: guessing the load address of a memory image from its strings.
  \<open>PatternFinder.FindAsciiStrings\<close>, the search of \<open>FindBaseString\<close> over all candidate addresses by several
  threads, and \<open>FindBaseString2\<close> with its string matcher.
\<close>

section \<open>PatternFinder: strings\<close>

definition is_text :: "nat \<Rightarrow> bool" where
  "is_text b \<longleftrightarrow> 32 \<le> b \<and> b \<le> 126 \<or> b = 9 \<or> b = 13 \<or> b = 10"

text \<open>The loop, with the index, \<open>iStart\<close> when \<open>insideString\<close>, and the strings found so far.\<close>

fun ascii_loop :: "int \<Rightarrow> nat list \<Rightarrow> nat \<Rightarrow> nat option \<Rightarrow> (nat \<times> nat) list \<Rightarrow> (nat \<times> nat) list" where
  "ascii_loop min_len [] i inside strings =
     (case inside of
        Some start \<Rightarrow> if min_len \<le> int (i - start) then strings @ [(start, i - start)] else strings
      | None \<Rightarrow> strings)"
| "ascii_loop min_len (b # bs) i inside strings =
     (if is_text b then ascii_loop min_len bs (i + 1) (case inside of None \<Rightarrow> Some i | Some start \<Rightarrow> Some start) strings
      else ascii_loop min_len bs (i + 1) None
        (case inside of
           Some start \<Rightarrow> if min_len \<le> int (i - start) then strings @ [(start, i - start)] else strings
         | None \<Rightarrow> strings))"

definition find_ascii_strings :: "nat list \<Rightarrow> int \<Rightarrow> (nat \<times> nat) list" where
  "find_ascii_strings bytes min_len = ascii_loop min_len bytes 0 None []"

section \<open>FindBaseString: the search over all bases\<close>

datatype find_error = InvalidIndex | InvalidOffset | OutOfRange

definition pop_count :: "'a::len word \<Rightarrow> nat" where
  "pop_count w = length (filter (bit w) [0..<LENGTH('a)])"

definition align_down :: "64 word \<Rightarrow> 32 word \<Rightarrow> 64 word" where
  "align_down a offset = a AND NOT (ucast offset - 1)"

definition get_range :: "nat \<Rightarrow> nat \<Rightarrow> 32 word \<Rightarrow> find_error + (64 word \<times> 64 word)" where
  "get_range index max_threads offset =
     (if max_threads \<le> index then Inl InvalidIndex
      else if pop_count offset \<noteq> 1 then Inl InvalidOffset
      else
        let all = 0xFFFFFFFF + word_of_nat max_threads - 1;
            start_addr = word_of_nat index * all div word_of_nat max_threads;
            end_addr = (word_of_nat index + 1) * all div word_of_nat max_threads;
            start_addr = align_down start_addr offset;
            end_addr = (if 0xFFFFFFFF \<le> end_addr then 0xFFFFFFFF else align_down end_addr offset)
        in Inr (ucast (ucast start_addr :: 32 word), ucast (ucast end_addr :: 32 word)))"

definition add_overflow :: "64 word \<Rightarrow> 64 word \<Rightarrow> 64 word option" where
  "add_overflow a b = (let s = a + b in if s < a then None else Some s)"

text \<open>The number of strings that some pointer refers to when the image is loaded at \<open>base\<close>.\<close>

definition matches_at :: "64 word list \<Rightarrow> 64 word set \<Rightarrow> 64 word \<Rightarrow> nat" where
  "matches_at strings pointers base =
     card (fold (\<lambda>s news. case add_overflow s base of
         None \<Rightarrow> news
       | Some r \<Rightarrow> if r \<in> pointers then insert r news else news) strings {})"

partial_function (option) match_loop ::
  "64 word list \<Rightarrow> 64 word set \<Rightarrow> 64 word \<Rightarrow> 64 word \<Rightarrow> 64 word \<Rightarrow> (nat \<times> 64 word) list \<Rightarrow> (nat \<times> 64 word) list option" where
  "match_loop strings pointers stride end_addr base heap =
     (if base \<le> end_addr then
        let n = matches_at strings pointers base;
            heap' = (if 0 < n then heap @ [(n, base)] else heap)
        in case add_overflow base stride of
             None \<Rightarrow> Some heap'
           | Some new_addr \<Rightarrow> match_loop strings pointers stride end_addr new_addr heap'
      else Some heap)"

definition find_matches ::
  "64 word list \<Rightarrow> 64 word set \<Rightarrow> nat \<Rightarrow> 32 word \<Rightarrow> nat \<Rightarrow> (find_error + (nat \<times> 64 word) list) option" where
  "find_matches strings pointers threads stride index =
     (case get_range index threads stride of
        Inl e \<Rightarrow> Some (Inl e)
      | Inr (start_addr, end_addr) \<Rightarrow> map_option Inr (match_loop strings pointers (ucast stride) end_addr start_addr []))"

text \<open>\<open>Run\<close> merges the heaps in the order in which the threads finish.\<close>

definition best_matches :: "nat \<Rightarrow> (nat \<times> 64 word) list list \<Rightarrow> (nat \<times> 64 word) list" where
  "best_matches max_matches queue = take max_matches (sort_key (\<lambda>(n, b). (- int n, b)) (concat queue))"

section \<open>FindBaseString2\<close>

definition compute_differences :: "64 word list \<Rightarrow> 64 word list" where
  "compute_differences values =
     map (\<lambda>i. if i < length values - 1 then values ! (i + 1) - values ! i else 0) [0..<length values]"

partial_function (option) shift_loop ::
  "64 word list \<Rightarrow> 64 word \<Rightarrow> nat \<Rightarrow> nat \<Rightarrow> nat list \<Rightarrow> (nat \<times> nat list) option" where
  "shift_loop pattern pat pos shift shifts =
     (if shift \<le> pos \<and> pat \<noteq> pattern ! (pos - shift) then
        let shift' = shift + shifts ! (pos - shift)
        in shift_loop pattern pat pos shift' (shifts[pos + 1 := shift'])
      else Some (shift, shifts))"

fun shift_table :: "64 word list \<Rightarrow> nat list \<Rightarrow> nat \<Rightarrow> nat list \<Rightarrow> nat list option" where
  "shift_table pattern [] shift shifts = Some shifts"
| "shift_table pattern (pos # ps) shift shifts =
     (case shift_loop pattern (pattern ! pos) pos shift shifts of
        None \<Rightarrow> None
      | Some (shift', shifts') \<Rightarrow> shift_table pattern ps shift' shifts')"

text \<open>
  The iterator method runs interleaved with the loop that consumes its values: \<open>consume\<close> is the body of that
  loop, with its own state and the exception it may raise.
\<close>

partial_function (option) kmp_while ::
  "(int \<Rightarrow> 'a \<Rightarrow> find_error + 'a) \<Rightarrow> 64 word list \<Rightarrow> nat list \<Rightarrow> 64 word \<Rightarrow> int \<Rightarrow> int \<Rightarrow> 'a
    \<Rightarrow> (find_error + (int \<times> int \<times> 'a)) option" where
  "kmp_while consume pattern shifts c start_pos match_len acc =
     (if match_len = int (length pattern) \<or> 0 \<le> match_len \<and> pattern ! nat match_len \<noteq> c then
        let start_pos' = start_pos + int (shifts ! nat match_len);
            match_len' = match_len - int (shifts ! nat match_len) + 1
        in if match_len' = int (length pattern) then
             case consume start_pos' acc of
               Inl e \<Rightarrow> Some (Inl e)
             | Inr acc' \<Rightarrow> kmp_while consume pattern shifts c start_pos' match_len' acc'
           else kmp_while consume pattern shifts c start_pos' match_len' acc
      else Some (Inr (start_pos, match_len, acc)))"

fun kmp_text ::
  "(int \<Rightarrow> 'a \<Rightarrow> find_error + 'a) \<Rightarrow> 64 word list \<Rightarrow> nat list \<Rightarrow> 64 word list \<Rightarrow> int \<Rightarrow> int \<Rightarrow> 'a
    \<Rightarrow> (find_error + 'a) option" where
  "kmp_text consume pattern shifts [] start_pos match_len acc = Some (Inr acc)"
| "kmp_text consume pattern shifts (c # cs) start_pos match_len acc =
     (case kmp_while consume pattern shifts c start_pos match_len acc of
        None \<Rightarrow> None
      | Some (Inl e) \<Rightarrow> Some (Inl e)
      | Some (Inr (start_pos', match_len', acc')) \<Rightarrow> kmp_text consume pattern shifts cs start_pos' match_len' acc')"

definition kmp ::
  "(int \<Rightarrow> 'a \<Rightarrow> find_error + 'a) \<Rightarrow> 64 word list \<Rightarrow> 64 word list \<Rightarrow> 'a \<Rightarrow> (find_error + 'a) option" where
  "kmp consume text pattern acc =
     (case shift_table pattern [0..<length pattern] 1 (replicate (length pattern + 1) 1) of
        None \<Rightarrow> None
      | Some shifts \<Rightarrow> kmp_text consume pattern shifts text 0 0 acc)"

definition identify_base_addresses :: "64 word list \<Rightarrow> 64 word list \<Rightarrow> (find_error + 64 word list) option" where
  "identify_base_addresses values strs =
     (let string_differences = compute_differences strs; differences = compute_differences values
      in if \<exists>v \<in> set string_differences. v \<le>s 0 then Some (Inr [])
         else kmp (\<lambda>pos baseaddrs.
             if 0 \<le> pos \<and> nat pos < length values \<and> strs \<noteq> [] then Inr (baseaddrs @ [values ! nat pos - strs ! 0])
             else Inl OutOfRange) differences string_differences [])"

text \<open>One attempt of \<open>FindAdjacentStrings\<close> from a random start; None when the end is reached.\<close>

function adjacent_loop :: "(64 word \<times> 64 word) list \<Rightarrow> nat \<Rightarrow> 64 word list \<Rightarrow> 64 word list option" where
  "adjacent_loop strs i matches =
     (if int i < int (length strs) - 1 then
        if length matches = 6 then Some matches
        else if fst (strs ! i) + snd (strs ! i) + 1 = fst (strs ! (i + 1))
        then adjacent_loop strs (i + 1) (matches @ [fst (strs ! i)])
        else adjacent_loop strs (i + 1) []
      else None)"
  by pat_completeness auto
termination
  by (relation "measure (\<lambda>(strs, i, _). length strs - i)") auto

text \<open>
  \<open>starts\<close> are the numbers the random generator returns; \<open>Next\<close> raises on a negative bound.
\<close>

fun find_adjacent_strings :: "(64 word \<times> 64 word) list \<Rightarrow> nat list \<Rightarrow> find_error + 64 word list" where
  "find_adjacent_strings strs [] = Inr []"
| "find_adjacent_strings strs (start_off # starts) =
     (if length strs < 6 then Inl OutOfRange
      else case adjacent_loop strs start_off [] of
             Some matches \<Rightarrow> Inr matches
           | None \<Rightarrow> find_adjacent_strings strs starts)"

text \<open>\<open>FindBaseAddresses\<close>: one list of random numbers for each attempt.\<close>

fun base_attempts ::
  "(64 word \<times> 64 word) list \<Rightarrow> 64 word list \<Rightarrow> nat list list \<Rightarrow> 64 word list \<Rightarrow> (find_error + 64 word list) option" where
  "base_attempts strings values [] baseaddrs = Some (Inr baseaddrs)"
| "base_attempts strings values (starts # attempts) baseaddrs =
     (case find_adjacent_strings strings starts of
        Inl e \<Rightarrow> Some (Inl e)
      | Inr stringaddrs \<Rightarrow>
          if stringaddrs = [] then base_attempts strings values attempts baseaddrs
          else
            case identify_base_addresses values stringaddrs of
              None \<Rightarrow> None
            | Some (Inl e) \<Rightarrow> Some (Inl e)
            | Some (Inr found) \<Rightarrow> if found \<noteq> [] then Some (Inr found) else base_attempts strings values attempts found)"

definition find_base_addresses ::
  "(64 word \<times> 64 word) list \<Rightarrow> 64 word list \<Rightarrow> nat list list \<Rightarrow> (find_error + 64 word list) option" where
  "find_base_addresses strings values attempts = base_attempts strings values attempts []"

section \<open>The strings found\<close>

text \<open>The maximal runs of text in an image: start and length.\<close>

definition text_run :: "nat list \<Rightarrow> nat \<Rightarrow> nat \<Rightarrow> bool" where
  "text_run bytes i n \<longleftrightarrow> 0 < n \<and> i + n \<le> length bytes \<and> (\<forall>j. i \<le> j \<and> j < i + n \<longrightarrow> is_text (bytes ! j))
     \<and> (i = 0 \<or> \<not> is_text (bytes ! (i - 1)))"

definition ended_runs :: "int \<Rightarrow> nat list \<Rightarrow> (nat \<times> nat) set" where
  "ended_runs m bytes = {(i, n). text_run bytes i n \<and> i + n < length bytes \<and> \<not> is_text (bytes ! (i + n)) \<and> m \<le> int n}"

definition ascii_inv :: "int \<Rightarrow> nat list \<Rightarrow> nat option \<Rightarrow> (nat \<times> nat) list \<Rightarrow> bool" where
  "ascii_inv m pre inside strings \<longleftrightarrow> set strings = ended_runs m pre \<and> sorted_wrt (\<lambda>(i, n) (j, k). i + n < j) strings
     \<and> (case inside of None \<Rightarrow> pre = [] \<or> \<not> is_text (last pre) | Some s \<Rightarrow> s < length pre \<and> text_run pre s (length pre - s))"

lemma text_run_append: "i + n \<le> length pre \<Longrightarrow> text_run (pre @ bs) i n = text_run pre i n"
  by (auto simp: text_run_def nth_append)

lemma run_end_unique:
  assumes "text_run bs i n" "text_run bs j k" "i + n = j + k"
  shows "i = j \<and> n = k"
proof -
  have "\<not> i < j" if "text_run bs i n" "text_run bs j k" "i + n = j + k" for i n j k
  proof
    assume "i < j"
    then have "i \<le> j - 1" "j - 1 < i + n" "j \<noteq> 0" using that by (auto simp: text_run_def)
    then show False using that(1,2) by (auto simp: text_run_def)
  qed
  from this [OF assms] this [OF assms(2,1) assms(3) [symmetric]] show ?thesis using assms(3) by simp
qed

definition flush :: "int \<Rightarrow> nat \<Rightarrow> nat option \<Rightarrow> (nat \<times> nat) list \<Rightarrow> (nat \<times> nat) list" where
  "flush m i inside strings =
     (case inside of Some s \<Rightarrow> if m \<le> int (i - s) then strings @ [(s, i - s)] else strings | None \<Rightarrow> strings)"

lemma flush_runs:
  assumes inv: "ascii_inv m pre inside strings"
  shows "set (flush m (length pre) inside strings) = ended_runs m pre \<union> {(i, n). text_run pre i n \<and> i + n = length pre \<and> m \<le> int n}"
    and "sorted_wrt (\<lambda>(i, n) (j, k). i + n < j) (flush m (length pre) inside strings)"
proof -
  have strings: "set strings = ended_runs m pre" "sorted_wrt (\<lambda>(i, n) (j, k). i + n < j) strings"
    using inv by (simp_all add: ascii_inv_def)
  show "set (flush m (length pre) inside strings) = ended_runs m pre \<union> {(i, n). text_run pre i n \<and> i + n = length pre \<and> m \<le> int n}"
  proof (cases inside)
    case None
    have "\<not> text_run pre i n" if "i + n = length pre" for i n
    proof
      assume r: "text_run pre i n"
      then have "i \<le> length pre - 1" "length pre - 1 < i + n" "pre \<noteq> []" using that by (auto simp: text_run_def)
      then have "is_text (last pre)" using r by (auto simp: text_run_def last_conv_nth)
      then show False using inv None \<open>pre \<noteq> []\<close> by (simp add: ascii_inv_def)
    qed
    then show ?thesis using None strings by (auto simp: flush_def)
  next
    case (Some s)
    then have s: "s < length pre" "text_run pre s (length pre - s)" using inv by (simp_all add: ascii_inv_def)
    have "text_run pre i n \<and> i + n = length pre \<longleftrightarrow> i = s \<and> n = length pre - s" for i n
      using run_end_unique [OF _ s(2), of i n] s by auto
    then have "{(i, n). text_run pre i n \<and> i + n = length pre \<and> m \<le> int n}
        = {(i, n). i = s \<and> n = length pre - s \<and> m \<le> int n}" by blast
    also have "\<dots> = (if m \<le> int (length pre - s) then {(s, length pre - s)} else {})" by auto
    finally show ?thesis using Some strings by (simp add: flush_def)
  qed
  show "sorted_wrt (\<lambda>(i, n) (j, k). i + n < j) (flush m (length pre) inside strings)"
  proof (cases inside)
    case None
    then show ?thesis using strings by (simp add: flush_def)
  next
    case (Some s)
    then have s: "s < length pre" "text_run pre s (length pre - s)" using inv by (simp_all add: ascii_inv_def)
    have "i + n < s" if "(i, n) \<in> set strings" for i n
    proof (rule ccontr)
      assume "\<not> i + n < s"
      then show False using that s unfolding strings(1) by (auto simp: ended_runs_def text_run_def)
    qed
    then show ?thesis using Some strings(2) by (auto simp: flush_def sorted_wrt_append)
  qed
qed

lemma ended_runs_snoc:
  "ended_runs m (pre @ [b]) = ended_runs m pre \<union> (if is_text b then {} else {(i, n). text_run pre i n \<and> i + n = length pre \<and> m \<le> int n})"
  by (auto simp: ended_runs_def text_run_append nth_append less_Suc_eq)

lemma ascii_step_text:
  assumes "ascii_inv m pre inside strings" "is_text b"
  shows "ascii_inv m (pre @ [b]) (case inside of None \<Rightarrow> Some (length pre) | Some s \<Rightarrow> Some s) strings"
proof (cases inside)
  case None
  have "length pre = 0 \<or> \<not> is_text ((pre @ [b]) ! (length pre - 1))"
    using assms(1) None by (cases pre rule: rev_cases) (auto simp: ascii_inv_def nth_append)
  then have "text_run (pre @ [b]) (length pre) 1"
    using assms(2) by (auto simp: text_run_def less_Suc_eq_le dest: le_antisym)
  then show ?thesis using assms None by (simp add: ascii_inv_def ended_runs_snoc)
next
  case (Some s)
  then have s: "s < length pre" "text_run pre s (length pre - s)" using assms(1) by (simp_all add: ascii_inv_def)
  have "is_text ((pre @ [b]) ! j)" if "s \<le> j" "j < Suc (length pre)" for j
    using s that assms(2) by (cases "j = length pre") (auto simp: text_run_def nth_append)
  moreover have "s = 0 \<or> \<not> is_text ((pre @ [b]) ! (s - 1))" using s by (auto simp: text_run_def nth_append)
  ultimately have "text_run (pre @ [b]) s (Suc (length pre) - s)" using s(1) by (simp add: text_run_def)
  then show ?thesis using assms Some s(1) by (simp add: ascii_inv_def ended_runs_snoc)
qed

lemma ascii_step_other:
  assumes "ascii_inv m pre inside strings" "\<not> is_text b"
  shows "ascii_inv m (pre @ [b]) None (flush m (length pre) inside strings)"
  using flush_runs [OF assms(1)] assms(2) by (simp add: ascii_inv_def ended_runs_snoc)

lemma ascii_loop_runs:
  assumes "ascii_inv m pre inside strings"
  shows "let r = ascii_loop m bs (length pre) inside strings in
    set r = {(i, n). text_run (pre @ bs) i n \<and> (i + n = length (pre @ bs) \<or> \<not> is_text ((pre @ bs) ! (i + n))) \<and> m \<le> int n}
    \<and> sorted_wrt (\<lambda>(i, n) (j, k). i + n < j) r"
  using assms
proof (induction bs arbitrary: pre inside strings)
  case Nil
  have "ascii_loop m [] (length pre) inside strings = flush m (length pre) inside strings"
    by (simp add: flush_def split: option.split)
  then show ?case
    using flush_runs [OF Nil] by (auto simp: Let_def ended_runs_def text_run_def)
next
  case (Cons b bs)
  show ?case
  proof (cases "is_text b")
    case True
    then show ?thesis using Cons.IH [OF ascii_step_text [OF Cons.prems True]] by simp
  next
    case False
    then show ?thesis
      using Cons.IH [OF ascii_step_other [OF Cons.prems False]] by (simp add: flush_def [symmetric])
  qed
qed

text \<open>
  \<open>FindAsciiStrings\<close> finds exactly the maximal runs of text bytes that are long enough, in increasing
  order: each found run is bounded by the image or by bytes that are not text.
\<close>

lemma find_ascii_strings_runs:
  "set (find_ascii_strings bytes m)
      = {(i, n). text_run bytes i n \<and> (i + n = length bytes \<or> \<not> is_text (bytes ! (i + n))) \<and> m \<le> int n}
    \<and> sorted_wrt (\<lambda>(i, n) (j, k). i + n < j) (find_ascii_strings bytes m)"
proof -
  have "ascii_inv m [] None []" by (auto simp: ascii_inv_def ended_runs_def text_run_def)
  from ascii_loop_runs [OF this, of bytes] show ?thesis by (simp add: find_ascii_strings_def Let_def)
qed

theorem find_ascii_strings_runs_witness:
  "(1, 2) \<in> set (find_ascii_strings [0, 65, 66, 0, 67] 2) \<and> (4, 1) \<notin> set (find_ascii_strings [0, 65, 66, 0, 67] 2)"
proof -
  have "text_run [0, 65, 66, 0, 67] 1 2"
    by (auto simp: text_run_def is_text_def less_Suc_eq numeral_eq_Suc nth_Cons' dest: le_antisym)
  then show ?thesis using find_ascii_strings_runs [of "[0, 65, 66, 0, 67]" 2] by (simp add: is_text_def)
qed

section \<open>The search is exhaustive\<close>

lemma pop_count_power: "k < 32 \<Longrightarrow> pop_count (2 ^ k :: 32 word) = 1"
proof -
  assume k: "k < 32"
  have "filter (bit (2 ^ k :: 32 word)) [0..<32] = filter (\<lambda>n. n = k) [0..<32]"
    using k by (intro filter_cong) (auto simp: bit_exp_iff)
  also have "length \<dots> = card {i. i < 32 \<and> i = k}" by (auto simp: length_filter_conv_card intro!: arg_cong [where f = card])
  also have "{i. i < 32 \<and> i = k} = {k}" using k by auto
  finally show ?thesis by (simp add: pop_count_def)
qed

lemma align_down_unat:
  assumes "k < 32"
  shows "unat (align_down a (2 ^ k)) = unat a div 2 ^ k * 2 ^ k"
proof -
  have u: "ucast (2 ^ k :: 32 word) = (2 ^ k :: 64 word)"
    using assms by (intro bit_word_eqI) (auto simp: bit_ucast_iff bit_exp_iff)
  have "align_down a (2 ^ k) = push_bit k (drop_bit k a)"
    unfolding align_down_def u mask_eq_exp_minus_1 [symmetric]
    by (intro bit_word_eqI) (auto simp: bit_push_bit_iff bit_drop_bit_eq bit_and_iff bit_not_iff bit_mask_iff)
  moreover have "unat a div 2 ^ k * 2 ^ k < 2 ^ 64"
    by (rule le_less_trans [OF div_times_less_eq_dividend]) (use unsigned_less [of a, where ?'a = nat] in simp)
  moreover have "unat (push_bit k (drop_bit k a)) = take_bit 64 (unat a div 2 ^ k * 2 ^ k)"
    by (simp only: unsigned_push_bit_eq unsigned_drop_bit_eq) 
      (use unsigned_less [of a, where ?'a = nat] in \<open>simp add: drop_bit_eq_div push_bit_eq_mult take_bit_nat_eq_self\<close>)
  ultimately show ?thesis by (simp only: take_bit_nat_eq_self)
qed

lemma unat_word: "n < 2 ^ 64 \<Longrightarrow> unat (word_of_nat n :: 64 word) = n"
  by (simp add: unsigned_of_nat take_bit_nat_eq_self)

lemma narrow: "unat x < 2 ^ 32 \<Longrightarrow> unat (ucast (ucast (x :: 64 word) :: 32 word) :: 64 word) = unat x"
  by (simp add: unsigned_ucast_eq unsigned_take_bit_eq take_bit_nat_eq_self)

definition range_start :: "nat \<Rightarrow> nat \<Rightarrow> nat \<Rightarrow> nat" where
  "range_start k t i = (i * (2 ^ 32 - 2 + t) div t) div 2 ^ k * 2 ^ k"

lemma get_range_tiles:
  assumes "k < 32" "i < t" "t \<le> 65536"
  shows "\<exists>s e. get_range i t (2 ^ k) = Inr (s, e) \<and> unat s = range_start k t i
    \<and> unat e = (if i + 1 = t then 2 ^ 32 - 1 else range_start k t (i + 1))
    \<and> unat s < 2 ^ 32 \<and> unat e < 2 ^ 32"
proof -
  let ?A = "2 ^ 32 - 2 + t"
  let ?all = "0xFFFFFFFF + word_of_nat t - 1 :: 64 word"
  have all: "?all = word_of_nat ?A" using assms by simp
  have bound: "j * ?A < 2 ^ 64" if "j \<le> t" for j
  proof -
    have "j * ?A \<le> 65536 * (2 ^ 32 - 2 + 65536)" using that assms by (intro mult_mono) auto
    then show ?thesis by simp
  qed
  have word: "unat (word_of_nat j * ?all div word_of_nat t :: 64 word) = j * ?A div t" if "j \<le> t" for j
  proof -
    have m: "word_of_nat j * ?all = word_of_nat (j * ?A)" unfolding all by simp
    have "t < 2 ^ 64" using assms(3) by simp
    then show ?thesis unfolding m unat_div unat_word [OF bound [OF that]] by (simp only: unat_word)
  qed
  have small: "j * ?A div t < 2 ^ 32 - 1" if "j < t" for j
  proof -
    have "int j * (2 ^ 32 - 2 + int t) \<le> (int t - 1) * (2 ^ 32 - 2 + int t)"
      using that by (intro mult_right_mono) auto
    also have "\<dots> < (2 ^ 32 - 1) * int t"
    proof -
      have "int t * int t \<le> 65536 * int t" using assms(3) by (intro mult_right_mono) auto
      then show ?thesis using assms(3) by (simp add: algebra_simps)
    qed
    finally have "int (j * ?A) < int ((2 ^ 32 - 1) * t)" by simp
    then have "j * ?A < (2 ^ 32 - 1) * t" by linarith
    then show ?thesis by (rule less_mult_imp_div_less)
  qed
  let ?s = "align_down (word_of_nat i * ?all div word_of_nat t) (2 ^ k)"
  let ?d = "(word_of_nat i + 1) * ?all div word_of_nat t"
  let ?e = "if 0xFFFFFFFF \<le> ?d then 0xFFFFFFFF else align_down ?d (2 ^ k)"
  have d: "?d = word_of_nat (i + 1) * ?all div word_of_nat t" by (simp add: add.commute)
  have ud: "unat ?d = (i + 1) * ?A div t" unfolding d using word [of "i + 1"] assms(2) by simp
  have le: "0xFFFFFFFF \<le> ?d \<longleftrightarrow> 2 ^ 32 - 1 \<le> unat ?d" by (simp add: word_le_nat_alt)
  have us: "unat ?s = range_start k t i" using word [of i] assms by (simp only: align_down_unat range_start_def)
  have ls: "range_start k t j \<le> j * ?A div t" for j unfolding range_start_def by simp
  have ue: "unat ?e = (if i + 1 = t then 2 ^ 32 - 1 else range_start k t (i + 1))"
  proof (cases "i + 1 = t")
    case True
    then have "unat ?d = ?A" unfolding ud using assms(2) by simp
    then show ?thesis unfolding le using True assms(2) by simp
  next
    case False
    then have "unat ?d < 2 ^ 32 - 1" unfolding ud using small [of "i + 1"] assms(2) by simp
    then have n: "\<not> 0xFFFFFFFF \<le> ?d" unfolding le by simp
    show ?thesis
      using False by (simp only: if_not_P [OF n] align_down_unat [OF assms(1)] ud range_start_def if_False)
  qed
  have "unat ?s < 2 ^ 32" using us ls [of i] small [OF assms(2)] by linarith
  moreover have "range_start k t (i + 1) < 2 ^ 32" if "i + 1 \<noteq> t"
  proof -
    have "i + 1 < t" using that assms(2) by simp
    from small [OF this] ls [of "i + 1"] show ?thesis by linarith
  qed
  then have "unat ?e < 2 ^ 32" unfolding ue by simp
  moreover have "get_range i t (2 ^ k) = Inr (ucast (ucast ?s :: 32 word), ucast (ucast ?e :: 32 word))"
    using assms(2) pop_count_power [OF assms(1)] by (simp add: get_range_def Let_def)
  ultimately show ?thesis using us ue narrow by metis
qed


lemma add_overflow_unat:
  assumes "unat a + unat b < 2 ^ 64"
  shows "\<exists>s. add_overflow a b = Some s \<and> unat s = unat a + unat b"
proof -
  have "unat (a + b) = unat a + unat b" using assms by (subst unat_add_lem [symmetric]) simp
  then show ?thesis by (auto simp: add_overflow_def Let_def word_less_nat_alt)
qed

definition candidates :: "64 word list \<Rightarrow> 64 word set \<Rightarrow> nat \<Rightarrow> nat \<Rightarrow> nat \<Rightarrow> (nat \<times> 64 word) set" where
  "candidates strings pointers d lo hi =
     {(n, b). lo \<le> unat b \<and> unat b \<le> hi \<and> d dvd unat b \<and> n = matches_at strings pointers b \<and> 0 < n}"

lemma candidates_step:
  assumes "d dvd unat b" "unat b \<le> hi" "0 < d"
  shows "candidates strings pointers d (unat b) hi
    = (if 0 < matches_at strings pointers b then {(matches_at strings pointers b, b)} else {})
      \<union> candidates strings pointers d (unat b + d) hi"
proof -
  have apart: "unat c = unat b \<or> unat b + d \<le> unat c" if c: "d dvd unat c" "unat b \<le> unat c" for c :: "64 word"
  proof (rule disjCI)
    assume "\<not> unat b + d \<le> unat c"
    then have "unat c - unat b < d" "d dvd unat c - unat b" using c assms(1) by (auto intro: dvd_diff_nat)
    then show "unat c = unat b" using c(2) by (metis dvd_imp_le le_antisym diff_is_0_eq gr0I not_le)
  qed
  have "(n, c) \<in> candidates strings pointers d (unat b) hi \<longleftrightarrow>
      c = b \<and> n = matches_at strings pointers b \<and> 0 < n \<or> (n, c) \<in> candidates strings pointers d (unat b + d) hi" for n c
    using assms apart [of c] word_unat_eq_iff [of c b]
    by (cases "c = b") (auto simp: candidates_def)
  then show ?thesis by auto
qed

lemma match_loop_candidates:
  assumes "unat end_addr < 2 ^ 32" "unat stride = d" "0 < d" "d < 2 ^ 32" "d dvd unat base" "unat base < 2 ^ 33"
  shows "\<exists>heap'. match_loop strings pointers stride end_addr base heap = Some heap'
    \<and> set heap' = set heap \<union> candidates strings pointers d (unat base) (unat end_addr)"
  using assms
proof (induction "unat end_addr + 1 - unat base" arbitrary: base heap rule: less_induct)
  case less
  show ?case
  proof (cases "base \<le> end_addr")
    case False
    then have "candidates strings pointers d (unat base) (unat end_addr) = {}"
      by (auto simp: candidates_def word_le_nat_alt)
    then show ?thesis using False by (subst match_loop.simps) simp
  next
    case True
    let ?n = "matches_at strings pointers base"
    let ?heap = "if 0 < ?n then heap @ [(?n, base)] else heap"
    have le: "unat base \<le> unat end_addr" using True by (simp add: word_le_nat_alt)
    obtain b where b: "add_overflow base stride = Some b" "unat b = unat base + d"
      using add_overflow_unat [of base stride] less.prems le by auto
    have "\<exists>heap'. match_loop strings pointers stride end_addr b ?heap = Some heap'
      \<and> set heap' = set ?heap \<union> candidates strings pointers d (unat b) (unat end_addr)"
      using less.prems b(2) le by (intro less.hyps) auto
    then show ?thesis
      using True b candidates_step [OF less.prems(5) le less.prems(3), of strings pointers]
      by (subst match_loop.simps) (auto simp: Let_def)
  qed
qed

lemma range_start_search: "range_start k t 0 \<le> b \<Longrightarrow> 0 < t' \<Longrightarrow> \<exists>i < t'. range_start k t i \<le> b \<and> (i + 1 < t' \<longrightarrow> b < range_start k t (i + 1))"
proof (induction t')
  case (Suc t')
  show ?case
  proof (cases "t' = 0 \<or> range_start k t t' \<le> b")
    case True
    then show ?thesis using Suc.prems by (intro exI [of _ t']) auto
  next
    case False
    then obtain i where "i < t'" "range_start k t i \<le> b" "i + 1 < t' \<longrightarrow> b < range_start k t (i + 1)" using Suc by auto
    then show ?thesis using False by (intro exI [of _ i]) (cases "i + 1 = t'", auto)
  qed
qed simp

text \<open>
  C32. The threads' ranges together cover all candidate addresses: for a stride that is a power of two and up to
  65536 threads, every thread's search ends, and an address is reported, with its number of matches, by some thread
  exactly when it is a multiple of the stride below 2 to the 32 with a match.
\<close>

theorem search_is_exhaustive:
  assumes "k < 32" "0 < threads" "threads \<le> 65536"
  shows "\<exists>heaps. (\<forall>i < threads. find_matches strings pointers threads (2 ^ k) i = Some (Inr (heaps i)))
    \<and> (\<Union>i < threads. set (heaps i))
      = {(n, b). unat b < 2 ^ 32 \<and> 2 ^ k dvd unat b \<and> n = matches_at strings pointers b \<and> 0 < n}"
proof -
  let ?hi = "\<lambda>i. if i + 1 = threads then 2 ^ 32 - 1 else range_start k threads (i + 1)"
  have stride: "unat (ucast (2 ^ k :: 32 word) :: 64 word) = 2 ^ k"
  proof -
    have "(2 :: nat) ^ k < 2 ^ 32" "(2 :: nat) ^ k < 2 ^ 64" using assms(1) by (intro power_strict_increasing; simp)+
    then have "unat (word_of_nat (2 ^ k) :: 32 word) = 2 ^ k" "take_bit 64 (2 ^ k :: nat) = 2 ^ k"
      by (simp_all only: unsigned_of_nat take_bit_nat_eq_self len_bit0 len_num1 mult_numeral_1_right) (use assms(1) in simp_all)
    then show ?thesis by (simp add: unsigned_ucast_eq)
  qed
  have "\<exists>heap. find_matches strings pointers threads (2 ^ k) i = Some (Inr heap)
      \<and> set heap = candidates strings pointers (2 ^ k) (range_start k threads i) (?hi i)" if i: "i < threads" for i
  proof -
    obtain s e where r: "get_range i threads (2 ^ k) = Inr (s, e)" "unat s = range_start k threads i" "unat e = ?hi i"
      "unat s < 2 ^ 32" "unat e < 2 ^ 32"
      using get_range_tiles [OF assms(1) i assms(3)] by blast
    have "(2 :: nat) ^ k < 2 ^ 32" using assms(1) by (intro power_strict_increasing) auto
    moreover have "2 ^ k dvd unat s" unfolding r(2) range_start_def by simp
    ultimately obtain heap where "match_loop strings pointers (ucast (2 ^ k :: 32 word)) e s [] = Some heap"
      "set heap = candidates strings pointers (2 ^ k) (unat s) (unat e)"
      using match_loop_candidates [OF r(5) stride, of s strings pointers "[]"] r(4) by auto
    then show ?thesis using r by (simp add: find_matches_def)
  qed
  then obtain heaps where heaps: "\<And>i. i < threads \<Longrightarrow> find_matches strings pointers threads (2 ^ k) i = Some (Inr (heaps i))"
    "\<And>i. i < threads \<Longrightarrow> set (heaps i) = candidates strings pointers (2 ^ k) (range_start k threads i) (?hi i)"
    by metis
  have hi: "?hi i < 2 ^ 32" if "i < threads" for i
    using get_range_tiles [OF assms(1) that assms(3)] by (elim exE conjE) simp
  have "\<exists>i < threads. range_start k threads i \<le> x \<and> x \<le> ?hi i" if x: "x < 2 ^ 32" for x :: nat
  proof -
    have "range_start k threads 0 \<le> x" by (simp add: range_start_def)
    then obtain i where "i < threads" "range_start k threads i \<le> x" "i + 1 < threads \<longrightarrow> x < range_start k threads (i + 1)"
      using range_start_search assms(2) by blast
    then show ?thesis using x by (intro exI [of _ i]) auto
  qed
  then have "(\<Union>i < threads. set (heaps i))
      = {(n, b). unat b < 2 ^ 32 \<and> 2 ^ k dvd unat b \<and> n = matches_at strings pointers b \<and> 0 < n}"
    using heaps(2) hi unfolding candidates_def by (fastforce intro: le_less_trans)
  then show ?thesis using heaps(1) by blast
qed

theorem search_is_exhaustive_witness:
  "\<exists>heaps. (\<forall>i < 3. find_matches [0x10] {0x2010} 3 (2 ^ 12) i = Some (Inr (heaps i)))
    \<and> (1, 0x2000) \<in> (\<Union>i < 3. set (heaps i))"
proof -
  have m: "matches_at [0x10] {0x2010} 0x2000 = 1"
    by (simp add: matches_at_def add_overflow_def Let_def word_less_nat_alt)
  have k: "(12 :: nat) < 32" "(0 :: nat) < 3" "(3 :: nat) \<le> 65536" by simp_all
  obtain heaps where h: "\<forall>i < 3. find_matches [0x10] {0x2010} 3 (2 ^ 12) i = Some (Inr (heaps i))"
    "(\<Union>i < 3. set (heaps i)) = {(n, b). unat b < 2 ^ 32 \<and> 2 ^ 12 dvd unat b \<and> n = matches_at [0x10] {0x2010} b \<and> 0 < n}"
    using search_is_exhaustive [OF k, of "[0x10]" "{0x2010}"] by blast
  have "(1, 0x2000) \<in> (\<Union>i < 3. set (heaps i))" unfolding h(2) using m by simp
  then show ?thesis using h(1) by blast
qed

text \<open>The reported list does not depend on the order in which the threads finish.\<close>

lemma best_matches_any_order:
  assumes "mset (concat q) = mset (concat q')"
  shows "best_matches m q = best_matches m q'"
proof -
  have "inj_on (\<lambda>(n, b). (- int n, b)) (set (concat q))" by (auto simp: inj_on_def)
  then have "sort_key (\<lambda>(n, b). (- int n, b)) (concat q) = sort_key (\<lambda>(n, b). (- int n, b)) (concat q')"
    using assms by (intro sort_key_inj_key_eq) auto
  then show ?thesis by (simp add: best_matches_def)
qed

section \<open>FindBaseString2 and its matcher\<close>

lemma compute_differences_last: "values \<noteq> [] \<Longrightarrow> 0 \<in> set (compute_differences values)"
proof -
  assume "values \<noteq> []"
  then have "compute_differences values ! (length values - 1) = 0" "length values - 1 < length (compute_differences values)"
    by (simp_all add: compute_differences_def)
  then show ?thesis by (metis nth_mem)
qed

lemma identify_gives_nothing: "strs \<noteq> [] \<Longrightarrow> identify_base_addresses values strs = Some (Inr [])"
  using compute_differences_last [of strs] by (auto simp: identify_base_addresses_def Let_def)

text \<open>
  C33. \<open>FindBaseString2\<close> never reports an address: the last difference of the string addresses is always
  zero, which the check of strictly increasing addresses rejects; with fewer than six strings the random generator
  raises.
\<close>

theorem find_base_addresses_finds_nothing:
  "find_base_addresses strings values attempts
    = (if length strings < 6 \<and> (\<exists>starts \<in> set attempts. starts \<noteq> []) then Some (Inl OutOfRange) else Some (Inr []))"
proof -
  have many: "\<exists>r. find_adjacent_strings strings starts = Inr r" if "\<not> length strings < 6" for starts
    using that by (induction starts) (auto simp del: adjacent_loop.simps split: option.split)
  have few: "find_adjacent_strings strings starts = (if starts = [] then Inr [] else Inl OutOfRange)"
    if "length strings < 6" for starts
    using that by (cases starts) auto
  have "base_attempts strings values attempts [] = (if length strings < 6 \<and> (\<exists>starts \<in> set attempts. starts \<noteq> [])
      then Some (Inl OutOfRange) else Some (Inr []))"
  proof (induction attempts)
    case (Cons starts attempts)
    show ?case
    proof (cases "length strings < 6")
      case True
      then show ?thesis using Cons by (simp add: few)
    next
      case False
      then obtain r where "find_adjacent_strings strings starts = Inr r" using many by blast
      then show ?thesis using Cons False by (simp add: identify_gives_nothing)
    qed
  qed simp
  then show ?thesis by (simp add: find_base_addresses_def)
qed

lemma kmp_while_same: "pattern \<noteq> [] \<Longrightarrow> pattern ! 0 = c \<Longrightarrow>
    kmp_while consume pattern shifts c sp 0 acc = Some (Inr (sp, 0, acc))"
  by (subst kmp_while.simps) simp

lemma kmp_while_stuck:
  assumes "pattern ! 0 \<noteq> c" "shifts ! 0 = 1" "pattern \<noteq> []"
  shows "kmp_while consume pattern shifts c sp 0 acc = None"
proof -
  have "\<not> (co = consume \<and> p = pattern \<and> s = shifts \<and> d = c \<and> ml = 0)" if run: "kmp_while co p s d sp ml acc = Some r"
    for co p s d sp ml acc r
  proof (rule kmp_while.raw_induct [where P = "\<lambda>co p s d sp ml acc r. \<not> (co = consume \<and> p = pattern \<and> s = shifts \<and> d = c \<and> ml = 0)",
      OF _ run])
    fix f and co :: "int \<Rightarrow> 'a \<Rightarrow> find_error + 'a" and p s and d :: "64 word" and sp' ml' :: int and acc' y
    assume ih: "\<And>co p s d sp ml acc r. f co p s d sp ml acc = Some r \<Longrightarrow>
        \<not> (co = consume \<and> p = pattern \<and> s = shifts \<and> d = c \<and> ml = 0)"
      and body: "(if ml' = int (length p) \<or> 0 \<le> ml' \<and> p ! nat ml' \<noteq> d
        then let start_pos' = sp' + int (s ! nat ml'); match_len' = ml' - int (s ! nat ml') + 1
             in if match_len' = int (length p) then case co start_pos' acc' of Inl e \<Rightarrow> Some (Inl e)
                     | Inr acc' \<Rightarrow> f co p s d start_pos' match_len' acc'
                else f co p s d start_pos' match_len' acc'
        else Some (Inr (sp', ml', acc'))) = Some y"
    show "\<not> (co = consume \<and> p = pattern \<and> s = shifts \<and> d = c \<and> ml' = 0)"
    proof
      assume eq: "co = consume \<and> p = pattern \<and> s = shifts \<and> d = c \<and> ml' = 0"
      then have "f consume pattern shifts c (sp' + 1) 0 acc' = Some y" using body assms by (simp add: Let_def)
      then show False using ih by blast
    qed
  qed
  from this [of consume pattern shifts c sp 0 acc] show ?thesis
    by (cases "kmp_while consume pattern shifts c sp 0 acc") auto
qed

lemma kmp_text_first:
  assumes "shifts ! 0 = 1" "pattern \<noteq> []"
  shows "kmp_text consume pattern shifts ts sp 0 acc = (if \<forall>c \<in> set ts. c = pattern ! 0 then Some (Inr acc) else None)"
proof (induction ts arbitrary: sp)
  case (Cons c cs)
  show ?case
  proof (cases "pattern ! 0 = c")
    case True
    then show ?thesis using Cons kmp_while_same [OF assms(2) True, of consume shifts sp acc] by simp
  next
    case False
    then show ?thesis using kmp_while_stuck [OF False assms, of consume sp acc] by auto
  qed
qed simp

lemma shift_loop_ends:
  assumes "\<forall>s \<in> set shifts. 1 \<le> s" "pos + 1 < length shifts" "shifts ! 0 = 1" "1 \<le> shift"
  shows "\<exists>shift' shifts'. shift_loop pattern pat pos shift shifts = Some (shift', shifts')
    \<and> (\<forall>s \<in> set shifts'. 1 \<le> s) \<and> length shifts' = length shifts \<and> shifts' ! 0 = 1 \<and> 1 \<le> shift'"
  using assms
proof (induction "pos + 1 - shift" arbitrary: shift shifts rule: less_induct)
  case less
  show ?case
  proof (cases "shift \<le> pos \<and> pat \<noteq> pattern ! (pos - shift)")
    case False
    then show ?thesis using less.prems by (subst shift_loop.simps) auto
  next
    case True
    let ?s = "shift + shifts ! (pos - shift)"
    have one: "1 \<le> shifts ! (pos - shift)" using less.prems(1,2) True by (meson le_less_trans nth_mem diff_le_self less_trans le_add1 add_lessD1)
    have "\<exists>shift' shifts'. shift_loop pattern pat pos ?s (shifts[pos + 1 := ?s]) = Some (shift', shifts')
      \<and> (\<forall>s \<in> set shifts'. 1 \<le> s) \<and> length shifts' = length (shifts[pos + 1 := ?s]) \<and> shifts' ! 0 = 1 \<and> 1 \<le> shift'"
    proof (rule less.hyps)
      show "pos + 1 - ?s < pos + 1 - shift" using one True by linarith
    qed (use less.prems in \<open>auto dest: set_update_subset_insert [THEN subsetD]\<close>)
    then show ?thesis using True by (subst shift_loop.simps) (simp add: Let_def)
  qed
qed

lemma shift_table_ends:
  assumes "\<forall>s \<in> set shifts. 1 \<le> s" "\<forall>pos \<in> set ps. pos + 1 < length shifts" "shifts ! 0 = 1" "1 \<le> shift"
  shows "\<exists>shifts'. shift_table pattern ps shift shifts = Some shifts' \<and> shifts' ! 0 = 1"
  using assms
proof (induction ps arbitrary: shift shifts)
  case (Cons pos ps)
  obtain shift' shifts' where "shift_loop pattern (pattern ! pos) pos shift shifts = Some (shift', shifts')"
    "\<forall>s \<in> set shifts'. 1 \<le> s" "length shifts' = length shifts" "shifts' ! 0 = 1" "1 \<le> shift'"
    using shift_loop_ends [OF Cons.prems(1) _ Cons.prems(3,4), of pos pattern "pattern ! pos"] Cons.prems(2) by auto
  then show ?case using Cons.IH [of shifts' shift'] Cons.prems(2) by auto
qed simp

text \<open>
  C34. \<open>KMP\<close> never yields a match: for a pattern that is not empty it ends only on a text that repeats the
  pattern's first element, without a match, and loops for ever on every other text.
\<close>

theorem kmp_never_matches:
  assumes "pattern \<noteq> []"
  shows "kmp consume ts pattern acc = (if \<forall>c \<in> set ts. c = pattern ! 0 then Some (Inr acc) else None)"
proof -
  obtain shifts where "shift_table pattern [0..<length pattern] 1 (replicate (length pattern + 1) 1) = Some shifts" "shifts ! 0 = 1"
    using shift_table_ends [of "replicate (length pattern + 1) 1" "[0..<length pattern]" 1 pattern] by auto
  then show ?thesis using kmp_text_first [of shifts pattern consume ts 0 acc] assms by (simp add: kmp_def)
qed

theorem kmp_never_matches_witness:
  "kmp (\<lambda>pos found. Inr (found @ [pos])) [7, 7, 8] [7, 8] [] = None
    \<and> kmp (\<lambda>pos found. Inr (found @ [pos])) [7, 7] [7, 7] [] = Some (Inr [])"
  using kmp_never_matches [of "[7, 8]" "\<lambda>pos found. Inr (found @ [pos])" "[7, 7, 8]" "[]"]
    kmp_never_matches [of "[7, 7]" "\<lambda>pos found. Inr (found @ [pos])" "[7, 7]" "[]"] by simp

end
