(* ===== verification/Altivec.thy ===== *)
theory Altivec
  imports Reko_Prelude "HOL-Library.Signed_Division"
begin

unbundle bit_operations_syntax

text \<open>
  The vector routines of \<open>lib/clang/11.0.0/include/altivec.h\<close> that compute in C (the rest
  of the header forwards to one compiler builtin each).  A vector is the list of its lanes in
  memory order, so a 16-byte vector is a list of sixteen bytes for either endianness, and an
  overload group is one definition, polymorphic in the lane width where the C repeats the
  same body for each lane type (signed, unsigned, bool and floating lanes are the same bit
  patterns for the bitwise groups).  Compiler builtins are arguments: \<open>vperm\<close> is the permute
  instruction on bytes in register order, \<open>vmax\<close> and \<open>vcmpgt\<close> the lane-wise maximum and
  comparison, and \<open>le\<close> says whether \<open>__LITTLE_ENDIAN__\<close> is defined.
\<close>

type_synonym bytes = "8 word list"

section \<open>Lane-wise arithmetic\<close>

definition vec_add :: "'a::len word list \<Rightarrow> 'a word list \<Rightarrow> 'a word list" where
  "vec_add a b = map2 (+) a b"

definition vec_vaddubm :: "8 word list \<Rightarrow> 8 word list \<Rightarrow> 8 word list" where
  "vec_vaddubm a b = map2 (+) a b"

definition vec_vadduhm :: "16 word list \<Rightarrow> 16 word list \<Rightarrow> 16 word list" where
  "vec_vadduhm a b = map2 (+) a b"

definition vec_vadduwm :: "32 word list \<Rightarrow> 32 word list \<Rightarrow> 32 word list" where
  "vec_vadduwm a b = map2 (+) a b"

definition vec_sub :: "'a::len word list \<Rightarrow> 'a word list \<Rightarrow> 'a word list" where
  "vec_sub a b = map2 (-) a b"

definition vec_vsububm :: "8 word list \<Rightarrow> 8 word list \<Rightarrow> 8 word list" where
  "vec_vsububm a b = map2 (-) a b"

definition vec_vsubuhm :: "16 word list \<Rightarrow> 16 word list \<Rightarrow> 16 word list" where
  "vec_vsubuhm a b = map2 (-) a b"

definition vec_vsubuwm :: "32 word list \<Rightarrow> 32 word list \<Rightarrow> 32 word list" where
  "vec_vsubuwm a b = map2 (-) a b"

definition vec_not :: "'a::len word list \<Rightarrow> 'a word list" where
  "vec_not a = map (\<lambda>x. NOT x) a"

definition vec_neg :: "'a::len word list \<Rightarrow> 'a word list" where
  "vec_neg a = map (\<lambda>x. - x) a"

definition vec_adde :: "32 word list \<Rightarrow> 32 word list \<Rightarrow> 32 word list \<Rightarrow> 32 word list" where
  "vec_adde a b c =
     (let mask = [1, 1, 1, 1];
          carry = map2 (AND) c mask
      in vec_add (vec_add a b) carry)"

definition addec_lane :: "32 word \<Rightarrow> 32 word \<Rightarrow> 32 word \<Rightarrow> 32 word" where
  "addec_lane ta tb c =
     (let tc = c AND 0x00000001;
          longa = ucast ta :: 64 word;
          longb = ucast tb :: 64 word;
          longc = ucast tc :: 64 word;
          sum = longa + longb + longc;
          res = drop_bit 32 sum AND 0x01;
          tempres = ucast (ucast res :: 32 word) :: 64 word
      in ucast tempres)"

definition vec_addec :: "32 word list \<Rightarrow> 32 word list \<Rightarrow> 32 word list \<Rightarrow> 32 word list" where
  "vec_addec a b c = map (\<lambda>i. addec_lane (a ! i) (b ! i) (c ! i)) [0..<4]"

definition vec_sube :: "32 word list \<Rightarrow> 32 word list \<Rightarrow> 32 word list \<Rightarrow> 32 word list" where
  "vec_sube a b c =
     (let mask = [1, 1, 1, 1];
          carry = map2 (AND) c mask
      in vec_adde a (vec_not b) carry)"

definition vec_subec :: "32 word list \<Rightarrow> 32 word list \<Rightarrow> 32 word list \<Rightarrow> 32 word list" where
  "vec_subec a b c = vec_addec a (vec_not b) c"

definition vec_abs ::
  "('a::len word list \<Rightarrow> 'a word list \<Rightarrow> 'a word list) \<Rightarrow> 'a word list \<Rightarrow> 'a word list" where
  "vec_abs vmax a = vmax a (vec_neg a)"

definition vec_cmpge ::
  "('a::len word list \<Rightarrow> 'a word list \<Rightarrow> 'a word list) \<Rightarrow> 'a word list \<Rightarrow> 'a word list \<Rightarrow> 'a word list"
where
  "vec_cmpge vcmpgt a b = vec_not (vcmpgt b a)"

definition vec_cmple ::
  "('a::len word list \<Rightarrow> 'a word list \<Rightarrow> 'a word list) \<Rightarrow> 'a word list \<Rightarrow> 'a word list \<Rightarrow> 'a word list"
where
  "vec_cmple vcmpgt a b = vec_cmpge vcmpgt b a"

definition vec_cmplt ::
  "('a::len word list \<Rightarrow> 'a word list \<Rightarrow> 'a word list) \<Rightarrow> 'a word list \<Rightarrow> 'a word list \<Rightarrow> 'a word list"
where
  "vec_cmplt vcmpgt a b = vcmpgt b a"

definition vec_sl :: "'a::len word list \<Rightarrow> 'a word list \<Rightarrow> 'a word list" where
  "vec_sl a b = map2 (\<lambda>x y. push_bit (unat (y mod of_nat LENGTH('a))) x) a b"

definition vec_sr :: "'a::len word list \<Rightarrow> 'a word list \<Rightarrow> 'a word list" where
  "vec_sr a b = map2 (\<lambda>x y. drop_bit (unat (y mod of_nat LENGTH('a))) x) a b"

text \<open>
  The doubleword overloads of \<open>vec_sra\<close> shift by the count as given: a count of 64 or more is
  undefined in C, which is the value None of that lane.
\<close>

definition vec_sra_d :: "64 word list \<Rightarrow> 64 word list \<Rightarrow> 64 word option list" where
  "vec_sra_d a b =
     map2 (\<lambda>x y. if unat y < 64 then Some (signed_drop_bit (unat y) x) else None) a b"

section \<open>Bitwise operations\<close>

definition vec_and :: "'a::len word list \<Rightarrow> 'a word list \<Rightarrow> 'a word list" where
  "vec_and a b = map2 (AND) a b"

definition vec_vand :: "'a::len word list \<Rightarrow> 'a word list \<Rightarrow> 'a word list" where
  "vec_vand a b = map2 (AND) a b"

definition vec_andc :: "'a::len word list \<Rightarrow> 'a word list \<Rightarrow> 'a word list" where
  "vec_andc a b = map2 (\<lambda>x y. x AND NOT y) a b"

definition vec_vandc :: "'a::len word list \<Rightarrow> 'a word list \<Rightarrow> 'a word list" where
  "vec_vandc a b = map2 (\<lambda>x y. x AND NOT y) a b"

definition vec_nand :: "'a::len word list \<Rightarrow> 'a word list \<Rightarrow> 'a word list" where
  "vec_nand a b = vec_not (map2 (AND) a b)"

definition vec_or :: "'a::len word list \<Rightarrow> 'a word list \<Rightarrow> 'a word list" where
  "vec_or a b = map2 (OR) a b"

definition vec_vor :: "'a::len word list \<Rightarrow> 'a word list \<Rightarrow> 'a word list" where
  "vec_vor a b = map2 (OR) a b"

definition vec_orc :: "'a::len word list \<Rightarrow> 'a word list \<Rightarrow> 'a word list" where
  "vec_orc a b = map2 (\<lambda>x y. x OR NOT y) a b"

definition vec_nor :: "'a::len word list \<Rightarrow> 'a word list \<Rightarrow> 'a word list" where
  "vec_nor a b = vec_not (map2 (OR) a b)"

definition vec_vnor :: "'a::len word list \<Rightarrow> 'a word list \<Rightarrow> 'a word list" where
  "vec_vnor a b = vec_not (map2 (OR) a b)"

definition vec_xor :: "'a::len word list \<Rightarrow> 'a word list \<Rightarrow> 'a word list" where
  "vec_xor a b = map2 (XOR) a b"

definition vec_vxor :: "'a::len word list \<Rightarrow> 'a word list \<Rightarrow> 'a word list" where
  "vec_vxor a b = map2 (XOR) a b"

definition vec_sel :: "'a::len word list \<Rightarrow> 'a word list \<Rightarrow> 'a word list \<Rightarrow> 'a word list" where
  "vec_sel a b c = map2 (OR) (map2 (AND) a (vec_not c)) (map2 (AND) b c)"

definition vec_vsel :: "'a::len word list \<Rightarrow> 'a word list \<Rightarrow> 'a word list \<Rightarrow> 'a word list" where
  "vec_vsel a b c = map2 (OR) (map2 (AND) a (vec_not c)) (map2 (AND) b c)"

section \<open>Element access\<close>

text \<open>A subscript outside the vector is undefined in C: the value None.\<close>

definition vec_extract :: "'a list \<Rightarrow> int \<Rightarrow> 'a option" where
  "vec_extract a b = (if 0 \<le> b then arr_get a (nat b) else None)"

definition vec_insert :: "'a \<Rightarrow> 'a list \<Rightarrow> int \<Rightarrow> 'a list option" where
  "vec_insert a b c = (if 0 \<le> c then arr_set b (nat c) a else None)"

text \<open>\<open>n\<close> is the number of lanes of the vector type of the overload.\<close>

definition vec_promote :: "nat \<Rightarrow> 'a::zero \<Rightarrow> int \<Rightarrow> 'a list option" where
  "vec_promote n a b =
     (let res = replicate n 0 in if 0 \<le> b then arr_set res (nat b) a else None)"

definition vec_splats :: "nat \<Rightarrow> 'a \<Rightarrow> 'a list" where
  "vec_splats n a = replicate n a"

definition vec_reve :: "'a list \<Rightarrow> 'a list" where
  "vec_reve a = map (\<lambda>i. a ! (length a - 1 - i)) [0..<length a]"

section \<open>Byte permutation\<close>

text \<open>
  \<open>__builtin_altivec_vperm_4si\<close> is the instruction on registers.  Register byte 0 is the first
  byte of the vector in memory on a big-endian target and the last one on a little-endian one.
\<close>

definition reg :: "bool \<Rightarrow> bytes \<Rightarrow> bytes" where
  "reg le v = (if le then rev v else v)"

definition builtin_vperm ::
  "(bytes \<Rightarrow> bytes \<Rightarrow> bytes \<Rightarrow> bytes) \<Rightarrow> bool \<Rightarrow> bytes \<Rightarrow> bytes \<Rightarrow> bytes \<Rightarrow> bytes" where
  "builtin_vperm vperm le A B C = reg le (vperm (reg le A) (reg le B) (reg le C))"

definition vec_perm ::
  "(bytes \<Rightarrow> bytes \<Rightarrow> bytes \<Rightarrow> bytes) \<Rightarrow> bool \<Rightarrow> bytes \<Rightarrow> bytes \<Rightarrow> bytes \<Rightarrow> bytes" where
  "vec_perm vperm le a b c =
     (if le then
        (let d = replicate 16 255;
             d = vec_xor c d
         in builtin_vperm vperm le b a d)
      else builtin_vperm vperm le a b c)"

definition vec_vperm ::
  "(bytes \<Rightarrow> bytes \<Rightarrow> bytes \<Rightarrow> bytes) \<Rightarrow> bool \<Rightarrow> bytes \<Rightarrow> bytes \<Rightarrow> bytes \<Rightarrow> bytes" where
  "vec_vperm vperm le a b c = vec_perm vperm le a b c"

definition vec_mergeh_b ::
  "(bytes \<Rightarrow> bytes \<Rightarrow> bytes \<Rightarrow> bytes) \<Rightarrow> bool \<Rightarrow> bytes \<Rightarrow> bytes \<Rightarrow> bytes" where
  "vec_mergeh_b vperm le a b = vec_perm vperm le a b
     [0x00, 0x10, 0x01, 0x11, 0x02, 0x12, 0x03, 0x13,
      0x04, 0x14, 0x05, 0x15, 0x06, 0x16, 0x07, 0x17]"

definition vec_mergeh_h ::
  "(bytes \<Rightarrow> bytes \<Rightarrow> bytes \<Rightarrow> bytes) \<Rightarrow> bool \<Rightarrow> bytes \<Rightarrow> bytes \<Rightarrow> bytes" where
  "vec_mergeh_h vperm le a b = vec_perm vperm le a b
     [0x00, 0x01, 0x10, 0x11, 0x02, 0x03, 0x12, 0x13,
      0x04, 0x05, 0x14, 0x15, 0x06, 0x07, 0x16, 0x17]"

definition vec_mergeh_w ::
  "(bytes \<Rightarrow> bytes \<Rightarrow> bytes \<Rightarrow> bytes) \<Rightarrow> bool \<Rightarrow> bytes \<Rightarrow> bytes \<Rightarrow> bytes" where
  "vec_mergeh_w vperm le a b = vec_perm vperm le a b
     [0x00, 0x01, 0x02, 0x03, 0x10, 0x11, 0x12, 0x13,
      0x04, 0x05, 0x06, 0x07, 0x14, 0x15, 0x16, 0x17]"

definition vec_mergeh_d ::
  "(bytes \<Rightarrow> bytes \<Rightarrow> bytes \<Rightarrow> bytes) \<Rightarrow> bool \<Rightarrow> bytes \<Rightarrow> bytes \<Rightarrow> bytes" where
  "vec_mergeh_d vperm le a b = vec_perm vperm le a b
     [0x00, 0x01, 0x02, 0x03, 0x04, 0x05, 0x06, 0x07,
      0x10, 0x11, 0x12, 0x13, 0x14, 0x15, 0x16, 0x17]"

definition vec_vmrghb ::
  "(bytes \<Rightarrow> bytes \<Rightarrow> bytes \<Rightarrow> bytes) \<Rightarrow> bool \<Rightarrow> bytes \<Rightarrow> bytes \<Rightarrow> bytes" where
  "vec_vmrghb vperm le a b = vec_perm vperm le a b
     [0x00, 0x10, 0x01, 0x11, 0x02, 0x12, 0x03, 0x13,
      0x04, 0x14, 0x05, 0x15, 0x06, 0x16, 0x07, 0x17]"

definition vec_vmrghh ::
  "(bytes \<Rightarrow> bytes \<Rightarrow> bytes \<Rightarrow> bytes) \<Rightarrow> bool \<Rightarrow> bytes \<Rightarrow> bytes \<Rightarrow> bytes" where
  "vec_vmrghh vperm le a b = vec_perm vperm le a b
     [0x00, 0x01, 0x10, 0x11, 0x02, 0x03, 0x12, 0x13,
      0x04, 0x05, 0x14, 0x15, 0x06, 0x07, 0x16, 0x17]"

definition vec_vmrghw ::
  "(bytes \<Rightarrow> bytes \<Rightarrow> bytes \<Rightarrow> bytes) \<Rightarrow> bool \<Rightarrow> bytes \<Rightarrow> bytes \<Rightarrow> bytes" where
  "vec_vmrghw vperm le a b = vec_perm vperm le a b
     [0x00, 0x01, 0x02, 0x03, 0x10, 0x11, 0x12, 0x13,
      0x04, 0x05, 0x06, 0x07, 0x14, 0x15, 0x16, 0x17]"

definition vec_mergel_b ::
  "(bytes \<Rightarrow> bytes \<Rightarrow> bytes \<Rightarrow> bytes) \<Rightarrow> bool \<Rightarrow> bytes \<Rightarrow> bytes \<Rightarrow> bytes" where
  "vec_mergel_b vperm le a b = vec_perm vperm le a b
     [0x08, 0x18, 0x09, 0x19, 0x0A, 0x1A, 0x0B, 0x1B,
      0x0C, 0x1C, 0x0D, 0x1D, 0x0E, 0x1E, 0x0F, 0x1F]"

definition vec_mergel_h ::
  "(bytes \<Rightarrow> bytes \<Rightarrow> bytes \<Rightarrow> bytes) \<Rightarrow> bool \<Rightarrow> bytes \<Rightarrow> bytes \<Rightarrow> bytes" where
  "vec_mergel_h vperm le a b = vec_perm vperm le a b
     [0x08, 0x09, 0x18, 0x19, 0x0A, 0x0B, 0x1A, 0x1B,
      0x0C, 0x0D, 0x1C, 0x1D, 0x0E, 0x0F, 0x1E, 0x1F]"

definition vec_mergel_w ::
  "(bytes \<Rightarrow> bytes \<Rightarrow> bytes \<Rightarrow> bytes) \<Rightarrow> bool \<Rightarrow> bytes \<Rightarrow> bytes \<Rightarrow> bytes" where
  "vec_mergel_w vperm le a b = vec_perm vperm le a b
     [0x08, 0x09, 0x0A, 0x0B, 0x18, 0x19, 0x1A, 0x1B,
      0x0C, 0x0D, 0x0E, 0x0F, 0x1C, 0x1D, 0x1E, 0x1F]"

definition vec_mergel_d ::
  "(bytes \<Rightarrow> bytes \<Rightarrow> bytes \<Rightarrow> bytes) \<Rightarrow> bool \<Rightarrow> bytes \<Rightarrow> bytes \<Rightarrow> bytes" where
  "vec_mergel_d vperm le a b = vec_perm vperm le a b
     [0x08, 0x09, 0x0A, 0x0B, 0x0C, 0x0D, 0x0E, 0x0F,
      0x18, 0x19, 0x1A, 0x1B, 0x1C, 0x1D, 0x1E, 0x1F]"

definition vec_vmrglb ::
  "(bytes \<Rightarrow> bytes \<Rightarrow> bytes \<Rightarrow> bytes) \<Rightarrow> bool \<Rightarrow> bytes \<Rightarrow> bytes \<Rightarrow> bytes" where
  "vec_vmrglb vperm le a b = vec_perm vperm le a b
     [0x08, 0x18, 0x09, 0x19, 0x0A, 0x1A, 0x0B, 0x1B,
      0x0C, 0x1C, 0x0D, 0x1D, 0x0E, 0x1E, 0x0F, 0x1F]"

definition vec_vmrglh ::
  "(bytes \<Rightarrow> bytes \<Rightarrow> bytes \<Rightarrow> bytes) \<Rightarrow> bool \<Rightarrow> bytes \<Rightarrow> bytes \<Rightarrow> bytes" where
  "vec_vmrglh vperm le a b = vec_perm vperm le a b
     [0x08, 0x09, 0x18, 0x19, 0x0A, 0x0B, 0x1A, 0x1B,
      0x0C, 0x0D, 0x1C, 0x1D, 0x0E, 0x0F, 0x1E, 0x1F]"

definition vec_vmrglw ::
  "(bytes \<Rightarrow> bytes \<Rightarrow> bytes \<Rightarrow> bytes) \<Rightarrow> bool \<Rightarrow> bytes \<Rightarrow> bytes \<Rightarrow> bytes" where
  "vec_vmrglw vperm le a b = vec_perm vperm le a b
     [0x08, 0x09, 0x0A, 0x0B, 0x18, 0x19, 0x1A, 0x1B,
      0x0C, 0x0D, 0x0E, 0x0F, 0x1C, 0x1D, 0x1E, 0x1F]"

definition vec_mergee_w ::
  "(bytes \<Rightarrow> bytes \<Rightarrow> bytes \<Rightarrow> bytes) \<Rightarrow> bool \<Rightarrow> bytes \<Rightarrow> bytes \<Rightarrow> bytes" where
  "vec_mergee_w vperm le a b = vec_perm vperm le a b
     [0x00, 0x01, 0x02, 0x03, 0x10, 0x11, 0x12, 0x13,
      0x08, 0x09, 0x0A, 0x0B, 0x18, 0x19, 0x1A, 0x1B]"

definition vec_mergee_d ::
  "(bytes \<Rightarrow> bytes \<Rightarrow> bytes \<Rightarrow> bytes) \<Rightarrow> bool \<Rightarrow> bytes \<Rightarrow> bytes \<Rightarrow> bytes" where
  "vec_mergee_d vperm le a b = vec_mergeh_d vperm le a b"

definition vec_mergeo_w ::
  "(bytes \<Rightarrow> bytes \<Rightarrow> bytes \<Rightarrow> bytes) \<Rightarrow> bool \<Rightarrow> bytes \<Rightarrow> bytes \<Rightarrow> bytes" where
  "vec_mergeo_w vperm le a b = vec_perm vperm le a b
     [0x04, 0x05, 0x06, 0x07, 0x14, 0x15, 0x16, 0x17,
      0x0C, 0x0D, 0x0E, 0x0F, 0x1C, 0x1D, 0x1E, 0x1F]"

definition vec_mergeo_d ::
  "(bytes \<Rightarrow> bytes \<Rightarrow> bytes \<Rightarrow> bytes) \<Rightarrow> bool \<Rightarrow> bytes \<Rightarrow> bytes \<Rightarrow> bytes" where
  "vec_mergeo_d vperm le a b = vec_mergel_d vperm le a b"

definition vec_pack_h ::
  "(bytes \<Rightarrow> bytes \<Rightarrow> bytes \<Rightarrow> bytes) \<Rightarrow> bool \<Rightarrow> bytes \<Rightarrow> bytes \<Rightarrow> bytes" where
  "vec_pack_h vperm le a b =
     (if le then vec_perm vperm le a b
       [0x00, 0x02, 0x04, 0x06, 0x08, 0x0A, 0x0C, 0x0E,
        0x10, 0x12, 0x14, 0x16, 0x18, 0x1A, 0x1C, 0x1E]
      else vec_perm vperm le a b
       [0x01, 0x03, 0x05, 0x07, 0x09, 0x0B, 0x0D, 0x0F,
        0x11, 0x13, 0x15, 0x17, 0x19, 0x1B, 0x1D, 0x1F])"

definition vec_pack_w ::
  "(bytes \<Rightarrow> bytes \<Rightarrow> bytes \<Rightarrow> bytes) \<Rightarrow> bool \<Rightarrow> bytes \<Rightarrow> bytes \<Rightarrow> bytes" where
  "vec_pack_w vperm le a b =
     (if le then vec_perm vperm le a b
       [0x00, 0x01, 0x04, 0x05, 0x08, 0x09, 0x0C, 0x0D,
        0x10, 0x11, 0x14, 0x15, 0x18, 0x19, 0x1C, 0x1D]
      else vec_perm vperm le a b
       [0x02, 0x03, 0x06, 0x07, 0x0A, 0x0B, 0x0E, 0x0F,
        0x12, 0x13, 0x16, 0x17, 0x1A, 0x1B, 0x1E, 0x1F])"

definition vec_pack_d ::
  "(bytes \<Rightarrow> bytes \<Rightarrow> bytes \<Rightarrow> bytes) \<Rightarrow> bool \<Rightarrow> bytes \<Rightarrow> bytes \<Rightarrow> bytes" where
  "vec_pack_d vperm le a b =
     (if le then vec_perm vperm le a b
       [0x00, 0x01, 0x02, 0x03, 0x08, 0x09, 0x0A, 0x0B,
        0x10, 0x11, 0x12, 0x13, 0x18, 0x19, 0x1A, 0x1B]
      else vec_perm vperm le a b
       [0x04, 0x05, 0x06, 0x07, 0x0C, 0x0D, 0x0E, 0x0F,
        0x14, 0x15, 0x16, 0x17, 0x1C, 0x1D, 0x1E, 0x1F])"

definition vec_vpkuhum ::
  "(bytes \<Rightarrow> bytes \<Rightarrow> bytes \<Rightarrow> bytes) \<Rightarrow> bool \<Rightarrow> bytes \<Rightarrow> bytes \<Rightarrow> bytes" where
  "vec_vpkuhum vperm le a b =
     (if le then vec_perm vperm le a b
       [0x00, 0x02, 0x04, 0x06, 0x08, 0x0A, 0x0C, 0x0E,
        0x10, 0x12, 0x14, 0x16, 0x18, 0x1A, 0x1C, 0x1E]
      else vec_perm vperm le a b
       [0x01, 0x03, 0x05, 0x07, 0x09, 0x0B, 0x0D, 0x0F,
        0x11, 0x13, 0x15, 0x17, 0x19, 0x1B, 0x1D, 0x1F])"

definition vec_vpkuwum ::
  "(bytes \<Rightarrow> bytes \<Rightarrow> bytes \<Rightarrow> bytes) \<Rightarrow> bool \<Rightarrow> bytes \<Rightarrow> bytes \<Rightarrow> bytes" where
  "vec_vpkuwum vperm le a b =
     (if le then vec_perm vperm le a b
       [0x00, 0x01, 0x04, 0x05, 0x08, 0x09, 0x0C, 0x0D,
        0x10, 0x11, 0x14, 0x15, 0x18, 0x19, 0x1C, 0x1D]
      else vec_perm vperm le a b
       [0x02, 0x03, 0x06, 0x07, 0x0A, 0x0B, 0x0E, 0x0F,
        0x12, 0x13, 0x16, 0x17, 0x1A, 0x1B, 0x1E, 0x1F])"

definition vec_vpkudum ::
  "(bytes \<Rightarrow> bytes \<Rightarrow> bytes \<Rightarrow> bytes) \<Rightarrow> bool \<Rightarrow> bytes \<Rightarrow> bytes \<Rightarrow> bytes" where
  "vec_vpkudum vperm le a b =
     (if le then vec_perm vperm le a b
       [0x00, 0x01, 0x02, 0x03, 0x08, 0x09, 0x0A, 0x0B,
        0x10, 0x11, 0x12, 0x13, 0x18, 0x19, 0x1A, 0x1B]
      else vec_perm vperm le a b
       [0x04, 0x05, 0x06, 0x07, 0x0C, 0x0D, 0x0E, 0x0F,
        0x14, 0x15, 0x16, 0x17, 0x1C, 0x1D, 0x1E, 0x1F])"

definition vec_sld ::
  "(bytes \<Rightarrow> bytes \<Rightarrow> bytes \<Rightarrow> bytes) \<Rightarrow> bool \<Rightarrow> bytes \<Rightarrow> bytes \<Rightarrow> 32 word \<Rightarrow> bytes" where
  "vec_sld vperm le a b c =
     (let d = ucast (c AND 0x0F) :: 8 word
      in if le then vec_perm vperm le b a
           [16 - d, 17 - d, 18 - d, 19 - d, 20 - d, 21 - d, 22 - d, 23 - d,
            24 - d, 25 - d, 26 - d, 27 - d, 28 - d, 29 - d, 30 - d, 31 - d]
         else vec_perm vperm le a b
           [d, d + 1, d + 2, d + 3, d + 4, d + 5, d + 6, d + 7,
            d + 8, d + 9, d + 10, d + 11, d + 12, d + 13, d + 14, d + 15])"

definition vec_sldw ::
  "(bytes \<Rightarrow> bytes \<Rightarrow> bytes \<Rightarrow> bytes) \<Rightarrow> bool \<Rightarrow> bytes \<Rightarrow> bytes \<Rightarrow> 32 word \<Rightarrow> bytes" where
  "vec_sldw vperm le a b c = vec_sld vperm le a b (push_bit 2 c AND 0x0F)"

definition vec_vsldoi ::
  "(bytes \<Rightarrow> bytes \<Rightarrow> bytes \<Rightarrow> bytes) \<Rightarrow> bool \<Rightarrow> bytes \<Rightarrow> bytes \<Rightarrow> 8 word \<Rightarrow> bytes" where
  "vec_vsldoi vperm le a b c =
     (let d = c AND 0x0F :: 8 word
      in if le then vec_perm vperm le b a
           [16 - d, 17 - d, 18 - d, 19 - d, 20 - d, 21 - d, 22 - d, 23 - d,
            24 - d, 25 - d, 26 - d, 27 - d, 28 - d, 29 - d, 30 - d, 31 - d]
         else vec_perm vperm le a b
           [d, d + 1, d + 2, d + 3, d + 4, d + 5, d + 6, d + 7,
            d + 8, d + 9, d + 10, d + 11, d + 12, d + 13, d + 14, d + 15])"

definition vec_splat_b ::
  "(bytes \<Rightarrow> bytes \<Rightarrow> bytes \<Rightarrow> bytes) \<Rightarrow> bool \<Rightarrow> bytes \<Rightarrow> 32 word \<Rightarrow> bytes" where
  "vec_splat_b vperm le a b = vec_perm vperm le a a (replicate 16 (ucast (b AND 0x0F)))"

definition vec_splat_h ::
  "(bytes \<Rightarrow> bytes \<Rightarrow> bytes \<Rightarrow> bytes) \<Rightarrow> bool \<Rightarrow> bytes \<Rightarrow> 32 word \<Rightarrow> bytes" where
  "vec_splat_h vperm le a b =
     (let b0 = ucast ((b AND 0x07) * 2) :: 8 word;
          b1 = b0 + 1
      in vec_perm vperm le a a
        [b0, b1, b0, b1, b0, b1, b0, b1,
         b0, b1, b0, b1, b0, b1, b0, b1])"

definition vec_splat_w ::
  "(bytes \<Rightarrow> bytes \<Rightarrow> bytes \<Rightarrow> bytes) \<Rightarrow> bool \<Rightarrow> bytes \<Rightarrow> 32 word \<Rightarrow> bytes" where
  "vec_splat_w vperm le a b =
     (let b0 = ucast ((b AND 0x03) * 4) :: 8 word;
          b1 = b0 + 1;
          b2 = b0 + 2;
          b3 = b0 + 3
      in vec_perm vperm le a a
        [b0, b1, b2, b3, b0, b1, b2, b3,
         b0, b1, b2, b3, b0, b1, b2, b3])"

definition vec_splat_d ::
  "(bytes \<Rightarrow> bytes \<Rightarrow> bytes \<Rightarrow> bytes) \<Rightarrow> bool \<Rightarrow> bytes \<Rightarrow> 32 word \<Rightarrow> bytes" where
  "vec_splat_d vperm le a b =
     (let b0 = ucast ((b AND 0x01) * 8) :: 8 word;
          b1 = b0 + 1;
          b2 = b0 + 2;
          b3 = b0 + 3;
          b4 = b0 + 4;
          b5 = b0 + 5;
          b6 = b0 + 6;
          b7 = b0 + 7
      in vec_perm vperm le a a
        [b0, b1, b2, b3, b4, b5, b6, b7,
         b0, b1, b2, b3, b4, b5, b6, b7])"

definition vec_vspltb ::
  "(bytes \<Rightarrow> bytes \<Rightarrow> bytes \<Rightarrow> bytes) \<Rightarrow> bool \<Rightarrow> bytes \<Rightarrow> 8 word \<Rightarrow> bytes" where
  "vec_vspltb vperm le a b = vec_perm vperm le a a (replicate 16 b)"

definition vec_vsplth ::
  "(bytes \<Rightarrow> bytes \<Rightarrow> bytes \<Rightarrow> bytes) \<Rightarrow> bool \<Rightarrow> bytes \<Rightarrow> 8 word \<Rightarrow> bytes" where
  "vec_vsplth vperm le a b =
     (let b0 = b * 2 :: 8 word;
          b1 = b0 + 1
      in vec_perm vperm le a a
        [b0, b1, b0, b1, b0, b1, b0, b1,
         b0, b1, b0, b1, b0, b1, b0, b1])"

definition vec_vspltw ::
  "(bytes \<Rightarrow> bytes \<Rightarrow> bytes \<Rightarrow> bytes) \<Rightarrow> bool \<Rightarrow> bytes \<Rightarrow> 8 word \<Rightarrow> bytes" where
  "vec_vspltw vperm le a b =
     (let b0 = b * 4 :: 8 word;
          b1 = b0 + 1;
          b2 = b0 + 2;
          b3 = b0 + 3
      in vec_perm vperm le a a
        [b0, b1, b2, b3, b0, b1, b2, b3,
         b0, b1, b2, b3, b0, b1, b2, b3])"

definition vec_revb_b :: "bytes \<Rightarrow> bytes" where
  "vec_revb_b a = a"

definition vec_revb_h ::
  "(bytes \<Rightarrow> bytes \<Rightarrow> bytes \<Rightarrow> bytes) \<Rightarrow> bool \<Rightarrow> bytes \<Rightarrow> bytes" where
  "vec_revb_h vperm le a =
     (let indices = [1, 0, 3, 2, 5, 4, 7, 6, 9, 8, 11, 10, 13, 12, 15, 14]
      in vec_perm vperm le a a indices)"

definition vec_revb_w ::
  "(bytes \<Rightarrow> bytes \<Rightarrow> bytes \<Rightarrow> bytes) \<Rightarrow> bool \<Rightarrow> bytes \<Rightarrow> bytes" where
  "vec_revb_w vperm le a =
     (let indices = [3, 2, 1, 0, 7, 6, 5, 4, 11, 10, 9, 8, 15, 14, 13, 12]
      in vec_perm vperm le a a indices)"

definition vec_revb_d ::
  "(bytes \<Rightarrow> bytes \<Rightarrow> bytes \<Rightarrow> bytes) \<Rightarrow> bool \<Rightarrow> bytes \<Rightarrow> bytes" where
  "vec_revb_d vperm le a =
     (let indices = [7, 6, 5, 4, 3, 2, 1, 0, 15, 14, 13, 12, 11, 10, 9, 8]
      in vec_perm vperm le a a indices)"

definition vec_revb_q ::
  "(bytes \<Rightarrow> bytes \<Rightarrow> bytes \<Rightarrow> bytes) \<Rightarrow> bool \<Rightarrow> bytes \<Rightarrow> bytes" where
  "vec_revb_q vperm le a =
     (let indices = [15, 14, 13, 12, 11, 10, 9, 8, 7, 6, 5, 4, 3, 2, 1, 0]
      in vec_perm vperm le a a indices)"

section \<open>Reference notions\<close>

text \<open>What the instruction set promises of the builtins.\<close>

definition vperm_law :: "(bytes \<Rightarrow> bytes \<Rightarrow> bytes \<Rightarrow> bytes) \<Rightarrow> bool" where
  "vperm_law vperm \<longleftrightarrow>
     (\<forall>A B C. length A = 16 \<longrightarrow> length B = 16 \<longrightarrow> length C = 16 \<longrightarrow>
        vperm A B C = map (\<lambda>c. (A @ B) ! (unat c mod 32)) C)"

definition lane_law :: "('a \<Rightarrow> 'a \<Rightarrow> 'a) \<Rightarrow> ('a list \<Rightarrow> 'a list \<Rightarrow> 'a list) \<Rightarrow> bool" where
  "lane_law f v \<longleftrightarrow> (\<forall>a b. length a = length b \<longrightarrow> v a b = map2 f a b)"

definition mask_of ::
  "('a::len word \<Rightarrow> 'a word \<Rightarrow> bool) \<Rightarrow> 'a word \<Rightarrow> 'a word \<Rightarrow> 'a word" where
  "mask_of p x y = (if p x y then - 1 else 0)"

definition isa_vperm :: "bytes \<Rightarrow> bytes \<Rightarrow> bytes \<Rightarrow> bytes" where
  "isa_vperm A B C = map (\<lambda>c. (A @ B) ! (unat c mod 32)) C"

text \<open>The elements of a vector of \<open>n\<close>-byte lanes, and the alternation of two lists.\<close>

definition chunks :: "nat \<Rightarrow> 'a list \<Rightarrow> 'a list list" where
  "chunks n v = map (\<lambda>i. take n (drop (n * i) v)) [0..<length v div n]"

fun interleave :: "'a list \<Rightarrow> 'a list \<Rightarrow> 'a list" where
  "interleave (x # xs) (y # ys) = x # y # interleave xs ys"
| "interleave xs ys = []"

text \<open>The value of one element: its bytes read in the target's order.\<close>

definition lane_value :: "bool \<Rightarrow> bytes \<Rightarrow> 'a::len word" where
  "lane_value le bs = word_rcat (reg le bs)"

definition lanes :: "bool \<Rightarrow> nat \<Rightarrow> bytes \<Rightarrow> 'a::len word list" where
  "lanes le n v = map (lane_value le) (chunks n v)"

lemma isa_vperm_law: "vperm_law isa_vperm"
  by (simp add: vperm_law_def isa_vperm_def)

lemma vperm_lawD:
  "\<lbrakk>vperm_law vperm; length A = 16; length B = 16; length C = 16\<rbrakk>
    \<Longrightarrow> vperm A B C = map (\<lambda>c. (A @ B) ! (unat c mod 32)) C"
  by (simp add: vperm_law_def)

lemma length_reg [simp]: "length (reg le v) = length v"
  by (simp add: reg_def)

lemma reg_reg [simp]: "reg le (reg le v) = v"
  by (simp add: reg_def)

lemma list16:
  assumes "length a = 16"
  obtains a0 a1 a2 a3 a4 a5 a6 a7 a8 a9 aA aB aC aD aE aF where
    "a = [a0, a1, a2, a3, a4, a5, a6, a7, a8, a9, aA, aB, aC, aD, aE, aF]"
  using assms by (auto simp: numeral_eq_Suc length_Suc_conv)

lemma list4:
  assumes "length a = 4"
  obtains a0 a1 a2 a3 where "a = [a0, a1, a2, a3]"
  using assms by (auto simp: numeral_eq_Suc length_Suc_conv)

lemma mod_32_complement:
  assumes "n < 256"
  shows "(255 - n) mod 32 = 31 - n mod (32 :: nat)"
proof -
  have "n mod 32 < 32" "n = 32 * (n div 32) + n mod 32" by simp_all
  moreover have "n div 32 \<le> 7" using assms by linarith
  ultimately have "255 - n = 32 * (7 - n div 32) + (31 - n mod 32)" by linarith
  also have "\<dots> mod 32 = 31 - n mod 32" by (simp only: mod_mult_self4) simp
  finally show ?thesis .
qed

lemma unat_xor_ff_mod: "unat ((c :: 8 word) XOR 255) mod 32 = 31 - unat c mod 32"
proof -
  have all_ones: "(255 :: 8 word) = - 1" by simp
  have "c XOR 255 = 255 - c"
    unfolding all_ones by (simp only: bit.xor_one_right not_eq_complement diff_conv_add_uminus add.commute)
  moreover have "unat (255 - c) = unat (255 :: 8 word) - unat c"
    by (rule unat_sub) (unfold all_ones, rule word_order.extremum)
  moreover have "unat c < 2 ^ LENGTH(8)" by (rule unsigned_less)
  then have "unat c < 256" by simp
  then have "(255 - unat c) mod 32 = 31 - unat c mod 32" by (rule mod_32_complement)
  ultimately show ?thesis by simp
qed

section \<open>The permutation is endian-neutral\<close>

lemma vec_perm_table:
  assumes "vperm_law vperm" "length a = 16" "length b = 16" "length c = 16"
  shows "vec_perm vperm le a b c = map (\<lambda>k. (a @ b) ! (unat k mod 32)) c"
proof -
  have nth: "(rev b @ rev a) ! (31 - n) = (a @ b) ! n" if "n < 32" for n
    using that assms rev_nth [of "31 - n" "a @ b"] by simp
  have "map (\<lambda>k. (rev b @ rev a) ! (unat (k XOR 255) mod 32)) c = map (\<lambda>k. (a @ b) ! (unat k mod 32)) c"
    by (rule map_cong) (simp_all only: unat_xor_ff_mod nth mod_less_divisor zero_less_numeral)
  then show ?thesis using assms
    by (cases le)
      (simp_all add: vec_perm_def builtin_vperm_def reg_def vperm_lawD rev_map vec_xor_def
        zip_replicate2 split_def)
qed

text \<open>
  C39. \<open>vec_perm\<close> gives the same memory-order result on both targets: byte \<open>i\<close> of the result
  is byte \<open>c!i mod 32\<close> of the concatenation of \<open>a\<close> and \<open>b\<close> in memory order.  On a
  little-endian target the operands are swapped and every selector complemented, which is
  what cancels the reversed register numbering.
\<close>

theorem vec_perm_endian_neutral:
  assumes "vperm_law vperm" "length a = 16" "length b = 16" "length c = 16"
  shows "vec_perm vperm True a b c = vec_perm vperm False a b c
    \<and> vec_perm vperm True a b c = map (\<lambda>k. (a @ b) ! (unat k mod 32)) c
    \<and> vec_vperm vperm True a b c = vec_vperm vperm False a b c"
  using assms by (simp add: vec_perm_table vec_vperm_def)

lemma vec_perm_endian_neutral_witness:
  "vec_perm isa_vperm False [0,1,2,3,4,5,6,7,8,9,10,11,12,13,14,15]
     [16,17,18,19,20,21,22,23,24,25,26,27,28,29,30,31]
     [0,16,1,17,2,18,3,19,31,31,31,31,255,32,33,30]
   = [0,16,1,17,2,18,3,19,31,31,31,31,31,0,1,30]"
  by (subst vec_perm_endian_neutral [OF isa_vperm_law, THEN conjunct1, symmetric],
      simp, simp, simp,
      subst vec_perm_endian_neutral [OF isa_vperm_law, THEN conjunct2, THEN conjunct1]) simp_all

lemmas chunk_defs = chunks_def upt_rec

section \<open>Merging, packing and shifting\<close>

lemma mergeh_elements:
  assumes "vperm_law vperm" "length a = 16" "length b = 16"
  shows "chunks 1 (vec_mergeh_b vperm le a b) = interleave (take 8 (chunks 1 a)) (take 8 (chunks 1 b))"
    and "chunks 2 (vec_mergeh_h vperm le a b) = interleave (take 4 (chunks 2 a)) (take 4 (chunks 2 b))"
    and "chunks 4 (vec_mergeh_w vperm le a b) = interleave (take 2 (chunks 4 a)) (take 2 (chunks 4 b))"
    and "chunks 8 (vec_mergeh_d vperm le a b) = interleave (take 1 (chunks 8 a)) (take 1 (chunks 8 b))"
  using assms
  by (auto elim!: list16 simp: vec_mergeh_b_def vec_mergeh_h_def vec_mergeh_w_def vec_mergeh_d_def
      vec_perm_table chunk_defs)

lemma mergel_elements:
  assumes "vperm_law vperm" "length a = 16" "length b = 16"
  shows "chunks 1 (vec_mergel_b vperm le a b) = interleave (drop 8 (chunks 1 a)) (drop 8 (chunks 1 b))"
    and "chunks 2 (vec_mergel_h vperm le a b) = interleave (drop 4 (chunks 2 a)) (drop 4 (chunks 2 b))"
    and "chunks 4 (vec_mergel_w vperm le a b) = interleave (drop 2 (chunks 4 a)) (drop 2 (chunks 4 b))"
    and "chunks 8 (vec_mergel_d vperm le a b) = interleave (drop 1 (chunks 8 a)) (drop 1 (chunks 8 b))"
  using assms
  by (auto elim!: list16 simp: vec_mergel_b_def vec_mergel_h_def vec_mergel_w_def vec_mergel_d_def
      vec_perm_table chunk_defs)

lemma merge_even_odd_elements:
  assumes "vperm_law vperm" "length a = 16" "length b = 16"
  shows "chunks 4 (vec_mergee_w vperm le a b) = [chunks 4 a ! 0, chunks 4 b ! 0, chunks 4 a ! 2, chunks 4 b ! 2]"
    and "chunks 4 (vec_mergeo_w vperm le a b) = [chunks 4 a ! 1, chunks 4 b ! 1, chunks 4 a ! 3, chunks 4 b ! 3]"
  using assms
  by (auto elim!: list16 simp: vec_mergee_w_def vec_mergeo_w_def vec_perm_table chunk_defs)

text \<open>
  The high and the low merge interleave the first and the second halves of the operands,
  element by element, for bytes, halfwords, words and doublewords and on both targets: their
  sixteen-entry selector tables encode exactly that, and the even and odd merges of
  doublewords are the high and the low merge.
\<close>

lemma vec_merge_interleaves:
  assumes "vperm_law vperm" "length a = 16" "length b = 16"
  shows "chunks 1 (vec_mergeh_b vperm le a b) = interleave (take 8 (chunks 1 a)) (take 8 (chunks 1 b))
    \<and> chunks 2 (vec_mergeh_h vperm le a b) = interleave (take 4 (chunks 2 a)) (take 4 (chunks 2 b))
    \<and> chunks 4 (vec_mergeh_w vperm le a b) = interleave (take 2 (chunks 4 a)) (take 2 (chunks 4 b))
    \<and> chunks 8 (vec_mergee_d vperm le a b) = interleave (take 1 (chunks 8 a)) (take 1 (chunks 8 b))
    \<and> chunks 1 (vec_mergel_b vperm le a b) = interleave (drop 8 (chunks 1 a)) (drop 8 (chunks 1 b))
    \<and> chunks 2 (vec_mergel_h vperm le a b) = interleave (drop 4 (chunks 2 a)) (drop 4 (chunks 2 b))
    \<and> chunks 4 (vec_mergel_w vperm le a b) = interleave (drop 2 (chunks 4 a)) (drop 2 (chunks 4 b))
    \<and> chunks 8 (vec_mergeo_d vperm le a b) = interleave (drop 1 (chunks 8 a)) (drop 1 (chunks 8 b))
    \<and> chunks 4 (vec_mergee_w vperm le a b) = [chunks 4 a ! 0, chunks 4 b ! 0, chunks 4 a ! 2, chunks 4 b ! 2]
    \<and> chunks 4 (vec_mergeo_w vperm le a b) = [chunks 4 a ! 1, chunks 4 b ! 1, chunks 4 a ! 3, chunks 4 b ! 3]"
  unfolding vec_mergee_d_def vec_mergeo_d_def
  by (intro conjI mergeh_elements mergel_elements merge_even_odd_elements assms)

lemma vec_merge_interleaves_witness:
  "chunks 4 (vec_mergeh_w isa_vperm True [0,1,2,3,4,5,6,7,8,9,10,11,12,13,14,15]
       [16,17,18,19,20,21,22,23,24,25,26,27,28,29,30,31])
   = [[0,1,2,3], [16,17,18,19], [4,5,6,7], [20,21,22,23]]"
  by (subst vec_merge_interleaves [OF isa_vperm_law, THEN conjunct2, THEN conjunct2, THEN conjunct1])
    (simp_all add: chunk_defs)

lemma ucast_rcat_low:
  fixes xs ys :: "8 word list"
  assumes "LENGTH('c) = 8 * length ys" "LENGTH('c) \<le> LENGTH('b)"
  shows "ucast (word_rcat (xs @ ys) :: 'b::len word) = (word_rcat ys :: 'c::len word)"
    (is "?l = ?r")
proof (rule bit_word_eqI)
  have byte_sum: "bit (horner_sum uint 256 ws) n \<longleftrightarrow> n div 8 < length ws \<and> bit (ws ! (n div 8)) (n mod 8)"
    for ws :: "8 word list" and n
    using bit_horner_sum_uint_exp_iff [of ws n] by simp
  fix n assume n: "n < LENGTH('c)"
  then have "n div 8 < length ys" using assms(1) by simp
  then show "bit ?l n \<longleftrightarrow> bit ?r n"
    using n assms
    by (simp add: word_rcat_def bit_unsigned_iff bit_word_of_int_iff byte_sum nth_append)
qed

lemma lane_value_low:
  assumes "LENGTH('c) = 8 * length lo" "LENGTH('c) \<le> LENGTH('b)"
  shows "ucast (lane_value True (lo @ hi) :: 'b::len word) = (lane_value True lo :: 'c::len word)"
    and "ucast (lane_value False (hi @ lo) :: 'b word) = (lane_value False lo :: 'c word)"
  using assms by (simp_all add: lane_value_def reg_def ucast_rcat_low)

lemma lane_value_low_4:
  fixes x y z w :: "8 word"
  shows "ucast (lane_value True [x, y] :: 16 word) = (lane_value True [x] :: 8 word)"
    and "ucast (lane_value False [x, y] :: 16 word) = (lane_value False [y] :: 8 word)"
    and "ucast (lane_value True [x, y, z, w] :: 32 word) = (lane_value True [x, y] :: 16 word)"
    and "ucast (lane_value False [x, y, z, w] :: 32 word) = (lane_value False [z, w] :: 16 word)"
  using lane_value_low(1) [where 'b = 16 and 'c = 8 and lo = "[x]" and hi = "[y]"]
    lane_value_low(2) [where 'b = 16 and 'c = 8 and lo = "[y]" and hi = "[x]"]
    lane_value_low(1) [where 'b = 32 and 'c = 16 and lo = "[x, y]" and hi = "[z, w]"]
    lane_value_low(2) [where 'b = 32 and 'c = 16 and lo = "[z, w]" and hi = "[x, y]"]
  by simp_all

lemma lane_value_low_8:
  fixes x y z w p q r s :: "8 word"
  shows "ucast (lane_value True [x, y, z, w, p, q, r, s] :: 64 word) = (lane_value True [x, y, z, w] :: 32 word)"
    and "ucast (lane_value False [x, y, z, w, p, q, r, s] :: 64 word) = (lane_value False [p, q, r, s] :: 32 word)"
  using lane_value_low(1) [where 'b = 64 and 'c = 32 and lo = "[x, y, z, w]" and hi = "[p, q, r, s]"]
    lane_value_low(2) [where 'b = 64 and 'c = 32 and lo = "[p, q, r, s]" and hi = "[x, y, z, w]"]
  by simp_all

lemmas pack_defs = vec_pack_h_def vec_pack_w_def vec_pack_d_def
  vec_vpkuhum_def vec_vpkuwum_def vec_vpkudum_def

text \<open>
  The six pack routines truncate: reading the result's elements in the target's byte order
  gives the low half of every element of \<open>a\<close> followed by every element of \<open>b\<close>, on both targets,
  although the two selector tables are different.
\<close>

lemma vec_pack_truncates:
  assumes "vperm_law vperm" "length a = 16" "length b = 16"
  shows "(lanes le 1 (vec_pack_h vperm le a b) :: 8 word list)
      = map ucast (lanes le 2 a @ lanes le 2 b :: 16 word list)
    \<and> (lanes le 2 (vec_pack_w vperm le a b) :: 16 word list)
      = map ucast (lanes le 4 a @ lanes le 4 b :: 32 word list)
    \<and> (lanes le 4 (vec_pack_d vperm le a b) :: 32 word list)
      = map ucast (lanes le 8 a @ lanes le 8 b :: 64 word list)
    \<and> vec_vpkuhum vperm le a b = vec_pack_h vperm le a b
    \<and> vec_vpkuwum vperm le a b = vec_pack_w vperm le a b
    \<and> vec_vpkudum vperm le a b = vec_pack_d vperm le a b"
  using assms
  by (cases le) (auto elim!: list16 simp: pack_defs vec_perm_table lanes_def chunk_defs
      lane_value_low_4 lane_value_low_8)

lemma vec_pack_truncates_witness:
  "(lanes False 1 (vec_pack_h isa_vperm False [1,2,3,4,5,6,7,8,9,10,11,12,13,14,15,16] (replicate 16 7)) :: 8 word list)
   = map ucast (lanes False 2 [1,2,3,4,5,6,7,8,9,10,11,12,13,14,15,16] @ lanes False 2 (replicate 16 7) :: 16 word list)"
  by (rule vec_pack_truncates [OF isa_vperm_law, THEN conjunct1]) simp_all

lemma nat16_cases:
  assumes "n < (16 :: nat)"
  shows "n \<in> {0, 1, 2, 3, 4, 5, 6, 7, 8, 9, 10, 11, 12, 13, 14, 15}"
  using assms by (simp add: numeral_eq_Suc less_Suc_eq)

lemma nibble_cases:
  assumes "unat (d :: 8 word) < 16"
  shows "d \<in> {0, 1, 2, 3, 4, 5, 6, 7, 8, 9, 10, 11, 12, 13, 14, 15}"
proof -
  have "(of_nat (unat d) :: 8 word) \<in> of_nat ` {0, 1, 2, 3, 4, 5, 6, 7, 8, 9, 10, 11, 12, 13, 14, 15}"
    by (rule imageI [OF nat16_cases [OF assms]])
  then show ?thesis by simp
qed

lemma nat_and_low:
  "n AND 15 = n mod (16 :: nat)" "n AND 7 = n mod (8 :: nat)" "n AND 3 = n mod (4 :: nat)"
  "n AND 1 = n mod (2 :: nat)"
  using take_bit_eq_mask [of 4 n] take_bit_eq_mask [of 3 n] take_bit_eq_mask [of 2 n]
    take_bit_eq_mask [of 1 n]
  by (simp_all add: mask_eq_exp_minus_1 take_bit_eq_mod)

lemma low_bits [lane_simps]:
  "unat ((b :: 8 word) AND 15) = unat b mod 16"
  "unat ((c :: 32 word) AND 15) = unat c mod 16"
  "unat ((c :: 32 word) AND 7) = unat c mod 8"
  "unat ((c :: 32 word) AND 3) = unat c mod 4"
  "unat ((c :: 32 word) AND 1) = unat c mod 2"
  by (simp_all add: unsigned_and_eq nat_and_low)

lemma sld_rotates:
  assumes "vperm_law vperm" "length a = 16" "length b = 16" "unat d < 16"
  shows "vec_perm vperm True b a [16 - d, 17 - d, 18 - d, 19 - d, 20 - d, 21 - d, 22 - d, 23 - d,
            24 - d, 25 - d, 26 - d, 27 - d, 28 - d, 29 - d, 30 - d, 31 - d]
      = reg True (take 16 (drop (unat d) (reg True a @ reg True b)))"
    and "vec_perm vperm False a b [d, d + 1, d + 2, d + 3, d + 4, d + 5, d + 6, d + 7,
            d + 8, d + 9, d + 10, d + 11, d + 12, d + 13, d + 14, d + 15]
      = take 16 (drop (unat d) (a @ b))"
  using assms(1-3) nibble_cases [OF assms(4)]
  by (auto elim!: list16 simp: vec_perm_table reg_def)

text \<open>
  \<open>vec_sld\<close> and \<open>vec_vsldoi\<close> shift the 32-byte register concatenation left by the low four
  bits of the count, in register order on both targets, and \<open>vec_sldw\<close> by that many words.
\<close>

lemma vec_sld_shifts_registers:
  assumes "vperm_law vperm" "length a = 16" "length b = 16"
  shows "reg le (vec_sld vperm le a b c) = take 16 (drop (unat c mod 16) (reg le a @ reg le b))
    \<and> reg le (vec_vsldoi vperm le a b d) = take 16 (drop (unat d mod 16) (reg le a @ reg le b))
    \<and> reg le (vec_sldw vperm le a b c) = take 16 (drop (4 * (unat c mod 4)) (reg le a @ reg le b))"
proof -
  have sld: "reg le (vec_sld vperm le a b k) = take 16 (drop (unat k mod 16) (reg le a @ reg le b))" for k
    using sld_rotates [OF assms, of "ucast (k AND 15)"]
    by (cases le) (simp_all add: vec_sld_def Let_def low_bits unsigned_ucast_eq take_bit_eq_mod reg_def)
  moreover have "reg le (vec_vsldoi vperm le a b d) = take 16 (drop (unat d mod 16) (reg le a @ reg le b))"
    using sld_rotates [OF assms, of "d AND 15"]
    by (cases le) (simp_all add: vec_vsldoi_def Let_def low_bits reg_def)
  moreover have "unat (push_bit 2 c AND 15 :: 32 word) mod 16 = 4 * (unat c mod 4)"
    using mult_mod_right [of 4 "unat c" 4] by (simp add: low_bits push_bit_eq_mult unat_word_ariths mod_mod_cancel mult.commute)
  ultimately show ?thesis by (simp add: vec_sldw_def)
qed

lemma vec_sld_shifts_registers_witness:
  "reg True (vec_sld isa_vperm True (replicate 16 1) (replicate 16 2) 19)
   = take 16 (drop 3 (replicate 16 1 @ replicate 16 2))"
  using vec_sld_shifts_registers [OF isa_vperm_law, of "replicate 16 1" "replicate 16 2" True 19 0]
  by (simp add: reg_def)

section \<open>Splats and byte reversal\<close>

lemma nat_small_cases:
  "n < (2 :: nat) \<Longrightarrow> n \<in> {0, 1}"
  "n < (4 :: nat) \<Longrightarrow> n \<in> {0, 1, 2, 3}"
  "n < (8 :: nat) \<Longrightarrow> n \<in> {0, 1, 2, 3, 4, 5, 6, 7}"
  by (simp_all add: numeral_eq_Suc less_Suc_eq)

lemma low_cases:
  "(b :: 32 word) AND 1 \<in> {0, 1}"
  "b AND 3 \<in> {0, 1, 2, 3}"
  "b AND 7 \<in> {0, 1, 2, 3, 4, 5, 6, 7}"
  "b AND 15 \<in> {0, 1, 2, 3, 4, 5, 6, 7, 8, 9, 10, 11, 12, 13, 14, 15}"
proof -
  have *: "w \<in> of_nat ` S" if "unat w \<in> S" for w :: "32 word" and S
    using imageI [OF that, of "of_nat :: nat \<Rightarrow> 32 word"] by simp
  show "b AND 1 \<in> {0, 1}" using * [OF nat_small_cases(1)] by (simp add: low_bits)
  show "b AND 3 \<in> {0, 1, 2, 3}" using * [of "b AND 3", OF nat_small_cases(2)] by (simp add: low_bits)
  show "b AND 7 \<in> {0, 1, 2, 3, 4, 5, 6, 7}"
    using * [of "b AND 7", OF nat_small_cases(3)] by (simp add: low_bits)
  show "b AND 15 \<in> {0, 1, 2, 3, 4, 5, 6, 7, 8, 9, 10, 11, 12, 13, 14, 15}"
    using * [of "b AND 15", OF nat16_cases] by (simp add: low_bits)
qed

lemma replicate_lanes:
  "replicate 2 x = [x, x]" "replicate 4 x = [x, x, x, x]"
  "replicate 8 x = [x, x, x, x, x, x, x, x]"
  "replicate 16 x = [x, x, x, x, x, x, x, x, x, x, x, x, x, x, x, x]"
  by (simp_all add: eval_nat_numeral)

lemma splat_elements:
  assumes "vperm_law vperm" "length a = 16"
  shows "vec_splat_b vperm le a b = replicate 16 (a ! unat (b AND 15))"
    and "chunks 2 (vec_splat_h vperm le a b) = replicate 8 (chunks 2 a ! unat (b AND 7))"
    and "chunks 4 (vec_splat_w vperm le a b) = replicate 4 (chunks 4 a ! unat (b AND 3))"
    and "chunks 8 (vec_splat_d vperm le a b) = replicate 2 (chunks 8 a ! unat (b AND 1))"
proof -
  show "vec_splat_b vperm le a b = replicate 16 (a ! unat (b AND 15))"
    using assms low_cases(4) [of b]
    by (auto elim!: list16 simp: vec_splat_b_def vec_perm_table replicate_lanes)
  show "chunks 2 (vec_splat_h vperm le a b) = replicate 8 (chunks 2 a ! unat (b AND 7))"
    using assms low_cases(3) [of b]
    by (auto elim!: list16 simp: vec_splat_h_def Let_def vec_perm_table chunk_defs replicate_lanes)
  show "chunks 4 (vec_splat_w vperm le a b) = replicate 4 (chunks 4 a ! unat (b AND 3))"
    using assms low_cases(2) [of b]
    by (auto elim!: list16 simp: vec_splat_w_def Let_def vec_perm_table chunk_defs replicate_lanes)
  show "chunks 8 (vec_splat_d vperm le a b) = replicate 2 (chunks 8 a ! unat (b AND 1))"
    using assms low_cases(1) [of b]
    by (auto elim!: list16 simp: vec_splat_d_def Let_def vec_perm_table chunk_defs replicate_lanes)
qed

lemma mod_scaled:
  assumes "k < (m :: nat)" "0 < q"
  shows "(m * n + k) mod (m * q) = m * (n mod q) + k"
proof -
  have "m * (n mod q) + k < m * (n mod q + 1)" using assms by simp
  also have "\<dots> \<le> m * q" using assms by (intro mult_le_mono2) (simp add: Suc_leI)
  finally have lt: "m * (n mod q) + k < m * q" .
  have "m * n + k = m * (q * (n div q) + n mod q) + k" by simp
  also have "\<dots> = m * q * (n div q) + (m * (n mod q) + k)"
    by (simp only: distrib_left mult.assoc add.assoc)
  finally have "(m * n + k) mod (m * q) = (m * (n mod q) + k) mod (m * q)"
    by (simp only: mod_mult_self4)
  then show ?thesis using lt by simp
qed

lemma vsplt_selectors:
  fixes b :: "8 word"
  shows "unat b mod 32 = unat b mod 16 \<or> unat b mod 32 = unat b mod 16 + 16"
    and "unat (b * 2) mod 32 = 2 * (unat b mod 16)"
    and "unat (b * 2 + 1) mod 32 = 2 * (unat b mod 16) + 1"
    and "unat (b * 4) mod 32 = 4 * (unat b mod 8)"
    and "unat (b * 4 + 1) mod 32 = 4 * (unat b mod 8) + 1"
    and "unat (b * 4 + 2) mod 32 = 4 * (unat b mod 8) + 2"
    and "unat (b * 4 + 3) mod 32 = 4 * (unat b mod 8) + 3"
proof -
  have "unat b mod 32 = 16 * (unat b div 16 mod 2) + unat b mod 16"
    using mod_mult2_eq [of "unat b" 16 2] by simp
  then show "unat b mod 32 = unat b mod 16 \<or> unat b mod 32 = unat b mod 16 + 16"
    by (cases "even (unat b div 16)") (simp_all add: odd_iff_mod_2_eq_one)
  have scaled: "unat (b * w + k) mod 32 = (unat w * unat b + unat k) mod 32" for w k :: "8 word"
    by (simp add: unat_word_ariths mod_mod_cancel mod_simps mult.commute)
  show "unat (b * 2) mod 32 = 2 * (unat b mod 16)" "unat (b * 4) mod 32 = 4 * (unat b mod 8)"
    using mod_scaled [of 0 2 16 "unat b"] mod_scaled [of 0 4 8 "unat b"] scaled [of 2 0] scaled [of 4 0]
    by simp_all
  show "unat (b * 2 + 1) mod 32 = 2 * (unat b mod 16) + 1"
    using scaled [of 2 1] mod_scaled [of 1 2 16 "unat b"] by simp
  show "unat (b * 4 + 1) mod 32 = 4 * (unat b mod 8) + 1"
    using scaled [of 4 1] mod_scaled [of 1 4 8 "unat b"] by simp
  show "unat (b * 4 + 2) mod 32 = 4 * (unat b mod 8) + 2"
    using scaled [of 4 2] mod_scaled [of 2 4 8 "unat b"] by simp
  show "unat (b * 4 + 3) mod 32 = 4 * (unat b mod 8) + 3"
    using scaled [of 4 3] mod_scaled [of 3 4 8 "unat b"] by simp
qed

lemma vsplt_elements:
  assumes "vperm_law vperm" "length a = 16"
  shows "vec_vspltb vperm le a b = replicate 16 (a ! (unat b mod 16))"
    and "chunks 2 (vec_vsplth vperm le a b) = replicate 8 (chunks 2 a ! (unat b mod 8))"
    and "chunks 4 (vec_vspltw vperm le a b) = replicate 4 (chunks 4 a ! (unat b mod 4))"
proof -
  have fold: "(a @ a) ! (n + 16) = a ! n" "(a @ a) ! n = a ! n" if "n < 16" for n
    using that assms by (simp_all add: nth_append)
  show "vec_vspltb vperm le a b = replicate 16 (a ! (unat b mod 16))"
    using assms vsplt_selectors(1) [of b] fold [of "unat b mod 16"]
    by (auto simp: vec_vspltb_def vec_perm_table)
  have m16: "unat b mod 16 \<in> {0, 1, 2, 3, 4, 5, 6, 7, 8, 9, 10, 11, 12, 13, 14, 15}"
    by (rule nat16_cases) simp
  have m8: "unat b mod 8 = unat b mod 16 mod 8" by (simp add: mod_mod_cancel)
  have m8c: "unat b mod 8 \<in> {0, 1, 2, 3, 4, 5, 6, 7}" by (rule nat_small_cases) simp
  have m4: "unat b mod 4 = unat b mod 8 mod 4" by (simp add: mod_mod_cancel)
  show "chunks 2 (vec_vsplth vperm le a b) = replicate 8 (chunks 2 a ! (unat b mod 8))"
    unfolding m8 vec_vsplth_def Let_def using assms m16
    by (auto elim!: list16 simp: vsplt_selectors vec_perm_table chunk_defs replicate_lanes)
  show "chunks 4 (vec_vspltw vperm le a b) = replicate 4 (chunks 4 a ! (unat b mod 4))"
    unfolding m4 vec_vspltw_def Let_def using assms m8c
    by (auto elim!: list16 simp: vsplt_selectors vec_perm_table chunk_defs replicate_lanes)
qed

text \<open>
  Every splat fills the vector with one element of \<open>a\<close>, the element number taken modulo the
  number of elements: \<open>vec_splat\<close> masks it first, the \<open>vec_vsplt\<close> routines rely on the permutation
  reading five bits of each selector (their selectors wrap at 8 bits without harm).
\<close>

lemma vec_splat_replicates:
  assumes "vperm_law vperm" "length a = 16"
  shows "vec_splat_b vperm le a b = replicate 16 (a ! (unat b mod 16))
    \<and> chunks 2 (vec_splat_h vperm le a b) = replicate 8 (chunks 2 a ! (unat b mod 8))
    \<and> chunks 4 (vec_splat_w vperm le a b) = replicate 4 (chunks 4 a ! (unat b mod 4))
    \<and> chunks 8 (vec_splat_d vperm le a b) = replicate 2 (chunks 8 a ! (unat b mod 2))
    \<and> vec_vspltb vperm le a k = replicate 16 (a ! (unat k mod 16))
    \<and> chunks 2 (vec_vsplth vperm le a k) = replicate 8 (chunks 2 a ! (unat k mod 8))
    \<and> chunks 4 (vec_vspltw vperm le a k) = replicate 4 (chunks 4 a ! (unat k mod 4))"
  using splat_elements [OF assms, of le b] vsplt_elements [OF assms, of le k]
  by (simp only: low_bits simp_thms)

lemma vec_splat_replicates_witness:
  "chunks 2 (vec_splat_h isa_vperm True [0,1,2,3,4,5,6,7,8,9,10,11,12,13,14,15] 11) = replicate 8 [6, 7]"
  by (subst vec_splat_replicates [OF isa_vperm_law, THEN conjunct2, THEN conjunct1])
    (simp_all add: chunk_defs)

lemma revb_elements:
  assumes "vperm_law vperm" "length a = 16"
  shows "chunks 2 (vec_revb_h vperm le a) = map rev (chunks 2 a)"
    and "chunks 4 (vec_revb_w vperm le a) = map rev (chunks 4 a)"
    and "chunks 8 (vec_revb_d vperm le a) = map rev (chunks 8 a)"
    and "vec_revb_q vperm le a = rev a"
  using assms
  by (auto elim!: list16 simp: vec_revb_h_def vec_revb_w_def vec_revb_d_def vec_revb_q_def
      vec_perm_table chunk_defs)

lemma revb_w_twice:
  assumes "vperm_law vperm" "length a = 16"
  shows "vec_revb_w vperm le (vec_revb_w vperm le a) = a"
  using assms by (auto elim!: list16 simp: vec_revb_w_def vec_perm_table)

lemma concat_chunks_8: "length a = 16 \<Longrightarrow> concat (chunks 8 a) = a"
  by (auto elim!: list16 simp: chunk_defs)

lemma chunks_1: "chunks (Suc 0) a = map (\<lambda>x. [x]) a"
  by (rule nth_equalityI) (simp_all add: chunks_def take_Suc_conv_app_nth)

lemma vec_reve_rev: "vec_reve a = rev a"
  by (rule nth_equalityI) (simp_all add: vec_reve_def rev_nth)

text \<open>
  \<open>vec_revb\<close> reverses the bytes of every element and \<open>vec_reve\<close> the order of the elements,
  so each undoes itself and together (bytes within doublewords, then the two doublewords) they
  reverse the whole vector, as the quadword \<open>vec_revb\<close> does.
\<close>

lemma vec_revb_reverses:
  assumes "vperm_law vperm" "length a = 16"
  shows "chunks 1 (vec_revb_b a) = map rev (chunks 1 a)
    \<and> chunks 2 (vec_revb_h vperm le a) = map rev (chunks 2 a)
    \<and> chunks 4 (vec_revb_w vperm le a) = map rev (chunks 4 a)
    \<and> chunks 8 (vec_revb_d vperm le a) = map rev (chunks 8 a)
    \<and> vec_revb_q vperm le a = rev a
    \<and> vec_revb_w vperm le (vec_revb_w vperm le a) = a
    \<and> concat (vec_reve (chunks 8 (vec_revb_d vperm le a))) = vec_revb_q vperm le a"
proof -
  have "concat (rev (map rev (chunks 8 a))) = rev (concat (chunks 8 a))"
    by (simp add: rev_concat rev_map)
  then show ?thesis using assms concat_chunks_8 [of a]
    by (simp add: vec_revb_b_def vec_reve_rev revb_elements revb_w_twice chunks_1)
qed

lemma vec_revb_reverses_witness:
  "chunks 4 (vec_revb_w isa_vperm False [0,1,2,3,4,5,6,7,8,9,10,11,12,13,14,15])
   = [[3,2,1,0], [7,6,5,4], [11,10,9,8], [15,14,13,12]]"
  by (subst vec_revb_reverses [OF isa_vperm_law, THEN conjunct2, THEN conjunct2, THEN conjunct1])
    (simp_all add: chunk_defs)

section \<open>Carry chains, comparisons, shifts and selection\<close>

lemma map2_lane [simp]:
  "\<lbrakk>i < length a; i < length b\<rbrakk> \<Longrightarrow> map2 f a b ! i = f (a ! i) (b ! i)"
  by simp

lemma unat_carry_bit: "unat ((c :: 32 word) AND 1) = unat c mod 2"
  by (rule low_bits)

lemma addec_lane_value:
  "unat (addec_lane x y c) = (unat x + unat y + unat c mod 2) div 2 ^ 32"
proof -
  let ?s = "unat x + unat y + unat c mod 2"
  have x: "unat x < 2 ^ LENGTH(32)" and y: "unat y < 2 ^ LENGTH(32)" by (rule unsigned_less)+
  then have s: "?s < 2 ^ 64" "?s div 2 ^ 32 < 2" by simp_all
  have up: "unat (ucast w :: 64 word) = unat w" for w :: "32 word"
  proof -
    have "unat w < 2 ^ LENGTH(32)" by (rule unsigned_less)
    then show ?thesis by (simp add: unsigned_ucast_eq take_bit_eq_mod)
  qed
  define sum :: "64 word" where "sum = ucast x + ucast y + ucast (c AND 1)"
  have sum: "unat sum = ?s"
    using s(1) by (simp add: sum_def unat_word_ariths up low_bits)
  define q where "q = drop_bit 32 sum"
  have "unat q = ?s div 2 ^ 32"
    by (simp add: q_def drop_bit_eq_div unat_div sum)
  moreover have "unat (q AND 1) = unat q mod 2"
    by (simp add: unsigned_and_eq nat_and_low)
  ultimately have res: "unat (q AND 1) = ?s div 2 ^ 32" using s(2) by simp
  have "addec_lane x y c = ucast (q AND 1)"
  proof -
    have "(ucast (ucast v :: 64 word) :: 32 word) = v" for v :: "32 word"
      by (rule bit_word_eqI) (simp add: bit_simps)
    then show ?thesis by (simp only: addec_lane_def Let_def sum_def q_def)
  qed
  then have "unat (addec_lane x y c) = take_bit 32 (?s div 2 ^ 32)"
    by (simp only: unsigned_ucast_eq res) simp
  also have "\<dots> = ?s div 2 ^ 32" using s(2) by (simp add: take_bit_eq_mod)
  finally show ?thesis .
qed

lemma adde_lane_value:
  "unat ((x :: 32 word) + y + (c AND 1)) = (unat x + unat y + unat c mod 2) mod 2 ^ 32"
  by (simp add: unat_word_ariths low_bits mod_simps)

lemma adde_nth:
  assumes "length a = 4" "length b = 4" "length c = 4" "i < 4"
  shows "vec_adde a b c ! i = a ! i + b ! i + (c ! i AND 1)"
    and "vec_addec a b c ! i = addec_lane (a ! i) (b ! i) (c ! i)"
  using assms nat_small_cases(2) [of i]
  by (auto elim!: list4 simp: vec_adde_def vec_add_def vec_addec_def upt_rec)

lemma sube_nth:
  assumes "length a = 4" "length b = 4" "length c = 4" "i < 4"
  shows "vec_sube a b c ! i = a ! i + NOT (b ! i) + (c ! i AND 1)"
    and "vec_subec a b c ! i = addec_lane (a ! i) (NOT (b ! i)) (c ! i)"
proof -
  have "vec_sube a b c = vec_adde a (vec_not b) (map2 (AND) c [1, 1, 1, 1])"
    by (simp add: vec_sube_def)
  then show "vec_sube a b c ! i = a ! i + NOT (b ! i) + (c ! i AND 1)"
    using assms nat_small_cases(2) [of i]
    by (auto elim!: list4 simp: vec_adde_def vec_add_def vec_not_def and.assoc)
  show "vec_subec a b c ! i = addec_lane (a ! i) (NOT (b ! i)) (c ! i)"
    using assms by (simp add: vec_subec_def adde_nth vec_not_def)
qed

lemma unat_not_32: "unat (NOT (x :: 32 word)) = 2 ^ 32 - 1 - unat x"
proof -
  have "NOT x = - 1 - x"
    by (simp only: not_eq_complement diff_conv_add_uminus add.commute)
  moreover have "unat (- 1 - x) = unat (- 1 :: 32 word) - unat x"
    by (rule unat_sub) (rule word_order.extremum)
  moreover have "unat (- 1 :: 32 word) = 2 ^ 32 - 1"
    by (simp add: unsigned_minus_1_eq_mask mask_eq_exp_minus_1)
  ultimately show ?thesis by simp
qed

text \<open>
  \<open>vec_adde\<close> and \<open>vec_addec\<close> are the two halves of one full adder per lane: sum and carry
  together are the exact sum of the operands and the low carry-in bit, so a chain of them is
  multi-word addition; and \<open>vec_sube\<close>, \<open>vec_subec\<close> are the full adder of \<open>a\<close>, the complement of
  \<open>b\<close> and the borrow bit, the carry being set exactly when there is no borrow.
\<close>

lemma vec_add_carry_chain:
  assumes "length a = 4" "length b = 4" "length c = 4" "i < 4"
  shows "unat (vec_adde a b c ! i) + 2 ^ 32 * unat (vec_addec a b c ! i)
      = unat (a ! i) + unat (b ! i) + unat (c ! i) mod 2
    \<and> unat (vec_sube a b c ! i) + 2 ^ 32 * unat (vec_subec a b c ! i) + unat (b ! i) + 1
      = unat (a ! i) + 2 ^ 32 + unat (c ! i) mod 2
    \<and> (unat (vec_subec a b c ! i) = 1) = (unat (b ! i) + 1 \<le> unat (a ! i) + unat (c ! i) mod 2)"
proof -
  have mod_div: "n mod 2 ^ 32 + 2 ^ 32 * (n div 2 ^ 32) = n" for n :: nat
    by simp
  have b: "unat (b ! i) < 2 ^ LENGTH(32)" and a: "unat (a ! i) < 2 ^ LENGTH(32)"
    by (rule unsigned_less)+
  have n: "unat (NOT (b ! i)) + unat (b ! i) + 1 = 2 ^ 32"
    using b by (simp add: unat_not_32)
  define d where "d = unat (a ! i) + unat (NOT (b ! i)) + unat (c ! i) mod 2"
  have d: "d + unat (b ! i) + 1 = unat (a ! i) + 2 ^ 32 + unat (c ! i) mod 2"
    using n unfolding d_def by linarith
  have dd: "d < 2 * 2 ^ 32" using d a b by simp
  then have carry: "(d div 2 ^ 32 = 1) = (2 ^ 32 \<le> d)"
    by (cases "d < 2 ^ 32") (simp_all add: le_div_geq)
  have sub: "unat (vec_sube a b c ! i) = d mod 2 ^ 32" "unat (vec_subec a b c ! i) = d div 2 ^ 32"
    using assms by (simp_all only: sube_nth adde_lane_value addec_lane_value d_def)
  show ?thesis
  proof (intro conjI)
    show "unat (vec_adde a b c ! i) + 2 ^ 32 * unat (vec_addec a b c ! i)
      = unat (a ! i) + unat (b ! i) + unat (c ! i) mod 2"
      using assms by (simp only: adde_nth adde_lane_value addec_lane_value mod_div)
    show "unat (vec_sube a b c ! i) + 2 ^ 32 * unat (vec_subec a b c ! i) + unat (b ! i) + 1
      = unat (a ! i) + 2 ^ 32 + unat (c ! i) mod 2"
      unfolding sub mod_div using d .
    show "(unat (vec_subec a b c ! i) = 1) = (unat (b ! i) + 1 \<le> unat (a ! i) + unat (c ! i) mod 2)"
      unfolding sub carry using d by linarith
  qed
qed

lemma vec_add_carry_chain_witness:
  "unat (vec_adde [0xFFFFFFFF, 1, 2, 3] [1, 1, 1, 1] [1, 0, 0, 0] ! 0)
     + 2 ^ 32 * unat (vec_addec [0xFFFFFFFF, 1, 2, 3] [1, 1, 1, 1] [1, 0, 0, 0] ! 0) = 0x100000001"
  using vec_add_carry_chain [of "[0xFFFFFFFF, 1, 2, 3]" "[1, 1, 1, 1]" "[1, 0, 0, 0]" 0] by simp

lemma lane_lawD: "\<lbrakk>lane_law f v; length a = length b\<rbrakk> \<Longrightarrow> v a b = map2 f a b"
  by (simp add: lane_law_def)

lemma lane_law_map2: "lane_law f (map2 f)"
  by (simp add: lane_law_def)

lemma vec_not_map2: "vec_not (map2 f a b) = map2 (\<lambda>x y. NOT (f x y)) a b"
  by (simp add: vec_not_def split_def)

lemma map2_swap: "map2 f b a = map2 (\<lambda>x y. f y x) a b"
  by (induction a b rule: list_induct2') auto

lemma cmpge_lanes:
  assumes "lane_law (mask_of (\<lambda>x y. lt y x)) vcmpgt" "length a = length b"
  shows "vec_cmpge vcmpgt a b = map2 (mask_of (\<lambda>x y. \<not> lt x y)) a b"
proof -
  have "vec_cmpge vcmpgt a b = map2 (\<lambda>x y. NOT (mask_of (\<lambda>x y. lt y x) y x)) a b"
    using assms by (simp add: vec_cmpge_def lane_lawD vec_not_map2 map2_swap [of _ b a])
  moreover have "(\<lambda>x y. NOT (mask_of (\<lambda>x y. lt y x) y x)) = mask_of (\<lambda>x y. \<not> lt x y)"
    by (simp add: mask_of_def fun_eq_iff)
  ultimately show ?thesis by simp
qed

text \<open>
  From a builtin that fills a lane with ones when \<open>a > b\<close>, the header derives the other
  comparisons: \<open>vec_cmpge\<close> fills it exactly when \<open>a \<ge> b\<close>, \<open>vec_cmple\<close> when \<open>a \<le> b\<close> and
  \<open>vec_cmplt\<close> when \<open>a < b\<close>, for unsigned lanes and for signed lanes.
\<close>

lemma vec_compare_masks:
  fixes a b :: "'a::len word list"
  assumes "lane_law (mask_of (>)) ugt" "lane_law (mask_of (\<lambda>x y. y <s x)) sgt" "length a = length b"
  shows "vec_cmpge ugt a b = map2 (mask_of (\<ge>)) a b
    \<and> vec_cmple ugt a b = map2 (mask_of (\<le>)) a b
    \<and> vec_cmplt ugt a b = map2 (mask_of (<)) a b
    \<and> vec_cmpge sgt a b = map2 (mask_of (\<lambda>x y. y <=s x)) a b
    \<and> vec_cmple sgt a b = map2 (mask_of (\<lambda>x y. x <=s y)) a b
    \<and> vec_cmplt sgt a b = map2 (mask_of (\<lambda>x y. x <s y)) a b"
proof -
  have eqs: "(\<lambda>x y :: 'a word. \<not> x < y) = (\<ge>)" "(\<lambda>x y :: 'a word. \<not> x <s y) = (\<lambda>x y. y <=s x)"
    by (simp_all add: fun_eq_iff not_less word_sless_alt word_sle_eq)
  have u: "vec_cmpge ugt p q = map2 (mask_of (\<ge>)) p q"
    and s: "vec_cmpge sgt p q = map2 (mask_of (\<lambda>x y. y <=s x)) p q"
    if "length p = length q" for p q :: "'a word list"
    using cmpge_lanes [where lt = "(<)", OF _ that, of ugt]
      cmpge_lanes [where lt = "(<s)", OF _ that, of sgt] assms(1,2) by (simp_all add: eqs)
  show ?thesis using assms u s
    by (simp add: vec_cmple_def vec_cmplt_def lane_lawD map2_swap [of _ b a] mask_of_def)
qed

lemma vec_compare_masks_witness:
  "vec_cmpge (map2 (mask_of (>))) [1, 2, 3] [2, 2, 2 :: 8 word] = [0, 255, 255]"
  by (subst vec_compare_masks [THEN conjunct1, OF lane_law_map2 lane_law_map2]) (simp_all add: mask_of_def word_le_nat_alt)

lemma map2_nth_eq: "\<lbrakk>length a = length b; i < length a\<rbrakk> \<Longrightarrow> map2 f a b ! i = f (a ! i) (b ! i)"
  by simp

text \<open>
  \<open>vec_abs\<close> computed as the signed maximum of a lane and its negation is the absolute value,
  except at the most negative value, which has no negation in the lane and is returned as it is.
\<close>

lemma vec_abs_lane:
  fixes a :: "'a::len word list"
  assumes "lane_law (\<lambda>x y. if x <s y then y else x) vmaxs" "i < length a"
  shows "sint (vec_abs vmaxs a ! i) =
    (if sint (a ! i) = - (2 ^ (LENGTH('a) - 1)) then - (2 ^ (LENGTH('a) - 1)) else \<bar>sint (a ! i)\<bar>)"
proof -
  let ?x = "a ! i" and ?m = "2 ^ (LENGTH('a) - 1) :: int"
  have r: "vec_abs vmaxs a ! i = (if ?x <s - ?x then - ?x else ?x)"
    using assms by (simp add: vec_abs_def vec_neg_def lane_lawD)
  have rng: "- ?m \<le> sint ?x" "sint ?x < ?m"
    by (rule sint_ge, rule sint_lt)
  have neg: "sint (- ?x) = (if sint ?x = - ?m then - ?m else - sint ?x)"
  proof -
    let ?n = "LENGTH('a) - 1"
    have w: "sint (- ?x) = signed_take_bit ?n (- sint ?x)"
      by (rule sint_word_ariths)
    show ?thesis
    proof (cases "sint ?x = - ?m")
      case True
      then have "sint (- ?x) = take_bit (Suc ?n) (2 * 2 ^ ?n) - 2 ^ ?n"
        unfolding w by (simp add: signed_take_bit_eq_take_bit_shift)
      also have "take_bit (Suc ?n) (2 * 2 ^ ?n :: int) = 0"
        by (simp only: take_bit_eq_mod flip: power_Suc) simp
      finally show ?thesis using True by simp
    next
      case False
      then show ?thesis
        unfolding w using rng by (simp add: signed_take_bit_int_eq_self)
    qed
  qed
  show ?thesis
    unfolding r word_sless_alt neg using neg rng by auto
qed

lemma vec_abs_lane_witness:
  "sint (vec_abs (map2 (\<lambda>x y. if x <s y then y else x)) [128, 251 :: 8 word] ! 1) = 5"
  using vec_abs_lane [OF lane_law_map2, of 1 "[128, 251 :: 8 word]"] by simp

text \<open>
  \<open>vec_sl\<close> and \<open>vec_sr\<close> reduce the count modulo the lane width before shifting, so every count
  is defined: a left shift multiplies by a power of two and wraps, a right shift divides.
\<close>

lemma vec_shift_values:
  fixes a b :: "'a::len word list"
  assumes "length a = length b" "i < length a"
  shows "unat (vec_sl a b ! i) = unat (a ! i) * 2 ^ (unat (b ! i) mod LENGTH('a)) mod 2 ^ LENGTH('a)
    \<and> unat (vec_sr a b ! i) = unat (a ! i) div 2 ^ (unat (b ! i) mod LENGTH('a))"
proof -
  have width: "unat (of_nat LENGTH('a) :: 'a word) = LENGTH('a)"
    by (simp add: unsigned_of_nat take_bit_eq_mod less_exp)
  have count: "unat (y mod of_nat LENGTH('a)) = unat y mod LENGTH('a)" for y :: "'a word"
    by (simp add: unat_mod width)
  have left: "unat (push_bit n x) = unat x * 2 ^ n mod 2 ^ LENGTH('a)" for n and x :: "'a word"
    by (subst unsigned_push_bit_eq) (simp only: push_bit_eq_mult take_bit_eq_mod)
  have right: "unat (drop_bit n x) = unat x div 2 ^ n" for n and x :: "'a word"
    by (subst unsigned_drop_bit_eq)
      (simp only: drop_bit_eq_div take_bit_nat_eq_self [OF unsigned_less])
  show ?thesis using assms
    by (simp only: vec_sl_def vec_sr_def map2_nth_eq left right count)
qed

lemma vec_shift_values_witness:
  "unat (vec_sl [1, 3 :: 8 word] [9, 7] ! 1) = 128 \<and> unat (vec_sr [1, 128 :: 8 word] [9, 15] ! 1) = 1"
  using vec_shift_values [of "[1, 3 :: 8 word]" "[9, 7]" 1] vec_shift_values [of "[1, 128 :: 8 word]" "[9, 15]" 1]
  by simp

text \<open>
  The doubleword \<open>vec_sra\<close> does not reduce its count as \<open>vec_sl\<close> and \<open>vec_sr\<close> do: the same
  count that shifts by zero there is undefined here.
\<close>

lemma vec_sra_d_count_64:
  "vec_sra_d [x] [64] = [None]" "vec_sr [x] [64] = [x]" "vec_sl [x] [64] = [x :: 64 word]"
  by (simp_all add: vec_sra_d_def vec_sr_def vec_sl_def)

lemmas logic_defs = vec_and_def vec_vand_def vec_andc_def vec_vandc_def vec_nand_def vec_or_def vec_vor_def
  vec_orc_def vec_nor_def vec_vnor_def vec_xor_def vec_vxor_def vec_sel_def vec_vsel_def vec_not_def

text \<open>
  The logical routines are one Boolean algebra of lanes: all are expressible by \<open>vec_nor\<close> and
  \<open>vec_and\<close>, and \<open>vec_sel\<close> takes each bit from \<open>b\<close> where the mask is set and from \<open>a\<close> elsewhere.
\<close>

lemma vec_logic_algebra:
  fixes a b c :: "'a::len word list"
  assumes "length a = length b" "length b = length c"
  shows "vec_andc a b = vec_and a (vec_nor b b)
    \<and> vec_orc a b = vec_or a (vec_nor b b)
    \<and> vec_nand a b = vec_nor (vec_and a b) (vec_and a b)
    \<and> vec_and a b = vec_nor (vec_nor a a) (vec_nor b b)
    \<and> vec_or a b = vec_nand (vec_nor a a) (vec_nor b b)
    \<and> vec_xor a b = vec_or (vec_andc a b) (vec_andc b a)
    \<and> vec_xor (vec_xor a b) b = a
    \<and> vec_sel a b c = vec_or (vec_andc a c) (vec_and b c)
    \<and> vec_sel a b c = vec_xor a (vec_and (vec_xor a b) c)"
  by (intro conjI nth_equalityI; simp add: logic_defs assms; rule bit_word_eqI; auto simp: bit_simps)

lemma vec_logic_algebra_witness:
  "vec_sel [0xF0, 0xAA] [0x0F, 0x55] [0xFF, 0x0F :: 8 word] = [0x0F, 0xA5]"
  by (subst vec_logic_algebra [THEN conjunct2, THEN conjunct2, THEN conjunct2, THEN conjunct2,
        THEN conjunct2, THEN conjunct2, THEN conjunct2, THEN conjunct1]) (simp_all add: logic_defs)

text \<open>
  Element access: an in-range \<open>vec_insert\<close> is read back by \<open>vec_extract\<close> and leaves the other
  elements alone, \<open>vec_promote\<close> is an insertion into the zero vector, \<open>vec_splats\<close> has the same
  element everywhere, and an index outside the vector is undefined for all of them.
\<close>

lemma vec_insert_extract:
  fixes v :: "'a::zero list"
  assumes "0 \<le> k" "nat k < length v" "0 \<le> j" "nat j < length v"
  shows "Option.bind (vec_insert x v k) (\<lambda>w. vec_extract w j) = (if j = k then Some x else vec_extract v j)
    \<and> vec_promote (length v) x k = vec_insert x (vec_splats (length v) 0) k
    \<and> vec_extract (vec_splats (length v) x) j = Some x
    \<and> vec_insert x v (int (length v)) = None \<and> vec_extract v (- 1) = None"
  using assms
  by (auto simp: vec_insert_def vec_extract_def vec_promote_def vec_splats_def Let_def nat_eq_iff)

lemma vec_insert_extract_witness:
  "Option.bind (vec_insert 9 [1, 2, 3, 4 :: 32 word] 2) (\<lambda>w. vec_extract w 3) = Some 4"
  by (subst vec_insert_extract [THEN conjunct1]) (simp_all add: vec_extract_def)
end
