(* ===== verification/Altivec_Predicates.thy ===== *)
theory Altivec_Predicates
  imports Altivec
begin

text \<open>
  The predicates \<open>vec_all_*\<close> and \<open>vec_any_*\<close> of \<open>altivec.h\<close>, and the comparisons and selections beside them.  A
  predicate calls a compare instruction and reads a bit of condition register field 6; which instruction
  depends on the overload, that is on the kind of the first operand's lanes.  Floating lanes are their bit
  patterns.
\<close>

section \<open>Instructions\<close>

text \<open>The operand \<open>__CR6_EQ\<close> and so on of a builtin.\<close>

datatype cr6 = CR6_EQ | CR6_EQ_REV | CR6_LT | CR6_LT_REV

datatype lane_kind = Signed_Lane | Unsigned_Lane | Bool_Lane | Float_Lane

text \<open>The builtins \<open>vcmpequ*_p\<close>, \<open>vcmpgts*_p\<close>, \<open>vcmpgtu*_p\<close> of one lane width, and the floating ones.\<close>

record 'v compare_builtins =
  vcmpequ_p :: "cr6 \<Rightarrow> 'v \<Rightarrow> 'v \<Rightarrow> bool"
  vcmpgts_p :: "cr6 \<Rightarrow> 'v \<Rightarrow> 'v \<Rightarrow> bool"
  vcmpgtu_p :: "cr6 \<Rightarrow> 'v \<Rightarrow> 'v \<Rightarrow> bool"
  vcmpeqfp_p :: "cr6 \<Rightarrow> 'v \<Rightarrow> 'v \<Rightarrow> bool"
  vcmpgtfp_p :: "cr6 \<Rightarrow> 'v \<Rightarrow> 'v \<Rightarrow> bool"
  vcmpgefp_p :: "cr6 \<Rightarrow> 'v \<Rightarrow> 'v \<Rightarrow> bool"

definition vcmpeq_p :: "'v compare_builtins \<Rightarrow> lane_kind \<Rightarrow> cr6 \<Rightarrow> 'v \<Rightarrow> 'v \<Rightarrow> bool" where
  "vcmpeq_p B k = (if k = Float_Lane then vcmpeqfp_p B else vcmpequ_p B)"

definition vcmpgt_p :: "'v compare_builtins \<Rightarrow> lane_kind \<Rightarrow> cr6 \<Rightarrow> 'v \<Rightarrow> 'v \<Rightarrow> bool" where
  "vcmpgt_p B k = (case k of Signed_Lane \<Rightarrow> vcmpgts_p B | Float_Lane \<Rightarrow> vcmpgtfp_p B | _ \<Rightarrow> vcmpgtu_p B)"

section \<open>Predicates\<close>

definition vec_all_eq :: "'v compare_builtins \<Rightarrow> lane_kind \<Rightarrow> 'v \<Rightarrow> 'v \<Rightarrow> bool" where
  "vec_all_eq B k a b = vcmpeq_p B k CR6_LT a b"

definition vec_all_ge :: "'v compare_builtins \<Rightarrow> lane_kind \<Rightarrow> 'v \<Rightarrow> 'v \<Rightarrow> bool" where
  "vec_all_ge B k a b = (if k = Float_Lane then vcmpgefp_p B CR6_LT a b else vcmpgt_p B k CR6_EQ b a)"

definition vec_all_gt :: "'v compare_builtins \<Rightarrow> lane_kind \<Rightarrow> 'v \<Rightarrow> 'v \<Rightarrow> bool" where
  "vec_all_gt B k a b = vcmpgt_p B k CR6_LT a b"

definition vec_all_le :: "'v compare_builtins \<Rightarrow> lane_kind \<Rightarrow> 'v \<Rightarrow> 'v \<Rightarrow> bool" where
  "vec_all_le B k a b = (if k = Float_Lane then vcmpgefp_p B CR6_LT b a else vcmpgt_p B k CR6_EQ a b)"

definition vec_all_lt :: "'v compare_builtins \<Rightarrow> lane_kind \<Rightarrow> 'v \<Rightarrow> 'v \<Rightarrow> bool" where
  "vec_all_lt B k a b = vcmpgt_p B k CR6_LT b a"

definition vec_all_ne :: "'v compare_builtins \<Rightarrow> lane_kind \<Rightarrow> 'v \<Rightarrow> 'v \<Rightarrow> bool" where
  "vec_all_ne B k a b = vcmpeq_p B k CR6_EQ a b"

definition vec_any_eq :: "'v compare_builtins \<Rightarrow> lane_kind \<Rightarrow> 'v \<Rightarrow> 'v \<Rightarrow> bool" where
  "vec_any_eq B k a b = vcmpeq_p B k CR6_EQ_REV a b"

definition vec_any_ge :: "'v compare_builtins \<Rightarrow> lane_kind \<Rightarrow> 'v \<Rightarrow> 'v \<Rightarrow> bool" where
  "vec_any_ge B k a b = (if k = Float_Lane then vcmpgefp_p B CR6_EQ_REV a b else vcmpgt_p B k CR6_LT_REV b a)"

definition vec_any_gt :: "'v compare_builtins \<Rightarrow> lane_kind \<Rightarrow> 'v \<Rightarrow> 'v \<Rightarrow> bool" where
  "vec_any_gt B k a b = vcmpgt_p B k CR6_EQ_REV a b"

definition vec_any_le :: "'v compare_builtins \<Rightarrow> lane_kind \<Rightarrow> 'v \<Rightarrow> 'v \<Rightarrow> bool" where
  "vec_any_le B k a b = (if k = Float_Lane then vcmpgefp_p B CR6_EQ_REV b a else vcmpgt_p B k CR6_LT_REV a b)"

definition vec_any_lt :: "'v compare_builtins \<Rightarrow> lane_kind \<Rightarrow> 'v \<Rightarrow> 'v \<Rightarrow> bool" where
  "vec_any_lt B k a b = vcmpgt_p B k CR6_EQ_REV b a"

definition vec_any_ne :: "'v compare_builtins \<Rightarrow> lane_kind \<Rightarrow> 'v \<Rightarrow> 'v \<Rightarrow> bool" where
  "vec_any_ne B k a b = vcmpeq_p B k CR6_LT_REV a b"

text \<open>Floating lanes only.\<close>

definition vec_all_nan :: "'v compare_builtins \<Rightarrow> 'v \<Rightarrow> bool" where
  "vec_all_nan B a = vcmpeqfp_p B CR6_EQ a a"

definition vec_all_nge :: "'v compare_builtins \<Rightarrow> 'v \<Rightarrow> 'v \<Rightarrow> bool" where
  "vec_all_nge B a b = vcmpgefp_p B CR6_EQ a b"

definition vec_all_ngt :: "'v compare_builtins \<Rightarrow> 'v \<Rightarrow> 'v \<Rightarrow> bool" where
  "vec_all_ngt B a b = vcmpgtfp_p B CR6_EQ a b"

definition vec_all_nle :: "'v compare_builtins \<Rightarrow> 'v \<Rightarrow> 'v \<Rightarrow> bool" where
  "vec_all_nle B a b = vcmpgefp_p B CR6_EQ b a"

definition vec_all_nlt :: "'v compare_builtins \<Rightarrow> 'v \<Rightarrow> 'v \<Rightarrow> bool" where
  "vec_all_nlt B a b = vcmpgtfp_p B CR6_EQ b a"

definition vec_all_numeric :: "'v compare_builtins \<Rightarrow> 'v \<Rightarrow> bool" where
  "vec_all_numeric B a = vcmpeqfp_p B CR6_LT a a"

definition vec_any_nan :: "'v compare_builtins \<Rightarrow> 'v \<Rightarrow> bool" where
  "vec_any_nan B a = vcmpeqfp_p B CR6_LT_REV a a"

definition vec_any_nge :: "'v compare_builtins \<Rightarrow> 'v \<Rightarrow> 'v \<Rightarrow> bool" where
  "vec_any_nge B a b = vcmpgefp_p B CR6_LT_REV a b"

definition vec_any_ngt :: "'v compare_builtins \<Rightarrow> 'v \<Rightarrow> 'v \<Rightarrow> bool" where
  "vec_any_ngt B a b = vcmpgtfp_p B CR6_LT_REV a b"

definition vec_any_nle :: "'v compare_builtins \<Rightarrow> 'v \<Rightarrow> 'v \<Rightarrow> bool" where
  "vec_any_nle B a b = vcmpgefp_p B CR6_LT_REV b a"

definition vec_any_nlt :: "'v compare_builtins \<Rightarrow> 'v \<Rightarrow> 'v \<Rightarrow> bool" where
  "vec_any_nlt B a b = vcmpgtfp_p B CR6_LT_REV b a"

definition vec_any_numeric :: "'v compare_builtins \<Rightarrow> 'v \<Rightarrow> bool" where
  "vec_any_numeric B a = vcmpeqfp_p B CR6_EQ_REV a a"

section \<open>Comparisons and selections\<close>

definition vec_cmpeq :: "lane_kind \<Rightarrow> ('v \<Rightarrow> 'v \<Rightarrow> 'w) \<Rightarrow> ('v \<Rightarrow> 'v \<Rightarrow> 'w) \<Rightarrow> 'v \<Rightarrow> 'v \<Rightarrow> 'w" where
  "vec_cmpeq k vcmpequ vcmpeqfp a b = (if k = Float_Lane then vcmpeqfp a b else vcmpequ a b)"

text \<open>The lanes of eight bytes, also floating ones, have no instruction of their own.\<close>

definition vec_cmpne ::
  "('a::len word list \<Rightarrow> 'a word list \<Rightarrow> 'a word list) \<Rightarrow> ('a word list \<Rightarrow> 'a word list \<Rightarrow> 'a word list)
    \<Rightarrow> 'a word list \<Rightarrow> 'a word list \<Rightarrow> 'a word list" where
  "vec_cmpne vcmpne vcmpequ a b = (if LENGTH('a) = 64 then vec_not (vcmpequ a b) else vcmpne a b)"

definition vec_min :: "lane_kind \<Rightarrow> lane_kind \<Rightarrow> (lane_kind \<Rightarrow> 'v \<Rightarrow> 'v \<Rightarrow> 'v) \<Rightarrow> 'v \<Rightarrow> 'v \<Rightarrow> 'v" where
  "vec_min k l vmin a b = vmin (if k = Bool_Lane then l else k) a b"

definition vec_max :: "lane_kind \<Rightarrow> lane_kind \<Rightarrow> (lane_kind \<Rightarrow> 'v \<Rightarrow> 'v \<Rightarrow> 'v) \<Rightarrow> 'v \<Rightarrow> 'v \<Rightarrow> 'v" where
  "vec_max k l vmax a b = vmax (if k = Bool_Lane then l else k) a b"

section \<open>What the predicates test\<close>

text \<open>The bit that a builtin returns: the comparison holds in all lanes, or in none, or the opposite of these.\<close>

definition in_some :: "('a \<Rightarrow> 'a \<Rightarrow> bool) \<Rightarrow> 'a list \<Rightarrow> 'a list \<Rightarrow> bool" where
  "in_some P a b \<longleftrightarrow> (\<exists>i < length a. P (a ! i) (b ! i))"

definition in_all :: "('a \<Rightarrow> 'a \<Rightarrow> bool) \<Rightarrow> 'a list \<Rightarrow> 'a list \<Rightarrow> bool" where
  "in_all P a b \<longleftrightarrow> (\<forall>i < length a. P (a ! i) (b ! i))"

definition cr6_bit :: "('a \<Rightarrow> 'a \<Rightarrow> bool) \<Rightarrow> cr6 \<Rightarrow> 'a list \<Rightarrow> 'a list \<Rightarrow> bool" where
  "cr6_bit P c a b = (case c of CR6_EQ \<Rightarrow> \<not> in_some P a b | CR6_EQ_REV \<Rightarrow> in_some P a b
     | CR6_LT \<Rightarrow> in_all P a b | CR6_LT_REV \<Rightarrow> \<not> in_all P a b)"

text \<open>What the instructions are documented to do, with the floating comparisons \<open>feq\<close>, \<open>fgt\<close> and \<open>fge\<close>.\<close>

definition compares_lanes ::
  "'a::len word list compare_builtins \<Rightarrow> ('a word \<Rightarrow> 'a word \<Rightarrow> bool) \<Rightarrow> ('a word \<Rightarrow> 'a word \<Rightarrow> bool)
    \<Rightarrow> ('a word \<Rightarrow> 'a word \<Rightarrow> bool) \<Rightarrow> bool" where
  "compares_lanes B feq fgt fge \<longleftrightarrow> (\<forall>c a b. length a = length b \<longrightarrow>
     vcmpequ_p B c a b = cr6_bit (=) c a b \<and> vcmpgts_p B c a b = cr6_bit (\<lambda>x y. y <s x) c a b
     \<and> vcmpgtu_p B c a b = cr6_bit (>) c a b \<and> vcmpeqfp_p B c a b = cr6_bit feq c a b
     \<and> vcmpgtfp_p B c a b = cr6_bit fgt c a b \<and> vcmpgefp_p B c a b = cr6_bit fge c a b)"

text \<open>The order of the lanes that a kind stands for.\<close>

definition lanes_eq :: "('a::len word \<Rightarrow> 'a word \<Rightarrow> bool) \<Rightarrow> lane_kind \<Rightarrow> 'a word \<Rightarrow> 'a word \<Rightarrow> bool" where
  "lanes_eq feq k x y = (if k = Float_Lane then feq x y else x = y)"

definition lanes_gt :: "('a::len word \<Rightarrow> 'a word \<Rightarrow> bool) \<Rightarrow> lane_kind \<Rightarrow> 'a word \<Rightarrow> 'a word \<Rightarrow> bool" where
  "lanes_gt fgt k x y = (case k of Signed_Lane \<Rightarrow> y <s x | Float_Lane \<Rightarrow> fgt x y | _ \<Rightarrow> y < x)"

definition lanes_ge :: "('a::len word \<Rightarrow> 'a word \<Rightarrow> bool) \<Rightarrow> lane_kind \<Rightarrow> 'a word \<Rightarrow> 'a word \<Rightarrow> bool" where
  "lanes_ge fge k x y = (case k of Signed_Lane \<Rightarrow> y <=s x | Float_Lane \<Rightarrow> fge x y | _ \<Rightarrow> y \<le> x)"

lemma cr6_bit_simps:
  "cr6_bit P CR6_EQ a b \<longleftrightarrow> in_all (\<lambda>x y. \<not> P x y) a b" "cr6_bit P CR6_EQ_REV a b \<longleftrightarrow> in_some P a b"
  "cr6_bit P CR6_LT a b \<longleftrightarrow> in_all P a b" "cr6_bit P CR6_LT_REV a b \<longleftrightarrow> in_some (\<lambda>x y. \<not> P x y) a b"
  by (auto simp: cr6_bit_def in_some_def in_all_def)

lemma swap_lanes:
  "length a = length b \<Longrightarrow> in_all P b a \<longleftrightarrow> in_all (\<lambda>x y. P y x) a b" "length a = length b \<Longrightarrow> in_some P b a \<longleftrightarrow> in_some (\<lambda>x y. P y x) a b"
  by (simp_all add: in_all_def in_some_def)

lemma not_sless: "\<not> (x <s y) \<longleftrightarrow> y <=s (x :: 'a::len word)"
  by (simp add: word_sless_alt word_sle_eq not_less)

lemma compares_bits:
  assumes "compares_lanes B feq fgt fge" "length a = length b"
  shows "vcmpeq_p B k c a b = cr6_bit (lanes_eq feq k) c a b" "vcmpgt_p B k c a b = cr6_bit (lanes_gt fgt k) c a b"
    "vcmpeqfp_p B c a b = cr6_bit feq c a b" "vcmpgtfp_p B c a b = cr6_bit fgt c a b" "vcmpgefp_p B c a b = cr6_bit fge c a b"
  using assms
  by (auto simp: compares_lanes_def vcmpeq_p_def vcmpgt_p_def lanes_eq_def [abs_def] lanes_gt_def [abs_def] split: lane_kind.split)

lemma not_gt: "k \<noteq> Float_Lane \<Longrightarrow> (\<not> lanes_gt fgt k x y) = lanes_ge fge k y x"
  by (cases k) (auto simp: lanes_gt_def lanes_ge_def not_sless)

text \<open>
  C40. The twelve predicates hold exactly when the comparison in their name holds in all lanes, or in some lane, in the
  order of the kind of the first operand's lanes; for floating lanes that is the instruction's comparison, so that
  the predicates are not each other's negations when a lane is not a number.
\<close>

theorem predicates_test_lanes:
  assumes ok: "compares_lanes B feq fgt fge" and len: "length a = length b"
  shows "vec_all_eq B k a b = in_all (lanes_eq feq k) a b \<and> vec_any_eq B k a b = in_some (lanes_eq feq k) a b
    \<and> vec_all_ne B k a b = in_all (\<lambda>x y. \<not> lanes_eq feq k x y) a b \<and> vec_any_ne B k a b = in_some (\<lambda>x y. \<not> lanes_eq feq k x y) a b
    \<and> vec_all_gt B k a b = in_all (lanes_gt fgt k) a b \<and> vec_any_gt B k a b = in_some (lanes_gt fgt k) a b
    \<and> vec_all_lt B k a b = in_all (\<lambda>x y. lanes_gt fgt k y x) a b \<and> vec_any_lt B k a b = in_some (\<lambda>x y. lanes_gt fgt k y x) a b
    \<and> vec_all_ge B k a b = in_all (lanes_ge fge k) a b \<and> vec_any_ge B k a b = in_some (lanes_ge fge k) a b
    \<and> vec_all_le B k a b = in_all (\<lambda>x y. lanes_ge fge k y x) a b \<and> vec_any_le B k a b = in_some (\<lambda>x y. lanes_ge fge k y x) a b"
proof -
  note bits = compares_bits [OF ok len] compares_bits [OF ok len [symmetric]] cr6_bit_simps swap_lanes [OF len]
  have ge: "lanes_ge fge Float_Lane = fge" by (simp add: lanes_ge_def [abs_def])
  show ?thesis
    by (cases "k = Float_Lane")
      (simp_all add: vec_all_eq_def vec_any_eq_def vec_all_ne_def vec_any_ne_def vec_all_gt_def vec_any_gt_def vec_all_lt_def
        vec_any_lt_def vec_all_ge_def vec_any_ge_def vec_all_le_def vec_any_le_def bits ge not_gt [where fge = fge])
qed

text \<open>Builtins made of the comparisons.\<close>

definition sample_builtins :: "32 word list compare_builtins" where
  "sample_builtins = \<lparr>vcmpequ_p = cr6_bit (=), vcmpgts_p = cr6_bit (\<lambda>x y. y <s x), vcmpgtu_p = cr6_bit (>),
     vcmpeqfp_p = cr6_bit (=), vcmpgtfp_p = cr6_bit (\<lambda>_ _. False), vcmpgefp_p = cr6_bit (=)\<rparr>"

lemma sample_compares: "compares_lanes sample_builtins (=) (\<lambda>_ _. False) (=)"
  by (simp add: compares_lanes_def sample_builtins_def)

theorem predicates_test_lanes_witness:
  "vec_all_ge sample_builtins Signed_Lane [1, 0, 5, 7] [- 1, 0, 4, 2] \<and> \<not> vec_all_ge sample_builtins Unsigned_Lane [1, 0, 5, 7] [- 1, 0, 4, 2]"
proof -
  have "vec_all_ge sample_builtins k [1, 0, 5, 7] [- 1, 0, 4, 2] = in_all (lanes_ge (=) k) [1, 0, 5, 7] [- 1, 0, 4, 2 :: 32 word]" for k
    using predicates_test_lanes [OF sample_compares, of "[1, 0, 5, 7]" "[- 1, 0, 4, 2]" k] by simp
  moreover have "in_all (lanes_ge (=) Signed_Lane) [1, 0, 5, 7] [- 1, 0, 4, 2 :: 32 word]"
    by (simp add: in_all_def lanes_ge_def less_Suc_eq word_sle_eq nth_Cons split: nat.split)
  moreover have "\<not> - 1 \<le> (1 :: 32 word)" by code_simp
  then have "\<not> in_all (lanes_ge (=) Unsigned_Lane) [1, 0, 5, 7] [- 1, 0, 4, 2 :: 32 word]"
    by (auto simp: in_all_def lanes_ge_def intro!: exI [of _ 0])
  ultimately show ?thesis by simp
qed

text \<open>Floating lanes, where not a number is what is not equal to itself.\<close>

lemma float_predicates:
  assumes ok: "compares_lanes B feq fgt fge" and len: "length a = length b"
  shows "vec_all_nan B a = in_all (\<lambda>x y. \<not> feq x y) a a" "vec_any_numeric B a = in_some feq a a"
    "vec_all_numeric B a = in_all feq a a" "vec_any_nan B a = in_some (\<lambda>x y. \<not> feq x y) a a"
    "vec_all_nge B a b = (\<not> vec_any_ge B Float_Lane a b)" "vec_any_nge B a b = (\<not> vec_all_ge B Float_Lane a b)"
    "vec_all_ngt B a b = (\<not> vec_any_gt B Float_Lane a b)" "vec_any_ngt B a b = (\<not> vec_all_gt B Float_Lane a b)"
    "vec_all_nle B a b = (\<not> vec_any_le B Float_Lane a b)" "vec_any_nle B a b = (\<not> vec_all_le B Float_Lane a b)"
    "vec_all_nlt B a b = (\<not> vec_any_lt B Float_Lane a b)" "vec_any_nlt B a b = (\<not> vec_all_lt B Float_Lane a b)"
proof -
  note bits = compares_bits(3-5) [OF ok refl] compares_bits(3-5) [OF ok len] compares_bits(3-5) [OF ok len [symmetric]]
  note defs = vcmpgt_p_def vec_all_nan_def vec_any_numeric_def vec_all_numeric_def vec_any_nan_def vec_all_nge_def vec_any_nge_def
    vec_all_ngt_def vec_any_ngt_def vec_all_nle_def vec_any_nle_def vec_all_nlt_def vec_any_nlt_def vec_all_ge_def vec_any_ge_def
    vec_all_gt_def vec_any_gt_def vec_all_le_def vec_any_le_def vec_all_lt_def vec_any_lt_def
  show "vec_all_nan B a = in_all (\<lambda>x y. \<not> feq x y) a a" "vec_any_numeric B a = in_some feq a a"
    "vec_all_numeric B a = in_all feq a a" "vec_any_nan B a = in_some (\<lambda>x y. \<not> feq x y) a a"
    by (simp_all add: defs bits cr6_bit_simps)
  show "vec_all_nge B a b = (\<not> vec_any_ge B Float_Lane a b)" "vec_any_nge B a b = (\<not> vec_all_ge B Float_Lane a b)"
    "vec_all_ngt B a b = (\<not> vec_any_gt B Float_Lane a b)" "vec_any_ngt B a b = (\<not> vec_all_gt B Float_Lane a b)"
    "vec_all_nle B a b = (\<not> vec_any_le B Float_Lane a b)" "vec_any_nle B a b = (\<not> vec_all_le B Float_Lane a b)"
    "vec_all_nlt B a b = (\<not> vec_any_lt B Float_Lane a b)" "vec_any_nlt B a b = (\<not> vec_all_lt B Float_Lane a b)"
    by (simp_all add: defs bits cr6_bit_def)
qed

text \<open>
  A bool vector first makes the comparison unsigned also when the second operand is signed, so that \<open>a < b\<close> and \<open>b > a\<close>
  disagree; \<open>vec_max\<close> takes the kind of the operand that is not bool.
\<close>

lemma mixed_order_disagrees:
  assumes "compares_lanes B feq fgt fge"
  shows "vec_all_gt B Bool_Lane [- 1] [1 :: 8 word]" "\<not> vec_all_lt B Signed_Lane [1 :: 8 word] [- 1]"
    "vec_max Bool_Lane Signed_Lane vmax a b = vmax Signed_Lane a b"
proof -
  have less: "(1 :: 8 word) < - 1" by code_simp
  show "vec_all_gt B Bool_Lane [- 1] [1 :: 8 word]" "\<not> vec_all_lt B Signed_Lane [1 :: 8 word] [- 1]"
    "vec_max Bool_Lane Signed_Lane vmax a b = vmax Signed_Lane a b"
    using compares_bits(2) [OF assms, of "[- 1]" "[1]"] less
    by (simp_all add: vec_all_gt_def vec_all_lt_def vec_max_def cr6_bit_def in_all_def lanes_gt_def word_sless_alt)
qed

text \<open>\<open>vec_cmpne\<close> fills the lanes whose bits differ, also for floating lanes, whose zeros of both signs are equal.\<close>

lemma cmpne_compares_bits:
  assumes "\<And>a b. vcmpequ a b = map2 (mask_of (=)) a b" "\<And>a b. vcmpne a b = map2 (mask_of (\<noteq>)) a b"
  shows "vec_cmpne vcmpne vcmpequ a b = map2 (mask_of (\<noteq>)) a b"
  by (auto simp: vec_cmpne_def assms vec_not_def mask_of_def)

end
