(* ===== verification/Json_Writer.thy ===== *)
theory Json_Writer
  imports Reko_Prelude
begin

text \<open>
  \<open>rekodb/rekodb/JsonWriter.cs\<close>: the JSON writer of the database tool.  Text is the list of its
  UTF-16 code units (the writer only ever emits ASCII); \<open>w_out\<close> is what has been written to the
  \<open>TextWriter\<close> and \<open>w_seps\<close> the stack \<open>needsSeparator\<close>.  An operation maps the writer to the
  exception it raises (Inl) or to the writer after it (Inr).
\<close>

section \<open>Exceptions and actions\<close>

datatype exn = BadImageFormat | NotImplemented | InvalidOperation | OverflowExn | IndexExn | DuplicateKey | InvalidCast

type_synonym units = "nat list"

definition str :: "string \<Rightarrow> units" where
  "str s = map of_char s"

fun bind_res :: "exn + 'a \<Rightarrow> ('a \<Rightarrow> exn + 'b) \<Rightarrow> exn + 'b" where
  "bind_res (Inl e) f = Inl e"
| "bind_res (Inr x) f = f x"

fun do_all :: "('w \<Rightarrow> exn + 'w) list \<Rightarrow> 'w \<Rightarrow> exn + 'w" where
  "do_all [] w = Inr w"
| "do_all (f # fs) w = bind_res (f w) (do_all fs)"

section \<open>Formatting of numbers\<close>

fun dec_nat :: "nat \<Rightarrow> units" where
  "dec_nat n = (if n < 10 then [48 + n] else dec_nat (n div 10) @ [48 + n mod 10])"

declare dec_nat.simps [simp del]

definition decimal :: "int \<Rightarrow> units" where
  "decimal i = (if i < 0 then 45 # dec_nat (nat (- i)) else dec_nat (nat i))"

definition hex_digit :: "nat \<Rightarrow> nat" where
  "hex_digit d = (if d < 10 then 48 + d else 55 + d)"

definition hex4 :: "nat \<Rightarrow> units" where
  "hex4 n = [hex_digit (n div 4096 mod 16), hex_digit (n div 256 mod 16),
             hex_digit (n div 16 mod 16), hex_digit (n mod 16)]"

section \<open>The writer\<close>

record writer =
  w_out :: units
  w_seps :: "bool list"

type_synonym w_action = "writer \<Rightarrow> exn + writer"

definition new_writer :: writer where
  "new_writer = \<lparr>w_out = [], w_seps = []\<rparr>"

definition w_write :: "units \<Rightarrow> w_action" where
  "w_write s w = Inr (w\<lparr>w_out := w_out w @ s\<rparr>)"

definition push_sep :: w_action where
  "push_sep w = Inr (w\<lparr>w_seps := False # w_seps w\<rparr>)"

definition pop_sep :: w_action where
  "pop_sep w = (case w_seps w of [] \<Rightarrow> Inl InvalidOperation | s # ss \<Rightarrow> Inr (w\<lparr>w_seps := ss\<rparr>))"

definition begin_list :: w_action where
  "begin_list = do_all [push_sep, w_write (str ''['')]"

definition end_list :: w_action where
  "end_list = do_all [pop_sep, w_write (str '']'')]"

definition begin_object :: w_action where
  "begin_object = do_all [push_sep, w_write (str ''{'')]"

definition end_object :: w_action where
  "end_object = do_all [pop_sep, w_write (str ''}'')]"

fun write_list_contents :: "bool \<Rightarrow> 'a list \<Rightarrow> ('a \<Rightarrow> w_action) \<Rightarrow> w_action" where
  "write_list_contents sep [] f w = Inr w"
| "write_list_contents sep (x # xs) f w =
     do_all [if sep then w_write (str '','') else Inr, f x, write_list_contents True xs f] w"

definition write_list :: "'a list \<Rightarrow> ('a \<Rightarrow> w_action) \<Rightarrow> w_action" where
  "write_list xs f = do_all [w_write (str ''[''), write_list_contents False xs f, w_write (str '']'')]"

definition write_list_of :: "w_action \<Rightarrow> w_action" where
  "write_list_of f = do_all [w_write (str ''[''), f, w_write (str '']'')]"

definition write_bool :: "bool \<Rightarrow> w_action" where
  "write_bool b = w_write (if b then str ''true'' else str ''false'')"

text \<open>
  The escapes of \<open>Write(string)\<close>.  The five control characters with a letter escape are written
  as a lone backslash: the verbatim literal in the source is one backslash, without the letter.
\<close>

definition escape :: "nat \<Rightarrow> units" where
  "escape c =
     (if c \<in> {8, 9, 10, 12, 13} then [92]
      else if c = 34 then [92, 34]
      else if c = 92 then [92, 92]
      else if c < 32 \<or> 127 \<le> c then [92, 117] @ hex4 c
      else [c])"

fun write_chars :: "units \<Rightarrow> w_action" where
  "write_chars [] w = Inr w"
| "write_chars (c # cs) w = do_all [w_write (escape c), write_chars cs] w"

fun write_string :: "units option \<Rightarrow> w_action" where
  "write_string None w = w_write (str ''null'') w"
| "write_string (Some s) w = do_all [w_write [34], write_chars s, w_write [34]] w"

definition write_ulong :: "64 word \<Rightarrow> w_action" where
  "write_ulong u =
     (let max_exact = 2 ^ 53 - 1
      in if max_exact < uint u then write_string (Some (decimal (uint u))) else w_write (decimal (uint u)))"

text \<open>\<open>Math.Abs\<close> raises on the most negative value.\<close>

definition write_long :: "64 word \<Rightarrow> w_action" where
  "write_long i =
     (let max_exact = 2 ^ 53 - 1
      in if sint i = - (2 ^ 63) then (\<lambda>w. Inl OverflowExn)
         else if max_exact < \<bar>sint i\<bar> then write_string (Some (decimal (sint i)))
         else w_write (decimal (sint i)))"

text \<open>
  \<open>Write(object)\<close> dispatches on the run-time type; \<open>int\<close> and \<open>uint\<close> have no overload of their
  own and go to the \<open>long\<close> one.
\<close>

datatype obj = ONull | OBool bool | OInt "32 word" | OUInt "32 word" | OLong "64 word" | OULong "64 word"
  | OString units | OOther

fun write_obj :: "obj \<Rightarrow> w_action" where
  "write_obj ONull = w_write (str ''null'')"
| "write_obj (OBool b) = write_bool b"
| "write_obj (OInt i) = write_long (scast i)"
| "write_obj (OUInt u) = write_long (ucast u)"
| "write_obj (OLong l) = write_long l"
| "write_obj (OULong l) = write_ulong l"
| "write_obj (OString s) = write_string (Some s)"
| "write_obj OOther = (\<lambda>w. Inl NotImplemented)"

definition write_separator :: w_action where
  "write_separator w =
     (case w_seps w of
        [] \<Rightarrow> Inl InvalidOperation
      | True # ss \<Rightarrow> w_write (str '','') w
      | False # ss \<Rightarrow> Inr (w\<lparr>w_seps := True # ss\<rparr>))"

definition write_list_item :: "obj \<Rightarrow> w_action" where
  "write_list_item x = do_all [write_separator, write_obj x]"

definition write_list_item_by :: "w_action \<Rightarrow> w_action" where
  "write_list_item_by f = do_all [write_separator, f]"

definition write_key_value :: "units \<Rightarrow> obj \<Rightarrow> w_action" where
  "write_key_value k x = do_all [write_separator, write_string (Some k), w_write (str '':''), write_obj x]"

definition write_key_value_by :: "units \<Rightarrow> w_action \<Rightarrow> w_action" where
  "write_key_value_by k f = do_all [write_separator, write_string (Some k), w_write (str '':''), f]"

end
