(* ===== verification/Json_Reader.thy ===== *)
theory Json_Reader
  imports Json_Writer
begin

text \<open>
  \<open>rekodb/rekodb/JsonReader.cs\<close>: the pull reader of JSON tokens.  The stream is the list of bytes
  still to read; a character is \<open>None\<close> at its end (the C\# value -1).  \<open>ReadToken\<close> is one loop
  over a switch on the lexer state: each state's switch is one definition from the character read
  to the lexer's next state (\<open>Goes\<close>), the token returned (\<open>Gives\<close>) or the exception
  raised (\<open>Fails\<close>).
\<close>

section \<open>State\<close>

datatype token = Eof | BeginList | EndList | BeginObject | EndObject | PropertyName | Number | String

datatype scope = ScBeginList | ScListComma | ScInsideObject | ScPropertyName | ScColon
  | ScPropertyValue | ScObjectComma

datatype lex_state = StDefault | StNumberZero | StNumberStart | StNumberInt | StNumberFraction
  | StNumberFractionTail | StNumberExponent | StNumberExponentTail | StString | StStringEscape
  | StStringEscapeHex

record reader =
  r_in :: "nat list"
  r_scopes :: "scope list"
  r_buffer :: "nat list"
  r_token :: token
  r_prev :: "nat option"

record lexer =
  l_st :: lex_state
  l_chex :: nat
  l_hex :: nat

datatype lex_out = Goes lexer reader | Gives token reader | Fails exn

definition new_reader :: "nat list \<Rightarrow> reader" where
  "new_reader bs = \<lparr>r_in = bs, r_scopes = [], r_buffer = [], r_token = Eof, r_prev = None\<rparr>"

definition new_lexer :: lexer where
  "new_lexer = \<lparr>l_st = StDefault, l_chex = 0, l_hex = 0\<rparr>"

text \<open>\<open>char.IsDigit\<close>, \<open>IsNumber\<close> and \<open>IsControl\<close> on a byte taken as a Latin-1 character.\<close>

definition is_digit :: "nat \<Rightarrow> bool" where
  "is_digit c \<longleftrightarrow> 48 \<le> c \<and> c \<le> 57"

definition is_number :: "nat \<Rightarrow> bool" where
  "is_number c \<longleftrightarrow> is_digit c \<or> c \<in> {178, 179, 185, 188, 189, 190}"

definition is_control :: "nat \<Rightarrow> bool" where
  "is_control c \<longleftrightarrow> c < 32 \<or> (127 \<le> c \<and> c \<le> 159)"

definition add_byte :: "nat \<Rightarrow> reader \<Rightarrow> reader" where
  "add_byte b r = r\<lparr>r_buffer := r_buffer r @ [b]\<rparr>"

text \<open>
  \<open>buffer.Append(b)\<close> is LINQ's \<open>Enumerable.Append\<close>: it returns a new sequence, which the code
  drops, and leaves the list as it is.
\<close>

definition append_byte :: "nat \<Rightarrow> reader \<Rightarrow> reader" where
  "append_byte b r = r"

section \<open>Values and scopes\<close>

definition value_token :: "token \<Rightarrow> reader \<Rightarrow> exn + token \<times> reader" where
  "value_token t r =
     (case r_scopes r of
        [] \<Rightarrow> Inr (t, r)
      | sc # scs \<Rightarrow>
         (case sc of
            ScBeginList \<Rightarrow> Inr (t, r)
          | ScInsideObject \<Rightarrow>
              if t \<noteq> String then Inl BadImageFormat
              else Inr (PropertyName, r\<lparr>r_scopes := ScPropertyName # scs\<rparr>)
          | ScObjectComma \<Rightarrow>
              if t \<noteq> String then Inl BadImageFormat
              else Inr (PropertyName, r\<lparr>r_scopes := ScPropertyName # scs\<rparr>)
          | ScListComma \<Rightarrow> Inr (t, r\<lparr>r_scopes := ScBeginList # scs\<rparr>)
          | ScPropertyName \<Rightarrow> Inl BadImageFormat
          | ScColon \<Rightarrow> Inr (t, r\<lparr>r_scopes := ScPropertyValue # scs\<rparr>)
          | ScPropertyValue \<Rightarrow> Inl NotImplemented))"

definition give_value :: "token \<Rightarrow> reader \<Rightarrow> lex_out" where
  "give_value t r = (case value_token t r of Inl e \<Rightarrow> Fails e | Inr (t', r') \<Rightarrow> Gives t' r')"

definition utf8 :: "nat \<Rightarrow> nat list option" where
  "utf8 h =
     (if h < 0x80 then Some [h]
      else if h < 0x800 then Some [0xC0 + h div 64 mod 32, 0x80 + h mod 64]
      else if h < 0x10000 then
        Some [0xE0 + h div 4096 mod 16, 0x80 + h div 64 mod 64, 0x80 + h mod 64]
      else if h < 0x110000 then
        Some [0xF0 + h div 262144 mod 8, 0x80 + h div 4096 mod 64, 0x80 + h div 64 mod 64, 0x80 + h mod 64]
      else None)"

definition add_utf8 :: "nat \<Rightarrow> reader \<Rightarrow> exn + reader" where
  "add_utf8 h r =
     (case utf8 h of None \<Rightarrow> Inl BadImageFormat | Some bs \<Rightarrow> Inr (r\<lparr>r_buffer := r_buffer r @ bs\<rparr>))"

section \<open>The states of the lexer\<close>

definition lex_default :: "nat option \<Rightarrow> lexer \<Rightarrow> reader \<Rightarrow> lex_out" where
  "lex_default ch lx r =
     (case ch of
        None \<Rightarrow> Gives Eof r
      | Some c \<Rightarrow>
        if c \<in> {32, 9, 13, 10} then Goes lx r
        else if c = 91 then Gives BeginList (r\<lparr>r_scopes := ScBeginList # r_scopes r\<rparr>)
        else if c = 93 then
          (case r_scopes r of
             [] \<Rightarrow> Fails BadImageFormat
           | sc # scs \<Rightarrow>
               if sc \<noteq> ScBeginList then Fails BadImageFormat
               else give_value EndList (r\<lparr>r_scopes := scs\<rparr>))
        else if c = 123 then Gives BeginObject (r\<lparr>r_scopes := ScInsideObject # r_scopes r\<rparr>)
        else if c = 125 then
          (case r_scopes r of
             [] \<Rightarrow> Fails BadImageFormat
           | sc # scs \<Rightarrow>
               if sc = ScInsideObject \<or> sc = ScPropertyValue
               then give_value EndObject (r\<lparr>r_scopes := scs\<rparr>)
               else Fails BadImageFormat)
        else if c = 44 then
          (case r_scopes r of
             [] \<Rightarrow> Fails BadImageFormat
           | sc # scs \<Rightarrow>
               if sc = ScBeginList then Goes lx (r\<lparr>r_scopes := ScListComma # scs\<rparr>)
               else if sc = ScPropertyValue then Goes lx (r\<lparr>r_scopes := ScObjectComma # scs\<rparr>)
               else Fails BadImageFormat)
        else if c = 58 then
          (case r_scopes r of
             [] \<Rightarrow> Fails BadImageFormat
           | sc # scs \<Rightarrow>
               if sc \<noteq> ScPropertyName then Fails BadImageFormat
               else Goes lx (r\<lparr>r_scopes := ScColon # scs\<rparr>))
        else if c = 45 then Goes (lx\<lparr>l_st := StNumberStart\<rparr>) (r\<lparr>r_buffer := [c]\<rparr>)
        else if c = 48 then Goes (lx\<lparr>l_st := StNumberZero\<rparr>) (r\<lparr>r_buffer := [c]\<rparr>)
        else if 49 \<le> c \<and> c \<le> 57 then Goes (lx\<lparr>l_st := StNumberInt\<rparr>) (r\<lparr>r_buffer := [c]\<rparr>)
        else if c = 34 then Goes (lx\<lparr>l_st := StString\<rparr>) (r\<lparr>r_buffer := []\<rparr>)
        else Fails NotImplemented)"

definition lex_number_start :: "nat option \<Rightarrow> lexer \<Rightarrow> reader \<Rightarrow> lex_out" where
  "lex_number_start ch lx r =
     (case ch of
        None \<Rightarrow> Fails BadImageFormat
      | Some c \<Rightarrow>
        if c = 48 then Goes (lx\<lparr>l_st := StNumberZero\<rparr>) (add_byte c r)
        else if is_digit c then Goes (lx\<lparr>l_st := StNumberInt\<rparr>) (add_byte c r)
        else Fails NotImplemented)"

definition lex_number_int :: "nat option \<Rightarrow> lexer \<Rightarrow> reader \<Rightarrow> lex_out" where
  "lex_number_int ch lx r =
     (case ch of
        None \<Rightarrow> give_value Number (r\<lparr>r_prev := None\<rparr>)
      | Some c \<Rightarrow>
        if c = 46 then Goes (lx\<lparr>l_st := StNumberFraction\<rparr>) (add_byte c r)
        else if c = 101 \<or> c = 69 then Goes (lx\<lparr>l_st := StNumberExponent\<rparr>) (add_byte c r)
        else if is_digit c then Goes lx (add_byte c r)
        else give_value Number (r\<lparr>r_prev := Some c\<rparr>))"

definition lex_number_zero :: "nat option \<Rightarrow> lexer \<Rightarrow> reader \<Rightarrow> lex_out" where
  "lex_number_zero ch lx r =
     (case ch of
        None \<Rightarrow> Gives Number r
      | Some c \<Rightarrow>
        if c = 46 then Goes (lx\<lparr>l_st := StNumberFraction\<rparr>) (append_byte c r)
        else if c = 101 \<or> c = 69 then Goes (lx\<lparr>l_st := StNumberExponent\<rparr>) (append_byte c r)
        else if is_digit c then Goes lx (add_byte c r)
        else give_value Number (r\<lparr>r_prev := Some c\<rparr>))"

definition lex_number_fraction :: "nat option \<Rightarrow> lexer \<Rightarrow> reader \<Rightarrow> lex_out" where
  "lex_number_fraction ch lx r =
     (case ch of
        None \<Rightarrow> Fails BadImageFormat
      | Some c \<Rightarrow>
        if c = 101 \<or> c = 69 then Goes (lx\<lparr>l_st := StNumberExponent\<rparr>) (add_byte c r)
        else if is_number c then Goes (lx\<lparr>l_st := StNumberFractionTail\<rparr>) (add_byte c r)
        else Fails BadImageFormat)"

definition lex_number_fraction_tail :: "nat option \<Rightarrow> lexer \<Rightarrow> reader \<Rightarrow> lex_out" where
  "lex_number_fraction_tail ch lx r =
     (case ch of
        None \<Rightarrow> Gives Number r
      | Some c \<Rightarrow>
        if c = 101 \<or> c = 69 then Goes (lx\<lparr>l_st := StNumberExponent\<rparr>) (add_byte c r)
        else if is_number c then Goes lx (add_byte c r)
        else give_value Number (r\<lparr>r_prev := Some c\<rparr>))"

definition lex_number_exponent :: "nat option \<Rightarrow> lexer \<Rightarrow> reader \<Rightarrow> lex_out" where
  "lex_number_exponent ch lx r =
     (case ch of
        None \<Rightarrow> Fails BadImageFormat
      | Some c \<Rightarrow>
        if c = 43 \<or> c = 45 then Goes (lx\<lparr>l_st := StNumberExponentTail\<rparr>) (add_byte c r)
        else if is_digit c then Goes (lx\<lparr>l_st := StNumberExponentTail\<rparr>) (add_byte c r)
        else Fails BadImageFormat)"

definition lex_number_exponent_tail :: "nat option \<Rightarrow> lexer \<Rightarrow> reader \<Rightarrow> lex_out" where
  "lex_number_exponent_tail ch lx r =
     (case ch of
        None \<Rightarrow> Gives Number r
      | Some c \<Rightarrow>
        if is_number c then Goes lx (add_byte c r)
        else give_value Number (r\<lparr>r_prev := Some c\<rparr>))"

definition lex_string :: "nat option \<Rightarrow> lexer \<Rightarrow> reader \<Rightarrow> lex_out" where
  "lex_string ch lx r =
     (case ch of
        None \<Rightarrow> Fails BadImageFormat
      | Some c \<Rightarrow>
        if c = 34 then give_value String r
        else if c = 92 then Goes (lx\<lparr>l_st := StStringEscape\<rparr>) r
        else if \<not> is_control c then Goes lx (add_byte c r)
        else Fails BadImageFormat)"

text \<open>The one-letter escapes leave the lexer in the escape state.\<close>

definition lex_string_escape :: "nat option \<Rightarrow> lexer \<Rightarrow> reader \<Rightarrow> lex_out" where
  "lex_string_escape ch lx r =
     (case ch of
        None \<Rightarrow> Fails BadImageFormat
      | Some c \<Rightarrow>
        if c = 34 then Goes lx (append_byte 34 r)
        else if c = 92 then Goes lx (append_byte 92 r)
        else if c = 98 then Goes lx (append_byte 8 r)
        else if c = 102 then Goes lx (append_byte 12 r)
        else if c = 110 then Goes lx (append_byte 10 r)
        else if c = 114 then Goes lx (append_byte 13 r)
        else if c = 116 then Goes lx (append_byte 9 r)
        else if c = 117 then Goes (lx\<lparr>l_chex := 0, l_hex := 0, l_st := StStringEscapeHex\<rparr>) r
        else Fails BadImageFormat)"

text \<open>At most four digits are accumulated, so the unsigned 32-bit \<open>hex\<close> does not wrap.\<close>

definition hex_digit_in :: "nat \<Rightarrow> lexer \<Rightarrow> reader \<Rightarrow> lex_out" where
  "hex_digit_in d lx r =
     (let hex = l_hex lx * 16 + d; chex = l_chex lx + 1;
          lx' = lx\<lparr>l_hex := hex, l_chex := chex\<rparr>
      in if chex = 4 then
           (case add_utf8 hex r of Inl e \<Rightarrow> Fails e | Inr r' \<Rightarrow> Goes (lx'\<lparr>l_st := StString\<rparr>) r')
         else Goes lx' r)"

definition lex_string_escape_hex :: "nat option \<Rightarrow> lexer \<Rightarrow> reader \<Rightarrow> lex_out" where
  "lex_string_escape_hex ch lx r =
     (case ch of
        None \<Rightarrow> Fails BadImageFormat
      | Some c \<Rightarrow>
        if 48 \<le> c \<and> c \<le> 57 then hex_digit_in (c - 48) lx r
        else if 97 \<le> c \<and> c \<le> 102 then hex_digit_in (c - 97 + 10) lx r
        else if 65 \<le> c \<and> c \<le> 70 then hex_digit_in (c - 65 + 10) lx r
        else Fails BadImageFormat)"

definition lex_step :: "nat option \<Rightarrow> lexer \<Rightarrow> reader \<Rightarrow> lex_out" where
  "lex_step ch lx r =
     (case l_st lx of
        StDefault \<Rightarrow> lex_default ch lx r
      | StNumberStart \<Rightarrow> lex_number_start ch lx r
      | StNumberInt \<Rightarrow> lex_number_int ch lx r
      | StNumberZero \<Rightarrow> lex_number_zero ch lx r
      | StNumberFraction \<Rightarrow> lex_number_fraction ch lx r
      | StNumberFractionTail \<Rightarrow> lex_number_fraction_tail ch lx r
      | StNumberExponent \<Rightarrow> lex_number_exponent ch lx r
      | StNumberExponentTail \<Rightarrow> lex_number_exponent_tail ch lx r
      | StString \<Rightarrow> lex_string ch lx r
      | StStringEscape \<Rightarrow> lex_string_escape ch lx r
      | StStringEscapeHex \<Rightarrow> lex_string_escape_hex ch lx r)"

definition next_char :: "reader \<Rightarrow> nat option \<times> reader" where
  "next_char r =
     (case r_prev r of
        Some c \<Rightarrow> (Some c, r\<lparr>r_prev := None\<rparr>)
      | None \<Rightarrow> (case r_in r of [] \<Rightarrow> (None, r) | c # cs \<Rightarrow> (Some c, r\<lparr>r_in := cs\<rparr>)))"

section \<open>Reading a token\<close>

named_theorems lex_defs \<open>the switches of the lexer's states\<close>

declare lex_default_def [lex_defs] lex_number_start_def [lex_defs] lex_number_int_def [lex_defs]
  lex_number_zero_def [lex_defs] lex_number_fraction_def [lex_defs] lex_number_fraction_tail_def [lex_defs]
  lex_number_exponent_def [lex_defs] lex_number_exponent_tail_def [lex_defs] lex_string_def [lex_defs]
  lex_string_escape_def [lex_defs] lex_string_escape_hex_def [lex_defs] hex_digit_in_def [lex_defs]
  add_byte_def [lex_defs] append_byte_def [lex_defs]

lemma give_value_not_goes [simp]: "give_value t r \<noteq> Goes lx' r'" "Goes lx' r' \<noteq> give_value t r"
  by (simp_all add: give_value_def split: sum.split prod.split)

lemma add_utf8_stream: "add_utf8 h r = Inr r' \<Longrightarrow> r_in r' = r_in r \<and> r_prev r' = r_prev r"
  by (auto simp: add_utf8_def split: option.splits)

lemma lex_step_end: "lex_step None lx r \<noteq> Goes lx' r'"
  by (cases "l_st lx") (simp_all add: lex_step_def lex_defs)

lemma lex_step_goes:
  assumes "lex_step (Some c) lx r = Goes lx' r'"
  shows "r_in r' = r_in r \<and> r_prev r' = r_prev r"
  using assms
  by (cases "l_st lx")
    (auto simp: lex_step_def lex_defs Let_def split: if_splits list.splits sum.splits dest: add_utf8_stream)

definition chars_left :: "reader \<Rightarrow> nat" where
  "chars_left r = length (r_in r) + (case r_prev r of None \<Rightarrow> 0 | Some c \<Rightarrow> 1)"

lemma step_consumes:
  assumes "next_char r = (ch, r1)" "lex_step ch lx r1 = Goes lx' r'"
  shows "chars_left r' < chars_left r"
proof -
  obtain c where c: "ch = Some c" using assms(2) lex_step_end by (cases ch) auto
  then have "chars_left r1 < chars_left r"
    using assms(1) by (auto simp: next_char_def chars_left_def split: option.splits list.splits)
  moreover have "chars_left r' = chars_left r1"
    using lex_step_goes assms(2) c by (simp add: chars_left_def)
  ultimately show ?thesis by simp
qed

text \<open>
  The loop of \<open>ReadToken\<close>.  Every iteration that stays in the loop has consumed a character
  (\<open>step_consumes\<close>) and the end of the stream always leaves it, so the loop ends.
\<close>

function lex_loop :: "lexer \<Rightarrow> reader \<Rightarrow> exn + token \<times> reader" where
  "lex_loop lx r =
     (case next_char r of (ch, r1) \<Rightarrow>
        (case lex_step ch lx r1 of
           Goes lx' r' \<Rightarrow> lex_loop lx' r'
         | Gives t r' \<Rightarrow> Inr (t, r')
         | Fails e \<Rightarrow> Inl e))"
  by pat_completeness auto
termination
  by (relation "measure (\<lambda>(lx, r). chars_left r)") (auto dest: step_consumes[OF sym])

declare lex_loop.simps [simp del]

definition read_token :: "reader \<Rightarrow> exn + token \<times> reader" where
  "read_token r = lex_loop new_lexer r"

definition rd_read :: "reader \<Rightarrow> exn + token \<times> reader" where
  "rd_read r = (if r_token r = Eof then read_token r else Inr (r_token r, r\<lparr>r_token := Eof\<rparr>))"

definition rd_peek :: "reader \<Rightarrow> exn + token \<times> reader" where
  "rd_peek r =
     (if r_token r = Eof then
        (case read_token r of
           Inl e \<Rightarrow> Inl e
         | Inr (t, r') \<Rightarrow> Inr (t, r'\<lparr>r_token := t\<rparr>))
      else Inr (r_token r, r))"

text \<open>
  \<open>Utf8Parser.TryParse\<close> on the buffer for \<open>int\<close>: an optional sign, then at least one digit; the
  parse stops at the first other byte and fails when the value does not fit in 32 bits.
\<close>

fun digits_value :: "nat \<Rightarrow> nat list \<Rightarrow> nat" where
  "digits_value acc [] = acc"
| "digits_value acc (c # cs) = (if is_digit c then digits_value (acc * 10 + (c - 48)) cs else acc)"

definition try_get_int32 :: "reader \<Rightarrow> int option" where
  "try_get_int32 r =
     (let (neg, ds) = (case r_buffer r of
          [] \<Rightarrow> (False, [])
        | c # cs \<Rightarrow> if c = 45 then (True, cs) else if c = 43 then (False, cs) else (False, c # cs))
      in case ds of
           [] \<Rightarrow> None
         | d # _ \<Rightarrow>
             if \<not> is_digit d then None
             else (let v = (if neg then - int (digits_value 0 ds) else int (digits_value 0 ds))
                   in if - (2 ^ 31) \<le> v \<and> v < 2 ^ 31 then Some v else None))"

text \<open>
  \<open>GetString\<close>: the UTF-16 code units of the UTF-8 bytes in the buffer.  An ill-formed sequence is
  replaced by U+FFFD, one replacement for each maximal well-formed prefix, as
  \<open>Encoding.UTF8\<close> does.
\<close>

definition is_cont :: "nat \<Rightarrow> bool" where
  "is_cont b \<longleftrightarrow> 0x80 \<le> b \<and> b \<le> 0xBF"

definition second_of_3 :: "nat \<Rightarrow> nat \<Rightarrow> bool" where
  "second_of_3 b c \<longleftrightarrow>
     (if b = 0xE0 then 0xA0 \<le> c \<and> c \<le> 0xBF else if b = 0xED then 0x80 \<le> c \<and> c \<le> 0x9F else is_cont c)"

definition second_of_4 :: "nat \<Rightarrow> nat \<Rightarrow> bool" where
  "second_of_4 b c \<longleftrightarrow>
     (if b = 0xF0 then 0x90 \<le> c \<and> c \<le> 0xBF else if b = 0xF4 then 0x80 \<le> c \<and> c \<le> 0x8F else is_cont c)"

definition surrogates :: "nat \<Rightarrow> units" where
  "surrogates h = [0xD800 + (h - 0x10000) div 1024, 0xDC00 + (h - 0x10000) mod 1024]"

fun utf8_units :: "nat list \<Rightarrow> units" where
  "utf8_units [] = []"
| "utf8_units (b # bs) =
     (if b < 0x80 then b # utf8_units bs
      else if 0xC2 \<le> b \<and> b \<le> 0xDF then
        (case bs of
           c1 # r1 \<Rightarrow>
             if is_cont c1 then ((b - 0xC0) * 64 + (c1 - 0x80)) # utf8_units r1
             else 0xFFFD # utf8_units bs
         | [] \<Rightarrow> [0xFFFD])
      else if 0xE0 \<le> b \<and> b \<le> 0xEF then
        (case bs of
           c1 # r1 \<Rightarrow>
             if second_of_3 b c1 then
               (case r1 of
                  c2 # r2 \<Rightarrow>
                    if is_cont c2
                    then ((b - 0xE0) * 4096 + (c1 - 0x80) * 64 + (c2 - 0x80)) # utf8_units r2
                    else 0xFFFD # utf8_units r1
                | [] \<Rightarrow> [0xFFFD])
             else 0xFFFD # utf8_units bs
         | [] \<Rightarrow> [0xFFFD])
      else if 0xF0 \<le> b \<and> b \<le> 0xF4 then
        (case bs of
           c1 # r1 \<Rightarrow>
             if second_of_4 b c1 then
               (case r1 of
                  c2 # r2 \<Rightarrow>
                    if is_cont c2 then
                      (case r2 of
                         c3 # r3 \<Rightarrow>
                           if is_cont c3
                           then surrogates ((b - 0xF0) * 262144 + (c1 - 0x80) * 4096 + (c2 - 0x80) * 64 + (c3 - 0x80))
                                @ utf8_units r3
                           else 0xFFFD # utf8_units r2
                       | [] \<Rightarrow> [0xFFFD])
                    else 0xFFFD # utf8_units r1
                | [] \<Rightarrow> [0xFFFD])
             else 0xFFFD # utf8_units bs
         | [] \<Rightarrow> [0xFFFD])
      else 0xFFFD # utf8_units bs)"

declare utf8_units.simps(2) [simp del]

definition get_string :: "reader \<Rightarrow> units" where
  "get_string r = utf8_units (r_buffer r)"

end
