(* ===== verification/Json_Roundtrip.thy ===== *)
theory Json_Roundtrip
  imports Json_Reader
begin

text \<open>
  The abstract view of the JSON layer: document trees, their compact text and their token
  sequence.  The reader's contract is that it reads the text of a tree back as its tokens
  (\<open>reads_document\<close>), provided the strings avoid the characters that both the writer and the
  reader mishandle; the theorems on those characters are at the end.
\<close>

section \<open>Document trees\<close>

datatype json = JStr units | JNum int | JList "json list" | JObj "(units \<times> json) list"

fun commas :: "units list \<Rightarrow> units" where
  "commas [] = []"
| "commas [x] = x"
| "commas (x # y # zs) = x @ 44 # commas (y # zs)"

definition quoted :: "units \<Rightarrow> units" where
  "quoted s = 34 # concat (map escape s) @ [34]"

fun render :: "json \<Rightarrow> units" where
  "render (JStr s) = quoted s"
| "render (JNum i) = decimal i"
| "render (JList js) = 91 # commas (map render js) @ [93]"
| "render (JObj kvs) = 123 # commas (map (\<lambda>(k, v). quoted k @ 58 # render v) kvs) @ [125]"

definition utf8_of :: "units \<Rightarrow> nat list" where
  "utf8_of s = concat (map (\<lambda>h. case utf8 h of None \<Rightarrow> [] | Some bs \<Rightarrow> bs) s)"

fun tokens :: "json \<Rightarrow> (token \<times> nat list) list" where
  "tokens (JStr s) = [(String, utf8_of s)]"
| "tokens (JNum i) = [(Number, decimal i)]"
| "tokens (JList js) = (BeginList, []) # concat (map tokens js) @ [(EndList, [])]"
| "tokens (JObj kvs) =
     (BeginObject, []) # concat (map (\<lambda>(k, v). (PropertyName, utf8_of k) # tokens v) kvs) @ [(EndObject, [])]"

text \<open>A code unit the reader and the writer agree on.\<close>

definition clean_unit :: "nat \<Rightarrow> bool" where
  "clean_unit c \<longleftrightarrow> c < 65536 \<and> c \<notin> {8, 9, 10, 12, 13, 34, 92}"

fun clean :: "json \<Rightarrow> bool" where
  "clean (JStr s) = list_all clean_unit s"
| "clean (JNum i) = True"
| "clean (JList js) = (\<forall>j \<in> set js. clean j)"
| "clean (JObj kvs) = (\<forall>(k, v) \<in> set kvs. list_all clean_unit k \<and> clean v)"

section \<open>Readers up to the pushed-back character\<close>

definition canon :: "reader \<Rightarrow> reader" where
  "canon r = (case r_prev r of None \<Rightarrow> r | Some c \<Rightarrow> r\<lparr>r_in := c # r_in r, r_prev := None\<rparr>)"

definition rdr :: "nat list \<Rightarrow> scope list \<Rightarrow> nat list \<Rightarrow> reader" where
  "rdr bs S B = \<lparr>r_in = bs, r_scopes = S, r_buffer = B, r_token = Eof, r_prev = None\<rparr>"

lemma lex_loop_canon: "lex_loop lx (canon r) = lex_loop lx r"
proof (cases "r_prev r")
  case None
  then show ?thesis by (simp add: canon_def)
next
  case (Some c)
  have "next_char (canon r) = next_char r"
    using Some by (cases r) (simp add: canon_def next_char_def)
  then show ?thesis
    by (simp add: lex_loop.simps [of lx "canon r"] lex_loop.simps [of lx r])
qed

definition read_c :: "reader \<Rightarrow> exn + token \<times> reader" where
  "read_c r = (case read_token r of Inl e \<Rightarrow> Inl e | Inr (t, r') \<Rightarrow> Inr (t, canon r'))"

lemma read_c_canon [simp]: "read_c (canon r) = read_c r"
  by (simp add: read_c_def read_token_def lex_loop_canon)

lemma rdr_simps [simp]:
  "r_in (rdr bs S B) = bs" "r_scopes (rdr bs S B) = S" "r_buffer (rdr bs S B) = B"
  "r_token (rdr bs S B) = Eof" "r_prev (rdr bs S B) = None"
  "(rdr bs S B)\<lparr>r_in := bs'\<rparr> = rdr bs' S B" "(rdr bs S B)\<lparr>r_scopes := S'\<rparr> = rdr bs S' B"
  "(rdr bs S B)\<lparr>r_buffer := B'\<rparr> = rdr bs S B'" "(rdr bs S B)\<lparr>r_prev := None\<rparr> = rdr bs S B"
  "canon (rdr bs S B) = rdr bs S B" "canon ((rdr bs S B)\<lparr>r_prev := Some c\<rparr>) = rdr (c # bs) S B"
  by (simp_all add: rdr_def canon_def)

lemma next_char_rdr [simp]:
  "next_char (rdr (c # bs) S B) = (Some c, rdr bs S B)"
  "next_char (rdr [] S B) = (None, rdr [] S B)"
  by (simp_all add: next_char_def)

lemma lexer_default [simp]: "l_st new_lexer = StDefault"
  by (simp add: new_lexer_def)

text \<open>One turn of the loop.\<close>

definition loop_c :: "lexer \<Rightarrow> reader \<Rightarrow> exn + token \<times> reader" where
  "loop_c lx r = (case lex_loop lx r of Inl e \<Rightarrow> Inl e | Inr (t, r') \<Rightarrow> Inr (t, canon r'))"

lemma read_c_loop: "read_c r = loop_c new_lexer r"
  by (simp add: read_c_def loop_c_def read_token_def)

lemma loop_c_step:
  "loop_c lx (rdr (c # bs) S B) =
     (case lex_step (Some c) lx (rdr bs S B) of
        Goes lx' r' \<Rightarrow> loop_c lx' r' | Gives t r' \<Rightarrow> Inr (t, canon r') | Fails e \<Rightarrow> Inl e)"
  by (simp add: loop_c_def lex_loop.simps [of lx] split: lex_out.split)

lemma loop_c_end:
  "loop_c lx (rdr [] S B) =
     (case lex_step None lx (rdr [] S B) of
        Goes lx' r' \<Rightarrow> loop_c lx' r' | Gives t r' \<Rightarrow> Inr (t, canon r') | Fails e \<Rightarrow> Inl e)"
  by (simp add: loop_c_def lex_loop.simps [of lx] split: lex_out.split)

lemma give_value_out:
  "(case give_value t r of Goes lx' r' \<Rightarrow> loop_c lx' r' | Gives t r' \<Rightarrow> Inr (t, canon r') | Fails e \<Rightarrow> Inl e)
   = (case value_token t r of Inl e \<Rightarrow> Inl e | Inr (t', r') \<Rightarrow> Inr (t', canon r'))"
  by (simp add: give_value_def split: sum.split prod.split)

section \<open>Strings\<close>

lemma loop_plain:
  assumes "l_st lx = StString" "32 \<le> c" "c < 127" "c \<noteq> 34" "c \<noteq> 92"
  shows "loop_c lx (rdr (c # bs) S B) = loop_c lx (rdr bs S (B @ [c]))"
  using assms by (simp add: loop_c_step lex_step_def lex_string_def is_control_def add_byte_def)

lemma hex_digit_range: "d < 16 \<Longrightarrow>
    (48 \<le> hex_digit d \<and> hex_digit d \<le> 57 \<and> hex_digit d - 48 = d)
    \<or> (\<not> hex_digit d \<le> 57 \<and> \<not> 97 \<le> hex_digit d \<and> 65 \<le> hex_digit d \<and> hex_digit d \<le> 70 \<and> hex_digit d - 65 + 10 = d)"
  by (simp add: hex_digit_def)

lemma lex_hex_digit:
  assumes "d < 16" "l_st lx = StStringEscapeHex"
  shows "lex_step (Some (hex_digit d)) lx r = hex_digit_in d lx r"
  using hex_digit_range [OF assms(1)] assms(2) by (auto simp: lex_step_def lex_string_escape_hex_def)

lemma hex_digits_value:
  assumes "h < (65536 :: nat)"
  shows "((h div 4096 mod 16 * 16 + h div 256 mod 16) * 16 + h div 16 mod 16) * 16 + h mod 16 = h"
proof -
  have "h div 4096 = h div 256 div 16" "h div 256 = h div 16 div 16"
    by (simp_all flip: div_mult2_eq)
  moreover have "h div 4096 mod 16 = h div 4096" using assms by (simp add: div_less_iff_less_mult)
  ultimately show ?thesis
    by (metis div_mult_mod_eq)
qed

lemma utf8_some: "h < 65536 \<Longrightarrow> \<exists>bs. utf8 h = Some bs"
  by (auto simp: utf8_def)

lemma loop_escape:
  "l_st lx = StString \<Longrightarrow> loop_c lx (rdr (92 # bs) S B) = loop_c (lx\<lparr>l_st := StStringEscape\<rparr>) (rdr bs S B)"
  "l_st lx = StStringEscape \<Longrightarrow>
     loop_c lx (rdr (117 # bs) S B) = loop_c (lx\<lparr>l_chex := 0, l_hex := 0, l_st := StStringEscapeHex\<rparr>) (rdr bs S B)"
  by (simp_all add: loop_c_step lex_step_def lex_string_def lex_string_escape_def)

lemma loop_hex:
  assumes "d < 16" "l_st lx = StStringEscapeHex"
  shows "l_chex lx < 3 \<Longrightarrow> loop_c lx (rdr (hex_digit d # bs) S B)
      = loop_c (lx\<lparr>l_hex := l_hex lx * 16 + d, l_chex := l_chex lx + 1\<rparr>) (rdr bs S B)"
    and "\<lbrakk>l_chex lx = 3; utf8 (l_hex lx * 16 + d) = Some ub\<rbrakk> \<Longrightarrow> loop_c lx (rdr (hex_digit d # bs) S B)
      = loop_c (lx\<lparr>l_hex := l_hex lx * 16 + d, l_chex := 4, l_st := StString\<rparr>) (rdr bs S (B @ ub))"
  using assms by (simp_all add: loop_c_step lex_hex_digit hex_digit_in_def add_utf8_def)

lemma loop_unicode:
  assumes "l_st lx = StString" "h < 65536" "utf8 h = Some ub"
  shows "\<exists>lx'. l_st lx' = StString
    \<and> loop_c lx (rdr ([92, 117] @ hex4 h @ bs) S B) = loop_c lx' (rdr bs S (B @ ub))"
proof -
  define h2 where "h2 = h div 4096 mod 16 * 16 + h div 256 mod 16"
  define h3 where "h3 = h2 * 16 + h div 16 mod 16"
  have v: "h3 * 16 + h mod 16 = h"
    unfolding h3_def h2_def by (rule hex_digits_value [OF assms(2)])
  have "loop_c lx (rdr ([92, 117] @ hex4 h @ bs) S B)
      = loop_c \<lparr>l_st = StString, l_chex = 4, l_hex = h\<rparr> (rdr bs S (B @ ub))"
    using assms(1,3)
    by (cases lx) (simp add: hex4_def loop_escape loop_hex v flip: h2_def h3_def)
  then show ?thesis by (intro exI [of _ "\<lparr>l_st = StString, l_chex = 4, l_hex = h\<rparr>"]) simp
qed

lemma loop_clean_string:
  assumes "list_all clean_unit s" "l_st lx = StString"
  shows "loop_c lx (rdr (concat (map escape s) @ 34 # bs) S B)
    = (case value_token String (rdr bs S (B @ utf8_of s)) of
         Inl e \<Rightarrow> Inl e | Inr (t, r) \<Rightarrow> Inr (t, canon r))"
  using assms
proof (induction s arbitrary: lx B)
  case Nil
  then show ?case
    by (simp add: utf8_of_def loop_c_step lex_step_def lex_string_def give_value_out)
next
  case (Cons c s)
  have c: "c < 65536" "c \<notin> {8, 9, 10, 12, 13, 34, 92}" using Cons.prems by (simp_all add: clean_unit_def)
  obtain ub where ub: "utf8 c = Some ub" using utf8_some c by blast
  have u: "utf8_of (c # s) = ub @ utf8_of s" using ub by (simp add: utf8_of_def)
  show ?case
  proof (cases "c < 32 \<or> 127 \<le> c")
    case True
    then have e: "escape c = [92, 117] @ hex4 c" using c by (simp add: escape_def)
    obtain lx' where "l_st lx' = StString" "loop_c lx (rdr ([92, 117] @ hex4 c @ concat (map escape s) @ 34 # bs) S B)
        = loop_c lx' (rdr (concat (map escape s) @ 34 # bs) S (B @ ub))"
      using loop_unicode [OF Cons.prems(2) c(1) ub] by blast
    then show ?thesis using Cons.IH [of lx' "B @ ub"] Cons.prems(1) by (simp add: e u)
  next
    case False
    then have e: "escape c = [c]" and "utf8 c = Some [c]" using c by (simp_all add: escape_def utf8_def)
    then have "ub = [c]" using ub by simp
    then show ?thesis
      using Cons.IH [of lx "B @ [c]"] Cons.prems loop_plain [of lx c] False c by (simp add: e u)
  qed
qed

section \<open>Numbers\<close>

definition delimited :: "nat list \<Rightarrow> scope list \<Rightarrow> bool" where
  "delimited bs S \<longleftrightarrow> (case bs of [] \<Rightarrow> S = [] | c # cs \<Rightarrow> c \<in> {44, 93, 125})"

lemma delimited_simps [simp]:
  "delimited [] S \<longleftrightarrow> S = []" "delimited (44 # bs) S" "delimited (93 # bs) S" "delimited (125 # bs) S"
  by (simp_all add: delimited_def)

lemma value_prev:
  "(case value_token t ((rdr cs S B)\<lparr>r_prev := Some c\<rparr>) of Inl e \<Rightarrow> Inl e | Inr (t, r) \<Rightarrow> Inr (t, canon r))
    = (case value_token t (rdr (c # cs) S B) of Inl e \<Rightarrow> Inl e | Inr (t, r) \<Rightarrow> Inr (t, canon r))"
  by (auto simp: value_token_def rdr_def canon_def split: list.split scope.split)

lemma loop_number_end:
  assumes "l_st lx \<in> {StNumberInt, StNumberZero}" "delimited bs S"
  shows "loop_c lx (rdr bs S B)
    = (case value_token Number (rdr bs S B) of Inl e \<Rightarrow> Inl e | Inr (t, r) \<Rightarrow> Inr (t, canon r))"
proof (cases bs)
  case Nil
  then show ?thesis using assms
    by (auto simp: loop_c_end lex_step_def lex_number_int_def lex_number_zero_def give_value_out value_token_def)
next
  case (Cons c cs)
  show ?thesis using assms Cons
    by (auto simp: loop_c_step lex_step_def lex_number_int_def lex_number_zero_def is_digit_def
        give_value_out value_prev delimited_def)
qed

lemma loop_digits:
  assumes "l_st lx = StNumberInt" "list_all is_digit ds"
  shows "loop_c lx (rdr (ds @ bs) S B) = loop_c lx (rdr bs S (B @ ds))"
  using assms(2)
proof (induction ds arbitrary: B)
  case (Cons d ds)
  then show ?case using assms(1)
    by (simp add: loop_c_step lex_step_def lex_number_int_def add_byte_def)
      (auto simp: is_digit_def)
qed simp

lemma dec_nat_shape:
  assumes "0 < n"
  shows "\<exists>d ds. dec_nat n = d # ds \<and> 49 \<le> d \<and> d \<le> 57 \<and> list_all is_digit ds"
  using assms
proof (induction n rule: dec_nat.induct)
  case (1 n)
  show ?case
  proof (cases "n < 10")
    case True
    then show ?thesis using 1(2) by (simp add: dec_nat.simps [of n])
  next
    case False
    then have "0 < n div 10" by simp
    then obtain d ds where "dec_nat (n div 10) = d # ds" "49 \<le> d" "d \<le> 57" "list_all is_digit ds"
      using 1(1) False by blast
    then show ?thesis using False
      by (simp add: dec_nat.simps [of n]) (simp add: is_digit_def less_Suc_eq_le [symmetric])
  qed
qed

lemma dec_nat_0: "dec_nat 0 = [48]"
  by (simp add: dec_nat.simps)

lemma loop_number:
  assumes "delimited bs S" "l_st lx = StDefault"
  shows "loop_c lx (rdr (decimal i @ bs) S B)
    = (case value_token Number (rdr bs S (decimal i)) of Inl e \<Rightarrow> Inl e | Inr (t, r) \<Rightarrow> Inr (t, canon r))"
proof -
  have start: "loop_c lx (rdr (d # cs) S B) = loop_c (lx\<lparr>l_st := StNumberInt\<rparr>) (rdr cs S [d])"
    if "49 \<le> d" "d \<le> 57" for d cs
    using that assms(2) by (auto simp: loop_c_step lex_step_def lex_default_def)
  have minus: "loop_c lx (rdr (45 # d # cs) S B) = loop_c (lx\<lparr>l_st := StNumberInt\<rparr>) (rdr cs S [45, d])"
    if "49 \<le> d" "d \<le> 57" for d cs
    using that assms(2)
    by (simp add: loop_c_step lex_step_def lex_default_def lex_number_start_def is_digit_def add_byte_def)
  have zero: "loop_c lx (rdr (48 # cs) S B) = loop_c (lx\<lparr>l_st := StNumberZero\<rparr>) (rdr cs S [48])" for cs
    using assms(2) by (simp add: loop_c_step lex_step_def lex_default_def)
  consider "i = 0" | "0 < i" | "i < 0" by linarith
  then show ?thesis
  proof cases
    case 1
    then show ?thesis using loop_number_end [of "lx\<lparr>l_st := StNumberZero\<rparr>"] assms(1)
      by (simp add: decimal_def dec_nat_0 zero)
  next
    case 2
    then obtain d ds where "dec_nat (nat i) = d # ds" "49 \<le> d" "d \<le> 57" "list_all is_digit ds"
      using dec_nat_shape [of "nat i"] by auto
    then show ?thesis using 2 loop_number_end [of "lx\<lparr>l_st := StNumberInt\<rparr>"] assms(1)
      by (simp add: decimal_def start loop_digits)
  next
    case 3
    then obtain d ds where "dec_nat (nat (- i)) = d # ds" "49 \<le> d" "d \<le> 57" "list_all is_digit ds"
      using dec_nat_shape [of "nat (- i)"] by auto
    then show ?thesis using 3 loop_number_end [of "lx\<lparr>l_st := StNumberInt\<rparr>"] assms(1)
      by (simp add: decimal_def minus loop_digits)
  qed
qed

section \<open>Documents\<close>

text \<open>Where a value may stand, and the scope stack after it.\<close>

fun value_pos :: "scope list \<Rightarrow> bool" where
  "value_pos [] = True"
| "value_pos (sc # S) = (sc \<in> {ScBeginList, ScListComma, ScColon})"

fun after_value :: "scope list \<Rightarrow> scope list" where
  "after_value [] = []"
| "after_value (ScListComma # S) = ScBeginList # S"
| "after_value (ScColon # S) = ScPropertyValue # S"
| "after_value (sc # S) = sc # S"

lemma value_token_at: "value_pos S \<Longrightarrow> value_token t (rdr bs S B) = Inr (t, rdr bs (after_value S) B)"
  by (cases S rule: after_value.cases) (auto simp: value_token_def)

lemma value_token_key:
  "sc \<in> {ScInsideObject, ScObjectComma} \<Longrightarrow>
    value_token String (rdr bs (sc # S) B) = Inr (PropertyName, rdr bs (ScPropertyName # S) B)"
  by (auto simp: value_token_def)

definition token_text :: "token \<Rightarrow> reader \<Rightarrow> nat list" where
  "token_text t r = (if t \<in> {String, PropertyName, Number} then r_buffer r else [])"

inductive yields :: "reader \<Rightarrow> (token \<times> nat list) list \<Rightarrow> reader \<Rightarrow> bool" where
  yields_nil: "yields r [] r"
| yields_cons: "\<lbrakk>read_c r = Inr (t, r1); yields r1 ts r2; x = token_text t r1\<rbrakk> \<Longrightarrow> yields r ((t, x) # ts) r2"

inductive_cases yields_consE: "yields r (x # ts) r2"

lemma yields_append: "\<lbrakk>yields r ts r1; yields r1 us r2\<rbrakk> \<Longrightarrow> yields r (ts @ us) r2"
  by (induction r ts r1 rule: yields.induct) (auto intro: yields_cons)

lemma yields_one: "\<lbrakk>read_c r = Inr (t, r1); x = token_text t r1\<rbrakk> \<Longrightarrow> yields r [(t, x)] r1"
  by (auto intro: yields_cons yields_nil)

lemma yields_skip: "\<lbrakk>read_c r = read_c r'; yields r' (x # ts) r2\<rbrakk> \<Longrightarrow> yields r (x # ts) r2"
  by (erule yields_consE) (auto intro: yields_cons)

lemma read_begin:
  "read_c (rdr (91 # bs) S B) = Inr (BeginList, rdr bs (ScBeginList # S) B)"
  "read_c (rdr (123 # bs) S B) = Inr (BeginObject, rdr bs (ScInsideObject # S) B)"
  by (simp_all add: read_c_loop loop_c_step lex_step_def lex_default_def)

lemma read_end_list:
  "value_pos S \<Longrightarrow> read_c (rdr (93 # bs) (ScBeginList # S) B) = Inr (EndList, rdr bs (after_value S) B)"
  by (simp add: read_c_loop loop_c_step lex_step_def lex_default_def give_value_out value_token_at)

lemma read_end_object:
  "\<lbrakk>value_pos S; sc \<in> {ScInsideObject, ScPropertyValue}\<rbrakk>
    \<Longrightarrow> read_c (rdr (125 # bs) (sc # S) B) = Inr (EndObject, rdr bs (after_value S) B)"
  by (auto simp: read_c_loop loop_c_step lex_step_def lex_default_def give_value_out value_token_at)

lemma read_separators:
  "read_c (rdr (44 # bs) (ScBeginList # S) B) = read_c (rdr bs (ScListComma # S) B)"
  "read_c (rdr (44 # bs) (ScPropertyValue # S) B) = read_c (rdr bs (ScObjectComma # S) B)"
  "read_c (rdr (58 # bs) (ScPropertyName # S) B) = read_c (rdr bs (ScColon # S) B)"
  by (simp_all add: read_c_loop loop_c_step lex_step_def lex_default_def)

lemma read_quoted:
  assumes "list_all clean_unit s"
  shows "read_c (rdr (quoted s @ bs) S B)
    = (case value_token String (rdr bs S (utf8_of s)) of Inl e \<Rightarrow> Inl e | Inr (t, r) \<Rightarrow> Inr (t, canon r))"
proof -
  have "read_c (rdr (34 # cs) S B) = loop_c (new_lexer\<lparr>l_st := StString\<rparr>) (rdr cs S [])" for cs
    by (simp add: read_c_loop loop_c_step lex_step_def lex_default_def)
  then show ?thesis
    using loop_clean_string [OF assms, of "new_lexer\<lparr>l_st := StString\<rparr>"] by (simp add: quoted_def)
qed

lemma tokens_nonempty: "\<exists>x ts. tokens j = x # ts"
  by (cases j) auto

text \<open>A value followed by its siblings and the closing bracket.\<close>

definition reads :: "json \<Rightarrow> bool" where
  "reads j \<longleftrightarrow> (\<forall>bs S B. value_pos S \<longrightarrow> delimited bs S \<longrightarrow>
     (\<exists>B'. yields (rdr (render j @ bs) S B) (tokens j) (rdr bs (after_value S) B')))"

lemma readsD:
  "\<lbrakk>reads j; value_pos S; delimited bs S\<rbrakk>
    \<Longrightarrow> \<exists>B'. yields (rdr (render j @ bs) S B) (tokens j) (rdr bs (after_value S) B')"
  by (simp add: reads_def)

lemma reads_items:
  assumes "js \<noteq> []" "\<forall>j \<in> set js. reads j" "value_pos S" "sc \<in> {ScBeginList, ScListComma}"
  shows "\<exists>B'. yields (rdr (commas (map render js) @ 93 # bs) (sc # S) B)
      (concat (map tokens js) @ [(EndList, [])]) (rdr bs (after_value S) B')"
  using assms
proof (induction js arbitrary: sc B)
  case (Cons j js)
  have here: "after_value (sc # S) = ScBeginList # S" "value_pos (sc # S)" using Cons.prems(4) by auto
  show ?case
  proof (cases js)
    case Nil
    obtain B' where "yields (rdr (render j @ 93 # bs) (sc # S) B) (tokens j) (rdr (93 # bs) (ScBeginList # S) B')"
      using readsD [of j "sc # S" "93 # bs" B] Cons.prems(2) here by auto
    moreover have "yields (rdr (93 # bs) (ScBeginList # S) B') [(EndList, [])] (rdr bs (after_value S) B')"
      using read_end_list [OF Cons.prems(3)] by (intro yields_one) (auto simp: token_text_def)
    ultimately show ?thesis using Nil by (auto intro: yields_append)
  next
    case (Cons k ks)
    let ?rest = "commas (map render js) @ 93 # bs"
    obtain B1 where 1: "yields (rdr (render j @ 44 # ?rest) (sc # S) B) (tokens j) (rdr (44 # ?rest) (ScBeginList # S) B1)"
      using readsD [of j "sc # S" "44 # ?rest" B] Cons.prems(2) here by auto
    obtain B2 where 2: "yields (rdr ?rest (ScListComma # S) B1) (concat (map tokens js) @ [(EndList, [])])
        (rdr bs (after_value S) B2)"
      using Cons.IH [of ScListComma B1] Cons.prems \<open>js = k # ks\<close> by auto
    obtain x ts where "concat (map tokens js) @ [(EndList, [])] = x # ts"
      using \<open>js = k # ks\<close> tokens_nonempty [of k] by auto
    then have "yields (rdr (44 # ?rest) (ScBeginList # S) B1) (concat (map tokens js) @ [(EndList, [])])
        (rdr bs (after_value S) B2)"
      using 2 yields_skip [OF read_separators(1)] by simp
    with 1 have "yields (rdr (render j @ 44 # ?rest) (sc # S) B)
        (tokens j @ concat (map tokens js) @ [(EndList, [])]) (rdr bs (after_value S) B2)"
      by (rule yields_append)
    then show ?thesis using \<open>js = k # ks\<close> by auto
  qed
qed simp

lemma reads_pair:
  assumes "list_all clean_unit k" "reads v" "delimited bs (ScPropertyValue # S)"
    "sc \<in> {ScInsideObject, ScObjectComma}"
  shows "\<exists>B'. yields (rdr (quoted k @ 58 # render v @ bs) (sc # S) B) ((PropertyName, utf8_of k) # tokens v)
      (rdr bs (ScPropertyValue # S) B')"
proof -
  have key: "read_c (rdr (quoted k @ 58 # render v @ bs) (sc # S) B)
      = Inr (PropertyName, rdr (58 # render v @ bs) (ScPropertyName # S) (utf8_of k))"
    by (simp add: read_quoted [OF assms(1)] value_token_key [OF assms(4)])
  have "delimited bs (ScColon # S)" using assms(3) by (simp add: delimited_def split: list.splits)
  then obtain B' where "yields (rdr (render v @ bs) (ScColon # S) (utf8_of k)) (tokens v) (rdr bs (ScPropertyValue # S) B')"
    using readsD [OF assms(2), of "ScColon # S" bs] by auto
  then have "yields (rdr (58 # render v @ bs) (ScPropertyName # S) (utf8_of k)) (tokens v) (rdr bs (ScPropertyValue # S) B')"
    using tokens_nonempty [of v] yields_skip [OF read_separators(3)] by auto
  then show ?thesis using key by (auto intro!: exI yields_cons simp: token_text_def)
qed

abbreviation pair_text :: "units \<times> json \<Rightarrow> units" where
  "pair_text \<equiv> (\<lambda>(k, v). quoted k @ 58 # render v)"

abbreviation pair_tokens :: "units \<times> json \<Rightarrow> (token \<times> nat list) list" where
  "pair_tokens \<equiv> (\<lambda>(k, v). (PropertyName, utf8_of k) # tokens v)"

lemma reads_pairs:
  assumes "kvs \<noteq> []" "\<forall>(k, v) \<in> set kvs. list_all clean_unit k \<and> reads v" "value_pos S"
    "sc \<in> {ScInsideObject, ScObjectComma}"
  shows "\<exists>B'. yields (rdr (commas (map pair_text kvs) @ 125 # bs) (sc # S) B)
      (concat (map pair_tokens kvs) @ [(EndObject, [])]) (rdr bs (after_value S) B')"
  using assms
proof (induction kvs arbitrary: sc B)
  case (Cons kv kvs)
  obtain k v where kv: "kv = (k, v)" by (cases kv)
  have ok: "list_all clean_unit k" "reads v" using Cons.prems(2) kv by auto
  show ?case
  proof (cases kvs)
    case Nil
    obtain B' where "yields (rdr (quoted k @ 58 # render v @ 125 # bs) (sc # S) B) (pair_tokens (k, v))
        (rdr (125 # bs) (ScPropertyValue # S) B')"
      using reads_pair [OF ok, of "125 # bs" S sc B] Cons.prems(4) by auto
    moreover have "yields (rdr (125 # bs) (ScPropertyValue # S) B') [(EndObject, [])] (rdr bs (after_value S) B')"
      using read_end_object [OF Cons.prems(3)] by (intro yields_one) (auto simp: token_text_def)
    ultimately have "yields (rdr (quoted k @ 58 # render v @ 125 # bs) (sc # S) B)
        (pair_tokens (k, v) @ [(EndObject, [])]) (rdr bs (after_value S) B')"
      by (rule yields_append)
    then show ?thesis using Nil kv by auto
  next
    case (Cons kw kws)
    let ?rest = "commas (map pair_text kvs) @ 125 # bs"
    obtain B1 where 1: "yields (rdr (quoted k @ 58 # render v @ 44 # ?rest) (sc # S) B) (pair_tokens (k, v))
        (rdr (44 # ?rest) (ScPropertyValue # S) B1)"
      using reads_pair [OF ok, of "44 # ?rest" S sc B] Cons.prems(4) by auto
    obtain B2 where 2: "yields (rdr ?rest (ScObjectComma # S) B1) (concat (map pair_tokens kvs) @ [(EndObject, [])])
        (rdr bs (after_value S) B2)"
      using Cons.IH [of ScObjectComma B1] Cons.prems \<open>kvs = kw # kws\<close> by auto
    obtain x ts where "concat (map pair_tokens kvs) @ [(EndObject, [])] = x # ts"
      using \<open>kvs = kw # kws\<close> by (cases kw) auto
    then have "yields (rdr (44 # ?rest) (ScPropertyValue # S) B1) (concat (map pair_tokens kvs) @ [(EndObject, [])])
        (rdr bs (after_value S) B2)"
      using 2 yields_skip [OF read_separators(2)] by simp
    with 1 have "yields (rdr (quoted k @ 58 # render v @ 44 # ?rest) (sc # S) B)
        (pair_tokens (k, v) @ concat (map pair_tokens kvs) @ [(EndObject, [])]) (rdr bs (after_value S) B2)"
      by (rule yields_append)
    then show ?thesis using \<open>kvs = kw # kws\<close> kv by auto
  qed
qed simp

lemma reads_clean: "clean j \<Longrightarrow> reads j"
proof (induction j)
  case (JStr s)
  show ?case unfolding reads_def
  proof (intro allI impI)
    fix bs S B assume "value_pos S"
    then have "read_c (rdr (quoted s @ bs) S B) = Inr (String, rdr bs (after_value S) (utf8_of s))"
      using JStr by (simp add: read_quoted value_token_at)
    then show "\<exists>B'. yields (rdr (render (JStr s) @ bs) S B) (tokens (JStr s)) (rdr bs (after_value S) B')"
      by (auto intro!: exI yields_one simp: token_text_def)
  qed
next
  case (JNum i)
  show ?case unfolding reads_def
  proof (intro allI impI)
    fix bs S B assume "value_pos S" "delimited bs S"
    then have "read_c (rdr (decimal i @ bs) S B) = Inr (Number, rdr bs (after_value S) (decimal i))"
      by (simp add: read_c_loop loop_number value_token_at)
    then show "\<exists>B'. yields (rdr (render (JNum i) @ bs) S B) (tokens (JNum i)) (rdr bs (after_value S) B')"
      by (auto intro!: exI yields_one simp: token_text_def)
  qed
next
  case (JList js)
  then have rjs: "\<forall>j \<in> set js. reads j" by auto
  show ?case unfolding reads_def
  proof (intro allI impI)
    fix bs S B assume S: "value_pos S"
    have opens: "yields r us r2 \<Longrightarrow> r = rdr cs (ScBeginList # S) B
        \<Longrightarrow> yields (rdr (91 # cs) S B) ((BeginList, []) # us) r2" for r us r2 cs
      by (auto intro!: yields_cons [OF read_begin(1)] simp: token_text_def)
    show "\<exists>B'. yields (rdr (render (JList js) @ bs) S B) (tokens (JList js)) (rdr bs (after_value S) B')"
    proof (cases "js = []")
      case True
      then show ?thesis using read_end_list [OF S, of bs B]
        by (auto intro!: exI opens yields_one simp: token_text_def)
    next
      case False
      then show ?thesis using reads_items [OF False rjs S, of ScBeginList bs B] by (auto intro: opens)
    qed
  qed
next
  case (JObj kvs)
  then have rkvs: "\<forall>(k, v) \<in> set kvs. list_all clean_unit k \<and> reads v" by fastforce
  show ?case unfolding reads_def
  proof (intro allI impI)
    fix bs S B assume S: "value_pos S"
    have opens: "yields r us r2 \<Longrightarrow> r = rdr cs (ScInsideObject # S) B
        \<Longrightarrow> yields (rdr (123 # cs) S B) ((BeginObject, []) # us) r2" for r us r2 cs
      by (auto intro!: yields_cons [OF read_begin(2)] simp: token_text_def)
    show "\<exists>B'. yields (rdr (render (JObj kvs) @ bs) S B) (tokens (JObj kvs)) (rdr bs (after_value S) B')"
    proof (cases "kvs = []")
      case True
      then show ?thesis using read_end_object [OF S, of ScInsideObject bs B]
        by (auto intro!: exI opens yields_one simp: token_text_def)
    next
      case False
      then show ?thesis using reads_pairs [OF False rkvs S, of ScInsideObject bs B] by (auto intro: opens)
    qed
  qed
qed

text \<open>Reading a whole stream through \<open>Read\<close>.\<close>

fun pull :: "nat \<Rightarrow> reader \<Rightarrow> exn + (token \<times> nat list) list \<times> reader" where
  "pull 0 r = Inr ([], r)"
| "pull (Suc n) r =
     (case rd_read r of
        Inl e \<Rightarrow> Inl e
      | Inr (t, r1) \<Rightarrow>
         (case pull n r1 of Inl e \<Rightarrow> Inl e | Inr (ts, r2) \<Rightarrow> Inr ((t, token_text t r1) # ts, r2)))"

fun keeps_token :: "reader \<Rightarrow> lex_out \<Rightarrow> bool" where
  "keeps_token r (Goes lx r') = (r_token r' = r_token r)"
| "keeps_token r (Gives t r') = (r_token r' = r_token r)"
| "keeps_token r (Fails e) = True"

lemma keeps_token_value: "r_token r' = r_token r \<Longrightarrow> keeps_token r (give_value t r')"
  by (simp add: give_value_def value_token_def split: list.split scope.split)

lemma keeps_token_hex: "keeps_token r (hex_digit_in d lx r)"
  by (simp add: hex_digit_in_def Let_def add_utf8_def split: option.split)

lemma keeps_token_default: "keeps_token r (lex_default ch lx r)"
  by (simp add: lex_default_def keeps_token_value split: option.split list.split)

lemma keeps_token_number:
  "keeps_token r (lex_number_start ch lx r)" "keeps_token r (lex_number_int ch lx r)"
  "keeps_token r (lex_number_zero ch lx r)" "keeps_token r (lex_number_fraction ch lx r)"
  "keeps_token r (lex_number_fraction_tail ch lx r)" "keeps_token r (lex_number_exponent ch lx r)"
  "keeps_token r (lex_number_exponent_tail ch lx r)"
  by (simp_all add: lex_number_start_def lex_number_int_def lex_number_zero_def lex_number_fraction_def
      lex_number_fraction_tail_def lex_number_exponent_def lex_number_exponent_tail_def
      add_byte_def append_byte_def keeps_token_value split: option.split)

lemma keeps_token_string:
  "keeps_token r (lex_string ch lx r)" "keeps_token r (lex_string_escape ch lx r)"
  "keeps_token r (lex_string_escape_hex ch lx r)"
  by (simp_all add: lex_string_def lex_string_escape_def lex_string_escape_hex_def
      add_byte_def append_byte_def keeps_token_value keeps_token_hex split: option.split)

lemma keeps_token_step: "keeps_token r (lex_step ch lx r)"
  by (simp add: lex_step_def keeps_token_default keeps_token_number keeps_token_string split: lex_state.split)

lemma lex_loop_token:
  "lex_loop lx r = Inr (t, r') \<Longrightarrow> r_token r' = r_token r"
proof (induction lx r arbitrary: t r' rule: lex_loop.induct)
  case (1 lx r)
  obtain ch r1 where n: "next_char r = (ch, r1)" by (cases "next_char r")
  then have r1: "r_token r1 = r_token r"
    by (auto simp: next_char_def split: option.splits list.splits)
  show ?case
    using 1(2) 1(1) [OF n[symmetric]] n r1 keeps_token_step [of r1 ch lx]
    by (auto simp: lex_loop.simps [of lx r] split: lex_out.splits)
qed

lemma canon_token [simp]: "r_token (canon r) = r_token r"
  by (simp add: canon_def split: option.split)

lemma canon_buffer [simp]: "r_buffer (canon r) = r_buffer r"
  by (simp add: canon_def split: option.split)

lemma pull_yields:
  assumes "yields c ts c'" "c = canon r" "r_token r = Eof"
  shows "\<exists>r'. pull (length ts) r = Inr (ts, r') \<and> canon r' = c' \<and> r_token r' = Eof"
  using assms
proof (induction c ts c' arbitrary: r rule: yields.induct)
  case (yields_cons c t c1 ts c2 x)
  then obtain r1 where r1: "read_token r = Inr (t, r1)" "c1 = canon r1"
    by (auto simp: read_c_def read_token_def lex_loop_canon split: sum.splits)
  have "r_token r1 = Eof"
    using lex_loop_token r1(1) yields_cons.prems(2) by (simp add: read_token_def)
  then obtain r2 where "pull (length ts) r1 = Inr (ts, r2)" "canon r2 = c2" "r_token r2 = Eof"
    using yields_cons.IH r1(2) by blast
  then show ?case using r1 yields_cons.hyps(3) yields_cons.prems(2)
    by (simp add: rd_read_def token_text_def)
qed simp

lemma canon_new_reader: "canon (new_reader bs) = rdr bs [] []"
  by (simp add: canon_def new_reader_def rdr_def)

lemma read_at_end: "read_c (rdr [] S B) = Inr (Eof, rdr [] S B)"
  by (simp add: read_c_loop loop_c_end lex_step_def lex_default_def)

text \<open>
  C10. The reader reads the compact text of every document whose strings avoid the mishandled
  characters back as the document's tokens, with the decoded strings and the digits of the
  numbers in its buffer, and then reports the end of the stream: lists and objects nested to any
  depth, escapes \<open>\\uXXXX\<close>, negative numbers, commas and colons included.
\<close>

theorem reads_document:
  assumes "clean j"
  shows "\<exists>r. pull (length (tokens j)) (new_reader (render j)) = Inr (tokens j, r)
    \<and> (\<exists>r'. rd_read r = Inr (Eof, r'))"
proof -
  obtain B where y: "yields (rdr (render j) [] []) (tokens j) (rdr [] [] B)"
    using readsD [OF reads_clean [OF assms], of "[]" "[]" "[]"] by auto
  have "r_token (new_reader (render j)) = Eof" by (simp add: new_reader_def)
  then obtain r where r: "pull (length (tokens j)) (new_reader (render j)) = Inr (tokens j, r)"
    "canon r = rdr [] [] B" "r_token r = Eof"
    using pull_yields [OF y canon_new_reader [symmetric]] by blast
  have "read_c r = Inr (Eof, rdr [] [] B)"
    using read_at_end [of "[]" B] r(2) read_c_canon [of r] by simp
  then have "\<exists>r'. read_token r = Inr (Eof, r')"
    unfolding read_c_def by (auto split: sum.splits)
  then show ?thesis using r(1,3) by (simp add: rd_read_def)
qed

lemma reads_document_witness:
  "\<exists>r. pull 7 (new_reader (render (JObj [(str ''a'', JList [JNum (- 21), JStr [65, 200]])])))
     = Inr ([(BeginObject, []), (PropertyName, str ''a''), (BeginList, []), (Number, str ''-21''),
             (String, [65, 195, 136]), (EndList, []), (EndObject, [])], r)"
proof -
  let ?j = "JObj [(str ''a'', JList [JNum (- 21), JStr [65, 200]])]"
  have digits: "dec_nat 21 = [50, 49]" by (simp add: dec_nat.simps)
  have toks: "tokens ?j = [(BeginObject, []), (PropertyName, str ''a''), (BeginList, []), (Number, str ''-21''),
             (String, [65, 195, 136]), (EndList, []), (EndObject, [])]" (is "_ = ?ts")
    by (simp add: str_def utf8_of_def utf8_def decimal_def digits)
  have cl: "clean ?j" by (simp add: str_def clean_unit_def)
  have len: "length ?ts = 7" by simp
  show ?thesis using reads_document [OF cl] unfolding toks len by blast
qed

section \<open>What the reader mishandles\<close>

lemma escape_state_fails:
  assumes "117 \<notin> set bs" "l_st lx = StStringEscape"
  shows "loop_c lx (rdr bs S B) = Inl BadImageFormat"
  using assms
proof (induction bs)
  case Nil
  then show ?case by (simp add: loop_c_end lex_step_def lex_string_escape_def)
next
  case (Cons c bs)
  then show ?case
    by (simp add: loop_c_step lex_step_def lex_string_escape_def append_byte_def)
qed

lemma loop_clean_prefix:
  assumes "list_all clean_unit s" "l_st lx = StString"
  shows "\<exists>lx'. l_st lx' = StString
    \<and> loop_c lx (rdr (concat (map escape s) @ bs) S B) = loop_c lx' (rdr bs S (B @ utf8_of s))"
  using assms
proof (induction s arbitrary: lx B)
  case Nil
  then show ?case by (auto simp: utf8_of_def)
next
  case (Cons c s)
  have c: "c < 65536" "c \<notin> {8, 9, 10, 12, 13, 34, 92}" using Cons.prems by (simp_all add: clean_unit_def)
  obtain ub where ub: "utf8 c = Some ub" using utf8_some c by blast
  have u: "utf8_of (c # s) = ub @ utf8_of s" using ub by (simp add: utf8_of_def)
  have "\<exists>lx'. l_st lx' = StString
    \<and> loop_c lx (rdr (escape c @ concat (map escape s) @ bs) S B)
      = loop_c lx' (rdr (concat (map escape s) @ bs) S (B @ ub))"
  proof (cases "c < 32 \<or> 127 \<le> c")
    case True
    then have "escape c = [92, 117] @ hex4 c" using c by (simp add: escape_def)
    then show ?thesis using loop_unicode [OF Cons.prems(2) c(1) ub] by (metis append.assoc)
  next
    case False
    then have "escape c = [c]" "ub = [c]" using c ub by (simp_all add: escape_def utf8_def)
    then show ?thesis using loop_plain [OF Cons.prems(2)] False c Cons.prems(2) by auto
  qed
  then show ?case using Cons.IH [of _ "B @ ub"] Cons.prems(1) u by fastforce
qed

text \<open>
  A one-letter escape (a quote, a backslash, \<open>\\b\<close>, \<open>\\f\<close>, \<open>\\n\<close>, \<open>\\r\<close> or \<open>\\t\<close>)
  makes the reader reject the string: it stays in the escape state, where only a \<open>\\u\<close> sequence
  leads out, so a document with no later letter \<open>u\<close> raises \<open>BadImageFormatException\<close>, whatever
  else it holds and whatever scope it is in.
\<close>

lemma one_letter_escape_rejected:
  assumes "list_all clean_unit s" "117 \<notin> set bs"
  shows "read_c (rdr (34 # concat (map escape s) @ 92 # bs) S B) = Inl BadImageFormat"
proof -
  let ?lx = "new_lexer\<lparr>l_st := StString\<rparr>"
  have "read_c (rdr (34 # cs) S B) = loop_c ?lx (rdr cs S [])" for cs
    by (simp add: read_c_loop loop_c_step lex_step_def lex_default_def)
  moreover obtain lx' where "l_st lx' = StString"
    "loop_c ?lx (rdr (concat (map escape s) @ 92 # bs) S []) = loop_c lx' (rdr (92 # bs) S ([] @ utf8_of s))"
    using loop_clean_prefix [OF assms(1), of ?lx "92 # bs" S "[]"] by auto
  ultimately show ?thesis
    using escape_state_fails [OF assms(2)] by (simp add: loop_escape)
qed

lemma one_letter_escape_rejected_witness:
  "read_c (rdr (quoted [97, 10, 98]) [] []) = Inl BadImageFormat
   \<and> read_c (rdr (quoted [97, 34, 98]) [] []) = Inl BadImageFormat"
  using one_letter_escape_rejected [of "[97]" "[98, 34]" "[]" "[]"]
    one_letter_escape_rejected [of "[97]" "[34, 98, 34]" "[]" "[]"]
  by (simp add: quoted_def escape_def clean_unit_def)

text \<open>
  The decimal point after a leading zero is lost: the number is accepted, but the buffer its
  value is read from holds the digits without the point.
\<close>

lemma point_after_zero_lost:
  assumes "list_all is_digit ds" "ds \<noteq> []" "delimited bs S" "value_pos S"
  shows "read_c (rdr (48 # 46 # ds @ bs) S B) = Inr (Number, rdr bs (after_value S) (48 # ds))"
proof -
  have tail: "loop_c lx (rdr (es @ bs) S A) = Inr (Number, rdr bs (after_value S) (A @ es))"
    if "list_all is_digit es" "l_st lx = StNumberFractionTail" for es lx A
    using that(1)
  proof (induction es arbitrary: A)
    case Nil
    show ?case
    proof (cases bs)
      case Nil
      then show ?thesis using that(2) assms(3)
        by (simp add: loop_c_end lex_step_def lex_number_fraction_tail_def)
    next
      case (Cons c cs)
      then have "c \<in> {44, 93, 125}" using assms(3) by (simp add: delimited_def)
      then show ?thesis using that(2) Cons assms(4)
        by (auto simp: loop_c_step lex_step_def lex_number_fraction_tail_def is_number_def is_digit_def
            give_value_out value_prev value_token_at)
    qed
  next
    case (Cons d es)
    then show ?case using that(2)
      by (simp add: loop_c_step lex_step_def lex_number_fraction_tail_def add_byte_def is_number_def)
        (auto simp: is_digit_def)
  qed
  obtain d es where ds: "ds = d # es" "is_digit d" "list_all is_digit es" using assms(1,2) by (cases ds) auto
  have "d \<noteq> 101" "d \<noteq> 69" using ds(2) by (auto simp: is_digit_def)
  then show ?thesis using ds tail [of es "new_lexer\<lparr>l_st := StNumberFractionTail\<rparr>" "[48, d]"]
    by (simp add: read_c_loop loop_c_step lex_step_def lex_default_def lex_number_zero_def append_byte_def
        lex_number_fraction_def add_byte_def is_number_def)
qed

lemma point_after_zero_lost_witness:
  "read_c (rdr (str ''0.25'') [] []) = Inr (Number, rdr [] [] (str ''025''))"
  using point_after_zero_lost [of "[50, 53]" "[]" "[]" "[]"] by (simp add: str_def is_digit_def)

lemma raw_control_byte_rejected:
  assumes "128 \<le> c" "c < 160"
  shows "read_c (rdr (34 # c # bs) S B) = Inl BadImageFormat"
  using assms by (simp add: read_c_loop loop_c_step lex_step_def lex_default_def lex_string_def is_control_def)

section \<open>Strings through the writer and the reader\<close>

definition scalar_unit :: "nat \<Rightarrow> bool" where
  "scalar_unit c \<longleftrightarrow> clean_unit c \<and> \<not> (0xD800 \<le> c \<and> c \<le> 0xDFFF)"

lemma utf8_units_decode:
  assumes "h < 65536" "\<not> (0xD800 \<le> h \<and> h \<le> 0xDFFF)" "utf8 h = Some ub"
  shows "utf8_units (ub @ bs) = h # utf8_units bs"
proof -
  consider "h < 0x80" | "0x80 \<le> h" "h < 0x800" | "0x800 \<le> h" by linarith
  then show ?thesis
  proof cases
    case 1
    then show ?thesis using assms(3) by (auto simp: utf8_def utf8_units.simps(2))
  next
    case 2
    have q: "2 \<le> h div 64" "h div 64 < 32" using 2 by auto
    have ub: "ub = [0xC0 + h div 64, 0x80 + h mod 64]" using assms(3) 2 q by (simp add: utf8_def)
    have "h div 64 * 64 + h mod 64 = h" by simp
    moreover have "h mod 64 < 64" by simp
    ultimately show ?thesis using q unfolding ub
      by (simp add: utf8_units.simps(2) is_cont_def)
  next
    case 3
    define a where "a = h div 4096"
    define m where "m = h div 64 mod 64"
    define l where "l = h mod 64"
    have a: "a < 16" using assms(1) unfolding a_def by simp
    have m: "m < 64" and l: "l < 64" by (simp_all add: m_def l_def)
    have "h div 64 = a * 64 + m"
      using div_mult2_eq [of h 64 64] div_mult_mod_eq [of "h div 64" 64] by (simp add: a_def m_def)
    then have h: "h = a * 4096 + m * 64 + l"
      using div_mult_mod_eq [of h 64] by (simp add: l_def)
    have ub: "ub = [0xE0 + a, 0x80 + m, 0x80 + l]"
      using assms(1,3) 3 a by (simp add: utf8_def a_def m_def l_def)
    have "a = 0 \<Longrightarrow> 32 \<le> m" "a = 13 \<Longrightarrow> m < 32" using 3 assms(2) h l m by linarith+
    then have "second_of_3 (0xE0 + a) (0x80 + m)"
      using m by (auto simp: second_of_3_def is_cont_def)
    then show ?thesis using a l h unfolding ub
      by (simp add: utf8_units.simps(2) is_cont_def)
  qed
qed

lemma utf8_units_of: "list_all scalar_unit s \<Longrightarrow> utf8_units (utf8_of s) = s"
proof (induction s)
  case (Cons c s)
  then have c: "c < 65536" "\<not> (0xD800 \<le> c \<and> c \<le> 0xDFFF)" by (simp_all add: scalar_unit_def clean_unit_def)
  obtain ub where ub: "utf8 c = Some ub" using utf8_some c by blast
  then have "utf8_of (c # s) = ub @ utf8_of s" by (simp add: utf8_of_def)
  then show ?case using utf8_units_decode [OF c ub] Cons by simp
qed (simp add: utf8_of_def)

lemma write_chars_out: "write_chars s w = Inr (w\<lparr>w_out := w_out w @ concat (map escape s)\<rparr>)"
  by (induction s arbitrary: w) (simp_all add: w_write_def)

lemma write_string_out: "write_string (Some s) w = Inr (w\<lparr>w_out := w_out w @ quoted s\<rparr>)"
  by (simp add: w_write_def write_chars_out quoted_def)

text \<open>
  C13. A string written by the writer is read back as itself: for every string without surrogates
  and without the characters that get a one-letter escape, the reader accepts what
  \<open>Write(string)\<close> wrote and \<open>GetString\<close> returns the string, non-ASCII characters included.
\<close>

theorem string_write_read:
  assumes "list_all scalar_unit s"
  shows "\<exists>w r. write_string (Some s) new_writer = Inr w
    \<and> rd_read (new_reader (w_out w)) = Inr (String, r) \<and> get_string r = s"
proof -
  have cl: "list_all clean_unit s" using assms by (auto simp: scalar_unit_def list_all_iff)
  have "read_c (rdr (quoted s) [] []) = Inr (String, rdr [] [] (utf8_of s))"
    using read_quoted [OF cl, of "[]" "[]" "[]"] by (simp add: value_token_at)
  then have "read_c (new_reader (quoted s)) = Inr (String, rdr [] [] (utf8_of s))"
    using read_c_canon [of "new_reader (quoted s)"] by (simp add: canon_new_reader)
  then obtain r where r: "read_token (new_reader (quoted s)) = Inr (String, r)" "canon r = rdr [] [] (utf8_of s)"
    by (auto simp: read_c_def split: sum.splits)
  have "r_buffer r = utf8_of s" using r(2) canon_buffer [of r] by simp
  then have "get_string r = s" using utf8_units_of [OF assms] by (simp add: get_string_def)
  moreover have "rd_read (new_reader (quoted s)) = Inr (String, r)"
    using r(1) by (simp add: rd_read_def new_reader_def)
  moreover have "write_string (Some s) new_writer = Inr (new_writer\<lparr>w_out := quoted s\<rparr>)"
    by (simp only: write_string_out) (simp add: new_writer_def)
  ultimately show ?thesis by (metis writer.select_convs(1) writer.surjective writer.update_convs(1))
qed

lemma string_write_read_witness:
  "\<exists>w r. write_string (Some [72, 0xE9, 0x20AC, 1]) new_writer = Inr w
    \<and> rd_read (new_reader (w_out w)) = Inr (String, r) \<and> get_string r = [72, 0xE9, 0x20AC, 1]"
  by (rule string_write_read) (simp add: scalar_unit_def clean_unit_def)

section \<open>The \<open>Read\<close>/\<open>Peek\<close> contract\<close>

text \<open>
  What the deserializers rely on: after a successful \<open>Peek\<close>, \<open>Read\<close> returns the token peeked and
  peeking again changes nothing.
\<close>

locale token_source =
  fixes read :: "'r \<Rightarrow> exn + token \<times> 'r"
    and peek :: "'r \<Rightarrow> exn + token \<times> 'r"
  assumes peek_read: "\<lbrakk>peek r = Inr (t, r'); t \<noteq> Eof\<rbrakk> \<Longrightarrow> \<exists>r''. read r' = Inr (t, r'')"
    and peek_peek: "\<lbrakk>peek r = Inr (t, r'); t \<noteq> Eof\<rbrakk> \<Longrightarrow> peek r' = Inr (t, r')"
    and peek_fails: "(\<exists>e. peek r = Inl e) \<Longrightarrow> (\<exists>e. read r = Inl e)"
begin

lemma peek_commits:
  "\<lbrakk>peek r = Inr (t, r'); t \<noteq> Eof\<rbrakk> \<Longrightarrow> peek r' = Inr (t, r') \<and> (\<exists>r''. read r' = Inr (t, r''))"
  using peek_read [of r t r'] peek_peek [of r t r'] by simp

lemma read_ok_peek_ok: "read r = Inr (t, r') \<Longrightarrow> \<exists>t r''. peek r = Inr (t, r'')"
  using peek_fails [of r] by (cases "peek r") auto

end

interpretation json: token_source rd_read rd_peek
proof
  fix r t r'
  assume p: "rd_peek r = Inr (t, r')" "t \<noteq> Eof"
  have tok: "r_token r' = t" and stable: "r_token r' \<noteq> Eof"
    using p by (auto simp: rd_peek_def split: if_splits sum.splits)
  show "\<exists>r''. rd_read r' = Inr (t, r'')" using tok stable by (simp add: rd_read_def)
  show "rd_peek r' = Inr (t, r')" using tok stable by (simp add: rd_peek_def)
next
  fix r
  assume "\<exists>e. rd_peek r = Inl e"
  then show "\<exists>e. rd_read r = Inl e" by (auto simp: rd_peek_def rd_read_def split: if_splits sum.splits)
qed

end
