(* ===== verification/Rekodb_Types.thy ===== *)
theory Rekodb_Types
  imports Json_Roundtrip
begin

text \<open>
  \<open>rekodb/rekodb/TypeReferenceSerializer.cs\<close>, \<open>TypeReferenceDeserializer.cs\<close> and
  \<open>AbstractDeserializer.cs\<close>.  A data type carries what the visitor reads of Reko's types; the
  constructors for which a visitor method only raises \<open>NotImplementedException\<close> are
  \<open>OtherType\<close>.  Reko's factories \<open>PrimitiveType.Create\<close> and \<open>CreateWord\<close> are arguments.
\<close>

section \<open>Actions that append text\<close>

text \<open>
  \<open>acts f r\<close>: the action \<open>f\<close> appends the text of \<open>r\<close> and leaves the separators as they were,
  or raises \<open>NotImplementedException\<close> when \<open>r\<close> is None.
\<close>

abbreviation W :: "units \<Rightarrow> bool list \<Rightarrow> writer" where
  "W t ss \<equiv> \<lparr>w_out = t, w_seps = ss\<rparr>"

definition acts :: "w_action \<Rightarrow> units option \<Rightarrow> bool" where
  "acts f r \<longleftrightarrow>
     (\<forall>t ss. f (W t ss) = (case r of None \<Rightarrow> Inl NotImplemented | Some s \<Rightarrow> Inr (W (t @ s) ss)))"

lemma actsD: "acts f r \<Longrightarrow>
    f (W t ss) = (case r of None \<Rightarrow> Inl NotImplemented | Some s \<Rightarrow> Inr (W (t @ s) ss))"
  by (simp add: acts_def)

fun all_some :: "'a option list \<Rightarrow> 'a list option" where
  "all_some [] = Some []"
| "all_some (None # xs) = None"
| "all_some (Some x # xs) = map_option ((#) x) (all_some xs)"

lemma all_some_map: "all_some (map (map_option f) xs) = map_option (map f) (all_some xs)"
  by (induction xs rule: all_some.induct) (simp_all add: option.map_comp comp_def)

lemma bind_assoc: "bind_res (bind_res r f) g = bind_res r (\<lambda>x. bind_res (f x) g)"
  by (cases r) simp_all

lemma do_all_single [simp]: "do_all [f] = f"
proof
  fix w show "do_all [f] w = f w" by (cases "f w") simp_all
qed

lemma do_all_append: "do_all (fs @ gs) w = bind_res (do_all fs w) (do_all gs)"
proof (induction fs arbitrary: w)
  case (Cons f fs)
  have "do_all (fs @ gs) = (\<lambda>w. bind_res (do_all fs w) (do_all gs))"
    using Cons.IH by (rule ext)
  then show ?case by (simp add: bind_assoc)
qed simp

text \<open>The tail of a comma-separated sequence.\<close>

fun comma_tail :: "units list \<Rightarrow> units" where
  "comma_tail [] = []"
| "comma_tail (x # xs) = 44 # x @ comma_tail xs"

lemma commas_tail: "commas (x # xs) = x @ comma_tail xs"
  by (induction xs arbitrary: x) simp_all

lemma w_write_W [simp]: "w_write s (W t ss) = Inr (W (t @ s) ss)"
  by (simp add: w_write_def)

lemma write_separator_W [simp]:
  "write_separator (W t (True # ss)) = Inr (W (t @ [44]) (True # ss))"
  "write_separator (W t (False # ss)) = Inr (W t (True # ss))"
  "write_separator (W t []) = Inl InvalidOperation"
  by (simp_all add: write_separator_def str_def)

lemma begin_end_W [simp]:
  "begin_list (W t ss) = Inr (W (t @ [91]) (False # ss))" "end_list (W t (x # ss)) = Inr (W (t @ [93]) ss)"
  "begin_object (W t ss) = Inr (W (t @ [123]) (False # ss))" "end_object (W t (x # ss)) = Inr (W (t @ [125]) ss)"
  by (simp_all add: begin_list_def end_list_def begin_object_def end_object_def push_sep_def pop_sep_def str_def)

lemma write_string_W [simp]: "write_string (Some s) (W t ss) = Inr (W (t @ quoted s) ss)"
  by (simp only: write_string_out) simp

lemma items_tail:
  assumes "list_all2 acts fs rs"
  shows "do_all (map write_list_item_by fs) (W t (True # ss))
    = (case all_some rs of None \<Rightarrow> Inl NotImplemented
       | Some xs \<Rightarrow> Inr (W (t @ comma_tail xs) (True # ss)))"
  using assms
proof (induction arbitrary: t rule: list_all2_induct)
  case (Cons f fs r rs)
  show ?case
    using Cons.IH [of "t @ 44 # the r"] actsD [OF Cons.hyps(1)]
    by (cases r) (simp_all add: write_list_item_by_def split: option.split)
qed simp

lemma items_first:
  assumes "list_all2 acts fs rs"
  shows "do_all (map write_list_item_by fs) (W t (False # ss))
    = (case all_some rs of None \<Rightarrow> Inl NotImplemented
       | Some xs \<Rightarrow> Inr (W (t @ commas xs) ((xs \<noteq> []) # ss)))"
proof (cases fs)
  case Nil
  then show ?thesis using assms by simp
next
  case (Cons f fs')
  then obtain r rs' where rs: "rs = r # rs'" "acts f r" "list_all2 acts fs' rs'"
    using assms by (auto simp: list_all2_Cons1)
  show ?thesis
    using items_tail [OF rs(3), of "t @ the r" ss] actsD [OF rs(2)] Cons rs(1)
    by (cases r) (simp_all add: write_list_item_by_def commas_tail split: option.split)
qed

lemma acts_list:
  assumes "list_all2 acts fs rs"
  shows "acts (do_all (begin_list # map write_list_item_by fs @ [end_list]))
    (map_option (\<lambda>xs. 91 # commas xs @ [93]) (all_some rs))"
  by (simp add: acts_def do_all_append items_first [OF assms] split: option.split)

lemma acts_object:
  assumes "list_all2 acts fs rs"
  shows "acts (do_all (begin_object # map write_list_item_by fs @ [end_object]))
    (map_option (\<lambda>xs. 123 # commas xs @ [125]) (all_some rs))"
  by (simp add: acts_def do_all_append items_first [OF assms] split: option.split)

lemma acts_item: "acts (write_obj x) r \<Longrightarrow> write_list_item x = write_list_item_by (write_obj x)"
  by (simp add: write_list_item_def write_list_item_by_def)

definition keyed :: "units \<Rightarrow> w_action \<Rightarrow> w_action" where
  "keyed k f = do_all [write_string (Some k), w_write (str '':''), f]"

lemma write_key_keyed:
  "write_key_value_by k f = write_list_item_by (keyed k f)"
  "write_key_value k x = write_list_item_by (keyed k (write_obj x))"
  by (auto simp: fun_eq_iff write_key_value_by_def write_key_value_def write_list_item_by_def keyed_def
      bind_assoc simp del: write_string.simps)

lemma acts_keyed: "acts f r \<Longrightarrow> acts (keyed k f) (map_option (\<lambda>s. quoted k @ 58 # s) r)"
  by (simp add: acts_def keyed_def str_def del: write_string.simps split: option.split)

lemma acts_string: "acts (write_obj (OString s)) (Some (quoted s))" "acts (write_string (Some s)) (Some (quoted s))"
  by (simp_all add: acts_def del: write_string.simps)

lemma acts_int: "acts (write_obj (OInt i)) (Some (decimal (sint i)))"
proof -
  have "- (2 ^ 31) \<le> sint i" "sint i < 2 ^ 31"
    using sint_ge [of i] sint_lt [of i] by simp_all
  then show ?thesis
    by (simp add: acts_def write_long_def Let_def sint_up_scast is_up abs_if)
qed

lemma list_item_by: "write_list_item x = write_list_item_by (write_obj x)"
  by (simp add: write_list_item_def write_list_item_by_def)

section \<open>Serializing type references\<close>

datatype domain = DBoolean | DCharacter | DReal | DSignedInt | DUnsignedInt | DOffset | DSelector
  | DPointer | DSegPointer | DOther

datatype data_type =
    Primitive bool domain "32 word"
  | Pointer data_type "32 word"
  | UnknownType "32 word"
  | OtherType

definition type_letter :: "bool \<Rightarrow> domain \<Rightarrow> nat option" where
  "type_letter is_word d =
     (if is_word then Some (of_char CHR ''w'')
      else (case d of
        DBoolean \<Rightarrow> Some (of_char CHR ''b'') | DCharacter \<Rightarrow> Some (of_char CHR ''c'')
      | DReal \<Rightarrow> Some (of_char CHR ''r'') | DSignedInt \<Rightarrow> Some (of_char CHR ''i'')
      | DUnsignedInt \<Rightarrow> Some (of_char CHR ''u'') | DOffset \<Rightarrow> Some (of_char CHR ''o'')
      | DSelector \<Rightarrow> Some (of_char CHR ''s'') | DPointer \<Rightarrow> Some (of_char CHR ''p'')
      | DSegPointer \<Rightarrow> Some (of_char CHR ''P'') | DOther \<Rightarrow> None))"

fun serialize_type :: "data_type \<Rightarrow> w_action" where
  "serialize_type (Pointer t bits) =
     do_all [begin_list, write_list_item (OString (str ''p'')), write_list_item (OInt bits),
       write_list_item_by (serialize_type t), end_list]"
| "serialize_type (Primitive is_word d bits) =
     (case type_letter is_word d of
        None \<Rightarrow> (\<lambda>w. Inl NotImplemented)
      | Some c \<Rightarrow> write_string (Some (c # decimal (sint bits))))"
| "serialize_type (UnknownType bits) =
     do_all [begin_object, write_key_value (str ''unk'') (OInt bits), end_object]"
| "serialize_type OtherType = (\<lambda>w. Inl NotImplemented)"

text \<open>The document a type reference stands for.\<close>

fun type_json :: "data_type \<Rightarrow> json option" where
  "type_json (Pointer t bits) =
     map_option (\<lambda>j. JList [JStr (str ''p''), JNum (sint bits), j]) (type_json t)"
| "type_json (Primitive is_word d bits) =
     map_option (\<lambda>c. JStr (c # decimal (sint bits))) (type_letter is_word d)"
| "type_json (UnknownType bits) = Some (JObj [(str ''unk'', JNum (sint bits))])"
| "type_json OtherType = None"

lemma acts_raises: "acts (\<lambda>w. Inl NotImplemented) None"
  by (simp add: acts_def)

lemma serialize_type_acts: "acts (serialize_type t) (map_option render (type_json t))"
proof (induction t)
  case (Pointer t bits)
  have "acts (do_all (begin_list # map write_list_item_by
      [write_obj (OString (str ''p'')), write_obj (OInt bits), serialize_type t] @ [end_list]))
     (map_option (\<lambda>xs. 91 # commas xs @ [93])
       (all_some [Some (quoted (str ''p'')), Some (decimal (sint bits)), map_option render (type_json t)]))"
    by (rule acts_list) (simp add: acts_string acts_int Pointer del: write_obj.simps)
  then show ?case
    by (cases "type_json t") (simp_all add: list_item_by del: write_obj.simps do_all.simps)
next
  case (Primitive is_word d bits)
  then show ?case
    by (cases "type_letter is_word d") (simp_all add: acts_raises acts_string del: write_string.simps)
next
  case (UnknownType bits)
  have "acts (do_all (begin_object # map write_list_item_by [keyed (str ''unk'') (write_obj (OInt bits))] @ [end_object]))
     (map_option (\<lambda>xs. 123 # commas xs @ [125]) (all_some [map_option (\<lambda>s. quoted (str ''unk'') @ 58 # s) (Some (decimal (sint bits)))]))"
    by (rule acts_object) (use acts_keyed [OF acts_int] in \<open>simp del: write_obj.simps option.map\<close>)
  then show ?case by (simp add: write_key_keyed del: write_obj.simps do_all.simps)
qed (simp add: acts_raises)

section \<open>Deserializing type references\<close>

definition rd_expect :: "token \<Rightarrow> reader \<Rightarrow> exn + reader" where
  "rd_expect t r =
     (case rd_read r of
        Inl e \<Rightarrow> Inl e
      | Inr (t', r') \<Rightarrow> if t' \<noteq> t then Inl InvalidOperation else Inr r')"

definition peek_and_discard :: "token \<Rightarrow> reader \<Rightarrow> exn + bool \<times> reader" where
  "peek_and_discard t r =
     (case rd_peek r of
        Inl e \<Rightarrow> Inl e
      | Inr (t', r') \<Rightarrow>
          if t' \<noteq> t then Inr (False, r')
          else (case rd_read r' of Inl e \<Rightarrow> Inl e | Inr (_, r'') \<Rightarrow> Inr (True, r'')))"

text \<open>The arithmetic of \<open>BitSize\<close> is unchecked 32-bit arithmetic on UTF-16 code units.\<close>

fun bit_size :: "32 word \<Rightarrow> units \<Rightarrow> 32 word" where
  "bit_size n [] = n"
| "bit_size n (c # cs) = bit_size (n * 10 + (of_nat c - 48)) cs"

text \<open>The reader's progress, which bounds the nesting of \<open>Deserialize\<close>.\<close>

definition tokens_bound :: "reader \<Rightarrow> nat" where
  "tokens_bound r = chars_left r + (if r_token r = Eof then 0 else 1)"

fun within :: "nat option \<Rightarrow> reader \<Rightarrow> lex_out \<Rightarrow> bool" where
  "within ch r (Gives t r') \<longleftrightarrow>
     r_in r' = r_in r \<and> (r_prev r' = r_prev r \<or> t = Number \<and> r_prev r' = ch)"
| "within ch r _ \<longleftrightarrow> True"

lemma within_value:
  "\<lbrakk>r_in r' = r_in r; r_prev r' = r_prev r \<or> t = Number \<and> r_prev r' = ch\<rbrakk> \<Longrightarrow> within ch r (give_value t r')"
  by (auto simp: give_value_def value_token_def split: list.split scope.split)

lemma within_hex: "within ch r (hex_digit_in d lx r)"
  by (simp add: hex_digit_in_def Let_def split: sum.split)

lemma within_default: "within ch r (lex_default ch' lx r)"
  by (simp add: lex_default_def within_value split: option.split list.split)

lemma within_number:
  "within ch r (lex_number_start ch lx r)" "within ch r (lex_number_int ch lx r)"
  "within ch r (lex_number_zero ch lx r)" "within ch r (lex_number_fraction ch lx r)"
  "within ch r (lex_number_fraction_tail ch lx r)" "within ch r (lex_number_exponent ch lx r)"
  "within ch r (lex_number_exponent_tail ch lx r)"
  by (simp_all add: lex_number_start_def lex_number_int_def lex_number_zero_def lex_number_fraction_def
      lex_number_fraction_tail_def lex_number_exponent_def lex_number_exponent_tail_def
      add_byte_def append_byte_def within_value split: option.split)

lemma within_string:
  "within ch r (lex_string ch' lx r)" "within ch r (lex_string_escape ch' lx r)"
  "within ch r (lex_string_escape_hex ch' lx r)"
  by (simp_all add: lex_string_def lex_string_escape_def lex_string_escape_hex_def
      add_byte_def append_byte_def within_value within_hex split: option.split)

lemma within_step: "within ch r (lex_step ch lx r)"
  by (simp add: lex_step_def within_default within_number within_string split: lex_state.split)

lemma step_end_token: "lex_step None lx r = Gives t r' \<Longrightarrow> t \<in> {Number, Eof}"
  by (cases "l_st lx")
    (auto simp: lex_step_def lex_defs give_value_def value_token_def split: list.splits scope.splits if_splits)

lemma lex_loop_within:
  "lex_loop lx r = Inr (t, r') \<Longrightarrow> chars_left r' \<le> chars_left r \<and> (t \<in> {Number, Eof} \<or> chars_left r' < chars_left r)"
proof (induction lx r arbitrary: t r' rule: lex_loop.induct)
  case (1 lx r)
  obtain ch r1 where n: "next_char r = (ch, r1)" by (cases "next_char r")
  show ?case
  proof (cases "lex_step ch lx r1")
    case (Goes lx' r2)
    then show ?thesis
      using 1(2) 1(1) [OF n[symmetric] Goes] step_consumes [OF n Goes]
      by (auto simp: lex_loop.simps [of lx r] n)
  next
    case (Gives t' r2)
    then have out: "t = t'" "r' = r2" using 1(2) by (simp_all add: lex_loop.simps [of lx r] n)
    have w: "within ch r1 (Gives t' r2)" using within_step [of ch r1 lx] Gives by simp
    have eof: "ch = None \<Longrightarrow> t' \<in> {Number, Eof}" using Gives step_end_token by blast
    show ?thesis using w n eof unfolding out
      by (auto simp: next_char_def chars_left_def split: option.splits list.splits)
  next
    case (Fails e)
    then show ?thesis using 1(2) by (simp add: lex_loop.simps [of lx r] n)
  qed
qed

lemma rd_read_bound:
  "rd_read r = Inr (t, r') \<Longrightarrow> tokens_bound r' \<le> tokens_bound r \<and> (t \<in> {Number, Eof} \<or> tokens_bound r' < tokens_bound r)"
  using lex_loop_within [of new_lexer r t r'] lex_loop_token [of new_lexer r t r']
  by (auto simp: rd_read_def read_token_def tokens_bound_def chars_left_def split: if_splits)

lemma rd_expect_bound: "rd_expect t r = Inr r' \<Longrightarrow> tokens_bound r' \<le> tokens_bound r"
  using rd_read_bound by (fastforce simp: rd_expect_def split: sum.splits if_splits)

text \<open>
  \<open>Deserialize\<close>: \<open>create\<close> and \<open>create_word\<close> are \<open>PrimitiveType.Create\<close> and \<open>CreateWord\<close>.
  Indexing an empty constructor name raises; a list whose constructor is not \<open>p\<close> and any other
  token are not implemented.
\<close>

function deserialize_type ::
  "(domain \<Rightarrow> 32 word \<Rightarrow> data_type) \<Rightarrow> (32 word \<Rightarrow> data_type) \<Rightarrow> reader \<Rightarrow> exn + data_type \<times> reader" where
  "deserialize_type create create_word r =
     (case rd_read r of
        Inl e \<Rightarrow> Inl e
      | Inr (t, r1) \<Rightarrow>
        if t = String then
          (let s = get_string r1
           in if length s < 2 then Inl InvalidOperation
              else if hd s = of_char CHR ''i'' then Inr (create DSignedInt (bit_size 0 (tl s)), r1)
              else if hd s = of_char CHR ''w'' then Inr (create_word (bit_size 0 (tl s)), r1)
              else Inl NotImplemented)
        else if t = BeginList then
          (case rd_expect String r1 of
             Inl e \<Rightarrow> Inl e
           | Inr r2 \<Rightarrow>
             (case get_string r2 of
                [] \<Rightarrow> Inl IndexExn
              | c # _ \<Rightarrow>
                if c \<noteq> of_char CHR ''p'' then Inl NotImplemented
                else
                  (case rd_expect Number r2 of
                     Inl e \<Rightarrow> Inl e
                   | Inr r3 \<Rightarrow>
                     (case try_get_int32 r3 of
                        None \<Rightarrow> Inl BadImageFormat
                      | Some bits \<Rightarrow>
                        (case deserialize_type create create_word r3 of
                           Inl e \<Rightarrow> Inl e
                         | Inr (pointee, r4) \<Rightarrow>
                           (case rd_expect EndList r4 of
                              Inl e \<Rightarrow> Inl e
                            | Inr r5 \<Rightarrow> Inr (Pointer pointee (word_of_int bits), r5)))))))
        else Inl NotImplemented)"
  by pat_completeness auto
termination
  by (relation "measure (\<lambda>(create, create_word, r). tokens_bound r)")
    (auto dest!: rd_expect_bound dest: rd_read_bound)

declare deserialize_type.simps [simp del]

section \<open>Round trip\<close>

lemma digits_value_snoc:
  "\<lbrakk>list_all is_digit xs; is_digit d\<rbrakk> \<Longrightarrow> digits_value a (xs @ [d]) = digits_value a xs * 10 + (d - 48)"
  by (induction xs arbitrary: a) simp_all

lemma bit_size_snoc: "bit_size a (xs @ [c]) = bit_size a xs * 10 + (of_nat c - 48)"
  by (induction xs arbitrary: a) simp_all

lemma dec_nat_digits: "list_all is_digit (dec_nat n)"
proof (induction n rule: dec_nat.induct)
  case (1 n)
  have "is_digit (48 + n mod 10)" "n < 10 \<Longrightarrow> is_digit (48 + n)"
    by (simp_all add: is_digit_def less_Suc_eq_le [symmetric])
  then show ?case using 1 by (simp add: dec_nat.simps [of n])
qed

lemma dec_nat_nonempty: "dec_nat n \<noteq> []"
  by (subst dec_nat.simps) simp

lemma digits_value_dec: "digits_value 0 (dec_nat n) = n"
proof (induction n rule: dec_nat.induct)
  case (1 n)
  have "is_digit (48 + n mod 10)" by (simp add: is_digit_def less_Suc_eq_le [symmetric])
  then show ?case using 1 digits_value_snoc [OF dec_nat_digits]
    by (auto simp: dec_nat.simps [of n] is_digit_def)
qed

lemma bit_size_dec: "bit_size 0 (dec_nat n) = of_nat n"
proof (induction n rule: dec_nat.induct)
  case (1 n)
  show ?case
  proof (cases "n < 10")
    case True
    then show ?thesis by (simp add: dec_nat.simps [of n])
  next
    case False
    then have "bit_size 0 (dec_nat n) = of_nat (n div 10) * 10 + of_nat (n mod 10)"
      using 1 by (simp add: dec_nat.simps [of n] bit_size_snoc)
    also have "\<dots> = of_nat (n div 10 * 10 + n mod 10)" by (simp only: of_nat_add of_nat_mult of_nat_numeral)
    finally show ?thesis by simp
  qed
qed

lemma bit_size_decimal: "0 \<le> sint b \<Longrightarrow> bit_size 0 (decimal (sint b)) = b"
  by (simp add: decimal_def bit_size_dec)

lemma try_get_decimal:
  assumes "r_buffer r = decimal (sint (b :: 32 word))"
  shows "try_get_int32 r = Some (sint b)"
proof -
  have rng: "- (2 ^ 31) \<le> sint b" "sint b < 2 ^ 31"
    using sint_ge [of b] sint_lt [of b] by simp_all
  obtain d ds where d: "dec_nat (nat \<bar>sint b\<bar>) = d # ds" "is_digit d"
    using dec_nat_nonempty dec_nat_digits [of "nat \<bar>sint b\<bar>"] by (cases "dec_nat (nat \<bar>sint b\<bar>)") auto
  have v: "digits_value 0 (d # ds) = nat \<bar>sint b\<bar>" using digits_value_dec [of "nat \<bar>sint b\<bar>"] d by simp
  have nd: "d \<noteq> 45" "d \<noteq> 43" using d(2) by (auto simp: is_digit_def)
  show ?thesis
  proof (cases "sint b < 0")
    case True
    then have "r_buffer r = 45 # d # ds" using assms d by (simp add: decimal_def)
    then show ?thesis using v d(2) rng True by (simp add: try_get_int32_def Let_def del: digits_value.simps)
  next
    case False
    then have "r_buffer r = d # ds" using assms d by (simp add: decimal_def)
    then show ?thesis using v d(2) rng False nd by (simp add: try_get_int32_def Let_def del: digits_value.simps)
  qed
qed

lemma utf8_ascii: "list_all (\<lambda>c. c < 128) s \<Longrightarrow> utf8_of s = s \<and> utf8_units s = s"
  by (induction s) (auto simp: utf8_of_def utf8_def utf8_units.simps(2))

lemma decimal_ascii: "list_all (\<lambda>c. c < 128) (decimal i)"
proof -
  have "list_all (\<lambda>c. c < 128) (dec_nat n)" for n
    using dec_nat_digits [of n] by (auto simp: list_all_iff is_digit_def)
  then show ?thesis by (simp add: decimal_def)
qed

lemma rd_read_yields:
  assumes "yields (canon r) ((t, x) # ts) c" "r_token r = Eof"
  shows "\<exists>r1. rd_read r = Inr (t, r1) \<and> r_token r1 = Eof \<and> x = token_text t r1 \<and> yields (canon r1) ts c"
proof -
  obtain c1 where c1: "read_c (canon r) = Inr (t, c1)" "yields c1 ts c" "x = token_text t c1"
    using assms(1) by (auto elim: yields_consE)
  then obtain r1 where r1: "read_token r = Inr (t, r1)" "c1 = canon r1"
    by (auto simp: read_c_def read_token_def lex_loop_canon split: sum.splits)
  then have "r_token r1 = Eof"
    using lex_loop_token assms(2) by (simp add: read_token_def)
  then show ?thesis using r1 c1 assms(2) by (simp add: rd_read_def token_text_def)
qed

lemma rd_expect_yields:
  assumes "yields (canon r) ((t, x) # ts) c" "r_token r = Eof"
  shows "\<exists>r1. rd_expect t r = Inr r1 \<and> r_token r1 = Eof \<and> x = token_text t r1 \<and> yields (canon r1) ts c"
  using rd_read_yields [OF assms] by (auto simp: rd_expect_def)

text \<open>The types whose letters the deserializer knows.\<close>

fun readable ::
  "(domain \<Rightarrow> 32 word \<Rightarrow> data_type) \<Rightarrow> (32 word \<Rightarrow> data_type) \<Rightarrow> data_type \<Rightarrow> bool" where
  "readable create create_word (Pointer t bits) = readable create create_word t"
| "readable create create_word (Primitive is_word d bits) \<longleftrightarrow>
     0 \<le> sint bits \<and>
     (if is_word then create_word bits = Primitive is_word d bits
      else d = DSignedInt \<and> create DSignedInt bits = Primitive is_word d bits)"
| "readable create create_word _ = False"

lemma primitive_text:
  assumes "type_letter is_word d = Some c"
  shows "utf8_units (utf8_of (c # decimal i)) = c # decimal i"
proof -
  have "c < 128"
    using assms by (auto simp: type_letter_def of_char_def split: if_splits domain.splits)
  then have "list_all (\<lambda>c. c < 128) (c # decimal i)" using decimal_ascii by simp
  then show ?thesis using utf8_ascii by metis
qed

lemma decimal_nonempty: "decimal i \<noteq> []"
  by (simp add: decimal_def dec_nat_nonempty)

lemma deserialize_yields:
  assumes "type_json t = Some j" "readable create create_word t"
    "yields (canon r) (tokens j @ ts) c" "r_token r = Eof"
  shows "\<exists>r'. deserialize_type create create_word r = Inr (t, r') \<and> r_token r' = Eof \<and> yields (canon r') ts c"
  using assms
proof (induction t arbitrary: r j ts)
  case (Pointer p bits)
  then obtain jp where jp: "type_json p = Some jp" "j = JList [JStr (str ''p''), JNum (sint bits), jp]"
    by auto
  have p: "utf8_units (utf8_of (str ''p'')) = str ''p''" using utf8_ascii [of "str ''p''"] by (simp add: str_def)
  have "yields (canon r) ((BeginList, []) # (String, utf8_of (str ''p'')) # (Number, decimal (sint bits))
      # tokens jp @ (EndList, []) # ts) c" using Pointer.prems(3) jp(2) by simp
  then obtain r1 where r1: "rd_read r = Inr (BeginList, r1)" "r_token r1 = Eof"
    "yields (canon r1) ((String, utf8_of (str ''p'')) # (Number, decimal (sint bits)) # tokens jp @ (EndList, []) # ts) c"
    using rd_read_yields Pointer.prems(4) by blast
  then obtain r2 where r2: "rd_expect String r1 = Inr r2" "r_token r2 = Eof" "utf8_of (str ''p'') = token_text String r2"
    "yields (canon r2) ((Number, decimal (sint bits)) # tokens jp @ (EndList, []) # ts) c"
    using rd_expect_yields by blast
  then obtain r3 where r3: "rd_expect Number r2 = Inr r3" "r_token r3 = Eof" "decimal (sint bits) = token_text Number r3"
    "yields (canon r3) (tokens jp @ (EndList, []) # ts) c"
    using rd_expect_yields by blast
  then obtain r4 where r4: "deserialize_type create create_word r3 = Inr (p, r4)" "r_token r4 = Eof"
    "yields (canon r4) ((EndList, []) # ts) c"
    using Pointer.IH [OF jp(1) _ r3(4) r3(2)] Pointer.prems(2) by auto
  then obtain r5 where r5: "rd_expect EndList r4 = Inr r5" "r_token r5 = Eof" "yields (canon r5) ts c"
    using rd_expect_yields by blast
  have "get_string r2 = [of_char CHR ''p'']"
    using r2(3) p by (simp add: get_string_def token_text_def str_def)
  moreover have "try_get_int32 r3 = Some (sint bits)"
    using r3(3) by (intro try_get_decimal) (simp add: token_text_def)
  ultimately show ?case
    using r1 r2 r3 r4 r5 by (simp add: deserialize_type.simps [of create create_word r])
next
  case (Primitive is_word d bits)
  then obtain l where l: "type_letter is_word d = Some l" "j = JStr (l # decimal (sint bits))" by auto
  have "yields (canon r) ((String, utf8_of (l # decimal (sint bits))) # ts) c" using Primitive.prems(3) l(2) by simp
  then obtain r1 where r1: "rd_read r = Inr (String, r1)" "r_token r1 = Eof"
    "utf8_of (l # decimal (sint bits)) = token_text String r1" "yields (canon r1) ts c"
    using rd_read_yields Primitive.prems(4) by blast
  have s: "get_string r1 = l # decimal (sint bits)"
    using r1(3) [symmetric] primitive_text [OF l(1)] by (simp add: get_string_def token_text_def)
  have len: "\<not> length (l # decimal (sint bits)) < 2" using decimal_nonempty [of "sint bits"] by (cases "decimal (sint bits)") auto
  show ?case
    using r1 s len l(1) Primitive.prems(2) bit_size_decimal [of bits]
    by (auto simp: deserialize_type.simps [of create create_word r] Let_def type_letter_def split: if_splits)
qed simp_all

lemma clean_type: "type_json t = Some j \<Longrightarrow> clean j"
proof (induction t arbitrary: j)
  case (Primitive is_word d bits)
  have "list_all clean_unit (decimal i)" for i
  proof -
    have "list_all clean_unit (dec_nat n)" for n
      using dec_nat_digits [of n] by (auto simp: list_all_iff is_digit_def clean_unit_def)
    then show ?thesis by (simp add: decimal_def clean_unit_def)
  qed
  moreover have "type_letter is_word d = Some l \<Longrightarrow> clean_unit l" for l
    by (auto simp: type_letter_def clean_unit_def split: if_splits domain.splits)
  ultimately show ?case using Primitive by auto
qed (auto simp: str_def clean_unit_def)

text \<open>
  C12. Type references survive the database: what \<open>TypeReferenceSerializer\<close> writes for a word or
  signed-integer primitive, or for pointers to such types nested to any depth,
  \<open>TypeReferenceDeserializer\<close> reads back as the same type.
\<close>

theorem type_reference_roundtrip:
  assumes "type_json t \<noteq> None" "readable create create_word t"
  shows "\<exists>w r. serialize_type t new_writer = Inr w
    \<and> deserialize_type create create_word (new_reader (w_out w)) = Inr (t, r)"
proof -
  obtain j where j: "type_json t = Some j" using assms(1) by blast
  have w: "serialize_type t new_writer = Inr (W (render j) [])"
    using actsD [OF serialize_type_acts, of t "[]" "[]"] j by (simp add: new_writer_def)
  obtain B where "yields (rdr (render j) [] []) (tokens j @ []) (rdr [] [] B)"
    using readsD [OF reads_clean [OF clean_type [OF j]], of "[]" "[]" "[]"] by auto
  then have "\<exists>r'. deserialize_type create create_word (new_reader (render j)) = Inr (t, r')"
    using deserialize_yields [OF j assms(2), of "new_reader (render j)" "[]"] canon_new_reader [of "render j"]
    by (auto simp: new_reader_def)
  then show ?thesis using w by auto
qed

lemma type_reference_roundtrip_witness:
  "\<exists>w r. serialize_type (Pointer (Pointer (Primitive False DSignedInt 16) 32) 64) new_writer = Inr w
    \<and> deserialize_type (Primitive False) (Primitive True DOther) (new_reader (w_out w))
      = Inr (Pointer (Pointer (Primitive False DSignedInt 16) 32) 64, r)"
  by (rule type_reference_roundtrip) (simp_all add: type_letter_def)

text \<open>
  The deserializer knows two of the ten letters the serializer writes: a primitive of any
  other domain is written, and reading it back raises \<open>NotImplementedException\<close>.
\<close>

lemma other_primitives_not_read:
  assumes "d \<notin> {DSignedInt, DOther}"
  shows "\<exists>w. serialize_type (Primitive False d bits) new_writer = Inr w
    \<and> deserialize_type create create_word (new_reader (w_out w)) = Inl NotImplemented"
proof -
  obtain l where l: "type_letter False d = Some l" "l \<noteq> of_char CHR ''i''" "l \<noteq> of_char CHR ''w''"
    using assms by (cases d) (auto simp: type_letter_def)
  let ?j = "JStr (l # decimal (sint bits))"
  have j: "type_json (Primitive False d bits) = Some ?j" using l by simp
  have w: "serialize_type (Primitive False d bits) new_writer = Inr (W (render ?j) [])"
    using actsD [OF serialize_type_acts, of "Primitive False d bits" "[]" "[]"] j
    by (simp add: new_writer_def del: serialize_type.simps)
  obtain B where "yields (rdr (render ?j) [] []) (tokens ?j) (rdr [] [] B)"
    using readsD [OF reads_clean [OF clean_type [OF j]], of "[]" "[]" "[]"] by auto
  then have "yields (canon (new_reader (render ?j))) [(String, utf8_of (l # decimal (sint bits)))] (rdr [] [] B)"
    by (simp add: canon_new_reader)
  moreover have "r_token (new_reader (render ?j)) = Eof" by (simp add: new_reader_def)
  ultimately obtain r1 where r1: "rd_read (new_reader (render ?j)) = Inr (String, r1)"
    "utf8_of (l # decimal (sint bits)) = token_text String r1"
    using rd_read_yields by blast
  have s: "get_string r1 = l # decimal (sint bits)"
    using r1(2) [symmetric] primitive_text [OF l(1)] by (simp add: get_string_def token_text_def)
  have len: "\<not> length (l # decimal (sint bits)) < 2" using decimal_nonempty [of "sint bits"] by (cases "decimal (sint bits)") auto
  have "deserialize_type create create_word (new_reader (render ?j)) = Inl NotImplemented"
    using r1(1) s len l(2,3) by (simp add: deserialize_type.simps [of create create_word "new_reader _"] Let_def)
  then show ?thesis using w by auto
qed

lemma other_primitives_not_read_witness:
  "\<exists>w. serialize_type (Primitive False DReal 64) new_writer = Inr w
    \<and> deserialize_type (Primitive False) (Primitive True DOther) (new_reader (w_out w)) = Inl NotImplemented"
  by (rule other_primitives_not_read) simp

end
