(* ===== verification/Rekodb_Expr.thy ===== *)
theory Rekodb_Expr
  imports Rekodb_Types
begin

text \<open>
  \<open>rekodb/rekodb/ExpressionSerializer.cs\<close>: the visitor that writes Reko expressions as JSON.  An
  expression carries what each visitor method reads; \<open>OtherExpr\<close> stands for the eleven visitor
  methods that only raise \<open>NotImplementedException\<close>.  Names, addresses and constants are the
  strings the code obtains from Reko (\<open>Name\<close>, \<open>ToString\<close>).
\<close>

section \<open>Expressions\<close>

datatype binary_operator = IAdd | AndOp | ISub | OrOp | XorOp | EqOp | LeOp | LtOp | GeOp | GtOp
  | UleOp | UltOp | UgeOp | UgtOp | NeOp | ShlOp | SarOp | ShrOp | SMul | SDiv | UMul | UDiv | IMul
  | IMod | FAdd | FSub | FMul | FDiv | Req | Rne | Rge | Rgt | Rle | Rlt | OtherOp

datatype unary_operator = Comp | Neg | NotOp | OtherUnary

datatype callee = Procedure units | ExternalProcedure units | IntrinsicProcedure units | OtherCallee

datatype expr =
    Address units
  | Application expr "expr list"
  | BinaryExpression binary_operator expr expr data_type
  | ConditionOf expr
  | Constant data_type units
  | Conversion expr data_type data_type
  | Identifier units
  | MemoryAccess expr data_type
  | MkSequence "expr list"
  | ProcedureConstant callee
  | SegmentedPointer expr expr
  | Slice expr data_type "32 word"
  | TestCondition units expr
  | UnaryExpression unary_operator expr
  | OtherExpr

definition binary_text :: "binary_operator \<Rightarrow> units option" where
  "binary_text bop = map_option str (case bop of
     IAdd \<Rightarrow> Some ''+'' | AndOp \<Rightarrow> Some ''&'' | ISub \<Rightarrow> Some ''-'' | OrOp \<Rightarrow> Some ''|''
   | XorOp \<Rightarrow> Some ''|'' | EqOp \<Rightarrow> Some ''=='' | LeOp \<Rightarrow> Some ''<='' | LtOp \<Rightarrow> Some ''<''
   | GeOp \<Rightarrow> Some ''>='' | GtOp \<Rightarrow> Some ''>'' | UleOp \<Rightarrow> Some ''<=u'' | UltOp \<Rightarrow> Some ''<u''
   | UgeOp \<Rightarrow> Some ''>=u'' | UgtOp \<Rightarrow> Some ''>u'' | NeOp \<Rightarrow> Some ''!='' | ShlOp \<Rightarrow> Some ''<<''
   | SarOp \<Rightarrow> Some ''>>'' | ShrOp \<Rightarrow> Some ''>>u'' | SMul \<Rightarrow> Some ''*s'' | SDiv \<Rightarrow> Some ''/s''
   | UMul \<Rightarrow> Some ''*u'' | UDiv \<Rightarrow> Some ''/u'' | IMul \<Rightarrow> Some ''*'' | IMod \<Rightarrow> Some ''%''
   | FAdd \<Rightarrow> Some ''+f'' | FSub \<Rightarrow> Some ''-f'' | FMul \<Rightarrow> Some ''*f'' | FDiv \<Rightarrow> Some ''/f''
   | Req \<Rightarrow> Some ''==f'' | Rne \<Rightarrow> Some ''!=f'' | Rge \<Rightarrow> Some ''>=f'' | Rgt \<Rightarrow> Some ''>f''
   | Rle \<Rightarrow> Some ''<=f'' | Rlt \<Rightarrow> Some ''<f'' | OtherOp \<Rightarrow> None)"

definition unary_text :: "unary_operator \<Rightarrow> units option" where
  "unary_text uop = map_option str (case uop of
     Comp \<Rightarrow> Some ''~'' | Neg \<Rightarrow> Some ''-'' | NotOp \<Rightarrow> Some ''!'' | OtherUnary \<Rightarrow> None)"

lemma write_contents_cong:
  "(\<And>x. x \<in> set xs \<Longrightarrow> f x = g x) \<Longrightarrow> write_list_contents sep xs f w = write_list_contents sep xs g w"
proof (induction xs arbitrary: sep w)
  case (Cons x xs)
  have "f x = g x" using Cons.prems by simp
  moreover have "write_list_contents True xs f = write_list_contents True xs g"
    by (rule ext) (rule Cons.IH, simp add: Cons.prems)
  ultimately show ?case by simp
qed simp

lemma write_list_cong [fundef_cong]:
  "\<lbrakk>xs = ys; \<And>x. x \<in> set ys \<Longrightarrow> f x = g x\<rbrakk> \<Longrightarrow> write_list xs f = write_list ys g"
proof -
  assume "xs = ys" "\<And>x. x \<in> set ys \<Longrightarrow> f x = g x"
  moreover have "write_list_contents False ys f = write_list_contents False ys g"
    by (rule ext) (rule write_contents_cong, fact)
  ultimately show ?thesis by (simp add: write_list_def)
qed

section \<open>The visitor\<close>

definition serialize_callee :: "callee \<Rightarrow> w_action" where
  "serialize_callee c =
     (case c of
        Procedure n \<Rightarrow> write_string (Some n)
      | ExternalProcedure n \<Rightarrow>
          do_all [begin_list, write_list_item (OString (str ''ex'')), write_list_item (OString n), end_list]
      | IntrinsicProcedure n \<Rightarrow>
          do_all [begin_list, write_list_item (OString (str ''i'')), write_list_item (OString n), end_list]
      | OtherCallee \<Rightarrow> (\<lambda>w. Inl NotImplemented))"

fun serialize_expr :: "expr \<Rightarrow> w_action" where
  "serialize_expr (Address a) =
     do_all [begin_list, write_list_item (OString (str ''@'')), write_list_item (OString a), end_list]"
| "serialize_expr (Application f args) =
     do_all [begin_list, write_list_item (OString (str ''a'')), write_list_item_by (serialize_expr f),
       write_list_item_by (write_list args serialize_expr), end_list]"
| "serialize_expr (BinaryExpression bop l r t) =
     (case binary_text bop of
        None \<Rightarrow> (\<lambda>w. Inl NotImplemented)
      | Some s \<Rightarrow>
          do_all [begin_list, write_list_item (OString s), write_list_item_by (serialize_expr l),
            write_list_item_by (serialize_expr r), write_list_item_by (serialize_type t), end_list])"
| "serialize_expr (ConditionOf e) =
     do_all [begin_list, write_list_item (OString (str ''cof'')), write_list_item_by (serialize_expr e), end_list]"
| "serialize_expr (Constant t v) =
     do_all [begin_object, write_key_value_by (str ''c'') (serialize_type t),
       write_key_value (str ''v'') (OString v), end_object]"
| "serialize_expr (Conversion e s t) =
     do_all [begin_list, write_list_item (OString (str ''cv'')), write_list_item_by (serialize_expr e),
       write_list_item_by (serialize_type s), write_list_item_by (serialize_type t), end_list]"
| "serialize_expr (Identifier n) = write_string (Some n)"
| "serialize_expr (MemoryAccess e t) =
     do_all [begin_list, write_list_item (OString (str ''m'')), write_list_item_by (serialize_expr e),
       write_list_item_by (serialize_type t), end_list]"
| "serialize_expr (MkSequence es) =
     do_all ([begin_list, write_list_item (OString (str ''q''))]
       @ map (\<lambda>e. write_list_item_by (serialize_expr e)) es @ [end_list])"
| "serialize_expr (ProcedureConstant c) = serialize_callee c"
| "serialize_expr (SegmentedPointer b e) =
     do_all [begin_list, write_list_item (OString (str '':'')), write_list_item_by (serialize_expr b),
       write_list_item_by (serialize_expr e), end_list]"
| "serialize_expr (Slice e t off) =
     do_all [begin_list, write_list_item (OString (str ''l'')), write_list_item_by (serialize_expr e),
       write_list_item_by (serialize_type t), write_list_item (OInt off), end_list]"
| "serialize_expr (TestCondition cc e) =
     do_all [begin_list, write_list_item (OString (str ''test'')), write_list_item (OString cc),
       write_list_item_by (serialize_expr e), end_list]"
| "serialize_expr (UnaryExpression uop e) =
     (case unary_text uop of
        None \<Rightarrow> (\<lambda>w. Inl NotImplemented)
      | Some s \<Rightarrow>
          do_all [begin_list, write_list_item (OString (str ''u'')), write_list_item (OString s),
            write_list_item_by (serialize_expr e), end_list])"
| "serialize_expr OtherExpr = (\<lambda>w. Inl NotImplemented)"

section \<open>The documents of expressions\<close>

definition j_list :: "json option list \<Rightarrow> json option" where
  "j_list js = map_option JList (all_some js)"

definition callee_json :: "callee \<Rightarrow> json option" where
  "callee_json c =
     (case c of
        Procedure n \<Rightarrow> Some (JStr n)
      | ExternalProcedure n \<Rightarrow> Some (JList [JStr (str ''ex''), JStr n])
      | IntrinsicProcedure n \<Rightarrow> Some (JList [JStr (str ''i''), JStr n])
      | OtherCallee \<Rightarrow> None)"

primrec expr_json :: "expr \<Rightarrow> json option" where
  "expr_json (Address a) = Some (JList [JStr (str ''@''), JStr a])"
| "expr_json (Application f args) =
     j_list [Some (JStr (str ''a'')), expr_json f, j_list (map expr_json args)]"
| "expr_json (BinaryExpression bop l r t) =
     j_list [map_option JStr (binary_text bop), expr_json l, expr_json r, type_json t]"
| "expr_json (ConditionOf e) = j_list [Some (JStr (str ''cof'')), expr_json e]"
| "expr_json (Constant t v) =
     map_option (\<lambda>j. JObj [(str ''c'', j), (str ''v'', JStr v)]) (type_json t)"
| "expr_json (Conversion e s t) = j_list [Some (JStr (str ''cv'')), expr_json e, type_json s, type_json t]"
| "expr_json (Identifier n) = Some (JStr n)"
| "expr_json (MemoryAccess e t) = j_list [Some (JStr (str ''m'')), expr_json e, type_json t]"
| "expr_json (MkSequence es) = j_list (Some (JStr (str ''q'')) # map expr_json es)"
| "expr_json (ProcedureConstant c) = callee_json c"
| "expr_json (SegmentedPointer b e) = j_list [Some (JStr (str '':'')), expr_json b, expr_json e]"
| "expr_json (Slice e t off) =
     j_list [Some (JStr (str ''l'')), expr_json e, type_json t, Some (JNum (sint off))]"
| "expr_json (TestCondition cc e) = j_list [Some (JStr (str ''test'')), Some (JStr cc), expr_json e]"
| "expr_json (UnaryExpression uop e) =
     j_list [Some (JStr (str ''u'')), map_option JStr (unary_text uop), expr_json e]"
| "expr_json OtherExpr = None"

section \<open>Refinement\<close>

lemma contents_acts:
  assumes "\<And>x. x \<in> set xs \<Longrightarrow> acts (f x) (g x)"
  shows "write_list_contents sep xs f (W t ss)
    = (case all_some (map g xs) of None \<Rightarrow> Inl NotImplemented
       | Some ys \<Rightarrow> Inr (W (t @ (if sep then comma_tail ys else commas ys)) ss))"
  using assms
proof (induction xs arbitrary: t sep)
  case (Cons x xs)
  have sep: "(if sep then w_write (str '','') else Inr) (W t ss) = Inr (W (t @ (if sep then [44] else [])) ss)"
    by (simp add: str_def)
  have ih: "write_list_contents True xs f (W u ss)
      = (case all_some (map g xs) of None \<Rightarrow> Inl NotImplemented | Some ys \<Rightarrow> Inr (W (u @ comma_tail ys) ss))" for u
    using Cons.IH [of True u] Cons.prems by (simp cong: option.case_cong)
  have hd: "f x (W u ss) = (case g x of None \<Rightarrow> Inl NotImplemented | Some s \<Rightarrow> Inr (W (u @ s) ss))" for u
    using actsD [OF Cons.prems [of x]] by simp
  show ?case by (cases "g x") (auto simp: sep ih hd commas_tail split: option.split)
qed simp

lemma acts_write_list:
  assumes "\<And>x. x \<in> set xs \<Longrightarrow> acts (f x) (map_option render (g x))"
  shows "acts (write_list xs f) (map_option render (j_list (map g xs)))"
proof -
  have "all_some (map (\<lambda>x. map_option render (g x)) xs) = map_option (map render) (all_some (map g xs))"
    using all_some_map [of render "map g xs"] by (simp add: comp_def)
  then show ?thesis
    using contents_acts [of xs f "\<lambda>x. map_option render (g x)" False, OF assms]
    by (auto simp: acts_def write_list_def j_list_def str_def split: option.split)
qed

lemma acts_items:
  assumes "list_all2 acts fs (map (map_option render) js)"
  shows "acts (do_all (begin_list # map write_list_item_by fs @ [end_list])) (map_option render (j_list js))"
  using acts_list [OF assms] by (simp add: all_some_map j_list_def option.map_comp comp_def)

lemma acts_str_item: "acts (write_obj (OString s)) (map_option render (Some (JStr s)))"
  using acts_string(1) by simp

lemma acts_int_item: "acts (write_obj (OInt i)) (map_option render (Some (JNum (sint i))))"
  using acts_int by simp

lemma acts_2: "\<lbrakk>acts f1 (map_option render j1); acts f2 (map_option render j2)\<rbrakk>
  \<Longrightarrow> acts (do_all [begin_list, write_list_item_by f1, write_list_item_by f2, end_list]) (map_option render (j_list [j1, j2]))"
  using acts_items [of "[f1, f2]" "[j1, j2]"] by simp

lemma acts_3: "\<lbrakk>acts f1 (map_option render j1); acts f2 (map_option render j2); acts f3 (map_option render j3)\<rbrakk>
  \<Longrightarrow> acts (do_all [begin_list, write_list_item_by f1, write_list_item_by f2, write_list_item_by f3, end_list])
        (map_option render (j_list [j1, j2, j3]))"
  using acts_items [of "[f1, f2, f3]" "[j1, j2, j3]"] by simp

lemma acts_4: "\<lbrakk>acts f1 (map_option render j1); acts f2 (map_option render j2); acts f3 (map_option render j3);
    acts f4 (map_option render j4)\<rbrakk>
  \<Longrightarrow> acts (do_all [begin_list, write_list_item_by f1, write_list_item_by f2, write_list_item_by f3,
        write_list_item_by f4, end_list]) (map_option render (j_list [j1, j2, j3, j4]))"
  using acts_items [of "[f1, f2, f3, f4]" "[j1, j2, j3, j4]"] by simp

lemmas acts_leaves = acts_str_item acts_int_item serialize_type_acts

lemma serialize_callee_acts: "acts (serialize_callee c) (map_option render (callee_json c))"
proof (cases c)
  case (ExternalProcedure n)
  then show ?thesis using acts_2 [OF acts_str_item acts_str_item, of "str ''ex''" n]
    by (simp add: serialize_callee_def callee_json_def list_item_by j_list_def
        del: write_obj.simps do_all.simps render.simps)
next
  case (IntrinsicProcedure n)
  then show ?thesis using acts_2 [OF acts_str_item acts_str_item, of "str ''i''" n]
    by (simp add: serialize_callee_def callee_json_def list_item_by j_list_def
        del: write_obj.simps do_all.simps render.simps)
qed (simp_all add: serialize_callee_def callee_json_def acts_string acts_raises del: write_string.simps)

lemma serialize_sequence_acts:
  assumes "\<And>e. e \<in> set es \<Longrightarrow> acts (f e) (map_option render (g e))"
  shows "acts (do_all ([begin_list, write_list_item (OString s)] @ map (\<lambda>e. write_list_item_by (f e)) es @ [end_list]))
    (map_option render (j_list (Some (JStr s) # map g es)))"
proof -
  have "list_all2 acts (map f es) (map (map_option render) (map g es))"
    using assms by (simp add: list_all2_conv_all_nth)
  then show ?thesis
    using acts_items [of "write_obj (OString s) # map f es" "Some (JStr s) # map g es"] acts_str_item [of s]
    by (simp add: list_item_by comp_def del: write_obj.simps do_all.simps)
qed

lemma serialize_constant_acts:
  "acts (serialize_expr (Constant t v)) (map_option render (expr_json (Constant t v)))"
proof -
  have "acts (do_all (begin_object # map write_list_item_by
      [keyed (str ''c'') (serialize_type t), keyed (str ''v'') (write_obj (OString v))] @ [end_object]))
    (map_option (\<lambda>xs. 123 # commas xs @ [125])
      (all_some [map_option (\<lambda>s. quoted (str ''c'') @ 58 # s) (map_option render (type_json t)),
                 map_option (\<lambda>s. quoted (str ''v'') @ 58 # s) (Some (quoted v))]))"
    using acts_keyed [OF serialize_type_acts] acts_keyed [OF acts_string(1)]
    by (intro acts_object) (simp del: write_obj.simps option.map)
  then show ?thesis
    by (cases "type_json t") (simp_all add: write_key_keyed del: write_obj.simps do_all.simps)
qed

lemma serialize_expr_acts: "acts (serialize_expr e) (map_option render (expr_json e))"
proof (induction e)
  case (Application f args)
  have "acts (write_list args serialize_expr) (map_option render (j_list (map expr_json args)))"
    by (rule acts_write_list) (rule Application)
  then show ?case using acts_3 [OF acts_str_item Application(1)]
    by (simp add: list_item_by del: write_obj.simps do_all.simps)
next
  case (BinaryExpression bop l r t)
  show ?case
  proof (cases "binary_text bop")
    case None
    then show ?thesis by (simp add: acts_raises j_list_def)
  next
    case (Some s)
    then show ?thesis
      using acts_4 [OF acts_str_item BinaryExpression serialize_type_acts, of s t]
      by (simp add: list_item_by del: write_obj.simps do_all.simps)
  qed
next
  case (UnaryExpression uop e)
  show ?case
  proof (cases "unary_text uop")
    case None
    then show ?thesis by (simp add: acts_raises j_list_def)
  next
    case (Some s)
    then show ?thesis
      using acts_3 [OF acts_str_item acts_str_item UnaryExpression, of "str ''u''" s]
      by (simp add: list_item_by del: write_obj.simps do_all.simps)
  qed
next
  case (MkSequence es)
  then show ?case using serialize_sequence_acts [of es serialize_expr expr_json "str ''q''"]
    by (simp add: comp_def del: write_obj.simps do_all.simps)
next
  case (Constant t v)
  show ?case by (rule serialize_constant_acts)
next
  case (Address a)
  show ?case using acts_2 [OF acts_str_item acts_str_item, of "str ''@''" a]
    by (simp add: list_item_by j_list_def del: write_obj.simps do_all.simps render.simps)
next
  case (ProcedureConstant c)
  show ?case by (simp add: serialize_callee_acts)
next
  case (Identifier n)
  show ?case by (simp add: acts_string del: write_string.simps)
next
  case (ConditionOf e)
  then show ?case using acts_2 [OF acts_str_item ConditionOf]
    by (simp add: list_item_by del: write_obj.simps do_all.simps)
next
  case (Conversion e s t)
  then show ?case using acts_4 [OF acts_str_item Conversion serialize_type_acts serialize_type_acts]
    by (simp add: list_item_by del: write_obj.simps do_all.simps)
next
  case (MemoryAccess e t)
  then show ?case using acts_3 [OF acts_str_item MemoryAccess serialize_type_acts]
    by (simp add: list_item_by del: write_obj.simps do_all.simps)
next
  case (SegmentedPointer b e)
  then show ?case using acts_3 [OF acts_str_item SegmentedPointer]
    by (simp add: list_item_by del: write_obj.simps do_all.simps)
next
  case (Slice e t off)
  then show ?case using acts_4 [OF acts_str_item Slice serialize_type_acts acts_int_item]
    by (simp add: list_item_by del: write_obj.simps do_all.simps)
next
  case (TestCondition cc e)
  then show ?case using acts_3 [OF acts_str_item acts_str_item TestCondition]
    by (simp add: list_item_by del: write_obj.simps do_all.simps)
qed (simp add: acts_raises)

text \<open>
  C11. The expression visitor refines the document tree of the expression: it writes exactly the
  compact text of \<open>expr_json e\<close>, with every comma and bracket in place and the separator stack
  balanced, or raises \<open>NotImplementedException\<close> when some part of \<open>e\<close> has no representation.
\<close>

theorem serialize_expr_refines:
  "serialize_expr e \<lparr>w_out = t, w_seps = ss\<rparr>
    = (case expr_json e of None \<Rightarrow> Inl NotImplemented
       | Some j \<Rightarrow> Inr \<lparr>w_out = t @ render j, w_seps = ss\<rparr>)"
  using actsD [OF serialize_expr_acts, of e t ss] by (simp split: option.splits)

text \<open>
  The operator texts are ambiguous in one place only: the bitwise or and exclusive or are both
  written as \<open>|\<close>, so expressions that differ in them have the same text, and every other pair of
  different supported operators has different texts.
\<close>

lemma binary_text_collision:
  "(binary_text o1 = binary_text o2)
    = (o1 = o2 \<or> {o1, o2} = {OrOp, XorOp})
   \<and> serialize_expr (BinaryExpression XorOp l r t) = serialize_expr (BinaryExpression OrOp l r t)"
proof
  show "(binary_text o1 = binary_text o2) = (o1 = o2 \<or> {o1, o2} = {OrOp, XorOp})"
    by (cases o1; cases o2) (simp_all add: binary_text_def str_def insert_commute doubleton_eq_iff)
  show "serialize_expr (BinaryExpression XorOp l r t) = serialize_expr (BinaryExpression OrOp l r t)"
    by (simp add: binary_text_def)
qed

end
