(* ===== verification/Rekodb_Proc.thy ===== *)
theory Rekodb_Proc
  imports Rekodb_Expr
begin

text \<open>
  \<open>rekodb/rekodb/ProcedureSerializer.cs\<close>, \<open>ProgramSerializer.cs\<close> and
  \<open>ProcedureDeserializer.cs\<close>.  Procedures carry the lists the code enumerates: the collected
  identifiers in the order of \<open>OrderBy(Name).ThenBy(Domain)\<close> (the collector is Reko's visitor),
  and the blocks in the order of \<open>SortBlocksByName\<close>.  A numeric property that is written through
  \<open>Write(object)\<close> is kept as the boxed value.
\<close>

section \<open>Serializing procedures\<close>

datatype storage =
    RegisterStorage units obj obj
  | FlagGroupStorage obj units
  | SequenceStorage units obj "storage list"
  | TemporaryStorage bool units obj
  | MemoryStorage
  | OtherStorage

datatype call_binding = CallBinding storage expr

datatype statement =
    Assignment units expr
  | Store expr expr
  | Branch expr units
  | CallInstruction expr obj "call_binding list" "call_binding list"
  | ReturnInstruction "expr option"
  | SideEffect expr
  | SwitchInstruction expr "units list"
  | OtherInstruction

record ident =
  id_name :: units
  id_type :: data_type
  id_storage :: storage

record block =
  block_id :: units
  block_statements :: "statement list"
  block_succ :: "units list"

record procedure =
  entry_address :: units
  proc_identifiers :: "ident list"
  proc_blocks :: "block list"

fun serialize_storage :: "storage \<Rightarrow> w_action" where
  "serialize_storage (RegisterStorage n off sz) =
     do_all [begin_list, write_string (Some (str ''reg'')),
       write_list_item_by (do_all [begin_object, write_key_value (str ''n'') (OString n),
         write_key_value (str ''off'') off, write_key_value (str ''sz'') sz]),
       end_list]"
| "serialize_storage (FlagGroupStorage bits freg) =
     do_all [begin_list, write_string (Some (str ''grf'')),
       write_list_item_by (do_all [begin_object, write_key_value (str ''off'') bits,
         write_key_value (str ''freg'') (OString freg), end_object]),
       end_list]"
| "serialize_storage (SequenceStorage n sz elements) =
     do_all [begin_list, write_list_item (OString (str ''seq'')),
       write_list_item_by (do_all [begin_object, write_list_item (OString n),
         write_key_value (str ''sz'') sz,
         write_key_value_by (str ''el'') (write_list elements serialize_storage), end_object]),
       end_list]"
| "serialize_storage (TemporaryStorage is_frame n sz) =
     do_all [begin_list,
       (if is_frame then write_key_value (str ''frp'') (OBool True)
        else do_all [write_key_value (str ''tmp'') (OString n), write_key_value (str ''sz'') sz]),
       end_list]"
| "serialize_storage MemoryStorage = do_all [begin_list, write_key_value (str ''mem'') (OBool True), end_list]"
| "serialize_storage OtherStorage = do_all [begin_list, \<lambda>w. Inl NotImplemented]"

definition serialize_call_binding :: "call_binding \<Rightarrow> w_action" where
  "serialize_call_binding b =
     (case b of CallBinding stg e \<Rightarrow>
        do_all [begin_list, write_list_item_by (serialize_storage stg),
          write_list_item_by (serialize_expr e), end_list])"

definition serialize_call_site :: "obj \<Rightarrow> w_action" where
  "serialize_call_site ret_size = do_all [begin_list, write_list_item ret_size, end_list]"

definition serialize_statement :: "statement \<Rightarrow> w_action" where
  "serialize_statement stm =
     (case stm of
        Assignment dst src \<Rightarrow>
          do_all [begin_list, write_list_item (OString (str ''a'')), write_list_item (OString dst),
            write_list_item_by (serialize_expr src), end_list]
      | Store dst src \<Rightarrow>
          do_all [begin_list, write_list_item (OString (str ''s'')), write_list_item_by (serialize_expr dst),
            write_list_item_by (serialize_expr src), end_list]
      | Branch c target \<Rightarrow>
          do_all [begin_list, write_list_item (OString (str ''if'')), write_list_item_by (serialize_expr c),
            write_list_item (OString target), end_list]
      | CallInstruction f ret_size uses defs \<Rightarrow>
          do_all [begin_list, write_list_item (OString (str ''c'')), write_list_item_by (serialize_expr f),
            begin_object, write_key_value_by (str ''site'') (serialize_call_site ret_size),
            write_key_value_by (str ''u'') (write_list uses serialize_call_binding),
            write_key_value_by (str ''d'') (write_list defs serialize_call_binding), end_object, end_list]
      | ReturnInstruction e \<Rightarrow>
          do_all [begin_list, write_list_item (OString (str ''r'')),
            (case e of None \<Rightarrow> Inr | Some e \<Rightarrow> serialize_expr e), end_list]
      | SideEffect e \<Rightarrow>
          do_all [begin_list, write_list_item (OString (str ''se'')), serialize_expr e, end_list]
      | SwitchInstruction e targets \<Rightarrow>
          do_all [begin_list, write_list_item (OString (str ''sw'')), write_list_item_by (serialize_expr e),
            write_list targets (\<lambda>t. write_string (Some t)), end_list]
      | OtherInstruction \<Rightarrow> (\<lambda>w. Inl NotImplemented))"

definition serialize_block :: "block \<Rightarrow> w_action" where
  "serialize_block b =
     do_all [begin_object, write_key_value (str ''id'') (OString (block_id b)),
       write_key_value_by (str ''stm'') (write_list (block_statements b) serialize_statement),
       write_key_value_by (str ''succ'') (write_list (block_succ b) (\<lambda>s. write_string (Some s))),
       end_object]"

definition serialize_blocks :: "procedure \<Rightarrow> w_action" where
  "serialize_blocks p = write_list (proc_blocks p) serialize_block"

text \<open>The lambda of \<open>SerializeIdentifiers\<close> opens an object and does not close it.\<close>

definition serialize_identifier :: "ident \<Rightarrow> w_action" where
  "serialize_identifier i =
     do_all [begin_object, write_key_value (str ''id'') (OString (id_name i)),
       write_key_value_by (str ''dt'') (serialize_type (id_type i)),
       write_key_value_by (str ''st'') (serialize_storage (id_storage i))]"

definition serialize_identifiers :: "procedure \<Rightarrow> w_action" where
  "serialize_identifiers p = write_list (proc_identifiers p) serialize_identifier"

definition serialize_procedure :: "procedure \<Rightarrow> w_action" where
  "serialize_procedure p =
     do_all [begin_object, write_key_value (str ''addr'') (OString (entry_address p)),
       write_key_value_by (str ''ids'') (serialize_identifiers p),
       write_key_value_by (str ''blocks'') (serialize_blocks p), end_object]"

definition serialize_program :: "procedure list \<Rightarrow> w_action" where
  "serialize_program procs =
     do_all [begin_object, write_key_value_by (str ''procs'') (write_list procs serialize_procedure), end_object]"

section \<open>The separator stack\<close>

text \<open>\<open>leaks f n\<close>: when \<open>f\<close> returns, the separator stack is \<open>n\<close> levels deeper than before.\<close>

definition leaks :: "w_action \<Rightarrow> int \<Rightarrow> bool" where
  "leaks f n \<longleftrightarrow> (\<forall>w w'. f w = Inr w' \<longrightarrow> int (length (w_seps w')) = int (length (w_seps w)) + n)"

lemma leaksD: "\<lbrakk>leaks f n; f w = Inr w'\<rbrakk> \<Longrightarrow> int (length (w_seps w')) = int (length (w_seps w)) + n"
  by (simp add: leaks_def)

lemma leaks_nil: "leaks (do_all []) 0"
  by (simp add: leaks_def)

lemma leaks_cons: "\<lbrakk>leaks f m; leaks (do_all fs) n; k = m + n\<rbrakk> \<Longrightarrow> leaks (do_all (f # fs)) k"
  unfolding leaks_def by (fastforce elim: bind_res.elims)

lemma leaks_basic:
  "leaks (w_write s) 0" "leaks push_sep 1" "leaks pop_sep (- 1)" "leaks write_separator 0" "leaks Inr 0"
  "leaks (\<lambda>w. Inl e) n"
  by (auto simp: leaks_def w_write_def push_sep_def pop_sep_def write_separator_def split: list.splits bool.splits)

lemma leaks_string: "leaks (write_string s) 0"
  by (cases s) (auto simp: leaks_def w_write_def write_string_out simp del: write_string.simps(2))

lemma leaks_obj: "leaks (write_obj x) 0"
proof -
  have "leaks (write_long l) 0" "leaks (write_ulong u) 0" for l u
    by (simp_all add: write_long_def write_ulong_def Let_def leaks_basic leaks_string)
  then show ?thesis
    by (cases x) (simp_all add: leaks_basic leaks_string write_bool_def)
qed

lemma leaks_list: "leaks begin_list 1" "leaks end_list (- 1)" "leaks begin_object 1" "leaks end_object (- 1)"
  unfolding begin_list_def end_list_def begin_object_def end_object_def
  by (rule leaks_cons leaks_nil leaks_basic | simp)+

lemma leaks_item: "leaks f n \<Longrightarrow> leaks (write_list_item_by f) n" "leaks (write_list_item x) 0"
  unfolding write_list_item_by_def write_list_item_def
  by (rule leaks_cons leaks_nil leaks_basic leaks_obj | assumption | simp)+

lemma leaks_key: "leaks f n \<Longrightarrow> leaks (write_key_value_by k f) n" "leaks (write_key_value k x) 0"
  unfolding write_key_value_by_def write_key_value_def
  by (rule leaks_cons leaks_nil leaks_basic leaks_obj leaks_string | assumption | simp)+

lemma leaks_contents:
  "(\<And>x. x \<in> set xs \<Longrightarrow> leaks (f x) (g x)) \<Longrightarrow> leaks (write_list_contents sep xs f) (sum_list (map g xs))"
proof (induction xs arbitrary: sep)
  case Nil
  then show ?case by (simp add: leaks_def)
next
  case (Cons x xs)
  have eq: "write_list_contents sep (x # xs) f
    = do_all [if sep then w_write (str '','') else Inr, f x, write_list_contents True xs f]"
    by (rule ext) simp
  show ?case unfolding eq
    by (rule leaks_cons [where m = 0], simp add: leaks_basic,
        rule leaks_cons [where m = "g x"], simp add: Cons.prems,
        rule leaks_cons [where m = "sum_list (map g xs)"], rule Cons.IH, simp add: Cons.prems,
        rule leaks_nil, simp_all)
qed

lemma leaks_write_list:
  "(\<And>x. x \<in> set xs \<Longrightarrow> leaks (f x) (g x)) \<Longrightarrow> leaks (write_list xs f) (sum_list (map g xs))"
  unfolding write_list_def
  by (rule leaks_cons [where m = 0], rule leaks_basic,
      rule leaks_cons [where m = "sum_list (map g xs)"], rule leaks_contents, assumption,
      rule leaks_cons [where m = 0], rule leaks_basic, rule leaks_nil, simp_all)

lemma leaks_acts:
  assumes "acts f r"
  shows "leaks f 0"
  unfolding leaks_def
proof (intro allI impI)
  fix w w' assume "f w = Inr w'"
  then show "int (length (w_seps w')) = int (length (w_seps w)) + 0"
    using actsD [OF assms, of "w_out w" "w_seps w"] by (cases w; cases r) auto
qed

lemmas leaks_serialized = leaks_acts [OF serialize_expr_acts] leaks_acts [OF serialize_type_acts]

lemmas leaks_intros = leaks_list leaks_item leaks_key leaks_string leaks_basic leaks_serialized

fun storage_leak :: "storage \<Rightarrow> int" where
  "storage_leak (RegisterStorage n off sz) = 1"
| "storage_leak (SequenceStorage n sz elements) = sum_list (map storage_leak elements)"
| "storage_leak _ = 0"

definition binding_leak :: "call_binding \<Rightarrow> int" where
  "binding_leak b = (case b of CallBinding stg e \<Rightarrow> storage_leak stg)"

definition statement_leak :: "statement \<Rightarrow> int" where
  "statement_leak stm =
     (case stm of
        CallInstruction f n uses defs \<Rightarrow> sum_list (map binding_leak uses) + sum_list (map binding_leak defs)
      | _ \<Rightarrow> 0)"

definition block_leak :: "block \<Rightarrow> int" where
  "block_leak b = sum_list (map statement_leak (block_statements b))"

definition identifier_leak :: "ident \<Rightarrow> int" where
  "identifier_leak i = 1 + storage_leak (id_storage i)"

definition procedure_leak :: "procedure \<Rightarrow> int" where
  "procedure_leak p = sum_list (map identifier_leak (proc_identifiers p)) + sum_list (map block_leak (proc_blocks p))"

lemma leaks_do: "\<lbrakk>list_all2 leaks fs ns; sum_list ns = n\<rbrakk> \<Longrightarrow> leaks (do_all fs) n"
proof (induction fs arbitrary: ns n)
  case Nil
  then show ?case by (simp add: leaks_basic)
next
  case (Cons f fs)
  then obtain m ms where "ns = m # ms" "leaks f m" "list_all2 leaks fs ms" by (auto simp: list_all2_Cons1)
  then show ?case using Cons.IH [of ms] Cons.prems(2) by (auto intro: leaks_cons simp del: do_all.simps)
qed

lemma leaks_storage: "leaks (serialize_storage s) (storage_leak s)"
proof (induction s)
  case (RegisterStorage n off sz)
  have "leaks (do_all [begin_object, write_key_value (str ''n'') (OString n),
         write_key_value (str ''off'') off, write_key_value (str ''sz'') sz]) 1"
    by (rule leaks_do [where ns = "[1, 0, 0, 0]"]) (simp_all add: leaks_intros)
  then show ?case unfolding serialize_storage.simps storage_leak.simps
    by (intro leaks_do [where ns = "[1, 0, 1, - 1]"]) (simp_all add: leaks_intros del: do_all.simps)
next
  case (FlagGroupStorage bits freg)
  have "leaks (do_all [begin_object, write_key_value (str ''off'') bits,
         write_key_value (str ''freg'') (OString freg), end_object]) 0"
    by (rule leaks_do [where ns = "[1, 0, 0, - 1]"]) (simp_all add: leaks_intros)
  then show ?case unfolding serialize_storage.simps storage_leak.simps
    by (intro leaks_do [where ns = "[1, 0, 0, - 1]"]) (simp_all add: leaks_intros del: do_all.simps)
next
  case (SequenceStorage n sz elements)
  have "leaks (write_list elements serialize_storage) (sum_list (map storage_leak elements))"
    by (rule leaks_write_list) (rule SequenceStorage)
  then have "leaks (do_all [begin_object, write_list_item (OString n), write_key_value (str ''sz'') sz,
         write_key_value_by (str ''el'') (write_list elements serialize_storage), end_object])
     (sum_list (map storage_leak elements))"
    by (intro leaks_do [where ns = "[1, 0, 0, sum_list (map storage_leak elements), - 1]"])
      (simp_all add: leaks_intros)
  then show ?case unfolding serialize_storage.simps storage_leak.simps
    by (intro leaks_do [where ns = "[1, 0, sum_list (map storage_leak elements), - 1]"])
      (simp_all add: leaks_intros del: do_all.simps)
next
  case (TemporaryStorage f n sz)
  have "leaks (do_all [write_key_value (str ''tmp'') (OString n), write_key_value (str ''sz'') sz]) 0"
    by (rule leaks_do [where ns = "[0, 0]"]) (simp_all add: leaks_intros)
  then show ?case unfolding serialize_storage.simps storage_leak.simps
    by (intro leaks_do [where ns = "[1, 0, - 1]"]) (simp_all add: leaks_intros del: do_all.simps)
next
  case MemoryStorage
  show ?case unfolding serialize_storage.simps storage_leak.simps
    by (rule leaks_do [where ns = "[1, 0, - 1]"]) (simp_all add: leaks_intros)
next
  case OtherStorage
  show ?case unfolding serialize_storage.simps storage_leak.simps
    by (rule leaks_do [where ns = "[1, - 1]"]) (simp_all add: leaks_intros)
qed

lemma leaks_binding: "leaks (serialize_call_binding b) (binding_leak b)"
proof (cases b)
  case (CallBinding stg e)
  show ?thesis unfolding CallBinding serialize_call_binding_def binding_leak_def call_binding.case
    by (rule leaks_do [where ns = "[1, storage_leak stg, 0, - 1]"]) (simp_all add: leaks_intros leaks_storage)
qed

lemma leaks_statement: "leaks (serialize_statement stm) (statement_leak stm)"
proof (cases stm)
  case (CallInstruction f n uses defs)
  have site: "leaks (serialize_call_site n) 0"
    unfolding serialize_call_site_def
    by (rule leaks_do [where ns = "[1, 0, - 1]"]) (simp_all add: leaks_intros)
  have "leaks (write_list bs serialize_call_binding) (sum_list (map binding_leak bs))" for bs
    by (rule leaks_write_list) (rule leaks_binding)
  then show ?thesis using site
    unfolding CallInstruction serialize_statement_def statement_leak_def statement.case
    by (intro leaks_do [where ns = "[1, 0, 0, 1, 0, sum_list (map binding_leak uses),
        sum_list (map binding_leak defs), - 1, - 1]"]) (simp_all add: leaks_intros)
next
  case (ReturnInstruction e)
  show ?thesis unfolding ReturnInstruction serialize_statement_def statement_leak_def statement.case
    by (rule leaks_do [where ns = "[1, 0, 0, - 1]"]) (simp_all add: leaks_intros split: option.split)
next
  case (SwitchInstruction e targets)
  have "leaks (write_list targets (\<lambda>t. write_string (Some t))) (sum_list (map (\<lambda>t. 0) targets))"
    by (rule leaks_write_list) (rule leaks_string)
  then show ?thesis unfolding SwitchInstruction serialize_statement_def statement_leak_def statement.case
    by (intro leaks_do [where ns = "[1, 0, 0, 0, - 1]"]) (simp_all add: leaks_intros)
next
  case (Assignment dst src)
  show ?thesis unfolding Assignment serialize_statement_def statement_leak_def statement.case
    by (rule leaks_do [where ns = "[1, 0, 0, 0, - 1]"]) (simp_all add: leaks_intros)
next
  case (Store dst src)
  show ?thesis unfolding Store serialize_statement_def statement_leak_def statement.case
    by (rule leaks_do [where ns = "[1, 0, 0, 0, - 1]"]) (simp_all add: leaks_intros)
next
  case (Branch c target)
  show ?thesis unfolding Branch serialize_statement_def statement_leak_def statement.case
    by (rule leaks_do [where ns = "[1, 0, 0, 0, - 1]"]) (simp_all add: leaks_intros)
next
  case (SideEffect e)
  show ?thesis unfolding SideEffect serialize_statement_def statement_leak_def statement.case
    by (rule leaks_do [where ns = "[1, 0, 0, - 1]"]) (simp_all add: leaks_intros)
qed (simp add: serialize_statement_def leaks_basic)

lemma leaks_block: "leaks (serialize_block b) (block_leak b)"
proof -
  have "leaks (write_list (block_statements b) serialize_statement) (block_leak b)"
    unfolding block_leak_def by (rule leaks_write_list) (rule leaks_statement)
  moreover have "leaks (write_list (block_succ b) (\<lambda>s. write_string (Some s))) (sum_list (map (\<lambda>s. 0) (block_succ b)))"
    by (rule leaks_write_list) (rule leaks_string)
  ultimately show ?thesis unfolding serialize_block_def
    by (intro leaks_do [where ns = "[1, 0, block_leak b, 0, - 1]"]) (simp_all add: leaks_intros)
qed

lemma leaks_identifier: "leaks (serialize_identifier i) (identifier_leak i)"
  unfolding serialize_identifier_def identifier_leak_def
  by (rule leaks_do [where ns = "[1, 0, 0, storage_leak (id_storage i)]"])
    (simp_all add: leaks_intros leaks_storage)

lemma leaks_procedure: "leaks (serialize_procedure p) (procedure_leak p)"
proof -
  let ?i = "sum_list (map identifier_leak (proc_identifiers p))"
  let ?b = "sum_list (map block_leak (proc_blocks p))"
  have "leaks (serialize_identifiers p) ?i"
    unfolding serialize_identifiers_def by (rule leaks_write_list) (rule leaks_identifier)
  moreover have "leaks (serialize_blocks p) ?b"
    unfolding serialize_blocks_def by (rule leaks_write_list) (rule leaks_block)
  ultimately show ?thesis unfolding serialize_procedure_def procedure_leak_def
    by (intro leaks_do [where ns = "[1, 0, ?i, ?b, - 1]"]) (simp_all add: leaks_intros)
qed

text \<open>
  C14. Writing a procedure unbalances the writer: when the serializer returns, the separator stack
  is deeper by one level for every identifier and one more for every register storage, of an
  identifier or of a call binding, because those two objects are opened and never closed; it is
  balanced exactly when the procedure has neither.
\<close>

theorem serialize_procedure_leaks:
  assumes "serialize_procedure p w = Inr w'"
  shows "int (length (w_seps w')) = int (length (w_seps w))
      + sum_list (map (\<lambda>i. 1 + storage_leak (id_storage i)) (proc_identifiers p))
      + sum_list (map (\<lambda>b. sum_list (map statement_leak (block_statements b))) (proc_blocks p))"
  using leaksD [OF leaks_procedure assms]
  by (simp add: procedure_leak_def identifier_leak_def [abs_def] block_leak_def [abs_def])

lemma serialize_procedure_leaks_witness:
  "\<exists>w. serialize_procedure \<lparr>entry_address = str ''00401000'',
      proc_identifiers = [\<lparr>id_name = str ''r1'', id_type = Primitive True DOther 32,
        id_storage = RegisterStorage (str ''r1'') (OInt 0) (OInt 32)\<rparr>],
      proc_blocks = []\<rparr> new_writer = Inr w \<and> length (w_seps w) = 2"
proof -
  let ?p = "\<lparr>entry_address = str ''00401000'',
      proc_identifiers = [\<lparr>id_name = str ''r1'', id_type = Primitive True DOther 32,
        id_storage = RegisterStorage (str ''r1'') (OInt 0) (OInt 32)\<rparr>], proc_blocks = []\<rparr>"
  have "\<exists>w. serialize_procedure ?p new_writer = Inr w"
    by (simp add: serialize_procedure_def serialize_identifiers_def serialize_identifier_def serialize_blocks_def
        new_writer_def write_key_value_def write_key_value_by_def write_list_def write_list_item_by_def
        write_long_def Let_def type_letter_def del: write_string.simps)
  then obtain w where w: "serialize_procedure ?p new_writer = Inr w" ..
  have "int (length (w_seps w)) = 2"
    using serialize_procedure_leaks [OF w] by (simp add: new_writer_def)
  then show ?thesis using w by auto
qed

section \<open>Deserializing procedures\<close>

text \<open>
  The architecture's \<open>TryParseAddress\<close> is an argument; a storage that was read is the register's
  name, its bit offset and its type.
\<close>

record register_read =
  reg_name :: units
  reg_offset :: "32 word"
  reg_type :: data_type

record id_read =
  ir_name :: units
  ir_type :: data_type
  ir_storage :: register_read

definition expect_string :: "token \<Rightarrow> reader \<Rightarrow> exn + units \<times> reader" where
  "expect_string t r = (case rd_expect t r of Inl e \<Rightarrow> Inl e | Inr r' \<Rightarrow> Inr (get_string r', r'))"

fun is_primitive :: "data_type \<Rightarrow> bool" where
  "is_primitive (Primitive w d b) = True"
| "is_primitive _ = False"

definition deserialize_storage ::
  "(domain \<Rightarrow> 32 word \<Rightarrow> data_type) \<Rightarrow> (32 word \<Rightarrow> data_type) \<Rightarrow> reader \<Rightarrow> exn + register_read \<times> reader" where
  "deserialize_storage create create_word r =
     bind_res (rd_expect BeginList r) (\<lambda>r.
     bind_res (expect_string String r) (\<lambda>(kind, r).
     if kind \<noteq> str ''reg'' then Inl NotImplemented
     else
       bind_res (rd_expect BeginObject r) (\<lambda>r.
       bind_res (rd_expect PropertyName r) (\<lambda>r.
       bind_res (expect_string String r) (\<lambda>(n, r).
       bind_res (rd_expect PropertyName r) (\<lambda>r.
       bind_res (rd_expect Number r) (\<lambda>r.
       (case try_get_int32 r of
          None \<Rightarrow> Inl BadImageFormat
        | Some off \<Rightarrow>
           bind_res (rd_expect PropertyName r) (\<lambda>r.
           bind_res (deserialize_type create create_word r) (\<lambda>(dt, r).
           bind_res (rd_expect EndObject r) (\<lambda>r.
           bind_res (rd_expect EndList r) (\<lambda>r.
           if is_primitive dt
           then Inr (\<lparr>reg_name = n, reg_offset = word_of_int off, reg_type = dt\<rparr>, r)
           else Inl InvalidCast))))))))))))"

lemma bind_res_eq: "bind_res x f = (case x of Inl e \<Rightarrow> Inl e | Inr y \<Rightarrow> f y)"
  by (cases x) simp_all

lemma bind_res_Inr: "bind_res x f = Inr z \<longleftrightarrow> (\<exists>y. x = Inr y \<and> f y = Inr z)"
  by (cases x) simp_all

lemma expect_string_bound: "expect_string t r = Inr (s, r') \<Longrightarrow> tokens_bound r' \<le> tokens_bound r"
  by (auto simp: expect_string_def split: sum.splits dest: rd_expect_bound)

lemma deserialize_type_bound:
  "deserialize_type create create_word r = Inr (t, r') \<Longrightarrow> tokens_bound r' \<le> tokens_bound r"
proof (induction create create_word r arbitrary: t r' rule: deserialize_type.induct)
  case (1 create create_word r)
  obtain k r1 where rd: "rd_read r = Inr (k, r1)"
    using 1(2) by (auto simp: deserialize_type.simps [of create create_word r] split: sum.splits)
  then have b1: "tokens_bound r1 \<le> tokens_bound r" using rd_read_bound by blast
  show ?case
  proof (cases "k = BeginList")
    case True
    then obtain r2 c cs r3 bits p r4 r5 where steps: "rd_expect String r1 = Inr r2" "get_string r2 = c # cs"
      "\<not> c \<noteq> of_char CHR ''p''" "rd_expect Number r2 = Inr r3" "try_get_int32 r3 = Some bits"
      "deserialize_type create create_word r3 = Inr (p, r4)" "rd_expect EndList r4 = Inr r5" "r' = r5"
      using 1(2) rd by (auto simp: deserialize_type.simps [of create create_word r]
          split: sum.splits list.splits if_splits option.splits)
    have "tokens_bound r4 \<le> tokens_bound r3"
      by (rule 1(1) [OF rd refl _ True steps(1) steps(2,3,4,5,6)]) (simp add: True)
    then show ?thesis using steps b1 rd_expect_bound by (metis order_trans)
  next
    case False
    then show ?thesis using 1(2) rd b1
      by (auto simp: deserialize_type.simps [of create create_word r] Let_def split: if_splits)
  qed
qed

lemma deserialize_storage_bound:
  assumes "deserialize_storage create create_word r = Inr (s, r')"
  shows "tokens_bound r' \<le> tokens_bound r"
  using assms
  by (auto simp: deserialize_storage_def bind_res_Inr split: if_splits option.splits
      dest!: rd_expect_bound expect_string_bound deserialize_type_bound)

text \<open>
  The property loops.  A property whose name no case of the switch knows is not skipped: its value
  is the next token, so the next iteration raises at \<open>Expect(PropertyName)\<close>.
\<close>

record id_parts =
  ip_name :: "units option"
  ip_type :: "data_type option"
  ip_storage :: "register_read option"

lemma default_gives: "lex_default ch lx r = Gives t r' \<Longrightarrow> t \<noteq> Number"
  by (auto simp: lex_default_def give_value_def value_token_def
      split: option.splits if_splits list.splits scope.splits)

lemma read_token_consumes:
  assumes "read_token r = Inr (t, r')" "t \<noteq> Eof"
  shows "chars_left r' < chars_left r"
proof -
  obtain ch r1 where n: "next_char r = (ch, r1)" by (cases "next_char r")
  show ?thesis
  proof (cases "lex_step ch new_lexer r1")
    case (Goes lx' r2)
    then show ?thesis using assms(1) step_consumes [OF n Goes] lex_loop_within [of lx' r2 t r']
      by (auto simp: read_token_def lex_loop.simps [of new_lexer r] n)
  next
    case (Gives t' r2)
    then have "t' = t" using assms(1) by (simp add: read_token_def lex_loop.simps [of new_lexer r] n)
    then have "t \<noteq> Number" using Gives default_gives by (auto simp: lex_step_def)
    then show ?thesis using assms lex_loop_within [of new_lexer r t r'] by (simp add: read_token_def)
  next
    case (Fails e)
    then show ?thesis using assms(1) by (simp add: read_token_def lex_loop.simps [of new_lexer r] n)
  qed
qed

lemma read_token_keeps: "read_token r = Inr (t, r') \<Longrightarrow> r_token r' = r_token r"
  using lex_loop_token by (simp add: read_token_def)

lemma rd_peek_bound:
  assumes "rd_peek r = Inr (t, r')"
  shows "tokens_bound r' \<le> tokens_bound r"
proof (cases "r_token r = Eof")
  case True
  then obtain r1 where r1: "read_token r = Inr (t, r1)" "r' = r1\<lparr>r_token := t\<rparr>"
    using assms by (auto simp: rd_peek_def split: sum.splits)
  have "chars_left r1 \<le> chars_left r" using lex_loop_within r1(1) by (simp add: read_token_def)
  moreover have "t \<noteq> Eof \<Longrightarrow> chars_left r1 < chars_left r" using read_token_consumes r1(1) by blast
  moreover have "chars_left r' = chars_left r1" "r_token r' = t" using r1(2) by (simp_all add: chars_left_def)
  ultimately show ?thesis using True by (auto simp: tokens_bound_def)
next
  case False
  then show ?thesis using assms by (simp add: rd_peek_def)
qed

lemma peek_and_discard_bound:
  assumes "peek_and_discard t r = Inr (b, r')"
  shows "tokens_bound r' \<le> tokens_bound r"
proof -
  obtain t' r1 where r1: "rd_peek r = Inr (t', r1)"
    using assms by (auto simp: peek_and_discard_def split: sum.splits)
  show ?thesis
    using assms r1 rd_peek_bound [OF r1] rd_read_bound [of r1]
    by (fastforce simp: peek_and_discard_def split: sum.splits if_splits)
qed

lemma rd_expect_strict: "\<lbrakk>rd_expect t r = Inr r'; t \<notin> {Number, Eof}\<rbrakk> \<Longrightarrow> tokens_bound r' < tokens_bound r"
  using rd_read_bound by (fastforce simp: rd_expect_def split: sum.splits if_splits)

lemma expect_string_strict:
  "\<lbrakk>expect_string t r = Inr (s, r'); t \<notin> {Number, Eof}\<rbrakk> \<Longrightarrow> tokens_bound r' < tokens_bound r"
  by (auto simp: expect_string_def split: sum.splits dest: rd_expect_strict)

definition read_id_property ::
  "(domain \<Rightarrow> 32 word \<Rightarrow> data_type) \<Rightarrow> (32 word \<Rightarrow> data_type) \<Rightarrow> id_parts \<Rightarrow> reader \<Rightarrow> exn + id_parts \<times> reader" where
  "read_id_property create create_word parts r =
     bind_res (expect_string PropertyName r) (\<lambda>(k, r).
     if k = str ''id'' then
       bind_res (expect_string String r) (\<lambda>(s, r). Inr (parts\<lparr>ip_name := Some s\<rparr>, r))
     else if k = str ''dt'' then
       bind_res (deserialize_type create create_word r) (\<lambda>(t, r). Inr (parts\<lparr>ip_type := Some t\<rparr>, r))
     else if k = str ''st'' then
       bind_res (deserialize_storage create create_word r) (\<lambda>(s, r). Inr (parts\<lparr>ip_storage := Some s\<rparr>, r))
     else Inr (parts, r))"

lemma read_id_property_bound:
  assumes "read_id_property create create_word parts r = Inr (parts', r')"
  shows "tokens_bound r' < tokens_bound r"
  using assms
  by (auto simp: read_id_property_def bind_res_Inr split: if_splits
      dest!: expect_string_bound [of String] deserialize_type_bound deserialize_storage_bound
      dest: expect_string_strict)

function id_loop ::
  "(domain \<Rightarrow> 32 word \<Rightarrow> data_type) \<Rightarrow> (32 word \<Rightarrow> data_type) \<Rightarrow> id_parts \<Rightarrow> reader \<Rightarrow> exn + id_parts \<times> reader" where
  "id_loop create create_word parts r =
     (case peek_and_discard EndObject r of
        Inl e \<Rightarrow> Inl e
      | Inr (True, r1) \<Rightarrow> Inr (parts, r1)
      | Inr (False, r1) \<Rightarrow>
         (case read_id_property create create_word parts r1 of
            Inl e \<Rightarrow> Inl e
          | Inr (parts', r2) \<Rightarrow> id_loop create create_word parts' r2))"
  by pat_completeness auto
termination
  by (relation "measure (\<lambda>(create, create_word, parts, r). tokens_bound r)")
    (auto dest!: peek_and_discard_bound read_id_property_bound)

declare id_loop.simps [simp del]

definition deserialize_id ::
  "(domain \<Rightarrow> 32 word \<Rightarrow> data_type) \<Rightarrow> (32 word \<Rightarrow> data_type) \<Rightarrow> reader \<Rightarrow> exn + id_read \<times> reader" where
  "deserialize_id create create_word r =
     bind_res (rd_expect BeginObject r) (\<lambda>r.
     bind_res (id_loop create create_word \<lparr>ip_name = None, ip_type = None, ip_storage = None\<rparr> r) (\<lambda>(parts, r).
     case ip_name parts of
       None \<Rightarrow> Inl BadImageFormat
     | Some n \<Rightarrow>
       (case ip_type parts of
          None \<Rightarrow> Inl BadImageFormat
        | Some t \<Rightarrow>
          (case ip_storage parts of
             None \<Rightarrow> Inl BadImageFormat
           | Some s \<Rightarrow> Inr (\<lparr>ir_name = n, ir_type = t, ir_storage = s\<rparr>, r)))))"

lemma id_loop_bound: "id_loop create create_word parts r = Inr (parts', r') \<Longrightarrow> tokens_bound r' \<le> tokens_bound r"
proof (induction create create_word parts r arbitrary: parts' r' rule: id_loop.induct)
  case (1 create create_word parts r)
  obtain b r1 where p: "peek_and_discard EndObject r = Inr (b, r1)"
    using 1(2) by (auto simp: id_loop.simps [of create create_word parts r] split: sum.splits)
  show ?case
  proof (cases b)
    case True
    then show ?thesis using 1(2) p peek_and_discard_bound [OF p]
      by (simp add: id_loop.simps [of create create_word parts r])
  next
    case False
    then obtain parts2 r2 where q: "read_id_property create create_word parts r1 = Inr (parts2, r2)"
      "id_loop create create_word parts2 r2 = Inr (parts', r')"
      using 1(2) p by (auto simp: id_loop.simps [of create create_word parts r] split: sum.splits)
    then have "tokens_bound r' \<le> tokens_bound r2" using 1(1) [OF p refl] False by auto
    then show ?thesis using peek_and_discard_bound [OF p] read_id_property_bound [OF q(1)] by simp
  qed
qed

lemma deserialize_id_bound:
  assumes "deserialize_id create create_word r = Inr (i, r')"
  shows "tokens_bound r' < tokens_bound r"
proof -
  obtain r1 parts r2 where s: "rd_expect BeginObject r = Inr r1"
    "id_loop create create_word \<lparr>ip_name = None, ip_type = None, ip_storage = None\<rparr> r1 = Inr (parts, r2)" "r' = r2"
    using assms by (force simp: deserialize_id_def bind_res_Inr split: option.split_asm)
  show ?thesis using rd_expect_strict [OF s(1)] id_loop_bound [OF s(2)] s(3) by simp
qed

text \<open>\<open>Dictionary.Add\<close> raises on a duplicate name.\<close>

function ids_loop ::
  "(domain \<Rightarrow> 32 word \<Rightarrow> data_type) \<Rightarrow> (32 word \<Rightarrow> data_type) \<Rightarrow> (units \<rightharpoonup> id_read) \<Rightarrow> reader
    \<Rightarrow> exn + (units \<rightharpoonup> id_read) \<times> reader" where
  "ids_loop create create_word ids r =
     (case peek_and_discard EndList r of
        Inl e \<Rightarrow> Inl e
      | Inr (True, r1) \<Rightarrow> Inr (ids, r1)
      | Inr (False, r1) \<Rightarrow>
         (case deserialize_id create create_word r1 of
            Inl e \<Rightarrow> Inl e
          | Inr (i, r2) \<Rightarrow>
             if ids (ir_name i) \<noteq> None then Inl DuplicateKey
             else ids_loop create create_word (ids(ir_name i \<mapsto> i)) r2))"
  by pat_completeness auto
termination
  by (relation "measure (\<lambda>(create, create_word, ids, r). tokens_bound r)")
    (auto dest!: peek_and_discard_bound deserialize_id_bound)

declare ids_loop.simps [simp del]

definition deserialize_ids ::
  "(domain \<Rightarrow> 32 word \<Rightarrow> data_type) \<Rightarrow> (32 word \<Rightarrow> data_type) \<Rightarrow> reader
    \<Rightarrow> exn + (units \<rightharpoonup> id_read) \<times> reader" where
  "deserialize_ids create create_word r =
     bind_res (rd_expect BeginList r) (\<lambda>r. ids_loop create create_word (\<lambda>_. None) r)"

definition deserialize_block :: "(units \<Rightarrow> 'addr option) \<Rightarrow> reader \<Rightarrow> exn + (units \<times> 'addr) \<times> reader" where
  "deserialize_block parse_address r =
     bind_res (rd_expect BeginList r) (\<lambda>r.
     bind_res (expect_string String r) (\<lambda>(i, r).
     bind_res (expect_string String r) (\<lambda>(s, r).
     (case parse_address s of
        None \<Rightarrow> Inl BadImageFormat
      | Some a \<Rightarrow> bind_res (rd_expect EndList r) (\<lambda>r. Inr ((i, a), r))))))"

lemma deserialize_block_bound:
  assumes "deserialize_block parse_address r = Inr (b, r')"
  shows "tokens_bound r' < tokens_bound r"
proof -
  obtain r1 i r2 s r3 where s: "rd_expect BeginList r = Inr r1" "expect_string String r1 = Inr (i, r2)"
    "expect_string String r2 = Inr (s, r3)" "rd_expect EndList r3 = Inr r'"
    using assms by (force simp: deserialize_block_def bind_res_Inr split: option.split_asm)
  show ?thesis
    using rd_expect_strict [OF s(1)] expect_string_bound [OF s(2)] expect_string_bound [OF s(3)]
      rd_expect_bound [OF s(4)] by simp
qed

function blocks_loop ::
  "(units \<Rightarrow> 'addr option) \<Rightarrow> (units \<rightharpoonup> 'addr) \<Rightarrow> reader \<Rightarrow> exn + (units \<rightharpoonup> 'addr) \<times> reader" where
  "blocks_loop parse_address bs r =
     (case peek_and_discard EndList r of
        Inl e \<Rightarrow> Inl e
      | Inr (True, r1) \<Rightarrow> Inr (bs, r1)
      | Inr (False, r1) \<Rightarrow>
         (case deserialize_block parse_address r1 of
            Inl e \<Rightarrow> Inl e
          | Inr ((i, a), r2) \<Rightarrow>
             if bs i \<noteq> None then Inl DuplicateKey else blocks_loop parse_address (bs(i \<mapsto> a)) r2))"
  by pat_completeness auto
termination
  by (relation "measure (\<lambda>(parse_address, bs, r). tokens_bound r)")
    (auto dest!: peek_and_discard_bound deserialize_block_bound)

declare blocks_loop.simps [simp del]

definition deserialize_blocks ::
  "(units \<Rightarrow> 'addr option) \<Rightarrow> reader \<Rightarrow> exn + (units \<rightharpoonup> 'addr) \<times> reader" where
  "deserialize_blocks parse_address r =
     bind_res (rd_expect BeginList r) (\<lambda>r. blocks_loop parse_address (\<lambda>_. None) r)"

record 'addr proc_parts =
  pp_addr :: "units option"
  pp_ids :: "(units \<rightharpoonup> id_read) option"
  pp_blocks :: "(units \<rightharpoonup> 'addr) option"

text \<open>
  \<open>DeserializeSuccessors\<close> and \<open>BuildProcedure\<close> only raise.  \<open>parse_address\<close> is given the text of
  the address, or None while no address has been read.
\<close>

definition deserialize_successors :: "reader \<Rightarrow> exn + (units \<rightharpoonup> units list) \<times> reader" where
  "deserialize_successors r = Inl NotImplemented"

definition build_procedure :: "'addr proc_parts \<Rightarrow> exn + 'proc" where
  "build_procedure parts = Inl NotImplemented"

definition read_proc_property ::
  "(domain \<Rightarrow> 32 word \<Rightarrow> data_type) \<Rightarrow> (32 word \<Rightarrow> data_type) \<Rightarrow> (units option \<Rightarrow> 'addr option)
    \<Rightarrow> 'addr proc_parts \<Rightarrow> reader \<Rightarrow> exn + 'addr proc_parts \<times> reader" where
  "read_proc_property create create_word parse_address parts r =
     bind_res (expect_string PropertyName r) (\<lambda>(k, r).
     if k = str ''addr'' then
       bind_res (expect_string String r) (\<lambda>(s, r). Inr (parts\<lparr>pp_addr := Some s\<rparr>, r))
     else if k = str ''ids'' then
       bind_res (deserialize_ids create create_word r) (\<lambda>(ids, r). Inr (parts\<lparr>pp_ids := Some ids\<rparr>, r))
     else if k = str ''blocks'' then
       (case parse_address (pp_addr parts) of
          None \<Rightarrow> Inl BadImageFormat
        | Some a \<Rightarrow>
            bind_res (deserialize_blocks (\<lambda>s. parse_address (Some s)) r) (\<lambda>(bs, r).
              Inr (parts\<lparr>pp_blocks := Some bs\<rparr>, r)))
     else if k = str ''succ'' then
       bind_res (deserialize_successors r) (\<lambda>(x, r). Inr (parts, r))
     else Inr (parts, r))"

lemma ids_loop_bound: "ids_loop create create_word ids r = Inr (ids', r') \<Longrightarrow> tokens_bound r' \<le> tokens_bound r"
proof (induction create create_word ids r arbitrary: ids' r' rule: ids_loop.induct)
  case (1 create create_word ids r)
  obtain b r1 where p: "peek_and_discard EndList r = Inr (b, r1)"
    using 1(2) by (auto simp: ids_loop.simps [of create create_word ids r] split: sum.splits)
  show ?case
  proof (cases b)
    case True
    then show ?thesis using 1(2) p peek_and_discard_bound [OF p]
      by (simp add: ids_loop.simps [of create create_word ids r])
  next
    case False
    then obtain i r2 where q: "deserialize_id create create_word r1 = Inr (i, r2)" "\<not> ids (ir_name i) \<noteq> None"
      "ids_loop create create_word (ids(ir_name i \<mapsto> i)) r2 = Inr (ids', r')"
      using 1(2) p by (auto simp: ids_loop.simps [of create create_word ids r] split: sum.splits if_splits)
    have "tokens_bound r' \<le> tokens_bound r2" by (rule 1(1) [OF p refl _ q(1) refl q(2) q(3)]) (simp add: False)
    then show ?thesis using peek_and_discard_bound [OF p] deserialize_id_bound [OF q(1)] by simp
  qed
qed

lemma blocks_loop_bound: "blocks_loop parse_address bs r = Inr (bs', r') \<Longrightarrow> tokens_bound r' \<le> tokens_bound r"
proof (induction parse_address bs r arbitrary: bs' r' rule: blocks_loop.induct)
  case (1 parse_address bs r)
  obtain b r1 where p: "peek_and_discard EndList r = Inr (b, r1)"
    using 1(2) by (auto simp: blocks_loop.simps [of parse_address bs r] split: sum.splits)
  show ?case
  proof (cases b)
    case True
    then show ?thesis using 1(2) p peek_and_discard_bound [OF p]
      by (simp add: blocks_loop.simps [of parse_address bs r])
  next
    case False
    then obtain i a r2 where q: "deserialize_block parse_address r1 = Inr ((i, a), r2)" "\<not> bs i \<noteq> None"
      "blocks_loop parse_address (bs(i \<mapsto> a)) r2 = Inr (bs', r')"
      using 1(2) p by (auto simp: blocks_loop.simps [of parse_address bs r] split: sum.splits if_splits)
    have "tokens_bound r' \<le> tokens_bound r2" by (rule 1(1) [OF p refl _ q(1) refl refl q(2) q(3)]) (simp add: False)
    then show ?thesis using peek_and_discard_bound [OF p] deserialize_block_bound [OF q(1)] by simp
  qed
qed

lemma read_proc_property_bound:
  assumes "read_proc_property create create_word parse_address parts r = Inr (parts', r')"
  shows "tokens_bound r' < tokens_bound r"
proof -
  have ids: "deserialize_ids create create_word x = Inr (y, z) \<Longrightarrow> tokens_bound z \<le> tokens_bound x" for x y z
    by (auto simp: deserialize_ids_def bind_res_Inr dest!: rd_expect_bound ids_loop_bound)
  have blocks: "deserialize_blocks p x = Inr (y, z) \<Longrightarrow> tokens_bound z \<le> tokens_bound x"
    for x y z and p :: "units \<Rightarrow> 'a option"
    by (auto simp: deserialize_blocks_def bind_res_Inr dest!: rd_expect_bound blocks_loop_bound)
  show ?thesis using assms
    by (auto simp: read_proc_property_def bind_res_Inr deserialize_successors_def
        split: if_splits option.split_asm dest!: expect_string_bound [of String] ids blocks
        dest: expect_string_strict)
qed

function proc_loop ::
  "(domain \<Rightarrow> 32 word \<Rightarrow> data_type) \<Rightarrow> (32 word \<Rightarrow> data_type) \<Rightarrow> (units option \<Rightarrow> 'addr option)
    \<Rightarrow> 'addr proc_parts \<Rightarrow> reader \<Rightarrow> exn + 'addr proc_parts \<times> reader" where
  "proc_loop create create_word parse_address parts r =
     (case peek_and_discard EndObject r of
        Inl e \<Rightarrow> Inl e
      | Inr (True, r1) \<Rightarrow> Inr (parts, r1)
      | Inr (False, r1) \<Rightarrow>
         (case read_proc_property create create_word parse_address parts r1 of
            Inl e \<Rightarrow> Inl e
          | Inr (parts', r2) \<Rightarrow> proc_loop create create_word parse_address parts' r2))"
  by pat_completeness auto
termination
  by (relation "measure (\<lambda>(create, create_word, parse_address, parts, r). tokens_bound r)")
    (auto dest!: peek_and_discard_bound read_proc_property_bound)

declare proc_loop.simps [simp del]

definition deserialize_procedure ::
  "(domain \<Rightarrow> 32 word \<Rightarrow> data_type) \<Rightarrow> (32 word \<Rightarrow> data_type) \<Rightarrow> (units option \<Rightarrow> 'addr option)
    \<Rightarrow> reader \<Rightarrow> exn + 'proc \<times> reader" where
  "deserialize_procedure create create_word parse_address r =
     bind_res (rd_expect BeginObject r) (\<lambda>r.
     bind_res (proc_loop create create_word parse_address \<lparr>pp_addr = None, pp_ids = None, pp_blocks = None\<rparr> r)
       (\<lambda>(parts, r). bind_res (build_procedure parts) (\<lambda>p. Inr (p, r))))"

lemma no_procedure_deserialized: "\<exists>e. deserialize_procedure create create_word parse_address r = Inl e"
  by (cases "rd_expect BeginObject r";
      cases "proc_loop create create_word parse_address \<lparr>pp_addr = None, pp_ids = None, pp_blocks = None\<rparr> (projr (rd_expect BeginObject r))")
    (auto simp: deserialize_procedure_def build_procedure_def)

section \<open>What is written and cannot be read\<close>

lemma key_value_W:
  assumes "acts (write_obj x) (Some s)"
  shows "write_key_value k x (W t (b # ss))
    = Inr (W (t @ (if b then [44] else []) @ quoted k @ 58 # s) (True # ss))"
  using actsD [OF acts_keyed [OF assms]]
  by (cases b) (simp_all add: write_key_keyed write_list_item_by_def del: write_obj.simps)

definition register_text :: "units \<Rightarrow> int \<Rightarrow> int \<Rightarrow> units" where
  "register_text n off sz = 91 # quoted (str ''reg'') @ 123 # quoted (str ''n'') @ 58 # quoted n
     @ 44 # quoted (str ''off'') @ 58 # decimal off @ 44 # quoted (str ''sz'') @ 58 # decimal sz @ [93]"

lemma register_storage_out:
  assumes "acts (write_obj off) (Some (decimal i))" "acts (write_obj sz) (Some (decimal j))"
  shows "serialize_storage (RegisterStorage n off sz) (W [] []) = Inr (W (register_text n i j) [True])"
  by (simp add: write_list_item_by_def key_value_W [OF assms(1)] key_value_W [OF assms(2)]
      key_value_W [OF acts_string(1)] register_text_def del: write_string.simps write_obj.simps)

definition register_tokens :: "units \<Rightarrow> int \<Rightarrow> int \<Rightarrow> (token \<times> nat list) list" where
  "register_tokens n off sz =
     [(BeginList, []), (String, utf8_of (str ''reg'')), (BeginObject, []),
      (PropertyName, utf8_of (str ''n'')), (String, utf8_of n),
      (PropertyName, utf8_of (str ''off'')), (Number, decimal off),
      (PropertyName, utf8_of (str ''sz'')), (Number, decimal sz)]"

lemma yields_consI: "\<lbrakk>read_c r = Inr (t, r1); x = token_text t r1; yields r1 ts r2\<rbrakk> \<Longrightarrow> yields r ((t, x) # ts) r2"
  by (auto intro: yields_cons)

lemma register_yields:
  assumes "list_all clean_unit n"
  shows "\<exists>c. yields (rdr (register_text n i j) [] []) (register_tokens n i j) c"
proof -
  let ?S = "[ScBeginList]"
  have r: "reads (JStr n)" "reads (JNum i)" "reads (JNum j)"
    using assms by (simp_all add: reads_clean)
  have k: "list_all clean_unit (str ''reg'')" "list_all clean_unit (str ''n'')" "list_all clean_unit (str ''off'')"
    "list_all clean_unit (str ''sz'')"
    by (simp_all add: str_def clean_unit_def)
  let ?t3 = "quoted (str ''sz'') @ 58 # render (JNum j) @ [93]"
  let ?t2 = "quoted (str ''off'') @ 58 # render (JNum i) @ 44 # ?t3"
  let ?t1 = "quoted (str ''n'') @ 58 # render (JStr n) @ 44 # ?t2"
  obtain B3 where y3: "yields (rdr ?t3 (ScObjectComma # ?S) B)
      [(PropertyName, utf8_of (str ''sz'')), (Number, decimal j)] (rdr [93] (ScPropertyValue # ?S) (B3 B))" for B
    using reads_pair [OF k(4) r(3), of "[93]" ?S ScObjectComma] by simp metis
  obtain B2 where y2: "yields (rdr ?t2 (ScObjectComma # ?S) B)
      [(PropertyName, utf8_of (str ''off'')), (Number, decimal i)] (rdr (44 # ?t3) (ScPropertyValue # ?S) (B2 B))" for B
    using reads_pair [OF k(3) r(2), of "44 # ?t3" ?S ScObjectComma] by simp metis
  obtain B1 where y1: "yields (rdr ?t1 (ScInsideObject # ?S) B)
      [(PropertyName, utf8_of (str ''n'')), (String, utf8_of n)] (rdr (44 # ?t2) (ScPropertyValue # ?S) (B1 B))" for B
    using reads_pair [OF k(2) r(1), of "44 # ?t2" ?S ScInsideObject] by simp metis
  have skip: "read_c (rdr (44 # bs) (ScPropertyValue # ?S) B) = read_c (rdr bs (ScObjectComma # ?S) B)" for bs B
    by (rule read_separators)
  have y: "yields (rdr ?t1 (ScInsideObject # ?S) B) ([(PropertyName, utf8_of (str ''n'')), (String, utf8_of n)]
      @ [(PropertyName, utf8_of (str ''off'')), (Number, decimal i)]
      @ [(PropertyName, utf8_of (str ''sz'')), (Number, decimal j)]) (rdr [93] (ScPropertyValue # ?S) (B3 (B2 (B1 B))))" for B
    by (intro yields_append [OF y1] yields_append [OF yields_skip [OF skip y2]] yields_skip [OF skip y3])
  have reg: "read_c (rdr (quoted (str ''reg'') @ bs) ?S B) = Inr (String, rdr bs ?S (utf8_of (str ''reg'')))" for bs B
    by (simp add: read_quoted [OF k(1)] value_token_at)
  have n: "(BeginList, []) = (BeginList, token_text BeginList r)"
    "(BeginObject, []) = (BeginObject, token_text BeginObject r)" for r
    by (simp_all add: token_text_def)
  show ?thesis unfolding register_text_def register_tokens_def
    by (rule exI, rule yields_consI [OF read_begin(1)], simp add: token_text_def,
        rule yields_consI [OF reg], simp add: token_text_def,
        rule yields_consI [OF read_begin(2)], simp add: token_text_def, use y in simp)
qed

text \<open>
  A register storage written to the database cannot be read back: \<open>SerializeStorage\<close> names
  the third property \<open>sz\<close> and gives it the register's size, where \<open>DeserializeStorage\<close> expects a type
  reference, so reading any written register storage raises \<open>NotImplementedException\<close>.
\<close>

lemma register_storage_unreadable:
  assumes "list_all clean_unit n" "acts (write_obj sz) (Some (decimal j))"
  shows "\<exists>w. serialize_storage (RegisterStorage n (OInt off) sz) new_writer = Inr w
    \<and> deserialize_storage create create_word (new_reader (w_out w)) = Inl NotImplemented"
proof -
  let ?r = "new_reader (register_text n (sint off) j)"
  have "\<exists>c. yields (canon ?r) (register_tokens n (sint off) j) c"
    using register_yields [OF assms(1)] by (simp add: canon_new_reader)
  then obtain c where y: "yields (canon ?r) (register_tokens n (sint off) j) c" ..
  have "r_token ?r = Eof" by (simp add: new_reader_def)
  then obtain r1 r2 where r1: "rd_expect BeginList ?r = Inr r1" and r2: "rd_expect String r1 = Inr r2"
    "token_text String r2 = utf8_of (str ''reg'')" "r_token r2 = Eof"
    "yields (canon r2) (drop 2 (register_tokens n (sint off) j)) c"
    using y unfolding register_tokens_def by (simp, metis rd_expect_yields)
  then obtain r3 r4 where r3: "rd_expect BeginObject r2 = Inr r3" and r4: "rd_expect PropertyName r3 = Inr r4"
    "r_token r4 = Eof" "yields (canon r4) (drop 4 (register_tokens n (sint off) j)) c"
    unfolding register_tokens_def by (simp, metis rd_expect_yields)
  then obtain r5 r6 where r5: "rd_expect String r4 = Inr r5" and r6: "rd_expect PropertyName r5 = Inr r6"
    "r_token r6 = Eof" "yields (canon r6) (drop 6 (register_tokens n (sint off) j)) c"
    unfolding register_tokens_def by (simp, metis rd_expect_yields)
  then obtain r7 r8 where r7: "rd_expect Number r6 = Inr r7" "token_text Number r7 = decimal (sint off)"
    and r8: "rd_expect PropertyName r7 = Inr r8" "r_token r8 = Eof"
    "yields (canon r8) [(Number, decimal j)] c"
    unfolding register_tokens_def by (simp, metis rd_expect_yields)
  then obtain r9 where r9: "rd_read r8 = Inr (Number, r9)" using rd_read_yields by blast
  have "get_string r2 = str ''reg''"
    using r2(2) utf8_ascii [of "str ''reg''"] by (simp add: get_string_def token_text_def str_def)
  moreover have "try_get_int32 r7 = Some (sint off)"
    using r7(2) by (intro try_get_decimal) (simp add: token_text_def)
  ultimately have "deserialize_storage create create_word ?r = Inl NotImplemented"
    using r1 r2(1) r3 r4(1) r5 r6(1) r7(1) r8(1) r9
    by (simp add: deserialize_storage_def expect_string_def deserialize_type.simps [of create create_word r8])
  moreover have "serialize_storage (RegisterStorage n (OInt off) sz) new_writer = Inr (W (register_text n (sint off) j) [True])"
    using register_storage_out [OF acts_int assms(2)] by (simp only: new_writer_def)
  ultimately show ?thesis by auto
qed

lemma register_storage_unreadable_witness:
  "\<exists>w. serialize_storage (RegisterStorage (str ''r2'') (OInt 0) (OInt 32)) new_writer = Inr w
    \<and> deserialize_storage (Primitive False) (Primitive True DOther) (new_reader (w_out w)) = Inl NotImplemented"
  by (rule register_storage_unreadable [OF _ acts_int]) (simp add: str_def clean_unit_def)

end
