(* ===== verification/Sea_Compare.thy ===== *)
theory Sea_Compare
  imports Sea_Test
begin

text \<open>
  \<open>NodeValuePropagator.VisitTestNode\<close> is correct: the loop over its explicit stack always returns, does what
  the recursion over phi nodes does, and the comparison it makes has the operands of the subtraction that
  set the condition codes on the path taken.
\<close>

declare add_edge.simps(2) [simp del]

section \<open>The recursion the stack unfolds\<close>

type_synonym ('t, 'c, 's) rewriting = "test_error + nat option \<times> ('t, 'c, 's) graph"

inductive rewritten_as :: "'w worklist \<Rightarrow> 't \<Rightarrow> condition_code \<Rightarrow> nat set \<Rightarrow> nat \<Rightarrow> ('t, 'c, 's) graph \<Rightarrow> ('t, 'c, 's) rewriting \<Rightarrow> bool"
  and inputs_rewritten :: "'w worklist \<Rightarrow> 't \<Rightarrow> condition_code \<Rightarrow> nat set \<Rightarrow> nat \<Rightarrow> nat option list \<Rightarrow> ('t, 'c, 's) graph
    \<Rightarrow> ('t, 'c, 's) rewriting \<Rightarrow> bool"
  for W bt cc where
  active: "n \<in> A \<Longrightarrow> rewritten_as W bt cc A n g (Inr (None, g))"
| bad_phi: "\<lbrakk>n \<notin> A; n_kind (g_node g n) = PhiNode; length (ins g n) < 2 \<or> ins g n ! 0 = None\<rbrakk>
    \<Longrightarrow> rewritten_as W bt cc A n g (Inr (None, g))"
| phi: "\<lbrakk>n \<notin> A; n_kind (g_node g n) = PhiNode; ins g n = Some cf # i # ms; m_phi bt cf g = (p, g1);
      inputs_rewritten W bt cc (insert n A) p (i # ms) g1 out\<rbrakk> \<Longrightarrow> rewritten_as W bt cc A n g out"
| leaf: "\<lbrakk>n \<notin> A; n_kind (g_node g n) \<noteq> PhiNode; leaf_result W bt cc n g = Some out\<rbrakk> \<Longrightarrow> rewritten_as W bt cc A n g out"
| no_more: "inputs_rewritten W bt cc A p [] g (Inr (Some p, g))"
| null_input: "inputs_rewritten W bt cc A p (None # ms) g (Inr (None, g))"
| input_raises: "rewritten_as W bt cc A m g (Inl e) \<Longrightarrow> inputs_rewritten W bt cc A p (Some m # ms) g (Inl e)"
| input_null: "rewritten_as W bt cc A m g (Inr (None, g1)) \<Longrightarrow> inputs_rewritten W bt cc A p (Some m # ms) g (Inr (None, g1))"
| next_input: "\<lbrakk>rewritten_as W bt cc A m g (Inr (Some r, g1)); inputs_rewritten W bt cc A p ms (add_edge (Some r) p g1) out\<rbrakk>
    \<Longrightarrow> inputs_rewritten W bt cc A p (Some m # ms) g out"

text \<open>All nodes of \<open>g\<close> but \<open>p\<close> are as they were.\<close>

definition grows :: "nat option \<Rightarrow> ('t, 'c, 's) graph \<Rightarrow> ('t, 'c, 's) graph \<Rightarrow> bool" where
  "grows p g g' \<longleftrightarrow> g_next g \<le> g_next g'
     \<and> (\<forall>i < g_next g. n_kind (g_node g' i) = n_kind (g_node g i) \<and> n_type (g_node g' i) = n_type (g_node g i)
          \<and> (p \<noteq> Some i \<longrightarrow> ins g' i = ins g i))"

lemma grows_keeps: "grows None g g' \<longleftrightarrow> keeps g g'"
  by (simp add: grows_def keeps_def)

lemma grows_trans: "\<lbrakk>grows p g g'; grows p g' g''\<rbrakk> \<Longrightarrow> grows p g g''"
  by (auto simp: grows_def)

lemma grows_weaken: "keeps g g' \<Longrightarrow> grows p g g'"
  by (auto simp: grows_def keeps_def)

lemma keeps_grows: "\<lbrakk>keeps g g'; grows (Some p) g' g''; g_next g \<le> p\<rbrakk> \<Longrightarrow> keeps g g''"
  by (auto simp: grows_def keeps_def)

lemma grows_add_edge: "grows (Some p) g (add_edge (Some r) p g)"
proof -
  have "n_kind (g_node (add_edge (Some r) p g) i) = n_kind (g_node g i)" "n_type (g_node (add_edge (Some r) p g) i) = n_type (g_node g i)"
    for i by (simp_all add: add_edge.simps)
  then show ?thesis by (auto simp: grows_def)
qed

lemma keeps_new: "new_node kind dt stg ds g = (n, g') \<Longrightarrow> keeps g g'"
  using new_node_fields [of kind dt stg ds g n g'] by (simp add: keeps_def)

lemma m_phi_fields:
  assumes "m_phi bt cf g = (p, g1)"
  shows "p = g_next g" "g_next g1 = Suc (g_next g)" "n_kind (g_node g1 p) = PhiNode" "ins g1 p = [Some cf]" "keeps g g1"
  using new_node_fields [OF assms [unfolded m_phi_def]] keeps_new [OF assms [unfolded m_phi_def]] by simp_all

lemma comparison_keeps: "rewrite_cond_to_comparison bt cc c g = Inr (r, g') \<Longrightarrow> keeps g g'"
  unfolding rewrite_cond_to_comparison_def m_bin_def
  by (auto split: option.splits intro: keeps_new)

text \<open>The definition of condition codes a leaf uses: itself, or the only one the search finds.\<close>

definition leaf_cond :: "'w worklist \<Rightarrow> nat \<Rightarrow> ('t, 'c, 's) graph \<Rightarrow> nat \<Rightarrow> bool" where
  "leaf_cond W n g c \<longleftrightarrow>
     (if n_kind (g_node g n) = CondNode then c = n else find_reaching_conds W g n = Some {c})"

lemma leaf_resultE:
  assumes "leaf_result W bt cc n g = Some out"
  obtains (null) "out = Inr (None, g)"
    | (raises) c e where "leaf_cond W n g c" "rewrite_cond_to_comparison bt cc c g = Inl e" "out = Inl e"
    | (node) c r g' where "leaf_cond W n g c" "rewrite_cond_to_comparison bt cc c g = Inr (r, g')" "out = Inr (Some r, g')"
proof -
  have result: thesis
    if "out = map_sum id (map_prod Some id) (rewrite_cond_to_comparison bt cc c g)" "leaf_cond W n g c" for c
    using that raises [of c] node [of c] by (cases "rewrite_cond_to_comparison bt cc c g") auto
  show thesis
  proof (cases "n_kind (g_node g n) = CondNode")
    case True
    then show ?thesis using assms result [of n] by (simp add: leaf_result_def leaf_cond_def)
  next
    case False
    then obtain cs where cs: "find_reaching_conds W g n = Some cs"
        "out = (if card cs \<noteq> 1 then Inr (None, g) else map_sum id (map_prod Some id) (rewrite_cond_to_comparison bt cc (the_elem cs) g))"
      using assms by (auto simp: leaf_result_def)
    show ?thesis
    proof (cases "card cs = 1")
      case True
      then obtain c where "cs = {c}" by (metis card_1_singletonE)
      then show ?thesis using cs False result [of c] by (simp add: leaf_cond_def)
    qed (use cs null in simp)
  qed
qed

lemma leaf_result_keeps: "leaf_result W bt cc n g = Some (Inr (r, g')) \<Longrightarrow> keeps g g'"
  by (erule leaf_resultE) (auto dest: comparison_keeps)

lemma rewriting_grows:
  "rewritten_as W bt cc A n g out \<Longrightarrow> out = Inr (r, g') \<Longrightarrow> keeps g g'"
  "inputs_rewritten W bt cc A p ms g out \<Longrightarrow> out = Inr (r, g') \<Longrightarrow> p < g_next g \<Longrightarrow> grows (Some p) g g'"
proof (induction arbitrary: r g' and r g' rule: rewritten_as_inputs_rewritten.inducts)
  case (phi n A g cf i ms p g1 out)
  then show ?case using m_phi_fields [OF phi(4)] keeps_grows by fastforce
next
  case (next_input A m g r' g1 p ms out)
  have "keeps g g1" using next_input(2) by simp
  moreover have "grows (Some p) (add_edge (Some r') p g1) g'"
    using next_input(4) [OF next_input.prems(1)] next_input.prems(2) calculation by (simp add: keeps_def)
  ultimately show ?case using grows_add_edge grows_trans grows_weaken by blast
next
  case (leaf n A g out)
  then show ?case by (auto dest: leaf_result_keeps)
qed (auto simp: grows_def keeps_def)

section \<open>The loop returns what the recursion does\<close>

lemma inputs_below_keeps: "\<lbrakk>inputs_below (g_next g0) g0; keeps g0 g\<rbrakk> \<Longrightarrow> inputs_below (g_next g0) g"
  by (simp add: inputs_below_def keeps_def)

lemma leaf_result_total:
  assumes "worklist_ok W items" "inputs_below (g_next g0) g0" "keeps g0 g" "n < g_next g0"
  shows "\<exists>out. leaf_result W bt cc n g = Some out"
  using find_reaching_conds_exact [OF assms(1) inputs_below_keeps [OF assms(2,3)] assms(4)]
  by (simp add: leaf_result_def Let_def)

lemma inputs_rewritten_total:
  assumes "\<And>m g. \<lbrakk>m < g_next g0; keeps g0 g\<rbrakk> \<Longrightarrow> \<exists>out. rewritten_as W bt cc A m g out"
  shows "\<lbrakk>\<forall>m. Some m \<in> set ms \<longrightarrow> m < g_next g0; keeps g0 g; g_next g0 \<le> p; p < g_next g\<rbrakk>
    \<Longrightarrow> \<exists>out. inputs_rewritten W bt cc A p ms g out"
proof (induction ms arbitrary: g)
  case (Cons i ms)
  show ?case
  proof (cases i)
    case (Some m)
    obtain out where out: "rewritten_as W bt cc A m g out" using assms [of m g] Cons.prems Some by auto
    show ?thesis
    proof (cases out)
      case (Inr r)
      obtain r' g1 where r: "r = (r', g1)" by force
      have k: "keeps g g1" using rewriting_grows(1) [OF out] Inr r by simp
      have "\<exists>out. inputs_rewritten W bt cc A p ms (add_edge (Some q) p g1) out" for q
        using Cons.IH [of "add_edge (Some q) p g1"] Cons.prems k keeps_trans [OF Cons.prems(2) k]
          keeps_grows [OF _ grows_add_edge [of p g1 q], of g0] by (simp add: keeps_def)
      then show ?thesis using out unfolding Inr r Some by (cases r') (metis input_null, metis next_input)
    qed (use out Some in \<open>auto intro: input_raises\<close>)
  qed (auto intro: null_input)
qed (auto intro: no_more)

lemma rewriting_total:
  assumes W: "worklist_ok W items" and g0: "inputs_below (g_next g0) g0"
  shows "\<lbrakk>n < g_next g0; keeps g0 g\<rbrakk> \<Longrightarrow> \<exists>out. rewritten_as W bt cc A n g out"
proof (induction "card ({..<g_next g0} - A)" arbitrary: A n g rule: less_induct)
  case less
  show ?case
  proof (cases "n \<in> A \<or> n_kind (g_node g n) \<noteq> PhiNode \<or> length (ins g n) < 2 \<or> ins g n ! 0 = None")
    case True
    then show ?thesis
      using leaf_result_total [OF W g0 less.prems(2,1)] by (meson active bad_phi leaf)
  next
    case False
    then obtain cf i ms where ins: "ins g n = Some cf # i # ms" by (cases "ins g n"; cases "tl (ins g n)") auto
    obtain p g1 where p: "m_phi bt cf g = (p, g1)" by force
    note f = m_phi_fields [OF p]
    have "card ({..<g_next g0} - insert n A) < card ({..<g_next g0} - A)"
      using less.prems(1) False by (intro psubset_card_mono) auto
    then have "\<exists>out. inputs_rewritten W bt cc (insert n A) p (i # ms) g1 out"
      using less.prems f inputs_below_keeps [OF g0 less.prems(2)] ins keeps_trans [OF less.prems(2) f(5)]
      by (intro inputs_rewritten_total [of g0] less.hyps) (auto simp: inputs_below_def keeps_def)
    then show ?thesis using False ins p by (auto intro: phi)
  qed
qed

abbreviation at_phi :: "nat \<Rightarrow> nat \<Rightarrow> nat \<Rightarrow> rewrite_frame" where
  "at_phi n p k \<equiv> \<lparr>f_node = n, f_stage = Process_Phi, f_phi = Some n, f_pushed = Some p, f_child = k, f_result = None\<rparr>"

abbreviation state :: "nat set \<Rightarrow> rewrite_frame list \<Rightarrow> nat option \<Rightarrow> ('t, 'c, 's) graph \<Rightarrow> ('t, 'c, 's) rewrite_state" where
  "state A st r g \<equiv> \<lparr>r_active = A, r_stack = st, r_last = r, r_graph = g\<rparr>"

text \<open>From the state the loop comes to one with the stack \<open>st\<close> and this outcome, or raises.\<close>

definition pops :: "'w worklist \<Rightarrow> 't \<Rightarrow> condition_code \<Rightarrow> ('t, 'c, 's) rewrite_state \<Rightarrow> nat set \<Rightarrow> rewrite_frame list
    \<Rightarrow> ('t, 'c, 's) rewriting \<Rightarrow> bool" where
  "pops W bt cc s A st out \<longleftrightarrow>
     (case out of Inl e \<Rightarrow> rewrite_loop W bt cc s = Some (Inl e)
      | Inr (r, g) \<Rightarrow> \<exists>A'. (r \<noteq> None \<longrightarrow> A' = A) \<and> rewrite_loop W bt cc s = rewrite_loop W bt cc (state A' st r g))"

lemma loop_steps:
  "\<lbrakk>r_stack s = f # st; rewrite_step W bt cc f st s = Some (Inr s')\<rbrakk> \<Longrightarrow> rewrite_loop W bt cc s = rewrite_loop W bt cc s'"
  "\<lbrakk>r_stack s = f # st; rewrite_step W bt cc f st s = Some (Inl e)\<rbrakk> \<Longrightarrow> rewrite_loop W bt cc s = Some (Inl e)"
  by (subst rewrite_loop.simps, simp)+

lemma loop_finish: "rewrite_loop W bt cc (state A (finish r f # st) l g) = rewrite_loop W bt cc (state (A - {f_node f}) st r g)"
  by (rule loop_steps, simp) (simp add: rewrite_step_def finish_def)

lemma pops_step:
  assumes "pops W bt cc s' A st out" "r_stack s = f # st'" "rewrite_step W bt cc f st' s = Some (Inr s')"
  shows "pops W bt cc s A st out"
  using assms(1) unfolding pops_def loop_steps(1) [OF assms(2,3)] .

lemma pops_finish:
  "r = None \<or> B = A - {f_node f} \<Longrightarrow> pops W bt cc (state A (finish r f # st) l g) B st (Inr (r, g))"
  by (auto simp: pops_def loop_finish)

lemma pops_null:
  assumes "pops W bt cc (state A (new_frame m # f\<lparr>f_stage := Await_Child\<rparr> # st) l g) A' (f\<lparr>f_stage := Await_Child\<rparr> # st) (Inr (None, g1))"
  shows "pops W bt cc (state A (new_frame m # f\<lparr>f_stage := Await_Child\<rparr> # st) l g) A'' st (Inr (None, g1))"
proof -
  have "rewrite_loop W bt cc (state B (f\<lparr>f_stage := Await_Child\<rparr> # st) None g1) = rewrite_loop W bt cc (state (B - {f_node f}) st None g1)" for B
  proof -
    have "rewrite_loop W bt cc (state B (f\<lparr>f_stage := Await_Child\<rparr> # st) None g1)
        = rewrite_loop W bt cc (state B (finish None (f\<lparr>f_stage := Await_Child\<rparr>) # st) None g1)"
      by (rule loop_steps, simp) (simp add: rewrite_step_def)
    then show ?thesis by (simp add: loop_finish)
  qed
  then show ?thesis using assms by (auto simp: pops_def)
qed

abbreviation awaiting :: "nat \<Rightarrow> nat \<Rightarrow> nat \<Rightarrow> rewrite_frame" where
  "awaiting n p k \<equiv> (at_phi n p k)\<lparr>f_stage := Await_Child\<rparr>"

lemma pops_child:
  assumes "pops W bt cc (state A (new_frame m # awaiting n p (length pre) # st) l g) B st' out" "ins g n = pre @ Some m # ms"
  shows "pops W bt cc (state A (at_phi n p (length pre) # st) l g) B st' out"
  by (rule pops_step [OF assms(1), where f = "at_phi n p (length pre)"]) (simp_all add: rewrite_step_def assms(2))

lemma loop_simulates:
  assumes g0: "inputs_below (g_next g0) g0"
  shows "rewritten_as W bt cc A n g out \<Longrightarrow> n < g_next g0 \<Longrightarrow> keeps g0 g
      \<Longrightarrow> pops W bt cc (state A (new_frame n # st) l g) A st out"
    "inputs_rewritten W bt cc A p ms g out \<Longrightarrow> ins g0 n' = pre @ ms \<Longrightarrow> n' < g_next g0 \<Longrightarrow> keeps g0 g
      \<Longrightarrow> g_next g0 \<le> p \<Longrightarrow> p < g_next g
      \<Longrightarrow> pops W bt cc (state A (at_phi n' p (length pre) # st) l g) (A - {n'}) st out"
proof (induction arbitrary: st l and st l n' pre rule: rewritten_as_inputs_rewritten.inducts)
  case (active n A g)
  then show ?case
    by (intro pops_step [OF pops_finish, where f = "new_frame n"]) (simp_all add: rewrite_step_def new_frame_def)
next
  case (bad_phi n A g)
  then show ?case
    by (intro pops_step [OF pops_finish [where A = "insert n A"], where f = "new_frame n"])
      (auto simp: rewrite_step_def new_frame_def Let_def)
next
  case (phi n A g cf i ms p g1 out)
  have "ins g n = ins g0 n" using phi.prems by (simp add: keeps_def)
  then have "pops W bt cc (state (insert n A) (at_phi n p (length [Some cf]) # st) l g1) (insert n A - {n}) st out"
    using phi.prems phi(3) m_phi_fields [OF phi(4)] keeps_trans [OF phi.prems(2)] by (intro phi.IH) (auto simp: keeps_def)
  moreover have "insert n A - {n} = A" using phi(1) by blast
  ultimately have "pops W bt cc (state (insert n A) (at_phi n p 1 # st) l g1) A st out" by simp
  then show ?case
    by (rule pops_step [where f = "new_frame n"]) (use phi(1-4) in \<open>simp_all add: rewrite_step_def new_frame_def\<close>)
next
  case (leaf n A g out)
  show ?case
  proof (cases out)
    case (Inl e)
    then show ?thesis
      unfolding pops_def Inl sum.case using leaf(1-3) Inl
      by (intro loop_steps(2) [where f = "new_frame n"]) (simp_all add: rewrite_step_def new_frame_def)
  next
    case (Inr x)
    obtain r g' where x: "x = (r, g')" by force
    show ?thesis
      unfolding Inr x using leaf(1,2,3) Inr x
      by (intro pops_step [OF pops_finish [where A = "insert n A"], where f = "new_frame n"])
        (auto simp: rewrite_step_def new_frame_def)
  qed
next
  case (no_more A p g)
  have "ins g n' = ins g0 n'" using no_more.prems by (simp add: keeps_def)
  then show ?case
    using no_more.prems
    by (intro pops_step [OF pops_finish, where f = "at_phi n' p (length pre)"]) (simp_all add: rewrite_step_def)
next
  case (null_input A p ms g)
  have "ins g n' = ins g0 n'" using null_input.prems by (simp add: keeps_def)
  then show ?case
    using null_input.prems
    by (intro pops_step [OF pops_finish, where f = "at_phi n' p (length pre)"]) (simp_all add: rewrite_step_def)
next
  case (input_raises A m g e p ms)
  have "ins g n' = ins g0 n'" "m < g_next g0" using input_raises.prems g0 by (auto simp: keeps_def inputs_below_def)
  then have "pops W bt cc (state A (new_frame m # awaiting n' p (length pre) # st) l g) A (awaiting n' p (length pre) # st) (Inl e)"
    using input_raises.prems by (intro input_raises.IH)
  then have "pops W bt cc (state A (new_frame m # awaiting n' p (length pre) # st) l g) (A - {n'}) st (Inl e)"
    by (simp add: pops_def)
  then show ?case using input_raises.prems \<open>ins g n' = _\<close> by (intro pops_child) simp_all
next
  case (input_null A m g g1 p ms)
  have "ins g n' = ins g0 n'" "m < g_next g0" using input_null.prems g0 by (auto simp: keeps_def inputs_below_def)
  then have "pops W bt cc (state A (new_frame m # awaiting n' p (length pre) # st) l g) A (awaiting n' p (length pre) # st) (Inr (None, g1))"
    using input_null.prems by (intro input_null.IH)
  then show ?case
    using input_null.prems \<open>ins g n' = _\<close> by (intro pops_child [OF pops_null]) simp_all
next
  case (next_input A m g r g1 p ms out)
  let ?f = "awaiting n' p (length pre)" and ?g2 = "add_edge (Some r) p g1"
  have ins: "ins g n' = ins g0 n'" and m: "m < g_next g0"
    using next_input.prems g0 by (auto simp: keeps_def inputs_below_def)
  have k: "keeps g g1" using rewriting_grows(1) [OF next_input(1)] by simp
  have k2: "keeps g0 ?g2"
    using keeps_grows [OF keeps_trans [OF next_input.prems(3) k] grows_add_edge] next_input.prems(4) by simp
  have "pops W bt cc (state A (at_phi n' p (length (pre @ [Some m])) # st) (Some r) ?g2) (A - {n'}) st out"
    using next_input.prems k k2 by (intro next_input.IH) (simp_all add: keeps_def)
  then have "pops W bt cc (state A (?f # st) (Some r) g1) (A - {n'}) st out"
    by (rule pops_step [where f = ?f]) (simp_all add: rewrite_step_def)
  moreover have "rewrite_loop W bt cc (state A (new_frame m # ?f # st) l g) = rewrite_loop W bt cc (state A (?f # st) (Some r) g1)"
  proof -
    have "pops W bt cc (state A (new_frame m # ?f # st) l g) A (?f # st) (Inr (Some r, g1))"
      using m next_input.prems(3) by (intro next_input.IH)
    then show ?thesis by (simp add: pops_def)
  qed
  ultimately have "pops W bt cc (state A (new_frame m # ?f # st) l g) (A - {n'}) st out"
    unfolding pops_def by (simp only:)
  then show ?case using next_input.prems(1) ins by (intro pops_child) simp_all
qed

lemma visit_test_node_rewrites:
  assumes "worklist_ok W items" "inputs_below (g_next g) g" "n < g_next g" "arr_get (ins g n) 1 = Some (Some cc_node)"
  shows "\<exists>out. rewritten_as W bt cc {} cc_node g out \<and> visit_test_node W bt cc n g = Some out"
proof -
  have c: "cc_node < g_next g" using assms(2-4) by (auto simp: inputs_below_def arr_get_def in_set_conv_nth split: if_splits)
  obtain out where out: "rewritten_as W bt cc {} cc_node g out" using rewriting_total [OF assms(1,2) c keeps_refl] by blast
  have "rewrite_test_from_cc_node W bt cc cc_node g = Some out"
    using loop_simulates(1) [OF assms(2) out c keeps_refl, of "[]" None]
    by (auto simp: rewrite_test_from_cc_node_def pops_def rewrite_loop.simps split: sum.splits)
  then show ?thesis using out assms(4) by (auto simp: visit_test_node_def)
qed

section \<open>What the comparison compares\<close>

text \<open>
  \<open>ch\<close> says by which edge each control-flow node is entered.  \<open>sets_flags\<close>: \<open>s\<close> is the operand of the
  definition of condition codes seen at \<open>n\<close> on that path; \<open>compares\<close>: the operator and the operands of the
  comparison that \<open>r\<close> is on that path.
\<close>

inductive sets_flags :: "('t, 'c, 's) graph \<Rightarrow> (nat \<Rightarrow> nat) \<Rightarrow> nat \<Rightarrow> nat \<Rightarrow> bool" for g ch where
  at_cond: "\<lbrakk>n_kind (g_node g n) = CondNode; arr_get (ins g n) 1 = Some (Some s)\<rbrakk> \<Longrightarrow> sets_flags g ch n s"
| via_phi: "\<lbrakk>n_kind (g_node g n) = PhiNode; ins g n = Some cf # ms; ch cf < length ms; ms ! ch cf = Some m;
    sets_flags g ch m s\<rbrakk> \<Longrightarrow> sets_flags g ch n s"
| via_data: "\<lbrakk>n_kind (g_node g n) \<noteq> CondNode; n_kind (g_node g n) \<noteq> PhiNode; reaching_conds g n = {c};
    sets_flags g ch c s\<rbrakk> \<Longrightarrow> sets_flags g ch n s"

inductive compares :: "('t, 'c, 's) graph \<Rightarrow> (nat \<Rightarrow> nat) \<Rightarrow> nat \<Rightarrow> op_type \<Rightarrow> nat \<Rightarrow> nat \<Rightarrow> bool" for g ch where
  comparison: "\<lbrakk>n_kind (g_node g r) = BinaryNode op; ins g r = [None, Some a, Some b]\<rbrakk> \<Longrightarrow> compares g ch r op a b"
| comparison_phi: "\<lbrakk>n_kind (g_node g r) = PhiNode; ins g r = Some cf # ms; ch cf < length ms; ms ! ch cf = Some m;
    compares g ch m op a b\<rbrakk> \<Longrightarrow> compares g ch r op a b"

inductive_simps sets_flags_simps: "sets_flags g ch n s"
inductive_simps compares_simps: "compares g ch r op a b"

definition flag_operands ::
  "condition_code \<Rightarrow> ('t, 'c, 's) graph \<Rightarrow> (nat \<Rightarrow> nat) \<Rightarrow> nat \<Rightarrow> op_type \<Rightarrow> nat \<Rightarrow> nat \<Rightarrow> bool" where
  "flag_operands cc g ch n op a b \<longleftrightarrow> cc_operator cc = Some op
     \<and> (\<exists>s. sets_flags g ch n s \<and> arr_get (ins g s) 1 = Some (Some a) \<and> arr_get (ins g s) 2 = Some (Some b))"

text \<open>The nodes made for \<open>r\<close> lie between \<open>lo\<close> and \<open>hi\<close>; only they matter for what \<open>r\<close> compares.\<close>

inductive built :: "nat \<Rightarrow> nat \<Rightarrow> ('t, 'c, 's) graph \<Rightarrow> nat \<Rightarrow> bool" for lo hi g where
  built_comparison: "\<lbrakk>lo \<le> r; r < hi; n_kind (g_node g r) = BinaryNode op\<rbrakk> \<Longrightarrow> built lo hi g r"
| built_phi: "\<lbrakk>lo \<le> r; r < hi; n_kind (g_node g r) = PhiNode; ins g r = Some cf # map Some rs;
    \<forall>m \<in> set rs. built lo hi g m\<rbrakk> \<Longrightarrow> built lo hi g r"

lemma built_range: "built lo hi g r \<Longrightarrow> lo \<le> r \<and> r < hi"
  by (cases rule: built.cases) auto

lemma built_stable:
  assumes "built lo hi g r" "\<And>i. \<lbrakk>lo \<le> i; i < hi\<rbrakk> \<Longrightarrow> n_kind (g_node g' i) = n_kind (g_node g i) \<and> ins g' i = ins g i"
    "lo' \<le> lo" "hi \<le> hi'"
  shows "built lo' hi' g' r \<and> compares g' ch r op a b = compares g ch r op a b"
  using assms(1)
proof (induction rule: built.induct)
  case (built_comparison r op)
  then show ?case
    using assms(2) [of r] assms(3,4) by (auto intro: built.built_comparison simp: compares_simps [of _ _ r])
next
  case (built_phi r cf rs)
  have "compares g' ch m op a b = compares g ch m op a b" "built lo' hi' g' m" if "m \<in> set rs" for m
    using built_phi(5) that by blast+
  then have "compares g' ch r op a b = compares g ch r op a b"
    using assms(2) [of r] built_phi(1-4) by (auto simp: compares_simps [of _ _ r])
  moreover have "built lo' hi' g' r"
    using assms(2) [of r] assms(3,4) built_phi by (intro built.built_phi [of _ _ _ _ cf rs]) auto
  ultimately show ?case by blast
qed

text \<open>What is seen of the old nodes does not change as nodes are added.\<close>

lemma data_inputs_same:
  assumes "inputs_below N g" "\<And>i. i < N \<Longrightarrow> n_kind (g_node h i) = n_kind (g_node g i) \<and> ins h i = ins g i" "n < N"
  shows "data_inputs h n = data_inputs g n"
proof -
  have "i < N" if "ins g n = Some i # ms" for i ms using assms(1,3) that by (auto simp: inputs_below_def)
  then have "get_data_input_start_index h n = get_data_input_start_index g n"
    using assms(2) [OF assms(3)] assms(2) by (auto simp: get_data_input_start_index_def split: list.split option.split)
  then show ?thesis using assms(2) [OF assms(3)] by (simp add: data_inputs_def)
qed

lemma data_reach_same:
  assumes "inputs_below N g" "\<And>i. i < N \<Longrightarrow> n_kind (g_node h i) = n_kind (g_node g i) \<and> ins h i = ins g i" "s < N"
  shows "data_reach g s n \<Longrightarrow> data_reach h s n"
proof (induction rule: data_reach.induct)
  case (input n d)
  have "n < N" using data_reach_below [OF input(1) assms(1,3)] .
  then show ?case using input assms(2) data_inputs_same [OF assms(1,2)] by (auto intro: data_reach.input)
qed (rule data_reach.start)

lemma keeps_reach:
  assumes "inputs_below (g_next g0) g0" "keeps g0 g" "s < g_next g0"
  shows "data_reach g s n = data_reach g0 s n" "reaching_conds g s = reaching_conds g0 s"
proof -
  have g: "inputs_below (g_next g0) g" by (rule inputs_below_keeps [OF assms(1,2)])
  show reach: "data_reach g s n = data_reach g0 s n" for n
    using data_reach_same [OF assms(1) _ assms(3), of g n] data_reach_same [OF g _ assms(3), of g0 n] assms(2)
    by (auto simp: keeps_def)
  have "n < g_next g0" if "data_reach g0 s n" for n using data_reach_below [OF that assms(1,3)] .
  then show "reaching_conds g s = reaching_conds g0 s"
    using assms(2) unfolding reaching_conds_def reach by (auto simp: keeps_def)
qed

lemma comparison_compares:
  assumes "rewrite_cond_to_comparison bt cc c g = Inr (r, g')"
  shows "built (g_next g) (g_next g') g' r"
    "compares g' ch r op a b \<longleftrightarrow> cc_operator cc = Some op
      \<and> (\<exists>s. arr_get (ins g c) 1 = Some (Some s) \<and> arr_get (ins g s) 1 = Some (Some a) \<and> arr_get (ins g s) 2 = Some (Some b))"
proof -
  obtain s op' l x where s: "arr_get (ins g c) 1 = Some (Some s)" "cc_operator cc = Some op'"
      "arr_get (ins g s) 1 = Some (Some l)" "arr_get (ins g s) 2 = Some x"
      "(r, g') = new_node (BinaryNode op') bt None ([None, Some l] @ (case x of None \<Rightarrow> [] | Some x' \<Rightarrow> [Some x'])) g"
    using assms unfolding rewrite_cond_to_comparison_def m_bin_def as_isub_def
    by (auto split: option.splits if_splits)
  note f = new_node_fields [OF s(5) [symmetric]]
  show "built (g_next g) (g_next g') g' r" by (rule built_comparison [OF _ _ f(3)]) (simp_all add: f(1,2))
  show "compares g' ch r op a b \<longleftrightarrow> cc_operator cc = Some op
      \<and> (\<exists>s. arr_get (ins g c) 1 = Some (Some s) \<and> arr_get (ins g s) 1 = Some (Some a) \<and> arr_get (ins g s) 2 = Some (Some b))"
    unfolding compares_simps [of _ _ r] f(3,5) using s by (auto split: option.splits)
qed

lemma leaf_compares:
  assumes W: "worklist_ok W items" and g0: "inputs_below (g_next g0) g0" and k: "keeps g0 g" and n: "n < g_next g0"
    and phi: "n_kind (g_node g n) \<noteq> PhiNode" and out: "leaf_result W bt cc n g = Some (Inr (Some r, g'))"
  shows "built (g_next g) (g_next g') g' r \<and> compares g' ch r op a b = flag_operands cc g0 ch n op a b"
  using out
proof (cases rule: leaf_resultE)
  case (node c r' g1)
  have below: "inputs_below (g_next g0) g" by (rule inputs_below_keeps [OF g0 k])
  have find: "find_reaching_conds W g n = Some (reaching_conds g0 n)"
    using find_reaching_conds_exact [OF W below n] keeps_reach(2) [OF g0 k n] by simp
  have old: "n_kind (g_node g i) = n_kind (g_node g0 i)" "ins g i = ins g0 i" if "i < g_next g0" for i
    using k that by (simp_all add: keeps_def)
  have c: "n_kind (g_node g0 n) = CondNode \<and> c = n \<or> n_kind (g_node g0 n) \<noteq> CondNode \<and> reaching_conds g0 n = {c}"
    using node(1) find old(1) [OF n] by (auto simp: leaf_cond_def split: if_splits)
  have "c \<in> reaching_conds g0 n" using c by (auto simp: reaching_conds_def intro: data_reach.start)
  then have lt: "c < g_next g0" and cond: "n_kind (g_node g0 c) = CondNode"
    using data_reach_below [OF _ g0 n] by (auto simp: reaching_conds_def)
  have flags: "sets_flags g0 ch n s \<longleftrightarrow> arr_get (ins g0 c) 1 = Some (Some s)" for s
  proof -
    have "sets_flags g0 ch c s \<longleftrightarrow> arr_get (ins g0 c) 1 = Some (Some s)"
      using cond by (auto simp: sets_flags_simps [of _ _ c])
    then show ?thesis using c phi old [OF n] by (auto simp: sets_flags_simps [of _ _ n])
  qed
  have "arr_get (ins g s) k = arr_get (ins g0 s) k" if "arr_get (ins g0 c) 1 = Some (Some s)" for s k
  proof -
    have "s < g_next g0" using g0 lt that by (auto simp: inputs_below_def arr_get_def in_set_conv_nth split: if_splits)
    then show ?thesis using old by simp
  qed
  then show ?thesis
    using comparison_compares [OF node(2)] node(3) flags old(2) [OF lt] by (auto simp: flag_operands_def)
qed simp_all

lemma flags_via_phi:
  assumes "n_kind (g_node g n) = PhiNode" "ins g n = Some cf # ms"
  shows "flag_operands cc g ch n op a b \<longleftrightarrow> ch cf < length ms \<and> (\<exists>m. ms ! ch cf = Some m \<and> flag_operands cc g ch m op a b)"
  using assms by (auto simp: flag_operands_def sets_flags_simps [of _ _ n])

lemma rewriting_compares:
  assumes W: "worklist_ok W items" and g0: "inputs_below (g_next g0) g0"
  shows "rewritten_as W bt cc A n g out \<Longrightarrow> out = Inr (Some r, g') \<Longrightarrow> n < g_next g0 \<Longrightarrow> keeps g0 g
      \<Longrightarrow> built (g_next g) (g_next g') g' r
        \<and> (\<forall>ch op a b. compares g' ch r op a b = flag_operands cc g0 ch n op a b)"
    "inputs_rewritten W bt cc A p ms g out \<Longrightarrow> out = Inr (Some r, g') \<Longrightarrow> \<forall>m. Some m \<in> set ms \<longrightarrow> m < g_next g0
      \<Longrightarrow> keeps g0 g \<Longrightarrow> g_next g0 \<le> p \<Longrightarrow> p < g_next g
      \<Longrightarrow> r = p \<and> n_kind (g_node g' p) = n_kind (g_node g p) \<and> (\<exists>rs. ins g' p = ins g p @ map Some rs
        \<and> list_all2 (\<lambda>i q. \<exists>m. i = Some m \<and> built (Suc p) (g_next g') g' q
            \<and> (\<forall>ch op a b. compares g' ch q op a b = flag_operands cc g0 ch m op a b)) ms rs)"
proof (induction arbitrary: r g' and r g' rule: rewritten_as_inputs_rewritten.inducts)
  case (phi n A g cf i ms p g1 out)
  note f = m_phi_fields [OF phi(4)]
  have ins: "ins g n = ins g0 n" "n_kind (g_node g n) = n_kind (g_node g0 n)" using phi.prems by (simp_all add: keeps_def)
  have "\<forall>m. Some m \<in> set (i # ms) \<longrightarrow> m < g_next g0" using g0 phi(3) phi.prems ins by (auto simp: inputs_below_def)
  then obtain rs where r: "r = p" "n_kind (g_node g' p) = PhiNode" "ins g' p = Some cf # map Some rs"
    and rs: "list_all2 (\<lambda>i q. \<exists>m. i = Some m \<and> built (Suc p) (g_next g') g' q
            \<and> (\<forall>ch op a b. compares g' ch q op a b = flag_operands cc g0 ch m op a b)) (i # ms) rs"
    using phi(6) [OF phi.prems(1)] phi.prems f keeps_trans [OF phi.prems(3) f(5)] by (fastforce simp: keeps_def)
  have "p < g_next g'" using rewriting_grows(2) [OF phi(5) phi.prems(1)] f by (simp add: grows_def)
  moreover have "built (g_next g) (g_next g') g' q" if "q \<in> set rs" for q
  proof -
    have "built (Suc p) (g_next g') g' q" using rs that by (auto simp: list_all2_conv_all_nth in_set_conv_nth)
    then show ?thesis using built_stable [of "Suc p" "g_next g'" g' q g' "g_next g" "g_next g'"] f(1) by simp
  qed
  ultimately have "built (g_next g) (g_next g') g' p" using r f(1) by (intro built_phi) auto
  moreover have "compares g' ch p op a b = flag_operands cc g0 ch n op a b" for ch op a b
  proof -
    have "compares g' ch p op a b \<longleftrightarrow> ch cf < length rs \<and> compares g' ch (rs ! ch cf) op a b"
      unfolding compares_simps [of _ _ p] using r by auto
    also have "\<dots> \<longleftrightarrow> flag_operands cc g0 ch n op a b"
      using rs phi(2,3) ins flags_via_phi [of g0 n cf "i # ms"] by (auto simp: list_all2_conv_all_nth)
    finally show ?thesis .
  qed
  ultimately show ?case using r by simp
next
  case (leaf n A g out)
  then show ?case using leaf_compares [OF W g0] by blast
next
  case (next_input A m g q g1 p ms out)
  let ?g2 = "add_edge (Some q) p g1"
  have k: "keeps g g1" using rewriting_grows(1) [OF next_input(1)] by simp
  have grow: "grows (Some p) ?g2 g'"
    using rewriting_grows(2) [OF next_input(3) next_input.prems(1)] next_input.prems(5) k by (simp add: keeps_def)
  have q: "built (g_next g) (g_next g1) g1 q" "\<And>ch op a b. compares g1 ch q op a b = flag_operands cc g0 ch m op a b"
    using next_input(2) [OF refl] next_input.prems by auto
  have same: "n_kind (g_node g' i) = n_kind (g_node g1 i) \<and> ins g' i = ins g1 i" if "g_next g \<le> i" "i < g_next g1" for i
    using grows_add_edge [of p g1 q] grow next_input.prems(5) that by (auto simp: grows_def)
  have "g_next g1 \<le> g_next g'" using grow by (simp add: grows_def)
  then have q': "built (Suc p) (g_next g') g' q" "\<And>ch op a b. compares g' ch q op a b = flag_operands cc g0 ch m op a b"
    using built_stable [OF q(1) same, of "Suc p" "g_next g'"] q(2) next_input.prems(5) by simp_all
  have "keeps g0 ?g2" using keeps_grows [OF keeps_trans [OF next_input.prems(3) k] grows_add_edge] next_input.prems(4) by simp
  then obtain rs where r: "r = p" "n_kind (g_node g' p) = n_kind (g_node ?g2 p)" "ins g' p = ins ?g2 p @ map Some rs"
    and rs: "list_all2 (\<lambda>i q. \<exists>m. i = Some m \<and> built (Suc p) (g_next g') g' q
            \<and> (\<forall>ch op a b. compares g' ch q op a b = flag_operands cc g0 ch m op a b)) ms rs"
    using next_input(4) [OF next_input.prems(1)] next_input.prems k by (auto simp: keeps_def)
  have "n_kind (g_node ?g2 p) = n_kind (g_node g p)" "ins ?g2 p = ins g p @ [Some q]"
    using k next_input.prems(5) grows_add_edge [of p g1 q] by (simp_all add: keeps_def grows_def)
  then show ?case using r rs q' by (intro conjI exI [of _ "q # rs"]) simp_all
qed simp_all

section \<open>The nodes that are made\<close>

lemma edges_add_edge: "\<lbrakk>edges_ok g; u < g_next g; d < g_next g\<rbrakk> \<Longrightarrow> edges_ok (add_edge (Some d) u g)"
  using edges_connect [of g u "Some d"] by (simp add: connect_def)

lemma edges_inputs_below: "edges_ok g \<Longrightarrow> inputs_below (g_next g) g"
  using edges_okD(3) by (force simp: inputs_below_def)

definition comparison_kind :: "condition_code \<Rightarrow> 'c node_kind \<Rightarrow> bool" where
  "comparison_kind cc k \<longleftrightarrow> k = PhiNode \<or> (\<exists>op. cc_operator cc = Some op \<and> k = BinaryNode op)"

text \<open>Inputs and outputs agree, and the nodes from \<open>N\<close> on are comparisons and phi nodes of the type \<open>bt\<close>.\<close>

definition made_ok :: "'t \<Rightarrow> condition_code \<Rightarrow> nat \<Rightarrow> ('t, 'c, 's) graph \<Rightarrow> bool" where
  "made_ok bt cc N g \<longleftrightarrow> edges_ok g \<and> N \<le> g_next g
     \<and> (\<forall>i. N \<le> i \<and> i < g_next g \<longrightarrow> n_type (g_node g i) = bt \<and> comparison_kind cc (n_kind (g_node g i)))"

lemma made_ok_new:
  assumes "made_ok bt cc N g" "new_node kind bt None ds g = (r, g')" "comparison_kind cc kind"
    "\<forall>d. Some d \<in> set ds \<longrightarrow> d < g_next g"
  shows "made_ok bt cc N g' \<and> r < g_next g'"
  using assms(1,3) new_node_fields [OF assms(2)] edges_new_node [OF _ assms(4), of kind bt None] assms(2)
  by (auto simp: made_ok_def less_Suc_eq)

lemma comparison_made_ok:
  assumes ok: "made_ok bt cc N g" and c: "c < g_next g" and "rewrite_cond_to_comparison bt cc c g = Inr (r, g')"
  shows "made_ok bt cc N g' \<and> r < g_next g'"
proof -
  obtain s op l x where s: "arr_get (ins g c) 1 = Some (Some s)" "cc_operator cc = Some op"
      "arr_get (ins g s) 1 = Some (Some l)" "arr_get (ins g s) 2 = Some x"
      "new_node (BinaryNode op) bt None ([None, Some l] @ (case x of None \<Rightarrow> [] | Some x' \<Rightarrow> [Some x'])) g = (r, g')"
    using assms(3) unfolding rewrite_cond_to_comparison_def m_bin_def as_isub_def
    by (auto split: option.splits if_splits)
  have below: "d < g_next g" if "arr_get (ins g i) k = Some (Some d)" "i < g_next g" for i k d
    using edges_inputs_below [of g] ok that unfolding made_ok_def inputs_below_def
    by (metis arr_get_def nth_mem option.distinct(1) option.inject)
  show ?thesis
    using below [OF s(1) c] s below by (intro made_ok_new [OF ok s(5)]) (auto simp: comparison_kind_def split: option.splits)
qed

lemma rewriting_made_ok:
  assumes W: "worklist_ok W items"
  shows "rewritten_as W bt cc A n g out \<Longrightarrow> out = Inr (r, g') \<Longrightarrow> n < g_next g \<Longrightarrow> made_ok bt cc N g
      \<Longrightarrow> made_ok bt cc N g' \<and> (\<forall>q. r = Some q \<longrightarrow> q < g_next g')"
    "inputs_rewritten W bt cc A p ms g out \<Longrightarrow> out = Inr (r, g') \<Longrightarrow> p < g_next g
      \<Longrightarrow> \<forall>m. Some m \<in> set ms \<longrightarrow> m < g_next g \<Longrightarrow> made_ok bt cc N g
      \<Longrightarrow> made_ok bt cc N g' \<and> (\<forall>q. r = Some q \<longrightarrow> q < g_next g')"
proof (induction arbitrary: r g' and r g' rule: rewritten_as_inputs_rewritten.inducts)
  case (phi n A g cf i ms p g1 out)
  note f = m_phi_fields [OF phi(4)]
  have b: "\<forall>m. Some m \<in> set (Some cf # i # ms) \<longrightarrow> m < g_next g"
    using edges_inputs_below [of g] phi(3) phi.prems unfolding made_ok_def inputs_below_def by metis
  then have "made_ok bt cc N g1"
    using made_ok_new [OF phi.prems(3) phi(4) [unfolded m_phi_def]] by (simp add: comparison_kind_def)
  then show ?case using phi(6) [OF phi.prems(1)] b f(1,2) by (auto simp: less_Suc_eq)
next
  case (leaf n A g out)
  have "leaf_result W bt cc n g = Some (Inr (r, g'))" using leaf by simp
  then show ?case
  proof (cases rule: leaf_resultE)
    case (node c q g1)
    have below: "inputs_below (g_next g) g" using leaf.prems by (auto simp: made_ok_def intro: edges_inputs_below)
    have find: "find_reaching_conds W g n = Some (reaching_conds g n)" by (rule find_reaching_conds_exact [OF W below leaf.prems(2)])
    have "c < g_next g"
    proof (cases "c = n")
      case False
      then have "reaching_conds g n = {c}" using node(1) find by (auto simp: leaf_cond_def split: if_splits)
      then have "data_reach g n c" by (auto simp: reaching_conds_def)
      then show ?thesis by (rule data_reach_below [OF _ below leaf.prems(2)])
    qed (use leaf.prems in simp)
    then show ?thesis using comparison_made_ok [OF leaf.prems(3) _ node(2)] node(3) by simp
  qed (use leaf.prems in simp_all)
next
  case (next_input A m g q g1 p ms out)
  have k: "keeps g g1" using rewriting_grows(1) [OF next_input(1)] by simp
  have "made_ok bt cc N g1" "q < g_next g1" using next_input(2) [OF refl] next_input.prems by auto
  then have "made_ok bt cc N (add_edge (Some q) p g1)"
    using next_input.prems(2) k edges_add_edge [of g1 p q] grows_add_edge [of p g1 q] by (simp add: made_ok_def keeps_def grows_def)
  then show ?case using next_input(4) [OF next_input.prems(1)] next_input.prems k by (force simp: keeps_def)
qed auto

section \<open>The visitor\<close>

lemma made_ok_start: "edges_ok g \<Longrightarrow> made_ok bt cc (g_next g) g"
  by (auto simp: made_ok_def)

lemma direct_test:
  assumes "n_kind (g_node g c) \<noteq> PhiNode" "leaf_result W bt cc c g = Some out"
  shows "rewrite_test_from_cc_node W bt cc c g = Some out"
proof (cases out)
  case (Inl e)
  then show ?thesis
    unfolding rewrite_test_from_cc_node_def Inl using assms Inl
    by (intro loop_steps(2) [where f = "new_frame c"]) (simp_all add: rewrite_step_def new_frame_def)
next
  case (Inr x)
  obtain r g' where x: "x = (r, g')" by force
  have "rewrite_loop W bt cc (state {} [new_frame c] None g) = rewrite_loop W bt cc (state {c} (finish r (new_frame c) # []) None g')"
    using assms Inr x by (intro loop_steps(1) [where f = "new_frame c"]) (simp_all add: rewrite_step_def new_frame_def)
  also have "\<dots> = Some (Inr (r, g'))"
    by (simp only: loop_finish) (simp add: rewrite_loop.simps)
  finally show ?thesis by (simp add: rewrite_test_from_cc_node_def Inr x)
qed

lemma visited_input:
  "\<lbrakk>edges_ok g; n < g_next g; arr_get (ins g n) k = Some (Some d)\<rbrakk> \<Longrightarrow> d < g_next g"
  using edges_inputs_below [of g] unfolding inputs_below_def
  by (metis arr_get_def nth_mem option.distinct(1) option.inject)

text \<open>
  C21. On every graph whose inputs and outputs agree, \<open>VisitTestNode\<close> returns or raises, whatever order
  the work list has: neither cycles of phi nodes nor cycles in the search make it loop.  When it returns,
  the old nodes have their kinds, types and inputs; every node it made, used or not, is a phi node or a
  comparison by the operator of the condition code, of type \<open>Bool\<close>; and inputs and outputs still agree.
\<close>

theorem visit_test_node_returns:
  assumes "worklist_ok W items" "edges_ok g" "n < g_next g"
  shows "\<exists>out. visit_test_node W bool_type cc n g = Some out
    \<and> (case out of Inl e \<Rightarrow> True
       | Inr (r, g') \<Rightarrow> keeps g g' \<and> edges_ok g' \<and> (r = None \<or> g_next g \<le> the r \<and> the r < g_next g')
          \<and> (\<forall>i. g_next g \<le> i \<and> i < g_next g' \<longrightarrow> n_type (g_node g' i) = bool_type
               \<and> (n_kind (g_node g' i) = PhiNode \<or> n_kind (g_node g' i) = BinaryNode (the (cc_operator cc)))))"
proof -
  have in_range: "g_next g \<le> q" if "rewritten_as W bool_type cc {} f g (Inr (Some q, g'))" "f < g_next g" for f q g'
    using rewriting_compares(1) [OF assms(1) edges_inputs_below [OF assms(2)] that(1) refl that(2) keeps_refl]
    by (auto dest: built_range)
  consider "arr_get (ins g n) 1 = None" | "arr_get (ins g n) 1 = Some None" | f where "arr_get (ins g n) 1 = Some (Some f)"
    by (metis not_None_eq)
  then show ?thesis
  proof cases
    case (3 f)
    have f: "f < g_next g" by (rule visited_input [OF assms(2,3) 3])
    obtain out where out: "rewritten_as W bool_type cc {} f g out" "visit_test_node W bool_type cc n g = Some out"
      using visit_test_node_rewrites [OF assms(1) edges_inputs_below [OF assms(2)] assms(3) 3] by blast
    show ?thesis
    proof (cases out)
      case (Inr x)
      obtain r g' where x: "x = (r, g')" by force
      have "keeps g g'" using rewriting_grows(1) [OF out(1)] Inr x by simp
      moreover have "made_ok bool_type cc (g_next g) g' \<and> (\<forall>q. r = Some q \<longrightarrow> q < g_next g')"
        using rewriting_made_ok(1) [OF assms(1) out(1) _ f made_ok_start [OF assms(2)]] Inr x by simp
      moreover have "\<forall>q. r = Some q \<longrightarrow> g_next g \<le> q" using in_range [OF _ f] out(1) Inr x by auto
      ultimately show ?thesis using out(2) Inr x by (auto simp: made_ok_def comparison_kind_def)
    qed (use out(2) in simp)
  qed (simp_all add: visit_test_node_def)
qed

text \<open>
  C20. The comparison \<open>VisitTestNode\<close> returns is the test: on every path into the phi nodes it compares,
  by the operator of the condition code, exactly the two operands of the subtraction that set the
  condition codes on that path, and it compares nothing where they are set by none.
\<close>

theorem visit_test_node_compares:
  assumes "worklist_ok W items" "edges_ok g" "n < g_next g" "arr_get (ins g n) 1 = Some (Some flags)"
    and "visit_test_node W bool_type cc n g = Some (Inr (Some r, g'))"
  shows "compares g' ch r op a b \<longleftrightarrow> cc_operator cc = Some op
    \<and> (\<exists>s. sets_flags g ch flags s \<and> arr_get (ins g s) 1 = Some (Some a) \<and> arr_get (ins g s) 2 = Some (Some b))"
proof -
  have out: "rewritten_as W bool_type cc {} flags g (Inr (Some r, g'))"
    using visit_test_node_rewrites [OF assms(1) edges_inputs_below [OF assms(2)] assms(3,4), of bool_type cc] assms(5) by auto
  show ?thesis
    using rewriting_compares(1) [OF assms(1) edges_inputs_below [OF assms(2)] out refl
        visited_input [OF assms(2-4)] keeps_refl] by (auto simp: flag_operands_def)
qed

text \<open>
  Testing a definition of condition codes directly, \<open>VisitTestNode\<close> raises exactly when its operand is
  not an integer subtraction or the condition code is not one of the ten of the table (overflow, sign
  and parity tests among them).
\<close>

lemma visit_test_node_raises:
  assumes "arr_get (ins g n) 1 = Some (Some c)" "n_kind (g_node g c) = CondNode" "ins g c = [cf, Some s]"
    and "ins g s = [scf, Some a, Some b]"
  shows "visit_test_node W bool_type cc n g
    = Some (if n_kind (g_node g s) = BinaryNode Op_ISub \<and> cc_operator cc \<noteq> None
            then Inr (map_prod Some id (m_bin bool_type (the (cc_operator cc)) None a b g))
            else Inl Not_Implemented)"
  using assms direct_test [of g c W bool_type cc]
  by (cases "cc_operator cc") (simp_all add: visit_test_node_def leaf_result_def rewrite_cond_to_comparison_def as_isub_def map_prod_def)

section \<open>A test after a join\<close>

text \<open>The operands 1 and 2 are compared before one edge into the block 0, 2 and 1 before the other.\<close>

definition add_node :: "nat node_kind \<Rightarrow> nat option list \<Rightarrow> (unit, nat, unit) graph \<Rightarrow> (unit, nat, unit) graph" where
  "add_node kind ds g = snd (new_node kind () None ds g)"

definition join_graph :: "(unit, nat, unit) graph" where
  "join_graph =
     add_node (TestNode CC_ULT) [None, Some 7] (add_node PhiNode [Some 0, Some 4, Some 6]
       (add_node CondNode [None, Some 5] (add_node (BinaryNode Op_ISub) [None, Some 2, Some 1]
         (add_node CondNode [None, Some 3] (add_node (BinaryNode Op_ISub) [None, Some 1, Some 2]
           (add_node DefNode [None] (add_node DefNode [None] (add_node BlockNode [] empty_graph))))))))"

lemma add_node_simps [simp]:
  "g_next (add_node kind ds g) = Suc (g_next g)"
  "edges_ok g \<Longrightarrow> \<forall>d. Some d \<in> set ds \<longrightarrow> d < g_next g \<Longrightarrow> edges_ok (add_node kind ds g)"
  by (simp_all add: add_node_def edges_new_node)

lemma join_graph_ok: "edges_ok join_graph" "g_next join_graph = 9"
proof -
  have "edges_ok (empty_graph :: (unit, nat, unit) graph)" "g_next (empty_graph :: (unit, nat, unit) graph) = 0"
    by (simp_all add: edges_ok_def empty_graph_def)
  then show "edges_ok join_graph" "g_next join_graph = 9" by (simp_all add: join_graph_def)
qed

definition join_result :: "nat option \<times> (unit, nat, unit) graph" where
  "join_result = projr (the (visit_test_node fifo () CC_ULT 8 join_graph))"

lemma join_result_eq: "map_option (map_sum id fst) (visit_test_node fifo () CC_ULT 8 join_graph) = Some (Inr (Some 9))"
  by code_simp

lemma join_visit: "visit_test_node fifo () CC_ULT 8 join_graph = Some (Inr (Some 9, snd join_result))"
proof -
  obtain x where "visit_test_node fifo () CC_ULT 8 join_graph = Some x" "map_sum id fst x = Inr (Some 9)"
    using join_result_eq by auto
  then show ?thesis by (cases x) (auto simp: join_result_def prod_eq_iff)
qed

lemma join_nodes:
  "n_kind (g_node join_graph 7) = PhiNode" "ins join_graph 7 = [Some 0, Some 4, Some 6]"
  "n_kind (g_node join_graph 6) = CondNode" "ins join_graph 6 = [None, Some 5]"
  "n_kind (g_node join_graph 4) = CondNode" "ins join_graph 4 = [None, Some 3]"
  "n_kind (g_node join_graph 3) = BinaryNode Op_ISub" "ins join_graph 3 = [None, Some 1, Some 2]"
  "ins join_graph 5 = [None, Some 2, Some 1]" "ins join_graph 8 = [None, Some 7]"
  by code_simp+

theorem visit_test_node_returns_witness: "\<exists>r g'. visit_test_node fifo () CC_ULT 8 join_graph = Some (Inr (r, g')) \<and> edges_ok g'"
  using visit_test_node_returns [OF fifo_ok join_graph_ok(1), of 8 "()" CC_ULT] join_graph_ok(2) join_visit by auto

theorem visit_test_node_compares_witness: "compares (snd join_result) (\<lambda>_. 1) 9 Op_Ult 2 1"
proof -
  have "sets_flags join_graph (\<lambda>_. 1) 6 5" by (rule at_cond) (simp_all add: join_nodes)
  then have "sets_flags join_graph (\<lambda>_. 1) 7 5"
    by (intro via_phi [of _ 7 0 "[Some 4, Some 6]" _ 6]) (simp_all add: join_nodes)
  moreover have "cc_operator CC_ULT = Some Op_Ult" by (simp add: cc_operator_def)
  ultimately show ?thesis
    using visit_test_node_compares [OF fifo_ok join_graph_ok(1) _ _ join_visit, of 7 "\<lambda>_. 1" Op_Ult 2 1]
      join_graph_ok(2) join_nodes by (auto intro!: exI [of _ 5])
qed

theorem visit_test_node_raises_witness:
  "visit_test_node fifo () (CC_Other 3) 9 (add_node (TestNode (CC_Other 3)) [None, Some 4] join_graph) = Some (Inl Not_Implemented)"
proof -
  let ?g = "add_node (TestNode (CC_Other 3)) [None, Some 4] join_graph"
  have "ins ?g 9 = [None, Some 4]" "n_kind (g_node ?g 4) = CondNode" "ins ?g 4 = [None, Some 3]"
    "n_kind (g_node ?g 3) = BinaryNode Op_ISub" "ins ?g 3 = [None, Some 1, Some 2]"
    by code_simp+
  then show ?thesis
    using visit_test_node_raises [of ?g 9 4 None 3 None 1 2 fifo "()" "CC_Other 3"] by (simp add: cc_operator_def)
qed

text \<open>
  When a later input of a phi node sees no condition codes, \<open>VisitTestNode\<close> gives up, but the comparison and
  the phi node it has made stay in the graph: the operands 1 and 2 list the comparison 12 as an output.
\<close>

lemma abandoned_nodes:
  "map_option (map_sum id (\<lambda>(r, g'). (r, g_next g', outs g' 1, outs g' 2, ins g' 11, ins g' 12)))
     (visit_test_node fifo () CC_ULT 10 (add_node (TestNode CC_ULT) [None, Some 9]
        (add_node PhiNode [Some 0, Some 4, Some 1] join_graph)))
   = Some (Inr (None, 13, [3, 5, 9, 12], [3, 5, 12], [Some 0, Some 12], [None, Some 1, Some 2]))"
  by code_simp

end
