(* ===== verification/Sea_Transform.thy ===== *)
theory Sea_Transform
  imports Sea_Compare
begin

text \<open>
  \<open>NodeValuePropagator.Transform\<close>: the work list of nodes, the visitor of each, and the replacement of a
  node by what the visitor returns.  The state between two turns of the loop is the graph and the work list.
\<close>

section \<open>The loop\<close>

text \<open>The nodes reachable through outputs, in the order they are added to the set.\<close>

partial_function (option) reachable_loop ::
  "('t, 'c, 's) graph \<Rightarrow> nat list \<Rightarrow> nat list \<Rightarrow> nat list option" where
  "reachable_loop g stack reachable =
     (case stack of
        [] \<Rightarrow> Some reachable
      | n # rest \<Rightarrow>
          if n \<in> set reachable then reachable_loop g rest reachable
          else reachable_loop g (rev (outs g n) @ rest) (reachable @ [n]))"

text \<open>\<open>VisitBinaryNode\<close> with the accesses to inputs that can fail.\<close>

definition visit_binary ::
  "('t, 'c) reko \<Rightarrow> nat \<Rightarrow> ('t, 'c, 's) graph \<Rightarrow> test_error + nat option \<times> ('t, 'c, 's) graph" where
  "visit_binary R n g =
     (let binary = \<lambda>i. case i of None \<Rightarrow> None
             | Some l \<Rightarrow> (case n_kind (g_node g l) of BinaryNode op \<Rightarrow> Some (l, op) | _ \<Rightarrow> None);
          constant = \<lambda>i. case i of None \<Rightarrow> None | Some r \<Rightarrow> as_constant g r
      in
      case arr_get (ins g n) 1 of
        None \<Rightarrow> Inl Argument_Out_Of_Range
      | Some left \<Rightarrow>
          (case binary left of
             None \<Rightarrow> Inr (None, g)
           | Some (l, left_op) \<Rightarrow>
               (case arr_get (ins g n) 2 of
                  None \<Rightarrow> Inl Argument_Out_Of_Range
                | Some right \<Rightarrow>
                    (case constant right of
                       None \<Rightarrow> Inr (None, g)
                     | Some c_right \<Rightarrow>
                         if left_op \<noteq> Op_IAdd then Inr (None, g)
                         else
                           (case arr_get (ins g l) 1 of
                              None \<Rightarrow> Inl Argument_Out_Of_Range
                            | Some None \<Rightarrow> Inr (None, g)
                            | Some (Some x) \<Rightarrow>
                                (case arr_get (ins g l) 2 of
                                   None \<Rightarrow> Inl Argument_Out_Of_Range
                                 | Some left_right \<Rightarrow>
                                     (case constant left_right of
                                        None \<Rightarrow> Inr (None, g)
                                      | Some c_left_right \<Rightarrow>
                                          if n_kind (g_node g n) = BinaryNode Op_IAdd then
                                            let (r, g') = m_const R (apply_constants R Op_IAdd (n_type (g_node g n)) c_left_right c_right) g;
                                                (new, g'') = m_bin (n_type (g_node g' x)) Op_IAdd None x r g'
                                            in Inr (Some new, g'')
                                          else Inr (None, g))))))))"

text \<open>
  \<open>Accept\<close> and the visitors: \<open>SegmentedPointerNode.Accept\<close> raises, every class that is not named here has a
  visitor that returns null.
\<close>

definition visit ::
  "'w worklist \<Rightarrow> ('t, 'c) reko \<Rightarrow> 't \<Rightarrow> nat \<Rightarrow> ('t, 'c, 's) graph \<Rightarrow> (test_error + nat option \<times> ('t, 'c, 's) graph) option" where
  "visit W R bool_type n g =
     (case n_kind (g_node g n) of
        TestNode cc \<Rightarrow> visit_test_node W bool_type cc n g
      | BinaryNode op \<Rightarrow> Some (visit_binary R n g)
      | SegmentedPointerNode \<Rightarrow> Some (Inl Not_Implemented)
      | _ \<Rightarrow> Some (Inr (None, g)))"

text \<open>One turn of the loop, for the node \<open>n\<close> taken from the work list.\<close>

definition transform_node ::
  "'w worklist \<Rightarrow> ('t, 'c) reko \<Rightarrow> 't \<Rightarrow> nat \<Rightarrow> ('t, 'c, 's) graph \<Rightarrow> 'w \<Rightarrow> (test_error + ('t, 'c, 's) graph \<times> 'w) option" where
  "transform_node W R bool_type n g w =
     map_option (map_sum id (\<lambda>(result, g').
        case result of
          None \<Rightarrow> (g', w)
        | Some new \<Rightarrow>
            let g'' = replace n new (upd new (n_storage_update (\<lambda>_. n_storage (g_node g' n))) g')
            in (g'', fold (wl_add W) (outs g'' new) w)))
       (visit W R bool_type n g)"

partial_function (option) transform_loop ::
  "'w worklist \<Rightarrow> ('t, 'c) reko \<Rightarrow> 't \<Rightarrow> ('t, 'c, 's) graph \<Rightarrow> 'w \<Rightarrow> (test_error + ('t, 'c, 's) graph) option" where
  "transform_loop W R bool_type g w =
     (case wl_take W w of
        None \<Rightarrow> Some (Inr g)
      | Some (n, w') \<Rightarrow>
          (case transform_node W R bool_type n g w' of
             None \<Rightarrow> None
           | Some (Inl e) \<Rightarrow> Some (Inl e)
           | Some (Inr (g', w'')) \<Rightarrow> transform_loop W R bool_type g' w''))"

definition transform ::
  "'w worklist \<Rightarrow> ('t, 'c) reko \<Rightarrow> 't \<Rightarrow> nat \<Rightarrow> ('t, 'c, 's) graph \<Rightarrow> (test_error + ('t, 'c, 's) graph) option" where
  "transform W R bool_type start g =
     (case reachable_loop g [start] [] of
        None \<Rightarrow> None
      | Some reachable \<Rightarrow> transform_loop W R bool_type g (fold (wl_add W) reachable (wl_new W)))"

declare reachable_loop.simps [code] transform_loop.simps [code]

section \<open>Well-formed graphs\<close>

text \<open>A node has the inputs its class reads; a node that was replaced has no inputs and no outputs.\<close>

definition shaped :: "'c node_kind \<Rightarrow> nat option list \<Rightarrow> bool" where
  "shaped kind ds =
     (case kind of
        TestNode _ \<Rightarrow> (case ds of [_, Some _] \<Rightarrow> True | _ \<Rightarrow> False)
      | CondNode \<Rightarrow> (case ds of [_, Some _] \<Rightarrow> True | _ \<Rightarrow> False)
      | BinaryNode _ \<Rightarrow> (case ds of [_, Some _, Some _] \<Rightarrow> True | _ \<Rightarrow> False)
      | _ \<Rightarrow> True)"

lemma shaped_iff: "shaped kind ds \<longleftrightarrow>
     ((\<exists>cc. kind = TestNode cc) \<or> kind = CondNode \<longrightarrow> (\<exists>cf x. ds = [cf, Some x]))
     \<and> (\<forall>op. kind = BinaryNode op \<longrightarrow> (\<exists>cf l r. ds = [cf, Some l, Some r]))"
  by (auto simp: shaped_def split: node_kind.split list.splits option.splits)

lemma shaped_phi [simp]: "shaped PhiNode ds"
  by (simp add: shaped_iff)

abbreviation shaped_at :: "('t, 'c, 's) graph \<Rightarrow> nat \<Rightarrow> bool" where
  "shaped_at g i \<equiv> i < g_next g \<and> shaped (n_kind (g_node g i)) (ins g i)"

definition well_formed :: "('t, 'c, 's) graph \<Rightarrow> bool" where
  "well_formed g \<longleftrightarrow> edges_ok g \<and> (\<forall>i < g_next g. shaped_at g i \<or> ins g i = [] \<and> outs g i = [])"

lemma wf_edges: "well_formed g \<Longrightarrow> edges_ok g"
  by (simp add: well_formed_def)

lemma wf_output:
  assumes "well_formed g" "i < g_next g" "u \<in> set (outs g i)"
  shows "shaped_at g i \<and> shaped_at g u"
proof -
  note ok = wf_edges [OF assms(1)]
  have u: "u < g_next g" by (rule edges_okD(2) [OF ok assms(2,3)])
  have "count_list (outs g i) u \<noteq> 0" using assms(3) by (simp add: count_list_0_iff)
  then have "ins g u \<noteq> []" using edges_okD(1) [OF ok assms(2) u] by auto
  moreover have "outs g i \<noteq> []" using assms(3) by auto
  ultimately show ?thesis using assms(1,2) u unfolding well_formed_def by blast
qed

lemma wf_input:
  assumes "well_formed g" "u < g_next g" "Some d \<in> set (ins g u)"
  shows "shaped_at g d \<and> shaped_at g u"
proof -
  note ok = wf_edges [OF assms(1)]
  have d: "d < g_next g" by (rule edges_okD(3) [OF ok assms(2,3)])
  have "count_list (ins g u) (Some d) \<noteq> 0" using assms(3) by (simp add: count_list_0_iff)
  then have "u \<in> set (outs g d)" using edges_okD(1) [OF ok d assms(2)] by (metis count_list_0_iff)
  then show ?thesis using wf_output [OF assms(1) d] by blast
qed

lemma wf_arr_get:
  "\<lbrakk>well_formed g; u < g_next g; arr_get (ins g u) k = Some (Some d)\<rbrakk> \<Longrightarrow> shaped_at g d"
  using wf_input [of g u d] by (metis arr_get_def nth_mem option.distinct(1) option.inject)

lemma keeps_shaped: "\<lbrakk>keeps g g'; shaped_at g i\<rbrakk> \<Longrightarrow> shaped_at g' i"
  by (simp add: keeps_def)

lemma outs_fold_connect: "outs (fold (connect u) ds g) i = outs g i @ replicate (count_list ds (Some i)) u"
  by (induction ds arbitrary: g) (auto simp: replicate_app_Cons_same)

lemma wf_new:
  assumes g: "well_formed g" and new: "new_node kind dt stg ds g = (r, g')"
    and ds: "\<And>d. Some d \<in> set ds \<Longrightarrow> shaped_at g d" and kind: "shaped kind ds"
  shows "well_formed g' \<and> shaped_at g' r \<and> keeps g g'"
proof -
  note f = new_node_fields [OF new]
  have outs: "outs g' i = (if i = g_next g then [] else outs g i) @ replicate (count_list ds (Some i)) (g_next g)" for i
    using new by (auto simp: new_node_def outs_fold_connect) (simp_all add: outs_def)
  have "edges_ok g'" using edges_new_node [of g ds kind dt stg] g ds new by (simp add: well_formed_def)
  moreover have "shaped_at g' i \<or> ins g' i = [] \<and> outs g' i = []" if "i < g_next g'" for i
  proof (cases "i < g_next g")
    case True
    show ?thesis
    proof (cases "shaped_at g i")
      case False
      then have "Some i \<notin> set ds" using ds by blast
      moreover have "ins g i = [] \<and> outs g i = []" using False True g unfolding well_formed_def by blast
      ultimately show ?thesis using True f(8) [OF True] outs [of i] by simp
    qed (use f True in simp)
  qed (use that f kind in \<open>simp add: less_Suc_eq\<close>)
  ultimately show ?thesis using f kind keeps_new [OF new] by (simp add: well_formed_def)
qed

lemma add_edge_phi:
  "n_kind (g_node (add_edge (Some q) p g) i) = n_kind (g_node g i)"
  "\<lbrakk>shaped_at g i; n_kind (g_node g p) = PhiNode\<rbrakk> \<Longrightarrow> shaped_at (add_edge (Some q) p g) i"
  by (auto simp: add_edge.simps(2) shaped_iff) (simp_all add: ins_def)

lemma wf_add_edge:
  assumes "well_formed g" "p < g_next g" "n_kind (g_node g p) = PhiNode" "shaped_at g q"
  shows "well_formed (add_edge (Some q) p g)"
proof -
  have "n_kind (g_node (add_edge (Some q) p g) i) = n_kind (g_node g i)" for i by (simp add: add_edge.simps)
  then show ?thesis
    using assms edges_add_edge [of g p q] by (auto simp: well_formed_def shaped_iff)
qed

lemma wf_replace:
  assumes g: "well_formed g" and p: "p < g_next g" and q: "shaped_at g q" and ne: "p \<noteq> q"
  shows "well_formed (replace p q g)" "ins (replace p q g) p = []" "g_next (replace p q g) = g_next g"
    "\<lbrakk>shaped_at g i; i \<noteq> p\<rbrakk> \<Longrightarrow> shaped_at (replace p q g) i"
proof -
  let ?g = "replace p q g"
  note ro = replace_outs_ins [OF ne, of g]
  have kind: "n_kind (g_node ?g i) = n_kind (g_node g i)" for i by (simp add: replace_other_fields)
  show "ins ?g p = []" "g_next ?g = g_next g" by (simp_all add: ro)
  have shape: "shaped kind (map (subst_ref p q) ds)" if "shaped kind ds" for kind :: "'b node_kind" and ds
    using that by (auto simp: shaped_iff)
  show keep: "shaped_at ?g i" if "shaped_at g i" "i \<noteq> p" for i
    using that shape by (simp add: ro kind)
  have "shaped_at ?g i \<or> ins ?g i = [] \<and> outs ?g i = []" if i: "i < g_next g" for i
  proof (cases "i = p \<or> shaped_at g i")
    case True
    then show ?thesis using keep [of i] by (cases "i = p") (simp_all add: ro)
  next
    case False
    then have "ins g i = []" "outs g i = []" using g i unfolding well_formed_def by blast+
    moreover have "i \<noteq> q" using False q by blast
    ultimately show ?thesis
      using fold_leave_subset [of p "ins (fold (redirect p q) (outs g p) g) p" "fold (redirect p q) (outs g p) g" i]
      by (simp add: ro fold_redirect_simps)
  qed
  then show "well_formed ?g"
    using edges_replace [OF wf_edges [OF g] ne p] q by (simp add: well_formed_def ro(1))
qed

lemma wf_storage: "well_formed (upd n (n_storage_update f) g) = well_formed g"
proof -
  have "outs (upd n (n_storage_update f) g) i = outs g i" "ins (upd n (n_storage_update f) g) i = ins g i"
    "n_kind (g_node (upd n (n_storage_update f) g) i) = n_kind (g_node g i)" for i
    by (simp_all add: outs_def ins_def)
  then show ?thesis by (simp only: well_formed_def edges_ok_def upd_simps(1))
qed

section \<open>The visitor keeps the graph well-formed\<close>

lemma leaf_cond_shaped:
  assumes W: "worklist_ok W items" and g: "well_formed g" and n: "shaped_at g n" and c: "leaf_cond W n g c"
  shows "shaped_at g c \<and> n_kind (g_node g c) = CondNode"
proof (cases "n_kind (g_node g n) = CondNode")
  case False
  have below: "inputs_below (g_next g) g" using g by (auto simp: well_formed_def intro: edges_inputs_below)
  have "reaching_conds g n = {c}"
    using c False find_reaching_conds_exact [OF W below, of n] n by (simp add: leaf_cond_def)
  then have reach: "data_reach g n c" "n_kind (g_node g c) = CondNode" by (auto simp: reaching_conds_def)
  from reach(1) have "shaped_at g c"
  proof (induction rule: data_reach.induct)
    case (input u d)
    then have "Some d \<in> set (ins g u)" by (auto simp: data_inputs_def dest: in_set_dropD)
    then show ?case using wf_input [OF g] input.IH by blast
  qed (use n in simp)
  then show ?thesis using reach by simp
qed (use c n in \<open>simp add: leaf_cond_def\<close>)

lemma wf_comparison:
  assumes g: "well_formed g" and c: "shaped_at g c" "n_kind (g_node g c) = CondNode"
  shows "rewrite_cond_to_comparison bt cc c g = Inl e \<Longrightarrow> e = Not_Implemented"
    "rewrite_cond_to_comparison bt cc c g = Inr (r, g') \<Longrightarrow> well_formed g' \<and> shaped_at g' r"
proof -
  obtain cf s where s: "ins g c = [cf, Some s]" using c by (auto simp: shaped_iff)
  have shaped: "shaped_at g s" using wf_input [OF g, of c s] s c(1) by simp
  have "(\<exists>scf a b. ins g s = [scf, Some a, Some b])" if "n_kind (g_node g s) = BinaryNode Op_ISub"
    using shaped that by (auto simp: shaped_iff)
  then show "rewrite_cond_to_comparison bt cc c g = Inl e \<Longrightarrow> e = Not_Implemented"
    using s by (auto simp: rewrite_cond_to_comparison_def as_isub_def split: option.splits if_splits)
  show "well_formed g' \<and> shaped_at g' r" if r: "rewrite_cond_to_comparison bt cc c g = Inr (r, g')"
  proof -
    have "n_kind (g_node g s) = BinaryNode Op_ISub"
      using r s by (auto simp: rewrite_cond_to_comparison_def as_isub_def split: option.splits if_splits)
    then obtain scf a b where ab: "n_kind (g_node g s) = BinaryNode Op_ISub" "ins g s = [scf, Some a, Some b]"
      using shaped by (auto simp: shaped_iff)
    then obtain op where m: "m_bin bt op None a b g = (r, g')"
      using r s by (auto simp: rewrite_cond_to_comparison_def as_isub_def split: option.splits)
    have shaped: "shaped_at g d" if "Some d \<in> set [None, Some a, Some b]" for d
      using wf_input [OF g, of s d] shaped ab(2) that by auto
    have "well_formed g' \<and> shaped_at g' r \<and> keeps g g'"
      by (rule wf_new [OF g m [unfolded m_bin_def] shaped]) (simp_all add: shaped_iff)
    then show ?thesis by blast
  qed
qed

lemma rewriting_well_formed:
  assumes W: "worklist_ok W items"
  shows "rewritten_as W bt cc A n g out \<Longrightarrow> well_formed g \<Longrightarrow> shaped_at g n
      \<Longrightarrow> (case out of Inl e \<Rightarrow> e = Not_Implemented
           | Inr (r, g') \<Rightarrow> well_formed g' \<and> (\<forall>q. r = Some q \<longrightarrow> shaped_at g' q))"
    "inputs_rewritten W bt cc A p ms g out \<Longrightarrow> well_formed g \<Longrightarrow> shaped_at g p \<Longrightarrow> n_kind (g_node g p) = PhiNode
      \<Longrightarrow> \<forall>m. Some m \<in> set ms \<longrightarrow> shaped_at g m
      \<Longrightarrow> (case out of Inl e \<Rightarrow> e = Not_Implemented
           | Inr (r, g') \<Rightarrow> well_formed g' \<and> (\<forall>q. r = Some q \<longrightarrow> shaped_at g' q))"
proof (induction rule: rewritten_as_inputs_rewritten.inducts)
  case (phi n A g cf i ms p g1 out)
  have inputs: "\<forall>m. Some m \<in> set (Some cf # i # ms) \<longrightarrow> shaped_at g m"
    using wf_input [OF phi.prems(1), of n] phi.prems(2) phi(3) by simp
  then have "well_formed g1 \<and> shaped_at g1 p \<and> keeps g g1"
    using wf_new [OF phi.prems(1) phi(4) [unfolded m_phi_def]] by (simp add: shaped_iff)
  then show ?case using phi.IH inputs keeps_shaped m_phi_fields(3) [OF phi(4)] by auto
next
  case (leaf n A g out)
  show ?case
    using leaf(3)
  proof (cases rule: leaf_resultE)
    case (raises c e)
    note c = leaf_cond_shaped [OF W leaf.prems raises(1)]
    show ?thesis using wf_comparison(1) [OF leaf.prems(1) conjunct1 [OF c] conjunct2 [OF c] raises(2)] raises(3) by simp
  next
    case (node c r g')
    note c = leaf_cond_shaped [OF W leaf.prems node(1)]
    show ?thesis using wf_comparison(2) [OF leaf.prems(1) conjunct1 [OF c] conjunct2 [OF c] node(2)] node(3) by simp
  qed (use leaf.prems in simp)
next
  case (next_input A m g q g1 p ms out)
  have k: "keeps g g1" using rewriting_grows(1) [OF next_input(1)] by simp
  have "well_formed g1 \<and> shaped_at g1 q" using next_input(2) next_input.prems by auto
  moreover have p: "shaped_at g1 p" "n_kind (g_node g1 p) = PhiNode"
    using keeps_shaped [OF k next_input.prems(2)] k next_input.prems(2,3) by (auto simp: keeps_def)
  ultimately have "well_formed (add_edge (Some q) p g1)" using wf_add_edge by blast
  then show ?case
    using add_edge_phi [where q = q and p = p and g = g1] p keeps_shaped [OF k] next_input.prems(4) by (intro next_input(4)) simp_all
qed auto

text \<open>What a visitor may return: the graph grows and stays well-formed.\<close>

definition visit_ok :: "('t, 'c, 's) graph \<Rightarrow> ('t, 'c, 's) rewriting \<Rightarrow> bool" where
  "visit_ok g out \<longleftrightarrow>
     (case out of Inl e \<Rightarrow> e = Not_Implemented
      | Inr (r, g') \<Rightarrow> keeps g g' \<and> well_formed g' \<and> (\<forall>q. r = Some q \<longrightarrow> shaped_at g' q \<and> g_next g \<le> q))"

lemma visit_test_ok:
  assumes W: "worklist_ok W items" and g: "well_formed g" and n: "shaped_at g n" "n_kind (g_node g n) = TestNode cc"
  shows "\<exists>out. visit_test_node W bt cc n g = Some out \<and> visit_ok g out"
proof -
  obtain cf f where f: "ins g n = [cf, Some f]" using n by (auto simp: shaped_iff)
  have sf: "shaped_at g f" using wf_input [OF g, of n f] n f by simp
  obtain out where out: "rewritten_as W bt cc {} f g out" "visit_test_node W bt cc n g = Some out"
    using visit_test_node_rewrites [OF W edges_inputs_below [OF wf_edges [OF g]], of n f bt cc] n f by auto
  have "visit_ok g out"
  proof (cases out)
    case (Inr x)
    obtain r g' where x: "x = (r, g')" by force
    have "g_next g \<le> q" if "r = Some q" for q
      using rewriting_compares(1) [OF W edges_inputs_below [OF wf_edges [OF g]] out(1), of q g'] Inr x that sf
      by (auto dest: built_range)
    then show ?thesis
      using rewriting_well_formed(1) [OF W out(1) g sf] rewriting_grows(1) [OF out(1)] Inr x by (simp add: visit_ok_def)
  qed (use rewriting_well_formed(1) [OF W out(1) g sf] in \<open>simp add: visit_ok_def\<close>)
  then show ?thesis using out(2) by blast
qed

lemma visit_binary_ok:
  assumes g: "well_formed g" and n: "shaped_at g n" "n_kind (g_node g n) = BinaryNode op"
  shows "visit_ok g (visit_binary R n g)"
proof -
  obtain cf l r where ins: "ins g n = [cf, Some l, Some r]" using n by (auto simp: shaped_iff)
  have l: "shaped_at g l" using wf_input [OF g, of n l] n ins by simp
  have null: "visit_ok g (Inr (None, g))" using g by (simp add: visit_ok_def)
  show ?thesis
  proof (cases "\<exists>left_op c. n_kind (g_node g l) = BinaryNode left_op \<and> as_constant g r = Some c \<and> left_op = Op_IAdd")
    case False
    then show ?thesis using ins null by (auto simp: visit_binary_def Let_def split: node_kind.split option.split)
  next
    case True
    then obtain c where c: "n_kind (g_node g l) = BinaryNode Op_IAdd" "as_constant g r = Some c" by blast
    obtain lcf x y where lins: "ins g l = [lcf, Some x, Some y]" using l c by (auto simp: shaped_iff)
    have x: "shaped_at g x" using wf_input [OF g, of l x] l lins by simp
    have "visit_ok g (let (r, g') = m_const R k g; (new, g'') = m_bin (n_type (g_node g' x)) Op_IAdd None x r g' in Inr (Some new, g''))"
      for k
    proof -
      obtain p g1 where p: "m_const R k g = (p, g1)" by force
      have 1: "well_formed g1 \<and> shaped_at g1 p \<and> keeps g g1"
        by (rule wf_new [OF g p [unfolded m_const_def]]) (simp_all add: shaped_iff)
      obtain q g2 where q: "m_bin (n_type (g_node g1 x)) Op_IAdd None x p g1 = (q, g2)" by force
      have "shaped_at g1 d" if "Some d \<in> set [None, Some x, Some p]" for d
        using 1 that keeps_shaped [of g g1 x] x by auto
      then have 2: "well_formed g2 \<and> shaped_at g2 q \<and> keeps g1 g2"
        using 1 by (intro wf_new [OF _ q [unfolded m_bin_def]]) (simp_all add: shaped_iff)
      have "q = g_next g1" using q by (simp add: m_bin_def new_node_def)
      then show ?thesis using 1 2 keeps_trans [of g g1 g2] by (simp add: p q visit_ok_def keeps_def)
    qed
    then show ?thesis
      using ins lins c n null by (simp add: visit_binary_def Let_def split: option.split)
  qed
qed

lemma visit_total:
  assumes "worklist_ok W items" "well_formed g" "shaped_at g n"
  shows "\<exists>out. visit W R bt n g = Some out \<and> visit_ok g out"
proof -
  have "visit_ok g (Inr (None, g))" "visit_ok g (Inl Not_Implemented)" using assms(2) by (simp_all add: visit_ok_def)
  then show ?thesis
    using visit_test_ok [OF assms] visit_binary_ok [OF assms(2,3)] by (simp add: visit_def split: node_kind.split)
qed

section \<open>The states of the loop\<close>

text \<open>The states \<open>Transform\<close> comes to from \<open>g\<close> and \<open>w\<close>.\<close>

inductive transform_reaches ::
  "'w worklist \<Rightarrow> ('t, 'c) reko \<Rightarrow> 't \<Rightarrow> ('t, 'c, 's) graph \<times> 'w \<Rightarrow> ('t, 'c, 's) graph \<times> 'w \<Rightarrow> bool"
  for W R bt s where
  begins: "transform_reaches W R bt s s"
| turns: "\<lbrakk>transform_reaches W R bt s (g, w); wl_take W w = Some (n, w'); transform_node W R bt n g w' = Some (Inr s')\<rbrakk>
    \<Longrightarrow> transform_reaches W R bt s s'"

definition loop_inv :: "('w \<Rightarrow> nat multiset) \<Rightarrow> ('t, 'c, 's) graph \<times> 'w \<Rightarrow> bool" where
  "loop_inv items s \<longleftrightarrow> (case s of (g, w) \<Rightarrow>
     well_formed g \<and> (\<forall>n \<in># items w. shaped_at g n \<and> count (items w) n = 1))"

lemma fold_add_items:
  assumes "worklist_ok W items"
  shows "set_mset (items (fold (wl_add W) ns w)) = set ns \<union> set_mset (items w)"
    "(\<And>n. n \<in># items w \<Longrightarrow> count (items w) n = 1) \<Longrightarrow> n \<in># items (fold (wl_add W) ns w) \<Longrightarrow> count (items (fold (wl_add W) ns w)) n = 1"
proof -
  show "set_mset (items (fold (wl_add W) ns w)) = set ns \<union> set_mset (items w)"
    by (induction ns arbitrary: w) (auto simp: worklist_okD(2) [OF assms])
  have add: "items (wl_add W x w) = (if x \<in># items w then items w else add_mset x (items w))" for x w
    using assms by (simp add: worklist_ok_def)
  show "(\<And>n. n \<in># items w \<Longrightarrow> count (items w) n = 1) \<Longrightarrow> n \<in># items (fold (wl_add W) ns w) \<Longrightarrow> count (items (fold (wl_add W) ns w)) n = 1"
  proof (induction ns arbitrary: w)
    case (Cons x ns)
    have "count (items (wl_add W x w)) m = 1" if "m \<in># items (wl_add W x w)" for m
      using Cons.prems(1) [of m] that
      by (cases "x \<in># items w"; cases "m = x") (simp_all add: add count_eq_zero_iff)
    then show ?case using Cons.IH [of "wl_add W x w"] Cons.prems(2) by simp
  qed simp
qed

lemma transform_node_ok:
  assumes W: "worklist_ok W items" and inv: "loop_inv items (g, w)" and take: "wl_take W w = Some (n, w')"
  shows "\<exists>out. transform_node W R bt n g w' = Some out \<and> (case out of Inl e \<Rightarrow> e = Not_Implemented | Inr s \<Rightarrow> loop_inv items s)"
proof -
  have items: "items w = add_mset n (items w')" by (rule worklist_okD(5) [OF W take])
  have g: "well_formed g" and n: "shaped_at g n" and w': "n \<notin># items w'" "\<And>m. m \<in># items w' \<Longrightarrow> shaped_at g m \<and> count (items w') m = 1"
    using inv items by (auto simp: loop_inv_def not_in_iff split: if_splits)
  obtain out where out: "visit W R bt n g = Some out" "visit_ok g out" using visit_total [OF W g n] by blast
  show ?thesis
  proof (cases out)
    case (Inl e)
    then show ?thesis using out by (simp add: transform_node_def visit_ok_def)
  next
    case (Inr x)
    obtain r g' where x: "x = (r, g')" by force
    have k: "keeps g g'" "well_formed g'" and r: "\<And>q. r = Some q \<Longrightarrow> shaped_at g' q \<and> g_next g \<le> q"
      using out(2) Inr x by (auto simp: visit_ok_def)
    have old: "shaped_at g' m" if "shaped_at g m" for m using keeps_shaped [OF k(1) that] .
    show ?thesis
    proof (cases r)
      case None
      then show ?thesis using out(1) Inr x k old w' by (auto simp: transform_node_def loop_inv_def)
    next
      case (Some q)
      let ?g1 = "upd q (n_storage_update (\<lambda>_. n_storage (g_node g' n))) g'"
      let ?g2 = "replace n q ?g1"
      have ne: "n \<noteq> q" using n r [OF Some] by auto
      have fields: "n_kind (g_node ?g1 m) = n_kind (g_node g' m)" "ins ?g1 m = ins g' m" for m by (simp_all add: ins_def)
      have wf1: "well_formed ?g1" "n < g_next ?g1" "shaped_at ?g1 q"
        using k(2) old [OF n] r [OF Some] fields by (simp_all add: wf_storage)
      note rep = wf_replace [OF wf1 ne]
      have "shaped_at ?g2 m" if "m \<in># items w'" for m
        using rep(4) [of m] old [of m] w' that fields by auto
      moreover have "shaped_at ?g2 m" if "m \<in> set (outs ?g2 q)" for m
        using wf_output [OF rep(1), of q m] wf1(3) rep(3) that by simp
      ultimately have "loop_inv items (?g2, fold (wl_add W) (outs ?g2 q) w')"
        using rep(1) fold_add_items [OF W] w'(2) by (auto simp: loop_inv_def)
      then show ?thesis using out(1) Inr x Some by (simp add: transform_node_def Let_def)
    qed
  qed
qed

text \<open>
  C22. From a well-formed graph and a work list of nodes that have their inputs, every state of \<open>Transform\<close>
  has them too: inputs and outputs agree, no replaced node is ever seen again, and every turn of the loop
  returns or raises \<open>NotImplementedException\<close> (on a segmented pointer, or from \<open>RewriteCondToComparison\<close>),
  never another exception, whatever the order of the work list.
\<close>

theorem transform_keeps_well_formed:
  assumes "worklist_ok W items" "loop_inv items s" "transform_reaches W R bool_type s (g, w)"
  shows "well_formed g \<and> (\<forall>n \<in># items w. shaped_at g n)
    \<and> (\<forall>n w'. wl_take W w = Some (n, w') \<longrightarrow>
        (\<exists>out. transform_node W R bool_type n g w' = Some out \<and> (case out of Inl e \<Rightarrow> e = Not_Implemented | Inr s' \<Rightarrow> True)))"
proof -
  have inv: "loop_inv items (g, w)"
    using assms(3)
  proof (induction "(g, w)" arbitrary: g w rule: transform_reaches.induct)
    case (turns g w n w')
    then show ?case using transform_node_ok [OF assms(1) turns(2,3), of R bool_type] by simp
  qed (use assms(2) in simp)
  have "\<exists>out. transform_node W R bool_type n g w' = Some out \<and> (case out of Inl e \<Rightarrow> e = Not_Implemented | Inr s' \<Rightarrow> True)"
    if take: "wl_take W w = Some (n, w')" for n w'
  proof -
    obtain out where "transform_node W R bool_type n g w' = Some out"
        "case out of Inl e \<Rightarrow> e = Not_Implemented | Inr s' \<Rightarrow> loop_inv items s'"
      using transform_node_ok [OF assms(1) inv take, of R bool_type] by blast
    then show ?thesis by (cases out) simp_all
  qed
  then show ?thesis using inv by (simp add: loop_inv_def)
qed

section \<open>The first loop\<close>

lemma reachable_loop_exact:
  assumes ok: "edges_ok g" and "set stack \<subseteq> {..<g_next g}" "set reachable \<subseteq> {..<g_next g}" "distinct reachable"
    and "s \<in> set reachable \<union> set stack" "\<forall>x \<in> set reachable \<union> set stack. (\<lambda>i j. j \<in> set (outs g i))\<^sup>*\<^sup>* s x"
    and "\<forall>x \<in> set reachable. set (outs g x) \<subseteq> set reachable \<union> set stack"
  shows "\<exists>ns. reachable_loop g stack reachable = Some ns \<and> distinct ns \<and> set ns = {x. (\<lambda>i j. j \<in> set (outs g i))\<^sup>*\<^sup>* s x}"
  using assms(2-)
proof (induction "length stack + (\<Sum>n \<in> {..<g_next g} - set reachable. length (outs g n))"
    arbitrary: stack reachable rule: less_induct)
  case less
  show ?case
  proof (cases stack)
    case Nil
    have "x \<in> set reachable" if "(\<lambda>i j. j \<in> set (outs g i))\<^sup>*\<^sup>* s x" for x
      using that by (induction rule: rtranclp_induct) (use less.prems Nil in auto)
    then have "set reachable = {x. (\<lambda>i j. j \<in> set (outs g i))\<^sup>*\<^sup>* s x}" using less.prems(5) Nil by auto
    then show ?thesis using Nil less.prems(3) by (simp add: reachable_loop.simps)
  next
    case (Cons n rest)
    show ?thesis
    proof (cases "n \<in> set reachable")
      case True
      have "\<exists>ns. reachable_loop g rest reachable = Some ns \<and> distinct ns \<and> set ns = {x. (\<lambda>i j. j \<in> set (outs g i))\<^sup>*\<^sup>* s x}"
        by (rule less.hyps) (use less.prems Cons True in auto)
      then show ?thesis using Cons True by (subst reachable_loop.simps) simp
    next
      case False
      have n: "n < g_next g" using less.prems(1) Cons by simp
      have "{..<g_next g} - set (reachable @ [n]) = {..<g_next g} - set reachable - {n}" by auto
      then have sum: "(\<Sum>k \<in> {..<g_next g} - set (reachable @ [n]). length (outs g k)) + length (outs g n)
          = (\<Sum>k \<in> {..<g_next g} - set reachable. length (outs g k))"
        using sum.remove [of "{..<g_next g} - set reachable" n "\<lambda>k. length (outs g k)"] n False by simp
      have "(\<lambda>i j. j \<in> set (outs g i))\<^sup>*\<^sup>* s x" if "x \<in> set (outs g n)" for x
        using less.prems(5) Cons that by (auto intro: rtranclp.rtrancl_into_rtrancl)
      then have "\<exists>ns. reachable_loop g (rev (outs g n) @ rest) (reachable @ [n]) = Some ns \<and> distinct ns
          \<and> set ns = {x. (\<lambda>i j. j \<in> set (outs g i))\<^sup>*\<^sup>* s x}"
        by (intro less.hyps) (use less.prems Cons False sum n edges_okD(2) [OF ok n] in auto)
      then show ?thesis using Cons False by (subst reachable_loop.simps) simp
    qed
  qed
qed

lemma transform_starts:
  assumes W: "worklist_ok W items" and g: "well_formed g" and start: "shaped_at g start"
  shows "\<exists>w. transform W R bt start g = transform_loop W R bt g w \<and> loop_inv items (g, w)
    \<and> set_mset (items w) = {x. (\<lambda>i j. j \<in> set (outs g i))\<^sup>*\<^sup>* start x}"
proof -
  obtain ns where ns: "reachable_loop g [start] [] = Some ns" "set ns = {x. (\<lambda>i j. j \<in> set (outs g i))\<^sup>*\<^sup>* start x}"
    using reachable_loop_exact [OF wf_edges [OF g], of "[start]" "[]" start] start by auto
  have "shaped_at g x" if "(\<lambda>i j. j \<in> set (outs g i))\<^sup>*\<^sup>* start x" for x
    using that by (induction rule: rtranclp_induct) (use start wf_output [OF g] in blast)+
  then show ?thesis
    using ns g fold_add_items [OF W, where ns = ns and w = "wl_new W"] worklist_okD(1) [OF W]
    by (intro exI [of _ "fold (wl_add W) ns (wl_new W)"]) (auto simp: transform_def loop_inv_def)
qed

text \<open>The test after the join, taken from the work list and replaced by the comparison.\<close>

lemma join_graph_well_formed: "well_formed join_graph"
proof -
  have "list_all (\<lambda>i. shaped (n_kind (g_node join_graph i)) (ins join_graph i)) [0..<9]" by code_simp
  then show ?thesis using join_graph_ok by (auto simp: well_formed_def list_all_iff)
qed

lemma join_transformed:
  "map_option (map_sum id (\<lambda>g. (ins g 8, outs g 8, outs g 7, ins g 9))) (transform fifo R () 0 join_graph)
    = Some (Inr ([], [], [], [Some 0, Some 10, Some 11]))"
  by code_simp

definition plain_reko :: "(unit, nat) reko" where
  "plain_reko = \<lparr>apply_constants = (\<lambda>op dt c d. if op = Op_IAdd then c + d else 0), const_type = (\<lambda>_. ()), is_zero = (\<lambda>c. c = 0),
     is_negative = (\<lambda>_. False), is_max_unsigned = (\<lambda>_. False), negate = id, zero_const = (\<lambda>_. 0), bit_size = (\<lambda>_. 0),
     is_add_or_sub = (\<lambda>op. op = Op_IAdd \<or> op = Op_ISub)\<rparr>"

lemma join_turn:
  "map_option (map_sum id (\<lambda>(g, w). (ins g 8, w))) (transform_node fifo plain_reko () 8 join_graph []) = Some (Inr ([], []))"
  by code_simp

theorem transform_keeps_well_formed_witness:
  "\<exists>g. transform_reaches fifo plain_reko () (join_graph, [8]) (g, []) \<and> well_formed g \<and> ins g 8 = []"
proof -
  obtain x where x: "transform_node fifo plain_reko () 8 join_graph [] = Some x" "map_sum id (\<lambda>(g, w). (ins g 8, w)) x = Inr ([], [])"
    using join_turn by auto
  then obtain g where g: "x = Inr (g, [])" "ins g 8 = []" by (cases x) auto
  have "wl_take fifo [8] = Some (8, [])" by (simp add: fifo_def)
  then have reach: "transform_reaches fifo plain_reko () (join_graph, [8]) (g, [])"
    using turns [OF begins, of fifo "[8]" 8 "[]" plain_reko "()" join_graph "(g, [])"] x(1) g by simp
  have "shaped (n_kind (g_node join_graph 8)) (ins join_graph 8)" by code_simp
  then have "loop_inv mset (join_graph, [8])"
    using join_graph_well_formed join_graph_ok(2) by (simp add: loop_inv_def)
  then show ?thesis
    using transform_keeps_well_formed [OF fifo_ok _ reach] reach g by blast
qed

end
