(* ===== verification/Neon_Base.thy ===== *)
theory Neon_Base
  imports Reko_Prelude
begin

text \<open>
  What the routines of clang's \<open>arm_neon.h\<close> are written with.  A vector is the list of its
  elements in the order of C subscripts, of any element type.  \<open>le\<close> is \<open>__LITTLE_ENDIAN__\<close>: on a
  big-endian target element 0 of a C vector is the highest lane of the register, so each routine
  there reverses its vector operands, computes, and reverses its result.  \<open>vreg le v\<close> is the content
  of the register that holds \<open>v\<close>, lane 0 first: the view in which both variants are specified.
\<close>

text \<open>\<open>__builtin_shufflevector\<close>: the indices select from the concatenation of both operands.\<close>

definition shufflevector :: "'a list \<Rightarrow> 'a list \<Rightarrow> nat list \<Rightarrow> 'a list" where
  "shufflevector a b ix = map (\<lambda>i. (a @ b) ! i) ix"

text \<open>The reversing shuffle \<open>__builtin_shufflevector(p, p, n - 1, ..., 1, 0)\<close> of the big-endian variants.\<close>

definition swap :: "'a list \<Rightarrow> 'a list" where
  "swap a = shufflevector a a (rev [0..<length a])"

text \<open>The shuffle \<open>__builtin_shufflevector(v, v, k, ..., k)\<close>.\<close>

definition splat :: "nat \<Rightarrow> 'a list \<Rightarrow> nat \<Rightarrow> 'a list" where
  "splat n v k = shufflevector v v (replicate n k)"

text \<open>A comparison of vectors gives all ones or all zeros in each lane; the C operator on the lane
  type (unsigned, signed or floating) is the argument.\<close>

definition mask_lanes :: "('a \<Rightarrow> 'a \<Rightarrow> bool) \<Rightarrow> 'a list \<Rightarrow> 'a list \<Rightarrow> 'm::len word list" where
  "mask_lanes c = map2 (\<lambda>x y. if c x y then - 1 else 0)"

definition vreg :: "bool \<Rightarrow> 'a list \<Rightarrow> 'a list" where
  "vreg le v = (if le then v else rev v)"

lemma map_upt_nth: "map ((!) (a @ b)) [0..<length a] = a"
  by (rule nth_equalityI) (simp_all add: nth_append)

lemma swap_rev: "swap a = rev a"
  by (simp add: swap_def shufflevector_def flip: rev_map) (simp add: map_upt_nth)

lemma swap_swap [simp]: "swap (swap a) = a"
  by (simp add: swap_rev)

lemma length_swap [simp]: "length (swap a) = length a"
  by (simp add: swap_rev)

lemma vreg_cases [simp]: "vreg True v = v" "vreg False v = swap v"
  by (simp_all add: vreg_def swap_rev)

lemma length_vreg [simp]: "length (vreg le v) = length v"
  by (simp add: vreg_def)

lemma length_shufflevector [simp]: "length (shufflevector a b ix) = length ix"
  by (simp add: shufflevector_def)

lemma splat_lane: "k < length v \<Longrightarrow> splat n v k = replicate n (v ! k)"
  by (simp add: splat_def shufflevector_def nth_append)

lemma swap_replicate [simp]: "swap (replicate n x) = replicate n x"
  by (simp add: swap_rev)

lemma map2_replicate:
  "length b = n \<Longrightarrow> map2 f b (replicate n x) = map (\<lambda>y. f y x) b"
  by (induction b arbitrary: n) auto

end
