(* ===== verification/Neon_Lanes.thy ===== *)
theory Neon_Lanes
  imports Neon_Base
begin

text \<open>
  The routines of \<open>arm_neon.h\<close> that compute lane by lane with C operators: arithmetic, bitwise
  operations and comparisons, broadcasts, and the products with one lane or one scalar.  A routine's
  overloads for all element types and lane counts are one definition: \<open>vadd_u8\<close>, \<open>vadd_f32\<close> and the
  others are \<open>vadd\<close> at their lane types (a routine on a one-lane vector has no big-endian variant,
  and reversing one lane changes nothing).
\<close>

section \<open>Lane-wise arithmetic, logic and comparison\<close>

definition vaddq where
  "vaddq le p0 p1 =
     (if le then map2 (+) p0 p1
      else
        let rev0 = swap p0; rev1 = swap p1;
            ret = map2 (+) rev0 rev1
        in swap ret)"

definition vadd where
  "vadd le p0 p1 =
     (if le then map2 (+) p0 p1
      else
        let rev0 = swap p0; rev1 = swap p1;
            ret = map2 (+) rev0 rev1
        in swap ret)"

definition vandq where
  "vandq le p0 p1 =
     (if le then map2 (AND) p0 p1
      else
        let rev0 = swap p0; rev1 = swap p1;
            ret = map2 (AND) rev0 rev1
        in swap ret)"

definition vand where
  "vand le p0 p1 =
     (if le then map2 (AND) p0 p1
      else
        let rev0 = swap p0; rev1 = swap p1;
            ret = map2 (AND) rev0 rev1
        in swap ret)"

definition vbicq where
  "vbicq le p0 p1 =
     (if le then map2 (AND) p0 (map NOT p1)
      else
        let rev0 = swap p0; rev1 = swap p1;
            ret = map2 (AND) rev0 (map NOT rev1)
        in swap ret)"

definition vbic where
  "vbic le p0 p1 =
     (if le then map2 (AND) p0 (map NOT p1)
      else
        let rev0 = swap p0; rev1 = swap p1;
            ret = map2 (AND) rev0 (map NOT rev1)
        in swap ret)"

definition vceqq where
  "vceqq le c_eq p0 p1 =
     (if le then mask_lanes c_eq p0 p1
      else
        let rev0 = swap p0; rev1 = swap p1;
            ret = mask_lanes c_eq rev0 rev1
        in swap ret)"

definition vceq where
  "vceq le c_eq p0 p1 =
     (if le then mask_lanes c_eq p0 p1
      else
        let rev0 = swap p0; rev1 = swap p1;
            ret = mask_lanes c_eq rev0 rev1
        in swap ret)"

definition vcgeq where
  "vcgeq le c_ge p0 p1 =
     (if le then mask_lanes c_ge p0 p1
      else
        let rev0 = swap p0; rev1 = swap p1;
            ret = mask_lanes c_ge rev0 rev1
        in swap ret)"

definition vcge where
  "vcge le c_ge p0 p1 =
     (if le then mask_lanes c_ge p0 p1
      else
        let rev0 = swap p0; rev1 = swap p1;
            ret = mask_lanes c_ge rev0 rev1
        in swap ret)"

definition vcgtq where
  "vcgtq le c_gt p0 p1 =
     (if le then mask_lanes c_gt p0 p1
      else
        let rev0 = swap p0; rev1 = swap p1;
            ret = mask_lanes c_gt rev0 rev1
        in swap ret)"

definition vcgt where
  "vcgt le c_gt p0 p1 =
     (if le then mask_lanes c_gt p0 p1
      else
        let rev0 = swap p0; rev1 = swap p1;
            ret = mask_lanes c_gt rev0 rev1
        in swap ret)"

definition vcleq where
  "vcleq le c_le p0 p1 =
     (if le then mask_lanes c_le p0 p1
      else
        let rev0 = swap p0; rev1 = swap p1;
            ret = mask_lanes c_le rev0 rev1
        in swap ret)"

definition vcle where
  "vcle le c_le p0 p1 =
     (if le then mask_lanes c_le p0 p1
      else
        let rev0 = swap p0; rev1 = swap p1;
            ret = mask_lanes c_le rev0 rev1
        in swap ret)"

definition vcltq where
  "vcltq le c_lt p0 p1 =
     (if le then mask_lanes c_lt p0 p1
      else
        let rev0 = swap p0; rev1 = swap p1;
            ret = mask_lanes c_lt rev0 rev1
        in swap ret)"

definition vclt where
  "vclt le c_lt p0 p1 =
     (if le then mask_lanes c_lt p0 p1
      else
        let rev0 = swap p0; rev1 = swap p1;
            ret = mask_lanes c_lt rev0 rev1
        in swap ret)"

definition veorq where
  "veorq le p0 p1 =
     (if le then map2 (XOR) p0 p1
      else
        let rev0 = swap p0; rev1 = swap p1;
            ret = map2 (XOR) rev0 rev1
        in swap ret)"

definition veor where
  "veor le p0 p1 =
     (if le then map2 (XOR) p0 p1
      else
        let rev0 = swap p0; rev1 = swap p1;
            ret = map2 (XOR) rev0 rev1
        in swap ret)"

definition vmlaq where
  "vmlaq le p0 p1 p2 =
     (if le then map2 (+) p0 (map2 (*) p1 p2)
      else
        let rev0 = swap p0; rev1 = swap p1; rev2 = swap p2;
            ret = map2 (+) rev0 (map2 (*) rev1 rev2)
        in swap ret)"

definition vmla where
  "vmla le p0 p1 p2 =
     (if le then map2 (+) p0 (map2 (*) p1 p2)
      else
        let rev0 = swap p0; rev1 = swap p1; rev2 = swap p2;
            ret = map2 (+) rev0 (map2 (*) rev1 rev2)
        in swap ret)"

definition vmlsq where
  "vmlsq le p0 p1 p2 =
     (if le then map2 (-) p0 (map2 (*) p1 p2)
      else
        let rev0 = swap p0; rev1 = swap p1; rev2 = swap p2;
            ret = map2 (-) rev0 (map2 (*) rev1 rev2)
        in swap ret)"

definition vmls where
  "vmls le p0 p1 p2 =
     (if le then map2 (-) p0 (map2 (*) p1 p2)
      else
        let rev0 = swap p0; rev1 = swap p1; rev2 = swap p2;
            ret = map2 (-) rev0 (map2 (*) rev1 rev2)
        in swap ret)"

definition vmulq where
  "vmulq le p0 p1 =
     (if le then map2 (*) p0 p1
      else
        let rev0 = swap p0; rev1 = swap p1;
            ret = map2 (*) rev0 rev1
        in swap ret)"

definition vmul where
  "vmul le p0 p1 =
     (if le then map2 (*) p0 p1
      else
        let rev0 = swap p0; rev1 = swap p1;
            ret = map2 (*) rev0 rev1
        in swap ret)"

definition vmvnq where
  "vmvnq le p0 =
     (if le then map NOT p0
      else
        let rev0 = swap p0;
            ret = map NOT rev0
        in swap ret)"

definition vmvn where
  "vmvn le p0 =
     (if le then map NOT p0
      else
        let rev0 = swap p0;
            ret = map NOT rev0
        in swap ret)"

definition vnegq where
  "vnegq le p0 =
     (if le then map uminus p0
      else
        let rev0 = swap p0;
            ret = map uminus rev0
        in swap ret)"

definition vneg where
  "vneg le p0 =
     (if le then map uminus p0
      else
        let rev0 = swap p0;
            ret = map uminus rev0
        in swap ret)"

definition vornq where
  "vornq le p0 p1 =
     (if le then map2 (OR) p0 (map NOT p1)
      else
        let rev0 = swap p0; rev1 = swap p1;
            ret = map2 (OR) rev0 (map NOT rev1)
        in swap ret)"

definition vorn where
  "vorn le p0 p1 =
     (if le then map2 (OR) p0 (map NOT p1)
      else
        let rev0 = swap p0; rev1 = swap p1;
            ret = map2 (OR) rev0 (map NOT rev1)
        in swap ret)"

definition vorrq where
  "vorrq le p0 p1 =
     (if le then map2 (OR) p0 p1
      else
        let rev0 = swap p0; rev1 = swap p1;
            ret = map2 (OR) rev0 rev1
        in swap ret)"

definition vorr where
  "vorr le p0 p1 =
     (if le then map2 (OR) p0 p1
      else
        let rev0 = swap p0; rev1 = swap p1;
            ret = map2 (OR) rev0 rev1
        in swap ret)"

definition vsubq where
  "vsubq le p0 p1 =
     (if le then map2 (-) p0 p1
      else
        let rev0 = swap p0; rev1 = swap p1;
            ret = map2 (-) rev0 rev1
        in swap ret)"

definition vsub where
  "vsub le p0 p1 =
     (if le then map2 (-) p0 p1
      else
        let rev0 = swap p0; rev1 = swap p1;
            ret = map2 (-) rev0 rev1
        in swap ret)"

section \<open>Broadcasts, and products with a lane or a scalar\<close>

definition vdupq_lane where
  "vdupq_lane le n p0 p1 =
     (if le then splat n p0 p1
      else
        let rev0 = swap p0;
            ret = splat n rev0 p1
        in swap ret)"

definition vdup_lane where
  "vdup_lane le n p0 p1 =
     (if le then splat n p0 p1
      else
        let rev0 = swap p0;
            ret = splat n rev0 p1
        in swap ret)"

definition vdupq_n where
  "vdupq_n le n p0 =
     (if le then replicate n p0
      else
        let ret = replicate n p0
        in swap ret)"

definition vdup_n where
  "vdup_n le n p0 =
     (if le then replicate n p0
      else
        let ret = replicate n p0
        in swap ret)"

definition vmlaq_lane where
  "vmlaq_lane le p0 p1 p2 p3 =
     (if le then map2 (+) p0 (map2 (*) p1 (splat (length p1) p2 p3))
      else
        let rev0 = swap p0; rev1 = swap p1; rev2 = swap p2;
            ret = map2 (+) rev0 (map2 (*) rev1 (splat (length p1) rev2 p3))
        in swap ret)"

definition vmla_lane where
  "vmla_lane le p0 p1 p2 p3 =
     (if le then map2 (+) p0 (map2 (*) p1 (splat (length p1) p2 p3))
      else
        let rev0 = swap p0; rev1 = swap p1; rev2 = swap p2;
            ret = map2 (+) rev0 (map2 (*) rev1 (splat (length p1) rev2 p3))
        in swap ret)"

definition vmlaq_n where
  "vmlaq_n le p0 p1 p2 =
     (if le then map2 (+) p0 (map2 (*) p1 (replicate (length p1) p2))
      else
        let rev0 = swap p0; rev1 = swap p1;
            ret = map2 (+) rev0 (map2 (*) rev1 (replicate (length p1) p2))
        in swap ret)"

definition vmla_n where
  "vmla_n le p0 p1 p2 =
     (if le then map2 (+) p0 (map2 (*) p1 (replicate (length p1) p2))
      else
        let rev0 = swap p0; rev1 = swap p1;
            ret = map2 (+) rev0 (map2 (*) rev1 (replicate (length p1) p2))
        in swap ret)"

definition vmlsq_lane where
  "vmlsq_lane le p0 p1 p2 p3 =
     (if le then map2 (-) p0 (map2 (*) p1 (splat (length p1) p2 p3))
      else
        let rev0 = swap p0; rev1 = swap p1; rev2 = swap p2;
            ret = map2 (-) rev0 (map2 (*) rev1 (splat (length p1) rev2 p3))
        in swap ret)"

definition vmls_lane where
  "vmls_lane le p0 p1 p2 p3 =
     (if le then map2 (-) p0 (map2 (*) p1 (splat (length p1) p2 p3))
      else
        let rev0 = swap p0; rev1 = swap p1; rev2 = swap p2;
            ret = map2 (-) rev0 (map2 (*) rev1 (splat (length p1) rev2 p3))
        in swap ret)"

definition vmlsq_n where
  "vmlsq_n le p0 p1 p2 =
     (if le then map2 (-) p0 (map2 (*) p1 (replicate (length p1) p2))
      else
        let rev0 = swap p0; rev1 = swap p1;
            ret = map2 (-) rev0 (map2 (*) rev1 (replicate (length p1) p2))
        in swap ret)"

definition vmls_n where
  "vmls_n le p0 p1 p2 =
     (if le then map2 (-) p0 (map2 (*) p1 (replicate (length p1) p2))
      else
        let rev0 = swap p0; rev1 = swap p1;
            ret = map2 (-) rev0 (map2 (*) rev1 (replicate (length p1) p2))
        in swap ret)"

definition vmovq_n where
  "vmovq_n le n p0 =
     (if le then replicate n p0
      else
        let ret = replicate n p0
        in swap ret)"

definition vmov_n where
  "vmov_n le n p0 =
     (if le then replicate n p0
      else
        let ret = replicate n p0
        in swap ret)"

definition vmulq_lane where
  "vmulq_lane le p0 p1 p2 =
     (if le then map2 (*) p0 (splat (length p0) p1 p2)
      else
        let rev0 = swap p0; rev1 = swap p1;
            ret = map2 (*) rev0 (splat (length p0) rev1 p2)
        in swap ret)"

definition vmul_lane where
  "vmul_lane le p0 p1 p2 =
     (if le then map2 (*) p0 (splat (length p0) p1 p2)
      else
        let rev0 = swap p0; rev1 = swap p1;
            ret = map2 (*) rev0 (splat (length p0) rev1 p2)
        in swap ret)"

definition vmulq_n where
  "vmulq_n le p0 p1 =
     (if le then map2 (*) p0 (replicate (length p0) p1)
      else
        let rev0 = swap p0;
            ret = map2 (*) rev0 (replicate (length p0) p1)
        in swap ret)"

definition vmul_n where
  "vmul_n le p0 p1 =
     (if le then map2 (*) p0 (replicate (length p0) p1)
      else
        let rev0 = swap p0;
            ret = map2 (*) rev0 (replicate (length p0) p1)
        in swap ret)"

definition vdupq_laneq where
  "vdupq_laneq le n p0 p1 =
     (if le then splat n p0 p1
      else
        let rev0 = swap p0;
            ret = splat n rev0 p1
        in swap ret)"

definition vdup_laneq where
  "vdup_laneq le n p0 p1 =
     (if le then splat n p0 p1
      else
        let rev0 = swap p0;
            ret = splat n rev0 p1
        in swap ret)"

definition vmlaq_laneq where
  "vmlaq_laneq le p0 p1 p2 p3 =
     (if le then map2 (+) p0 (map2 (*) p1 (splat (length p1) p2 p3))
      else
        let rev0 = swap p0; rev1 = swap p1; rev2 = swap p2;
            ret = map2 (+) rev0 (map2 (*) rev1 (splat (length p1) rev2 p3))
        in swap ret)"

definition vmla_laneq where
  "vmla_laneq le p0 p1 p2 p3 =
     (if le then map2 (+) p0 (map2 (*) p1 (splat (length p1) p2 p3))
      else
        let rev0 = swap p0; rev1 = swap p1; rev2 = swap p2;
            ret = map2 (+) rev0 (map2 (*) rev1 (splat (length p1) rev2 p3))
        in swap ret)"

definition vmlsq_laneq where
  "vmlsq_laneq le p0 p1 p2 p3 =
     (if le then map2 (-) p0 (map2 (*) p1 (splat (length p1) p2 p3))
      else
        let rev0 = swap p0; rev1 = swap p1; rev2 = swap p2;
            ret = map2 (-) rev0 (map2 (*) rev1 (splat (length p1) rev2 p3))
        in swap ret)"

definition vmls_laneq where
  "vmls_laneq le p0 p1 p2 p3 =
     (if le then map2 (-) p0 (map2 (*) p1 (splat (length p1) p2 p3))
      else
        let rev0 = swap p0; rev1 = swap p1; rev2 = swap p2;
            ret = map2 (-) rev0 (map2 (*) rev1 (splat (length p1) rev2 p3))
        in swap ret)"

definition vmulq_laneq where
  "vmulq_laneq le p0 p1 p2 =
     (if le then map2 (*) p0 (splat (length p0) p1 p2)
      else
        let rev0 = swap p0; rev1 = swap p1;
            ret = map2 (*) rev0 (splat (length p0) rev1 p2)
        in swap ret)"

definition vmul_laneq where
  "vmul_laneq le p0 p1 p2 =
     (if le then map2 (*) p0 (splat (length p0) p1 p2)
      else
        let rev0 = swap p0; rev1 = swap p1;
            ret = map2 (*) rev0 (splat (length p0) rev1 p2)
        in swap ret)"

lemmas lanes_defs =
  vaddq_def vadd_def vandq_def vand_def vbicq_def vbic_def vceqq_def vceq_def vcgeq_def vcge_def
  vcgtq_def vcgt_def vcleq_def vcle_def vcltq_def vclt_def vdupq_lane_def vdup_lane_def vdupq_n_def
  vdup_n_def veorq_def veor_def vmlaq_def vmla_def vmlaq_lane_def vmla_lane_def vmlaq_n_def
  vmla_n_def vmlsq_def vmls_def vmlsq_lane_def vmls_lane_def vmlsq_n_def vmls_n_def vmovq_n_def
  vmov_n_def vmulq_def vmul_def vmulq_lane_def vmul_lane_def vmulq_n_def vmul_n_def vmvnq_def
  vmvn_def vnegq_def vneg_def vornq_def vorn_def vorrq_def vorr_def vsubq_def vsub_def
  vdupq_laneq_def vdup_laneq_def vmlaq_laneq_def vmla_laneq_def vmlsq_laneq_def vmls_laneq_def
  vmulq_laneq_def vmul_laneq_def

section \<open>Both byte orders compute the same lanes\<close>

text \<open>
  On either byte order the lane-wise routines compute, lane by lane of the register, what their
  name says: sums, differences, products, negations, bitwise operations, fused products and
  comparison masks.
\<close>

lemma lane_wise_routines:
  "vreg le (vaddq le x y)
      = map2 (+) (vreg le x) (vreg le y)
    \<and> vreg le (vadd le x y)
      = map2 (+) (vreg le x) (vreg le y)
    \<and> vreg le (vandq le x y)
      = map2 (AND) (vreg le x) (vreg le y)
    \<and> vreg le (vand le x y)
      = map2 (AND) (vreg le x) (vreg le y)
    \<and> vreg le (vbicq le x y)
      = map2 (AND) (vreg le x) (map NOT (vreg le y))
    \<and> vreg le (vbic le x y)
      = map2 (AND) (vreg le x) (map NOT (vreg le y))
    \<and> vreg le (vceqq le c_eq x y)
      = mask_lanes c_eq (vreg le x) (vreg le y)
    \<and> vreg le (vceq le c_eq x y)
      = mask_lanes c_eq (vreg le x) (vreg le y)
    \<and> vreg le (vcgeq le c_ge x y)
      = mask_lanes c_ge (vreg le x) (vreg le y)
    \<and> vreg le (vcge le c_ge x y)
      = mask_lanes c_ge (vreg le x) (vreg le y)
    \<and> vreg le (vcgtq le c_gt x y)
      = mask_lanes c_gt (vreg le x) (vreg le y)
    \<and> vreg le (vcgt le c_gt x y)
      = mask_lanes c_gt (vreg le x) (vreg le y)
    \<and> vreg le (vcleq le c_le x y)
      = mask_lanes c_le (vreg le x) (vreg le y)
    \<and> vreg le (vcle le c_le x y)
      = mask_lanes c_le (vreg le x) (vreg le y)
    \<and> vreg le (vcltq le c_lt x y)
      = mask_lanes c_lt (vreg le x) (vreg le y)
    \<and> vreg le (vclt le c_lt x y)
      = mask_lanes c_lt (vreg le x) (vreg le y)
    \<and> vreg le (veorq le x y)
      = map2 (XOR) (vreg le x) (vreg le y)
    \<and> vreg le (veor le x y)
      = map2 (XOR) (vreg le x) (vreg le y)
    \<and> vreg le (vmlaq le x y z)
      = map2 (+) (vreg le x) (map2 (*) (vreg le y) (vreg le z))
    \<and> vreg le (vmla le x y z)
      = map2 (+) (vreg le x) (map2 (*) (vreg le y) (vreg le z))
    \<and> vreg le (vmlsq le x y z)
      = map2 (-) (vreg le x) (map2 (*) (vreg le y) (vreg le z))
    \<and> vreg le (vmls le x y z)
      = map2 (-) (vreg le x) (map2 (*) (vreg le y) (vreg le z))
    \<and> vreg le (vmulq le x y)
      = map2 (*) (vreg le x) (vreg le y)
    \<and> vreg le (vmul le x y)
      = map2 (*) (vreg le x) (vreg le y)
    \<and> vreg le (vmvnq le x)
      = map NOT (vreg le x)
    \<and> vreg le (vmvn le x)
      = map NOT (vreg le x)
    \<and> vreg le (vnegq le x)
      = map uminus (vreg le x)
    \<and> vreg le (vneg le x)
      = map uminus (vreg le x)
    \<and> vreg le (vornq le x y)
      = map2 (OR) (vreg le x) (map NOT (vreg le y))
    \<and> vreg le (vorn le x y)
      = map2 (OR) (vreg le x) (map NOT (vreg le y))
    \<and> vreg le (vorrq le x y)
      = map2 (OR) (vreg le x) (vreg le y)
    \<and> vreg le (vorr le x y)
      = map2 (OR) (vreg le x) (vreg le y)
    \<and> vreg le (vsubq le x y)
      = map2 (-) (vreg le x) (vreg le y)
    \<and> vreg le (vsub le x y)
      = map2 (-) (vreg le x) (vreg le y)"
  by (cases le) (simp_all add: lanes_defs Let_def)

text \<open>
  The routines that take one lane of a vector, or a scalar, use it for every lane: broadcasts
  replicate it, the products, sums and differences of products multiply every lane by it.  The lane
  number counts lanes of the register on either byte order, also where the vector that holds the
  lane has more or fewer lanes than the result.
\<close>

lemma lane_and_scalar_routines:
  assumes "k < length v"
  shows "vreg le (vdupq_lane le n v k)
      = replicate n (vreg le v ! k)
    \<and> vreg le (vdup_lane le n v k)
      = replicate n (vreg le v ! k)
    \<and> vreg le (vdupq_n le n s)
      = replicate n s
    \<and> vreg le (vdup_n le n s)
      = replicate n s
    \<and> vreg le (vmlaq_lane le x y v k)
      = map2 (+) (vreg le x) (map (\<lambda>t. t * vreg le v ! k) (vreg le y))
    \<and> vreg le (vmla_lane le x y v k)
      = map2 (+) (vreg le x) (map (\<lambda>t. t * vreg le v ! k) (vreg le y))
    \<and> vreg le (vmlaq_n le x y s)
      = map2 (+) (vreg le x) (map (\<lambda>t. t * s) (vreg le y))
    \<and> vreg le (vmla_n le x y s)
      = map2 (+) (vreg le x) (map (\<lambda>t. t * s) (vreg le y))
    \<and> vreg le (vmlsq_lane le x y v k)
      = map2 (-) (vreg le x) (map (\<lambda>t. t * vreg le v ! k) (vreg le y))
    \<and> vreg le (vmls_lane le x y v k)
      = map2 (-) (vreg le x) (map (\<lambda>t. t * vreg le v ! k) (vreg le y))
    \<and> vreg le (vmlsq_n le x y s)
      = map2 (-) (vreg le x) (map (\<lambda>t. t * s) (vreg le y))
    \<and> vreg le (vmls_n le x y s)
      = map2 (-) (vreg le x) (map (\<lambda>t. t * s) (vreg le y))
    \<and> vreg le (vmovq_n le n s)
      = replicate n s
    \<and> vreg le (vmov_n le n s)
      = replicate n s
    \<and> vreg le (vmulq_lane le x v k)
      = map (\<lambda>t. t * vreg le v ! k) (vreg le x)
    \<and> vreg le (vmul_lane le x v k)
      = map (\<lambda>t. t * vreg le v ! k) (vreg le x)
    \<and> vreg le (vmulq_n le x s)
      = map (\<lambda>t. t * s) (vreg le x)
    \<and> vreg le (vmul_n le x s)
      = map (\<lambda>t. t * s) (vreg le x)
    \<and> vreg le (vdupq_laneq le n v k)
      = replicate n (vreg le v ! k)
    \<and> vreg le (vdup_laneq le n v k)
      = replicate n (vreg le v ! k)
    \<and> vreg le (vmlaq_laneq le x y v k)
      = map2 (+) (vreg le x) (map (\<lambda>t. t * vreg le v ! k) (vreg le y))
    \<and> vreg le (vmla_laneq le x y v k)
      = map2 (+) (vreg le x) (map (\<lambda>t. t * vreg le v ! k) (vreg le y))
    \<and> vreg le (vmlsq_laneq le x y v k)
      = map2 (-) (vreg le x) (map (\<lambda>t. t * vreg le v ! k) (vreg le y))
    \<and> vreg le (vmls_laneq le x y v k)
      = map2 (-) (vreg le x) (map (\<lambda>t. t * vreg le v ! k) (vreg le y))
    \<and> vreg le (vmulq_laneq le x v k)
      = map (\<lambda>t. t * vreg le v ! k) (vreg le x)
    \<and> vreg le (vmul_laneq le x v k)
      = map (\<lambda>t. t * vreg le v ! k) (vreg le x)"
  using assms by (cases le) (simp_all add: lanes_defs Let_def splat_lane map2_replicate)

lemma lane_and_scalar_routines_witness:
  "vmlaq_lane False [1, 2, 3, 4] [10, 20, 30, 40] [5, 6 :: 32 word] 0 = [61, 122, 183, 244]"
  using lane_and_scalar_routines [where k = 0 and v = "[5, 6 :: 32 word]" and le = False and x = "[1, 2, 3, 4]"
      and y = "[10, 20, 30, 40]"]
  by (simp add: vreg_def)

end
