(* ===== verification/Neon_Builtin.thy ===== *)
theory Neon_Builtin
  imports Neon_Base
begin

text \<open>
  The routines of \<open>arm_neon.h\<close> that wrap one compiler builtin.  The builtin (\<open>bi\<close>) is not in the
  repository: it is an argument.  Vector operands are reversed around it on a big-endian target,
  scalars, lane numbers and immediates are not.  \<open>noswap\<close> variants are for use inside other routines
  whose operands have been reversed already.
\<close>

definition noswap_vabdq where
  "noswap_vabdq bi p0 p1 = bi p0 p1"

definition vabdq where
  "vabdq le bi p0 p1 =
     (if le then bi p0 p1
      else
        let rev0 = swap p0; rev1 = swap p1;
            ret = bi rev0 rev1
        in swap ret)"

definition noswap_vabd where
  "noswap_vabd bi p0 p1 = bi p0 p1"

definition vabd where
  "vabd le bi p0 p1 =
     (if le then bi p0 p1
      else
        let rev0 = swap p0; rev1 = swap p1;
            ret = bi rev0 rev1
        in swap ret)"

definition vabsq where
  "vabsq le bi p0 =
     (if le then bi p0
      else
        let rev0 = swap p0;
            ret = bi rev0
        in swap ret)"

definition vabs where
  "vabs le bi p0 =
     (if le then bi p0
      else
        let rev0 = swap p0;
            ret = bi rev0
        in swap ret)"

definition noswap_vaddhn where
  "noswap_vaddhn bi p0 p1 = bi p0 p1"

definition vaddhn where
  "vaddhn le bi p0 p1 =
     (if le then bi p0 p1
      else
        let rev0 = swap p0; rev1 = swap p1;
            ret = bi rev0 rev1
        in swap ret)"

definition vbslq where
  "vbslq le bi p0 p1 p2 =
     (if le then bi p0 p1 p2
      else
        let rev0 = swap p0; rev1 = swap p1; rev2 = swap p2;
            ret = bi rev0 rev1 rev2
        in swap ret)"

definition vbsl where
  "vbsl le bi p0 p1 p2 =
     (if le then bi p0 p1 p2
      else
        let rev0 = swap p0; rev1 = swap p1; rev2 = swap p2;
            ret = bi rev0 rev1 rev2
        in swap ret)"

definition vclsq where
  "vclsq le bi p0 =
     (if le then bi p0
      else
        let rev0 = swap p0;
            ret = bi rev0
        in swap ret)"

definition vcls where
  "vcls le bi p0 =
     (if le then bi p0
      else
        let rev0 = swap p0;
            ret = bi rev0
        in swap ret)"

definition vclzq where
  "vclzq le bi p0 =
     (if le then bi p0
      else
        let rev0 = swap p0;
            ret = bi rev0
        in swap ret)"

definition vclz where
  "vclz le bi p0 =
     (if le then bi p0
      else
        let rev0 = swap p0;
            ret = bi rev0
        in swap ret)"

definition vcntq where
  "vcntq le bi p0 =
     (if le then bi p0
      else
        let rev0 = swap p0;
            ret = bi rev0
        in swap ret)"

definition vextq where
  "vextq le bi p0 p1 p2 =
     (if le then bi p0 p1 p2
      else
        let rev0 = swap p0; rev1 = swap p1;
            ret = bi rev0 rev1 p2
        in swap ret)"

definition vext where
  "vext le bi p0 p1 p2 =
     (if le then bi p0 p1 p2
      else
        let rev0 = swap p0; rev1 = swap p1;
            ret = bi rev0 rev1 p2
        in swap ret)"

definition noswap_vgetq_lane where
  "noswap_vgetq_lane bi p0 p1 = bi p0 p1"

definition vgetq_lane where
  "vgetq_lane le bi p0 p1 =
     (if le then bi p0 p1
      else
        let rev0 = swap p0;
            ret = bi rev0 p1
        in ret)"

definition noswap_vget_lane where
  "noswap_vget_lane bi p0 p1 = bi p0 p1"

definition vget_lane where
  "vget_lane le bi p0 p1 =
     (if le then bi p0 p1
      else
        let rev0 = swap p0;
            ret = bi rev0 p1
        in ret)"

definition vhaddq where
  "vhaddq le bi p0 p1 =
     (if le then bi p0 p1
      else
        let rev0 = swap p0; rev1 = swap p1;
            ret = bi rev0 rev1
        in swap ret)"

definition vhadd where
  "vhadd le bi p0 p1 =
     (if le then bi p0 p1
      else
        let rev0 = swap p0; rev1 = swap p1;
            ret = bi rev0 rev1
        in swap ret)"

definition vhsubq where
  "vhsubq le bi p0 p1 =
     (if le then bi p0 p1
      else
        let rev0 = swap p0; rev1 = swap p1;
            ret = bi rev0 rev1
        in swap ret)"

definition vhsub where
  "vhsub le bi p0 p1 =
     (if le then bi p0 p1
      else
        let rev0 = swap p0; rev1 = swap p1;
            ret = bi rev0 rev1
        in swap ret)"

definition vmaxq where
  "vmaxq le bi p0 p1 =
     (if le then bi p0 p1
      else
        let rev0 = swap p0; rev1 = swap p1;
            ret = bi rev0 rev1
        in swap ret)"

definition vmax where
  "vmax le bi p0 p1 =
     (if le then bi p0 p1
      else
        let rev0 = swap p0; rev1 = swap p1;
            ret = bi rev0 rev1
        in swap ret)"

definition vminq where
  "vminq le bi p0 p1 =
     (if le then bi p0 p1
      else
        let rev0 = swap p0; rev1 = swap p1;
            ret = bi rev0 rev1
        in swap ret)"

definition vmin where
  "vmin le bi p0 p1 =
     (if le then bi p0 p1
      else
        let rev0 = swap p0; rev1 = swap p1;
            ret = bi rev0 rev1
        in swap ret)"

definition noswap_vmovl where
  "noswap_vmovl bi p0 = bi p0"

definition vmovl where
  "vmovl le bi p0 =
     (if le then bi p0
      else
        let rev0 = swap p0;
            ret = bi rev0
        in swap ret)"

definition noswap_vmovn where
  "noswap_vmovn bi p0 = bi p0"

definition vmovn where
  "vmovn le bi p0 =
     (if le then bi p0
      else
        let rev0 = swap p0;
            ret = bi rev0
        in swap ret)"

definition noswap_vmull where
  "noswap_vmull bi p0 p1 = bi p0 p1"

definition vmull where
  "vmull le bi p0 p1 =
     (if le then bi p0 p1
      else
        let rev0 = swap p0; rev1 = swap p1;
            ret = bi rev0 rev1
        in swap ret)"

definition vpadalq where
  "vpadalq le bi p0 p1 =
     (if le then bi p0 p1
      else
        let rev0 = swap p0; rev1 = swap p1;
            ret = bi rev0 rev1
        in swap ret)"

definition vpadal where
  "vpadal le bi p0 p1 =
     (if le then bi p0 p1
      else
        let rev0 = swap p0; rev1 = swap p1;
            ret = bi rev0 rev1
        in swap ret)"

definition vpadd where
  "vpadd le bi p0 p1 =
     (if le then bi p0 p1
      else
        let rev0 = swap p0; rev1 = swap p1;
            ret = bi rev0 rev1
        in swap ret)"

definition vpaddlq where
  "vpaddlq le bi p0 =
     (if le then bi p0
      else
        let rev0 = swap p0;
            ret = bi rev0
        in swap ret)"

definition vpaddl where
  "vpaddl le bi p0 =
     (if le then bi p0
      else
        let rev0 = swap p0;
            ret = bi rev0
        in swap ret)"

definition vpmax where
  "vpmax le bi p0 p1 =
     (if le then bi p0 p1
      else
        let rev0 = swap p0; rev1 = swap p1;
            ret = bi rev0 rev1
        in swap ret)"

definition vpmin where
  "vpmin le bi p0 p1 =
     (if le then bi p0 p1
      else
        let rev0 = swap p0; rev1 = swap p1;
            ret = bi rev0 rev1
        in swap ret)"

definition vqabsq where
  "vqabsq le bi p0 =
     (if le then bi p0
      else
        let rev0 = swap p0;
            ret = bi rev0
        in swap ret)"

definition vqabs where
  "vqabs le bi p0 =
     (if le then bi p0
      else
        let rev0 = swap p0;
            ret = bi rev0
        in swap ret)"

definition noswap_vqaddq where
  "noswap_vqaddq bi p0 p1 = bi p0 p1"

definition vqaddq where
  "vqaddq le bi p0 p1 =
     (if le then bi p0 p1
      else
        let rev0 = swap p0; rev1 = swap p1;
            ret = bi rev0 rev1
        in swap ret)"

definition noswap_vqadd where
  "noswap_vqadd bi p0 p1 = bi p0 p1"

definition vqadd where
  "vqadd le bi p0 p1 =
     (if le then bi p0 p1
      else
        let rev0 = swap p0; rev1 = swap p1;
            ret = bi rev0 rev1
        in swap ret)"

definition noswap_vqdmlal where
  "noswap_vqdmlal bi p0 p1 p2 = bi p0 p1 p2"

definition vqdmlal where
  "vqdmlal le bi p0 p1 p2 =
     (if le then bi p0 p1 p2
      else
        let rev0 = swap p0; rev1 = swap p1; rev2 = swap p2;
            ret = bi rev0 rev1 rev2
        in swap ret)"

definition noswap_vqdmlsl where
  "noswap_vqdmlsl bi p0 p1 p2 = bi p0 p1 p2"

definition vqdmlsl where
  "vqdmlsl le bi p0 p1 p2 =
     (if le then bi p0 p1 p2
      else
        let rev0 = swap p0; rev1 = swap p1; rev2 = swap p2;
            ret = bi rev0 rev1 rev2
        in swap ret)"

definition noswap_vqdmulhq where
  "noswap_vqdmulhq bi p0 p1 = bi p0 p1"

definition vqdmulhq where
  "vqdmulhq le bi p0 p1 =
     (if le then bi p0 p1
      else
        let rev0 = swap p0; rev1 = swap p1;
            ret = bi rev0 rev1
        in swap ret)"

definition noswap_vqdmulh where
  "noswap_vqdmulh bi p0 p1 = bi p0 p1"

definition vqdmulh where
  "vqdmulh le bi p0 p1 =
     (if le then bi p0 p1
      else
        let rev0 = swap p0; rev1 = swap p1;
            ret = bi rev0 rev1
        in swap ret)"

definition noswap_vqdmull where
  "noswap_vqdmull bi p0 p1 = bi p0 p1"

definition vqdmull where
  "vqdmull le bi p0 p1 =
     (if le then bi p0 p1
      else
        let rev0 = swap p0; rev1 = swap p1;
            ret = bi rev0 rev1
        in swap ret)"

definition noswap_vqmovn where
  "noswap_vqmovn bi p0 = bi p0"

definition vqmovn where
  "vqmovn le bi p0 =
     (if le then bi p0
      else
        let rev0 = swap p0;
            ret = bi rev0
        in swap ret)"

definition noswap_vqmovun where
  "noswap_vqmovun bi p0 = bi p0"

definition vqmovun where
  "vqmovun le bi p0 =
     (if le then bi p0
      else
        let rev0 = swap p0;
            ret = bi rev0
        in swap ret)"

definition vqnegq where
  "vqnegq le bi p0 =
     (if le then bi p0
      else
        let rev0 = swap p0;
            ret = bi rev0
        in swap ret)"

definition vqneg where
  "vqneg le bi p0 =
     (if le then bi p0
      else
        let rev0 = swap p0;
            ret = bi rev0
        in swap ret)"

definition noswap_vqrdmulhq where
  "noswap_vqrdmulhq bi p0 p1 = bi p0 p1"

definition vqrdmulhq where
  "vqrdmulhq le bi p0 p1 =
     (if le then bi p0 p1
      else
        let rev0 = swap p0; rev1 = swap p1;
            ret = bi rev0 rev1
        in swap ret)"

definition noswap_vqrdmulh where
  "noswap_vqrdmulh bi p0 p1 = bi p0 p1"

definition vqrdmulh where
  "vqrdmulh le bi p0 p1 =
     (if le then bi p0 p1
      else
        let rev0 = swap p0; rev1 = swap p1;
            ret = bi rev0 rev1
        in swap ret)"

definition vqrshlq where
  "vqrshlq le bi p0 p1 =
     (if le then bi p0 p1
      else
        let rev0 = swap p0; rev1 = swap p1;
            ret = bi rev0 rev1
        in swap ret)"

definition vqrshl where
  "vqrshl le bi p0 p1 =
     (if le then bi p0 p1
      else
        let rev0 = swap p0; rev1 = swap p1;
            ret = bi rev0 rev1
        in swap ret)"

definition noswap_vqrshrn_n where
  "noswap_vqrshrn_n bi p0 p1 = bi p0 p1"

definition vqrshrn_n where
  "vqrshrn_n le bi p0 p1 =
     (if le then bi p0 p1
      else
        let rev0 = swap p0;
            ret = bi rev0 p1
        in swap ret)"

definition noswap_vqrshrun_n where
  "noswap_vqrshrun_n bi p0 p1 = bi p0 p1"

definition vqrshrun_n where
  "vqrshrun_n le bi p0 p1 =
     (if le then bi p0 p1
      else
        let rev0 = swap p0;
            ret = bi rev0 p1
        in swap ret)"

definition vqshlq where
  "vqshlq le bi p0 p1 =
     (if le then bi p0 p1
      else
        let rev0 = swap p0; rev1 = swap p1;
            ret = bi rev0 rev1
        in swap ret)"

definition vqshl where
  "vqshl le bi p0 p1 =
     (if le then bi p0 p1
      else
        let rev0 = swap p0; rev1 = swap p1;
            ret = bi rev0 rev1
        in swap ret)"

definition vqshlq_n where
  "vqshlq_n le bi p0 p1 =
     (if le then bi p0 p1
      else
        let rev0 = swap p0;
            ret = bi rev0 p1
        in swap ret)"

definition vqshl_n where
  "vqshl_n le bi p0 p1 =
     (if le then bi p0 p1
      else
        let rev0 = swap p0;
            ret = bi rev0 p1
        in swap ret)"

definition vqshluq_n where
  "vqshluq_n le bi p0 p1 =
     (if le then bi p0 p1
      else
        let rev0 = swap p0;
            ret = bi rev0 p1
        in swap ret)"

definition vqshlu_n where
  "vqshlu_n le bi p0 p1 =
     (if le then bi p0 p1
      else
        let rev0 = swap p0;
            ret = bi rev0 p1
        in swap ret)"

definition noswap_vqshrn_n where
  "noswap_vqshrn_n bi p0 p1 = bi p0 p1"

definition vqshrn_n where
  "vqshrn_n le bi p0 p1 =
     (if le then bi p0 p1
      else
        let rev0 = swap p0;
            ret = bi rev0 p1
        in swap ret)"

definition noswap_vqshrun_n where
  "noswap_vqshrun_n bi p0 p1 = bi p0 p1"

definition vqshrun_n where
  "vqshrun_n le bi p0 p1 =
     (if le then bi p0 p1
      else
        let rev0 = swap p0;
            ret = bi rev0 p1
        in swap ret)"

definition noswap_vqsubq where
  "noswap_vqsubq bi p0 p1 = bi p0 p1"

definition vqsubq where
  "vqsubq le bi p0 p1 =
     (if le then bi p0 p1
      else
        let rev0 = swap p0; rev1 = swap p1;
            ret = bi rev0 rev1
        in swap ret)"

definition noswap_vqsub where
  "noswap_vqsub bi p0 p1 = bi p0 p1"

definition vqsub where
  "vqsub le bi p0 p1 =
     (if le then bi p0 p1
      else
        let rev0 = swap p0; rev1 = swap p1;
            ret = bi rev0 rev1
        in swap ret)"

definition noswap_vraddhn where
  "noswap_vraddhn bi p0 p1 = bi p0 p1"

definition vraddhn where
  "vraddhn le bi p0 p1 =
     (if le then bi p0 p1
      else
        let rev0 = swap p0; rev1 = swap p1;
            ret = bi rev0 rev1
        in swap ret)"

definition vrhaddq where
  "vrhaddq le bi p0 p1 =
     (if le then bi p0 p1
      else
        let rev0 = swap p0; rev1 = swap p1;
            ret = bi rev0 rev1
        in swap ret)"

definition vrhadd where
  "vrhadd le bi p0 p1 =
     (if le then bi p0 p1
      else
        let rev0 = swap p0; rev1 = swap p1;
            ret = bi rev0 rev1
        in swap ret)"

definition vrshlq where
  "vrshlq le bi p0 p1 =
     (if le then bi p0 p1
      else
        let rev0 = swap p0; rev1 = swap p1;
            ret = bi rev0 rev1
        in swap ret)"

definition vrshl where
  "vrshl le bi p0 p1 =
     (if le then bi p0 p1
      else
        let rev0 = swap p0; rev1 = swap p1;
            ret = bi rev0 rev1
        in swap ret)"

definition vrshrq_n where
  "vrshrq_n le bi p0 p1 =
     (if le then bi p0 p1
      else
        let rev0 = swap p0;
            ret = bi rev0 p1
        in swap ret)"

definition vrshr_n where
  "vrshr_n le bi p0 p1 =
     (if le then bi p0 p1
      else
        let rev0 = swap p0;
            ret = bi rev0 p1
        in swap ret)"

definition noswap_vrshrn_n where
  "noswap_vrshrn_n bi p0 p1 = bi p0 p1"

definition vrshrn_n where
  "vrshrn_n le bi p0 p1 =
     (if le then bi p0 p1
      else
        let rev0 = swap p0;
            ret = bi rev0 p1
        in swap ret)"

definition vrsraq_n where
  "vrsraq_n le bi p0 p1 p2 =
     (if le then bi p0 p1 p2
      else
        let rev0 = swap p0; rev1 = swap p1;
            ret = bi rev0 rev1 p2
        in swap ret)"

definition vrsra_n where
  "vrsra_n le bi p0 p1 p2 =
     (if le then bi p0 p1 p2
      else
        let rev0 = swap p0; rev1 = swap p1;
            ret = bi rev0 rev1 p2
        in swap ret)"

definition noswap_vrsubhn where
  "noswap_vrsubhn bi p0 p1 = bi p0 p1"

definition vrsubhn where
  "vrsubhn le bi p0 p1 =
     (if le then bi p0 p1
      else
        let rev0 = swap p0; rev1 = swap p1;
            ret = bi rev0 rev1
        in swap ret)"

definition noswap_vsetq_lane where
  "noswap_vsetq_lane bi p0 p1 p2 = bi p0 p1 p2"

definition vsetq_lane where
  "vsetq_lane le bi p0 p1 p2 =
     (if le then bi p0 p1 p2
      else
        let rev1 = swap p1;
            ret = bi p0 rev1 p2
        in swap ret)"

definition noswap_vset_lane where
  "noswap_vset_lane bi p0 p1 p2 = bi p0 p1 p2"

definition vset_lane where
  "vset_lane le bi p0 p1 p2 =
     (if le then bi p0 p1 p2
      else
        let rev1 = swap p1;
            ret = bi p0 rev1 p2
        in swap ret)"

definition vshlq where
  "vshlq le bi p0 p1 =
     (if le then bi p0 p1
      else
        let rev0 = swap p0; rev1 = swap p1;
            ret = bi rev0 rev1
        in swap ret)"

definition vshl where
  "vshl le bi p0 p1 =
     (if le then bi p0 p1
      else
        let rev0 = swap p0; rev1 = swap p1;
            ret = bi rev0 rev1
        in swap ret)"

definition vshlq_n where
  "vshlq_n le bi p0 p1 =
     (if le then bi p0 p1
      else
        let rev0 = swap p0;
            ret = bi rev0 p1
        in swap ret)"

definition vshl_n where
  "vshl_n le bi p0 p1 =
     (if le then bi p0 p1
      else
        let rev0 = swap p0;
            ret = bi rev0 p1
        in swap ret)"

definition noswap_vshll_n where
  "noswap_vshll_n bi p0 p1 = bi p0 p1"

definition vshll_n where
  "vshll_n le bi p0 p1 =
     (if le then bi p0 p1
      else
        let rev0 = swap p0;
            ret = bi rev0 p1
        in swap ret)"

definition vshrq_n where
  "vshrq_n le bi p0 p1 =
     (if le then bi p0 p1
      else
        let rev0 = swap p0;
            ret = bi rev0 p1
        in swap ret)"

definition vshr_n where
  "vshr_n le bi p0 p1 =
     (if le then bi p0 p1
      else
        let rev0 = swap p0;
            ret = bi rev0 p1
        in swap ret)"

definition noswap_vshrn_n where
  "noswap_vshrn_n bi p0 p1 = bi p0 p1"

definition vshrn_n where
  "vshrn_n le bi p0 p1 =
     (if le then bi p0 p1
      else
        let rev0 = swap p0;
            ret = bi rev0 p1
        in swap ret)"

definition vsliq_n where
  "vsliq_n le bi p0 p1 p2 =
     (if le then bi p0 p1 p2
      else
        let rev0 = swap p0; rev1 = swap p1;
            ret = bi rev0 rev1 p2
        in swap ret)"

definition vsli_n where
  "vsli_n le bi p0 p1 p2 =
     (if le then bi p0 p1 p2
      else
        let rev0 = swap p0; rev1 = swap p1;
            ret = bi rev0 rev1 p2
        in swap ret)"

definition vsraq_n where
  "vsraq_n le bi p0 p1 p2 =
     (if le then bi p0 p1 p2
      else
        let rev0 = swap p0; rev1 = swap p1;
            ret = bi rev0 rev1 p2
        in swap ret)"

definition vsra_n where
  "vsra_n le bi p0 p1 p2 =
     (if le then bi p0 p1 p2
      else
        let rev0 = swap p0; rev1 = swap p1;
            ret = bi rev0 rev1 p2
        in swap ret)"

definition vsriq_n where
  "vsriq_n le bi p0 p1 p2 =
     (if le then bi p0 p1 p2
      else
        let rev0 = swap p0; rev1 = swap p1;
            ret = bi rev0 rev1 p2
        in swap ret)"

definition vsri_n where
  "vsri_n le bi p0 p1 p2 =
     (if le then bi p0 p1 p2
      else
        let rev0 = swap p0; rev1 = swap p1;
            ret = bi rev0 rev1 p2
        in swap ret)"

definition noswap_vsubhn where
  "noswap_vsubhn bi p0 p1 = bi p0 p1"

definition vsubhn where
  "vsubhn le bi p0 p1 =
     (if le then bi p0 p1
      else
        let rev0 = swap p0; rev1 = swap p1;
            ret = bi rev0 rev1
        in swap ret)"

definition vtbl1 where
  "vtbl1 le bi p0 p1 =
     (if le then bi p0 p1
      else
        let rev0 = swap p0; rev1 = swap p1;
            ret = bi rev0 rev1
        in swap ret)"

definition vtbx1 where
  "vtbx1 le bi p0 p1 p2 =
     (if le then bi p0 p1 p2
      else
        let rev0 = swap p0; rev1 = swap p1; rev2 = swap p2;
            ret = bi rev0 rev1 rev2
        in swap ret)"

definition vtstq where
  "vtstq le bi p0 p1 =
     (if le then bi p0 p1
      else
        let rev0 = swap p0; rev1 = swap p1;
            ret = bi rev0 rev1
        in swap ret)"

definition vtst where
  "vtst le bi p0 p1 =
     (if le then bi p0 p1
      else
        let rev0 = swap p0; rev1 = swap p1;
            ret = bi rev0 rev1
        in swap ret)"

definition vaddlvq where
  "vaddlvq le bi p0 =
     (if le then bi p0
      else
        let rev0 = swap p0;
            ret = bi rev0
        in ret)"

definition vaddlv where
  "vaddlv le bi p0 =
     (if le then bi p0
      else
        let rev0 = swap p0;
            ret = bi rev0
        in ret)"

definition vaddvq where
  "vaddvq le bi p0 =
     (if le then bi p0
      else
        let rev0 = swap p0;
            ret = bi rev0
        in ret)"

definition vaddv where
  "vaddv le bi p0 =
     (if le then bi p0
      else
        let rev0 = swap p0;
            ret = bi rev0
        in ret)"

definition vceqzq where
  "vceqzq le bi p0 =
     (if le then bi p0
      else
        let rev0 = swap p0;
            ret = bi rev0
        in swap ret)"

definition vceqz where
  "vceqz le bi p0 =
     (if le then bi p0
      else
        let rev0 = swap p0;
            ret = bi rev0
        in swap ret)"

definition vcgezq where
  "vcgezq le bi p0 =
     (if le then bi p0
      else
        let rev0 = swap p0;
            ret = bi rev0
        in swap ret)"

definition vcgez where
  "vcgez le bi p0 =
     (if le then bi p0
      else
        let rev0 = swap p0;
            ret = bi rev0
        in swap ret)"

definition vcgtzq where
  "vcgtzq le bi p0 =
     (if le then bi p0
      else
        let rev0 = swap p0;
            ret = bi rev0
        in swap ret)"

definition vcgtz where
  "vcgtz le bi p0 =
     (if le then bi p0
      else
        let rev0 = swap p0;
            ret = bi rev0
        in swap ret)"

definition vclezq where
  "vclezq le bi p0 =
     (if le then bi p0
      else
        let rev0 = swap p0;
            ret = bi rev0
        in swap ret)"

definition vclez where
  "vclez le bi p0 =
     (if le then bi p0
      else
        let rev0 = swap p0;
            ret = bi rev0
        in swap ret)"

definition vcltzq where
  "vcltzq le bi p0 =
     (if le then bi p0
      else
        let rev0 = swap p0;
            ret = bi rev0
        in swap ret)"

definition vcltz where
  "vcltz le bi p0 =
     (if le then bi p0
      else
        let rev0 = swap p0;
            ret = bi rev0
        in swap ret)"

definition noswap_vfmaq_laneq where
  "noswap_vfmaq_laneq bi p0 p1 p2 p3 = bi p0 p1 p2 p3"

definition vfmaq_laneq where
  "vfmaq_laneq le bi p0 p1 p2 p3 =
     (if le then bi p0 p1 p2 p3
      else
        let rev0 = swap p0; rev1 = swap p1; rev2 = swap p2;
            ret = bi rev0 rev1 rev2 p3
        in swap ret)"

definition vmaxvq where
  "vmaxvq le bi p0 =
     (if le then bi p0
      else
        let rev0 = swap p0;
            ret = bi rev0
        in ret)"

definition vmaxv where
  "vmaxv le bi p0 =
     (if le then bi p0
      else
        let rev0 = swap p0;
            ret = bi rev0
        in ret)"

definition vminvq where
  "vminvq le bi p0 =
     (if le then bi p0
      else
        let rev0 = swap p0;
            ret = bi rev0
        in ret)"

definition vminv where
  "vminv le bi p0 =
     (if le then bi p0
      else
        let rev0 = swap p0;
            ret = bi rev0
        in ret)"

definition noswap_vmulxq where
  "noswap_vmulxq bi p0 p1 = bi p0 p1"

definition vmulxq where
  "vmulxq le bi p0 p1 =
     (if le then bi p0 p1
      else
        let rev0 = swap p0; rev1 = swap p1;
            ret = bi rev0 rev1
        in swap ret)"

definition vpaddq where
  "vpaddq le bi p0 p1 =
     (if le then bi p0 p1
      else
        let rev0 = swap p0; rev1 = swap p1;
            ret = bi rev0 rev1
        in swap ret)"

definition vpaddd where
  "vpaddd le bi p0 =
     (if le then bi p0
      else
        let rev0 = swap p0;
            ret = bi rev0
        in ret)"

definition vpmaxq where
  "vpmaxq le bi p0 p1 =
     (if le then bi p0 p1
      else
        let rev0 = swap p0; rev1 = swap p1;
            ret = bi rev0 rev1
        in swap ret)"

definition vpminq where
  "vpminq le bi p0 p1 =
     (if le then bi p0 p1
      else
        let rev0 = swap p0; rev1 = swap p1;
            ret = bi rev0 rev1
        in swap ret)"

definition vqdmulhq_laneq where
  "vqdmulhq_laneq le bi p0 p1 p2 =
     (if le then bi p0 p1 p2
      else
        let rev0 = swap p0; rev1 = swap p1;
            ret = bi rev0 rev1 p2
        in swap ret)"

definition vqdmulh_laneq where
  "vqdmulh_laneq le bi p0 p1 p2 =
     (if le then bi p0 p1 p2
      else
        let rev0 = swap p0; rev1 = swap p1;
            ret = bi rev0 rev1 p2
        in swap ret)"

definition vqrdmulhq_laneq where
  "vqrdmulhq_laneq le bi p0 p1 p2 =
     (if le then bi p0 p1 p2
      else
        let rev0 = swap p0; rev1 = swap p1;
            ret = bi rev0 rev1 p2
        in swap ret)"

definition vqrdmulh_laneq where
  "vqrdmulh_laneq le bi p0 p1 p2 =
     (if le then bi p0 p1 p2
      else
        let rev0 = swap p0; rev1 = swap p1;
            ret = bi rev0 rev1 p2
        in swap ret)"

definition vqtbl1q where
  "vqtbl1q le bi p0 p1 =
     (if le then bi p0 p1
      else
        let rev0 = swap p0; rev1 = swap p1;
            ret = bi rev0 rev1
        in swap ret)"

definition vqtbx1q where
  "vqtbx1q le bi p0 p1 p2 =
     (if le then bi p0 p1 p2
      else
        let rev0 = swap p0; rev1 = swap p1; rev2 = swap p2;
            ret = bi rev0 rev1 rev2
        in swap ret)"

definition vrbitq where
  "vrbitq le bi p0 =
     (if le then bi p0
      else
        let rev0 = swap p0;
            ret = bi rev0
        in swap ret)"

definition vsqaddq where
  "vsqaddq le bi p0 p1 =
     (if le then bi p0 p1
      else
        let rev0 = swap p0; rev1 = swap p1;
            ret = bi rev0 rev1
        in swap ret)"

definition vsqadd where
  "vsqadd le bi p0 p1 =
     (if le then bi p0 p1
      else
        let rev0 = swap p0; rev1 = swap p1;
            ret = bi rev0 rev1
        in swap ret)"

definition vuqaddq where
  "vuqaddq le bi p0 p1 =
     (if le then bi p0 p1
      else
        let rev0 = swap p0; rev1 = swap p1;
            ret = bi rev0 rev1
        in swap ret)"

definition vuqadd where
  "vuqadd le bi p0 p1 =
     (if le then bi p0 p1
      else
        let rev0 = swap p0; rev1 = swap p1;
            ret = bi rev0 rev1
        in swap ret)"

lemmas builtin_defs =
  vabdq_def vabd_def vabsq_def vabs_def vaddhn_def vbslq_def vbsl_def vclsq_def vcls_def vclzq_def
  vclz_def vcntq_def vextq_def vext_def vgetq_lane_def vget_lane_def vhaddq_def vhadd_def
  vhsubq_def vhsub_def vmaxq_def vmax_def vminq_def vmin_def vmovl_def vmovn_def vmull_def
  vpadalq_def vpadal_def vpadd_def vpaddlq_def vpaddl_def vpmax_def vpmin_def vqabsq_def vqabs_def
  vqaddq_def vqadd_def vqdmlal_def vqdmlsl_def vqdmulhq_def vqdmulh_def vqdmull_def vqmovn_def
  vqmovun_def vqnegq_def vqneg_def vqrdmulhq_def vqrdmulh_def vqrshlq_def vqrshl_def vqrshrn_n_def
  vqrshrun_n_def vqshlq_def vqshl_def vqshlq_n_def vqshl_n_def vqshluq_n_def vqshlu_n_def
  vqshrn_n_def vqshrun_n_def vqsubq_def vqsub_def vraddhn_def vrhaddq_def vrhadd_def vrshlq_def
  vrshl_def vrshrq_n_def vrshr_n_def vrshrn_n_def vrsraq_n_def vrsra_n_def vrsubhn_def
  vsetq_lane_def vset_lane_def vshlq_def vshl_def vshlq_n_def vshl_n_def vshll_n_def vshrq_n_def
  vshr_n_def vshrn_n_def vsliq_n_def vsli_n_def vsraq_n_def vsra_n_def vsriq_n_def vsri_n_def
  vsubhn_def vtbl1_def vtbx1_def vtstq_def vtst_def vaddlvq_def vaddlv_def vaddvq_def vaddv_def
  vceqzq_def vceqz_def vcgezq_def vcgez_def vcgtzq_def vcgtz_def vclezq_def vclez_def vcltzq_def
  vcltz_def vfmaq_laneq_def vmaxvq_def vmaxv_def vminvq_def vminv_def vmulxq_def vpaddq_def
  vpaddd_def vpmaxq_def vpminq_def vqdmulhq_laneq_def vqdmulh_laneq_def vqrdmulhq_laneq_def
  vqrdmulh_laneq_def vqtbl1q_def vqtbx1q_def vrbitq_def vsqaddq_def vsqadd_def vuqaddq_def
  vuqadd_def

lemmas noswap_builtin_defs =
  noswap_vabdq_def noswap_vabd_def noswap_vaddhn_def noswap_vgetq_lane_def noswap_vget_lane_def
  noswap_vmovl_def noswap_vmovn_def noswap_vmull_def noswap_vqaddq_def noswap_vqadd_def
  noswap_vqdmlal_def noswap_vqdmlsl_def noswap_vqdmulhq_def noswap_vqdmulh_def noswap_vqdmull_def
  noswap_vqmovn_def noswap_vqmovun_def noswap_vqrdmulhq_def noswap_vqrdmulh_def
  noswap_vqrshrn_n_def noswap_vqrshrun_n_def noswap_vqshrn_n_def noswap_vqshrun_n_def
  noswap_vqsubq_def noswap_vqsub_def noswap_vraddhn_def noswap_vrshrn_n_def noswap_vrsubhn_def
  noswap_vsetq_lane_def noswap_vset_lane_def noswap_vshll_n_def noswap_vshrn_n_def
  noswap_vsubhn_def noswap_vfmaq_laneq_def noswap_vmulxq_def

section \<open>Each wrapper passes registers to its builtin\<close>

text \<open>
  On either byte order every wrapper applies its builtin to the registers of its vector
  operands, with scalars, lane numbers and immediates as they are, and returns the vector that the
  register it gets stands for (or the scalar).
\<close>

lemma builtin_wrappers:
  "vreg le (vabdq le bi1 x y) = bi1 (vreg le x) (vreg le y)
    \<and> vreg le (vabd le bi1 x y) = bi1 (vreg le x) (vreg le y)
    \<and> vreg le (vabsq le bi2 x) = bi2 (vreg le x)
    \<and> vreg le (vabs le bi2 x) = bi2 (vreg le x)
    \<and> vreg le (vaddhn le bi3 u v) = bi3 (vreg le u) (vreg le v)
    \<and> vreg le (vbslq le bi4 x y z) = bi4 (vreg le x) (vreg le y) (vreg le z)
    \<and> vreg le (vbsl le bi4 x y z) = bi4 (vreg le x) (vreg le y) (vreg le z)
    \<and> vreg le (vclsq le bi2 x) = bi2 (vreg le x)
    \<and> vreg le (vcls le bi2 x) = bi2 (vreg le x)
    \<and> vreg le (vclzq le bi2 x) = bi2 (vreg le x)
    \<and> vreg le (vclz le bi2 x) = bi2 (vreg le x)
    \<and> vreg le (vcntq le bi2 x) = bi2 (vreg le x)
    \<and> vreg le (vextq le bi5 x y k) = bi5 (vreg le x) (vreg le y) k
    \<and> vreg le (vext le bi5 x y k) = bi5 (vreg le x) (vreg le y) k
    \<and> vgetq_lane le bi6 x k = bi6 (vreg le x) k
    \<and> vget_lane le bi6 x k = bi6 (vreg le x) k
    \<and> vreg le (vhaddq le bi1 x y) = bi1 (vreg le x) (vreg le y)
    \<and> vreg le (vhadd le bi1 x y) = bi1 (vreg le x) (vreg le y)
    \<and> vreg le (vhsubq le bi1 x y) = bi1 (vreg le x) (vreg le y)
    \<and> vreg le (vhsub le bi1 x y) = bi1 (vreg le x) (vreg le y)
    \<and> vreg le (vmaxq le bi1 x y) = bi1 (vreg le x) (vreg le y)
    \<and> vreg le (vmax le bi1 x y) = bi1 (vreg le x) (vreg le y)
    \<and> vreg le (vminq le bi1 x y) = bi1 (vreg le x) (vreg le y)
    \<and> vreg le (vmin le bi1 x y) = bi1 (vreg le x) (vreg le y)
    \<and> vreg le (vmovl le bi7 x) = bi7 (vreg le x)
    \<and> vreg le (vmovn le bi8 u) = bi8 (vreg le u)
    \<and> vreg le (vmull le bi9 x y) = bi9 (vreg le x) (vreg le y)
    \<and> vreg le (vpadalq le bi10 u y) = bi10 (vreg le u) (vreg le y)
    \<and> vreg le (vpadal le bi10 u y) = bi10 (vreg le u) (vreg le y)
    \<and> vreg le (vpadd le bi1 x y) = bi1 (vreg le x) (vreg le y)
    \<and> vreg le (vpaddlq le bi7 x) = bi7 (vreg le x)
    \<and> vreg le (vpaddl le bi7 x) = bi7 (vreg le x)
    \<and> vreg le (vpmax le bi1 x y) = bi1 (vreg le x) (vreg le y)
    \<and> vreg le (vpmin le bi1 x y) = bi1 (vreg le x) (vreg le y)
    \<and> vreg le (vqabsq le bi2 x) = bi2 (vreg le x)
    \<and> vreg le (vqabs le bi2 x) = bi2 (vreg le x)
    \<and> vreg le (vqaddq le bi1 x y) = bi1 (vreg le x) (vreg le y)
    \<and> vreg le (vqadd le bi1 x y) = bi1 (vreg le x) (vreg le y)
    \<and> vreg le (vqdmlal le bi11 u y z) = bi11 (vreg le u) (vreg le y) (vreg le z)
    \<and> vreg le (vqdmlsl le bi11 u y z) = bi11 (vreg le u) (vreg le y) (vreg le z)
    \<and> vreg le (vqdmulhq le bi1 x y) = bi1 (vreg le x) (vreg le y)
    \<and> vreg le (vqdmulh le bi1 x y) = bi1 (vreg le x) (vreg le y)
    \<and> vreg le (vqdmull le bi9 x y) = bi9 (vreg le x) (vreg le y)
    \<and> vreg le (vqmovn le bi8 u) = bi8 (vreg le u)
    \<and> vreg le (vqmovun le bi8 u) = bi8 (vreg le u)
    \<and> vreg le (vqnegq le bi2 x) = bi2 (vreg le x)
    \<and> vreg le (vqneg le bi2 x) = bi2 (vreg le x)
    \<and> vreg le (vqrdmulhq le bi1 x y) = bi1 (vreg le x) (vreg le y)
    \<and> vreg le (vqrdmulh le bi1 x y) = bi1 (vreg le x) (vreg le y)
    \<and> vreg le (vqrshlq le bi1 x y) = bi1 (vreg le x) (vreg le y)
    \<and> vreg le (vqrshl le bi1 x y) = bi1 (vreg le x) (vreg le y)
    \<and> vreg le (vqrshrn_n le bi12 u k) = bi12 (vreg le u) k
    \<and> vreg le (vqrshrun_n le bi12 u k) = bi12 (vreg le u) k
    \<and> vreg le (vqshlq le bi1 x y) = bi1 (vreg le x) (vreg le y)
    \<and> vreg le (vqshl le bi1 x y) = bi1 (vreg le x) (vreg le y)
    \<and> vreg le (vqshlq_n le bi13 x k) = bi13 (vreg le x) k
    \<and> vreg le (vqshl_n le bi13 x k) = bi13 (vreg le x) k
    \<and> vreg le (vqshluq_n le bi13 x k) = bi13 (vreg le x) k
    \<and> vreg le (vqshlu_n le bi13 x k) = bi13 (vreg le x) k
    \<and> vreg le (vqshrn_n le bi12 u k) = bi12 (vreg le u) k
    \<and> vreg le (vqshrun_n le bi12 u k) = bi12 (vreg le u) k
    \<and> vreg le (vqsubq le bi1 x y) = bi1 (vreg le x) (vreg le y)
    \<and> vreg le (vqsub le bi1 x y) = bi1 (vreg le x) (vreg le y)
    \<and> vreg le (vraddhn le bi3 u v) = bi3 (vreg le u) (vreg le v)
    \<and> vreg le (vrhaddq le bi1 x y) = bi1 (vreg le x) (vreg le y)
    \<and> vreg le (vrhadd le bi1 x y) = bi1 (vreg le x) (vreg le y)
    \<and> vreg le (vrshlq le bi1 x y) = bi1 (vreg le x) (vreg le y)
    \<and> vreg le (vrshl le bi1 x y) = bi1 (vreg le x) (vreg le y)
    \<and> vreg le (vrshrq_n le bi13 x k) = bi13 (vreg le x) k
    \<and> vreg le (vrshr_n le bi13 x k) = bi13 (vreg le x) k
    \<and> vreg le (vrshrn_n le bi12 u k) = bi12 (vreg le u) k
    \<and> vreg le (vrsraq_n le bi5 x y k) = bi5 (vreg le x) (vreg le y) k
    \<and> vreg le (vrsra_n le bi5 x y k) = bi5 (vreg le x) (vreg le y) k
    \<and> vreg le (vrsubhn le bi3 u v) = bi3 (vreg le u) (vreg le v)
    \<and> vreg le (vsetq_lane le bi14 s y k) = bi14 s (vreg le y) k
    \<and> vreg le (vset_lane le bi14 s y k) = bi14 s (vreg le y) k
    \<and> vreg le (vshlq le bi1 x y) = bi1 (vreg le x) (vreg le y)
    \<and> vreg le (vshl le bi1 x y) = bi1 (vreg le x) (vreg le y)
    \<and> vreg le (vshlq_n le bi13 x k) = bi13 (vreg le x) k
    \<and> vreg le (vshl_n le bi13 x k) = bi13 (vreg le x) k
    \<and> vreg le (vshll_n le bi15 x k) = bi15 (vreg le x) k
    \<and> vreg le (vshrq_n le bi13 x k) = bi13 (vreg le x) k
    \<and> vreg le (vshr_n le bi13 x k) = bi13 (vreg le x) k
    \<and> vreg le (vshrn_n le bi12 u k) = bi12 (vreg le u) k
    \<and> vreg le (vsliq_n le bi5 x y k) = bi5 (vreg le x) (vreg le y) k
    \<and> vreg le (vsli_n le bi5 x y k) = bi5 (vreg le x) (vreg le y) k
    \<and> vreg le (vsraq_n le bi5 x y k) = bi5 (vreg le x) (vreg le y) k
    \<and> vreg le (vsra_n le bi5 x y k) = bi5 (vreg le x) (vreg le y) k
    \<and> vreg le (vsriq_n le bi5 x y k) = bi5 (vreg le x) (vreg le y) k
    \<and> vreg le (vsri_n le bi5 x y k) = bi5 (vreg le x) (vreg le y) k
    \<and> vreg le (vsubhn le bi3 u v) = bi3 (vreg le u) (vreg le v)
    \<and> vreg le (vtbl1 le bi1 x y) = bi1 (vreg le x) (vreg le y)
    \<and> vreg le (vtbx1 le bi4 x y z) = bi4 (vreg le x) (vreg le y) (vreg le z)
    \<and> vreg le (vtstq le bi1 x y) = bi1 (vreg le x) (vreg le y)
    \<and> vreg le (vtst le bi1 x y) = bi1 (vreg le x) (vreg le y)
    \<and> vaddlvq le bi16 x = bi16 (vreg le x)
    \<and> vaddlv le bi16 x = bi16 (vreg le x)
    \<and> vaddvq le bi16 x = bi16 (vreg le x)
    \<and> vaddv le bi16 x = bi16 (vreg le x)
    \<and> vreg le (vceqzq le bi2 x) = bi2 (vreg le x)
    \<and> vreg le (vceqz le bi2 x) = bi2 (vreg le x)
    \<and> vreg le (vcgezq le bi2 x) = bi2 (vreg le x)
    \<and> vreg le (vcgez le bi2 x) = bi2 (vreg le x)
    \<and> vreg le (vcgtzq le bi2 x) = bi2 (vreg le x)
    \<and> vreg le (vcgtz le bi2 x) = bi2 (vreg le x)
    \<and> vreg le (vclezq le bi2 x) = bi2 (vreg le x)
    \<and> vreg le (vclez le bi2 x) = bi2 (vreg le x)
    \<and> vreg le (vcltzq le bi2 x) = bi2 (vreg le x)
    \<and> vreg le (vcltz le bi2 x) = bi2 (vreg le x)
    \<and> vreg le (vfmaq_laneq le bi17 x y z k) = bi17 (vreg le x) (vreg le y) (vreg le z) k
    \<and> vmaxvq le bi16 x = bi16 (vreg le x)
    \<and> vmaxv le bi16 x = bi16 (vreg le x)
    \<and> vminvq le bi16 x = bi16 (vreg le x)
    \<and> vminv le bi16 x = bi16 (vreg le x)
    \<and> vreg le (vmulxq le bi1 x y) = bi1 (vreg le x) (vreg le y)
    \<and> vreg le (vpaddq le bi1 x y) = bi1 (vreg le x) (vreg le y)
    \<and> vpaddd le bi16 x = bi16 (vreg le x)
    \<and> vreg le (vpmaxq le bi1 x y) = bi1 (vreg le x) (vreg le y)
    \<and> vreg le (vpminq le bi1 x y) = bi1 (vreg le x) (vreg le y)
    \<and> vreg le (vqdmulhq_laneq le bi5 x y k) = bi5 (vreg le x) (vreg le y) k
    \<and> vreg le (vqdmulh_laneq le bi5 x y k) = bi5 (vreg le x) (vreg le y) k
    \<and> vreg le (vqrdmulhq_laneq le bi5 x y k) = bi5 (vreg le x) (vreg le y) k
    \<and> vreg le (vqrdmulh_laneq le bi5 x y k) = bi5 (vreg le x) (vreg le y) k
    \<and> vreg le (vqtbl1q le bi1 x y) = bi1 (vreg le x) (vreg le y)
    \<and> vreg le (vqtbx1q le bi4 x y z) = bi4 (vreg le x) (vreg le y) (vreg le z)
    \<and> vreg le (vrbitq le bi2 x) = bi2 (vreg le x)
    \<and> vreg le (vsqaddq le bi1 x y) = bi1 (vreg le x) (vreg le y)
    \<and> vreg le (vsqadd le bi1 x y) = bi1 (vreg le x) (vreg le y)
    \<and> vreg le (vuqaddq le bi1 x y) = bi1 (vreg le x) (vreg le y)
    \<and> vreg le (vuqadd le bi1 x y) = bi1 (vreg le x) (vreg le y)"
  by (cases le) (simp_all add: builtin_defs Let_def)

end
