(* ===== verification/Neon_Perm.thy ===== *)
theory Neon_Perm
  imports Neon_Base
begin

text \<open>
  The permuting routines of \<open>arm_neon.h\<close>: \<open>vcombine\<close>, \<open>vget_high\<close>, \<open>vget_low\<close>, the element
  reversals \<open>vrev\<close>, and the transposing, unzipping and zipping pairs.  A table gives the shuffle
  indices the header writes out, by the number of lanes of the (first) operand.
\<close>

section \<open>The routines\<close>

definition vcombine_table :: "nat \<Rightarrow> nat list" where
  "vcombine_table n =
     (if n = 8 then [0, 1, 2, 3, 4, 5, 6, 7, 8, 9, 10, 11, 12, 13, 14, 15]
      else if n = 4 then [0, 1, 2, 3, 4, 5, 6, 7]
      else if n = 2 then [0, 1, 2, 3]
      else [0, 1])"

definition noswap_vcombine where
  "noswap_vcombine p0 p1 = shufflevector p0 p1 (vcombine_table (length p0))"

definition vcombine where
  "vcombine le p0 p1 =
     (if le then shufflevector p0 p1 (vcombine_table (length p0))
      else
        let rev0 = swap p0; rev1 = swap p1;
            ret = shufflevector rev0 rev1 (vcombine_table (length rev0))
        in swap ret)"

definition vget_high_table :: "nat \<Rightarrow> nat list" where
  "vget_high_table n =
     (if n = 16 then [8, 9, 10, 11, 12, 13, 14, 15]
      else if n = 8 then [4, 5, 6, 7]
      else if n = 4 then [2, 3]
      else [1])"

definition noswap_vget_high where
  "noswap_vget_high p0 = shufflevector p0 p0 (vget_high_table (length p0))"

definition vget_high where
  "vget_high le p0 =
     (if le then shufflevector p0 p0 (vget_high_table (length p0))
      else
        let rev0 = swap p0;
            ret = shufflevector rev0 rev0 (vget_high_table (length rev0))
        in swap ret)"

definition vget_low_table :: "nat \<Rightarrow> nat list" where
  "vget_low_table n =
     (if n = 16 then [0, 1, 2, 3, 4, 5, 6, 7]
      else if n = 8 then [0, 1, 2, 3]
      else if n = 4 then [0, 1]
      else [0])"

definition vget_low where
  "vget_low le p0 =
     (if le then shufflevector p0 p0 (vget_low_table (length p0))
      else
        let rev0 = swap p0;
            ret = shufflevector rev0 rev0 (vget_low_table (length rev0))
        in swap ret)"

definition vrev16q_table :: "nat \<Rightarrow> nat list" where
  "vrev16q_table n =
     ([1, 0, 3, 2, 5, 4, 7, 6, 9, 8, 11, 10, 13, 12, 15, 14])"

definition vrev16q where
  "vrev16q le p0 =
     (if le then shufflevector p0 p0 (vrev16q_table (length p0))
      else
        let rev0 = swap p0;
            ret = shufflevector rev0 rev0 (vrev16q_table (length rev0))
        in swap ret)"

definition vrev32q_table :: "nat \<Rightarrow> nat list" where
  "vrev32q_table n =
     (if n = 16 then [3, 2, 1, 0, 7, 6, 5, 4, 11, 10, 9, 8, 15, 14, 13, 12]
      else [1, 0, 3, 2, 5, 4, 7, 6])"

definition vrev32q where
  "vrev32q le p0 =
     (if le then shufflevector p0 p0 (vrev32q_table (length p0))
      else
        let rev0 = swap p0;
            ret = shufflevector rev0 rev0 (vrev32q_table (length rev0))
        in swap ret)"

definition vrev32_table :: "nat \<Rightarrow> nat list" where
  "vrev32_table n =
     (if n = 8 then [3, 2, 1, 0, 7, 6, 5, 4]
      else [1, 0, 3, 2])"

definition vrev32 where
  "vrev32 le p0 =
     (if le then shufflevector p0 p0 (vrev32_table (length p0))
      else
        let rev0 = swap p0;
            ret = shufflevector rev0 rev0 (vrev32_table (length rev0))
        in swap ret)"

definition vrev64q_table :: "nat \<Rightarrow> nat list" where
  "vrev64q_table n =
     (if n = 16 then [7, 6, 5, 4, 3, 2, 1, 0, 15, 14, 13, 12, 11, 10, 9, 8]
      else if n = 8 then [3, 2, 1, 0, 7, 6, 5, 4]
      else [1, 0, 3, 2])"

definition vrev64q where
  "vrev64q le p0 =
     (if le then shufflevector p0 p0 (vrev64q_table (length p0))
      else
        let rev0 = swap p0;
            ret = shufflevector rev0 rev0 (vrev64q_table (length rev0))
        in swap ret)"

definition vrev64_table :: "nat \<Rightarrow> nat list" where
  "vrev64_table n =
     (if n = 8 then [7, 6, 5, 4, 3, 2, 1, 0]
      else if n = 4 then [3, 2, 1, 0]
      else [1, 0])"

definition vrev64 where
  "vrev64 le p0 =
     (if le then shufflevector p0 p0 (vrev64_table (length p0))
      else
        let rev0 = swap p0;
            ret = shufflevector rev0 rev0 (vrev64_table (length rev0))
        in swap ret)"

definition vtrn1q_table :: "nat \<Rightarrow> nat list" where
  "vtrn1q_table n =
     (if n = 16 then [0, 16, 2, 18, 4, 20, 6, 22, 8, 24, 10, 26, 12, 28, 14, 30]
      else if n = 8 then [0, 8, 2, 10, 4, 12, 6, 14]
      else if n = 4 then [0, 4, 2, 6]
      else [0, 2])"

definition vtrn1q where
  "vtrn1q le p0 p1 =
     (if le then shufflevector p0 p1 (vtrn1q_table (length p0))
      else
        let rev0 = swap p0; rev1 = swap p1;
            ret = shufflevector rev0 rev1 (vtrn1q_table (length rev0))
        in swap ret)"

definition vtrn1_table :: "nat \<Rightarrow> nat list" where
  "vtrn1_table n =
     (if n = 8 then [0, 8, 2, 10, 4, 12, 6, 14]
      else if n = 4 then [0, 4, 2, 6]
      else [0, 2])"

definition vtrn1 where
  "vtrn1 le p0 p1 =
     (if le then shufflevector p0 p1 (vtrn1_table (length p0))
      else
        let rev0 = swap p0; rev1 = swap p1;
            ret = shufflevector rev0 rev1 (vtrn1_table (length rev0))
        in swap ret)"

definition vtrn2q_table :: "nat \<Rightarrow> nat list" where
  "vtrn2q_table n =
     (if n = 16 then [1, 17, 3, 19, 5, 21, 7, 23, 9, 25, 11, 27, 13, 29, 15, 31]
      else if n = 8 then [1, 9, 3, 11, 5, 13, 7, 15]
      else if n = 4 then [1, 5, 3, 7]
      else [1, 3])"

definition vtrn2q where
  "vtrn2q le p0 p1 =
     (if le then shufflevector p0 p1 (vtrn2q_table (length p0))
      else
        let rev0 = swap p0; rev1 = swap p1;
            ret = shufflevector rev0 rev1 (vtrn2q_table (length rev0))
        in swap ret)"

definition vtrn2_table :: "nat \<Rightarrow> nat list" where
  "vtrn2_table n =
     (if n = 8 then [1, 9, 3, 11, 5, 13, 7, 15]
      else if n = 4 then [1, 5, 3, 7]
      else [1, 3])"

definition vtrn2 where
  "vtrn2 le p0 p1 =
     (if le then shufflevector p0 p1 (vtrn2_table (length p0))
      else
        let rev0 = swap p0; rev1 = swap p1;
            ret = shufflevector rev0 rev1 (vtrn2_table (length rev0))
        in swap ret)"

definition vuzp1q_table :: "nat \<Rightarrow> nat list" where
  "vuzp1q_table n =
     (if n = 16 then [0, 2, 4, 6, 8, 10, 12, 14, 16, 18, 20, 22, 24, 26, 28, 30]
      else if n = 8 then [0, 2, 4, 6, 8, 10, 12, 14]
      else if n = 4 then [0, 2, 4, 6]
      else [0, 2])"

definition vuzp1q where
  "vuzp1q le p0 p1 =
     (if le then shufflevector p0 p1 (vuzp1q_table (length p0))
      else
        let rev0 = swap p0; rev1 = swap p1;
            ret = shufflevector rev0 rev1 (vuzp1q_table (length rev0))
        in swap ret)"

definition vuzp1_table :: "nat \<Rightarrow> nat list" where
  "vuzp1_table n =
     (if n = 8 then [0, 2, 4, 6, 8, 10, 12, 14]
      else if n = 4 then [0, 2, 4, 6]
      else [0, 2])"

definition vuzp1 where
  "vuzp1 le p0 p1 =
     (if le then shufflevector p0 p1 (vuzp1_table (length p0))
      else
        let rev0 = swap p0; rev1 = swap p1;
            ret = shufflevector rev0 rev1 (vuzp1_table (length rev0))
        in swap ret)"

definition vuzp2q_table :: "nat \<Rightarrow> nat list" where
  "vuzp2q_table n =
     (if n = 16 then [1, 3, 5, 7, 9, 11, 13, 15, 17, 19, 21, 23, 25, 27, 29, 31]
      else if n = 8 then [1, 3, 5, 7, 9, 11, 13, 15]
      else if n = 4 then [1, 3, 5, 7]
      else [1, 3])"

definition vuzp2q where
  "vuzp2q le p0 p1 =
     (if le then shufflevector p0 p1 (vuzp2q_table (length p0))
      else
        let rev0 = swap p0; rev1 = swap p1;
            ret = shufflevector rev0 rev1 (vuzp2q_table (length rev0))
        in swap ret)"

definition vuzp2_table :: "nat \<Rightarrow> nat list" where
  "vuzp2_table n =
     (if n = 8 then [1, 3, 5, 7, 9, 11, 13, 15]
      else if n = 4 then [1, 3, 5, 7]
      else [1, 3])"

definition vuzp2 where
  "vuzp2 le p0 p1 =
     (if le then shufflevector p0 p1 (vuzp2_table (length p0))
      else
        let rev0 = swap p0; rev1 = swap p1;
            ret = shufflevector rev0 rev1 (vuzp2_table (length rev0))
        in swap ret)"

definition vzip1q_table :: "nat \<Rightarrow> nat list" where
  "vzip1q_table n =
     (if n = 16 then [0, 16, 1, 17, 2, 18, 3, 19, 4, 20, 5, 21, 6, 22, 7, 23]
      else if n = 8 then [0, 8, 1, 9, 2, 10, 3, 11]
      else if n = 4 then [0, 4, 1, 5]
      else [0, 2])"

definition vzip1q where
  "vzip1q le p0 p1 =
     (if le then shufflevector p0 p1 (vzip1q_table (length p0))
      else
        let rev0 = swap p0; rev1 = swap p1;
            ret = shufflevector rev0 rev1 (vzip1q_table (length rev0))
        in swap ret)"

definition vzip1_table :: "nat \<Rightarrow> nat list" where
  "vzip1_table n =
     (if n = 8 then [0, 8, 1, 9, 2, 10, 3, 11]
      else if n = 4 then [0, 4, 1, 5]
      else [0, 2])"

definition vzip1 where
  "vzip1 le p0 p1 =
     (if le then shufflevector p0 p1 (vzip1_table (length p0))
      else
        let rev0 = swap p0; rev1 = swap p1;
            ret = shufflevector rev0 rev1 (vzip1_table (length rev0))
        in swap ret)"

definition vzip2q_table :: "nat \<Rightarrow> nat list" where
  "vzip2q_table n =
     (if n = 16 then [8, 24, 9, 25, 10, 26, 11, 27, 12, 28, 13, 29, 14, 30, 15, 31]
      else if n = 8 then [4, 12, 5, 13, 6, 14, 7, 15]
      else if n = 4 then [2, 6, 3, 7]
      else [1, 3])"

definition vzip2q where
  "vzip2q le p0 p1 =
     (if le then shufflevector p0 p1 (vzip2q_table (length p0))
      else
        let rev0 = swap p0; rev1 = swap p1;
            ret = shufflevector rev0 rev1 (vzip2q_table (length rev0))
        in swap ret)"

definition vzip2_table :: "nat \<Rightarrow> nat list" where
  "vzip2_table n =
     (if n = 8 then [4, 12, 5, 13, 6, 14, 7, 15]
      else if n = 4 then [2, 6, 3, 7]
      else [1, 3])"

definition vzip2 where
  "vzip2 le p0 p1 =
     (if le then shufflevector p0 p1 (vzip2_table (length p0))
      else
        let rev0 = swap p0; rev1 = swap p1;
            ret = shufflevector rev0 rev1 (vzip2_table (length rev0))
        in swap ret)"

lemmas perm_tables =
  vcombine_table_def vget_high_table_def vget_low_table_def vrev16q_table_def vrev32q_table_def
  vrev32_table_def vrev64q_table_def vrev64_table_def vtrn1q_table_def vtrn1_table_def
  vtrn2q_table_def vtrn2_table_def vuzp1q_table_def vuzp1_table_def vuzp2q_table_def
  vuzp2_table_def vzip1q_table_def vzip1_table_def vzip2q_table_def vzip2_table_def

lemmas perm_defs =
  vcombine_def vget_high_def vget_low_def vrev16q_def vrev32q_def vrev32_def vrev64q_def vrev64_def
  vtrn1q_def vtrn1_def vtrn2q_def vtrn2_def vuzp1q_def vuzp1_def vuzp2q_def vuzp2_def vzip1q_def
  vzip1_def vzip2q_def vzip2_def

section \<open>What the index tables select\<close>

lemma reg_shuffle: "vreg le (if le then f a b else let ra = swap a; rb = swap b; ret = f ra rb in swap ret) = f (vreg le a) (vreg le b)"
  by (cases le) simp_all

lemma perm_reg:
  "vreg le (vcombine le a b) = shufflevector (vreg le a) (vreg le b) (vcombine_table (length a))"
  "vreg le (vget_high le a) = shufflevector (vreg le a) (vreg le a) (vget_high_table (length a))"
  "vreg le (vget_low le a) = shufflevector (vreg le a) (vreg le a) (vget_low_table (length a))"
  "vreg le (vrev16q le a) = shufflevector (vreg le a) (vreg le a) (vrev16q_table (length a))"
  "vreg le (vrev32q le a) = shufflevector (vreg le a) (vreg le a) (vrev32q_table (length a))"
  "vreg le (vrev32 le a) = shufflevector (vreg le a) (vreg le a) (vrev32_table (length a))"
  "vreg le (vrev64q le a) = shufflevector (vreg le a) (vreg le a) (vrev64q_table (length a))"
  "vreg le (vrev64 le a) = shufflevector (vreg le a) (vreg le a) (vrev64_table (length a))"
  "vreg le (vtrn1q le a b) = shufflevector (vreg le a) (vreg le b) (vtrn1q_table (length a))"
  "vreg le (vtrn1 le a b) = shufflevector (vreg le a) (vreg le b) (vtrn1_table (length a))"
  "vreg le (vtrn2q le a b) = shufflevector (vreg le a) (vreg le b) (vtrn2q_table (length a))"
  "vreg le (vtrn2 le a b) = shufflevector (vreg le a) (vreg le b) (vtrn2_table (length a))"
  "vreg le (vuzp1q le a b) = shufflevector (vreg le a) (vreg le b) (vuzp1q_table (length a))"
  "vreg le (vuzp1 le a b) = shufflevector (vreg le a) (vreg le b) (vuzp1_table (length a))"
  "vreg le (vuzp2q le a b) = shufflevector (vreg le a) (vreg le b) (vuzp2q_table (length a))"
  "vreg le (vuzp2 le a b) = shufflevector (vreg le a) (vreg le b) (vuzp2_table (length a))"
  "vreg le (vzip1q le a b) = shufflevector (vreg le a) (vreg le b) (vzip1q_table (length a))"
  "vreg le (vzip1 le a b) = shufflevector (vreg le a) (vreg le b) (vzip1_table (length a))"
  "vreg le (vzip2q le a b) = shufflevector (vreg le a) (vreg le b) (vzip2q_table (length a))"
  "vreg le (vzip2 le a b) = shufflevector (vreg le a) (vreg le b) (vzip2_table (length a))"
  by (cases le; simp add: perm_defs Let_def)+

definition reversed_in :: "nat \<Rightarrow> nat \<Rightarrow> nat list" where
  "reversed_in g n = map (\<lambda>i. i div g * g + (g - 1 - i mod g)) [0..<n]"

lemma d_tables:
  assumes "n \<in> {2, 4, 8}"
  shows "vtrn1_table n = map (\<lambda>i. if even i then i else n + i - 1) [0..<n]"
    "vtrn2_table n = map (\<lambda>i. if even i then i + 1 else n + i) [0..<n]"
    "vuzp1_table n = map (\<lambda>i. 2 * i) [0..<n]" "vuzp2_table n = map (\<lambda>i. 2 * i + 1) [0..<n]"
    "vzip1_table n = map (\<lambda>i. if even i then i div 2 else n + i div 2) [0..<n]"
    "vzip2_table n = map (\<lambda>i. n div 2 + (if even i then i div 2 else n + i div 2)) [0..<n]"
    "vrev64_table n = reversed_in n n"
  using assms by (auto simp: perm_tables reversed_in_def upt_rec)

lemma q_tables:
  assumes "n \<in> {2, 4, 8, 16}"
  shows "vtrn1q_table n = map (\<lambda>i. if even i then i else n + i - 1) [0..<n]"
    "vtrn2q_table n = map (\<lambda>i. if even i then i + 1 else n + i) [0..<n]"
    "vuzp1q_table n = map (\<lambda>i. 2 * i) [0..<n]" "vuzp2q_table n = map (\<lambda>i. 2 * i + 1) [0..<n]"
    "vzip1q_table n = map (\<lambda>i. if even i then i div 2 else n + i div 2) [0..<n]"
    "vzip2q_table n = map (\<lambda>i. n div 2 + (if even i then i div 2 else n + i div 2)) [0..<n]"
    "vget_high_table n = map (\<lambda>i. n div 2 + i) [0..<n div 2]" "vget_low_table n = [0..<n div 2]"
  using assms by (auto simp: perm_tables upt_rec)

section \<open>The permutations, and how they undo each other\<close>

lemma shufflevector_map: "shufflevector a b (map f xs) = map (\<lambda>i. (a @ b) ! f i) xs"
  by (simp add: shufflevector_def)

lemma append_left: "i < length a \<Longrightarrow> (a @ b) ! i = a ! i"
  by (simp add: nth_append)

lemma append_right: "length a \<le> i \<Longrightarrow> (a @ b) ! i = b ! (i - length a)"
  by (simp add: nth_append)

lemma shuffle_shuffle:
  assumes "\<forall>i \<in> set t. i < length t1 + length t2"
  shows "shufflevector (shufflevector a b t1) (shufflevector a b t2) t = shufflevector a b (shufflevector t1 t2 t)"
  using assms by (auto simp: shufflevector_def nth_append)

lemma shuffle_first: "shufflevector a b [0..<length a] = a"
  by (simp add: shufflevector_def map_upt_nth)

lemma shuffle_second: "length b = length a \<Longrightarrow> shufflevector a b [length a..<2 * length a] = b"
  by (rule nth_equalityI) (simp_all add: shufflevector_def nth_append)

lemma shuffle_undo:
  assumes "shufflevector t1 t2 t = [0..<length a]" "\<forall>i \<in> set t. i < length t1 + length t2"
  shows "shufflevector (shufflevector a b t1) (shufflevector a b t2) t = a"
  by (simp only: shuffle_shuffle [OF assms(2)] assms(1) shuffle_first)

lemma shuffle_undo_second:
  assumes "shufflevector t1 t2 t = [length a..<2 * length a]" "\<forall>i \<in> set t. i < length t1 + length t2"
    "length b = length a"
  shows "shufflevector (shufflevector a b t1) (shufflevector a b t2) t = b"
  by (simp only: shuffle_shuffle [OF assms(2)] assms(1) shuffle_second [OF assms(3)])

text \<open>The shuffles \<open>t\<close> and \<open>u\<close> take the first and the second vector out of the pair of
  shuffles \<open>t1\<close>, \<open>t2\<close>.\<close>

definition undoes :: "nat \<Rightarrow> nat list \<Rightarrow> nat list \<Rightarrow> nat list \<Rightarrow> nat list \<Rightarrow> bool" where
  "undoes n t1 t2 t u \<longleftrightarrow>
     shufflevector t1 t2 t = [0..<n] \<and> shufflevector t1 t2 u = [n..<2 * n]
     \<and> list_all (\<lambda>i. i < length t1 + length t2) (t @ u)"

lemma undoes_shuffle:
  assumes "undoes (length a) t1 t2 t u" "length b = length a"
  shows "shufflevector (shufflevector a b t1) (shufflevector a b t2) t = a"
    "shufflevector (shufflevector a b t1) (shufflevector a b t2) u = b"
  using assms shuffle_undo [of t1 t2 t a b] shuffle_undo_second [of t1 t2 u a b]
  by (auto simp: undoes_def list_all_iff)

lemma q_undoes:
  assumes "n \<in> {2, 4, 8, 16}"
  shows "undoes n (vuzp1q_table n) (vuzp2q_table n) (vzip1q_table n) (vzip2q_table n)"
    "undoes n (vzip1q_table n) (vzip2q_table n) (vuzp1q_table n) (vuzp2q_table n)"
    "undoes n (vtrn1q_table n) (vtrn2q_table n) (vtrn1q_table n) (vtrn2q_table n)"
  using assms by (auto simp: perm_tables undoes_def shufflevector_def upt_rec)

lemma d_undoes:
  assumes "n \<in> {2, 4, 8}"
  shows "undoes n (vuzp1_table n) (vuzp2_table n) (vzip1_table n) (vzip2_table n)"
    "undoes n (vzip1_table n) (vzip2_table n) (vuzp1_table n) (vuzp2_table n)"
    "undoes n (vtrn1_table n) (vtrn2_table n) (vtrn1_table n) (vtrn2_table n)"
  using assms by (auto simp: perm_tables undoes_def shufflevector_def upt_rec)

definition self_undo :: "nat \<Rightarrow> nat list \<Rightarrow> bool" where
  "self_undo n t \<longleftrightarrow> shufflevector t t t = [0..<n] \<and> list_all (\<lambda>i. i < n) t \<and> length t = n"

lemma self_undo_shuffle:
  assumes "self_undo (length a) t"
  shows "shufflevector (shufflevector a a t) (shufflevector a a t) t = a"
proof (rule shuffle_undo)
  show "shufflevector t t t = [0..<length a]" using assms by (simp add: self_undo_def)
  show "\<forall>i \<in> set t. i < length t + length t"
    using assms by (auto simp: self_undo_def list_all_iff intro: trans_less_add1)
qed

lemma reversals_undo:
  "n \<in> {4, 8, 16} \<Longrightarrow> self_undo n (vrev64q_table n)" "n \<in> {2, 4, 8} \<Longrightarrow> self_undo n (vrev64_table n)"
  "self_undo 16 (vrev32q_table 16)" "self_undo 16 (vrev16q_table 16)"
  by (auto simp: perm_tables self_undo_def shufflevector_def upt_rec)

lemma halves_undo:
  assumes "length a \<in> {2, 4, 8, 16}"
  shows "shufflevector (shufflevector a a (vget_low_table (length a))) (shufflevector a a (vget_high_table (length a)))
    (vcombine_table (length a div 2)) = a"
proof (rule shuffle_undo)
  show "shufflevector (vget_low_table (length a)) (vget_high_table (length a)) (vcombine_table (length a div 2))
      = [0..<length a]"
    "\<forall>i \<in> set (vcombine_table (length a div 2)). i < length (vget_low_table (length a)) + length (vget_high_table (length a))"
    using assms by (auto simp: perm_tables shufflevector_def upt_rec)
qed

lemma perm_lengths:
  "n \<in> {2, 4, 8, 16} \<Longrightarrow> length (vuzp1q_table n) = n \<and> length (vzip1q_table n) = n \<and> length (vtrn1q_table n) = n
    \<and> length (vget_low_table n) = n div 2"
  "n \<in> {2, 4, 8} \<Longrightarrow> length (vuzp1_table n) = n \<and> length (vzip1_table n) = n \<and> length (vtrn1_table n) = n"
  by (auto simp: perm_tables)

lemma vreg_inject: "vreg le u = vreg le v \<Longrightarrow> u = v"
  by (cases le) (simp_all add: vreg_def)

text \<open>
  C37. On either byte order the permuting routines move the register's lanes as their names say: the
  unzipping pair takes the even and the odd lanes of the two vectors, the zipping pair interleaves
  their low and their high halves, the transposing pair exchanges the odd lanes of one with the even
  lanes of the other, \<open>vget_low\<close> and \<open>vget_high\<close> are the halves and \<open>vcombine\<close> joins two vectors.
\<close>

theorem permutations_of_lanes:
  fixes a b c d :: "'a list"
  assumes "length a \<in> {2, 4, 8, 16}" "length b = length a" "length c \<in> {2, 4, 8}" "length d = length c"
  shows "vreg le (vuzp1q le a b) = map (\<lambda>i. (vreg le a @ vreg le b) ! (2 * i)) [0..<length a]
    \<and> vreg le (vuzp2q le a b) = map (\<lambda>i. (vreg le a @ vreg le b) ! (2 * i + 1)) [0..<length a]
    \<and> vreg le (vuzp1 le c d) = map (\<lambda>i. (vreg le c @ vreg le d) ! (2 * i)) [0..<length c]
    \<and> vreg le (vuzp2 le c d) = map (\<lambda>i. (vreg le c @ vreg le d) ! (2 * i + 1)) [0..<length c]
    \<and> vreg le (vzip1q le a b)
      = map (\<lambda>i. if even i then vreg le a ! (i div 2) else vreg le b ! (i div 2)) [0..<length a]
    \<and> vreg le (vzip2q le a b)
      = map (\<lambda>i. if even i then vreg le a ! (length a div 2 + i div 2) else vreg le b ! (length a div 2 + i div 2))
          [0..<length a]
    \<and> vreg le (vzip1 le c d)
      = map (\<lambda>i. if even i then vreg le c ! (i div 2) else vreg le d ! (i div 2)) [0..<length c]
    \<and> vreg le (vzip2 le c d)
      = map (\<lambda>i. if even i then vreg le c ! (length c div 2 + i div 2) else vreg le d ! (length c div 2 + i div 2))
          [0..<length c]
    \<and> vreg le (vtrn1q le a b) = map (\<lambda>i. if even i then vreg le a ! i else vreg le b ! (i - 1)) [0..<length a]
    \<and> vreg le (vtrn2q le a b) = map (\<lambda>i. if even i then vreg le a ! (i + 1) else vreg le b ! i) [0..<length a]
    \<and> vreg le (vtrn1 le c d) = map (\<lambda>i. if even i then vreg le c ! i else vreg le d ! (i - 1)) [0..<length c]
    \<and> vreg le (vtrn2 le c d) = map (\<lambda>i. if even i then vreg le c ! (i + 1) else vreg le d ! i) [0..<length c]
    \<and> vreg le (vget_low le a) = take (length a div 2) (vreg le a)
    \<and> vreg le (vget_high le a) = drop (length a div 2) (vreg le a)
    \<and> vreg le (vcombine le c d) = vreg le c @ vreg le d"
proof -
  note q = q_tables [OF assms(1)] and d = d_tables [OF assms(3)]
  have ev: "even (length a)" "even (length c)" using assms(1,3) by auto
  have comb: "vcombine_table (length c) = [0..<2 * length c]" using assms(3) by (auto simp: perm_tables upt_rec)
  show ?thesis
    using assms(2,4) ev
    by (intro conjI)
      (auto intro!: nth_equalityI simp: perm_reg q d comb shufflevector_map nth_append shufflevector_def
        elim!: oddE evenE)
qed

lemma permutations_of_lanes_witness:
  "vreg False (vzip1q False [4, 3, 2, 1] [8, 7, 6, 5 :: 8 word]) = [1, 5, 2, 6]"
  using permutations_of_lanes [where a = "[4, 3, 2, 1]" and b = "[8, 7, 6, 5 :: 8 word]" and c = "[1, 2]"
      and d = "[3, 4]" and le = False]
  by (simp add: vreg_def upt_rec)

text \<open>
  The permuting routines undo each other on either byte order: zipping the unzipped pair gives
  the two vectors back and unzipping the zipped pair does too, transposing twice and joining the
  two halves are the identity, and every element reversal is its own inverse.
\<close>

lemma permutations_undo:
  fixes a b c d r p :: "'a list"
  assumes "length a \<in> {2, 4, 8, 16}" "length b = length a" "length c \<in> {2, 4, 8}" "length d = length c"
    "length r \<in> {4, 8, 16}" "length p = 16"
  shows "vzip1q le (vuzp1q le a b) (vuzp2q le a b) = a \<and> vzip2q le (vuzp1q le a b) (vuzp2q le a b) = b
    \<and> vuzp1q le (vzip1q le a b) (vzip2q le a b) = a \<and> vuzp2q le (vzip1q le a b) (vzip2q le a b) = b
    \<and> vtrn1q le (vtrn1q le a b) (vtrn2q le a b) = a \<and> vtrn2q le (vtrn1q le a b) (vtrn2q le a b) = b
    \<and> vzip1 le (vuzp1 le c d) (vuzp2 le c d) = c \<and> vzip2 le (vuzp1 le c d) (vuzp2 le c d) = d
    \<and> vuzp1 le (vzip1 le c d) (vzip2 le c d) = c \<and> vuzp2 le (vzip1 le c d) (vzip2 le c d) = d
    \<and> vtrn1 le (vtrn1 le c d) (vtrn2 le c d) = c \<and> vtrn2 le (vtrn1 le c d) (vtrn2 le c d) = d
    \<and> vcombine le (vget_low le a) (vget_high le a) = a
    \<and> vrev64q le (vrev64q le r) = r \<and> vrev64 le (vrev64 le c) = c
    \<and> vrev32q le (vrev32q le p) = p \<and> vrev16q le (vrev16q le p) = p"
proof -
  note ab = undoes_shuffle [where a = "vreg le a" and b = "vreg le b", unfolded length_vreg, OF _ assms(2)]
  note cd = undoes_shuffle [where a = "vreg le c" and b = "vreg le d", unfolded length_vreg, OF _ assms(4)]
  note lens = perm_lengths(1) [OF assms(1)] perm_lengths(2) [OF assms(3)]
    perm_reg [of le, THEN arg_cong [where f = length], unfolded length_vreg length_shufflevector]
  have q: "vzip1q le (vuzp1q le a b) (vuzp2q le a b) = a" "vzip2q le (vuzp1q le a b) (vuzp2q le a b) = b"
    "vuzp1q le (vzip1q le a b) (vzip2q le a b) = a" "vuzp2q le (vzip1q le a b) (vzip2q le a b) = b"
    "vtrn1q le (vtrn1q le a b) (vtrn2q le a b) = a" "vtrn2q le (vtrn1q le a b) (vtrn2q le a b) = b"
    by (rule vreg_inject [of le], simp add: perm_reg lens ab [OF q_undoes(1) [OF assms(1)]]
        ab [OF q_undoes(2) [OF assms(1)]] ab [OF q_undoes(3) [OF assms(1)]])+
  have d: "vzip1 le (vuzp1 le c d) (vuzp2 le c d) = c" "vzip2 le (vuzp1 le c d) (vuzp2 le c d) = d"
    "vuzp1 le (vzip1 le c d) (vzip2 le c d) = c" "vuzp2 le (vzip1 le c d) (vzip2 le c d) = d"
    "vtrn1 le (vtrn1 le c d) (vtrn2 le c d) = c" "vtrn2 le (vtrn1 le c d) (vtrn2 le c d) = d"
    by (rule vreg_inject [of le], simp add: perm_reg lens cd [OF d_undoes(1) [OF assms(3)]]
        cd [OF d_undoes(2) [OF assms(3)]] cd [OF d_undoes(3) [OF assms(3)]])+
  have low: "vcombine le (vget_low le a) (vget_high le a) = a"
    by (rule vreg_inject [of le])
      (simp add: perm_reg lens halves_undo [of "vreg le a", unfolded length_vreg, OF assms(1)])
  have u: "self_undo (length r) (vrev64q_table (length r))" "self_undo (length c) (vrev64_table (length c))"
    "self_undo (length p) (vrev32q_table (length p))" "self_undo (length p) (vrev16q_table (length p))"
    using reversals_undo(1) [OF assms(5)] reversals_undo(2) [OF assms(3)] reversals_undo(3,4) by (simp_all only: assms(6))
  note lens' = u [unfolded self_undo_def, THEN conjunct2, THEN conjunct2]
  note undo = self_undo_shuffle [of "vreg le _", unfolded length_vreg]
  have rev: "vrev64q le (vrev64q le r) = r" "vrev64 le (vrev64 le c) = c"
    "vrev32q le (vrev32q le p) = p" "vrev16q le (vrev16q le p) = p"
    by (rule vreg_inject [of le], simp only: perm_reg lens(3-) lens' undo [OF u(1)] undo [OF u(2)] undo [OF u(3)] undo [OF u(4)])+
  show ?thesis using q d low rev by simp
qed

lemma permutations_undo_witness:
  "vzip1q False (vuzp1q False [1, 2, 3, 4] [5, 6, 7, 8]) (vuzp2q False [1, 2, 3, 4] [5, 6, 7, 8 :: nat]) = [1, 2, 3, 4]
   \<and> vrev64q False (vrev64q False [1, 2, 3, 4]) = [1, 2, 3, 4 :: nat]"
  using permutations_undo [where a = "[1, 2, 3, 4 :: nat]" and b = "[5, 6, 7, 8]" and c = "[1, 2]"
      and d = "[3, 4]" and le = False and r = "[1, 2, 3, 4]" and p = "[0..<16]"]
  by simp

end
