(* ===== verification/Neon_Wide.thy ===== *)
theory Neon_Wide
  imports Neon_Builtin Neon_Perm
begin

text \<open>
  The routines of \<open>arm_neon.h\<close> that are composed of others: accumulating, widening and narrowing
  arithmetic, the forms on the high half of a register, products with a broadcast lane or scalar, and
  lane copies.  The arguments \<open>bi_\<close> are the builtins under the routines they call.  A routine's
  big-endian variant calls the \<open>noswap\<close> variants of the others on operands it has reversed itself.
\<close>

definition vmull_lane where
  "vmull_lane le bi_vmull p0 p1 p2 =
     (if le then vmull le bi_vmull p0 (splat (length p0) p1 p2)
      else
        let rev0 = swap p0; rev1 = swap p1;
            ret = noswap_vmull bi_vmull rev0 (splat (length p0) rev1 p2)
        in swap ret)"

definition noswap_vmull_n where
  "noswap_vmull_n bi_vmull p0 p1 = noswap_vmull bi_vmull p0 (replicate (length p0) p1)"

definition vmull_n where
  "vmull_n le bi_vmull p0 p1 =
     (if le then vmull le bi_vmull p0 (replicate (length p0) p1)
      else
        let rev0 = swap p0;
            ret = noswap_vmull bi_vmull rev0 (replicate (length p0) p1)
        in swap ret)"

definition vqdmlal_lane where
  "vqdmlal_lane le bi_vqdmlal p0 p1 p2 p3 =
     (if le then vqdmlal le bi_vqdmlal p0 p1 (splat (length p1) p2 p3)
      else
        let rev0 = swap p0; rev1 = swap p1; rev2 = swap p2;
            ret = noswap_vqdmlal bi_vqdmlal rev0 rev1 (splat (length p1) rev2 p3)
        in swap ret)"

definition vqdmlal_n where
  "vqdmlal_n le bi_vqdmlal p0 p1 p2 =
     (if le then vqdmlal le bi_vqdmlal p0 p1 (replicate (length p1) p2)
      else
        let rev0 = swap p0; rev1 = swap p1;
            ret = noswap_vqdmlal bi_vqdmlal rev0 rev1 (replicate (length p1) p2)
        in swap ret)"

definition vqdmlsl_lane where
  "vqdmlsl_lane le bi_vqdmlsl p0 p1 p2 p3 =
     (if le then vqdmlsl le bi_vqdmlsl p0 p1 (splat (length p1) p2 p3)
      else
        let rev0 = swap p0; rev1 = swap p1; rev2 = swap p2;
            ret = noswap_vqdmlsl bi_vqdmlsl rev0 rev1 (splat (length p1) rev2 p3)
        in swap ret)"

definition vqdmlsl_n where
  "vqdmlsl_n le bi_vqdmlsl p0 p1 p2 =
     (if le then vqdmlsl le bi_vqdmlsl p0 p1 (replicate (length p1) p2)
      else
        let rev0 = swap p0; rev1 = swap p1;
            ret = noswap_vqdmlsl bi_vqdmlsl rev0 rev1 (replicate (length p1) p2)
        in swap ret)"

definition vqdmull_lane where
  "vqdmull_lane le bi_vqdmull p0 p1 p2 =
     (if le then vqdmull le bi_vqdmull p0 (splat (length p0) p1 p2)
      else
        let rev0 = swap p0; rev1 = swap p1;
            ret = noswap_vqdmull bi_vqdmull rev0 (splat (length p0) rev1 p2)
        in swap ret)"

definition vqdmull_n where
  "vqdmull_n le bi_vqdmull p0 p1 =
     (if le then vqdmull le bi_vqdmull p0 (replicate (length p0) p1)
      else
        let rev0 = swap p0;
            ret = noswap_vqdmull bi_vqdmull rev0 (replicate (length p0) p1)
        in swap ret)"

definition vsubl where
  "vsubl le bi_vmovl p0 p1 =
     (if le then map2 (-) (vmovl le bi_vmovl p0) (vmovl le bi_vmovl p1)
      else
        let rev0 = swap p0; rev1 = swap p1;
            ret = map2 (-) (noswap_vmovl bi_vmovl rev0) (noswap_vmovl bi_vmovl rev1)
        in swap ret)"

definition vsubw where
  "vsubw le bi_vmovl p0 p1 =
     (if le then map2 (-) p0 (vmovl le bi_vmovl p1)
      else
        let rev0 = swap p0; rev1 = swap p1;
            ret = map2 (-) rev0 (noswap_vmovl bi_vmovl rev1)
        in swap ret)"

definition vqdmulhq_lane where
  "vqdmulhq_lane le bi_vqdmulhq p0 p1 p2 =
     (if le then vqdmulhq le bi_vqdmulhq p0 (splat (length p0) p1 p2)
      else
        let rev0 = swap p0; rev1 = swap p1;
            ret = noswap_vqdmulhq bi_vqdmulhq rev0 (splat (length p0) rev1 p2)
        in swap ret)"

definition vqdmulh_lane where
  "vqdmulh_lane le bi_vqdmulh p0 p1 p2 =
     (if le then vqdmulh le bi_vqdmulh p0 (splat (length p0) p1 p2)
      else
        let rev0 = swap p0; rev1 = swap p1;
            ret = noswap_vqdmulh bi_vqdmulh rev0 (splat (length p0) rev1 p2)
        in swap ret)"

definition vqrdmulhq_lane where
  "vqrdmulhq_lane le bi_vqrdmulhq p0 p1 p2 =
     (if le then vqrdmulhq le bi_vqrdmulhq p0 (splat (length p0) p1 p2)
      else
        let rev0 = swap p0; rev1 = swap p1;
            ret = noswap_vqrdmulhq bi_vqrdmulhq rev0 (splat (length p0) rev1 p2)
        in swap ret)"

definition vqrdmulh_lane where
  "vqrdmulh_lane le bi_vqrdmulh p0 p1 p2 =
     (if le then vqrdmulh le bi_vqrdmulh p0 (splat (length p0) p1 p2)
      else
        let rev0 = swap p0; rev1 = swap p1;
            ret = noswap_vqrdmulh bi_vqrdmulh rev0 (splat (length p0) rev1 p2)
        in swap ret)"

definition vqrdmlahq_lane where
  "vqrdmlahq_lane le bi_vqaddq bi_vqrdmulhq p0 p1 p2 p3 =
     (if le then vqaddq le bi_vqaddq p0 (vqrdmulhq le bi_vqrdmulhq p1 (splat (length p1) p2 p3))
      else
        let rev0 = swap p0; rev1 = swap p1; rev2 = swap p2;
            ret = noswap_vqaddq bi_vqaddq rev0 (noswap_vqrdmulhq bi_vqrdmulhq rev1 (splat (length p1)
                rev2 p3))
        in swap ret)"

definition vqrdmlah_lane where
  "vqrdmlah_lane le bi_vqadd bi_vqrdmulh p0 p1 p2 p3 =
     (if le then vqadd le bi_vqadd p0 (vqrdmulh le bi_vqrdmulh p1 (splat (length p1) p2 p3))
      else
        let rev0 = swap p0; rev1 = swap p1; rev2 = swap p2;
            ret = noswap_vqadd bi_vqadd rev0 (noswap_vqrdmulh bi_vqrdmulh rev1 (splat (length p1) rev2
                p3))
        in swap ret)"

definition vqrdmlshq_lane where
  "vqrdmlshq_lane le bi_vqsubq bi_vqrdmulhq p0 p1 p2 p3 =
     (if le then vqsubq le bi_vqsubq p0 (vqrdmulhq le bi_vqrdmulhq p1 (splat (length p1) p2 p3))
      else
        let rev0 = swap p0; rev1 = swap p1; rev2 = swap p2;
            ret = noswap_vqsubq bi_vqsubq rev0 (noswap_vqrdmulhq bi_vqrdmulhq rev1 (splat (length p1)
                rev2 p3))
        in swap ret)"

definition vqrdmlsh_lane where
  "vqrdmlsh_lane le bi_vqsub bi_vqrdmulh p0 p1 p2 p3 =
     (if le then vqsub le bi_vqsub p0 (vqrdmulh le bi_vqrdmulh p1 (splat (length p1) p2 p3))
      else
        let rev0 = swap p0; rev1 = swap p1; rev2 = swap p2;
            ret = noswap_vqsub bi_vqsub rev0 (noswap_vqrdmulh bi_vqrdmulh rev1 (splat (length p1) rev2
                p3))
        in swap ret)"

definition vqrdmlahq_laneq where
  "vqrdmlahq_laneq le bi_vqaddq bi_vqrdmulhq p0 p1 p2 p3 =
     (if le then vqaddq le bi_vqaddq p0 (vqrdmulhq le bi_vqrdmulhq p1 (splat (length p1) p2 p3))
      else
        let rev0 = swap p0; rev1 = swap p1; rev2 = swap p2;
            ret = noswap_vqaddq bi_vqaddq rev0 (noswap_vqrdmulhq bi_vqrdmulhq rev1 (splat (length p1)
                rev2 p3))
        in swap ret)"

definition vqrdmlah_laneq where
  "vqrdmlah_laneq le bi_vqadd bi_vqrdmulh p0 p1 p2 p3 =
     (if le then vqadd le bi_vqadd p0 (vqrdmulh le bi_vqrdmulh p1 (splat (length p1) p2 p3))
      else
        let rev0 = swap p0; rev1 = swap p1; rev2 = swap p2;
            ret = noswap_vqadd bi_vqadd rev0 (noswap_vqrdmulh bi_vqrdmulh rev1 (splat (length p1) rev2
                p3))
        in swap ret)"

definition vqrdmlshq_laneq where
  "vqrdmlshq_laneq le bi_vqsubq bi_vqrdmulhq p0 p1 p2 p3 =
     (if le then vqsubq le bi_vqsubq p0 (vqrdmulhq le bi_vqrdmulhq p1 (splat (length p1) p2 p3))
      else
        let rev0 = swap p0; rev1 = swap p1; rev2 = swap p2;
            ret = noswap_vqsubq bi_vqsubq rev0 (noswap_vqrdmulhq bi_vqrdmulhq rev1 (splat (length p1)
                rev2 p3))
        in swap ret)"

definition vqrdmlsh_laneq where
  "vqrdmlsh_laneq le bi_vqsub bi_vqrdmulh p0 p1 p2 p3 =
     (if le then vqsub le bi_vqsub p0 (vqrdmulh le bi_vqrdmulh p1 (splat (length p1) p2 p3))
      else
        let rev0 = swap p0; rev1 = swap p1; rev2 = swap p2;
            ret = noswap_vqsub bi_vqsub rev0 (noswap_vqrdmulh bi_vqrdmulh rev1 (splat (length p1) rev2
                p3))
        in swap ret)"

definition vaddhn_high where
  "vaddhn_high le bi_vaddhn p0 p1 p2 =
     (if le then vcombine le p0 (vaddhn le bi_vaddhn p1 p2)
      else
        let rev0 = swap p0; rev1 = swap p1; rev2 = swap p2;
            ret = noswap_vcombine rev0 (noswap_vaddhn bi_vaddhn rev1 rev2)
        in swap ret)"

definition vcopyq_lane where
  "vcopyq_lane le bi_vsetq_lane bi_vget_lane p0 p1 p2 p3 =
     (if le then vsetq_lane le bi_vsetq_lane (vget_lane le bi_vget_lane p2 p3) p0 p1
      else
        let rev0 = swap p0; rev2 = swap p2;
            ret = noswap_vsetq_lane bi_vsetq_lane (noswap_vget_lane bi_vget_lane rev2 p3) rev0 p1
        in swap ret)"

definition vcopy_lane where
  "vcopy_lane le bi_vset_lane bi_vget_lane p0 p1 p2 p3 =
     (if le then vset_lane le bi_vset_lane (vget_lane le bi_vget_lane p2 p3) p0 p1
      else
        let rev0 = swap p0; rev2 = swap p2;
            ret = noswap_vset_lane bi_vset_lane (noswap_vget_lane bi_vget_lane rev2 p3) rev0 p1
        in swap ret)"

definition vcopyq_laneq where
  "vcopyq_laneq le bi_vsetq_lane bi_vgetq_lane p0 p1 p2 p3 =
     (if le then vsetq_lane le bi_vsetq_lane (vgetq_lane le bi_vgetq_lane p2 p3) p0 p1
      else
        let rev0 = swap p0; rev2 = swap p2;
            ret = noswap_vsetq_lane bi_vsetq_lane (noswap_vgetq_lane bi_vgetq_lane rev2 p3) rev0 p1
        in swap ret)"

definition vcopy_laneq where
  "vcopy_laneq le bi_vset_lane bi_vgetq_lane p0 p1 p2 p3 =
     (if le then vset_lane le bi_vset_lane (vgetq_lane le bi_vgetq_lane p2 p3) p0 p1
      else
        let rev0 = swap p0; rev2 = swap p2;
            ret = noswap_vset_lane bi_vset_lane (noswap_vgetq_lane bi_vgetq_lane rev2 p3) rev0 p1
        in swap ret)"

definition vfmsq_laneq where
  "vfmsq_laneq le bi_vfmaq_laneq p0 p1 p2 p3 =
     (if le then vfmaq_laneq le bi_vfmaq_laneq p0 (map uminus p1) p2 p3
      else
        let rev0 = swap p0; rev1 = swap p1; rev2 = swap p2;
            ret = noswap_vfmaq_laneq bi_vfmaq_laneq rev0 (map uminus rev1) rev2 p3
        in swap ret)"

definition vmlal_high_lane where
  "vmlal_high_lane le bi_vmull p0 p1 p2 p3 =
     (if le then map2 (+) p0 (vmull le bi_vmull (vget_high le p1) (splat (length p0) p2 p3))
      else
        let rev0 = swap p0; rev1 = swap p1; rev2 = swap p2;
            ret = map2 (+) rev0 (noswap_vmull bi_vmull (noswap_vget_high rev1) (splat (length p0) rev2
                p3))
        in swap ret)"

definition vmlal_high_laneq where
  "vmlal_high_laneq le bi_vmull p0 p1 p2 p3 =
     (if le then map2 (+) p0 (vmull le bi_vmull (vget_high le p1) (splat (length p0) p2 p3))
      else
        let rev0 = swap p0; rev1 = swap p1; rev2 = swap p2;
            ret = map2 (+) rev0 (noswap_vmull bi_vmull (noswap_vget_high rev1) (splat (length p0) rev2
                p3))
        in swap ret)"

definition vmlal_laneq where
  "vmlal_laneq le bi_vmull p0 p1 p2 p3 =
     (if le then map2 (+) p0 (vmull le bi_vmull p1 (splat (length p1) p2 p3))
      else
        let rev0 = swap p0; rev1 = swap p1; rev2 = swap p2;
            ret = map2 (+) rev0 (noswap_vmull bi_vmull rev1 (splat (length p1) rev2 p3))
        in swap ret)"

definition vmlsl_high_lane where
  "vmlsl_high_lane le bi_vmull p0 p1 p2 p3 =
     (if le then map2 (-) p0 (vmull le bi_vmull (vget_high le p1) (splat (length p0) p2 p3))
      else
        let rev0 = swap p0; rev1 = swap p1; rev2 = swap p2;
            ret = map2 (-) rev0 (noswap_vmull bi_vmull (noswap_vget_high rev1) (splat (length p0) rev2
                p3))
        in swap ret)"

definition vmlsl_high_laneq where
  "vmlsl_high_laneq le bi_vmull p0 p1 p2 p3 =
     (if le then map2 (-) p0 (vmull le bi_vmull (vget_high le p1) (splat (length p0) p2 p3))
      else
        let rev0 = swap p0; rev1 = swap p1; rev2 = swap p2;
            ret = map2 (-) rev0 (noswap_vmull bi_vmull (noswap_vget_high rev1) (splat (length p0) rev2
                p3))
        in swap ret)"

definition vmlsl_laneq where
  "vmlsl_laneq le bi_vmull p0 p1 p2 p3 =
     (if le then map2 (-) p0 (vmull le bi_vmull p1 (splat (length p1) p2 p3))
      else
        let rev0 = swap p0; rev1 = swap p1; rev2 = swap p2;
            ret = map2 (-) rev0 (noswap_vmull bi_vmull rev1 (splat (length p1) rev2 p3))
        in swap ret)"

definition noswap_vmovl_high where
  "noswap_vmovl_high bi_vshll_n p0 = (let a1 = noswap_vget_high p0 in noswap_vshll_n bi_vshll_n a1 0)"

definition vmovl_high where
  "vmovl_high le bi_vshll_n p0 =
     (if le then (let a1 = vget_high le p0 in vshll_n le bi_vshll_n a1 0)
      else
        let rev0 = swap p0;
            a1 = noswap_vget_high rev0;
            ret = noswap_vshll_n bi_vshll_n a1 0
        in swap ret)"

definition vmovn_high where
  "vmovn_high le bi_vmovn p0 p1 =
     (if le then vcombine le p0 (vmovn le bi_vmovn p1)
      else
        let rev0 = swap p0; rev1 = swap p1;
            ret = noswap_vcombine rev0 (noswap_vmovn bi_vmovn rev1)
        in swap ret)"

definition vmull_high where
  "vmull_high le bi_vmull p0 p1 =
     (if le then vmull le bi_vmull (vget_high le p0) (vget_high le p1)
      else
        let rev0 = swap p0; rev1 = swap p1;
            ret = noswap_vmull bi_vmull (noswap_vget_high rev0) (noswap_vget_high rev1)
        in swap ret)"

definition vmull_high_lane where
  "vmull_high_lane le bi_vmull p0 p1 p2 =
     (if le then vmull le bi_vmull (vget_high le p0) (splat (length p0 div 2) p1 p2)
      else
        let rev0 = swap p0; rev1 = swap p1;
            ret = noswap_vmull bi_vmull (noswap_vget_high rev0) (splat (length p0 div 2) rev1 p2)
        in swap ret)"

definition vmull_high_laneq where
  "vmull_high_laneq le bi_vmull p0 p1 p2 =
     (if le then vmull le bi_vmull (vget_high le p0) (splat (length p0 div 2) p1 p2)
      else
        let rev0 = swap p0; rev1 = swap p1;
            ret = noswap_vmull bi_vmull (noswap_vget_high rev0) (splat (length p0 div 2) rev1 p2)
        in swap ret)"

definition vmull_high_n where
  "vmull_high_n le bi_vmull p0 p1 =
     (if le then vmull_n le bi_vmull (vget_high le p0) p1
      else
        let rev0 = swap p0;
            ret = noswap_vmull_n bi_vmull (noswap_vget_high rev0) p1
        in swap ret)"

definition vmull_laneq where
  "vmull_laneq le bi_vmull p0 p1 p2 =
     (if le then vmull le bi_vmull p0 (splat (length p0) p1 p2)
      else
        let rev0 = swap p0; rev1 = swap p1;
            ret = noswap_vmull bi_vmull rev0 (splat (length p0) rev1 p2)
        in swap ret)"

definition vmulxq_laneq where
  "vmulxq_laneq le bi_vmulxq p0 p1 p2 =
     (if le then vmulxq le bi_vmulxq p0 (splat (length p0) p1 p2)
      else
        let rev0 = swap p0; rev1 = swap p1;
            ret = noswap_vmulxq bi_vmulxq rev0 (splat (length p0) rev1 p2)
        in swap ret)"

definition vqdmlal_high_lane where
  "vqdmlal_high_lane le bi_vqdmlal p0 p1 p2 p3 =
     (if le then vqdmlal le bi_vqdmlal p0 (vget_high le p1) (splat (length p0) p2 p3)
      else
        let rev0 = swap p0; rev1 = swap p1; rev2 = swap p2;
            ret = noswap_vqdmlal bi_vqdmlal rev0 (noswap_vget_high rev1) (splat (length p0) rev2 p3)
        in swap ret)"

definition vqdmlal_high_laneq where
  "vqdmlal_high_laneq le bi_vqdmlal p0 p1 p2 p3 =
     (if le then vqdmlal le bi_vqdmlal p0 (vget_high le p1) (splat (length p0) p2 p3)
      else
        let rev0 = swap p0; rev1 = swap p1; rev2 = swap p2;
            ret = noswap_vqdmlal bi_vqdmlal rev0 (noswap_vget_high rev1) (splat (length p0) rev2 p3)
        in swap ret)"

definition vqdmlal_laneq where
  "vqdmlal_laneq le bi_vqdmlal p0 p1 p2 p3 =
     (if le then vqdmlal le bi_vqdmlal p0 p1 (splat (length p1) p2 p3)
      else
        let rev0 = swap p0; rev1 = swap p1; rev2 = swap p2;
            ret = noswap_vqdmlal bi_vqdmlal rev0 rev1 (splat (length p1) rev2 p3)
        in swap ret)"

definition vqdmlsl_high_lane where
  "vqdmlsl_high_lane le bi_vqdmlsl p0 p1 p2 p3 =
     (if le then vqdmlsl le bi_vqdmlsl p0 (vget_high le p1) (splat (length p0) p2 p3)
      else
        let rev0 = swap p0; rev1 = swap p1; rev2 = swap p2;
            ret = noswap_vqdmlsl bi_vqdmlsl rev0 (noswap_vget_high rev1) (splat (length p0) rev2 p3)
        in swap ret)"

definition vqdmlsl_high_laneq where
  "vqdmlsl_high_laneq le bi_vqdmlsl p0 p1 p2 p3 =
     (if le then vqdmlsl le bi_vqdmlsl p0 (vget_high le p1) (splat (length p0) p2 p3)
      else
        let rev0 = swap p0; rev1 = swap p1; rev2 = swap p2;
            ret = noswap_vqdmlsl bi_vqdmlsl rev0 (noswap_vget_high rev1) (splat (length p0) rev2 p3)
        in swap ret)"

definition vqdmlsl_laneq where
  "vqdmlsl_laneq le bi_vqdmlsl p0 p1 p2 p3 =
     (if le then vqdmlsl le bi_vqdmlsl p0 p1 (splat (length p1) p2 p3)
      else
        let rev0 = swap p0; rev1 = swap p1; rev2 = swap p2;
            ret = noswap_vqdmlsl bi_vqdmlsl rev0 rev1 (splat (length p1) rev2 p3)
        in swap ret)"

definition vqdmull_high_lane where
  "vqdmull_high_lane le bi_vqdmull p0 p1 p2 =
     (if le then vqdmull le bi_vqdmull (vget_high le p0) (splat (length p0 div 2) p1 p2)
      else
        let rev0 = swap p0; rev1 = swap p1;
            ret = noswap_vqdmull bi_vqdmull (noswap_vget_high rev0) (splat (length p0 div 2) rev1 p2)
        in swap ret)"

definition vqdmull_high_laneq where
  "vqdmull_high_laneq le bi_vqdmull p0 p1 p2 =
     (if le then vqdmull le bi_vqdmull (vget_high le p0) (splat (length p0 div 2) p1 p2)
      else
        let rev0 = swap p0; rev1 = swap p1;
            ret = noswap_vqdmull bi_vqdmull (noswap_vget_high rev0) (splat (length p0 div 2) rev1 p2)
        in swap ret)"

definition vqdmull_laneq where
  "vqdmull_laneq le bi_vqdmull p0 p1 p2 =
     (if le then vqdmull le bi_vqdmull p0 (splat (length p0) p1 p2)
      else
        let rev0 = swap p0; rev1 = swap p1;
            ret = noswap_vqdmull bi_vqdmull rev0 (splat (length p0) rev1 p2)
        in swap ret)"

definition vqmovn_high where
  "vqmovn_high le bi_vqmovn p0 p1 =
     (if le then vcombine le p0 (vqmovn le bi_vqmovn p1)
      else
        let rev0 = swap p0; rev1 = swap p1;
            ret = noswap_vcombine rev0 (noswap_vqmovn bi_vqmovn rev1)
        in swap ret)"

definition vqmovun_high where
  "vqmovun_high le bi_vqmovun p0 p1 =
     (if le then vcombine le p0 (vqmovun le bi_vqmovun p1)
      else
        let rev0 = swap p0; rev1 = swap p1;
            ret = noswap_vcombine rev0 (noswap_vqmovun bi_vqmovun rev1)
        in swap ret)"

definition vqrshrn_high_n where
  "vqrshrn_high_n le bi_vqrshrn_n p0 p1 p2 =
     (if le then vcombine le p0 (vqrshrn_n le bi_vqrshrn_n p1 p2)
      else
        let rev0 = swap p0; rev1 = swap p1;
            ret = noswap_vcombine rev0 (noswap_vqrshrn_n bi_vqrshrn_n rev1 p2)
        in swap ret)"

definition vqrshrun_high_n where
  "vqrshrun_high_n le bi_vqrshrun_n p0 p1 p2 =
     (if le then vcombine le p0 (vqrshrun_n le bi_vqrshrun_n p1 p2)
      else
        let rev0 = swap p0; rev1 = swap p1;
            ret = noswap_vcombine rev0 (noswap_vqrshrun_n bi_vqrshrun_n rev1 p2)
        in swap ret)"

definition vqshrn_high_n where
  "vqshrn_high_n le bi_vqshrn_n p0 p1 p2 =
     (if le then vcombine le p0 (vqshrn_n le bi_vqshrn_n p1 p2)
      else
        let rev0 = swap p0; rev1 = swap p1;
            ret = noswap_vcombine rev0 (noswap_vqshrn_n bi_vqshrn_n rev1 p2)
        in swap ret)"

definition vqshrun_high_n where
  "vqshrun_high_n le bi_vqshrun_n p0 p1 p2 =
     (if le then vcombine le p0 (vqshrun_n le bi_vqshrun_n p1 p2)
      else
        let rev0 = swap p0; rev1 = swap p1;
            ret = noswap_vcombine rev0 (noswap_vqshrun_n bi_vqshrun_n rev1 p2)
        in swap ret)"

definition vraddhn_high where
  "vraddhn_high le bi_vraddhn p0 p1 p2 =
     (if le then vcombine le p0 (vraddhn le bi_vraddhn p1 p2)
      else
        let rev0 = swap p0; rev1 = swap p1; rev2 = swap p2;
            ret = noswap_vcombine rev0 (noswap_vraddhn bi_vraddhn rev1 rev2)
        in swap ret)"

definition vrshrn_high_n where
  "vrshrn_high_n le bi_vrshrn_n p0 p1 p2 =
     (if le then vcombine le p0 (vrshrn_n le bi_vrshrn_n p1 p2)
      else
        let rev0 = swap p0; rev1 = swap p1;
            ret = noswap_vcombine rev0 (noswap_vrshrn_n bi_vrshrn_n rev1 p2)
        in swap ret)"

definition vrsubhn_high where
  "vrsubhn_high le bi_vrsubhn p0 p1 p2 =
     (if le then vcombine le p0 (vrsubhn le bi_vrsubhn p1 p2)
      else
        let rev0 = swap p0; rev1 = swap p1; rev2 = swap p2;
            ret = noswap_vcombine rev0 (noswap_vrsubhn bi_vrsubhn rev1 rev2)
        in swap ret)"

definition vshll_high_n where
  "vshll_high_n le bi_vshll_n p0 p1 =
     (if le then vshll_n le bi_vshll_n (vget_high le p0) p1
      else
        let rev0 = swap p0;
            ret = noswap_vshll_n bi_vshll_n (noswap_vget_high rev0) p1
        in swap ret)"

definition vshrn_high_n where
  "vshrn_high_n le bi_vshrn_n p0 p1 p2 =
     (if le then vcombine le p0 (vshrn_n le bi_vshrn_n p1 p2)
      else
        let rev0 = swap p0; rev1 = swap p1;
            ret = noswap_vcombine rev0 (noswap_vshrn_n bi_vshrn_n rev1 p2)
        in swap ret)"

definition vsubhn_high where
  "vsubhn_high le bi_vsubhn p0 p1 p2 =
     (if le then vcombine le p0 (vsubhn le bi_vsubhn p1 p2)
      else
        let rev0 = swap p0; rev1 = swap p1; rev2 = swap p2;
            ret = noswap_vcombine rev0 (noswap_vsubhn bi_vsubhn rev1 rev2)
        in swap ret)"

definition vsubl_high where
  "vsubl_high le bi_vshll_n p0 p1 =
     (if le then map2 (-) (vmovl_high le bi_vshll_n p0) (vmovl_high le bi_vshll_n p1)
      else
        let rev0 = swap p0; rev1 = swap p1;
            ret = map2 (-) (noswap_vmovl_high bi_vshll_n rev0) (noswap_vmovl_high bi_vshll_n rev1)
        in swap ret)"

definition vsubw_high where
  "vsubw_high le bi_vshll_n p0 p1 =
     (if le then map2 (-) p0 (vmovl_high le bi_vshll_n p1)
      else
        let rev0 = swap p0; rev1 = swap p1;
            ret = map2 (-) rev0 (noswap_vmovl_high bi_vshll_n rev1)
        in swap ret)"

definition vabaq where
  "vabaq le bi_vabdq p0 p1 p2 =
     (if le then map2 (+) p0 (vabdq le bi_vabdq p1 p2)
      else
        let rev0 = swap p0; rev1 = swap p1; rev2 = swap p2;
            ret = map2 (+) rev0 (noswap_vabdq bi_vabdq rev1 rev2)
        in swap ret)"

definition vaba where
  "vaba le bi_vabd p0 p1 p2 =
     (if le then map2 (+) p0 (vabd le bi_vabd p1 p2)
      else
        let rev0 = swap p0; rev1 = swap p1; rev2 = swap p2;
            ret = map2 (+) rev0 (noswap_vabd bi_vabd rev1 rev2)
        in swap ret)"

definition noswap_vabdl where
  "noswap_vabdl bi_vmovl bi_vabd p0 p1 = noswap_vmovl bi_vmovl (noswap_vabd bi_vabd p0 p1)"

definition vabdl where
  "vabdl le bi_vmovl bi_vabd p0 p1 =
     (if le then vmovl le bi_vmovl (vabd le bi_vabd p0 p1)
      else
        let rev0 = swap p0; rev1 = swap p1;
            ret = noswap_vmovl bi_vmovl (noswap_vabd bi_vabd rev0 rev1)
        in swap ret)"

definition vaddl where
  "vaddl le bi_vmovl p0 p1 =
     (if le then map2 (+) (vmovl le bi_vmovl p0) (vmovl le bi_vmovl p1)
      else
        let rev0 = swap p0; rev1 = swap p1;
            ret = map2 (+) (noswap_vmovl bi_vmovl rev0) (noswap_vmovl bi_vmovl rev1)
        in swap ret)"

definition vaddw where
  "vaddw le bi_vmovl p0 p1 =
     (if le then map2 (+) p0 (vmovl le bi_vmovl p1)
      else
        let rev0 = swap p0; rev1 = swap p1;
            ret = map2 (+) rev0 (noswap_vmovl bi_vmovl rev1)
        in swap ret)"

definition noswap_vmlal where
  "noswap_vmlal bi_vmull p0 p1 p2 = map2 (+) p0 (noswap_vmull bi_vmull p1 p2)"

definition vmlal where
  "vmlal le bi_vmull p0 p1 p2 =
     (if le then map2 (+) p0 (vmull le bi_vmull p1 p2)
      else
        let rev0 = swap p0; rev1 = swap p1; rev2 = swap p2;
            ret = map2 (+) rev0 (noswap_vmull bi_vmull rev1 rev2)
        in swap ret)"

definition vmlal_lane where
  "vmlal_lane le bi_vmull p0 p1 p2 p3 =
     (if le then map2 (+) p0 (vmull le bi_vmull p1 (splat (length p1) p2 p3))
      else
        let rev0 = swap p0; rev1 = swap p1; rev2 = swap p2;
            ret = map2 (+) rev0 (noswap_vmull bi_vmull rev1 (splat (length p1) rev2 p3))
        in swap ret)"

definition noswap_vmlal_n where
  "noswap_vmlal_n bi_vmull p0 p1 p2 = map2 (+) p0 (noswap_vmull bi_vmull p1 (replicate (length p1) p2))"

definition vmlal_n where
  "vmlal_n le bi_vmull p0 p1 p2 =
     (if le then map2 (+) p0 (vmull le bi_vmull p1 (replicate (length p1) p2))
      else
        let rev0 = swap p0; rev1 = swap p1;
            ret = map2 (+) rev0 (noswap_vmull bi_vmull rev1 (replicate (length p1) p2))
        in swap ret)"

definition noswap_vmlsl where
  "noswap_vmlsl bi_vmull p0 p1 p2 = map2 (-) p0 (noswap_vmull bi_vmull p1 p2)"

definition vmlsl where
  "vmlsl le bi_vmull p0 p1 p2 =
     (if le then map2 (-) p0 (vmull le bi_vmull p1 p2)
      else
        let rev0 = swap p0; rev1 = swap p1; rev2 = swap p2;
            ret = map2 (-) rev0 (noswap_vmull bi_vmull rev1 rev2)
        in swap ret)"

definition vmlsl_lane where
  "vmlsl_lane le bi_vmull p0 p1 p2 p3 =
     (if le then map2 (-) p0 (vmull le bi_vmull p1 (splat (length p1) p2 p3))
      else
        let rev0 = swap p0; rev1 = swap p1; rev2 = swap p2;
            ret = map2 (-) rev0 (noswap_vmull bi_vmull rev1 (splat (length p1) rev2 p3))
        in swap ret)"

definition noswap_vmlsl_n where
  "noswap_vmlsl_n bi_vmull p0 p1 p2 = map2 (-) p0 (noswap_vmull bi_vmull p1 (replicate (length p1) p2))"

definition vmlsl_n where
  "vmlsl_n le bi_vmull p0 p1 p2 =
     (if le then map2 (-) p0 (vmull le bi_vmull p1 (replicate (length p1) p2))
      else
        let rev0 = swap p0; rev1 = swap p1;
            ret = map2 (-) rev0 (noswap_vmull bi_vmull rev1 (replicate (length p1) p2))
        in swap ret)"

definition vabdl_high where
  "vabdl_high le bi_vmovl bi_vabd p0 p1 =
     (if le then vabdl le bi_vmovl bi_vabd (vget_high le p0) (vget_high le p1)
      else
        let rev0 = swap p0; rev1 = swap p1;
            ret = noswap_vabdl bi_vmovl bi_vabd (noswap_vget_high rev0) (noswap_vget_high rev1)
        in swap ret)"

definition vaddl_high where
  "vaddl_high le bi_vshll_n p0 p1 =
     (if le then map2 (+) (vmovl_high le bi_vshll_n p0) (vmovl_high le bi_vshll_n p1)
      else
        let rev0 = swap p0; rev1 = swap p1;
            ret = map2 (+) (noswap_vmovl_high bi_vshll_n rev0) (noswap_vmovl_high bi_vshll_n rev1)
        in swap ret)"

definition vaddw_high where
  "vaddw_high le bi_vshll_n p0 p1 =
     (if le then map2 (+) p0 (vmovl_high le bi_vshll_n p1)
      else
        let rev0 = swap p0; rev1 = swap p1;
            ret = map2 (+) rev0 (noswap_vmovl_high bi_vshll_n rev1)
        in swap ret)"

definition vmlal_high where
  "vmlal_high le bi_vmull p0 p1 p2 =
     (if le then vmlal le bi_vmull p0 (vget_high le p1) (vget_high le p2)
      else
        let rev0 = swap p0; rev1 = swap p1; rev2 = swap p2;
            ret = noswap_vmlal bi_vmull rev0 (noswap_vget_high rev1) (noswap_vget_high rev2)
        in swap ret)"

definition vmlal_high_n where
  "vmlal_high_n le bi_vmull p0 p1 p2 =
     (if le then vmlal_n le bi_vmull p0 (vget_high le p1) p2
      else
        let rev0 = swap p0; rev1 = swap p1;
            ret = noswap_vmlal_n bi_vmull rev0 (noswap_vget_high rev1) p2
        in swap ret)"

definition vmlsl_high where
  "vmlsl_high le bi_vmull p0 p1 p2 =
     (if le then vmlsl le bi_vmull p0 (vget_high le p1) (vget_high le p2)
      else
        let rev0 = swap p0; rev1 = swap p1; rev2 = swap p2;
            ret = noswap_vmlsl bi_vmull rev0 (noswap_vget_high rev1) (noswap_vget_high rev2)
        in swap ret)"

definition vmlsl_high_n where
  "vmlsl_high_n le bi_vmull p0 p1 p2 =
     (if le then vmlsl_n le bi_vmull p0 (vget_high le p1) p2
      else
        let rev0 = swap p0; rev1 = swap p1;
            ret = noswap_vmlsl_n bi_vmull rev0 (noswap_vget_high rev1) p2
        in swap ret)"

definition noswap_vabal where
  "noswap_vabal bi_vmovl bi_vabd p0 p1 p2 = map2 (+) p0 (noswap_vabdl bi_vmovl bi_vabd p1 p2)"

definition vabal where
  "vabal le bi_vmovl bi_vabd p0 p1 p2 =
     (if le then map2 (+) p0 (vabdl le bi_vmovl bi_vabd p1 p2)
      else
        let rev0 = swap p0; rev1 = swap p1; rev2 = swap p2;
            ret = map2 (+) rev0 (noswap_vabdl bi_vmovl bi_vabd rev1 rev2)
        in swap ret)"

definition vabal_high where
  "vabal_high le bi_vmovl bi_vabd p0 p1 p2 =
     (if le then vabal le bi_vmovl bi_vabd p0 (vget_high le p1) (vget_high le p2)
      else
        let rev0 = swap p0; rev1 = swap p1; rev2 = swap p2;
            ret = noswap_vabal bi_vmovl bi_vabd rev0 (noswap_vget_high rev1) (noswap_vget_high rev2)
        in swap ret)"

lemmas wide_defs =
  vmull_lane_def vmull_n_def vqdmlal_lane_def vqdmlal_n_def vqdmlsl_lane_def vqdmlsl_n_def
  vqdmull_lane_def vqdmull_n_def vsubl_def vsubw_def vqdmulhq_lane_def vqdmulh_lane_def
  vqrdmulhq_lane_def vqrdmulh_lane_def vqrdmlahq_lane_def vqrdmlah_lane_def vqrdmlshq_lane_def
  vqrdmlsh_lane_def vqrdmlahq_laneq_def vqrdmlah_laneq_def vqrdmlshq_laneq_def vqrdmlsh_laneq_def
  vaddhn_high_def vcopyq_lane_def vcopy_lane_def vcopyq_laneq_def vcopy_laneq_def vfmsq_laneq_def
  vmlal_high_lane_def vmlal_high_laneq_def vmlal_laneq_def vmlsl_high_lane_def vmlsl_high_laneq_def
  vmlsl_laneq_def vmovl_high_def vmovn_high_def vmull_high_def vmull_high_lane_def
  vmull_high_laneq_def vmull_high_n_def vmull_laneq_def vmulxq_laneq_def vqdmlal_high_lane_def
  vqdmlal_high_laneq_def vqdmlal_laneq_def vqdmlsl_high_lane_def vqdmlsl_high_laneq_def
  vqdmlsl_laneq_def vqdmull_high_lane_def vqdmull_high_laneq_def vqdmull_laneq_def vqmovn_high_def
  vqmovun_high_def vqrshrn_high_n_def vqrshrun_high_n_def vqshrn_high_n_def vqshrun_high_n_def
  vraddhn_high_def vrshrn_high_n_def vrsubhn_high_def vshll_high_n_def vshrn_high_n_def
  vsubhn_high_def vsubl_high_def vsubw_high_def vabaq_def vaba_def vabdl_def vaddl_def vaddw_def
  vmlal_def vmlal_lane_def vmlal_n_def vmlsl_def vmlsl_lane_def vmlsl_n_def vabdl_high_def
  vaddl_high_def vaddw_high_def vmlal_high_def vmlal_high_n_def vmlsl_high_def vmlsl_high_n_def
  vabal_def vabal_high_def

lemmas noswap_wide_defs =
  noswap_vmull_n_def noswap_vmovl_high_def noswap_vabdl_def noswap_vmlal_def noswap_vmlal_n_def
  noswap_vmlsl_def noswap_vmlsl_n_def noswap_vabal_def

lemmas noswap_defs = noswap_builtin_defs noswap_wide_defs

section \<open>The composed routines on registers\<close>

text \<open>
  On either byte order each composed routine computes the same function of its operands'
  registers, written here with the builtins it ends in: no operand is reversed twice or left
  unreversed anywhere in the nest of calls.
\<close>

lemma composed_routines:
  "vreg le (vmull_lane le bi_vmull x y k)
      = bi_vmull (vreg le x) (splat (length (vreg le x)) (vreg le y) k)
    \<and> vreg le (vmull_n le bi_vmull x s)
      = bi_vmull (vreg le x) (replicate (length (vreg le x)) s)
    \<and> vreg le (vqdmlal_lane le bi_vqdmlal u y z k)
      = bi_vqdmlal (vreg le u) (vreg le y) (splat (length (vreg le y)) (vreg le z) k)
    \<and> vreg le (vqdmlal_n le bi_vqdmlal u y s)
      = bi_vqdmlal (vreg le u) (vreg le y) (replicate (length (vreg le y)) s)
    \<and> vreg le (vqdmlsl_lane le bi_vqdmlsl u y z k)
      = bi_vqdmlsl (vreg le u) (vreg le y) (splat (length (vreg le y)) (vreg le z) k)
    \<and> vreg le (vqdmlsl_n le bi_vqdmlsl u y s)
      = bi_vqdmlsl (vreg le u) (vreg le y) (replicate (length (vreg le y)) s)
    \<and> vreg le (vqdmull_lane le bi_vqdmull x y k)
      = bi_vqdmull (vreg le x) (splat (length (vreg le x)) (vreg le y) k)
    \<and> vreg le (vqdmull_n le bi_vqdmull x s)
      = bi_vqdmull (vreg le x) (replicate (length (vreg le x)) s)
    \<and> vreg le (vsubl le bi_vmovl x y)
      = map2 (-) (bi_vmovl (vreg le x)) (bi_vmovl (vreg le y))
    \<and> vreg le (vsubw le bi_vmovl u y)
      = map2 (-) (vreg le u) (bi_vmovl (vreg le y))
    \<and> vreg le (vqdmulhq_lane le bi_vqdmulhq x y k)
      = bi_vqdmulhq (vreg le x) (splat (length (vreg le x)) (vreg le y) k)
    \<and> vreg le (vqdmulh_lane le bi_vqdmulh x y k)
      = bi_vqdmulh (vreg le x) (splat (length (vreg le x)) (vreg le y) k)
    \<and> vreg le (vqrdmulhq_lane le bi_vqrdmulhq x y k)
      = bi_vqrdmulhq (vreg le x) (splat (length (vreg le x)) (vreg le y) k)
    \<and> vreg le (vqrdmulh_lane le bi_vqrdmulh x y k)
      = bi_vqrdmulh (vreg le x) (splat (length (vreg le x)) (vreg le y) k)
    \<and> vreg le (vqrdmlahq_lane le bi_vqaddq bi_vqrdmulhq x y z k)
      = bi_vqaddq (vreg le x) (bi_vqrdmulhq (vreg le y) (splat (length (vreg le y)) (vreg le z) k))
    \<and> vreg le (vqrdmlah_lane le bi_vqadd bi_vqrdmulh x y z k)
      = bi_vqadd (vreg le x) (bi_vqrdmulh (vreg le y) (splat (length (vreg le y)) (vreg le z) k))
    \<and> vreg le (vqrdmlshq_lane le bi_vqsubq bi_vqrdmulhq x y z k)
      = bi_vqsubq (vreg le x) (bi_vqrdmulhq (vreg le y) (splat (length (vreg le y)) (vreg le z) k))
    \<and> vreg le (vqrdmlsh_lane le bi_vqsub bi_vqrdmulh x y z k)
      = bi_vqsub (vreg le x) (bi_vqrdmulh (vreg le y) (splat (length (vreg le y)) (vreg le z) k))
    \<and> vreg le (vqrdmlahq_laneq le bi_vqaddq bi_vqrdmulhq x y z k)
      = bi_vqaddq (vreg le x) (bi_vqrdmulhq (vreg le y) (splat (length (vreg le y)) (vreg le z) k))
    \<and> vreg le (vqrdmlah_laneq le bi_vqadd bi_vqrdmulh x y z k)
      = bi_vqadd (vreg le x) (bi_vqrdmulh (vreg le y) (splat (length (vreg le y)) (vreg le z) k))
    \<and> vreg le (vqrdmlshq_laneq le bi_vqsubq bi_vqrdmulhq x y z k)
      = bi_vqsubq (vreg le x) (bi_vqrdmulhq (vreg le y) (splat (length (vreg le y)) (vreg le z) k))
    \<and> vreg le (vqrdmlsh_laneq le bi_vqsub bi_vqrdmulh x y z k)
      = bi_vqsub (vreg le x) (bi_vqrdmulh (vreg le y) (splat (length (vreg le y)) (vreg le z) k))
    \<and> vreg le (vaddhn_high le bi_vaddhn x v w)
      = noswap_vcombine (vreg le x) (bi_vaddhn (vreg le v) (vreg le w))
    \<and> vreg le (vcopyq_lane le bi_vsetq_lane bi_vget_lane x k z l)
      = bi_vsetq_lane (bi_vget_lane (vreg le z) l) (vreg le x) k
    \<and> vreg le (vcopy_lane le bi_vset_lane bi_vget_lane x k z l)
      = bi_vset_lane (bi_vget_lane (vreg le z) l) (vreg le x) k
    \<and> vreg le (vcopyq_laneq le bi_vsetq_lane bi_vgetq_lane x k z l)
      = bi_vsetq_lane (bi_vgetq_lane (vreg le z) l) (vreg le x) k
    \<and> vreg le (vcopy_laneq le bi_vset_lane bi_vgetq_lane x k z l)
      = bi_vset_lane (bi_vgetq_lane (vreg le z) l) (vreg le x) k
    \<and> vreg le (vfmsq_laneq le bi_vfmaq_laneq x y z k)
      = bi_vfmaq_laneq (vreg le x) (map uminus (vreg le y)) (vreg le z) k
    \<and> vreg le (vmlal_high_lane le bi_vmull u y z k)
      = map2 (+) (vreg le u) (bi_vmull (noswap_vget_high (vreg le y)) (splat (length (vreg le u)) (vreg
        le z) k))
    \<and> vreg le (vmlal_high_laneq le bi_vmull u y z k)
      = map2 (+) (vreg le u) (bi_vmull (noswap_vget_high (vreg le y)) (splat (length (vreg le u)) (vreg
        le z) k))
    \<and> vreg le (vmlal_laneq le bi_vmull u y z k)
      = map2 (+) (vreg le u) (bi_vmull (vreg le y) (splat (length (vreg le y)) (vreg le z) k))
    \<and> vreg le (vmlsl_high_lane le bi_vmull u y z k)
      = map2 (-) (vreg le u) (bi_vmull (noswap_vget_high (vreg le y)) (splat (length (vreg le u)) (vreg
        le z) k))
    \<and> vreg le (vmlsl_high_laneq le bi_vmull u y z k)
      = map2 (-) (vreg le u) (bi_vmull (noswap_vget_high (vreg le y)) (splat (length (vreg le u)) (vreg
        le z) k))
    \<and> vreg le (vmlsl_laneq le bi_vmull u y z k)
      = map2 (-) (vreg le u) (bi_vmull (vreg le y) (splat (length (vreg le y)) (vreg le z) k))
    \<and> vreg le (vmovl_high le bi_vshll_n x)
      = bi_vshll_n (noswap_vget_high (vreg le x)) 0
    \<and> vreg le (vmovn_high le bi_vmovn x v)
      = noswap_vcombine (vreg le x) (bi_vmovn (vreg le v))
    \<and> vreg le (vmull_high le bi_vmull x y)
      = bi_vmull (noswap_vget_high (vreg le x)) (noswap_vget_high (vreg le y))
    \<and> vreg le (vmull_high_lane le bi_vmull x y k)
      = bi_vmull (noswap_vget_high (vreg le x)) (splat (length (vreg le x) div 2) (vreg le y) k)
    \<and> vreg le (vmull_high_laneq le bi_vmull x y k)
      = bi_vmull (noswap_vget_high (vreg le x)) (splat (length (vreg le x) div 2) (vreg le y) k)
    \<and> vreg le (vmull_high_n le bi_vmull x s)
      = bi_vmull (noswap_vget_high (vreg le x)) (replicate (length (noswap_vget_high (vreg le x))) s)
    \<and> vreg le (vmull_laneq le bi_vmull x y k)
      = bi_vmull (vreg le x) (splat (length (vreg le x)) (vreg le y) k)
    \<and> vreg le (vmulxq_laneq le bi_vmulxq x y k)
      = bi_vmulxq (vreg le x) (splat (length (vreg le x)) (vreg le y) k)
    \<and> vreg le (vqdmlal_high_lane le bi_vqdmlal u y z k)
      = bi_vqdmlal (vreg le u) (noswap_vget_high (vreg le y)) (splat (length (vreg le u)) (vreg le z) k)
    \<and> vreg le (vqdmlal_high_laneq le bi_vqdmlal u y z k)
      = bi_vqdmlal (vreg le u) (noswap_vget_high (vreg le y)) (splat (length (vreg le u)) (vreg le z) k)
    \<and> vreg le (vqdmlal_laneq le bi_vqdmlal u y z k)
      = bi_vqdmlal (vreg le u) (vreg le y) (splat (length (vreg le y)) (vreg le z) k)
    \<and> vreg le (vqdmlsl_high_lane le bi_vqdmlsl u y z k)
      = bi_vqdmlsl (vreg le u) (noswap_vget_high (vreg le y)) (splat (length (vreg le u)) (vreg le z) k)
    \<and> vreg le (vqdmlsl_high_laneq le bi_vqdmlsl u y z k)
      = bi_vqdmlsl (vreg le u) (noswap_vget_high (vreg le y)) (splat (length (vreg le u)) (vreg le z) k)
    \<and> vreg le (vqdmlsl_laneq le bi_vqdmlsl u y z k)
      = bi_vqdmlsl (vreg le u) (vreg le y) (splat (length (vreg le y)) (vreg le z) k)
    \<and> vreg le (vqdmull_high_lane le bi_vqdmull x y k)
      = bi_vqdmull (noswap_vget_high (vreg le x)) (splat (length (vreg le x) div 2) (vreg le y) k)
    \<and> vreg le (vqdmull_high_laneq le bi_vqdmull x y k)
      = bi_vqdmull (noswap_vget_high (vreg le x)) (splat (length (vreg le x) div 2) (vreg le y) k)
    \<and> vreg le (vqdmull_laneq le bi_vqdmull x y k)
      = bi_vqdmull (vreg le x) (splat (length (vreg le x)) (vreg le y) k)
    \<and> vreg le (vqmovn_high le bi_vqmovn x v)
      = noswap_vcombine (vreg le x) (bi_vqmovn (vreg le v))
    \<and> vreg le (vqmovun_high le bi_vqmovun x v)
      = noswap_vcombine (vreg le x) (bi_vqmovun (vreg le v))
    \<and> vreg le (vqrshrn_high_n le bi_vqrshrn_n x v k)
      = noswap_vcombine (vreg le x) (bi_vqrshrn_n (vreg le v) k)
    \<and> vreg le (vqrshrun_high_n le bi_vqrshrun_n x v k)
      = noswap_vcombine (vreg le x) (bi_vqrshrun_n (vreg le v) k)
    \<and> vreg le (vqshrn_high_n le bi_vqshrn_n x v k)
      = noswap_vcombine (vreg le x) (bi_vqshrn_n (vreg le v) k)
    \<and> vreg le (vqshrun_high_n le bi_vqshrun_n x v k)
      = noswap_vcombine (vreg le x) (bi_vqshrun_n (vreg le v) k)
    \<and> vreg le (vraddhn_high le bi_vraddhn x v w)
      = noswap_vcombine (vreg le x) (bi_vraddhn (vreg le v) (vreg le w))
    \<and> vreg le (vrshrn_high_n le bi_vrshrn_n x v k)
      = noswap_vcombine (vreg le x) (bi_vrshrn_n (vreg le v) k)
    \<and> vreg le (vrsubhn_high le bi_vrsubhn x v w)
      = noswap_vcombine (vreg le x) (bi_vrsubhn (vreg le v) (vreg le w))
    \<and> vreg le (vshll_high_n le bi_vshll_n x k)
      = bi_vshll_n (noswap_vget_high (vreg le x)) k
    \<and> vreg le (vshrn_high_n le bi_vshrn_n x v k)
      = noswap_vcombine (vreg le x) (bi_vshrn_n (vreg le v) k)
    \<and> vreg le (vsubhn_high le bi_vsubhn x v w)
      = noswap_vcombine (vreg le x) (bi_vsubhn (vreg le v) (vreg le w))
    \<and> vreg le (vsubl_high le bi_vshll_n x y)
      = map2 (-) (bi_vshll_n (noswap_vget_high (vreg le x)) 0) (bi_vshll_n (noswap_vget_high (vreg le
        y)) 0)
    \<and> vreg le (vsubw_high le bi_vshll_n u y)
      = map2 (-) (vreg le u) (bi_vshll_n (noswap_vget_high (vreg le y)) 0)
    \<and> vreg le (vabaq le bi_vabdq x y z)
      = map2 (+) (vreg le x) (bi_vabdq (vreg le y) (vreg le z))
    \<and> vreg le (vaba le bi_vabd x y z)
      = map2 (+) (vreg le x) (bi_vabd (vreg le y) (vreg le z))
    \<and> vreg le (vabdl le bi_vmovl bi_vabd x y)
      = bi_vmovl (bi_vabd (vreg le x) (vreg le y))
    \<and> vreg le (vaddl le bi_vmovl x y)
      = map2 (+) (bi_vmovl (vreg le x)) (bi_vmovl (vreg le y))
    \<and> vreg le (vaddw le bi_vmovl u y)
      = map2 (+) (vreg le u) (bi_vmovl (vreg le y))
    \<and> vreg le (vmlal le bi_vmull u y z)
      = map2 (+) (vreg le u) (bi_vmull (vreg le y) (vreg le z))
    \<and> vreg le (vmlal_lane le bi_vmull u y z k)
      = map2 (+) (vreg le u) (bi_vmull (vreg le y) (splat (length (vreg le y)) (vreg le z) k))
    \<and> vreg le (vmlal_n le bi_vmull u y s)
      = map2 (+) (vreg le u) (bi_vmull (vreg le y) (replicate (length (vreg le y)) s))
    \<and> vreg le (vmlsl le bi_vmull u y z)
      = map2 (-) (vreg le u) (bi_vmull (vreg le y) (vreg le z))
    \<and> vreg le (vmlsl_lane le bi_vmull u y z k)
      = map2 (-) (vreg le u) (bi_vmull (vreg le y) (splat (length (vreg le y)) (vreg le z) k))
    \<and> vreg le (vmlsl_n le bi_vmull u y s)
      = map2 (-) (vreg le u) (bi_vmull (vreg le y) (replicate (length (vreg le y)) s))
    \<and> vreg le (vabdl_high le bi_vmovl bi_vabd x y)
      = bi_vmovl (bi_vabd (noswap_vget_high (vreg le x)) (noswap_vget_high (vreg le y)))
    \<and> vreg le (vaddl_high le bi_vshll_n x y)
      = map2 (+) (bi_vshll_n (noswap_vget_high (vreg le x)) 0) (bi_vshll_n (noswap_vget_high (vreg le
        y)) 0)
    \<and> vreg le (vaddw_high le bi_vshll_n u y)
      = map2 (+) (vreg le u) (bi_vshll_n (noswap_vget_high (vreg le y)) 0)
    \<and> vreg le (vmlal_high le bi_vmull u y z)
      = map2 (+) (vreg le u) (bi_vmull (noswap_vget_high (vreg le y)) (noswap_vget_high (vreg le z)))
    \<and> vreg le (vmlal_high_n le bi_vmull u y s)
      = map2 (+) (vreg le u) (bi_vmull (noswap_vget_high (vreg le y)) (replicate (length
        (noswap_vget_high (vreg le y))) s))
    \<and> vreg le (vmlsl_high le bi_vmull u y z)
      = map2 (-) (vreg le u) (bi_vmull (noswap_vget_high (vreg le y)) (noswap_vget_high (vreg le z)))
    \<and> vreg le (vmlsl_high_n le bi_vmull u y s)
      = map2 (-) (vreg le u) (bi_vmull (noswap_vget_high (vreg le y)) (replicate (length
        (noswap_vget_high (vreg le y))) s))
    \<and> vreg le (vabal le bi_vmovl bi_vabd u y z)
      = map2 (+) (vreg le u) (bi_vmovl (bi_vabd (vreg le y) (vreg le z)))
    \<and> vreg le (vabal_high le bi_vmovl bi_vabd u y z)
      = map2 (+) (vreg le u) (bi_vmovl (bi_vabd (noswap_vget_high (vreg le y)) (noswap_vget_high (vreg
        le z))))"
  by (cases le) (simp_all add: wide_defs noswap_defs builtin_defs vget_high_def vcombine_def
      noswap_vget_high_def noswap_vcombine_def Let_def)

section \<open>What the widening routines compute\<close>

lemma high_lanes:
  assumes "length y = 2 * n" "n \<in> {2, 4, 8}"
  shows "noswap_vget_high y = drop n y"
  using assms(2) q_tables(7) [of "2 * n"] assms(1)
  by (auto intro!: nth_equalityI simp: noswap_vget_high_def shufflevector_def nth_append)

lemma word_of_abs_diff:
  fixes x y :: "'n::len word"
  assumes "rd = uint \<or> rd = sint"
  shows "uint (word_of_int \<bar>rd x - rd y\<bar> :: 'n word) = \<bar>rd x - rd y\<bar>"
proof -
  have "\<bar>rd x - rd y\<bar> < 2 ^ LENGTH('n)"
    using assms
  proof
    assume "rd = uint"
    then show ?thesis using uint_lt2p [of x] uint_lt2p [of y] uint_ge_0 [of x] uint_ge_0 [of y] by (simp add: abs_if)
  next
    assume r: "rd = sint"
    have "(2 :: int) ^ LENGTH('n) = 2 * 2 ^ (LENGTH('n) - 1)" by (simp add: power_Suc [symmetric])
    then show ?thesis using sint_lt [of x] sint_lt [of y] sint_ge [of x] sint_ge [of y] r by (simp add: abs_if)
  qed
  then show ?thesis by (simp add: uint_word_of_int)
qed

lemma widening_product:
  fixes x y :: "'n::len word"
  assumes "LENGTH('w::len) = 2 * LENGTH('n)"
  shows "uint (ucast x * ucast y :: 'w word) = uint x * uint y"
proof -
  have "uint x < 2 ^ LENGTH('n)" "uint y < 2 ^ LENGTH('n)" by (rule uint_lt2p)+
  then have "uint x * uint y < 2 ^ LENGTH('n) * 2 ^ LENGTH('n)" by (intro mult_strict_mono) auto
  also have "\<dots> = 2 ^ LENGTH('w)" using assms by (simp add: power_add [symmetric] mult_2)
  finally have "uint x * uint y < 2 ^ LENGTH('w)" .
  moreover have "uint (ucast u :: 'w word) = uint u" for u :: "'n word"
  proof -
    have "uint u < 2 ^ LENGTH('n)" by (rule uint_lt2p)
    also have "\<dots> \<le> 2 ^ LENGTH('w)" using assms by simp
    finally have "uint u < 2 ^ LENGTH('w)" .
    then show ?thesis by (simp only: ucast_eq uint_word_of_int) simp
  qed
  ultimately show ?thesis by (simp add: uint_word_ariths)
qed

lemma composed_regs:
  "vreg le (vmlal_high_lane le mull u y v k)
    = map2 (+) (vreg le u) (mull (noswap_vget_high (vreg le y)) (splat (length u) (vreg le v) k))"
  "vreg le (vmlsl_high_lane le mull u y v k)
    = map2 (-) (vreg le u) (mull (noswap_vget_high (vreg le y)) (splat (length u) (vreg le v) k))"
  "vreg le (vabal_high le movl abd u y z)
    = map2 (+) (vreg le u) (movl (abd (noswap_vget_high (vreg le y)) (noswap_vget_high (vreg le z))))"
  by (cases le; simp add: wide_defs noswap_defs builtin_defs vget_high_def noswap_vget_high_def Let_def)+

text \<open>
  The widening accumulations are exact in each lane, on either byte order, given what the
  builtins document (\<open>mull\<close> multiplies zero-extended lanes, \<open>abd\<close> is the absolute difference modulo
  the lane width, \<open>movl\<close> zero-extends): \<open>vmlal_high_lane\<close> adds to each wide lane the full product of
  the high half's lane and the selected lane, and \<open>vabal_high\<close> adds the true absolute difference, for
  unsigned and for signed lanes: widening the signed difference through an unsigned type is
  right, since the difference of two signed lanes can exceed the signed range.
\<close>

lemma widening_lanes:
  fixes acc :: "'w::len word list" and y z v :: "'n::len word list" and mull :: "'n word list \<Rightarrow> 'n word list \<Rightarrow> 'w word list"
    and abd :: "'n word list \<Rightarrow> 'n word list \<Rightarrow> 'n word list" and movl :: "'n word list \<Rightarrow> 'w word list"
  assumes mull: "\<And>a b. length a = length b \<Longrightarrow> mull a b = map2 (\<lambda>s t. ucast s * ucast t) a b"
    and abd: "\<And>a b. length a = length b \<Longrightarrow> abd a b = map2 (\<lambda>s t. word_of_int \<bar>rd s - rd t\<bar>) a b"
    and movl: "\<And>a. movl a = map ucast a"
    and rd: "rd = uint \<or> rd = sint"
    and width: "LENGTH('w) = 2 * LENGTH('n)"
    and lanes: "length acc \<in> {2, 4, 8}" "length y = 2 * length acc" "length z = 2 * length acc"
      "k < length v" "i < length acc"
  shows "vreg le (vmlal_high_lane le mull acc y v k) ! i
      = vreg le acc ! i + word_of_int (uint (vreg le y ! (length acc + i)) * uint (vreg le v ! k))
    \<and> vreg le (vmlsl_high_lane le mull acc y v k) ! i
      = vreg le acc ! i - word_of_int (uint (vreg le y ! (length acc + i)) * uint (vreg le v ! k))
    \<and> uint (vreg le y ! (length acc + i)) * uint (vreg le v ! k) < 2 ^ LENGTH('w)
    \<and> vreg le (vabal_high le movl abd acc y z) ! i
      = vreg le acc ! i + word_of_int \<bar>rd (vreg le y ! (length acc + i)) - rd (vreg le z ! (length acc + i))\<bar>"
proof -
  let ?p = "vreg le y ! (length acc + i)" and ?q = "vreg le v ! k" and ?r = "vreg le z ! (length acc + i)"
  have high: "noswap_vget_high (vreg le y) = drop (length acc) (vreg le y)"
    "noswap_vget_high (vreg le z) = drop (length acc) (vreg le z)"
    using high_lanes [of "vreg le y" "length acc"] high_lanes [of "vreg le z" "length acc"] lanes(1-3) by simp_all
  have prod: "ucast ?p * ucast ?q = (word_of_int (uint ?p * uint ?q) :: 'w word)"
    using widening_product [OF width, of ?p ?q] by (metis word_of_int_uint)
  have diff: "ucast (word_of_int \<bar>rd ?p - rd ?r\<bar> :: 'n word) = (word_of_int \<bar>rd ?p - rd ?r\<bar> :: 'w word)"
    by (simp only: ucast_eq word_of_abs_diff [OF rd])
  have splats: "splat (length acc) (vreg le v) k = replicate (length acc) ?q"
    using splat_lane [of k "vreg le v" "length acc"] lanes(4) by simp
  have bound: "uint ?p * uint ?q < 2 ^ LENGTH('w)"
    using widening_product [OF width, of ?p ?q] uint_lt2p [of "ucast ?p * ucast ?q :: 'w word"] by simp
  have len: "length (drop (length acc) (vreg le y)) = length (replicate (length acc) ?q)"
    "length (drop (length acc) (vreg le y)) = length (drop (length acc) (vreg le z))" using lanes(2,3) by simp_all
  have "vreg le (vmlal_high_lane le mull acc y v k) = map2 (+) (vreg le acc)
      (map2 (\<lambda>s t. ucast s * ucast t) (drop (length acc) (vreg le y)) (replicate (length acc) ?q))"
    "vreg le (vmlsl_high_lane le mull acc y v k) = map2 (-) (vreg le acc)
      (map2 (\<lambda>s t. ucast s * ucast t) (drop (length acc) (vreg le y)) (replicate (length acc) ?q))"
    using mull [OF len(1)] by (simp_all add: composed_regs high splats)
  moreover have "vreg le (vabal_high le movl abd acc y z) = map2 (+) (vreg le acc)
      (map ucast (map2 (\<lambda>s t. word_of_int \<bar>rd s - rd t\<bar> :: 'n word) (drop (length acc) (vreg le y)) (drop (length acc) (vreg le z))))"
    using abd [OF len(2)] movl by (simp add: composed_regs high)
  ultimately show ?thesis using lanes(2,3,5) bound prod diff by simp
qed

lemma widening_lanes_witness:
  "vreg False (vabal_high False (map ucast) (map2 (\<lambda>s t. word_of_int \<bar>sint s - sint t\<bar> :: 8 word)) [2, 1 :: 16 word]
      [0x80, 3, 2, 1 :: 8 word] [0x7F, 7, 9, 4 :: 8 word]) ! 1 = 2 + 255"
  using widening_lanes [where mull = "map2 (\<lambda>s t. ucast s * ucast t)" and rd = sint and le = False and i = 1
      and abd = "map2 (\<lambda>s t. word_of_int \<bar>sint s - sint t\<bar>)" and movl = "map ucast" and acc = "[2, 1 :: 16 word]"
      and y = "[0x80, 3, 2, 1 :: 8 word]" and z = "[0x7F, 7, 9, 4]" and v = "[1]" and k = 0]
  by (simp add: vreg_def)

end
