(* ===== verification/Neon_Memory.thy ===== *)
theory Neon_Memory
  imports Neon_Base
begin

text \<open>
  The loads and stores of \<open>arm_neon.h\<close>: of one vector or a structure of two to four, element by
  element (\<open>vld2\<close>: structures interleaved in memory; \<open>vld1_x2\<close>: one vector after the other), of one
  lane, and of one structure to all lanes.  The memory is an argument of the builtin (\<open>bi\<close>) and,
  for a store, its result; a structure of vectors is a tuple.  On a big-endian target the vectors to
  store and the loaded ones are reversed.
\<close>

section \<open>The routines\<close>

definition vld1 where
  "vld1 le bi m p0 =
     (let ret = bi m p0 in if le then ret else swap ret)"

definition vld1_dup where
  "vld1_dup le bi m p0 =
     (let ret = bi m p0 in if le then ret else swap ret)"

definition vld1_lane where
  "vld1_lane le bi m p0 p1 p2 =
     (if le then bi m p0 p1 p2
      else let rev1 = swap p1; ret = bi m p0 rev1 p2 in swap ret)"

definition vst1 where
  "vst1 le bi m p0 p1 =
     (if le then bi m p0 p1 else let rev1 = swap p1 in bi m p0 rev1)"

definition vst1_lane where
  "vst1_lane le bi m p0 p1 p2 =
     (if le then bi m p0 p1 p2 else let rev1 = swap p1 in bi m p0 rev1 p2)"

definition vld1q where
  "vld1q le bi m p0 =
     (let ret = bi m p0 in if le then ret else swap ret)"

definition vld1q_dup where
  "vld1q_dup le bi m p0 =
     (let ret = bi m p0 in if le then ret else swap ret)"

definition vld1q_lane where
  "vld1q_lane le bi m p0 p1 p2 =
     (if le then bi m p0 p1 p2
      else let rev1 = swap p1; ret = bi m p0 rev1 p2 in swap ret)"

definition vst1q where
  "vst1q le bi m p0 p1 =
     (if le then bi m p0 p1 else let rev1 = swap p1 in bi m p0 rev1)"

definition vst1q_lane where
  "vst1q_lane le bi m p0 p1 p2 =
     (if le then bi m p0 p1 p2 else let rev1 = swap p1 in bi m p0 rev1 p2)"

definition vld2 where
  "vld2 le bi m p0 =
     (case bi m p0 of (v0, v1) \<Rightarrow> if le then (v0, v1) else (swap v0, swap v1))"

definition vld2_dup where
  "vld2_dup le bi m p0 =
     (case bi m p0 of (v0, v1) \<Rightarrow> if le then (v0, v1) else (swap v0, swap v1))"

definition vld2_lane where
  "vld2_lane le bi m p0 p1 p2 =
     (case p1 of (s0, s1) \<Rightarrow>
        if le then bi m p0 s0 s1 p2
        else
          let r0 = swap s0; r1 = swap s1
          in case bi m p0 r0 r1 p2 of (v0, v1) \<Rightarrow> (swap v0, swap v1))"

definition vst2 where
  "vst2 le bi m p0 p1 =
     (case p1 of (s0, s1) \<Rightarrow>
        if le then bi m p0 s0 s1
        else let r0 = swap s0; r1 = swap s1 in bi m p0 r0 r1)"

definition vst2_lane where
  "vst2_lane le bi m p0 p1 p2 =
     (case p1 of (s0, s1) \<Rightarrow>
        if le then bi m p0 s0 s1 p2
        else let r0 = swap s0; r1 = swap s1 in bi m p0 r0 r1 p2)"

definition vld2q where
  "vld2q le bi m p0 =
     (case bi m p0 of (v0, v1) \<Rightarrow> if le then (v0, v1) else (swap v0, swap v1))"

definition vld2q_dup where
  "vld2q_dup le bi m p0 =
     (case bi m p0 of (v0, v1) \<Rightarrow> if le then (v0, v1) else (swap v0, swap v1))"

definition vld2q_lane where
  "vld2q_lane le bi m p0 p1 p2 =
     (case p1 of (s0, s1) \<Rightarrow>
        if le then bi m p0 s0 s1 p2
        else
          let r0 = swap s0; r1 = swap s1
          in case bi m p0 r0 r1 p2 of (v0, v1) \<Rightarrow> (swap v0, swap v1))"

definition vst2q where
  "vst2q le bi m p0 p1 =
     (case p1 of (s0, s1) \<Rightarrow>
        if le then bi m p0 s0 s1
        else let r0 = swap s0; r1 = swap s1 in bi m p0 r0 r1)"

definition vst2q_lane where
  "vst2q_lane le bi m p0 p1 p2 =
     (case p1 of (s0, s1) \<Rightarrow>
        if le then bi m p0 s0 s1 p2
        else let r0 = swap s0; r1 = swap s1 in bi m p0 r0 r1 p2)"

definition vld3 where
  "vld3 le bi m p0 =
     (case bi m p0 of (v0, v1, v2) \<Rightarrow> if le then (v0, v1, v2) else (swap v0, swap v1, swap v2))"

definition vld3_dup where
  "vld3_dup le bi m p0 =
     (case bi m p0 of (v0, v1, v2) \<Rightarrow> if le then (v0, v1, v2) else (swap v0, swap v1, swap v2))"

definition vld3_lane where
  "vld3_lane le bi m p0 p1 p2 =
     (case p1 of (s0, s1, s2) \<Rightarrow>
        if le then bi m p0 s0 s1 s2 p2
        else
          let r0 = swap s0; r1 = swap s1; r2 = swap s2
          in case bi m p0 r0 r1 r2 p2 of (v0, v1, v2) \<Rightarrow> (swap v0, swap v1, swap v2))"

definition vst3 where
  "vst3 le bi m p0 p1 =
     (case p1 of (s0, s1, s2) \<Rightarrow>
        if le then bi m p0 s0 s1 s2
        else let r0 = swap s0; r1 = swap s1; r2 = swap s2 in bi m p0 r0 r1 r2)"

definition vst3_lane where
  "vst3_lane le bi m p0 p1 p2 =
     (case p1 of (s0, s1, s2) \<Rightarrow>
        if le then bi m p0 s0 s1 s2 p2
        else let r0 = swap s0; r1 = swap s1; r2 = swap s2 in bi m p0 r0 r1 r2 p2)"

definition vld3q where
  "vld3q le bi m p0 =
     (case bi m p0 of (v0, v1, v2) \<Rightarrow> if le then (v0, v1, v2) else (swap v0, swap v1, swap v2))"

definition vld3q_dup where
  "vld3q_dup le bi m p0 =
     (case bi m p0 of (v0, v1, v2) \<Rightarrow> if le then (v0, v1, v2) else (swap v0, swap v1, swap v2))"

definition vld3q_lane where
  "vld3q_lane le bi m p0 p1 p2 =
     (case p1 of (s0, s1, s2) \<Rightarrow>
        if le then bi m p0 s0 s1 s2 p2
        else
          let r0 = swap s0; r1 = swap s1; r2 = swap s2
          in case bi m p0 r0 r1 r2 p2 of (v0, v1, v2) \<Rightarrow> (swap v0, swap v1, swap v2))"

definition vst3q where
  "vst3q le bi m p0 p1 =
     (case p1 of (s0, s1, s2) \<Rightarrow>
        if le then bi m p0 s0 s1 s2
        else let r0 = swap s0; r1 = swap s1; r2 = swap s2 in bi m p0 r0 r1 r2)"

definition vst3q_lane where
  "vst3q_lane le bi m p0 p1 p2 =
     (case p1 of (s0, s1, s2) \<Rightarrow>
        if le then bi m p0 s0 s1 s2 p2
        else let r0 = swap s0; r1 = swap s1; r2 = swap s2 in bi m p0 r0 r1 r2 p2)"

definition vld4 where
  "vld4 le bi m p0 =
     (case bi m p0 of (v0, v1, v2, v3) \<Rightarrow> if le then (v0, v1, v2, v3) else (swap v0, swap v1, swap v2, swap v3))"

definition vld4_dup where
  "vld4_dup le bi m p0 =
     (case bi m p0 of (v0, v1, v2, v3) \<Rightarrow> if le then (v0, v1, v2, v3) else (swap v0, swap v1, swap v2, swap v3))"

definition vld4_lane where
  "vld4_lane le bi m p0 p1 p2 =
     (case p1 of (s0, s1, s2, s3) \<Rightarrow>
        if le then bi m p0 s0 s1 s2 s3 p2
        else
          let r0 = swap s0; r1 = swap s1; r2 = swap s2; r3 = swap s3
          in case bi m p0 r0 r1 r2 r3 p2 of (v0, v1, v2, v3) \<Rightarrow> (swap v0, swap v1, swap v2, swap v3))"

definition vst4 where
  "vst4 le bi m p0 p1 =
     (case p1 of (s0, s1, s2, s3) \<Rightarrow>
        if le then bi m p0 s0 s1 s2 s3
        else let r0 = swap s0; r1 = swap s1; r2 = swap s2; r3 = swap s3 in bi m p0 r0 r1 r2 r3)"

definition vst4_lane where
  "vst4_lane le bi m p0 p1 p2 =
     (case p1 of (s0, s1, s2, s3) \<Rightarrow>
        if le then bi m p0 s0 s1 s2 s3 p2
        else let r0 = swap s0; r1 = swap s1; r2 = swap s2; r3 = swap s3 in bi m p0 r0 r1 r2 r3 p2)"

definition vld4q where
  "vld4q le bi m p0 =
     (case bi m p0 of (v0, v1, v2, v3) \<Rightarrow> if le then (v0, v1, v2, v3) else (swap v0, swap v1, swap v2, swap v3))"

definition vld4q_dup where
  "vld4q_dup le bi m p0 =
     (case bi m p0 of (v0, v1, v2, v3) \<Rightarrow> if le then (v0, v1, v2, v3) else (swap v0, swap v1, swap v2, swap v3))"

definition vld4q_lane where
  "vld4q_lane le bi m p0 p1 p2 =
     (case p1 of (s0, s1, s2, s3) \<Rightarrow>
        if le then bi m p0 s0 s1 s2 s3 p2
        else
          let r0 = swap s0; r1 = swap s1; r2 = swap s2; r3 = swap s3
          in case bi m p0 r0 r1 r2 r3 p2 of (v0, v1, v2, v3) \<Rightarrow> (swap v0, swap v1, swap v2, swap v3))"

definition vst4q where
  "vst4q le bi m p0 p1 =
     (case p1 of (s0, s1, s2, s3) \<Rightarrow>
        if le then bi m p0 s0 s1 s2 s3
        else let r0 = swap s0; r1 = swap s1; r2 = swap s2; r3 = swap s3 in bi m p0 r0 r1 r2 r3)"

definition vst4q_lane where
  "vst4q_lane le bi m p0 p1 p2 =
     (case p1 of (s0, s1, s2, s3) \<Rightarrow>
        if le then bi m p0 s0 s1 s2 s3 p2
        else let r0 = swap s0; r1 = swap s1; r2 = swap s2; r3 = swap s3 in bi m p0 r0 r1 r2 r3 p2)"

definition vld1_x2 where
  "vld1_x2 le bi m p0 =
     (case bi m p0 of (v0, v1) \<Rightarrow> if le then (v0, v1) else (swap v0, swap v1))"

definition vst1_x2 where
  "vst1_x2 le bi m p0 p1 =
     (case p1 of (s0, s1) \<Rightarrow>
        if le then bi m p0 s0 s1
        else let r0 = swap s0; r1 = swap s1 in bi m p0 r0 r1)"

definition vld1q_x2 where
  "vld1q_x2 le bi m p0 =
     (case bi m p0 of (v0, v1) \<Rightarrow> if le then (v0, v1) else (swap v0, swap v1))"

definition vst1q_x2 where
  "vst1q_x2 le bi m p0 p1 =
     (case p1 of (s0, s1) \<Rightarrow>
        if le then bi m p0 s0 s1
        else let r0 = swap s0; r1 = swap s1 in bi m p0 r0 r1)"

definition vld1_x3 where
  "vld1_x3 le bi m p0 =
     (case bi m p0 of (v0, v1, v2) \<Rightarrow> if le then (v0, v1, v2) else (swap v0, swap v1, swap v2))"

definition vst1_x3 where
  "vst1_x3 le bi m p0 p1 =
     (case p1 of (s0, s1, s2) \<Rightarrow>
        if le then bi m p0 s0 s1 s2
        else let r0 = swap s0; r1 = swap s1; r2 = swap s2 in bi m p0 r0 r1 r2)"

definition vld1q_x3 where
  "vld1q_x3 le bi m p0 =
     (case bi m p0 of (v0, v1, v2) \<Rightarrow> if le then (v0, v1, v2) else (swap v0, swap v1, swap v2))"

definition vst1q_x3 where
  "vst1q_x3 le bi m p0 p1 =
     (case p1 of (s0, s1, s2) \<Rightarrow>
        if le then bi m p0 s0 s1 s2
        else let r0 = swap s0; r1 = swap s1; r2 = swap s2 in bi m p0 r0 r1 r2)"

definition vld1_x4 where
  "vld1_x4 le bi m p0 =
     (case bi m p0 of (v0, v1, v2, v3) \<Rightarrow> if le then (v0, v1, v2, v3) else (swap v0, swap v1, swap v2, swap v3))"

definition vst1_x4 where
  "vst1_x4 le bi m p0 p1 =
     (case p1 of (s0, s1, s2, s3) \<Rightarrow>
        if le then bi m p0 s0 s1 s2 s3
        else let r0 = swap s0; r1 = swap s1; r2 = swap s2; r3 = swap s3 in bi m p0 r0 r1 r2 r3)"

definition vld1q_x4 where
  "vld1q_x4 le bi m p0 =
     (case bi m p0 of (v0, v1, v2, v3) \<Rightarrow> if le then (v0, v1, v2, v3) else (swap v0, swap v1, swap v2, swap v3))"

definition vst1q_x4 where
  "vst1q_x4 le bi m p0 p1 =
     (case p1 of (s0, s1, s2, s3) \<Rightarrow>
        if le then bi m p0 s0 s1 s2 s3
        else let r0 = swap s0; r1 = swap s1; r2 = swap s2; r3 = swap s3 in bi m p0 r0 r1 r2 r3)"

lemmas memory_defs =
  vld1_def vld1_dup_def vld1_lane_def vst1_def vst1_lane_def vld1q_def vld1q_dup_def vld1q_lane_def vst1q_def
  vst1q_lane_def vld2_def vld2_dup_def vld2_lane_def vst2_def vst2_lane_def vld2q_def vld2q_dup_def
  vld2q_lane_def vst2q_def vst2q_lane_def vld3_def vld3_dup_def vld3_lane_def vst3_def vst3_lane_def
  vld3q_def vld3q_dup_def vld3q_lane_def vst3q_def vst3q_lane_def vld4_def vld4_dup_def vld4_lane_def
  vst4_def vst4_lane_def vld4q_def vld4q_dup_def vld4q_lane_def vst4q_def vst4q_lane_def vld1_x2_def
  vst1_x2_def vld1q_x2_def vst1q_x2_def vld1_x3_def vst1_x3_def vld1q_x3_def vst1q_x3_def vld1_x4_def
  vst1_x4_def vld1q_x4_def vst1q_x4_def

section \<open>The registers\<close>

fun regs2 :: "bool \<Rightarrow> 'a list \<times> 'a list \<Rightarrow> 'a list \<times> 'a list" where
  "regs2 le (a, b) = (vreg le a, vreg le b)"

fun regs3 :: "bool \<Rightarrow> 'a list \<times> 'a list \<times> 'a list \<Rightarrow> 'a list \<times> 'a list \<times> 'a list" where
  "regs3 le (a, b, c) = (vreg le a, vreg le b, vreg le c)"

fun regs4 :: "bool \<Rightarrow> 'a list \<times> 'a list \<times> 'a list \<times> 'a list \<Rightarrow> 'a list \<times> 'a list \<times> 'a list \<times> 'a list" where
  "regs4 le (a, b, c, d) = (vreg le a, vreg le b, vreg le c, vreg le d)"

lemma regs_True [simp]: "regs2 True u = u" "regs3 True v = v" "regs4 True w = w"
  by (cases u; cases v; cases w; simp)+

text \<open>
  On either byte order every load returns the vectors whose registers the builtin loaded, every
  store hands the builtin the registers of the vectors, and the lane forms do both, with the lane
  number, the memory and the address as given.
\<close>

lemma memory_routines:
  "vreg le (vld1 le bl1 m p) = bl1 m p
    \<and> vreg le (vld1_dup le bl1 m p) = bl1 m p
    \<and> vreg le (vld1_lane le bl1l m p a0 i) = bl1l m p (vreg le a0) i
    \<and> vst1 le bs1 m p a0 = bs1 m p (vreg le a0)
    \<and> vst1_lane le bs1l m p a0 i = bs1l m p (vreg le a0) i
    \<and> vreg le (vld1q le bl1 m p) = bl1 m p
    \<and> vreg le (vld1q_dup le bl1 m p) = bl1 m p
    \<and> vreg le (vld1q_lane le bl1l m p a0 i) = bl1l m p (vreg le a0) i
    \<and> vst1q le bs1 m p a0 = bs1 m p (vreg le a0)
    \<and> vst1q_lane le bs1l m p a0 i = bs1l m p (vreg le a0) i
    \<and> regs2 le (vld2 le bl2 m p) = bl2 m p
    \<and> regs2 le (vld2_dup le bl2 m p) = bl2 m p
    \<and> regs2 le (vld2_lane le bl2l m p (a0, a1) i) = bl2l m p (vreg le a0) (vreg le a1) i
    \<and> vst2 le bs2 m p (a0, a1) = bs2 m p (vreg le a0) (vreg le a1)
    \<and> vst2_lane le bs2l m p (a0, a1) i = bs2l m p (vreg le a0) (vreg le a1) i
    \<and> regs2 le (vld2q le bl2 m p) = bl2 m p
    \<and> regs2 le (vld2q_dup le bl2 m p) = bl2 m p
    \<and> regs2 le (vld2q_lane le bl2l m p (a0, a1) i) = bl2l m p (vreg le a0) (vreg le a1) i
    \<and> vst2q le bs2 m p (a0, a1) = bs2 m p (vreg le a0) (vreg le a1)
    \<and> vst2q_lane le bs2l m p (a0, a1) i = bs2l m p (vreg le a0) (vreg le a1) i
    \<and> regs3 le (vld3 le bl3 m p) = bl3 m p
    \<and> regs3 le (vld3_dup le bl3 m p) = bl3 m p
    \<and> regs3 le (vld3_lane le bl3l m p (a0, a1, a2) i) = bl3l m p (vreg le a0) (vreg le a1) (vreg le a2) i
    \<and> vst3 le bs3 m p (a0, a1, a2) = bs3 m p (vreg le a0) (vreg le a1) (vreg le a2)
    \<and> vst3_lane le bs3l m p (a0, a1, a2) i = bs3l m p (vreg le a0) (vreg le a1) (vreg le a2) i
    \<and> regs3 le (vld3q le bl3 m p) = bl3 m p
    \<and> regs3 le (vld3q_dup le bl3 m p) = bl3 m p
    \<and> regs3 le (vld3q_lane le bl3l m p (a0, a1, a2) i) = bl3l m p (vreg le a0) (vreg le a1) (vreg le a2) i
    \<and> vst3q le bs3 m p (a0, a1, a2) = bs3 m p (vreg le a0) (vreg le a1) (vreg le a2)
    \<and> vst3q_lane le bs3l m p (a0, a1, a2) i = bs3l m p (vreg le a0) (vreg le a1) (vreg le a2) i
    \<and> regs4 le (vld4 le bl4 m p) = bl4 m p
    \<and> regs4 le (vld4_dup le bl4 m p) = bl4 m p
    \<and> regs4 le (vld4_lane le bl4l m p (a0, a1, a2, a3) i) = bl4l m p (vreg le a0) (vreg le a1) (vreg le a2) (vreg le a3) i
    \<and> vst4 le bs4 m p (a0, a1, a2, a3) = bs4 m p (vreg le a0) (vreg le a1) (vreg le a2) (vreg le a3)
    \<and> vst4_lane le bs4l m p (a0, a1, a2, a3) i = bs4l m p (vreg le a0) (vreg le a1) (vreg le a2) (vreg le a3) i
    \<and> regs4 le (vld4q le bl4 m p) = bl4 m p
    \<and> regs4 le (vld4q_dup le bl4 m p) = bl4 m p
    \<and> regs4 le (vld4q_lane le bl4l m p (a0, a1, a2, a3) i) = bl4l m p (vreg le a0) (vreg le a1) (vreg le a2) (vreg le a3) i
    \<and> vst4q le bs4 m p (a0, a1, a2, a3) = bs4 m p (vreg le a0) (vreg le a1) (vreg le a2) (vreg le a3)
    \<and> vst4q_lane le bs4l m p (a0, a1, a2, a3) i = bs4l m p (vreg le a0) (vreg le a1) (vreg le a2) (vreg le a3) i
    \<and> regs2 le (vld1_x2 le bl2 m p) = bl2 m p
    \<and> vst1_x2 le bs2 m p (a0, a1) = bs2 m p (vreg le a0) (vreg le a1)
    \<and> regs2 le (vld1q_x2 le bl2 m p) = bl2 m p
    \<and> vst1q_x2 le bs2 m p (a0, a1) = bs2 m p (vreg le a0) (vreg le a1)
    \<and> regs3 le (vld1_x3 le bl3 m p) = bl3 m p
    \<and> vst1_x3 le bs3 m p (a0, a1, a2) = bs3 m p (vreg le a0) (vreg le a1) (vreg le a2)
    \<and> regs3 le (vld1q_x3 le bl3 m p) = bl3 m p
    \<and> vst1q_x3 le bs3 m p (a0, a1, a2) = bs3 m p (vreg le a0) (vreg le a1) (vreg le a2)
    \<and> regs4 le (vld1_x4 le bl4 m p) = bl4 m p
    \<and> vst1_x4 le bs4 m p (a0, a1, a2, a3) = bs4 m p (vreg le a0) (vreg le a1) (vreg le a2) (vreg le a3)
    \<and> regs4 le (vld1q_x4 le bl4 m p) = bl4 m p
    \<and> vst1q_x4 le bs4 m p (a0, a1, a2, a3) = bs4 m p (vreg le a0) (vreg le a1) (vreg le a2) (vreg le a3)"
  by (cases le; intro conjI; simp add: memory_defs split: prod.split)

section \<open>The memory\<close>

text \<open>
  What the builtins document, over a memory of elements: the structured forms interleave the
  registers (element \<open>k * i + j\<close> is lane \<open>i\<close> of register \<open>j\<close> of \<open>k\<close>).
\<close>

definition gather :: "nat \<Rightarrow> nat \<Rightarrow> (nat \<Rightarrow> 'a) \<Rightarrow> nat \<Rightarrow> nat \<Rightarrow> 'a list" where
  "gather k n m p j = map (\<lambda>i. m (p + k * i + j)) [0..<n]"

definition scatter :: "nat \<Rightarrow> (nat \<Rightarrow> 'a) \<Rightarrow> nat \<Rightarrow> 'a list list \<Rightarrow> nat \<Rightarrow> 'a" where
  "scatter k m p rs q =
     (if p \<le> q \<and> q < p + k * length (rs ! 0) then rs ! ((q - p) mod k) ! ((q - p) div k) else m q)"

lemma scatter_lane:
  assumes "j < k" "i < length (rs ! 0)"
  shows "scatter k m p rs (p + k * i + j) = rs ! j ! i"
proof -
  have "k * i + j < k * length (rs ! 0)"
    using assms by (metis mult_less_mono2 [of "Suc i"] add.commute less_le_trans mult_Suc_right nat_add_left_cancel_less Suc_leI mult_le_mono2)
  then show ?thesis using assms by (simp add: scatter_def add.assoc)
qed

lemma gather_scatter:
  assumes "j < k" "length (rs ! 0) = n" "length (rs ! j) = n"
  shows "gather k n (scatter k m p rs) p j = rs ! j"
  using assms by (intro nth_equalityI) (simp_all add: gather_def scatter_lane)

lemma gather_scatter_row:
  assumes "off + n \<le> length xs"
  shows "gather (Suc 0) n (scatter (Suc 0) m p [xs]) (p + off) 0 = take n (drop off xs)"
  using assms by (intro nth_equalityI) (simp_all add: gather_def scatter_def)

lemma vreg_vreg [simp]: "vreg le (vreg le v) = v"
  by (cases le) simp_all

text \<open>
  C36. Loads and stores of one vector, of structures of two, three and four interleaved vectors and of two,
  three or four vectors one after the other, 64 and 128 bits wide, given what the builtins document.
  A store leaves the same memory on both byte orders for the same registers (those of a vector are
  \<open>vreg le\<close> of it): element \<open>k * i + j\<close> of the structure is lane \<open>i\<close> of register \<open>j\<close>.  A load returns the
  vectors whose registers hold the elements read from there, again the same on both byte orders.  So
  a load or a store that leaves out one of its reversals is wrong by itself, also where the other
  one makes the same mistake; and loading back what was stored gives the vectors.
\<close>

theorem memory_round_trips:
  assumes "\<And>m p. ld1 m p = gather 1 n m p 0"
    and "\<And>m p. ld2 m p = (gather 2 n m p 0, gather 2 n m p 1)"
    and "\<And>m p. ld3 m p = (gather 3 n m p 0, gather 3 n m p 1, gather 3 n m p 2)"
    and "\<And>m p. ld4 m p = (gather 4 n m p 0, gather 4 n m p 1, gather 4 n m p 2, gather 4 n m p 3)"
    and "\<And>m p. ldx2 m p = (gather 1 n m p 0, gather 1 n m (p + n) 0)"
    and "\<And>m p. ldx3 m p = (gather 1 n m p 0, gather 1 n m (p + n) 0, gather 1 n m (p + 2 * n) 0)"
    and "\<And>m p. ldx4 m p =
      (gather 1 n m p 0, gather 1 n m (p + n) 0, gather 1 n m (p + 2 * n) 0, gather 1 n m (p + 3 * n) 0)"
    and "\<And>m p a. st1 m p a = scatter 1 m p [a]"
    and "\<And>m p a b. st2 m p a b = scatter 2 m p [a, b]"
    and "\<And>m p a b c. st3 m p a b c = scatter 3 m p [a, b, c]"
    and "\<And>m p a b c d. st4 m p a b c d = scatter 4 m p [a, b, c, d]"
    and "\<And>m p a b. stx2 m p a b = scatter 1 m p [a @ b]"
    and "\<And>m p a b c. stx3 m p a b c = scatter 1 m p [a @ b @ c]"
    and "\<And>m p a b c d. stx4 m p a b c d = scatter 1 m p [a @ b @ c @ d]"
    and "length a = n" "length b = n" "length c = n" "length d = n"
  shows "vst1 le st1 m p (vreg le a) = scatter 1 m p [a]
    \<and> vst1q le st1 m p (vreg le a) = scatter 1 m p [a]
    \<and> vst2 le st2 m p (vreg le a, vreg le b) = scatter 2 m p [a, b]
    \<and> vst2q le st2 m p (vreg le a, vreg le b) = scatter 2 m p [a, b]
    \<and> vst3 le st3 m p (vreg le a, vreg le b, vreg le c) = scatter 3 m p [a, b, c]
    \<and> vst3q le st3 m p (vreg le a, vreg le b, vreg le c) = scatter 3 m p [a, b, c]
    \<and> vst4 le st4 m p (vreg le a, vreg le b, vreg le c, vreg le d) = scatter 4 m p [a, b, c, d]
    \<and> vst4q le st4 m p (vreg le a, vreg le b, vreg le c, vreg le d) = scatter 4 m p [a, b, c, d]
    \<and> vst1_x2 le stx2 m p (vreg le a, vreg le b) = scatter 1 m p [a @ b]
    \<and> vst1q_x2 le stx2 m p (vreg le a, vreg le b) = scatter 1 m p [a @ b]
    \<and> vst1_x3 le stx3 m p (vreg le a, vreg le b, vreg le c) = scatter 1 m p [a @ b @ c]
    \<and> vst1q_x3 le stx3 m p (vreg le a, vreg le b, vreg le c) = scatter 1 m p [a @ b @ c]
    \<and> vst1_x4 le stx4 m p (vreg le a, vreg le b, vreg le c, vreg le d) = scatter 1 m p [a @ b @ c @ d]
    \<and> vst1q_x4 le stx4 m p (vreg le a, vreg le b, vreg le c, vreg le d) = scatter 1 m p [a @ b @ c @ d]
    \<and> vreg le (vld1 le ld1 m p) = gather 1 n m p 0
    \<and> vreg le (vld1q le ld1 m p) = gather 1 n m p 0
    \<and> regs2 le (vld2 le ld2 m p) = (gather 2 n m p 0, gather 2 n m p 1)
    \<and> regs2 le (vld2q le ld2 m p) = (gather 2 n m p 0, gather 2 n m p 1)
    \<and> regs3 le (vld3 le ld3 m p) = (gather 3 n m p 0, gather 3 n m p 1, gather 3 n m p 2)
    \<and> regs3 le (vld3q le ld3 m p) = (gather 3 n m p 0, gather 3 n m p 1, gather 3 n m p 2)
    \<and> regs4 le (vld4 le ld4 m p) = (gather 4 n m p 0, gather 4 n m p 1, gather 4 n m p 2, gather 4 n m p 3)
    \<and> regs4 le (vld4q le ld4 m p) = (gather 4 n m p 0, gather 4 n m p 1, gather 4 n m p 2, gather 4 n m p 3)
    \<and> regs2 le (vld1_x2 le ldx2 m p) = (gather 1 n m p 0, gather 1 n m (p + n) 0)
    \<and> regs2 le (vld1q_x2 le ldx2 m p) = (gather 1 n m p 0, gather 1 n m (p + n) 0)
    \<and> regs3 le (vld1_x3 le ldx3 m p) = (gather 1 n m p 0, gather 1 n m (p + n) 0, gather 1 n m (p + 2 * n) 0)
    \<and> regs3 le (vld1q_x3 le ldx3 m p) = (gather 1 n m p 0, gather 1 n m (p + n) 0, gather 1 n m (p + 2 * n) 0)
    \<and> regs4 le (vld1_x4 le ldx4 m p) = (gather 1 n m p 0, gather 1 n m (p + n) 0, gather 1 n m (p + 2 * n) 0, gather 1 n m (p + 3 * n) 0)
    \<and> regs4 le (vld1q_x4 le ldx4 m p) = (gather 1 n m p 0, gather 1 n m (p + n) 0, gather 1 n m (p + 2 * n) 0, gather 1 n m (p + 3 * n) 0)
    \<and> vld1 le ld1 (vst1 le st1 m p a) p = a
    \<and> vld1q le ld1 (vst1q le st1 m p a) p = a
    \<and> vld2 le ld2 (vst2 le st2 m p (a, b)) p = (a, b)
    \<and> vld2q le ld2 (vst2q le st2 m p (a, b)) p = (a, b)
    \<and> vld3 le ld3 (vst3 le st3 m p (a, b, c)) p = (a, b, c)
    \<and> vld3q le ld3 (vst3q le st3 m p (a, b, c)) p = (a, b, c)
    \<and> vld4 le ld4 (vst4 le st4 m p (a, b, c, d)) p = (a, b, c, d)
    \<and> vld4q le ld4 (vst4q le st4 m p (a, b, c, d)) p = (a, b, c, d)
    \<and> vld1_x2 le ldx2 (vst1_x2 le stx2 m p (a, b)) p = (a, b)
    \<and> vld1q_x2 le ldx2 (vst1q_x2 le stx2 m p (a, b)) p = (a, b)
    \<and> vld1_x3 le ldx3 (vst1_x3 le stx3 m p (a, b, c)) p = (a, b, c)
    \<and> vld1q_x3 le ldx3 (vst1q_x3 le stx3 m p (a, b, c)) p = (a, b, c)
    \<and> vld1_x4 le ldx4 (vst1_x4 le stx4 m p (a, b, c, d)) p = (a, b, c, d)
    \<and> vld1q_x4 le ldx4 (vst1q_x4 le stx4 m p (a, b, c, d)) p = (a, b, c, d)"
proof -
  note row = gather_scatter_row [where off = 0, simplified] gather_scatter_row
  show ?thesis
    by (cases le; intro conjI) (simp_all add: memory_defs assms gather_scatter row)
qed

theorem memory_round_trips_witness:
  "vld2 False (\<lambda>m p. (gather 2 2 m p 0, gather 2 2 m p 1))
     (vst2 False (\<lambda>m p a b. scatter 2 m p [a, b]) (\<lambda>_. 0) 8 ([1, 2], [3, 4 :: nat])) 8 = ([1, 2], [3, 4])
   \<and> vst2 False (\<lambda>m p a b. scatter 2 m p [a, b]) (\<lambda>_. 0) 8 (vreg False [1, 2], vreg False [3, 4 :: nat]) =
       scatter 2 (\<lambda>_. 0) 8 [[1, 2], [3, 4]]"
  using memory_round_trips
    [of "\<lambda>m p. gather 1 2 m p 0" 2 "\<lambda>m p. (gather 2 2 m p 0, gather 2 2 m p 1)"
      "\<lambda>m p. (gather 3 2 m p 0, gather 3 2 m p 1, gather 3 2 m p 2)"
      "\<lambda>m p. (gather 4 2 m p 0, gather 4 2 m p 1, gather 4 2 m p 2, gather 4 2 m p 3)"
      "\<lambda>m p. (gather 1 2 m p 0, gather 1 2 m (p + 2) 0)"
      "\<lambda>m p. (gather 1 2 m p 0, gather 1 2 m (p + 2) 0, gather 1 2 m (p + 2 * 2) 0)"
      "\<lambda>m p. (gather 1 2 m p 0, gather 1 2 m (p + 2) 0, gather 1 2 m (p + 2 * 2) 0, gather 1 2 m (p + 3 * 2) 0)"
      "\<lambda>m p a. scatter 1 m p [a]" "\<lambda>m p a b. scatter 2 m p [a, b]"
      "\<lambda>m p a b c. scatter 3 m p [a, b, c]" "\<lambda>m p a b c d. scatter 4 m p [a, b, c, d]"
      "\<lambda>m p a b. scatter 1 m p [a @ b]" "\<lambda>m p a b c. scatter 1 m p [a @ b @ c]"
      "\<lambda>m p a b c d. scatter 1 m p [a @ b @ c @ d]"
      "[1, 2 :: nat]" "[3, 4]" "[5, 6]" "[7, 8]" False "\<lambda>_. 0" 8]
  by simp

end
