(* ===== verification/Vector_Bytes.thy ===== *)
theory Vector_Bytes
  imports Reko_Prelude
begin

text \<open>
  Vectors in memory.  C casts between vector types keep the bytes of the vector, where the elements
  follow each other in the order of subscripts, each in the byte order of the target (\<open>le\<close>).  A
  polynomial or floating element is its bit pattern.
\<close>

section \<open>Vectors as bytes\<close>

definition elem_bytes :: "bool \<Rightarrow> 'a::len word \<Rightarrow> 8 word list" where
  "elem_bytes le w =
     (let bs = map (\<lambda>k. ucast (drop_bit (8 * k) w)) [0..<LENGTH('a) div 8] in if le then bs else rev bs)"

definition vec_bytes :: "bool \<Rightarrow> 'a::len word list \<Rightarrow> 8 word list" where
  "vec_bytes le v = concat (map (elem_bytes le) v)"

definition elem_of :: "bool \<Rightarrow> 8 word list \<Rightarrow> 'a::len word" where
  "elem_of le bs = word_of_int (horner_sum uint 256 (if le then bs else rev bs))"

definition bytes_vec :: "bool \<Rightarrow> 8 word list \<Rightarrow> 'a::len word list" where
  "bytes_vec le bs =
     (let n = LENGTH('a) div 8 in map (\<lambda>i. elem_of le (take n (drop (i * n) bs))) [0..<length bs div n])"

definition bitcast :: "bool \<Rightarrow> 'a::len word list \<Rightarrow> 'b::len word list" where
  "bitcast le v = bytes_vec le (vec_bytes le v)"

section \<open>Casts keep the bytes\<close>

lemma horner_byte:
  "k < length bs \<Longrightarrow> take_bit 8 (drop_bit (8 * k) (horner_sum uint 256 bs)) = uint (bs ! k :: 8 word)"
proof (induction bs arbitrary: k)
  case (Cons b bs)
  have h: "horner_sum uint 256 (b # bs) = uint b + 2 ^ 8 * horner_sum uint 256 bs" by simp
  have b: "0 \<le> uint b" "uint b < 2 ^ 8" using uint_lt2p [of b] by simp_all
  show ?case
  proof (cases k)
    case 0
    then show ?thesis using b unfolding h by (simp add: take_bit_eq_mod)
  next
    case (Suc j)
    have "drop_bit (8 * k) (uint b + 2 ^ 8 * horner_sum uint 256 bs)
        = drop_bit (8 * j) ((uint b + 2 ^ 8 * horner_sum uint 256 bs) div 2 ^ 8)"
      by (simp add: Suc drop_bit_eq_div power_add zdiv_zmult2_eq)
    also have "(uint b + 2 ^ 8 * horner_sum uint 256 bs) div 2 ^ 8 = horner_sum uint 256 bs"
      using b by simp
    finally show ?thesis using Cons Suc unfolding h by simp
  qed
qed simp

lemma elem_bytes_of:
  assumes "8 dvd LENGTH('a::len)" "length bs = LENGTH('a) div 8"
  shows "elem_bytes le (elem_of le bs :: 'a word) = bs"
proof -
  have *: "map (\<lambda>k. ucast (drop_bit (8 * k) (word_of_int (horner_sum uint 256 cs) :: 'a word)) :: 8 word)
      [0..<LENGTH('a) div 8] = cs" if "length cs = LENGTH('a) div 8" for cs
  proof (rule nth_equalityI)
    fix k assume "k < length (map (\<lambda>k. ucast (drop_bit (8 * k) (word_of_int (horner_sum uint 256 cs) :: 'a word)) :: 8 word)
      [0..<LENGTH('a) div 8])"
    then have k: "k < length cs" "8 * k + 8 \<le> LENGTH('a)" using that assms(1) by auto
    have "uint (ucast (drop_bit (8 * k) (word_of_int (horner_sum uint 256 cs) :: 'a word)) :: 8 word)
        = take_bit 8 (drop_bit (8 * k) (horner_sum uint 256 cs))"
      using k(2) by (simp add: unsigned_ucast_eq unsigned_drop_bit_eq uint_word_of_int_eq drop_bit_take_bit take_bit_take_bit
        min_absorb1 le_diff_conv2)
    then show "map (\<lambda>k. ucast (drop_bit (8 * k) (word_of_int (horner_sum uint 256 cs) :: 'a word)) :: 8 word)
      [0..<LENGTH('a) div 8] ! k = cs ! k"
      using k that horner_byte [OF k(1)] by (simp add: word_uint_eq_iff)
  qed (simp add: that)
  show ?thesis using * [of bs] * [of "rev bs"] assms(2) by (simp add: elem_bytes_def elem_of_def)
qed

lemma length_elem_bytes [simp]: "length (elem_bytes le (w :: 'a::len word)) = LENGTH('a) div 8"
  by (simp add: elem_bytes_def Let_def)

lemma length_vec_bytes [simp]: "length (vec_bytes le (v :: 'a::len word list)) = length v * (LENGTH('a) div 8)"
  by (induction v) (simp_all add: vec_bytes_def)

lemma concat_chunks: "n dvd length xs \<Longrightarrow> concat (map (\<lambda>i. take n (drop (i * n) xs)) [0..<length xs div n]) = xs"
proof (induction "length xs div n" arbitrary: xs)
  case 0
  then show ?case by (cases "n = 0") (auto simp: dvd_def)
next
  case (Suc k)
  then have n: "0 < n" "n \<le> length xs" by (auto simp: dvd_def intro: Nat.gr0I)
  let ?ys = "drop n xs"
  have k: "length ?ys div n = k" "n dvd length ?ys" using Suc n by (simp_all add: le_div_geq [OF n] dvd_diff_nat)
  have "[0..<length xs div n] = 0 # map Suc [0..<k]" by (simp add: Suc(2) [symmetric] map_Suc_upt upt_conv_Cons del: upt_Suc)
  then have "concat (map (\<lambda>i. take n (drop (i * n) xs)) [0..<length xs div n])
      = take n xs @ concat (map (\<lambda>i. take n (drop (i * n) ?ys)) [0..<k])"
    by (simp add: comp_def add.commute)
  also have "\<dots> = xs" using Suc(1) [of ?ys] k by simp
  finally show ?case .
qed

lemma vec_bytes_of:
  assumes "8 dvd LENGTH('a::len)" "LENGTH('a) div 8 dvd length bs"
  shows "vec_bytes le (bytes_vec le bs :: 'a word list) = bs"
proof -
  let ?n = "LENGTH('a) div 8"
  have "map (\<lambda>i. elem_bytes le (elem_of le (take ?n (drop (i * ?n) bs)) :: 'a word)) [0..<length bs div ?n]
      = map (\<lambda>i. take ?n (drop (i * ?n) bs)) [0..<length bs div ?n]"
  proof (rule map_cong [OF refl])
    fix i assume "i \<in> set [0..<length bs div ?n]"
    then have "(i + 1) * ?n \<le> length bs div ?n * ?n" by (intro mult_right_mono) auto
    also have "\<dots> = length bs" using assms(2) by simp
    finally have "length (take ?n (drop (i * ?n) bs)) = ?n" by (simp add: algebra_simps)
    then show "elem_bytes le (elem_of le (take ?n (drop (i * ?n) bs)) :: 'a word) = take ?n (drop (i * ?n) bs)"
      by (rule elem_bytes_of [OF assms(1)])
  qed
  then have "vec_bytes le (bytes_vec le bs :: 'a word list)
      = concat (map (\<lambda>i. take ?n (drop (i * ?n) bs)) [0..<length bs div ?n])"
    unfolding vec_bytes_def bytes_vec_def Let_def map_map comp_def by (rule arg_cong)
  then show ?thesis using concat_chunks [OF assms(2)] by simp
qed

lemma elem_of_bytes:
  assumes "8 dvd LENGTH('a::len)"
  shows "elem_of le (elem_bytes le (w :: 'a word)) = w"
proof -
  let ?bs = "map (\<lambda>k. ucast (drop_bit (8 * k) w) :: 8 word) [0..<LENGTH('a) div 8]"
  have "(word_of_int (horner_sum uint 256 ?bs) :: 'a word) = w"
  proof (rule bit_word_eqI)
    fix n assume n: "n < LENGTH('a)"
    let ?k = "n div 8" and ?j = "n mod 8"
    have k: "?k < length ?bs" using n assms by (auto simp: dvd_def)
    have nk: "n = 8 * ?k + ?j" by simp
    have "bit (horner_sum uint 256 ?bs) n = bit (take_bit 8 (drop_bit (8 * ?k) (horner_sum uint 256 ?bs))) ?j"
      by (simp add: bit_take_bit_iff bit_drop_bit_eq)
    also have "\<dots> = bit (uint (?bs ! ?k)) ?j" unfolding horner_byte [OF k] ..
    also have "\<dots> = bit w n"
      using k n by (simp add: bit_uint_iff bit_ucast_iff bit_drop_bit_eq)
    finally show "bit (word_of_int (horner_sum uint 256 ?bs) :: 'a word) n = bit w n"
      using n by (simp add: bit_word_of_int_iff)
  qed
  then show ?thesis by (simp add: elem_of_def elem_bytes_def Let_def)
qed

lemma take_drop_concat:
  "\<lbrakk>\<forall>xs \<in> set xss. length xs = n; i < length xss\<rbrakk> \<Longrightarrow> take n (drop (i * n) (concat xss)) = xss ! i"
proof (induction xss arbitrary: i)
  case (Cons xs xss)
  then show ?case by (cases i) simp_all
qed simp

lemma bytes_vec_of:
  assumes "8 dvd LENGTH('a::len)"
  shows "bytes_vec le (vec_bytes le (v :: 'a word list)) = v"
proof -
  let ?n = "LENGTH('a) div 8"
  have n: "0 < ?n" using assms by (auto simp: dvd_def intro: Nat.gr0I)
  show ?thesis
  proof (rule nth_equalityI)
    show len: "length (bytes_vec le (vec_bytes le v) :: 'a word list) = length v"
      using n by (simp add: bytes_vec_def Let_def)
    fix i assume "i < length (bytes_vec le (vec_bytes le v) :: 'a word list)"
    then have i: "i < length v" by (simp only: len)
    have "take ?n (drop (i * ?n) (vec_bytes le v)) = elem_bytes le (v ! i)"
      using take_drop_concat [of "map (elem_bytes le) v" ?n i] i by (simp add: vec_bytes_def)
    then show "(bytes_vec le (vec_bytes le v) :: 'a word list) ! i = v ! i"
      using i n elem_of_bytes [OF assms] by (simp add: bytes_vec_def Let_def)
  qed
qed

lemma bitcast_bytes:
  assumes "8 dvd LENGTH('b::len)" "LENGTH('b) div 8 dvd length (v :: 'a::len word list) * (LENGTH('a) div 8)"
  shows "vec_bytes le (bitcast le v :: 'b word list) = vec_bytes le v"
  unfolding bitcast_def using assms by (intro vec_bytes_of) simp_all

lemma bitcast_back:
  assumes "8 dvd LENGTH('a::len)" "8 dvd LENGTH('b::len)"
    "LENGTH('b) div 8 dvd length (v :: 'a word list) * (LENGTH('a) div 8)"
  shows "bitcast le (bitcast le v :: 'b word list) = v"
  using bitcast_bytes [OF assms(2,3)] bytes_vec_of [OF assms(1)] by (simp add: bitcast_def)

end
