(* ===== verification/Neon_Cast.thy ===== *)
theory Neon_Cast
  imports Vector_Bytes
begin

text \<open>
  The reinterpreting casts \<open>vreinterpret_\<close> of \<open>arm_neon.h\<close>, one definition for all source types of a
  destination type.  A 128-bit polynomial is a vector of one element.
\<close>

section \<open>The casts\<close>

definition vreinterpret_p8 :: "bool \<Rightarrow> 'a::len word list \<Rightarrow> 8 word list" where
  "vreinterpret_p8 le p0 = bitcast le p0"

definition vreinterpret_p16 :: "bool \<Rightarrow> 'a::len word list \<Rightarrow> 16 word list" where
  "vreinterpret_p16 le p0 = bitcast le p0"

definition vreinterpretq_p8 :: "bool \<Rightarrow> 'a::len word list \<Rightarrow> 8 word list" where
  "vreinterpretq_p8 le p0 = bitcast le p0"

definition vreinterpretq_p16 :: "bool \<Rightarrow> 'a::len word list \<Rightarrow> 16 word list" where
  "vreinterpretq_p16 le p0 = bitcast le p0"

definition vreinterpretq_u8 :: "bool \<Rightarrow> 'a::len word list \<Rightarrow> 8 word list" where
  "vreinterpretq_u8 le p0 = bitcast le p0"

definition vreinterpretq_u32 :: "bool \<Rightarrow> 'a::len word list \<Rightarrow> 32 word list" where
  "vreinterpretq_u32 le p0 = bitcast le p0"

definition vreinterpretq_u64 :: "bool \<Rightarrow> 'a::len word list \<Rightarrow> 64 word list" where
  "vreinterpretq_u64 le p0 = bitcast le p0"

definition vreinterpretq_u16 :: "bool \<Rightarrow> 'a::len word list \<Rightarrow> 16 word list" where
  "vreinterpretq_u16 le p0 = bitcast le p0"

definition vreinterpretq_s8 :: "bool \<Rightarrow> 'a::len word list \<Rightarrow> 8 word list" where
  "vreinterpretq_s8 le p0 = bitcast le p0"

definition vreinterpretq_f32 :: "bool \<Rightarrow> 'a::len word list \<Rightarrow> 32 word list" where
  "vreinterpretq_f32 le p0 = bitcast le p0"

definition vreinterpretq_f16 :: "bool \<Rightarrow> 'a::len word list \<Rightarrow> 16 word list" where
  "vreinterpretq_f16 le p0 = bitcast le p0"

definition vreinterpretq_s32 :: "bool \<Rightarrow> 'a::len word list \<Rightarrow> 32 word list" where
  "vreinterpretq_s32 le p0 = bitcast le p0"

definition vreinterpretq_s64 :: "bool \<Rightarrow> 'a::len word list \<Rightarrow> 64 word list" where
  "vreinterpretq_s64 le p0 = bitcast le p0"

definition vreinterpretq_s16 :: "bool \<Rightarrow> 'a::len word list \<Rightarrow> 16 word list" where
  "vreinterpretq_s16 le p0 = bitcast le p0"

definition vreinterpret_u8 :: "bool \<Rightarrow> 'a::len word list \<Rightarrow> 8 word list" where
  "vreinterpret_u8 le p0 = bitcast le p0"

definition vreinterpret_u32 :: "bool \<Rightarrow> 'a::len word list \<Rightarrow> 32 word list" where
  "vreinterpret_u32 le p0 = bitcast le p0"

definition vreinterpret_u64 :: "bool \<Rightarrow> 'a::len word list \<Rightarrow> 64 word list" where
  "vreinterpret_u64 le p0 = bitcast le p0"

definition vreinterpret_u16 :: "bool \<Rightarrow> 'a::len word list \<Rightarrow> 16 word list" where
  "vreinterpret_u16 le p0 = bitcast le p0"

definition vreinterpret_s8 :: "bool \<Rightarrow> 'a::len word list \<Rightarrow> 8 word list" where
  "vreinterpret_s8 le p0 = bitcast le p0"

definition vreinterpret_f32 :: "bool \<Rightarrow> 'a::len word list \<Rightarrow> 32 word list" where
  "vreinterpret_f32 le p0 = bitcast le p0"

definition vreinterpret_f16 :: "bool \<Rightarrow> 'a::len word list \<Rightarrow> 16 word list" where
  "vreinterpret_f16 le p0 = bitcast le p0"

definition vreinterpret_s32 :: "bool \<Rightarrow> 'a::len word list \<Rightarrow> 32 word list" where
  "vreinterpret_s32 le p0 = bitcast le p0"

definition vreinterpret_s64 :: "bool \<Rightarrow> 'a::len word list \<Rightarrow> 64 word list" where
  "vreinterpret_s64 le p0 = bitcast le p0"

definition vreinterpret_s16 :: "bool \<Rightarrow> 'a::len word list \<Rightarrow> 16 word list" where
  "vreinterpret_s16 le p0 = bitcast le p0"

definition vreinterpret_p64 :: "bool \<Rightarrow> 'a::len word list \<Rightarrow> 64 word list" where
  "vreinterpret_p64 le p0 = bitcast le p0"

definition vreinterpretq_p128 :: "bool \<Rightarrow> 'a::len word list \<Rightarrow> 128 word list" where
  "vreinterpretq_p128 le p0 = bitcast le p0"

definition vreinterpretq_p64 :: "bool \<Rightarrow> 'a::len word list \<Rightarrow> 64 word list" where
  "vreinterpretq_p64 le p0 = bitcast le p0"

definition vreinterpretq_f64 :: "bool \<Rightarrow> 'a::len word list \<Rightarrow> 64 word list" where
  "vreinterpretq_f64 le p0 = bitcast le p0"

definition vreinterpret_f64 :: "bool \<Rightarrow> 'a::len word list \<Rightarrow> 64 word list" where
  "vreinterpret_f64 le p0 = bitcast le p0"

lemmas cast_defs =
  vreinterpret_p8_def vreinterpret_p16_def vreinterpretq_p8_def vreinterpretq_p16_def vreinterpretq_u8_def
  vreinterpretq_u32_def vreinterpretq_u64_def vreinterpretq_u16_def vreinterpretq_s8_def
  vreinterpretq_f32_def vreinterpretq_f16_def vreinterpretq_s32_def vreinterpretq_s64_def
  vreinterpretq_s16_def vreinterpret_u8_def vreinterpret_u32_def vreinterpret_u64_def vreinterpret_u16_def
  vreinterpret_s8_def vreinterpret_f32_def vreinterpret_f16_def vreinterpret_s32_def vreinterpret_s64_def
  vreinterpret_s16_def vreinterpret_p64_def vreinterpretq_p128_def vreinterpretq_p64_def
  vreinterpretq_f64_def vreinterpret_f64_def

section \<open>The bytes are kept\<close>

text \<open>
  A reinterpreting cast keeps the bytes of the vector in memory, on either byte order, for all
  destination types, 64 and 128 bits wide, and so casting to any type and back is the identity.
\<close>

lemma casts_keep_bytes:
  fixes v w :: "'a::len word list"
  assumes "8 dvd LENGTH('a)" "length v * LENGTH('a) = 64" "length w * LENGTH('a) = 128"
  shows "vec_bytes le (vreinterpret_p8 le v) = vec_bytes le v
    \<and> vec_bytes le (vreinterpret_p16 le v) = vec_bytes le v
    \<and> vec_bytes le (vreinterpret_u8 le v) = vec_bytes le v
    \<and> vec_bytes le (vreinterpret_u32 le v) = vec_bytes le v
    \<and> vec_bytes le (vreinterpret_u64 le v) = vec_bytes le v
    \<and> vec_bytes le (vreinterpret_u16 le v) = vec_bytes le v
    \<and> vec_bytes le (vreinterpret_s8 le v) = vec_bytes le v
    \<and> vec_bytes le (vreinterpret_f32 le v) = vec_bytes le v
    \<and> vec_bytes le (vreinterpret_f16 le v) = vec_bytes le v
    \<and> vec_bytes le (vreinterpret_s32 le v) = vec_bytes le v
    \<and> vec_bytes le (vreinterpret_s64 le v) = vec_bytes le v
    \<and> vec_bytes le (vreinterpret_s16 le v) = vec_bytes le v
    \<and> vec_bytes le (vreinterpret_p64 le v) = vec_bytes le v
    \<and> vec_bytes le (vreinterpret_f64 le v) = vec_bytes le v
    \<and> vec_bytes le (vreinterpretq_p8 le w) = vec_bytes le w
    \<and> vec_bytes le (vreinterpretq_p16 le w) = vec_bytes le w
    \<and> vec_bytes le (vreinterpretq_u8 le w) = vec_bytes le w
    \<and> vec_bytes le (vreinterpretq_u32 le w) = vec_bytes le w
    \<and> vec_bytes le (vreinterpretq_u64 le w) = vec_bytes le w
    \<and> vec_bytes le (vreinterpretq_u16 le w) = vec_bytes le w
    \<and> vec_bytes le (vreinterpretq_s8 le w) = vec_bytes le w
    \<and> vec_bytes le (vreinterpretq_f32 le w) = vec_bytes le w
    \<and> vec_bytes le (vreinterpretq_f16 le w) = vec_bytes le w
    \<and> vec_bytes le (vreinterpretq_s32 le w) = vec_bytes le w
    \<and> vec_bytes le (vreinterpretq_s64 le w) = vec_bytes le w
    \<and> vec_bytes le (vreinterpretq_s16 le w) = vec_bytes le w
    \<and> vec_bytes le (vreinterpretq_p128 le w) = vec_bytes le w
    \<and> vec_bytes le (vreinterpretq_p64 le w) = vec_bytes le w
    \<and> vec_bytes le (vreinterpretq_f64 le w) = vec_bytes le w
    \<and> bitcast le (vreinterpret_p8 le v) = v
    \<and> bitcast le (vreinterpret_p16 le v) = v
    \<and> bitcast le (vreinterpret_u8 le v) = v
    \<and> bitcast le (vreinterpret_u32 le v) = v
    \<and> bitcast le (vreinterpret_u64 le v) = v
    \<and> bitcast le (vreinterpret_u16 le v) = v
    \<and> bitcast le (vreinterpret_s8 le v) = v
    \<and> bitcast le (vreinterpret_f32 le v) = v
    \<and> bitcast le (vreinterpret_f16 le v) = v
    \<and> bitcast le (vreinterpret_s32 le v) = v
    \<and> bitcast le (vreinterpret_s64 le v) = v
    \<and> bitcast le (vreinterpret_s16 le v) = v
    \<and> bitcast le (vreinterpret_p64 le v) = v
    \<and> bitcast le (vreinterpret_f64 le v) = v
    \<and> bitcast le (vreinterpretq_p8 le w) = w
    \<and> bitcast le (vreinterpretq_p16 le w) = w
    \<and> bitcast le (vreinterpretq_u8 le w) = w
    \<and> bitcast le (vreinterpretq_u32 le w) = w
    \<and> bitcast le (vreinterpretq_u64 le w) = w
    \<and> bitcast le (vreinterpretq_u16 le w) = w
    \<and> bitcast le (vreinterpretq_s8 le w) = w
    \<and> bitcast le (vreinterpretq_f32 le w) = w
    \<and> bitcast le (vreinterpretq_f16 le w) = w
    \<and> bitcast le (vreinterpretq_s32 le w) = w
    \<and> bitcast le (vreinterpretq_s64 le w) = w
    \<and> bitcast le (vreinterpretq_s16 le w) = w
    \<and> bitcast le (vreinterpretq_p128 le w) = w
    \<and> bitcast le (vreinterpretq_p64 le w) = w
    \<and> bitcast le (vreinterpretq_f64 le w) = w"
proof -
  have l: "length v * (LENGTH('a) div 8) = 8" "length w * (LENGTH('a) div 8) = 16"
    using assms by (auto simp: dvd_def mult.commute)
  show ?thesis
    unfolding cast_defs using assms(1) l by (intro conjI bitcast_bytes bitcast_back) simp_all
qed

theorem casts_keep_bytes_witness:
  "vec_bytes False (vreinterpret_u32 False [1, 2, 3, 4 :: 16 word]) = vec_bytes False [1, 2, 3, 4 :: 16 word]"
  using casts_keep_bytes [of "[1, 2, 3, 4 :: 16 word]" "[1, 2, 3, 4, 5, 6, 7, 8]" False] by simp

text \<open>The byte order of the lanes differs: the same cast gives another vector on each target.\<close>

lemma cast_by_byte_order:
  "vreinterpret_u32 True [1, 2 :: 16 word] = [0x00020001]" "vreinterpret_u32 False [1, 2 :: 16 word] = [0x00010002]"
  by (simp_all add: vreinterpret_u32_def bitcast_def bytes_vec_def vec_bytes_def elem_bytes_def elem_of_def upt_rec Let_def)

end
