(* ===== verification/Neon_Wrap.thy ===== *)
theory Neon_Wrap
  imports Neon_Base
begin

text \<open>
  More routines of \<open>arm_neon.h\<close> that wrap one compiler builtin: conversions, rounding, reciprocal
  estimates, comparisons of magnitudes, cryptographic steps, dot products, fused products, maxima and
  minima, and the scalar routines that read one lane.  As in \<open>Neon_Builtin\<close>, the builtin is an
  argument; on a big-endian target vector operands and vector results are reversed around it.
\<close>

section \<open>The routines\<close>

definition vcageq where
  "vcageq le bi p0 p1 =
     (if le then bi p0 p1 else let rev0 = swap p0; rev1 = swap p1; ret = bi rev0 rev1 in swap ret)"

definition vcage where
  "vcage le bi p0 p1 =
     (if le then bi p0 p1 else let rev0 = swap p0; rev1 = swap p1; ret = bi rev0 rev1 in swap ret)"

definition vcagtq where
  "vcagtq le bi p0 p1 =
     (if le then bi p0 p1 else let rev0 = swap p0; rev1 = swap p1; ret = bi rev0 rev1 in swap ret)"

definition vcagt where
  "vcagt le bi p0 p1 =
     (if le then bi p0 p1 else let rev0 = swap p0; rev1 = swap p1; ret = bi rev0 rev1 in swap ret)"

definition vcaleq where
  "vcaleq le bi p0 p1 =
     (if le then bi p0 p1 else let rev0 = swap p0; rev1 = swap p1; ret = bi rev0 rev1 in swap ret)"

definition vcale where
  "vcale le bi p0 p1 =
     (if le then bi p0 p1 else let rev0 = swap p0; rev1 = swap p1; ret = bi rev0 rev1 in swap ret)"

definition vcaltq where
  "vcaltq le bi p0 p1 =
     (if le then bi p0 p1 else let rev0 = swap p0; rev1 = swap p1; ret = bi rev0 rev1 in swap ret)"

definition vcalt where
  "vcalt le bi p0 p1 =
     (if le then bi p0 p1 else let rev0 = swap p0; rev1 = swap p1; ret = bi rev0 rev1 in swap ret)"

definition vcnt where
  "vcnt le bi p0 =
     (if le then bi p0 else let rev0 = swap p0; ret = bi rev0 in swap ret)"

definition vcvtq_f32 where
  "vcvtq_f32 le bi p0 =
     (if le then bi p0 else let rev0 = swap p0; ret = bi rev0 in swap ret)"

definition vcvt_f32 where
  "vcvt_f32 le bi p0 =
     (if le then bi p0 else let rev0 = swap p0; ret = bi rev0 in swap ret)"

definition vcvtq_n_f32 where
  "vcvtq_n_f32 le bi p0 p1 =
     (if le then bi p0 p1 else let rev0 = swap p0; ret = bi rev0 p1 in swap ret)"

definition vcvt_n_f32 where
  "vcvt_n_f32 le bi p0 p1 =
     (if le then bi p0 p1 else let rev0 = swap p0; ret = bi rev0 p1 in swap ret)"

definition vcvtq_n_s32 where
  "vcvtq_n_s32 le bi p0 p1 =
     (if le then bi p0 p1 else let rev0 = swap p0; ret = bi rev0 p1 in swap ret)"

definition vcvt_n_s32 where
  "vcvt_n_s32 le bi p0 p1 =
     (if le then bi p0 p1 else let rev0 = swap p0; ret = bi rev0 p1 in swap ret)"

definition vcvtq_n_u32 where
  "vcvtq_n_u32 le bi p0 p1 =
     (if le then bi p0 p1 else let rev0 = swap p0; ret = bi rev0 p1 in swap ret)"

definition vcvt_n_u32 where
  "vcvt_n_u32 le bi p0 p1 =
     (if le then bi p0 p1 else let rev0 = swap p0; ret = bi rev0 p1 in swap ret)"

definition vcvtq_s32 where
  "vcvtq_s32 le bi p0 =
     (if le then bi p0 else let rev0 = swap p0; ret = bi rev0 in swap ret)"

definition vcvt_s32 where
  "vcvt_s32 le bi p0 =
     (if le then bi p0 else let rev0 = swap p0; ret = bi rev0 in swap ret)"

definition vcvtq_u32 where
  "vcvtq_u32 le bi p0 =
     (if le then bi p0 else let rev0 = swap p0; ret = bi rev0 in swap ret)"

definition vcvt_u32 where
  "vcvt_u32 le bi p0 =
     (if le then bi p0 else let rev0 = swap p0; ret = bi rev0 in swap ret)"

definition vrecpeq where
  "vrecpeq le bi p0 =
     (if le then bi p0 else let rev0 = swap p0; ret = bi rev0 in swap ret)"

definition vrecpe where
  "vrecpe le bi p0 =
     (if le then bi p0 else let rev0 = swap p0; ret = bi rev0 in swap ret)"

definition vrecpsq where
  "vrecpsq le bi p0 p1 =
     (if le then bi p0 p1 else let rev0 = swap p0; rev1 = swap p1; ret = bi rev0 rev1 in swap ret)"

definition vrecps where
  "vrecps le bi p0 p1 =
     (if le then bi p0 p1 else let rev0 = swap p0; rev1 = swap p1; ret = bi rev0 rev1 in swap ret)"

definition vrsqrteq where
  "vrsqrteq le bi p0 =
     (if le then bi p0 else let rev0 = swap p0; ret = bi rev0 in swap ret)"

definition vrsqrte where
  "vrsqrte le bi p0 =
     (if le then bi p0 else let rev0 = swap p0; ret = bi rev0 in swap ret)"

definition vrsqrtsq where
  "vrsqrtsq le bi p0 p1 =
     (if le then bi p0 p1 else let rev0 = swap p0; rev1 = swap p1; ret = bi rev0 rev1 in swap ret)"

definition vrsqrts where
  "vrsqrts le bi p0 p1 =
     (if le then bi p0 p1 else let rev0 = swap p0; rev1 = swap p1; ret = bi rev0 rev1 in swap ret)"

definition vcvt_f16 where
  "vcvt_f16 le bi p0 =
     (if le then bi p0 else let rev0 = swap p0; ret = bi rev0 in swap ret)"

definition vcvtaq_s32 where
  "vcvtaq_s32 le bi p0 =
     (if le then bi p0 else let rev0 = swap p0; ret = bi rev0 in swap ret)"

definition vcvta_s32 where
  "vcvta_s32 le bi p0 =
     (if le then bi p0 else let rev0 = swap p0; ret = bi rev0 in swap ret)"

definition vcvtaq_u32 where
  "vcvtaq_u32 le bi p0 =
     (if le then bi p0 else let rev0 = swap p0; ret = bi rev0 in swap ret)"

definition vcvta_u32 where
  "vcvta_u32 le bi p0 =
     (if le then bi p0 else let rev0 = swap p0; ret = bi rev0 in swap ret)"

definition vcvtmq_s32 where
  "vcvtmq_s32 le bi p0 =
     (if le then bi p0 else let rev0 = swap p0; ret = bi rev0 in swap ret)"

definition vcvtm_s32 where
  "vcvtm_s32 le bi p0 =
     (if le then bi p0 else let rev0 = swap p0; ret = bi rev0 in swap ret)"

definition vcvtmq_u32 where
  "vcvtmq_u32 le bi p0 =
     (if le then bi p0 else let rev0 = swap p0; ret = bi rev0 in swap ret)"

definition vcvtm_u32 where
  "vcvtm_u32 le bi p0 =
     (if le then bi p0 else let rev0 = swap p0; ret = bi rev0 in swap ret)"

definition vcvtnq_s32 where
  "vcvtnq_s32 le bi p0 =
     (if le then bi p0 else let rev0 = swap p0; ret = bi rev0 in swap ret)"

definition vcvtn_s32 where
  "vcvtn_s32 le bi p0 =
     (if le then bi p0 else let rev0 = swap p0; ret = bi rev0 in swap ret)"

definition vcvtnq_u32 where
  "vcvtnq_u32 le bi p0 =
     (if le then bi p0 else let rev0 = swap p0; ret = bi rev0 in swap ret)"

definition vcvtn_u32 where
  "vcvtn_u32 le bi p0 =
     (if le then bi p0 else let rev0 = swap p0; ret = bi rev0 in swap ret)"

definition vcvtpq_s32 where
  "vcvtpq_s32 le bi p0 =
     (if le then bi p0 else let rev0 = swap p0; ret = bi rev0 in swap ret)"

definition vcvtp_s32 where
  "vcvtp_s32 le bi p0 =
     (if le then bi p0 else let rev0 = swap p0; ret = bi rev0 in swap ret)"

definition vcvtpq_u32 where
  "vcvtpq_u32 le bi p0 =
     (if le then bi p0 else let rev0 = swap p0; ret = bi rev0 in swap ret)"

definition vcvtp_u32 where
  "vcvtp_u32 le bi p0 =
     (if le then bi p0 else let rev0 = swap p0; ret = bi rev0 in swap ret)"

definition vaesdq where
  "vaesdq le bi p0 p1 =
     (if le then bi p0 p1 else let rev0 = swap p0; rev1 = swap p1; ret = bi rev0 rev1 in swap ret)"

definition vaeseq where
  "vaeseq le bi p0 p1 =
     (if le then bi p0 p1 else let rev0 = swap p0; rev1 = swap p1; ret = bi rev0 rev1 in swap ret)"

definition vaesimcq where
  "vaesimcq le bi p0 =
     (if le then bi p0 else let rev0 = swap p0; ret = bi rev0 in swap ret)"

definition vaesmcq where
  "vaesmcq le bi p0 =
     (if le then bi p0 else let rev0 = swap p0; ret = bi rev0 in swap ret)"

definition vsha1cq where
  "vsha1cq le bi p0 p1 p2 =
     (if le then bi p0 p1 p2 else let rev0 = swap p0; rev2 = swap p2; ret = bi rev0 p1 rev2 in swap ret)"

definition vsha1mq where
  "vsha1mq le bi p0 p1 p2 =
     (if le then bi p0 p1 p2 else let rev0 = swap p0; rev2 = swap p2; ret = bi rev0 p1 rev2 in swap ret)"

definition vsha1pq where
  "vsha1pq le bi p0 p1 p2 =
     (if le then bi p0 p1 p2 else let rev0 = swap p0; rev2 = swap p2; ret = bi rev0 p1 rev2 in swap ret)"

definition vsha1su0q where
  "vsha1su0q le bi p0 p1 p2 =
     (if le then bi p0 p1 p2 else let rev0 = swap p0; rev1 = swap p1; rev2 = swap p2; ret = bi rev0 rev1 rev2 in swap ret)"

definition vsha1su1q where
  "vsha1su1q le bi p0 p1 =
     (if le then bi p0 p1 else let rev0 = swap p0; rev1 = swap p1; ret = bi rev0 rev1 in swap ret)"

definition vsha256hq where
  "vsha256hq le bi p0 p1 p2 =
     (if le then bi p0 p1 p2 else let rev0 = swap p0; rev1 = swap p1; rev2 = swap p2; ret = bi rev0 rev1 rev2 in swap ret)"

definition vsha256h2q where
  "vsha256h2q le bi p0 p1 p2 =
     (if le then bi p0 p1 p2 else let rev0 = swap p0; rev1 = swap p1; rev2 = swap p2; ret = bi rev0 rev1 rev2 in swap ret)"

definition vsha256su0q where
  "vsha256su0q le bi p0 p1 =
     (if le then bi p0 p1 else let rev0 = swap p0; rev1 = swap p1; ret = bi rev0 rev1 in swap ret)"

definition vsha256su1q where
  "vsha256su1q le bi p0 p1 p2 =
     (if le then bi p0 p1 p2 else let rev0 = swap p0; rev1 = swap p1; rev2 = swap p2; ret = bi rev0 rev1 rev2 in swap ret)"

definition vrndq where
  "vrndq le bi p0 =
     (if le then bi p0 else let rev0 = swap p0; ret = bi rev0 in swap ret)"

definition vrnd where
  "vrnd le bi p0 =
     (if le then bi p0 else let rev0 = swap p0; ret = bi rev0 in swap ret)"

definition vrndaq where
  "vrndaq le bi p0 =
     (if le then bi p0 else let rev0 = swap p0; ret = bi rev0 in swap ret)"

definition vrnda where
  "vrnda le bi p0 =
     (if le then bi p0 else let rev0 = swap p0; ret = bi rev0 in swap ret)"

definition vrndiq where
  "vrndiq le bi p0 =
     (if le then bi p0 else let rev0 = swap p0; ret = bi rev0 in swap ret)"

definition vrndi where
  "vrndi le bi p0 =
     (if le then bi p0 else let rev0 = swap p0; ret = bi rev0 in swap ret)"

definition vrndmq where
  "vrndmq le bi p0 =
     (if le then bi p0 else let rev0 = swap p0; ret = bi rev0 in swap ret)"

definition vrndm where
  "vrndm le bi p0 =
     (if le then bi p0 else let rev0 = swap p0; ret = bi rev0 in swap ret)"

definition vrndnq where
  "vrndnq le bi p0 =
     (if le then bi p0 else let rev0 = swap p0; ret = bi rev0 in swap ret)"

definition vrndn where
  "vrndn le bi p0 =
     (if le then bi p0 else let rev0 = swap p0; ret = bi rev0 in swap ret)"

definition vrndpq where
  "vrndpq le bi p0 =
     (if le then bi p0 else let rev0 = swap p0; ret = bi rev0 in swap ret)"

definition vrndp where
  "vrndp le bi p0 =
     (if le then bi p0 else let rev0 = swap p0; ret = bi rev0 in swap ret)"

definition vrndxq where
  "vrndxq le bi p0 =
     (if le then bi p0 else let rev0 = swap p0; ret = bi rev0 in swap ret)"

definition vrndx where
  "vrndx le bi p0 =
     (if le then bi p0 else let rev0 = swap p0; ret = bi rev0 in swap ret)"

definition vmaxnmq where
  "vmaxnmq le bi p0 p1 =
     (if le then bi p0 p1 else let rev0 = swap p0; rev1 = swap p1; ret = bi rev0 rev1 in swap ret)"

definition vmaxnm where
  "vmaxnm le bi p0 p1 =
     (if le then bi p0 p1 else let rev0 = swap p0; rev1 = swap p1; ret = bi rev0 rev1 in swap ret)"

definition vminnmq where
  "vminnmq le bi p0 p1 =
     (if le then bi p0 p1 else let rev0 = swap p0; rev1 = swap p1; ret = bi rev0 rev1 in swap ret)"

definition vminnm where
  "vminnm le bi p0 p1 =
     (if le then bi p0 p1 else let rev0 = swap p0; rev1 = swap p1; ret = bi rev0 rev1 in swap ret)"

definition vcvtaq_s64 where
  "vcvtaq_s64 le bi p0 =
     (if le then bi p0 else let rev0 = swap p0; ret = bi rev0 in swap ret)"

definition vcvtaq_u64 where
  "vcvtaq_u64 le bi p0 =
     (if le then bi p0 else let rev0 = swap p0; ret = bi rev0 in swap ret)"

definition vcvtmq_s64 where
  "vcvtmq_s64 le bi p0 =
     (if le then bi p0 else let rev0 = swap p0; ret = bi rev0 in swap ret)"

definition vcvtmq_u64 where
  "vcvtmq_u64 le bi p0 =
     (if le then bi p0 else let rev0 = swap p0; ret = bi rev0 in swap ret)"

definition vcvtnq_s64 where
  "vcvtnq_s64 le bi p0 =
     (if le then bi p0 else let rev0 = swap p0; ret = bi rev0 in swap ret)"

definition vcvtnq_u64 where
  "vcvtnq_u64 le bi p0 =
     (if le then bi p0 else let rev0 = swap p0; ret = bi rev0 in swap ret)"

definition vcvtpq_s64 where
  "vcvtpq_s64 le bi p0 =
     (if le then bi p0 else let rev0 = swap p0; ret = bi rev0 in swap ret)"

definition vcvtpq_u64 where
  "vcvtpq_u64 le bi p0 =
     (if le then bi p0 else let rev0 = swap p0; ret = bi rev0 in swap ret)"

definition vcadd_rot270 where
  "vcadd_rot270 le bi p0 p1 =
     (if le then bi p0 p1 else let rev0 = swap p0; rev1 = swap p1; ret = bi rev0 rev1 in swap ret)"

definition vcadd_rot90 where
  "vcadd_rot90 le bi p0 p1 =
     (if le then bi p0 p1 else let rev0 = swap p0; rev1 = swap p1; ret = bi rev0 rev1 in swap ret)"

definition vcaddq_rot270 where
  "vcaddq_rot270 le bi p0 p1 =
     (if le then bi p0 p1 else let rev0 = swap p0; rev1 = swap p1; ret = bi rev0 rev1 in swap ret)"

definition vcaddq_rot90 where
  "vcaddq_rot90 le bi p0 p1 =
     (if le then bi p0 p1 else let rev0 = swap p0; rev1 = swap p1; ret = bi rev0 rev1 in swap ret)"

definition vdotq where
  "vdotq le bi p0 p1 p2 =
     (if le then bi p0 p1 p2 else let rev0 = swap p0; rev1 = swap p1; rev2 = swap p2; ret = bi rev0 rev1 rev2 in swap ret)"

definition vdot where
  "vdot le bi p0 p1 p2 =
     (if le then bi p0 p1 p2 else let rev0 = swap p0; rev1 = swap p1; rev2 = swap p2; ret = bi rev0 rev1 rev2 in swap ret)"

definition vfmaq where
  "vfmaq le bi p0 p1 p2 =
     (if le then bi p0 p1 p2 else let rev0 = swap p0; rev1 = swap p1; rev2 = swap p2; ret = bi rev0 rev1 rev2 in swap ret)"

definition vfma where
  "vfma le bi p0 p1 p2 =
     (if le then bi p0 p1 p2 else let rev0 = swap p0; rev1 = swap p1; rev2 = swap p2; ret = bi rev0 rev1 rev2 in swap ret)"

definition vfmlalq_high where
  "vfmlalq_high le bi p0 p1 p2 =
     (if le then bi p0 p1 p2 else let rev0 = swap p0; rev1 = swap p1; rev2 = swap p2; ret = bi rev0 rev1 rev2 in swap ret)"

definition vfmlal_high where
  "vfmlal_high le bi p0 p1 p2 =
     (if le then bi p0 p1 p2 else let rev0 = swap p0; rev1 = swap p1; rev2 = swap p2; ret = bi rev0 rev1 rev2 in swap ret)"

definition vfmlalq_low where
  "vfmlalq_low le bi p0 p1 p2 =
     (if le then bi p0 p1 p2 else let rev0 = swap p0; rev1 = swap p1; rev2 = swap p2; ret = bi rev0 rev1 rev2 in swap ret)"

definition vfmlal_low where
  "vfmlal_low le bi p0 p1 p2 =
     (if le then bi p0 p1 p2 else let rev0 = swap p0; rev1 = swap p1; rev2 = swap p2; ret = bi rev0 rev1 rev2 in swap ret)"

definition vfmlslq_high where
  "vfmlslq_high le bi p0 p1 p2 =
     (if le then bi p0 p1 p2 else let rev0 = swap p0; rev1 = swap p1; rev2 = swap p2; ret = bi rev0 rev1 rev2 in swap ret)"

definition vfmlsl_high where
  "vfmlsl_high le bi p0 p1 p2 =
     (if le then bi p0 p1 p2 else let rev0 = swap p0; rev1 = swap p1; rev2 = swap p2; ret = bi rev0 rev1 rev2 in swap ret)"

definition vfmlslq_low where
  "vfmlslq_low le bi p0 p1 p2 =
     (if le then bi p0 p1 p2 else let rev0 = swap p0; rev1 = swap p1; rev2 = swap p2; ret = bi rev0 rev1 rev2 in swap ret)"

definition vfmlsl_low where
  "vfmlsl_low le bi p0 p1 p2 =
     (if le then bi p0 p1 p2 else let rev0 = swap p0; rev1 = swap p1; rev2 = swap p2; ret = bi rev0 rev1 rev2 in swap ret)"

definition vcvtq_f16 where
  "vcvtq_f16 le bi p0 =
     (if le then bi p0 else let rev0 = swap p0; ret = bi rev0 in swap ret)"

definition vcvtq_n_f16 where
  "vcvtq_n_f16 le bi p0 p1 =
     (if le then bi p0 p1 else let rev0 = swap p0; ret = bi rev0 p1 in swap ret)"

definition vcvt_n_f16 where
  "vcvt_n_f16 le bi p0 p1 =
     (if le then bi p0 p1 else let rev0 = swap p0; ret = bi rev0 p1 in swap ret)"

definition vcvtq_n_s16 where
  "vcvtq_n_s16 le bi p0 p1 =
     (if le then bi p0 p1 else let rev0 = swap p0; ret = bi rev0 p1 in swap ret)"

definition vcvt_n_s16 where
  "vcvt_n_s16 le bi p0 p1 =
     (if le then bi p0 p1 else let rev0 = swap p0; ret = bi rev0 p1 in swap ret)"

definition vcvtq_n_u16 where
  "vcvtq_n_u16 le bi p0 p1 =
     (if le then bi p0 p1 else let rev0 = swap p0; ret = bi rev0 p1 in swap ret)"

definition vcvt_n_u16 where
  "vcvt_n_u16 le bi p0 p1 =
     (if le then bi p0 p1 else let rev0 = swap p0; ret = bi rev0 p1 in swap ret)"

definition vcvtq_s16 where
  "vcvtq_s16 le bi p0 =
     (if le then bi p0 else let rev0 = swap p0; ret = bi rev0 in swap ret)"

definition vcvt_s16 where
  "vcvt_s16 le bi p0 =
     (if le then bi p0 else let rev0 = swap p0; ret = bi rev0 in swap ret)"

definition vcvtq_u16 where
  "vcvtq_u16 le bi p0 =
     (if le then bi p0 else let rev0 = swap p0; ret = bi rev0 in swap ret)"

definition vcvt_u16 where
  "vcvt_u16 le bi p0 =
     (if le then bi p0 else let rev0 = swap p0; ret = bi rev0 in swap ret)"

definition vcvtaq_s16 where
  "vcvtaq_s16 le bi p0 =
     (if le then bi p0 else let rev0 = swap p0; ret = bi rev0 in swap ret)"

definition vcvta_s16 where
  "vcvta_s16 le bi p0 =
     (if le then bi p0 else let rev0 = swap p0; ret = bi rev0 in swap ret)"

definition vcvtaq_u16 where
  "vcvtaq_u16 le bi p0 =
     (if le then bi p0 else let rev0 = swap p0; ret = bi rev0 in swap ret)"

definition vcvta_u16 where
  "vcvta_u16 le bi p0 =
     (if le then bi p0 else let rev0 = swap p0; ret = bi rev0 in swap ret)"

definition vcvtmq_s16 where
  "vcvtmq_s16 le bi p0 =
     (if le then bi p0 else let rev0 = swap p0; ret = bi rev0 in swap ret)"

definition vcvtm_s16 where
  "vcvtm_s16 le bi p0 =
     (if le then bi p0 else let rev0 = swap p0; ret = bi rev0 in swap ret)"

definition vcvtmq_u16 where
  "vcvtmq_u16 le bi p0 =
     (if le then bi p0 else let rev0 = swap p0; ret = bi rev0 in swap ret)"

definition vcvtm_u16 where
  "vcvtm_u16 le bi p0 =
     (if le then bi p0 else let rev0 = swap p0; ret = bi rev0 in swap ret)"

definition vcvtnq_s16 where
  "vcvtnq_s16 le bi p0 =
     (if le then bi p0 else let rev0 = swap p0; ret = bi rev0 in swap ret)"

definition vcvtn_s16 where
  "vcvtn_s16 le bi p0 =
     (if le then bi p0 else let rev0 = swap p0; ret = bi rev0 in swap ret)"

definition vcvtnq_u16 where
  "vcvtnq_u16 le bi p0 =
     (if le then bi p0 else let rev0 = swap p0; ret = bi rev0 in swap ret)"

definition vcvtn_u16 where
  "vcvtn_u16 le bi p0 =
     (if le then bi p0 else let rev0 = swap p0; ret = bi rev0 in swap ret)"

definition vcvtpq_s16 where
  "vcvtpq_s16 le bi p0 =
     (if le then bi p0 else let rev0 = swap p0; ret = bi rev0 in swap ret)"

definition vcvtp_s16 where
  "vcvtp_s16 le bi p0 =
     (if le then bi p0 else let rev0 = swap p0; ret = bi rev0 in swap ret)"

definition vcvtpq_u16 where
  "vcvtpq_u16 le bi p0 =
     (if le then bi p0 else let rev0 = swap p0; ret = bi rev0 in swap ret)"

definition vcvtp_u16 where
  "vcvtp_u16 le bi p0 =
     (if le then bi p0 else let rev0 = swap p0; ret = bi rev0 in swap ret)"

definition vduph_lane where
  "vduph_lane le bi p0 p1 =
     (if le then bi p0 p1 else let rev0 = swap p0 in bi rev0 p1)"

definition vduph_laneq where
  "vduph_laneq le bi p0 p1 =
     (if le then bi p0 p1 else let rev0 = swap p0 in bi rev0 p1)"

definition vfmah_lane where
  "vfmah_lane le bi p0 p1 p2 p3 =
     (if le then bi p0 p1 p2 p3 else let rev2 = swap p2 in bi p0 p1 rev2 p3)"

definition vfma_lane where
  "vfma_lane le bi p0 p1 p2 p3 =
     (if le then bi p0 p1 p2 p3 else let rev0 = swap p0; rev1 = swap p1; rev2 = swap p2; ret = bi rev0 rev1 rev2 p3 in swap ret)"

definition vfmah_laneq where
  "vfmah_laneq le bi p0 p1 p2 p3 =
     (if le then bi p0 p1 p2 p3 else let rev2 = swap p2 in bi p0 p1 rev2 p3)"

definition vmaxnmvq where
  "vmaxnmvq le bi p0 =
     (if le then bi p0 else let rev0 = swap p0 in bi rev0)"

definition vmaxnmv where
  "vmaxnmv le bi p0 =
     (if le then bi p0 else let rev0 = swap p0 in bi rev0)"

definition vminnmvq where
  "vminnmvq le bi p0 =
     (if le then bi p0 else let rev0 = swap p0 in bi rev0)"

definition vminnmv where
  "vminnmv le bi p0 =
     (if le then bi p0 else let rev0 = swap p0 in bi rev0)"

definition vmulx where
  "vmulx le bi p0 p1 =
     (if le then bi p0 p1 else let rev0 = swap p0; rev1 = swap p1; ret = bi rev0 rev1 in swap ret)"

definition vmulxh_lane where
  "vmulxh_lane le bi p0 p1 p2 =
     (if le then bi p0 p1 p2 else let rev1 = swap p1 in bi p0 rev1 p2)"

definition vmulxh_laneq where
  "vmulxh_laneq le bi p0 p1 p2 =
     (if le then bi p0 p1 p2 else let rev1 = swap p1 in bi p0 rev1 p2)"

definition vpmaxnmq where
  "vpmaxnmq le bi p0 p1 =
     (if le then bi p0 p1 else let rev0 = swap p0; rev1 = swap p1; ret = bi rev0 rev1 in swap ret)"

definition vpmaxnm where
  "vpmaxnm le bi p0 p1 =
     (if le then bi p0 p1 else let rev0 = swap p0; rev1 = swap p1; ret = bi rev0 rev1 in swap ret)"

definition vpminnmq where
  "vpminnmq le bi p0 p1 =
     (if le then bi p0 p1 else let rev0 = swap p0; rev1 = swap p1; ret = bi rev0 rev1 in swap ret)"

definition vpminnm where
  "vpminnm le bi p0 p1 =
     (if le then bi p0 p1 else let rev0 = swap p0; rev1 = swap p1; ret = bi rev0 rev1 in swap ret)"

definition vsqrtq where
  "vsqrtq le bi p0 =
     (if le then bi p0 else let rev0 = swap p0; ret = bi rev0 in swap ret)"

definition vsqrt where
  "vsqrt le bi p0 =
     (if le then bi p0 else let rev0 = swap p0; ret = bi rev0 in swap ret)"

definition vcvtq_f64 where
  "vcvtq_f64 le bi p0 =
     (if le then bi p0 else let rev0 = swap p0; ret = bi rev0 in swap ret)"

definition vcvt_f64 where
  "vcvt_f64 le bi p0 =
     (if le then bi p0 else let rev0 = swap p0; ret = bi rev0 in swap ret)"

definition vcvtq_n_f64 where
  "vcvtq_n_f64 le bi p0 p1 =
     (if le then bi p0 p1 else let rev0 = swap p0; ret = bi rev0 p1 in swap ret)"

definition vcvtq_n_s64 where
  "vcvtq_n_s64 le bi p0 p1 =
     (if le then bi p0 p1 else let rev0 = swap p0; ret = bi rev0 p1 in swap ret)"

definition vcvtq_n_u64 where
  "vcvtq_n_u64 le bi p0 p1 =
     (if le then bi p0 p1 else let rev0 = swap p0; ret = bi rev0 p1 in swap ret)"

definition vcvtq_s64 where
  "vcvtq_s64 le bi p0 =
     (if le then bi p0 else let rev0 = swap p0; ret = bi rev0 in swap ret)"

definition vcvtq_u64 where
  "vcvtq_u64 le bi p0 =
     (if le then bi p0 else let rev0 = swap p0; ret = bi rev0 in swap ret)"

definition vcvtx_f32 where
  "vcvtx_f32 le bi p0 =
     (if le then bi p0 else let rev0 = swap p0; ret = bi rev0 in swap ret)"

definition vdupb_lane where
  "vdupb_lane le bi p0 p1 =
     (if le then bi p0 p1 else let rev0 = swap p0 in bi rev0 p1)"

definition vdups_lane where
  "vdups_lane le bi p0 p1 =
     (if le then bi p0 p1 else let rev0 = swap p0 in bi rev0 p1)"

definition vdupb_laneq where
  "vdupb_laneq le bi p0 p1 =
     (if le then bi p0 p1 else let rev0 = swap p0 in bi rev0 p1)"

definition vdups_laneq where
  "vdups_laneq le bi p0 p1 =
     (if le then bi p0 p1 else let rev0 = swap p0 in bi rev0 p1)"

definition vdupd_laneq where
  "vdupd_laneq le bi p0 p1 =
     (if le then bi p0 p1 else let rev0 = swap p0 in bi rev0 p1)"

definition vfmas_lane where
  "vfmas_lane le bi p0 p1 p2 p3 =
     (if le then bi p0 p1 p2 p3 else let rev2 = swap p2 in bi p0 p1 rev2 p3)"

definition vfmad_laneq where
  "vfmad_laneq le bi p0 p1 p2 p3 =
     (if le then bi p0 p1 p2 p3 else let rev2 = swap p2 in bi p0 p1 rev2 p3)"

definition vfmas_laneq where
  "vfmas_laneq le bi p0 p1 p2 p3 =
     (if le then bi p0 p1 p2 p3 else let rev2 = swap p2 in bi p0 p1 rev2 p3)"

definition vpadds where
  "vpadds le bi p0 =
     (if le then bi p0 else let rev0 = swap p0 in bi rev0)"

definition vpmaxqd where
  "vpmaxqd le bi p0 =
     (if le then bi p0 else let rev0 = swap p0 in bi rev0)"

definition vpmaxs where
  "vpmaxs le bi p0 =
     (if le then bi p0 else let rev0 = swap p0 in bi rev0)"

definition vpmaxnmqd where
  "vpmaxnmqd le bi p0 =
     (if le then bi p0 else let rev0 = swap p0 in bi rev0)"

definition vpmaxnms where
  "vpmaxnms le bi p0 =
     (if le then bi p0 else let rev0 = swap p0 in bi rev0)"

definition vpminqd where
  "vpminqd le bi p0 =
     (if le then bi p0 else let rev0 = swap p0 in bi rev0)"

definition vpmins where
  "vpmins le bi p0 =
     (if le then bi p0 else let rev0 = swap p0 in bi rev0)"

definition vpminnmqd where
  "vpminnmqd le bi p0 =
     (if le then bi p0 else let rev0 = swap p0 in bi rev0)"

definition vpminnms where
  "vpminnms le bi p0 =
     (if le then bi p0 else let rev0 = swap p0 in bi rev0)"

definition vqdmlals_lane where
  "vqdmlals_lane le bi p0 p1 p2 p3 =
     (if le then bi p0 p1 p2 p3 else let rev2 = swap p2 in bi p0 p1 rev2 p3)"

definition vqdmlalh_lane where
  "vqdmlalh_lane le bi p0 p1 p2 p3 =
     (if le then bi p0 p1 p2 p3 else let rev2 = swap p2 in bi p0 p1 rev2 p3)"

definition vqdmlals_laneq where
  "vqdmlals_laneq le bi p0 p1 p2 p3 =
     (if le then bi p0 p1 p2 p3 else let rev2 = swap p2 in bi p0 p1 rev2 p3)"

definition vqdmlalh_laneq where
  "vqdmlalh_laneq le bi p0 p1 p2 p3 =
     (if le then bi p0 p1 p2 p3 else let rev2 = swap p2 in bi p0 p1 rev2 p3)"

definition vqdmlsls_lane where
  "vqdmlsls_lane le bi p0 p1 p2 p3 =
     (if le then bi p0 p1 p2 p3 else let rev2 = swap p2 in bi p0 p1 rev2 p3)"

definition vqdmlslh_lane where
  "vqdmlslh_lane le bi p0 p1 p2 p3 =
     (if le then bi p0 p1 p2 p3 else let rev2 = swap p2 in bi p0 p1 rev2 p3)"

definition vqdmlsls_laneq where
  "vqdmlsls_laneq le bi p0 p1 p2 p3 =
     (if le then bi p0 p1 p2 p3 else let rev2 = swap p2 in bi p0 p1 rev2 p3)"

definition vqdmlslh_laneq where
  "vqdmlslh_laneq le bi p0 p1 p2 p3 =
     (if le then bi p0 p1 p2 p3 else let rev2 = swap p2 in bi p0 p1 rev2 p3)"

definition vqtbl1 where
  "vqtbl1 le bi p0 p1 =
     (if le then bi p0 p1 else let rev0 = swap p0; rev1 = swap p1; ret = bi rev0 rev1 in swap ret)"

definition vqtbx1 where
  "vqtbx1 le bi p0 p1 p2 =
     (if le then bi p0 p1 p2 else let rev0 = swap p0; rev1 = swap p1; rev2 = swap p2; ret = bi rev0 rev1 rev2 in swap ret)"

definition vrbit where
  "vrbit le bi p0 =
     (if le then bi p0 else let rev0 = swap p0; ret = bi rev0 in swap ret)"

lemmas wrap_defs =
  vcageq_def vcage_def vcagtq_def vcagt_def vcaleq_def vcale_def vcaltq_def vcalt_def vcnt_def vcvtq_f32_def
  vcvt_f32_def vcvtq_n_f32_def vcvt_n_f32_def vcvtq_n_s32_def vcvt_n_s32_def vcvtq_n_u32_def vcvt_n_u32_def
  vcvtq_s32_def vcvt_s32_def vcvtq_u32_def vcvt_u32_def vrecpeq_def vrecpe_def vrecpsq_def vrecps_def
  vrsqrteq_def vrsqrte_def vrsqrtsq_def vrsqrts_def vcvt_f16_def vcvtaq_s32_def vcvta_s32_def vcvtaq_u32_def
  vcvta_u32_def vcvtmq_s32_def vcvtm_s32_def vcvtmq_u32_def vcvtm_u32_def vcvtnq_s32_def vcvtn_s32_def
  vcvtnq_u32_def vcvtn_u32_def vcvtpq_s32_def vcvtp_s32_def vcvtpq_u32_def vcvtp_u32_def vaesdq_def
  vaeseq_def vaesimcq_def vaesmcq_def vsha1cq_def vsha1mq_def vsha1pq_def vsha1su0q_def vsha1su1q_def
  vsha256hq_def vsha256h2q_def vsha256su0q_def vsha256su1q_def vrndq_def vrnd_def vrndaq_def vrnda_def
  vrndiq_def vrndi_def vrndmq_def vrndm_def vrndnq_def vrndn_def vrndpq_def vrndp_def vrndxq_def vrndx_def
  vmaxnmq_def vmaxnm_def vminnmq_def vminnm_def vcvtaq_s64_def vcvtaq_u64_def vcvtmq_s64_def vcvtmq_u64_def
  vcvtnq_s64_def vcvtnq_u64_def vcvtpq_s64_def vcvtpq_u64_def vcadd_rot270_def vcadd_rot90_def
  vcaddq_rot270_def vcaddq_rot90_def vdotq_def vdot_def vfmaq_def vfma_def vfmlalq_high_def vfmlal_high_def
  vfmlalq_low_def vfmlal_low_def vfmlslq_high_def vfmlsl_high_def vfmlslq_low_def vfmlsl_low_def
  vcvtq_f16_def vcvtq_n_f16_def vcvt_n_f16_def vcvtq_n_s16_def vcvt_n_s16_def vcvtq_n_u16_def vcvt_n_u16_def
  vcvtq_s16_def vcvt_s16_def vcvtq_u16_def vcvt_u16_def vcvtaq_s16_def vcvta_s16_def vcvtaq_u16_def
  vcvta_u16_def vcvtmq_s16_def vcvtm_s16_def vcvtmq_u16_def vcvtm_u16_def vcvtnq_s16_def vcvtn_s16_def
  vcvtnq_u16_def vcvtn_u16_def vcvtpq_s16_def vcvtp_s16_def vcvtpq_u16_def vcvtp_u16_def vduph_lane_def
  vduph_laneq_def vfmah_lane_def vfma_lane_def vfmah_laneq_def vmaxnmvq_def vmaxnmv_def vminnmvq_def
  vminnmv_def vmulx_def vmulxh_lane_def vmulxh_laneq_def vpmaxnmq_def vpmaxnm_def vpminnmq_def vpminnm_def
  vsqrtq_def vsqrt_def vcvtq_f64_def vcvt_f64_def vcvtq_n_f64_def vcvtq_n_s64_def vcvtq_n_u64_def
  vcvtq_s64_def vcvtq_u64_def vcvtx_f32_def vdupb_lane_def vdups_lane_def vdupb_laneq_def vdups_laneq_def
  vdupd_laneq_def vfmas_lane_def vfmad_laneq_def vfmas_laneq_def vpadds_def vpmaxqd_def vpmaxs_def
  vpmaxnmqd_def vpmaxnms_def vpminqd_def vpmins_def vpminnmqd_def vpminnms_def vqdmlals_lane_def
  vqdmlalh_lane_def vqdmlals_laneq_def vqdmlalh_laneq_def vqdmlsls_lane_def vqdmlslh_lane_def
  vqdmlsls_laneq_def vqdmlslh_laneq_def vqtbl1_def vqtbx1_def vrbit_def

section \<open>The registers\<close>

text \<open>
  On either byte order each of these routines applies its builtin to the registers of its
  vector operands, with scalars, lane numbers and immediates as they are, and returns the vector that
  the resulting register stands for, or the scalar.
\<close>

lemma wrapped_routines:
  "vreg le (vcageq le bc2 c0 c1) = bc2 (vreg le c0) (vreg le c1)
    \<and> vreg le (vcage le bc2 c0 c1) = bc2 (vreg le c0) (vreg le c1)
    \<and> vreg le (vcagtq le bc2 c0 c1) = bc2 (vreg le c0) (vreg le c1)
    \<and> vreg le (vcagt le bc2 c0 c1) = bc2 (vreg le c0) (vreg le c1)
    \<and> vreg le (vcaleq le bc2 c0 c1) = bc2 (vreg le c0) (vreg le c1)
    \<and> vreg le (vcale le bc2 c0 c1) = bc2 (vreg le c0) (vreg le c1)
    \<and> vreg le (vcaltq le bc2 c0 c1) = bc2 (vreg le c0) (vreg le c1)
    \<and> vreg le (vcalt le bc2 c0 c1) = bc2 (vreg le c0) (vreg le c1)
    \<and> vreg le (vcnt le bd1 d0) = bd1 (vreg le d0)
    \<and> vreg le (vcvtq_f32 le bd1 d0) = bd1 (vreg le d0)
    \<and> vreg le (vcvt_f32 le bd1 d0) = bd1 (vreg le d0)
    \<and> vreg le (vcvtq_n_f32 le be2 e0 e1) = be2 (vreg le e0) e1
    \<and> vreg le (vcvt_n_f32 le be2 e0 e1) = be2 (vreg le e0) e1
    \<and> vreg le (vcvtq_n_s32 le be2 e0 e1) = be2 (vreg le e0) e1
    \<and> vreg le (vcvt_n_s32 le be2 e0 e1) = be2 (vreg le e0) e1
    \<and> vreg le (vcvtq_n_u32 le be2 e0 e1) = be2 (vreg le e0) e1
    \<and> vreg le (vcvt_n_u32 le be2 e0 e1) = be2 (vreg le e0) e1
    \<and> vreg le (vcvtq_s32 le bd1 d0) = bd1 (vreg le d0)
    \<and> vreg le (vcvt_s32 le bd1 d0) = bd1 (vreg le d0)
    \<and> vreg le (vcvtq_u32 le bd1 d0) = bd1 (vreg le d0)
    \<and> vreg le (vcvt_u32 le bd1 d0) = bd1 (vreg le d0)
    \<and> vreg le (vrecpeq le bd1 d0) = bd1 (vreg le d0)
    \<and> vreg le (vrecpe le bd1 d0) = bd1 (vreg le d0)
    \<and> vreg le (vrecpsq le bc2 c0 c1) = bc2 (vreg le c0) (vreg le c1)
    \<and> vreg le (vrecps le bc2 c0 c1) = bc2 (vreg le c0) (vreg le c1)
    \<and> vreg le (vrsqrteq le bd1 d0) = bd1 (vreg le d0)
    \<and> vreg le (vrsqrte le bd1 d0) = bd1 (vreg le d0)
    \<and> vreg le (vrsqrtsq le bc2 c0 c1) = bc2 (vreg le c0) (vreg le c1)
    \<and> vreg le (vrsqrts le bc2 c0 c1) = bc2 (vreg le c0) (vreg le c1)
    \<and> vreg le (vcvt_f16 le bd1 d0) = bd1 (vreg le d0)
    \<and> vreg le (vcvtaq_s32 le bd1 d0) = bd1 (vreg le d0)
    \<and> vreg le (vcvta_s32 le bd1 d0) = bd1 (vreg le d0)
    \<and> vreg le (vcvtaq_u32 le bd1 d0) = bd1 (vreg le d0)
    \<and> vreg le (vcvta_u32 le bd1 d0) = bd1 (vreg le d0)
    \<and> vreg le (vcvtmq_s32 le bd1 d0) = bd1 (vreg le d0)
    \<and> vreg le (vcvtm_s32 le bd1 d0) = bd1 (vreg le d0)
    \<and> vreg le (vcvtmq_u32 le bd1 d0) = bd1 (vreg le d0)
    \<and> vreg le (vcvtm_u32 le bd1 d0) = bd1 (vreg le d0)
    \<and> vreg le (vcvtnq_s32 le bd1 d0) = bd1 (vreg le d0)
    \<and> vreg le (vcvtn_s32 le bd1 d0) = bd1 (vreg le d0)
    \<and> vreg le (vcvtnq_u32 le bd1 d0) = bd1 (vreg le d0)
    \<and> vreg le (vcvtn_u32 le bd1 d0) = bd1 (vreg le d0)
    \<and> vreg le (vcvtpq_s32 le bd1 d0) = bd1 (vreg le d0)
    \<and> vreg le (vcvtp_s32 le bd1 d0) = bd1 (vreg le d0)
    \<and> vreg le (vcvtpq_u32 le bd1 d0) = bd1 (vreg le d0)
    \<and> vreg le (vcvtp_u32 le bd1 d0) = bd1 (vreg le d0)
    \<and> vreg le (vaesdq le bc2 c0 c1) = bc2 (vreg le c0) (vreg le c1)
    \<and> vreg le (vaeseq le bc2 c0 c1) = bc2 (vreg le c0) (vreg le c1)
    \<and> vreg le (vaesimcq le bd1 d0) = bd1 (vreg le d0)
    \<and> vreg le (vaesmcq le bd1 d0) = bd1 (vreg le d0)
    \<and> vreg le (vsha1cq le bf3 f0 f1 f2) = bf3 (vreg le f0) f1 (vreg le f2)
    \<and> vreg le (vsha1mq le bf3 f0 f1 f2) = bf3 (vreg le f0) f1 (vreg le f2)
    \<and> vreg le (vsha1pq le bf3 f0 f1 f2) = bf3 (vreg le f0) f1 (vreg le f2)
    \<and> vreg le (vsha1su0q le bg3 g0 g1 g2) = bg3 (vreg le g0) (vreg le g1) (vreg le g2)
    \<and> vreg le (vsha1su1q le bc2 c0 c1) = bc2 (vreg le c0) (vreg le c1)
    \<and> vreg le (vsha256hq le bg3 g0 g1 g2) = bg3 (vreg le g0) (vreg le g1) (vreg le g2)
    \<and> vreg le (vsha256h2q le bg3 g0 g1 g2) = bg3 (vreg le g0) (vreg le g1) (vreg le g2)
    \<and> vreg le (vsha256su0q le bc2 c0 c1) = bc2 (vreg le c0) (vreg le c1)
    \<and> vreg le (vsha256su1q le bg3 g0 g1 g2) = bg3 (vreg le g0) (vreg le g1) (vreg le g2)
    \<and> vreg le (vrndq le bd1 d0) = bd1 (vreg le d0)
    \<and> vreg le (vrnd le bd1 d0) = bd1 (vreg le d0)
    \<and> vreg le (vrndaq le bd1 d0) = bd1 (vreg le d0)
    \<and> vreg le (vrnda le bd1 d0) = bd1 (vreg le d0)
    \<and> vreg le (vrndiq le bd1 d0) = bd1 (vreg le d0)
    \<and> vreg le (vrndi le bd1 d0) = bd1 (vreg le d0)
    \<and> vreg le (vrndmq le bd1 d0) = bd1 (vreg le d0)
    \<and> vreg le (vrndm le bd1 d0) = bd1 (vreg le d0)
    \<and> vreg le (vrndnq le bd1 d0) = bd1 (vreg le d0)
    \<and> vreg le (vrndn le bd1 d0) = bd1 (vreg le d0)
    \<and> vreg le (vrndpq le bd1 d0) = bd1 (vreg le d0)
    \<and> vreg le (vrndp le bd1 d0) = bd1 (vreg le d0)
    \<and> vreg le (vrndxq le bd1 d0) = bd1 (vreg le d0)
    \<and> vreg le (vrndx le bd1 d0) = bd1 (vreg le d0)
    \<and> vreg le (vmaxnmq le bc2 c0 c1) = bc2 (vreg le c0) (vreg le c1)
    \<and> vreg le (vmaxnm le bc2 c0 c1) = bc2 (vreg le c0) (vreg le c1)
    \<and> vreg le (vminnmq le bc2 c0 c1) = bc2 (vreg le c0) (vreg le c1)
    \<and> vreg le (vminnm le bc2 c0 c1) = bc2 (vreg le c0) (vreg le c1)
    \<and> vreg le (vcvtaq_s64 le bd1 d0) = bd1 (vreg le d0)
    \<and> vreg le (vcvtaq_u64 le bd1 d0) = bd1 (vreg le d0)
    \<and> vreg le (vcvtmq_s64 le bd1 d0) = bd1 (vreg le d0)
    \<and> vreg le (vcvtmq_u64 le bd1 d0) = bd1 (vreg le d0)
    \<and> vreg le (vcvtnq_s64 le bd1 d0) = bd1 (vreg le d0)
    \<and> vreg le (vcvtnq_u64 le bd1 d0) = bd1 (vreg le d0)
    \<and> vreg le (vcvtpq_s64 le bd1 d0) = bd1 (vreg le d0)
    \<and> vreg le (vcvtpq_u64 le bd1 d0) = bd1 (vreg le d0)
    \<and> vreg le (vcadd_rot270 le bc2 c0 c1) = bc2 (vreg le c0) (vreg le c1)
    \<and> vreg le (vcadd_rot90 le bc2 c0 c1) = bc2 (vreg le c0) (vreg le c1)
    \<and> vreg le (vcaddq_rot270 le bc2 c0 c1) = bc2 (vreg le c0) (vreg le c1)
    \<and> vreg le (vcaddq_rot90 le bc2 c0 c1) = bc2 (vreg le c0) (vreg le c1)
    \<and> vreg le (vdotq le bg3 g0 g1 g2) = bg3 (vreg le g0) (vreg le g1) (vreg le g2)
    \<and> vreg le (vdot le bg3 g0 g1 g2) = bg3 (vreg le g0) (vreg le g1) (vreg le g2)
    \<and> vreg le (vfmaq le bg3 g0 g1 g2) = bg3 (vreg le g0) (vreg le g1) (vreg le g2)
    \<and> vreg le (vfma le bg3 g0 g1 g2) = bg3 (vreg le g0) (vreg le g1) (vreg le g2)
    \<and> vreg le (vfmlalq_high le bg3 g0 g1 g2) = bg3 (vreg le g0) (vreg le g1) (vreg le g2)
    \<and> vreg le (vfmlal_high le bg3 g0 g1 g2) = bg3 (vreg le g0) (vreg le g1) (vreg le g2)
    \<and> vreg le (vfmlalq_low le bg3 g0 g1 g2) = bg3 (vreg le g0) (vreg le g1) (vreg le g2)
    \<and> vreg le (vfmlal_low le bg3 g0 g1 g2) = bg3 (vreg le g0) (vreg le g1) (vreg le g2)
    \<and> vreg le (vfmlslq_high le bg3 g0 g1 g2) = bg3 (vreg le g0) (vreg le g1) (vreg le g2)
    \<and> vreg le (vfmlsl_high le bg3 g0 g1 g2) = bg3 (vreg le g0) (vreg le g1) (vreg le g2)
    \<and> vreg le (vfmlslq_low le bg3 g0 g1 g2) = bg3 (vreg le g0) (vreg le g1) (vreg le g2)
    \<and> vreg le (vfmlsl_low le bg3 g0 g1 g2) = bg3 (vreg le g0) (vreg le g1) (vreg le g2)
    \<and> vreg le (vcvtq_f16 le bd1 d0) = bd1 (vreg le d0)
    \<and> vreg le (vcvtq_n_f16 le be2 e0 e1) = be2 (vreg le e0) e1
    \<and> vreg le (vcvt_n_f16 le be2 e0 e1) = be2 (vreg le e0) e1
    \<and> vreg le (vcvtq_n_s16 le be2 e0 e1) = be2 (vreg le e0) e1
    \<and> vreg le (vcvt_n_s16 le be2 e0 e1) = be2 (vreg le e0) e1
    \<and> vreg le (vcvtq_n_u16 le be2 e0 e1) = be2 (vreg le e0) e1
    \<and> vreg le (vcvt_n_u16 le be2 e0 e1) = be2 (vreg le e0) e1
    \<and> vreg le (vcvtq_s16 le bd1 d0) = bd1 (vreg le d0)
    \<and> vreg le (vcvt_s16 le bd1 d0) = bd1 (vreg le d0)
    \<and> vreg le (vcvtq_u16 le bd1 d0) = bd1 (vreg le d0)
    \<and> vreg le (vcvt_u16 le bd1 d0) = bd1 (vreg le d0)
    \<and> vreg le (vcvtaq_s16 le bd1 d0) = bd1 (vreg le d0)
    \<and> vreg le (vcvta_s16 le bd1 d0) = bd1 (vreg le d0)
    \<and> vreg le (vcvtaq_u16 le bd1 d0) = bd1 (vreg le d0)
    \<and> vreg le (vcvta_u16 le bd1 d0) = bd1 (vreg le d0)
    \<and> vreg le (vcvtmq_s16 le bd1 d0) = bd1 (vreg le d0)
    \<and> vreg le (vcvtm_s16 le bd1 d0) = bd1 (vreg le d0)
    \<and> vreg le (vcvtmq_u16 le bd1 d0) = bd1 (vreg le d0)
    \<and> vreg le (vcvtm_u16 le bd1 d0) = bd1 (vreg le d0)
    \<and> vreg le (vcvtnq_s16 le bd1 d0) = bd1 (vreg le d0)
    \<and> vreg le (vcvtn_s16 le bd1 d0) = bd1 (vreg le d0)
    \<and> vreg le (vcvtnq_u16 le bd1 d0) = bd1 (vreg le d0)
    \<and> vreg le (vcvtn_u16 le bd1 d0) = bd1 (vreg le d0)
    \<and> vreg le (vcvtpq_s16 le bd1 d0) = bd1 (vreg le d0)
    \<and> vreg le (vcvtp_s16 le bd1 d0) = bd1 (vreg le d0)
    \<and> vreg le (vcvtpq_u16 le bd1 d0) = bd1 (vreg le d0)
    \<and> vreg le (vcvtp_u16 le bd1 d0) = bd1 (vreg le d0)
    \<and> vduph_lane le bh2 h0 h1 = bh2 (vreg le h0) h1
    \<and> vduph_laneq le bh2 h0 h1 = bh2 (vreg le h0) h1
    \<and> vfmah_lane le bi4 i0 i1 i2 i3 = bi4 i0 i1 (vreg le i2) i3
    \<and> vreg le (vfma_lane le bj4 j0 j1 j2 j3) = bj4 (vreg le j0) (vreg le j1) (vreg le j2) j3
    \<and> vfmah_laneq le bi4 i0 i1 i2 i3 = bi4 i0 i1 (vreg le i2) i3
    \<and> vmaxnmvq le bk1 k0 = bk1 (vreg le k0)
    \<and> vmaxnmv le bk1 k0 = bk1 (vreg le k0)
    \<and> vminnmvq le bk1 k0 = bk1 (vreg le k0)
    \<and> vminnmv le bk1 k0 = bk1 (vreg le k0)
    \<and> vreg le (vmulx le bc2 c0 c1) = bc2 (vreg le c0) (vreg le c1)
    \<and> vmulxh_lane le bl3 l0 l1 l2 = bl3 l0 (vreg le l1) l2
    \<and> vmulxh_laneq le bl3 l0 l1 l2 = bl3 l0 (vreg le l1) l2
    \<and> vreg le (vpmaxnmq le bc2 c0 c1) = bc2 (vreg le c0) (vreg le c1)
    \<and> vreg le (vpmaxnm le bc2 c0 c1) = bc2 (vreg le c0) (vreg le c1)
    \<and> vreg le (vpminnmq le bc2 c0 c1) = bc2 (vreg le c0) (vreg le c1)
    \<and> vreg le (vpminnm le bc2 c0 c1) = bc2 (vreg le c0) (vreg le c1)
    \<and> vreg le (vsqrtq le bd1 d0) = bd1 (vreg le d0)
    \<and> vreg le (vsqrt le bd1 d0) = bd1 (vreg le d0)
    \<and> vreg le (vcvtq_f64 le bd1 d0) = bd1 (vreg le d0)
    \<and> vreg le (vcvt_f64 le bd1 d0) = bd1 (vreg le d0)
    \<and> vreg le (vcvtq_n_f64 le be2 e0 e1) = be2 (vreg le e0) e1
    \<and> vreg le (vcvtq_n_s64 le be2 e0 e1) = be2 (vreg le e0) e1
    \<and> vreg le (vcvtq_n_u64 le be2 e0 e1) = be2 (vreg le e0) e1
    \<and> vreg le (vcvtq_s64 le bd1 d0) = bd1 (vreg le d0)
    \<and> vreg le (vcvtq_u64 le bd1 d0) = bd1 (vreg le d0)
    \<and> vreg le (vcvtx_f32 le bd1 d0) = bd1 (vreg le d0)
    \<and> vdupb_lane le bh2 h0 h1 = bh2 (vreg le h0) h1
    \<and> vdups_lane le bh2 h0 h1 = bh2 (vreg le h0) h1
    \<and> vdupb_laneq le bh2 h0 h1 = bh2 (vreg le h0) h1
    \<and> vdups_laneq le bh2 h0 h1 = bh2 (vreg le h0) h1
    \<and> vdupd_laneq le bh2 h0 h1 = bh2 (vreg le h0) h1
    \<and> vfmas_lane le bi4 i0 i1 i2 i3 = bi4 i0 i1 (vreg le i2) i3
    \<and> vfmad_laneq le bi4 i0 i1 i2 i3 = bi4 i0 i1 (vreg le i2) i3
    \<and> vfmas_laneq le bi4 i0 i1 i2 i3 = bi4 i0 i1 (vreg le i2) i3
    \<and> vpadds le bk1 k0 = bk1 (vreg le k0)
    \<and> vpmaxqd le bk1 k0 = bk1 (vreg le k0)
    \<and> vpmaxs le bk1 k0 = bk1 (vreg le k0)
    \<and> vpmaxnmqd le bk1 k0 = bk1 (vreg le k0)
    \<and> vpmaxnms le bk1 k0 = bk1 (vreg le k0)
    \<and> vpminqd le bk1 k0 = bk1 (vreg le k0)
    \<and> vpmins le bk1 k0 = bk1 (vreg le k0)
    \<and> vpminnmqd le bk1 k0 = bk1 (vreg le k0)
    \<and> vpminnms le bk1 k0 = bk1 (vreg le k0)
    \<and> vqdmlals_lane le bi4 i0 i1 i2 i3 = bi4 i0 i1 (vreg le i2) i3
    \<and> vqdmlalh_lane le bi4 i0 i1 i2 i3 = bi4 i0 i1 (vreg le i2) i3
    \<and> vqdmlals_laneq le bi4 i0 i1 i2 i3 = bi4 i0 i1 (vreg le i2) i3
    \<and> vqdmlalh_laneq le bi4 i0 i1 i2 i3 = bi4 i0 i1 (vreg le i2) i3
    \<and> vqdmlsls_lane le bi4 i0 i1 i2 i3 = bi4 i0 i1 (vreg le i2) i3
    \<and> vqdmlslh_lane le bi4 i0 i1 i2 i3 = bi4 i0 i1 (vreg le i2) i3
    \<and> vqdmlsls_laneq le bi4 i0 i1 i2 i3 = bi4 i0 i1 (vreg le i2) i3
    \<and> vqdmlslh_laneq le bi4 i0 i1 i2 i3 = bi4 i0 i1 (vreg le i2) i3
    \<and> vreg le (vqtbl1 le bc2 c0 c1) = bc2 (vreg le c0) (vreg le c1)
    \<and> vreg le (vqtbx1 le bg3 g0 g1 g2) = bg3 (vreg le g0) (vreg le g1) (vreg le g2)
    \<and> vreg le (vrbit le bd1 d0) = bd1 (vreg le d0)"
  by (cases le; intro conjI) (simp_all add: wrap_defs)

end
