(* ===== verification/Neon_Table.thy ===== *)
theory Neon_Table
  imports Neon_Perm
begin

text \<open>
  The routines of \<open>arm_neon.h\<close> that pass or return several vectors: the pairs of permutations
  \<open>vzip\<close>, \<open>vuzp\<close> and \<open>vtrn\<close>, and the table lookups \<open>vtbl\<close>, \<open>vtbx\<close>, \<open>vqtbl\<close> and \<open>vqtbx\<close> with a
  table of two to four vectors.  A structure of vectors is a tuple; the compiler builtin \<open>bi\<close> is an
  argument.
\<close>

section \<open>The routines\<close>

definition vzip where
  "vzip le bi p0 p1 =
     (if le then bi p0 p1
      else
        let rev0 = swap p0; rev1 = swap p1
        in case bi rev0 rev1 of (v0, v1) \<Rightarrow> (swap v0, swap v1))"

definition vzipq where
  "vzipq le bi p0 p1 =
     (if le then bi p0 p1
      else
        let rev0 = swap p0; rev1 = swap p1
        in case bi rev0 rev1 of (v0, v1) \<Rightarrow> (swap v0, swap v1))"

definition vuzp where
  "vuzp le bi p0 p1 =
     (if le then bi p0 p1
      else
        let rev0 = swap p0; rev1 = swap p1
        in case bi rev0 rev1 of (v0, v1) \<Rightarrow> (swap v0, swap v1))"

definition vuzpq where
  "vuzpq le bi p0 p1 =
     (if le then bi p0 p1
      else
        let rev0 = swap p0; rev1 = swap p1
        in case bi rev0 rev1 of (v0, v1) \<Rightarrow> (swap v0, swap v1))"

definition vtrn where
  "vtrn le bi p0 p1 =
     (if le then bi p0 p1
      else
        let rev0 = swap p0; rev1 = swap p1
        in case bi rev0 rev1 of (v0, v1) \<Rightarrow> (swap v0, swap v1))"

definition vtrnq where
  "vtrnq le bi p0 p1 =
     (if le then bi p0 p1
      else
        let rev0 = swap p0; rev1 = swap p1
        in case bi rev0 rev1 of (v0, v1) \<Rightarrow> (swap v0, swap v1))"

definition vtbl2 where
  "vtbl2 le bi p0 p1 =
     (case p0 of (s0, s1) \<Rightarrow>
        if le then bi s0 s1 p1
        else
          let r0 = swap s0; r1 = swap s1; rev1 = swap p1;
              ret = bi r0 r1 rev1
          in swap ret)"

definition vtbl3 where
  "vtbl3 le bi p0 p1 =
     (case p0 of (s0, s1, s2) \<Rightarrow>
        if le then bi s0 s1 s2 p1
        else
          let r0 = swap s0; r1 = swap s1; r2 = swap s2; rev1 = swap p1;
              ret = bi r0 r1 r2 rev1
          in swap ret)"

definition vtbl4 where
  "vtbl4 le bi p0 p1 =
     (case p0 of (s0, s1, s2, s3) \<Rightarrow>
        if le then bi s0 s1 s2 s3 p1
        else
          let r0 = swap s0; r1 = swap s1; r2 = swap s2; r3 = swap s3; rev1 = swap p1;
              ret = bi r0 r1 r2 r3 rev1
          in swap ret)"

definition vqtbl2 where
  "vqtbl2 le bi p0 p1 =
     (case p0 of (s0, s1) \<Rightarrow>
        if le then bi s0 s1 p1
        else
          let r0 = swap s0; r1 = swap s1; rev1 = swap p1;
              ret = bi r0 r1 rev1
          in swap ret)"

definition vqtbl2q where
  "vqtbl2q le bi p0 p1 =
     (case p0 of (s0, s1) \<Rightarrow>
        if le then bi s0 s1 p1
        else
          let r0 = swap s0; r1 = swap s1; rev1 = swap p1;
              ret = bi r0 r1 rev1
          in swap ret)"

definition vqtbl3 where
  "vqtbl3 le bi p0 p1 =
     (case p0 of (s0, s1, s2) \<Rightarrow>
        if le then bi s0 s1 s2 p1
        else
          let r0 = swap s0; r1 = swap s1; r2 = swap s2; rev1 = swap p1;
              ret = bi r0 r1 r2 rev1
          in swap ret)"

definition vqtbl3q where
  "vqtbl3q le bi p0 p1 =
     (case p0 of (s0, s1, s2) \<Rightarrow>
        if le then bi s0 s1 s2 p1
        else
          let r0 = swap s0; r1 = swap s1; r2 = swap s2; rev1 = swap p1;
              ret = bi r0 r1 r2 rev1
          in swap ret)"

definition vqtbl4 where
  "vqtbl4 le bi p0 p1 =
     (case p0 of (s0, s1, s2, s3) \<Rightarrow>
        if le then bi s0 s1 s2 s3 p1
        else
          let r0 = swap s0; r1 = swap s1; r2 = swap s2; r3 = swap s3; rev1 = swap p1;
              ret = bi r0 r1 r2 r3 rev1
          in swap ret)"

definition vqtbl4q where
  "vqtbl4q le bi p0 p1 =
     (case p0 of (s0, s1, s2, s3) \<Rightarrow>
        if le then bi s0 s1 s2 s3 p1
        else
          let r0 = swap s0; r1 = swap s1; r2 = swap s2; r3 = swap s3; rev1 = swap p1;
              ret = bi r0 r1 r2 r3 rev1
          in swap ret)"

definition vtbx2 where
  "vtbx2 le bi p0 p1 p2 =
     (case p1 of (s0, s1) \<Rightarrow>
        if le then bi p0 s0 s1 p2
        else
          let rev0 = swap p0; r0 = swap s0; r1 = swap s1; rev2 = swap p2;
              ret = bi rev0 r0 r1 rev2
          in swap ret)"

definition vtbx3 where
  "vtbx3 le bi p0 p1 p2 =
     (case p1 of (s0, s1, s2) \<Rightarrow>
        if le then bi p0 s0 s1 s2 p2
        else
          let rev0 = swap p0; r0 = swap s0; r1 = swap s1; r2 = swap s2; rev2 = swap p2;
              ret = bi rev0 r0 r1 r2 rev2
          in swap ret)"

definition vtbx4 where
  "vtbx4 le bi p0 p1 p2 =
     (case p1 of (s0, s1, s2, s3) \<Rightarrow>
        if le then bi p0 s0 s1 s2 s3 p2
        else
          let rev0 = swap p0; r0 = swap s0; r1 = swap s1; r2 = swap s2; r3 = swap s3; rev2 = swap p2;
              ret = bi rev0 r0 r1 r2 r3 rev2
          in swap ret)"

definition vqtbx2 where
  "vqtbx2 le bi p0 p1 p2 =
     (case p1 of (s0, s1) \<Rightarrow>
        if le then bi p0 s0 s1 p2
        else
          let rev0 = swap p0; r0 = swap s0; r1 = swap s1; rev2 = swap p2;
              ret = bi rev0 r0 r1 rev2
          in swap ret)"

definition vqtbx2q where
  "vqtbx2q le bi p0 p1 p2 =
     (case p1 of (s0, s1) \<Rightarrow>
        if le then bi p0 s0 s1 p2
        else
          let rev0 = swap p0; r0 = swap s0; r1 = swap s1; rev2 = swap p2;
              ret = bi rev0 r0 r1 rev2
          in swap ret)"

definition vqtbx3 where
  "vqtbx3 le bi p0 p1 p2 =
     (case p1 of (s0, s1, s2) \<Rightarrow>
        if le then bi p0 s0 s1 s2 p2
        else
          let rev0 = swap p0; r0 = swap s0; r1 = swap s1; r2 = swap s2; rev2 = swap p2;
              ret = bi rev0 r0 r1 r2 rev2
          in swap ret)"

definition vqtbx3q where
  "vqtbx3q le bi p0 p1 p2 =
     (case p1 of (s0, s1, s2) \<Rightarrow>
        if le then bi p0 s0 s1 s2 p2
        else
          let rev0 = swap p0; r0 = swap s0; r1 = swap s1; r2 = swap s2; rev2 = swap p2;
              ret = bi rev0 r0 r1 r2 rev2
          in swap ret)"

definition vqtbx4 where
  "vqtbx4 le bi p0 p1 p2 =
     (case p1 of (s0, s1, s2, s3) \<Rightarrow>
        if le then bi p0 s0 s1 s2 s3 p2
        else
          let rev0 = swap p0; r0 = swap s0; r1 = swap s1; r2 = swap s2; r3 = swap s3; rev2 = swap p2;
              ret = bi rev0 r0 r1 r2 r3 rev2
          in swap ret)"

definition vqtbx4q where
  "vqtbx4q le bi p0 p1 p2 =
     (case p1 of (s0, s1, s2, s3) \<Rightarrow>
        if le then bi p0 s0 s1 s2 s3 p2
        else
          let rev0 = swap p0; r0 = swap s0; r1 = swap s1; r2 = swap s2; r3 = swap s3; rev2 = swap p2;
              ret = bi rev0 r0 r1 r2 r3 rev2
          in swap ret)"

lemmas table_defs =
  vzip_def vzipq_def vuzp_def vuzpq_def vtrn_def vtrnq_def vtbl2_def vtbl3_def vtbl4_def vqtbl2_def
  vqtbl2q_def vqtbl3_def vqtbl3q_def vqtbl4_def vqtbl4q_def vtbx2_def vtbx3_def vtbx4_def vqtbx2_def
  vqtbx2q_def vqtbx3_def vqtbx3q_def vqtbx4_def vqtbx4q_def

section \<open>Table lookups\<close>

text \<open>What the builtins document: an index beyond the table gives 0, or keeps the element.\<close>

definition lookups :: "'a::len word list \<Rightarrow> 'a word list \<Rightarrow> 'a word list" where
  "lookups t ix = map (\<lambda>i. if unat i < length t then t ! unat i else 0) ix"

definition extends :: "'a::len word list \<Rightarrow> 'a word list \<Rightarrow> 'a word list \<Rightarrow> 'a word list" where
  "extends e t ix = map2 (\<lambda>x i. if unat i < length t then t ! unat i else x) e ix"

text \<open>
  On either byte order a table lookup reads the bytes of the table's registers, the first
  vector's lanes first: lane \<open>i\<close> of the result's register is the byte that lane \<open>i\<close> of the index
  register numbers, and 0 (\<open>vtbl\<close>) or the old byte (\<open>vtbx\<close>) where there is none.
\<close>

lemma table_lookups:
  assumes "\<And>a b ix. tbl2 a b ix = lookups (a @ b) ix"
    and "\<And>e a b ix. tbx2 e a b ix = extends e (a @ b) ix"
    and "\<And>a b c ix. tbl3 a b c ix = lookups (a @ b @ c) ix"
    and "\<And>e a b c ix. tbx3 e a b c ix = extends e (a @ b @ c) ix"
    and "\<And>a b c d ix. tbl4 a b c d ix = lookups (a @ b @ c @ d) ix"
    and "\<And>e a b c d ix. tbx4 e a b c d ix = extends e (a @ b @ c @ d) ix"
  shows "vreg le (vtbl2 le tbl2 (a, b) ix) = lookups (vreg le a @ vreg le b) (vreg le ix)
    \<and> vreg le (vtbl3 le tbl3 (a, b, c) ix) = lookups (vreg le a @ vreg le b @ vreg le c) (vreg le ix)
    \<and> vreg le (vtbl4 le tbl4 (a, b, c, d) ix) = lookups (vreg le a @ vreg le b @ vreg le c @ vreg le d) (vreg le ix)
    \<and> vreg le (vqtbl2 le tbl2 (a, b) ix) = lookups (vreg le a @ vreg le b) (vreg le ix)
    \<and> vreg le (vqtbl2q le tbl2 (a, b) ix) = lookups (vreg le a @ vreg le b) (vreg le ix)
    \<and> vreg le (vqtbl3 le tbl3 (a, b, c) ix) = lookups (vreg le a @ vreg le b @ vreg le c) (vreg le ix)
    \<and> vreg le (vqtbl3q le tbl3 (a, b, c) ix) = lookups (vreg le a @ vreg le b @ vreg le c) (vreg le ix)
    \<and> vreg le (vqtbl4 le tbl4 (a, b, c, d) ix) = lookups (vreg le a @ vreg le b @ vreg le c @ vreg le d) (vreg le ix)
    \<and> vreg le (vqtbl4q le tbl4 (a, b, c, d) ix) = lookups (vreg le a @ vreg le b @ vreg le c @ vreg le d) (vreg le ix)
    \<and> vreg le (vtbx2 le tbx2 e (a, b) ix) = extends (vreg le e) (vreg le a @ vreg le b) (vreg le ix)
    \<and> vreg le (vtbx3 le tbx3 e (a, b, c) ix) = extends (vreg le e) (vreg le a @ vreg le b @ vreg le c) (vreg le ix)
    \<and> vreg le (vtbx4 le tbx4 e (a, b, c, d) ix) = extends (vreg le e) (vreg le a @ vreg le b @ vreg le c @ vreg le d) (vreg le ix)
    \<and> vreg le (vqtbx2 le tbx2 e (a, b) ix) = extends (vreg le e) (vreg le a @ vreg le b) (vreg le ix)
    \<and> vreg le (vqtbx2q le tbx2 e (a, b) ix) = extends (vreg le e) (vreg le a @ vreg le b) (vreg le ix)
    \<and> vreg le (vqtbx3 le tbx3 e (a, b, c) ix) = extends (vreg le e) (vreg le a @ vreg le b @ vreg le c) (vreg le ix)
    \<and> vreg le (vqtbx3q le tbx3 e (a, b, c) ix) = extends (vreg le e) (vreg le a @ vreg le b @ vreg le c) (vreg le ix)
    \<and> vreg le (vqtbx4 le tbx4 e (a, b, c, d) ix) = extends (vreg le e) (vreg le a @ vreg le b @ vreg le c @ vreg le d) (vreg le ix)
    \<and> vreg le (vqtbx4q le tbx4 e (a, b, c, d) ix) = extends (vreg le e) (vreg le a @ vreg le b @ vreg le c @ vreg le d) (vreg le ix)"
  by (cases le; intro conjI) (simp_all add: table_defs assms)

theorem table_lookups_witness:
  "vqtbl2 False (\<lambda>a b ix. lookups (a @ b) ix) ([2, 1], [4, 3]) [3, 0, 9 :: 8 word] = [4, 1, 0]"
  using table_lookups [of "\<lambda>a b ix. lookups (a @ b) ix" "\<lambda>e a b ix. extends e (a @ b) ix"
    "\<lambda>a b c ix. lookups (a @ b @ c) ix" "\<lambda>e a b c ix. extends e (a @ b @ c) ix"
    "\<lambda>a b c d ix. lookups (a @ b @ c @ d) ix" "\<lambda>e a b c d ix. extends e (a @ b @ c @ d) ix"
    False "[2, 1]" "[4, 3 :: 8 word]" "[3, 0, 9]"]
  by (simp add: swap_rev lookups_def)

section \<open>Pairs of permutations\<close>

text \<open>
  With the permutations the builtins document, a pair routine returns the two vectors that
  \<open>vzip1\<close> and \<open>vzip2\<close> (\<open>vuzp1\<close> and \<open>vuzp2\<close>, \<open>vtrn1\<close> and \<open>vtrn2\<close>) return, on either byte order.
\<close>

lemma pair_routines:
  "vzip le (\<lambda>a b. (vzip1 True a b, vzip2 True a b)) a b = (vzip1 le a b, vzip2 le a b)
    \<and> vzipq le (\<lambda>a b. (vzip1q True a b, vzip2q True a b)) a b = (vzip1q le a b, vzip2q le a b)
    \<and> vuzp le (\<lambda>a b. (vuzp1 True a b, vuzp2 True a b)) a b = (vuzp1 le a b, vuzp2 le a b)
    \<and> vuzpq le (\<lambda>a b. (vuzp1q True a b, vuzp2q True a b)) a b = (vuzp1q le a b, vuzp2q le a b)
    \<and> vtrn le (\<lambda>a b. (vtrn1 True a b, vtrn2 True a b)) a b = (vtrn1 le a b, vtrn2 le a b)
    \<and> vtrnq le (\<lambda>a b. (vtrn1q True a b, vtrn2q True a b)) a b = (vtrn1q le a b, vtrn2q le a b)"
  by (cases le; intro conjI) (simp_all add: table_defs perm_defs Let_def)

text \<open>Zipping and unzipping undo each other, and transposing undoes itself, as pairs.\<close>

lemma pairs_undo:
  fixes a b :: "'a list"
  assumes "length a \<in> {2, 4, 8}" "length b = length a"
  shows "(case vzipq le (\<lambda>a b. (vzip1q True a b, vzip2q True a b)) a b of (x, y) \<Rightarrow>
            vuzpq le (\<lambda>a b. (vuzp1q True a b, vuzp2q True a b)) x y) = (a, b)
    \<and> (case vzip le (\<lambda>a b. (vzip1 True a b, vzip2 True a b)) a b of (x, y) \<Rightarrow>
            vuzp le (\<lambda>a b. (vuzp1 True a b, vuzp2 True a b)) x y) = (a, b)
    \<and> (case vtrn le (\<lambda>a b. (vtrn1 True a b, vtrn2 True a b)) a b of (x, y) \<Rightarrow>
            vtrn le (\<lambda>a b. (vtrn1 True a b, vtrn2 True a b)) x y) = (a, b)"
  using permutations_undo [of a b a b "[undefined, undefined, undefined, undefined]" "replicate 16 undefined" le] assms
  by (auto simp: pair_routines)

end
