(* ===== verification/Zvec_Lanes.thy ===== *)
theory Zvec_Lanes
  imports Vector_Bytes Neon_Base
begin

text \<open>
  The routines of \<open>lib/clang/11.0.0/include/vecintrin.h\<close> (IBM Z vectors) that compute in C: element
  access, permutations, selection, masks, comparisons, minimum and maximum, loads and stores.  A vector
  is the list of its elements in the order of subscripts; the target is big-endian, so casts are
  \<open>bitcast False\<close>, and a cast that keeps the element width is the identity on words.  One definition
  stands for all overloads of a name with the same body; \<open>val\<close> reads a lane as its element type does,
  signed or unsigned.  Compiler builtins are arguments.
\<close>

section \<open>Element access\<close>

definition zvec_extract :: "'a list \<Rightarrow> int \<Rightarrow> 'a" where
  "zvec_extract vec index = vec ! nat (index AND (int (length vec) - 1))"

definition zvec_insert :: "'a \<Rightarrow> 'a list \<Rightarrow> int \<Rightarrow> 'a list" where
  "zvec_insert scalar vec index = vec[nat (index AND (int (length vec) - 1)) := scalar]"

text \<open>The overload for \<open>vector float\<close>, of four elements.\<close>

definition zvec_insert_float :: "'a \<Rightarrow> 'a list \<Rightarrow> int \<Rightarrow> 'a list" where
  "zvec_insert_float scalar vec index = vec[nat (index AND 1) := scalar]"

text \<open>A shuffle index of -1 leaves the element undefined: None.\<close>

definition zvec_promote :: "nat \<Rightarrow> 'a \<Rightarrow> int \<Rightarrow> 'a option list" where
  "zvec_promote n scalar index = (replicate n None)[nat (index AND (int n - 1)) := Some scalar]"

definition zvec_insert_and_zero :: "nat \<Rightarrow> 'a::zero \<Rightarrow> 'a list" where
  "zvec_insert_and_zero n pointee =
     (replicate n 0)[if n = 16 then 7 else if n = 8 then 3 else if n = 4 then 1 else 0 := pointee]"

definition zvec_splat :: "'a list \<Rightarrow> nat \<Rightarrow> 'a list" where
  "zvec_splat vec index = replicate (length vec) (vec ! index)"

definition zvec_splats :: "nat \<Rightarrow> 'a \<Rightarrow> 'a list" where
  "zvec_splats n scalar = replicate n scalar"

definition zvec_splat_s8 :: "8 word \<Rightarrow> 8 word list" where
  "zvec_splat_s8 scalar = replicate 16 scalar"

definition zvec_splat_s16 :: "16 word \<Rightarrow> 16 word list" where
  "zvec_splat_s16 scalar = replicate 8 scalar"

definition zvec_splat_s32 :: "16 word \<Rightarrow> 32 word list" where
  "zvec_splat_s32 scalar = replicate 4 (scast scalar)"

definition zvec_splat_s64 :: "16 word \<Rightarrow> 64 word list" where
  "zvec_splat_s64 scalar = replicate 2 (scast scalar)"

definition zvec_splat_u8 :: "8 word \<Rightarrow> 8 word list" where
  "zvec_splat_u8 scalar = replicate 16 scalar"

definition zvec_splat_u16 :: "16 word \<Rightarrow> 16 word list" where
  "zvec_splat_u16 scalar = replicate 8 scalar"

definition zvec_splat_u32 :: "16 word \<Rightarrow> 32 word list" where
  "zvec_splat_u32 scalar = replicate 4 (scast scalar)"

definition zvec_splat_u64 :: "16 word \<Rightarrow> 64 word list" where
  "zvec_splat_u64 scalar = replicate 2 (scast scalar)"

section \<open>Permutations\<close>

definition zvec_reve :: "'a list \<Rightarrow> 'a list" where
  "zvec_reve vec = map (\<lambda>i. vec ! i) (rev [0..<length vec])"

definition zvec_mergeh :: "'a list \<Rightarrow> 'a list \<Rightarrow> 'a list" where
  "zvec_mergeh a b = concat (map (\<lambda>i. [a ! i, b ! i]) [0..<length a div 2])"

definition zvec_mergel :: "'a list \<Rightarrow> 'a list \<Rightarrow> 'a list" where
  "zvec_mergel a b = concat (map (\<lambda>i. [a ! i, b ! i]) [length a div 2..<length a])"

text \<open>The elements at odd subscripts of the vectors taken as vectors of half as wide elements.\<close>

definition zvec_pack :: "'a::len word list \<Rightarrow> 'a word list \<Rightarrow> 'b::len word list" where
  "zvec_pack a b =
     (let ac = bitcast False a; bc = bitcast False b
      in map (\<lambda>i. ac ! (2 * i + 1)) [0..<length a] @ map (\<lambda>i. bc ! (2 * i + 1)) [0..<length b])"

definition zvec_packsu :: "('a::len word list \<Rightarrow> 'a word list \<Rightarrow> 'b::len word list) \<Rightarrow> 'a word list \<Rightarrow> 'a word list \<Rightarrow> 'b word list" where
  "zvec_packsu vpkls a b = vpkls a b"

definition zvec_packsu_signed ::
  "('a::len word list \<Rightarrow> 'a word list \<Rightarrow> 'b::len word list) \<Rightarrow> 'a word list \<Rightarrow> 'a word list \<Rightarrow> 'b word list" where
  "zvec_packsu_signed vpkls a b =
     (let zero = replicate (length a) 0
      in vpkls (map2 (AND) (mask_lanes (\<lambda>x y. sint y \<le> sint x) a zero) a)
           (map2 (AND) (mask_lanes (\<lambda>x y. sint y \<le> sint x) b zero) b))"

definition zvec_extend_s64 :: "'a::len word list \<Rightarrow> 64 word list" where
  "zvec_extend_s64 a = [scast (a ! (length a div 2 - 1)), scast (a ! (length a - 1))]"

definition zvec_load_pair :: "64 word \<Rightarrow> 64 word \<Rightarrow> 64 word list" where
  "zvec_load_pair a b = [a, b]"

text \<open>The macros over the byte-shift, bit-shift and doubleword builtins.\<close>

definition zvec_perm :: "(8 word list \<Rightarrow> 8 word list \<Rightarrow> 8 word list \<Rightarrow> 8 word list) \<Rightarrow>
    'a::len word list \<Rightarrow> 'a word list \<Rightarrow> 8 word list \<Rightarrow> 'a word list" where
  "zvec_perm vperm a b c = bitcast False (vperm (bitcast False a) (bitcast False b) c)"

definition zvec_permi :: "(64 word list \<Rightarrow> 64 word list \<Rightarrow> int \<Rightarrow> 64 word list) \<Rightarrow>
    64 word list \<Rightarrow> 64 word list \<Rightarrow> int \<Rightarrow> 64 word list" where
  "zvec_permi vpdi x y z = vpdi x y (push_bit 1 (z AND 2) OR (z AND 1))"

definition zvec_sld :: "(8 word list \<Rightarrow> 8 word list \<Rightarrow> nat \<Rightarrow> 8 word list) \<Rightarrow>
    'a::len word list \<Rightarrow> 'a word list \<Rightarrow> nat \<Rightarrow> 'a word list" where
  "zvec_sld vsldb x y z = bitcast False (vsldb (bitcast False x) (bitcast False y) z)"

definition zvec_sldw :: "(8 word list \<Rightarrow> 8 word list \<Rightarrow> nat \<Rightarrow> 8 word list) \<Rightarrow>
    'a::len word list \<Rightarrow> 'a word list \<Rightarrow> nat \<Rightarrow> 'a word list" where
  "zvec_sldw vsldb x y z = bitcast False (vsldb (bitcast False x) (bitcast False y) (z * 4))"

section \<open>Bits, masks and comparisons\<close>

definition zvec_sel :: "'a::len word list \<Rightarrow> 'a word list \<Rightarrow> 'a word list \<Rightarrow> 'a word list" where
  "zvec_sel a b c = map2 (OR) (map2 (AND) c b) (map2 (AND) (map NOT c) a)"

definition zvec_andc :: "'a::len word list \<Rightarrow> 'a word list \<Rightarrow> 'a word list" where
  "zvec_andc a b = map2 (AND) a (map NOT b)"

definition zvec_nor :: "'a::len word list \<Rightarrow> 'a word list \<Rightarrow> 'a word list" where
  "zvec_nor a b = map NOT (map2 (OR) a b)"

definition zvec_orc :: "'a::len word list \<Rightarrow> 'a word list \<Rightarrow> 'a word list" where
  "zvec_orc a b = map2 (OR) a (map NOT b)"

definition zvec_nand :: "'a::len word list \<Rightarrow> 'a word list \<Rightarrow> 'a word list" where
  "zvec_nand a b = map NOT (map2 (AND) a b)"

definition zvec_eqv :: "'a::len word list \<Rightarrow> 'a word list \<Rightarrow> 'a word list" where
  "zvec_eqv a b = map NOT (map2 (XOR) a b)"

definition zvec_cmpeq :: "'a::len word list \<Rightarrow> 'a word list \<Rightarrow> 'a word list" where
  "zvec_cmpeq a b = mask_lanes (=) a b"

definition zvec_cmpge :: "('a::len word \<Rightarrow> int) \<Rightarrow> 'a word list \<Rightarrow> 'a word list \<Rightarrow> 'a word list" where
  "zvec_cmpge val a b = mask_lanes (\<lambda>x y. val x \<ge> val y) a b"

definition zvec_cmpgt :: "('a::len word \<Rightarrow> int) \<Rightarrow> 'a word list \<Rightarrow> 'a word list \<Rightarrow> 'a word list" where
  "zvec_cmpgt val a b = mask_lanes (\<lambda>x y. val x > val y) a b"

definition zvec_cmple :: "('a::len word \<Rightarrow> int) \<Rightarrow> 'a word list \<Rightarrow> 'a word list \<Rightarrow> 'a word list" where
  "zvec_cmple val a b = mask_lanes (\<lambda>x y. val x \<le> val y) a b"

definition zvec_cmplt :: "('a::len word \<Rightarrow> int) \<Rightarrow> 'a word list \<Rightarrow> 'a word list \<Rightarrow> 'a word list" where
  "zvec_cmplt val a b = mask_lanes (\<lambda>x y. val x < val y) a b"

definition zvec_abs :: "'a::len word list \<Rightarrow> 'a word list" where
  "zvec_abs a = zvec_sel a (map uminus a) (zvec_cmplt sint a (replicate (length a) 0))"

definition zvec_max :: "('a::len word \<Rightarrow> int) \<Rightarrow> 'a word list \<Rightarrow> 'a word list \<Rightarrow> 'a word list" where
  "zvec_max val a b = zvec_sel b a (zvec_cmpgt val a b)"

definition zvec_min :: "('a::len word \<Rightarrow> int) \<Rightarrow> 'a word list \<Rightarrow> 'a word list \<Rightarrow> 'a word list" where
  "zvec_min val a b = zvec_sel a b (zvec_cmpgt val a b)"

definition zvec_mladd :: "'a::len word list \<Rightarrow> 'a word list \<Rightarrow> 'a word list \<Rightarrow> 'a word list" where
  "zvec_mladd a b c = map2 (+) (map2 (*) a b) c"

definition zvec_genmask :: "16 word \<Rightarrow> 8 word list" where
  "zvec_genmask bits =
     map (\<lambda>m. if bits AND m \<noteq> 0 then 0xff else 0)
       [0x8000, 0x4000, 0x2000, 0x1000, 0x0800, 0x0400, 0x0200, 0x0100,
        0x0080, 0x0040, 0x0020, 0x0010, 0x0008, 0x0004, 0x0002, 0x0001]"

text \<open>
  The masks of a range of bits, counted from the most significant one.  The shifts are done in
  \<open>unsigned int\<close> and the results stored in the element type; the widths are written out.
\<close>

definition zvec_genmasks_8 :: "8 word \<Rightarrow> 8 word \<Rightarrow> 8 word list" where
  "zvec_genmasks_8 first last' =
     (let bit1 = first AND 7; bit2 = last' AND 7;
          mask1 = (ucast (push_bit 1 (push_bit (unat (7 - bit1)) (1 :: 32 word))) - 1 :: 8 word);
          mask2 = (ucast (push_bit (unat (7 - bit2)) (1 :: 32 word)) - 1 :: 8 word)
      in replicate 16 (if bit1 \<le> bit2 then mask1 AND NOT mask2 else mask1 OR NOT mask2))"

definition zvec_genmasks_16 :: "8 word \<Rightarrow> 8 word \<Rightarrow> 16 word list" where
  "zvec_genmasks_16 first last' =
     (let bit1 = first AND 15; bit2 = last' AND 15;
          mask1 = (ucast (push_bit 1 (push_bit (unat (15 - bit1)) (1 :: 32 word))) - 1 :: 16 word);
          mask2 = (ucast (push_bit (unat (15 - bit2)) (1 :: 32 word)) - 1 :: 16 word)
      in replicate 8 (if bit1 \<le> bit2 then mask1 AND NOT mask2 else mask1 OR NOT mask2))"

definition zvec_genmasks_32 :: "8 word \<Rightarrow> 8 word \<Rightarrow> 32 word list" where
  "zvec_genmasks_32 first last' =
     (let bit1 = first AND 31; bit2 = last' AND 31;
          mask1 = (push_bit 1 (push_bit (unat (31 - bit1)) (1 :: 32 word)) - 1 :: 32 word);
          mask2 = (push_bit (unat (31 - bit2)) (1 :: 32 word) - 1 :: 32 word)
      in replicate 4 (if bit1 \<le> bit2 then mask1 AND NOT mask2 else mask1 OR NOT mask2))"

definition zvec_genmasks_64 :: "8 word \<Rightarrow> 8 word \<Rightarrow> 64 word list" where
  "zvec_genmasks_64 first last' =
     (let bit1 = first AND 63; bit2 = last' AND 63;
          mask1 = (push_bit 1 (push_bit (unat (63 - bit1)) (1 :: 64 word)) - 1 :: 64 word);
          mask2 = (push_bit (unat (63 - bit2)) (1 :: 64 word) - 1 :: 64 word)
      in replicate 2 (if bit1 \<le> bit2 then mask1 AND NOT mask2 else mask1 OR NOT mask2))"

section \<open>Memory\<close>

type_synonym memory = "64 word \<Rightarrow> 8 word"

text \<open>Reading and writing an object of \<open>n\<close> bytes.\<close>

definition peek :: "memory \<Rightarrow> 64 word \<Rightarrow> nat \<Rightarrow> 8 word list" where
  "peek m p n = map (\<lambda>k. m (p + of_nat k)) [0..<n]"

definition poke :: "memory \<Rightarrow> 64 word \<Rightarrow> 8 word list \<Rightarrow> memory" where
  "poke m p bs = (\<lambda>q. if unat (q - p) < length bs then bs ! unat (q - p) else m q)"

definition zvec_xl :: "memory \<Rightarrow> 64 word \<Rightarrow> 64 word \<Rightarrow> 'a::len word list" where
  "zvec_xl m offset ptr = bytes_vec False (peek m (ptr + offset) 16)"

definition zvec_xld2 :: "memory \<Rightarrow> 64 word \<Rightarrow> 64 word \<Rightarrow> 'a::len word list" where
  "zvec_xld2 m offset ptr = bytes_vec False (peek m (ptr + offset) 16)"

definition zvec_xlw4 :: "memory \<Rightarrow> 64 word \<Rightarrow> 64 word \<Rightarrow> 'a::len word list" where
  "zvec_xlw4 m offset ptr = bytes_vec False (peek m (ptr + offset) 16)"

definition zvec_xst :: "memory \<Rightarrow> 'a::len word list \<Rightarrow> 64 word \<Rightarrow> 64 word \<Rightarrow> memory" where
  "zvec_xst m vec offset ptr = poke m (ptr + offset) (vec_bytes False vec)"

definition zvec_xstd2 :: "memory \<Rightarrow> 'a::len word list \<Rightarrow> 64 word \<Rightarrow> 64 word \<Rightarrow> memory" where
  "zvec_xstd2 m vec offset ptr = poke m (ptr + offset) (vec_bytes False vec)"

definition zvec_xstw4 :: "memory \<Rightarrow> 'a::len word list \<Rightarrow> 64 word \<Rightarrow> 64 word \<Rightarrow> memory" where
  "zvec_xstw4 m vec offset ptr = poke m (ptr + offset) (vec_bytes False vec)"

definition zvec_gather_element :: "memory \<Rightarrow> 'a::len word list \<Rightarrow> 'a word list \<Rightarrow> 64 word \<Rightarrow> nat \<Rightarrow> 'a word list" where
  "zvec_gather_element m vec offset ptr index =
     vec[index := elem_of False (peek m (ptr + ucast (offset ! index)) (LENGTH('a) div 8))]"

definition zvec_scatter_element :: "memory \<Rightarrow> 'a::len word list \<Rightarrow> 'a word list \<Rightarrow> 64 word \<Rightarrow> nat \<Rightarrow> memory" where
  "zvec_scatter_element m vec offset ptr index =
     poke m (ptr + ucast (offset ! index)) (elem_bytes False (vec ! index))"

definition zvec_load_len :: "(nat \<Rightarrow> 64 word \<Rightarrow> 8 word list) \<Rightarrow> 64 word \<Rightarrow> nat \<Rightarrow> 'a::len word list" where
  "zvec_load_len vll ptr len = bitcast False (vll len ptr)"

definition zvec_store_len :: "(8 word list \<Rightarrow> nat \<Rightarrow> 64 word \<Rightarrow> memory) \<Rightarrow> 'a::len word list \<Rightarrow> 64 word \<Rightarrow> nat \<Rightarrow> memory" where
  "zvec_store_len vstl vec ptr len = vstl (bitcast False vec) len ptr"

section \<open>Subscripts stay in the vector\<close>

lemma and_pred_pow:
  assumes "n \<in> {2, 4, 8, 16 :: nat}"
  shows "i AND (int n - 1) = i mod int n"
proof -
  obtain k where "n = 2 ^ k" using assms by (auto intro: that [of 1] that [of 2] that [of 3] that [of 4])
  then have "int n - 1 = mask k" "int n = 2 ^ k" by (simp_all add: mask_eq_exp_minus_1)
  then show ?thesis by (simp add: take_bit_eq_mask flip: take_bit_eq_mod)
qed

text \<open>
  C38. Element access never leaves the vector: every \<open>int\<close> subscript counts modulo the number of
  elements, extracting what was inserted at the same element gives the scalar, and the other
  elements are kept.  The overload of \<open>vec_insert\<close> for the four elements of \<open>vector float\<close> counts
  modulo two instead: it never writes the elements 2 and 3 that \<open>vec_extract\<close> reads at the same
  subscripts, and overwrites element 0 or 1.
\<close>

theorem element_access:
  assumes "length v \<in> {2, 4, 8, 16}"
  shows "zvec_extract v i = v ! nat (i mod int (length v)) \<and> nat (i mod int (length v)) < length v
    \<and> length (zvec_insert x v i) = length v
    \<and> zvec_extract (zvec_insert x v i) j = (if i mod int (length v) = j mod int (length v) then x else zvec_extract v j)
    \<and> (length v = 4 \<and> 2 \<le> i mod 4 \<longrightarrow>
        zvec_extract (zvec_insert_float x v i) i = zvec_extract v i
        \<and> zvec_insert_float x v i = zvec_insert x v (i mod 4 - 2))"
proof -
  let ?n = "int (length v)"
  have n: "0 < ?n" using assms by auto
  note ands = and_pred_pow [OF assms] and_pred_pow [of 2, simplified]
  have lt: "nat (k mod ?n) < length v" for k using n pos_mod_bound [OF n, of k] by linarith
  have eq: "nat (i mod ?n) = nat (j mod ?n) \<longleftrightarrow> i mod ?n = j mod ?n"
    using pos_mod_sign [OF n, of i] pos_mod_sign [OF n, of j] by auto
  have insert: "zvec_extract (zvec_insert x v i) j = (if i mod ?n = j mod ?n then x else zvec_extract v j)"
    using lt [of i] lt [of j] eq by (simp add: zvec_extract_def zvec_insert_def ands)
  have float: "zvec_extract (zvec_insert_float x v i) i = zvec_extract v i \<and> zvec_insert_float x v i = zvec_insert x v (i mod 4 - 2)"
    if "length v = 4" "2 \<le> i mod 4"
  proof -
    have m: "i mod 4 = 2 \<or> i mod 4 = 3" using that(2) pos_mod_bound [of 4 i] by linarith
    have "i mod 2 = i mod 4 - 2" using m by presburger
    then show ?thesis
      using that m by (auto simp: zvec_extract_def zvec_insert_float_def zvec_insert_def ands and_pred_pow [of 4, simplified])
  qed
  have "zvec_extract v i = v ! nat (i mod ?n)" "length (zvec_insert x v i) = length v"
    by (simp_all add: zvec_extract_def zvec_insert_def ands)
  then show ?thesis using lt [of i] insert float by blast
qed

theorem element_access_witness:
  "zvec_extract (zvec_insert_float (9 :: nat) [1, 2, 3, 4] 2) 2 = 3 \<and> zvec_extract [1, 2, 3, 4 :: nat] (- 1) = 4"
  using element_access [of "[1, 2, 3, 4 :: nat]" 2 9 2] element_access [of "[1, 2, 3, 4 :: nat]" "- 1" 9 2]
  by (simp add: zvec_insert_def zvec_extract_def)

section \<open>Ranges of bits\<close>

definition in_range :: "nat \<Rightarrow> nat \<Rightarrow> nat \<Rightarrow> bool" where
  "in_range first last' k \<longleftrightarrow> (if first \<le> last' then first \<le> k \<and> k \<le> last' else first \<le> k \<or> k \<le> last')"

lemma bit_pred_power: "k \<le> LENGTH('a) \<Longrightarrow> bit (2 ^ k - 1 :: 'a::len word) n \<longleftrightarrow> n < k"
  by (auto simp: bit_mask_iff simp flip: mask_eq_exp_minus_1)

definition range_word :: "nat \<Rightarrow> nat \<Rightarrow> 'a::len word" where
  "range_word b1 b2 =
     (let m1 = push_bit (LENGTH('a) - b1) 1 - 1; m2 = push_bit (LENGTH('a) - 1 - b2) 1 - 1
      in if b1 \<le> b2 then m1 AND NOT m2 else m1 OR NOT m2)"

lemma range_word:
  assumes "b1 < LENGTH('a)" "b2 < LENGTH('a)" "k < LENGTH('a::len)"
  shows "bit (range_word b1 b2 :: 'a word) (LENGTH('a) - 1 - k) \<longleftrightarrow> in_range b1 b2 k"
proof -
  have "bit (push_bit (LENGTH('a) - b1) 1 - 1 :: 'a word) (LENGTH('a) - 1 - k) \<longleftrightarrow> b1 \<le> k"
    "bit (push_bit (LENGTH('a) - 1 - b2) 1 - 1 :: 'a word) (LENGTH('a) - 1 - k) \<longleftrightarrow> b2 < k"
    using assms by (auto simp: bit_pred_power)
  then show ?thesis
    using assms(3) by (auto simp: range_word_def Let_def in_range_def bit_and_iff bit_or_iff bit_not_iff)
qed

lemma unat_and_mask: "unat (x AND mask k :: 'a::len word) = unat x mod 2 ^ k"
  by (simp add: unsigned_take_bit_eq flip: take_bit_eq_mask take_bit_eq_mod)

lemma unat_sub_and: "unat (m - (x AND m) :: 'a::len word) = unat m - unat (x AND m)"
  by (simp add: unat_sub word_and_le1)

lemmas unat_low_bits =
  unat_and_mask [where 'a = 8 and k = 3, unfolded mask_eq_exp_minus_1, simplified]
  unat_and_mask [where 'a = 8 and k = 4, unfolded mask_eq_exp_minus_1, simplified]
  unat_and_mask [where 'a = 8 and k = 5, unfolded mask_eq_exp_minus_1, simplified]
  unat_and_mask [where 'a = 8 and k = 6, unfolded mask_eq_exp_minus_1, simplified]

lemma ucast_power: "(ucast (2 ^ n :: 32 word) :: 'a::len word) = 2 ^ n" if "LENGTH('a) \<le> 32"
  using that by (intro bit_word_eqI) (auto simp: bit_ucast_iff bit_exp_iff)

lemma Suc_low_bits:
  "Suc (7 - k mod 8) = 8 - k mod 8" "Suc (15 - k mod 16) = 16 - k mod 16"
  "Suc (31 - k mod 32) = 32 - k mod 32" "Suc (63 - k mod 64) = 64 - k mod 64" for k :: nat
  by (simp_all add: Suc_diff_le [symmetric] less_Suc_eq_le [symmetric])

lemma genmasks_value:
  fixes f l :: "8 word"
  shows "zvec_genmasks_8 f l = replicate 16 (range_word (unat f mod 8) (unat l mod 8))"
    "zvec_genmasks_16 f l = replicate 8 (range_word (unat f mod 16) (unat l mod 16))"
    "zvec_genmasks_32 f l = replicate 4 (range_word (unat f mod 32) (unat l mod 32))"
    "zvec_genmasks_64 f l = replicate 2 (range_word (unat f mod 64) (unat l mod 64))"
  by (simp_all add: zvec_genmasks_8_def zvec_genmasks_16_def zvec_genmasks_32_def zvec_genmasks_64_def Let_def range_word_def
      word_le_nat_alt unat_sub_and unat_low_bits Suc_low_bits ucast_power del: power_Suc flip: power_Suc2)

lemma genmask_bits: "zvec_genmask bits = map (\<lambda>k. if bit bits k then 0xff else 0) (rev [0..<16])"
proof -
  have b: "bits AND 2 ^ k \<noteq> 0 \<longleftrightarrow> bit bits k" for k
    by (simp add: and_exp_eq_0_iff_not_bit)
  note bs = b [of 15] b [of 14] b [of 13] b [of 12] b [of 11] b [of 10] b [of 9] b [of 8] b [of 7] b [of 6] b [of 5] b [of 4] b [of 3] b [of 2] b [of 1]
  have 0: "bits AND 1 \<noteq> 0 \<longleftrightarrow> bit bits 0" using b [of 0] by (simp only: power_0)
  have u: "rev [0..<16] = [15, 14, 13, 12, 11, 10, 9, 8, 7, 6, 5, 4, 3, 2, 1, 0 :: nat]" by (simp add: upt_rec)
  show ?thesis unfolding u zvec_genmask_def using bs [simplified power_numeral] 0 by (simp del: One_nat_def)
qed

text \<open>
  The generated masks are the ranges their names say: in every element of \<open>vec_genmasks_\<close> of
  width \<open>w\<close> the bit numbered \<open>k\<close> from the most significant one is set exactly when \<open>k\<close> lies in the
  range from \<open>first\<close> to \<open>last\<close>, both modulo \<open>w\<close>, wrapping around when the first is above the last; byte
  \<open>i\<close> of \<open>vec_genmask\<close> is all ones exactly when bit \<open>i\<close> of the mask is set.
\<close>

lemma generated_masks:
  "(e < 16 \<and> k < 8 \<longrightarrow> (bit (zvec_genmasks_8 f l ! e) (7 - k) \<longleftrightarrow> in_range (unat f mod 8) (unat l mod 8) k))
    \<and> (e < 8 \<and> k < 16 \<longrightarrow> (bit (zvec_genmasks_16 f l ! e) (15 - k) \<longleftrightarrow> in_range (unat f mod 16) (unat l mod 16) k))
    \<and> (e < 4 \<and> k < 32 \<longrightarrow> (bit (zvec_genmasks_32 f l ! e) (31 - k) \<longleftrightarrow> in_range (unat f mod 32) (unat l mod 32) k))
    \<and> (e < 2 \<and> k < 64 \<longrightarrow> (bit (zvec_genmasks_64 f l ! e) (63 - k) \<longleftrightarrow> in_range (unat f mod 64) (unat l mod 64) k))
    \<and> (i < 16 \<longrightarrow> zvec_genmask bits ! i = (if bit bits (15 - i) then 0xff else 0))"
proof -
  have "zvec_genmask bits ! i = (if bit bits (15 - i) then 0xff else 0)" if "i < 16"
    using that by (simp add: genmask_bits rev_nth)
  then show ?thesis
    using range_word [where 'a = 8, of "unat f mod 8" "unat l mod 8" k]
      range_word [where 'a = 16, of "unat f mod 16" "unat l mod 16" k]
      range_word [where 'a = 32, of "unat f mod 32" "unat l mod 32" k]
      range_word [where 'a = 64, of "unat f mod 64" "unat l mod 64" k]
    by (simp add: genmasks_value)
qed

theorem generated_masks_witness:
  "bit (zvec_genmasks_8 6 1 ! 0) 7 \<and> \<not> bit (zvec_genmasks_8 6 1 ! 0) 4 \<and> zvec_genmask 0x8000 ! 0 = 0xff"
  using generated_masks [of 0 0 6 1 0 "0x8000"] generated_masks [of 0 3 6 1 0 "0x8000"]
  by (simp add: in_range_def)

section \<open>Selection, minimum and maximum\<close>

lemma sel_mask:
  assumes "length b = length a" "length c = length a" "i < length a" "c ! i = (if p then - 1 else 0)"
  shows "zvec_sel a b c ! i = (if p then b ! i else a ! i)"
  using assms by (simp add: zvec_sel_def)

lemma length_sel: "\<lbrakk>length b = length a; length c = length a\<rbrakk> \<Longrightarrow> length (zvec_sel a b c) = length a"
  by (simp add: zvec_sel_def)

lemma length_mask_lanes: "length (mask_lanes c a b) = min (length a) (length b)"
  by (simp add: mask_lanes_def)

lemma mask_lanes_nth: "\<lbrakk>i < length a; i < length b\<rbrakk> \<Longrightarrow> mask_lanes c a b ! i = (if c (a ! i) (b ! i) then - 1 else 0)"
  by (simp add: mask_lanes_def)

text \<open>
  The lanes of the maximum and minimum are those of the operands with the larger and the smaller
  value; the absolute value wraps on the least negative lane only.
\<close>

lemma zvec_min_max_lanes:
  assumes "length b = length a" "i < length a"
  shows "zvec_max val a b ! i = (if val (a ! i) > val (b ! i) then a ! i else b ! i)"
    and "zvec_min val a b ! i = (if val (a ! i) > val (b ! i) then b ! i else a ! i)"
    and "val (zvec_max val a b ! i) = max (val (a ! i)) (val (b ! i))"
    and "val (zvec_min val a b ! i) = min (val (a ! i)) (val (b ! i))"
proof -
  have m: "zvec_cmpgt val a b ! i = (if val (a ! i) > val (b ! i) then - 1 else 0)" "length (zvec_cmpgt val a b) = length a"
    using assms by (simp_all add: zvec_cmpgt_def mask_lanes_nth length_mask_lanes)
  show "zvec_max val a b ! i = (if val (a ! i) > val (b ! i) then a ! i else b ! i)"
    "zvec_min val a b ! i = (if val (a ! i) > val (b ! i) then b ! i else a ! i)"
    using assms m sel_mask [of a b "zvec_cmpgt val a b"] sel_mask [of b a "zvec_cmpgt val a b"]
    by (simp_all add: zvec_max_def zvec_min_def)
  then show "val (zvec_max val a b ! i) = max (val (a ! i)) (val (b ! i))"
    "val (zvec_min val a b ! i) = min (val (a ! i)) (val (b ! i))" by (auto simp: max_def min_def)
qed

lemma zvec_abs_lanes:
  assumes "i < length a"
  shows "zvec_abs a ! i = (if sint (a ! i) < 0 then - (a ! i) else a ! i)"
  using assms sel_mask [of "map uminus a" a "zvec_cmplt sint a (replicate (length a) 0)" i "sint (a ! i) < 0"]
  by (simp add: zvec_abs_def zvec_cmplt_def mask_lanes_nth length_mask_lanes)

section \<open>Loads and stores\<close>

lemma peek_poke: "\<lbrakk>length bs = n; n \<le> 2 ^ 64\<rbrakk> \<Longrightarrow> peek (poke m p bs) p n = bs"
  by (intro nth_equalityI) (simp_all add: peek_def poke_def unat_of_nat take_bit_nat_eq_self)

lemma poke_elsewhere: "length bs \<le> unat (q - p) \<Longrightarrow> poke m p bs q = m q"
  by (simp add: poke_def)

text \<open>
  A vector load returns what the vector store of the same address and offset wrote, whatever the
  element type, and a store changes sixteen bytes only; gathering an element reads back what scattering
  it wrote.
\<close>

lemma vector_memory:
  fixes v :: "'a::len word list"
  assumes "8 dvd LENGTH('a)" "length v * LENGTH('a) = 128"
  shows "zvec_xl (zvec_xst m v off p) off p = v \<and> zvec_xld2 (zvec_xstd2 m v off p) off p = v
    \<and> zvec_xlw4 (zvec_xstw4 m v off p) off p = v
    \<and> (16 \<le> unat (q - (p + off)) \<longrightarrow> zvec_xst m v off p q = m q)
    \<and> (i < length v \<longrightarrow>
        zvec_gather_element (zvec_scatter_element m v offsets p i) w offsets p i = w[i := v ! i])"
proof -
  have n: "length v * (LENGTH('a) div 8) = 16" using assms by (auto simp: dvd_def mult.commute)
  then have len: "length (vec_bytes False v) = 16" by simp
  have "LENGTH('a) div 8 dvd 16" unfolding n [symmetric] by simp
  then have "LENGTH('a) div 8 \<le> 16" by (rule dvd_imp_le) simp
  then have e: "peek (poke m r (elem_bytes False x)) r (LENGTH('a) div 8) = elem_bytes False x" for r and x :: "'a word"
    by (intro peek_poke) simp_all
  show ?thesis
    using peek_poke [OF len, of m "p + off"] e len bytes_vec_of [OF assms(1)] elem_of_bytes [OF assms(1)]
    by (simp add: zvec_xl_def zvec_xst_def zvec_xld2_def zvec_xstd2_def zvec_xlw4_def zvec_xstw4_def poke_elsewhere
        zvec_gather_element_def zvec_scatter_element_def)
qed

theorem vector_memory_witness:
  "zvec_xl (zvec_xst (\<lambda>_. 0) [1, 2, 3, 4 :: 32 word] 8 64) 8 64 = [1, 2, 3, 4 :: 32 word]"
  using vector_memory [of "[1, 2, 3, 4 :: 32 word]" "\<lambda>_. 0" 8 64 0 0 "[0, 0, 0, 0]" "[0, 0, 0, 0]"] by simp

section \<open>Packing\<close>

text \<open>An element of twice the width is its high half followed by its low half.\<close>

lemma elem_bytes_halves:
  fixes x :: "'a::len word"
  assumes "LENGTH('a) = 2 * LENGTH('b::len)" "8 dvd LENGTH('b)"
  shows "elem_bytes False x
    = elem_bytes False (ucast (drop_bit LENGTH('b) x) :: 'b word) @ elem_bytes False (ucast x :: 'b word)"
proof -
  let ?n = "LENGTH('b) div 8" and ?f = "\<lambda>k. ucast (drop_bit (8 * k) x) :: 8 word"
  have n: "LENGTH('a) div 8 = ?n + ?n" "8 * ?n = LENGTH('b)" using assms by auto
  have low: "ucast (drop_bit (8 * k) (ucast x :: 'b word)) = ?f k" if "k < ?n" for k
    using that n(2) assms(1) by (intro bit_word_eqI) (auto simp: bit_ucast_iff bit_drop_bit_eq)
  have high: "ucast (drop_bit (8 * k) (ucast (drop_bit LENGTH('b) x) :: 'b word)) = ?f (k + ?n)" if "k < ?n" for k
    using that n(2) assms(1) by (intro bit_word_eqI) (auto simp: bit_ucast_iff bit_drop_bit_eq algebra_simps)
  have "map ?f [0..<?n + ?n] = map ?f [0..<?n] @ map (\<lambda>k. ?f (k + ?n)) [0..<?n]"
    unfolding upt_add_eq_append [OF le0] map_append by (simp add: map_add_upt [symmetric] del: map_add_upt)
  then show ?thesis using low high n(1) by (simp add: elem_bytes_def rev_map [symmetric] cong: map_cong)
qed

lemma bitcast_halves:
  assumes "LENGTH('a::len) = 2 * LENGTH('b::len)" "8 dvd LENGTH('b)"
  shows "(bitcast False (v :: 'a word list) :: 'b word list) = concat (map (\<lambda>x. [ucast (drop_bit LENGTH('b) x), ucast x]) v)"
proof -
  have "vec_bytes False v = vec_bytes False (concat (map (\<lambda>x. [ucast (drop_bit LENGTH('b) x), ucast x :: 'b word]) v))"
    by (induction v) (simp_all add: vec_bytes_def elem_bytes_halves [OF assms])
  then show ?thesis by (simp add: bitcast_def bytes_vec_of [OF assms(2)])
qed

lemma odd_elements: "i < length v \<Longrightarrow> concat (map (\<lambda>x. [f x, g x]) v) ! Suc (2 * i) = g (v ! i)"
proof (induction v arbitrary: i)
  case (Cons x v)
  then show ?case by (cases i) simp_all
qed simp

lemma nonnegative_lanes:
  "length a = n \<Longrightarrow> map2 (AND) (mask_lanes (\<lambda>x y. sint y \<le> sint x) a (replicate n 0)) a
    = map (\<lambda>x :: 'a::len word. if 0 \<le> sint x then x else 0) a"
  by (induction a arbitrary: n) (auto simp: mask_lanes_def)

lemma uint_nonnegative: "uint (if 0 \<le> sint x then x else 0) = max (sint x) 0" for x :: "'a::len word"
proof (cases "0 \<le> sint x")
  case True
  then have "\<not> bit x (LENGTH('a) - 1)" using bit_last_iff [of x] by simp
  then have "n < LENGTH('a) - 1" if "n < LENGTH('a)" "bit x n" for n
    using that by (cases "n = LENGTH('a) - 1") auto
  then have "take_bit (LENGTH('a) - 1) (uint x) = uint x"
    by (intro bit_eqI) (auto simp: bit_take_bit_iff bit_uint_iff)
  then have "uint x = sint x"
    using \<open>\<not> bit x (LENGTH('a) - 1)\<close> by (simp add: sint_uint signed_take_bit_eq_if_positive bit_uint_iff)
  then show ?thesis using True by simp
qed simp

text \<open>
  Packing keeps the low half of every element of both vectors, in order; and the unsigned
  packing of signed elements clamps each of them to the range of the result, given that the builtin
  packs unsigned elements with saturation.
\<close>

lemma packing:
  fixes a b :: "'a::len word list"
  assumes width: "LENGTH('a) = 2 * LENGTH('b::len)" "8 dvd LENGTH('b)" and len: "length b = length a"
    and vpkls: "\<And>a b. vpkls a b = map (\<lambda>x. word_of_int (min (uint x) (2 ^ LENGTH('b) - 1)) :: 'b word) (a @ b)"
  shows "(zvec_pack a b :: 'b word list) = map ucast (a @ b)
    \<and> zvec_packsu_signed vpkls a b = map (\<lambda>x. word_of_int (min (max (sint x) 0) (2 ^ LENGTH('b) - 1))) (a @ b)"
proof
  have "map (\<lambda>i. (bitcast False v :: 'b word list) ! (2 * i + 1)) [0..<length v] = map ucast v" for v :: "'a word list"
    unfolding bitcast_halves [OF width] by (intro nth_equalityI) (simp_all add: odd_elements)
  then show "(zvec_pack a b :: 'b word list) = map ucast (a @ b)"
    by (simp add: zvec_pack_def Let_def)
  show "zvec_packsu_signed vpkls a b = map (\<lambda>x. word_of_int (min (max (sint x) 0) (2 ^ LENGTH('b) - 1))) (a @ b)"
    unfolding zvec_packsu_signed_def Let_def vpkls nonnegative_lanes [OF refl] nonnegative_lanes [OF len]
    by (simp add: uint_nonnegative)
qed

theorem packing_witness:
  "(zvec_pack [0x1234, 0x5678] [0x9abc, 0xdef0 :: 16 word] :: 8 word list) = [0x34, 0x78, 0xbc, 0xf0]"
  using packing [of "[0x9abc, 0xdef0 :: 16 word]" "[0x1234, 0x5678]"
    "\<lambda>a b. map (\<lambda>x. word_of_int (min (uint x) (2 ^ LENGTH(8) - 1)) :: 8 word) (a @ b)"] by simp

end
