(* ===== verification/Zvec_Search.thy ===== *)
theory Zvec_Search
  imports Zvec_Lanes
begin

text \<open>
  The routines of \<open>vecintrin.h\<close> that ask a builtin about elements: predicates on all or any elements
  from its condition code, searches, and shifts of the whole vector.  The builtins are arguments; one that
  sets a condition code returns it as its second result.
\<close>

section \<open>Predicates on all or any elements\<close>

definition zvec_all_eq where
  "zvec_all_eq vceq a b \<longleftrightarrow> snd (vceq a b) = (0 :: int)"

definition zvec_all_ne where
  "zvec_all_ne vceq a b \<longleftrightarrow> snd (vceq a b) = (3 :: int)"

definition zvec_any_eq where
  "zvec_any_eq vceq a b \<longleftrightarrow> snd (vceq a b) \<le> (1 :: int)"

definition zvec_any_ne where
  "zvec_any_ne vceq a b \<longleftrightarrow> snd (vceq a b) \<noteq> (0 :: int)"

definition zvec_all_ge where
  "zvec_all_ge vch a b \<longleftrightarrow> snd (vch b a) = (3 :: int)"

definition zvec_all_gt where
  "zvec_all_gt vch a b \<longleftrightarrow> snd (vch a b) = (0 :: int)"

definition zvec_all_le where
  "zvec_all_le vch a b \<longleftrightarrow> snd (vch a b) = (3 :: int)"

definition zvec_all_lt where
  "zvec_all_lt vch a b \<longleftrightarrow> snd (vch b a) = (0 :: int)"

definition zvec_any_ge where
  "zvec_any_ge vch a b \<longleftrightarrow> snd (vch b a) \<noteq> (0 :: int)"

definition zvec_any_gt where
  "zvec_any_gt vch a b \<longleftrightarrow> snd (vch a b) \<le> (1 :: int)"

definition zvec_any_le where
  "zvec_any_le vch a b \<longleftrightarrow> snd (vch a b) \<noteq> (0 :: int)"

definition zvec_any_lt where
  "zvec_any_lt vch a b \<longleftrightarrow> snd (vch b a) \<le> (1 :: int)"

text \<open>The overloads for floating elements.\<close>

definition zvec_all_ge_fp where
  "zvec_all_ge_fp vfche a b \<longleftrightarrow> snd (vfche a b) = (0 :: int)"

definition zvec_all_gt_fp where
  "zvec_all_gt_fp vfch a b \<longleftrightarrow> snd (vfch a b) = (0 :: int)"

definition zvec_all_le_fp where
  "zvec_all_le_fp vfche a b \<longleftrightarrow> snd (vfche b a) = (0 :: int)"

definition zvec_all_lt_fp where
  "zvec_all_lt_fp vfch a b \<longleftrightarrow> snd (vfch b a) = (0 :: int)"

definition zvec_any_ge_fp where
  "zvec_any_ge_fp vfche a b \<longleftrightarrow> snd (vfche a b) \<le> (1 :: int)"

definition zvec_any_gt_fp where
  "zvec_any_gt_fp vfch a b \<longleftrightarrow> snd (vfch a b) \<le> (1 :: int)"

definition zvec_any_le_fp where
  "zvec_any_le_fp vfche a b \<longleftrightarrow> snd (vfche b a) \<le> (1 :: int)"

definition zvec_any_lt_fp where
  "zvec_any_lt_fp vfch a b \<longleftrightarrow> snd (vfch b a) \<le> (1 :: int)"

definition zvec_all_nge where
  "zvec_all_nge vfche a b \<longleftrightarrow> snd (vfche a b) = (3 :: int)"

definition zvec_all_ngt where
  "zvec_all_ngt vfch a b \<longleftrightarrow> snd (vfch a b) = (3 :: int)"

definition zvec_all_nle where
  "zvec_all_nle vfche a b \<longleftrightarrow> snd (vfche b a) = (3 :: int)"

definition zvec_all_nlt where
  "zvec_all_nlt vfch a b \<longleftrightarrow> snd (vfch b a) = (3 :: int)"

definition zvec_any_nge where
  "zvec_any_nge vfche a b \<longleftrightarrow> snd (vfche a b) \<noteq> (0 :: int)"

definition zvec_any_ngt where
  "zvec_any_ngt vfch a b \<longleftrightarrow> snd (vfch a b) \<noteq> (0 :: int)"

definition zvec_any_nle where
  "zvec_any_nle vfche a b \<longleftrightarrow> snd (vfche b a) \<noteq> (0 :: int)"

definition zvec_any_nlt where
  "zvec_any_nlt vfch a b \<longleftrightarrow> snd (vfch b a) \<noteq> (0 :: int)"

definition zvec_all_nan where
  "zvec_all_nan vftci a \<longleftrightarrow> snd (vftci a (15 :: int)) = (0 :: int)"

definition zvec_all_numeric where
  "zvec_all_numeric vftci a \<longleftrightarrow> snd (vftci a (15 :: int)) = (3 :: int)"

definition zvec_any_nan where
  "zvec_any_nan vftci a \<longleftrightarrow> snd (vftci a (15 :: int)) \<noteq> (3 :: int)"

definition zvec_any_numeric where
  "zvec_any_numeric vftci a \<longleftrightarrow> snd (vftci a (15 :: int)) \<noteq> (0 :: int)"

section \<open>Shifts of the whole vector\<close>

text \<open>The operands are cast to bytes, and the result to the type of the first operand.\<close>

definition zvec_sll ::
  "(8 word list \<Rightarrow> 8 word list \<Rightarrow> 8 word list) \<Rightarrow> 'a::len word list \<Rightarrow> 'b::len word list \<Rightarrow> 'a word list" where
  "zvec_sll vsl a b = bitcast False (vsl (bitcast False a) (bitcast False b))"

definition zvec_sral ::
  "(8 word list \<Rightarrow> 8 word list \<Rightarrow> 8 word list) \<Rightarrow> 'a::len word list \<Rightarrow> 'b::len word list \<Rightarrow> 'a word list" where
  "zvec_sral vsra a b = bitcast False (vsra (bitcast False a) (bitcast False b))"

definition zvec_srl ::
  "(8 word list \<Rightarrow> 8 word list \<Rightarrow> 8 word list) \<Rightarrow> 'a::len word list \<Rightarrow> 'b::len word list \<Rightarrow> 'a word list" where
  "zvec_srl vsrl a b = bitcast False (vsrl (bitcast False a) (bitcast False b))"

definition zvec_slb ::
  "(8 word list \<Rightarrow> 8 word list \<Rightarrow> 8 word list) \<Rightarrow> 'a::len word list \<Rightarrow> 'b::len word list \<Rightarrow> 'a word list" where
  "zvec_slb vslb a b = bitcast False (vslb (bitcast False a) (bitcast False b))"

definition zvec_srab ::
  "(8 word list \<Rightarrow> 8 word list \<Rightarrow> 8 word list) \<Rightarrow> 'a::len word list \<Rightarrow> 'b::len word list \<Rightarrow> 'a word list" where
  "zvec_srab vsrab a b = bitcast False (vsrab (bitcast False a) (bitcast False b))"

definition zvec_srb ::
  "(8 word list \<Rightarrow> 8 word list \<Rightarrow> 8 word list) \<Rightarrow> 'a::len word list \<Rightarrow> 'b::len word list \<Rightarrow> 'a word list" where
  "zvec_srb vsrlb a b = bitcast False (vsrlb (bitcast False a) (bitcast False b))"

definition zvec_sldb ::
  "(8 word list \<Rightarrow> 8 word list \<Rightarrow> nat \<Rightarrow> 8 word list) \<Rightarrow> 'a::len word list \<Rightarrow> 'a word list \<Rightarrow> nat \<Rightarrow> 'a word list" where
  "zvec_sldb vsld x y z = bitcast False (vsld (bitcast False x) (bitcast False y) z)"

definition zvec_srdb ::
  "(8 word list \<Rightarrow> 8 word list \<Rightarrow> nat \<Rightarrow> 8 word list) \<Rightarrow> 'a::len word list \<Rightarrow> 'a word list \<Rightarrow> nat \<Rightarrow> 'a word list" where
  "zvec_srdb vsrd x y z = bitcast False (vsrd (bitcast False x) (bitcast False y) z)"

definition zvec_test_mask ::
  "(8 word list \<Rightarrow> 8 word list \<Rightarrow> int) \<Rightarrow> 'a::len word list \<Rightarrow> 'a word list \<Rightarrow> int" where
  "zvec_test_mask vtm a b = vtm (bitcast False a) (bitcast False b)"

section \<open>Searches\<close>

text \<open>The \<open>_cc\<close> forms also store the condition code the builtin gives: a second result.\<close>

definition zvec_find_any_eq where
  "zvec_find_any_eq vfae a b = vfae a b (4 :: int)"

definition zvec_find_any_eq_cc where
  "zvec_find_any_eq_cc vfaes a b = vfaes a b (4 :: int)"

definition zvec_find_any_ne where
  "zvec_find_any_ne vfae a b = vfae a b (12 :: int)"

definition zvec_find_any_ne_cc where
  "zvec_find_any_ne_cc vfaes a b = vfaes a b (12 :: int)"

definition zvec_find_any_eq_idx where
  "zvec_find_any_eq_idx vfae a b = vfae a b (0 :: int)"

definition zvec_find_any_eq_idx_cc where
  "zvec_find_any_eq_idx_cc vfaes a b = vfaes a b (0 :: int)"

definition zvec_find_any_eq_or_0_idx where
  "zvec_find_any_eq_or_0_idx vfaez a b = vfaez a b (0 :: int)"

definition zvec_find_any_eq_or_0_idx_cc where
  "zvec_find_any_eq_or_0_idx_cc vfaezs a b = vfaezs a b (0 :: int)"

definition zvec_find_any_ne_idx where
  "zvec_find_any_ne_idx vfae a b = vfae a b (8 :: int)"

definition zvec_find_any_ne_idx_cc where
  "zvec_find_any_ne_idx_cc vfaes a b = vfaes a b (8 :: int)"

definition zvec_find_any_ne_or_0_idx where
  "zvec_find_any_ne_or_0_idx vfaez a b = vfaez a b (8 :: int)"

definition zvec_find_any_ne_or_0_idx_cc where
  "zvec_find_any_ne_or_0_idx_cc vfaezs a b = vfaezs a b (8 :: int)"

definition zvec_cmprg where
  "zvec_cmprg vstrc a b c = vstrc a b c (4 :: int)"

definition zvec_cmprg_cc where
  "zvec_cmprg_cc vstrcs a b c = vstrcs a b c (4 :: int)"

definition zvec_cmpnrg where
  "zvec_cmpnrg vstrc a b c = vstrc a b c (12 :: int)"

definition zvec_cmpnrg_cc where
  "zvec_cmpnrg_cc vstrcs a b c = vstrcs a b c (12 :: int)"

definition zvec_cmprg_idx where
  "zvec_cmprg_idx vstrc a b c = vstrc a b c (0 :: int)"

definition zvec_cmprg_idx_cc where
  "zvec_cmprg_idx_cc vstrcs a b c = vstrcs a b c (0 :: int)"

definition zvec_cmprg_or_0_idx where
  "zvec_cmprg_or_0_idx vstrcz a b c = vstrcz a b c (0 :: int)"

definition zvec_cmprg_or_0_idx_cc where
  "zvec_cmprg_or_0_idx_cc vstrczs a b c = vstrczs a b c (0 :: int)"

definition zvec_cmpnrg_idx where
  "zvec_cmpnrg_idx vstrc a b c = vstrc a b c (8 :: int)"

definition zvec_cmpnrg_idx_cc where
  "zvec_cmpnrg_idx_cc vstrcs a b c = vstrcs a b c (8 :: int)"

definition zvec_cmpnrg_or_0_idx where
  "zvec_cmpnrg_or_0_idx vstrcz a b c = vstrcz a b c (8 :: int)"

definition zvec_cmpnrg_or_0_idx_cc where
  "zvec_cmpnrg_or_0_idx_cc vstrczs a b c = vstrczs a b c (8 :: int)"

definition zvec_cmpeq_idx where
  "zvec_cmpeq_idx vfee a b = vfee a b"

definition zvec_cmpeq_idx_cc where
  "zvec_cmpeq_idx_cc vfees a b = vfees a b"

definition zvec_cmpeq_or_0_idx where
  "zvec_cmpeq_or_0_idx vfeez a b = vfeez a b"

definition zvec_cmpeq_or_0_idx_cc where
  "zvec_cmpeq_or_0_idx_cc vfeezs a b = vfeezs a b"

definition zvec_cmpne_idx where
  "zvec_cmpne_idx vfene a b = vfene a b"

definition zvec_cmpne_idx_cc where
  "zvec_cmpne_idx_cc vfenes a b = vfenes a b"

definition zvec_cmpne_or_0_idx where
  "zvec_cmpne_or_0_idx vfenez a b = vfenez a b"

definition zvec_cmpne_or_0_idx_cc where
  "zvec_cmpne_or_0_idx_cc vfenezs a b = vfenezs a b"

definition zvec_cp_until_zero where
  "zvec_cp_until_zero vistr a = vistr a"

definition zvec_cp_until_zero_cc where
  "zvec_cp_until_zero_cc vistrs a = vistrs a"

definition zvec_search_string_cc where
  "zvec_search_string_cc vstrs a b c = vstrs a b (c :: 8 word list)"

definition zvec_search_string_until_zero_cc where
  "zvec_search_string_until_zero_cc vstrsz a b c = vstrsz a b (c :: 8 word list)"

section \<open>The predicates\<close>

text \<open>The documented condition code of a comparison: 0 for all elements, 1 for some, 3 for none.\<close>

definition cc_of :: "bool list \<Rightarrow> int" where
  "cc_of ps = (if list_all id ps then 0 else if list_ex id ps then 1 else 3)"

lemmas predicate_defs =
  zvec_all_eq_def zvec_all_ne_def zvec_any_eq_def zvec_any_ne_def zvec_all_ge_def zvec_all_gt_def
  zvec_all_le_def zvec_all_lt_def zvec_any_ge_def zvec_any_gt_def zvec_any_le_def zvec_any_lt_def
  zvec_all_ge_fp_def zvec_all_gt_fp_def zvec_all_le_fp_def zvec_all_lt_fp_def zvec_any_ge_fp_def
  zvec_any_gt_fp_def zvec_any_le_fp_def zvec_any_lt_fp_def zvec_all_nge_def zvec_all_ngt_def zvec_all_nle_def
  zvec_all_nlt_def zvec_any_nge_def zvec_any_ngt_def zvec_any_nle_def zvec_any_nlt_def zvec_all_nan_def
  zvec_all_numeric_def zvec_any_nan_def zvec_any_numeric_def

lemma cc_of_simps:
  "cc_of ps = 0 \<longleftrightarrow> list_all id ps" "ps \<noteq> [] \<Longrightarrow> cc_of ps = 3 \<longleftrightarrow> \<not> list_ex id ps"
  "ps \<noteq> [] \<Longrightarrow> cc_of ps \<le> 1 \<longleftrightarrow> list_ex id ps"
  by (cases ps; simp add: cc_of_def)+

lemma cc_lanes:
  assumes "length b = length a" "a \<noteq> []"
  shows "cc_of (map2 p a b) = 0 \<longleftrightarrow> (\<forall>(x, y) \<in> set (zip a b). p x y)"
    "cc_of (map2 p a b) = 3 \<longleftrightarrow> (\<forall>(x, y) \<in> set (zip a b). \<not> p x y)"
    "cc_of (map2 p a b) \<noteq> 0 \<longleftrightarrow> (\<exists>(x, y) \<in> set (zip a b). \<not> p x y)"
    "cc_of (map2 p a b) \<le> 1 \<longleftrightarrow> (\<exists>(x, y) \<in> set (zip a b). p x y)"
proof -
  have ne: "map2 p a b \<noteq> []" using assms by auto
  show "cc_of (map2 p a b) = 0 \<longleftrightarrow> (\<forall>(x, y) \<in> set (zip a b). p x y)"
    "cc_of (map2 p a b) = 3 \<longleftrightarrow> (\<forall>(x, y) \<in> set (zip a b). \<not> p x y)"
    "cc_of (map2 p a b) \<noteq> 0 \<longleftrightarrow> (\<exists>(x, y) \<in> set (zip a b). \<not> p x y)"
    "cc_of (map2 p a b) \<le> 1 \<longleftrightarrow> (\<exists>(x, y) \<in> set (zip a b). p x y)"
    unfolding cc_of_simps(1) cc_of_simps(2,3) [OF ne] list_all_iff list_ex_iff set_map bex_simps(7) ball_simps(9)
    by (simp_all add: case_prod_unfold)
qed

lemma map2_exchange: "map2 p b a = map2 (\<lambda>x y. p y x) a b"
  by (simp add: zip_commute [of b a] comp_def case_prod_unfold)

lemma not_all_pairs: "(\<not> (\<forall>(x, y) \<in> s. p x y)) \<longleftrightarrow> (\<exists>(x, y) \<in> s. \<not> p x y)"
  by auto

lemma not_all_elements: "(\<not> (\<forall>x \<in> s. q x)) \<longleftrightarrow> (\<exists>x \<in> s. \<not> q x)"
  by simp

lemma cc_elements:
  assumes "a \<noteq> []"
  shows "cc_of (map q a) = 0 \<longleftrightarrow> (\<forall>x \<in> set a. q x)" "cc_of (map q a) = 3 \<longleftrightarrow> (\<forall>x \<in> set a. \<not> q x)"
    "cc_of (map q a) \<noteq> 0 \<longleftrightarrow> (\<exists>x \<in> set a. \<not> q x)" "cc_of (map q a) \<noteq> 3 \<longleftrightarrow> (\<exists>x \<in> set a. q x)"
proof -
  have ne: "map q a \<noteq> []" using assms by simp
  show "cc_of (map q a) = 0 \<longleftrightarrow> (\<forall>x \<in> set a. q x)" "cc_of (map q a) = 3 \<longleftrightarrow> (\<forall>x \<in> set a. \<not> q x)"
    "cc_of (map q a) \<noteq> 0 \<longleftrightarrow> (\<exists>x \<in> set a. \<not> q x)" "cc_of (map q a) \<noteq> 3 \<longleftrightarrow> (\<exists>x \<in> set a. q x)"
    unfolding cc_of_simps(1) cc_of_simps(2,3) [OF ne] list_all_iff list_ex_iff by simp_all
qed

text \<open>
  The predicates answer for all or any elements as their names say, from the condition codes of the
  two comparisons (equal, greater) of integer elements and the three of floating ones, where \<open>ge\<close> and
  \<open>gt\<close> may both fail on a NaN and the \<open>n\<close> forms are their complements, and of the test for a NaN.
\<close>

lemma predicates:
  fixes val :: "'a \<Rightarrow> int" and a b :: "'a list"
  assumes "length b = length a" "a \<noteq> []"
    and "\<And>a b. snd (vceq a b) = cc_of (map2 (=) a b)"
    and "\<And>a b. snd (vch a b) = cc_of (map2 (\<lambda>x y. val x > val y) a b)"
    and "\<And>a b. snd (vfche a b) = cc_of (map2 ge a b)" "\<And>a b. snd (vfch a b) = cc_of (map2 gt a b)"
    and "\<And>a. snd (vftci a 15) = cc_of (map nan a)"
  shows "let all = (\<lambda>p. \<forall>(x, y) \<in> set (zip a b). p x y); any = (\<lambda>p. \<exists>(x, y) \<in> set (zip a b). p x y) in
    zvec_all_eq vceq a b = all (=) \<and> zvec_all_ne vceq a b = all (\<noteq>)
    \<and> zvec_any_eq vceq a b = any (=) \<and> zvec_any_ne vceq a b = any (\<noteq>)
    \<and> zvec_all_ge vch a b = all (\<lambda>x y. val x \<ge> val y) \<and> zvec_all_gt vch a b = all (\<lambda>x y. val x > val y)
    \<and> zvec_all_le vch a b = all (\<lambda>x y. val x \<le> val y) \<and> zvec_all_lt vch a b = all (\<lambda>x y. val x < val y)
    \<and> zvec_any_ge vch a b = any (\<lambda>x y. val x \<ge> val y) \<and> zvec_any_gt vch a b = any (\<lambda>x y. val x > val y)
    \<and> zvec_any_le vch a b = any (\<lambda>x y. val x \<le> val y) \<and> zvec_any_lt vch a b = any (\<lambda>x y. val x < val y)
    \<and> zvec_all_ge_fp vfche a b = all ge \<and> zvec_all_gt_fp vfch a b = all gt
    \<and> zvec_all_le_fp vfche a b = all (\<lambda>x y. ge y x) \<and> zvec_all_lt_fp vfch a b = all (\<lambda>x y. gt y x)
    \<and> zvec_any_ge_fp vfche a b = any ge \<and> zvec_any_gt_fp vfch a b = any gt
    \<and> zvec_any_le_fp vfche a b = any (\<lambda>x y. ge y x) \<and> zvec_any_lt_fp vfch a b = any (\<lambda>x y. gt y x)
    \<and> zvec_all_nge vfche a b = all (\<lambda>x y. \<not> ge x y) \<and> zvec_all_ngt vfch a b = all (\<lambda>x y. \<not> gt x y)
    \<and> zvec_all_nle vfche a b = all (\<lambda>x y. \<not> ge y x) \<and> zvec_all_nlt vfch a b = all (\<lambda>x y. \<not> gt y x)
    \<and> zvec_any_nge vfche a b = any (\<lambda>x y. \<not> ge x y) \<and> zvec_any_ngt vfch a b = any (\<lambda>x y. \<not> gt x y)
    \<and> zvec_any_nle vfche a b = any (\<lambda>x y. \<not> ge y x) \<and> zvec_any_nlt vfch a b = any (\<lambda>x y. \<not> gt y x)
    \<and> zvec_all_nan vftci a = (\<forall>x \<in> set a. nan x) \<and> zvec_all_numeric vftci a = (\<forall>x \<in> set a. \<not> nan x)
    \<and> zvec_any_nan vftci a = (\<exists>x \<in> set a. nan x) \<and> zvec_any_numeric vftci a = (\<exists>x \<in> set a. \<not> nan x)"
proof -
  note cc = cc_lanes(1,2,4) [OF assms(1,2)] cc_elements(1,2) [OF assms(2)]
  show ?thesis
    unfolding predicate_defs Let_def assms(3-) map2_exchange [of _ b a]
    apply (intro conjI; (simp only: cc not_less not_le not_all_pairs not_all_elements not_not)?)
    by (simp_all add: case_prod_unfold not_less)
qed

theorem predicates_witness:
  "zvec_any_gt (\<lambda>a b. ((), cc_of (map2 (>) a b))) [5, 1 :: int] [3, 2]
    \<and> \<not> zvec_all_gt (\<lambda>a b. ((), cc_of (map2 (>) a b))) [5, 1 :: int] [3, 2]"
  using predicates [of "[3, 2 :: int]" "[5, 1]" "\<lambda>a b. ((), cc_of (map2 (=) a b))" "\<lambda>a b. ((), cc_of (map2 (>) a b))"
      id "\<lambda>a b. ((), cc_of (map2 (\<ge>) a b))" "(\<ge>)" "\<lambda>a b. ((), cc_of (map2 (>) a b))" "(>)"
      "\<lambda>a k. ((), cc_of (map (\<lambda>_. False) a))" "\<lambda>_. False"]
  by (simp add: Let_def)

end
