(* ===== verification/Byte_Tools.thy ===== *)
theory Byte_Tools
  imports Reko_Prelude "HOL-Library.Char_ord"
begin

text \<open>
  Two filters on files: \<open>dehexdump/dehexdump/DeHexdumper.cs\<close>, which turns a hexadecimal dump back into
  bytes, and \<open>swapw/Program.cs\<close>, which reverses the bytes of every 32-bit word.  Text is the list of the
  lines \<open>ReadLine\<close> gives, of ASCII characters.
\<close>

section \<open>Reading a dump\<close>

definition code_of :: "char \<Rightarrow> nat" where
  "code_of c = of_char c"

definition is_white :: "char \<Rightarrow> bool" where
  "is_white c \<longleftrightarrow> code_of c = 32 \<or> 9 \<le> code_of c \<and> code_of c \<le> 13"

definition trim :: "string \<Rightarrow> string" where
  "trim s = rev (dropWhile is_white (rev (dropWhile is_white s)))"

definition to_lower :: "char \<Rightarrow> char" where
  "to_lower c = (if 65 \<le> code_of c \<and> code_of c \<le> 90 then char_of (code_of c + 32) else c)"

text \<open>\<open>[0-9a-f]\<close> with \<open>RegexOptions.IgnoreCase\<close>.\<close>

definition is_hex :: "char \<Rightarrow> bool" where
  "is_hex c \<longleftrightarrow> (let d = code_of c in 48 \<le> d \<and> d \<le> 57 \<or> 97 \<le> d \<and> d \<le> 102 \<or> 65 \<le> d \<and> d \<le> 70)"

text \<open>A regular expression of fixed length: one test for each character, in order; what is left is not looked at.\<close>

fun match_tests :: "(char \<Rightarrow> bool) list \<Rightarrow> string \<Rightarrow> bool" where
  "match_tests [] s = True"
| "match_tests (t # ts) [] = False"
| "match_tests (t # ts) (c # s) = (t c \<and> match_tests ts s)"

definition is_char :: "char \<Rightarrow> char \<Rightarrow> bool" where
  "is_char c d \<longleftrightarrow> c = d"

datatype dump_format = Colon_Format | Bar_Format

definition half_tests :: "dump_format \<Rightarrow> (char \<Rightarrow> bool) list" where
  "half_tests re = concat (replicate 8
     (case re of Colon_Format \<Rightarrow> [is_char CHR '' '', is_hex, is_hex] | Bar_Format \<Rightarrow> [is_hex, is_hex, is_char CHR '' '']))"

text \<open>The tests before the first half and between the halves.\<close>

definition lead_tests :: "dump_format \<Rightarrow> (char \<Rightarrow> bool) list" where
  "lead_tests re = replicate 8 is_hex
     @ (case re of Colon_Format \<Rightarrow> [is_char CHR '':''] | Bar_Format \<Rightarrow> [is_char CHR '' '', is_char CHR '' ''])"

definition gap_tests :: "dump_format \<Rightarrow> (char \<Rightarrow> bool) list" where
  "gap_tests re = (case re of Colon_Format \<Rightarrow> [] | Bar_Format \<Rightarrow> [is_char CHR '' ''])"

definition regex_match :: "dump_format \<Rightarrow> string \<Rightarrow> (string \<times> string) option" where
  "regex_match re line =
     (if match_tests (lead_tests re @ half_tests re @ gap_tests re @ half_tests re) line then
        let first_half = drop (length (lead_tests re)) line;
            second_half = drop (length (half_tests re) + length (gap_tests re)) first_half
        in Some (take (length (half_tests re)) first_half, take (length (half_tests re)) second_half)
      else None)"

definition sniff :: "string \<Rightarrow> dump_format option" where
  "sniff first_line =
     (if regex_match Colon_Format first_line \<noteq> None then Some Colon_Format
      else if regex_match Bar_Format first_line \<noteq> None then Some Bar_Format else None)"

text \<open>The loop of \<open>Emit\<close>: \<open>hex\<close> keeps all digits, and the cast to byte the last two.\<close>

fun emit_loop :: "string \<Rightarrow> 32 word \<Rightarrow> nat \<Rightarrow> 8 word list \<Rightarrow> 8 word list" where
  "emit_loop [] hex n out = out"
| "emit_loop (c # cs) hex n out =
     (let d = code_of c;
          (hex', n') = (if 48 \<le> d \<and> d \<le> 57 then (hex * 16 + of_nat (d - 48), n + 1)
                        else if 97 \<le> d \<and> d \<le> 102 then (hex * 16 + of_nat (d - 97) + 10, n + 1) else (hex, n))
      in if n' = 2 then emit_loop cs hex' 0 (out @ [ucast hex']) else emit_loop cs hex' n' out)"

definition emit :: "string \<Rightarrow> 8 word list \<Rightarrow> 8 word list" where
  "emit item out = emit_loop item 0 0 out"

definition process_line :: "dump_format \<Rightarrow> string \<Rightarrow> 8 word list \<Rightarrow> 8 word list" where
  "process_line re line out =
     (case regex_match re line of None \<Rightarrow> out | Some (first_half, second_half) \<Rightarrow> emit second_half (emit first_half out))"

text \<open>The exit code and the bytes written.\<close>

definition dehex :: "string list \<Rightarrow> int \<times> 8 word list" where
  "dehex input =
     (case input of
        [] \<Rightarrow> (0, [])
      | line # lines \<Rightarrow>
          let first_line = map to_lower (trim line)
          in (case sniff first_line of
                None \<Rightarrow> (1, [])
              | Some re \<Rightarrow> (0, fold (process_line re) (map trim (first_line # lines)) [])))"

section \<open>Reversing words\<close>

definition read_uint32 :: "8 word list \<Rightarrow> 32 word" where
  "read_uint32 bs = foldr (\<lambda>b w. push_bit 8 w OR ucast b) bs 0"

definition write_uint32 :: "32 word \<Rightarrow> 8 word list" where
  "write_uint32 w = map (\<lambda>i. ucast (drop_bit (8 * i) w)) [0..<4]"

definition swap_word :: "32 word \<Rightarrow> 32 word" where
  "swap_word u = drop_bit 24 u OR (drop_bit 8 u AND 0xFF00) OR (push_bit 8 u AND 0xFF0000) OR push_bit 24 u"

text \<open>Reading raises at the end of the stream, and what is left of a word is dropped.\<close>

fun swapw :: "8 word list \<Rightarrow> 8 word list" where
  "swapw (a # b # c # d # bs) = write_uint32 (swap_word (read_uint32 [a, b, c, d])) @ swapw bs"
| "swapw bs = []"

declare emit_loop.simps(2) [simp del]

section \<open>Dumps\<close>

definition dump_digit :: "nat \<Rightarrow> char" where
  "dump_digit n = char_of (if n < 10 then 48 + n else 87 + n)"

definition byte_text :: "8 word \<Rightarrow> string" where
  "byte_text b = [dump_digit (unat b div 16), dump_digit (unat b mod 16)]"

definition half_text :: "dump_format \<Rightarrow> 8 word list \<Rightarrow> string" where
  "half_text re bs = concat (map (\<lambda>b. case re of Colon_Format \<Rightarrow> CHR '' '' # byte_text b | Bar_Format \<Rightarrow> byte_text b @ '' '') bs)"

text \<open>A line of a dump: the address, sixteen bytes, and what follows them.\<close>

definition dump_core :: "dump_format \<Rightarrow> nat list \<Rightarrow> 8 word list \<Rightarrow> string" where
  "dump_core re addr bs =
     (case re of
        Colon_Format \<Rightarrow> map dump_digit addr @ '':'' @ half_text re (take 8 bs) @ half_text re (drop 8 bs)
      | Bar_Format \<Rightarrow> map dump_digit addr @ ''  '' @ half_text re (take 8 bs) @ '' '' @ half_text re (drop 8 bs))"

definition dump_line :: "dump_format \<Rightarrow> nat list \<times> 8 word list \<times> string \<Rightarrow> string" where
  "dump_line re e = (case e of (addr, bs, rest) \<Rightarrow> dump_core re addr bs @ rest)"

definition dump_ok :: "dump_format \<Rightarrow> nat list \<times> 8 word list \<times> string \<Rightarrow> bool" where
  "dump_ok re e \<longleftrightarrow> (case e of (addr, bs, rest) \<Rightarrow>
     length addr = 8 \<and> list_all (\<lambda>d. d < 16) addr \<and> length bs = 16
     \<and> (re = Bar_Format \<longrightarrow> list_ex (\<lambda>c. \<not> is_white c) rest))"

lemma digit_code: "n < 16 \<Longrightarrow> code_of (dump_digit n) = (if n < 10 then 48 + n else 87 + n)"
  by (simp add: code_of_def dump_digit_def)

lemma digit_facts:
  assumes "n < 16"
  shows "is_hex (dump_digit n)" "\<not> is_white (dump_digit n)" "to_lower (dump_digit n) = dump_digit n" "dump_digit n \<noteq> CHR '' ''"
    "dump_digit n \<noteq> CHR '':''"
proof -
  show "is_hex (dump_digit n)" "\<not> is_white (dump_digit n)" "to_lower (dump_digit n) = dump_digit n"
    using assms by (auto simp: is_hex_def is_white_def to_lower_def digit_code)
  have "code_of (CHR '' '') = 32" "code_of (CHR '':'') = 58" by (simp_all add: code_of_def)
  then show "dump_digit n \<noteq> CHR '' ''" "dump_digit n \<noteq> CHR '':''"
    using digit_code [OF assms] by (auto split: if_splits)
qed

lemma byte_digits: "unat (b :: 8 word) div 16 < 16" "unat b mod 16 < 16"
proof -
  have "unat b < 2 ^ LENGTH(8)" by (rule unsigned_less)
  then show "unat b div 16 < 16" "unat b mod 16 < 16" by simp_all
qed

lemma last_digits: "(ucast ((h * 16 + of_nat m) * 16 + of_nat n :: 32 word) :: 8 word) = of_nat (m * 16 + n)"
proof -
  have "((h * 16 + of_nat m) * 16 + of_nat n :: 32 word) = of_nat ((unat h * 16 + m) * 16 + n)" by simp
  moreover have "(ucast (of_nat k :: 32 word) :: 8 word) = of_nat k" for k
    by (simp add: unsigned_of_nat word_of_nat_eq_iff)
  moreover have "(of_nat ((unat h * 16 + m) * 16 + n) :: 8 word) = of_nat (m * 16 + n)"
  proof -
    have e: "(unat h * 16 + m) * 16 + n = (m * 16 + n) + unat h * 256" by simp
    have "((unat h * 16 + m) * 16 + n) mod 256 = (m * 16 + n) mod 256" unfolding e by (rule mod_mult_self1)
    then show ?thesis unfolding word_of_nat_eq_iff take_bit_eq_mod by simp
  qed
  ultimately show ?thesis by metis
qed

lemma emit_digit:
  assumes "d < 16"
  shows "emit_loop (dump_digit d # cs) hex n out
    = (if n + 1 = 2 then emit_loop cs (hex * 16 + of_nat d) 0 (out @ [ucast (hex * 16 + of_nat d :: 32 word)])
       else emit_loop cs (hex * 16 + of_nat d) (n + 1) out)"
proof -
  have "of_nat (d - 10) + 10 = (of_nat d :: 32 word)" if "\<not> d < 10"
    using that by (metis le_add_diff_inverse2 not_less of_nat_add of_nat_numeral)
  then show ?thesis using assms by (auto simp: emit_loop.simps(2) digit_code Let_def add.assoc)
qed

lemma emit_byte: "\<exists>hex'. emit_loop (byte_text b @ cs) hex 0 out = emit_loop cs hex' 0 (out @ [b])"
proof -
  let ?h = "(hex * 16 + of_nat (unat b div 16)) * 16 + of_nat (unat b mod 16)"
  have "of_nat (unat b div 16 * 16 + unat b mod 16) = b" unfolding div_mult_mod_eq by simp
  then have "ucast ?h = b" by (simp only: last_digits)
  moreover have "emit_loop (byte_text b @ cs) hex 0 out = emit_loop cs ?h 0 (out @ [ucast ?h])"
    by (simp only: byte_text_def append.simps emit_digit [OF byte_digits(1)] emit_digit [OF byte_digits(2)]) simp
  ultimately show ?thesis by metis
qed

lemma emit_space: "emit_loop (CHR '' '' # cs) hex 0 out = emit_loop cs hex 0 out"
  by (simp add: emit_loop.simps(2) code_of_def)

lemma emit_half: "\<exists>hex'. emit_loop (half_text re bs) hex 0 out = emit_loop [] hex' 0 (out @ bs)"
proof (induction bs arbitrary: hex out)
  case (Cons b bs)
  show ?case
  proof (cases re)
    case Colon_Format
    then have "emit_loop (half_text re (b # bs)) hex 0 out = emit_loop (byte_text b @ half_text re bs) hex 0 out"
      by (simp add: half_text_def emit_space)
    then show ?thesis using emit_byte [of b "half_text re bs" hex out] Cons by fastforce
  next
    case Bar_Format
    then have "half_text re (b # bs) = byte_text b @ CHR '' '' # half_text re bs" by (simp add: half_text_def)
    then show ?thesis using emit_byte [of b "CHR '' '' # half_text re bs" hex out] Cons [of _ "out @ [b]"] by (fastforce simp: emit_space)
  qed
qed (simp add: half_text_def)

lemma emit_half_text [simp]: "emit (half_text re bs) out = out @ bs"
  using emit_half [of re bs 0 out] by (auto simp: emit_def)

text \<open>A dump line is matched by its own format only.\<close>

lemma match_tests_append: "match_tests ts s \<Longrightarrow> match_tests ts (s @ r)"
  by (induction ts s rule: match_tests.induct) simp_all

lemma match_tests_map: "length ts = length s \<Longrightarrow> list_all2 (\<lambda>t c. t c) ts s \<Longrightarrow> match_tests ts s"
  by (induction ts s rule: match_tests.induct) simp_all

lemma tests_append: "\<lbrakk>list_all2 P ts s; list_all2 P us t\<rbrakk> \<Longrightarrow> list_all2 P (ts @ us) (s @ t)"
  by (simp add: list_all2_appendI)

lemma half_matches: "length bs = 8 \<Longrightarrow> list_all2 (\<lambda>t c. t c) (half_tests re) (half_text re bs)"
proof -
  have byte: "is_hex (dump_digit (unat b div 16)) \<and> is_hex (dump_digit (unat b mod 16))" for b :: "8 word"
    using byte_digits [of b] digit_facts(1) by blast
  have "list_all2 (\<lambda>t c. t c) (concat (replicate (length bs)
      (case re of Colon_Format \<Rightarrow> [is_char CHR '' '', is_hex, is_hex] | Bar_Format \<Rightarrow> [is_hex, is_hex, is_char CHR '' ''])))
     (half_text re bs)"
    by (induction bs) (cases re; simp add: half_text_def byte_text_def byte is_char_def)+
  then show "length bs = 8 \<Longrightarrow> list_all2 (\<lambda>t c. t c) (half_tests re) (half_text re bs)" by (simp add: half_tests_def)
qed

lemma half_length: "length (half_text re bs) = 3 * length bs" "length (half_tests re) = 24"
proof -
  show "length (half_text re bs) = 3 * length bs"
    by (induction bs) (cases re; simp add: half_text_def byte_text_def)+
  show "length (half_tests re) = 24" by (cases re; simp add: half_tests_def length_concat sum_list_replicate)
qed

lemma addr_matches: "list_all (\<lambda>d. d < 16) addr \<Longrightarrow> list_all2 (\<lambda>t c. t c) (replicate (length addr) is_hex) (map dump_digit addr)"
  by (induction addr) (auto simp: digit_facts)

lemma regex_match_dump:
  assumes "length addr = 8" "list_all (\<lambda>d. d < 16) addr" "length bs = 16"
  shows "regex_match re (dump_core re addr bs @ rest) = Some (half_text re (take 8 bs), half_text re (drop 8 bs))"
proof -
  have h: "list_all2 (\<lambda>t c. t c) (half_tests re) (half_text re (take 8 bs))"
      "list_all2 (\<lambda>t c. t c) (half_tests re) (half_text re (drop 8 bs))"
    using assms(3) by (simp_all add: half_matches)
  have a: "list_all2 (\<lambda>t c. t c) (replicate 8 is_hex) (map dump_digit addr)"
    using addr_matches [OF assms(2)] assms(1) by simp
  have t: "list_all2 (\<lambda>t c. t c) (lead_tests re @ half_tests re @ gap_tests re @ half_tests re) (dump_core re addr bs)"
  proof (cases re)
    case Colon_Format
    have "list_all2 (\<lambda>t c. t c) (replicate 8 is_hex @ [is_char CHR '':''] @ half_tests re @ half_tests re)
        (map dump_digit addr @ '':'' @ half_text re (take 8 bs) @ half_text re (drop 8 bs))"
      by (intro tests_append a h) (simp add: is_char_def)
    then show ?thesis by (simp add: Colon_Format dump_core_def lead_tests_def gap_tests_def)
  next
    case Bar_Format
    have "list_all2 (\<lambda>t c. t c) (replicate 8 is_hex @ [is_char CHR '' '', is_char CHR '' ''] @ half_tests re @ [is_char CHR '' ''] @ half_tests re)
        (map dump_digit addr @ ''  '' @ half_text re (take 8 bs) @ '' '' @ half_text re (drop 8 bs))"
      by (intro tests_append a h) (simp_all add: is_char_def)
    then show ?thesis by (simp add: Bar_Format dump_core_def lead_tests_def gap_tests_def)
  qed
  have m: "match_tests (lead_tests re @ half_tests re @ gap_tests re @ half_tests re) (dump_core re addr bs @ rest)"
    by (intro match_tests_append match_tests_map list_all2_lengthD [OF t] t)
  have "length (half_text re (take 8 bs)) = 24" "length (half_text re (drop 8 bs)) = 24"
    using assms(3) by (simp_all add: half_length)
  then show ?thesis
    using m assms(1) by (cases re) (simp_all add: regex_match_def dump_core_def lead_tests_def gap_tests_def half_length)
qed

lemma colon_after_address: "regex_match Colon_Format line \<noteq> None \<Longrightarrow> length line > 8 \<Longrightarrow> line ! 8 = CHR '':''"
proof -
  assume m: "regex_match Colon_Format line \<noteq> None" and "length line > 8"
  then obtain a c r where line: "line = a @ c # r" "length a = 8" by (metis id_take_nth_drop length_take min.absorb4)
  have "match_tests (replicate (length a) is_hex @ t # ts) (a @ c # r) \<Longrightarrow> t c" for a t ts
    by (induction a) simp_all
  from this [of a "is_char CHR '':''" "half_tests Colon_Format @ half_tests Colon_Format"] m line
  have "c = CHR '':''" by (simp add: regex_match_def lead_tests_def gap_tests_def is_char_def split: if_splits)
  then show "line ! 8 = CHR '':''" using line by (simp add: nth_append)
qed

lemma dump_core_nth: "length addr = 8 \<Longrightarrow> dump_core Bar_Format addr bs ! 8 = CHR '' ''" "length (dump_core re addr bs) > length addr"
  by (simp add: dump_core_def nth_append) (cases re; simp add: dump_core_def)

lemma dump_core_ends:
  assumes "length addr = 8" "list_all (\<lambda>d. d < 16) addr" "length bs = 16"
  shows "\<not> is_white (hd (dump_core re addr bs))" "dump_core re addr bs \<noteq> []" "\<not> is_white (last (dump_core Colon_Format addr bs))"
    "map to_lower (dump_core re addr bs) = dump_core re addr bs"
proof -
  obtain d ds where addr: "addr = d # ds" using assms(1) by (cases addr) auto
  show "dump_core re addr bs \<noteq> []" using dump_core_nth(2) [of addr re bs] by auto
  show "\<not> is_white (hd (dump_core re addr bs))"
    using addr assms(2) by (cases re) (simp_all add: dump_core_def digit_facts)
  obtain bs' b where bs: "drop 8 bs = bs' @ [b]" using assms(3) by (cases "drop 8 bs" rule: rev_cases) auto
  show "\<not> is_white (last (dump_core Colon_Format addr bs))"
    using byte_digits(2) [of b] by (simp add: dump_core_def bs half_text_def byte_text_def digit_facts)
  have "map to_lower (half_text re bs) = half_text re bs" for bs
    using byte_digits by (induction bs) (cases re; simp add: half_text_def byte_text_def digit_facts; simp add: to_lower_def code_of_def)+
  moreover have "map to_lower (map dump_digit addr) = map dump_digit addr"
    using assms(2) by (induction addr) (simp_all add: digit_facts)
  ultimately show "map to_lower (dump_core re addr bs) = dump_core re addr bs"
    by (cases re) (simp_all add: dump_core_def, simp_all add: to_lower_def code_of_def)
qed

lemma trim_tail:
  assumes "s \<noteq> []" "\<not> is_white (hd s)" "\<not> is_white (last s) \<or> (\<exists>c \<in> set rest. \<not> is_white c)"
  shows "\<exists>rest'. trim (s @ rest) = s @ rest' \<and> (\<forall>c \<in> set rest. \<not> is_white c \<longrightarrow> c \<in> set rest')"
proof -
  have front: "dropWhile is_white (s @ rest) = s @ rest" using assms(1,2) by (cases s) auto
  have "dropWhile is_white (rev rest @ rev s) = dropWhile is_white (rev rest) @ rev s"
  proof (cases "\<exists>c \<in> set rest. \<not> is_white c")
    case True
    then show ?thesis by (auto intro: dropWhile_append1)
  next
    case False
    have nil: "dropWhile is_white (rev rest) = []" using False by simp
    have "\<not> is_white (last s)" using False assms(3) by auto
    moreover obtain xs x where "s = xs @ [x]" using assms(1) by (cases s rule: rev_cases) auto
    ultimately show ?thesis unfolding nil using False by (simp add: dropWhile_append)
  qed
  then have "trim (s @ rest) = s @ rev (dropWhile is_white (rev rest))" by (simp add: trim_def front)
  moreover have "\<forall>c \<in> set rest. \<not> is_white c \<longrightarrow> c \<in> set (dropWhile is_white (rev rest))"
    by (metis UnE set_append set_rev set_takeWhileD takeWhile_dropWhile_id)
  ultimately show ?thesis by auto
qed

text \<open>
  C35. Reading a dump gives the bytes back, for dumps whose lines all have this form: an address of eight
  lower-case digits, exactly sixteen bytes in lower-case digits, in either format, and any columns after
  them, which in the format with bars must not be blank (the expression at line 91 wants the space
  behind the last byte, and \<open>Trim\<close> removes it from a line that ends there).  On such a dump \<open>Dehex\<close> returns
  0 and writes exactly the bytes of all lines, in order.  Other lines are not read back: a line of fewer
  bytes, as the last one of \<open>TestFiles/blob.hex\<close>, is dropped (\<open>short_line_dropped\<close>), and digits in upper
  case are misread from the second line on (\<open>upper_case_misread\<close>).
\<close>

theorem dehex_reads_dump:
  assumes "list_all (dump_ok re) entries"
  shows "dehex (map (dump_line re) entries) = (0, concat (map (\<lambda>(addr, bs, rest). bs) entries))"
proof -
  have line: "\<exists>rest'. trim (dump_core re addr bs @ rest) = dump_core re addr bs @ rest' \<and> dump_ok re (addr, bs, rest')"
    if "dump_ok re (addr, bs, rest)" for addr bs rest
  proof -
    have ok: "length addr = 8" "list_all (\<lambda>d. d < 16) addr" "length bs = 16" using that by (simp_all add: dump_ok_def)
    have "\<not> is_white (last (dump_core re addr bs)) \<or> (\<exists>c \<in> set rest. \<not> is_white c)"
      using that dump_core_ends(3) [OF ok] by (cases re) (auto simp: dump_ok_def list_ex_iff)
    then show ?thesis
      using trim_tail [OF dump_core_ends(2,1) [OF ok], of re rest] that by (fastforce simp: dump_ok_def list_ex_iff)
  qed
  have process: "process_line re (trim (dump_line re e)) out = out @ fst (snd e)" if ok: "dump_ok re e" for e out
  proof -
    obtain addr bs rest where e: "e = (addr, bs, rest)" by (cases e)
    obtain rest' where "trim (dump_core re addr bs @ rest) = dump_core re addr bs @ rest'" using line ok e by blast
    then show ?thesis
      using ok regex_match_dump [of addr bs re rest'] by (simp add: e dump_line_def process_line_def dump_ok_def)
  qed
  have lines: "fold (process_line re) (map trim (map (dump_line re) es)) out = out @ concat (map (\<lambda>(addr, bs, rest). bs) es)"
    if "list_all (dump_ok re) es" for es out
    using that by (induction es arbitrary: out) (auto simp: process)
  show ?thesis
  proof (cases entries)
    case (Cons e es)
    obtain addr bs rest where e: "e = (addr, bs, rest)" by (cases e)
    have ok: "dump_ok re (addr, bs, rest)" using assms Cons e by simp
    then have fields: "length addr = 8" "list_all (\<lambda>d. d < 16) addr" "length bs = 16" by (simp_all add: dump_ok_def)
    obtain r where r: "trim (dump_core re addr bs @ rest) = dump_core re addr bs @ r" "dump_ok re (addr, bs, r)"
      using line [OF ok] by blast
    let ?first = "map to_lower (trim (dump_line re e))"
    have first: "?first = dump_core re addr bs @ map to_lower r"
      using r(1) dump_core_ends(4) [OF fields] by (simp add: e dump_line_def)
    have white: "is_white (to_lower c) = is_white c" for c by (auto simp: is_white_def to_lower_def code_of_def)
    have "dump_ok re (addr, bs, map to_lower r)" using r(2) by (auto simp: dump_ok_def list_ex_iff white)
    then have p1: "process_line re (trim ?first) [] = bs"
      using process [of "(addr, bs, map to_lower r)"] unfolding first by (simp add: dump_line_def)
    have "sniff ?first = Some re"
    proof (cases re)
      case Bar_Format
      have "?first ! 8 \<noteq> CHR '':''" "length ?first > 8"
        using dump_core_nth(1) [OF fields(1), of bs] dump_core_nth(2) [of addr re bs] fields(1) Bar_Format
        unfolding first by (simp_all add: nth_append)
      then show ?thesis
        using colon_after_address [of ?first] regex_match_dump [OF fields, of re "map to_lower r"] Bar_Format
        unfolding sniff_def first by auto
    next
      case Colon_Format
      then show ?thesis
        using regex_match_dump [OF fields, of re "map to_lower r"] unfolding sniff_def first by simp
    qed
    then show ?thesis
      using p1 lines [of es bs] assms by (simp add: dehex_def Cons Let_def e)
  qed (simp add: dehex_def)
qed

theorem dehex_reads_dump_witness:
  "dehex [''00000000: 00 01 02 03 04 05 06 07 08 09 0a 0b 0c 0d 0e ff  .''] = (0, [0, 1, 2, 3, 4, 5, 6, 7, 8, 9, 10, 11, 12, 13, 14, 255])"
proof -
  let ?e = "([0, 0, 0, 0, 0, 0, 0, 0], [0, 1, 2, 3, 4, 5, 6, 7, 8, 9, 10, 11, 12, 13, 14, 255 :: 8 word], ''  .'')"
  have "dump_line Colon_Format ?e = ''00000000: 00 01 02 03 04 05 06 07 08 09 0a 0b 0c 0d 0e ff  .''" by code_simp
  then show ?thesis
    using dehex_reads_dump [of Colon_Format "[?e]"] by (simp add: dump_ok_def)
qed

text \<open>
  Only the first line is put in lower case: a later line in upper case matches, but its letters are not
  taken as digits, and digits of different bytes are paired.  A last line of fewer than sixteen bytes is dropped.
\<close>

lemma upper_case_misread:
  "dehex [''00000000: 00 01 02 03 04 05 06 07 08 09 0a 0b 0c 0d 0e 0f'',
          ''00000010: 1A 2B 00 00 00 00 00 00 00 00 00 00 00 00 00 00'']
    = (0, [0, 1, 2, 3, 4, 5, 6, 7, 8, 9, 10, 11, 12, 13, 14, 15, 0x12] @ replicate 14 0)"
  by code_simp

lemma short_line_dropped: "dehex [''00000000: 00 01 02 03 04 05 06 07 08 09 0a 0b 0c 0d 0e 0f'', ''00000010: 41 42''] =
    dehex [''00000000: 00 01 02 03 04 05 06 07 08 09 0a 0b 0c 0d 0e 0f'']"
  by code_simp

section \<open>Reversed words\<close>

lemma byte_masks: "(0xFF00 :: 32 word) = push_bit 8 (mask 8)" "(0xFF0000 :: 32 word) = push_bit 16 (mask 8)"
  by (simp_all add: mask_eq_exp_minus_1 push_bit_eq_mult)

lemma bit_read_uint32:
  "bit (read_uint32 [a, b, c, d]) n \<longleftrightarrow> (if n < 8 then bit a n else if n < 16 then bit b (n - 8)
     else if n < 24 then bit c (n - 16) else n < 32 \<and> bit d (n - 24))"
  by (auto simp: read_uint32_def bit_simps dest: bit_imp_le_length)

lemma swap_word_bytes: "write_uint32 (swap_word (read_uint32 [a, b, c, d])) = [d, c, b, a]"
proof -
  have byte: "ucast (drop_bit (8 * i) (swap_word (read_uint32 [a, b, c, d]))) = [d, c, b, a] ! i" if "i \<in> {0, 1, 2, 3}" for i
    using that
    by (elim insertE emptyE; simp; intro bit_word_eqI)
      (auto simp: swap_word_def byte_masks bit_simps bit_read_uint32 dest: bit_imp_le_length)
  moreover have "[0..<4] = [0, 1, 2, 3 :: nat]" by (simp add: upt_rec)
  ultimately show ?thesis using byte [of 0] byte [of 1] byte [of 2] byte [of 3] by (simp add: write_uint32_def)
qed

text \<open>
  \<open>swapw\<close> reverses the bytes of every complete word and drops what is left of the last one, so that
  applying it twice gives the complete words of the input back.
\<close>

lemma swapw_twice:
  "swapw (a # b # c # d # bs) = [d, c, b, a] @ swapw bs \<and> swapw (swapw xs) = take (4 * (length xs div 4)) xs"
proof -
  have step: "swapw (a # b # c # d # bs) = [d, c, b, a] @ swapw bs" for a b c d bs
    by (simp only: swapw.simps swap_word_bytes)
  have "(4 + n) div 4 = Suc (n div 4)" "take (4 * Suc k) (a # b # c # d # bs) = a # b # c # d # take (4 * k) bs"
    for n k and a b c d :: "8 word" and bs
    by (simp, simp add: eval_nat_numeral)
  then have "swapw (swapw xs) = take (4 * (length xs div 4)) xs"
    by (induction xs rule: swapw.induct) (simp_all add: step del: swapw.simps(1))
  then show ?thesis using step by blast
qed

end
