(* ===== verification/Wild_Kmp.thy ===== *)
theory Wild_Kmp
  imports Reko_Prelude
begin

text \<open>
  \<open>prologs/WildKMP.cs\<close>: a search for a pattern in a text, where an asterisk stands for any character, by failure
  links.  The \<open>for\<close> loop over the text and the \<open>while\<close> loop inside it are one function; \<open>backing\<close> tells whether the
  condition of the inner loop or the part after it is next.  The search calls itself on what it has matched
  when it meets a wildcard.  A character is Isabelle's of 8 bits for the 16-bit units of .NET; the code compares
  characters for equality and with the asterisk, nothing else.
\<close>

section \<open>Results\<close>

datatype kmp_error = Index_Out_Of_Range | Argument_Out_Of_Range

text \<open>\<open>None\<close> is a computation that does not end, \<open>Inl\<close> an exception.\<close>

type_synonym 'a kmp_result = "(kmp_error + 'a) option"

definition ok_then :: "'a kmp_result \<Rightarrow> ('a \<Rightarrow> 'b kmp_result) \<Rightarrow> 'b kmp_result" where
  "ok_then m f = Option.bind m (\<lambda>r. case r of Inl e \<Rightarrow> Some (Inl e) | Inr x \<Rightarrow> f x)"

definition checked :: "kmp_error \<Rightarrow> 'a option \<Rightarrow> 'a kmp_result" where
  "checked e x = Some (case x of None \<Rightarrow> Inl e | Some y \<Rightarrow> Inr y)"

lemma ok_then_mono [partial_function_mono]:
  assumes "mono_option B" "\<And>y. mono_option (\<lambda>f. C y f)"
  shows "mono_option (\<lambda>f. ok_then (B f) (\<lambda>y. C y f))"
  unfolding ok_then_def
proof (rule bind_mono [OF assms(1)])
  fix y :: "kmp_error + 'c"
  show "mono_option (\<lambda>f. case y of Inl e \<Rightarrow> Some (Inl e) | Inr x \<Rightarrow> C x f)"
    by (cases y) (simp_all add: assms(2) option.const_mono)
qed

lemma ok_then_simps [simp]:
  "ok_then (Some (Inr x)) f = f x" "ok_then (Some (Inl e)) f = Some (Inl e)" "ok_then None f = None"
  "checked e (Some x) = Some (Inr x)" "checked e None = Some (Inl e)"
  by (simp_all add: ok_then_def checked_def)

section \<open>The failure links\<close>

partial_function (option) dfa_loop :: "string \<Rightarrow> nat list \<Rightarrow> nat \<Rightarrow> nat \<Rightarrow> nat list kmp_result" where
  "dfa_loop pattern dfa longest i =
     (if length pattern \<le> i then Some (Inr dfa)
      else ok_then (checked Index_Out_Of_Range (arr_get pattern (longest + 1))) (\<lambda>c.
        if c = pattern ! i then dfa_loop pattern (dfa[i := longest + 1]) (longest + 1) (i + 1)
        else if 0 < longest then
          ok_then (checked Index_Out_Of_Range (arr_get dfa longest)) (\<lambda>longest'. dfa_loop pattern dfa longest' i)
        else dfa_loop pattern (dfa[i := longest]) longest (i + 1)))"

definition get_dfa :: "string \<Rightarrow> nat list kmp_result" where
  "get_dfa pattern =
     (if pattern = [] then Some (Inl Index_Out_Of_Range) else dfa_loop pattern (replicate (length pattern) 0) 0 2)"

section \<open>The search\<close>

text \<open>\<open>String.Substring(start, length)\<close>.\<close>

definition substring :: "string \<Rightarrow> int \<Rightarrow> int \<Rightarrow> string kmp_result" where
  "substring s start len =
     (if start < 0 \<or> len < 0 \<or> int (length s) < start + len then Some (Inl Argument_Out_Of_Range)
      else Some (Inr (take (nat len) (drop (nat start) s))))"

text \<open>The shift after a failed match that the code calls an edge case.\<close>

definition edge_case :: "string \<Rightarrow> string \<Rightarrow> nat \<Rightarrow> nat \<Rightarrow> nat kmp_result" where
  "edge_case text pattern i matched =
     (if matched = 0 then
        ok_then (checked Index_Out_Of_Range (arr_get pattern (matched + 1))) (\<lambda>c.
          if c \<noteq> CHR ''*'' then Some (Inr matched)
          else if i = 0 then Some (Inl Index_Out_Of_Range)
          else
            ok_then (checked Index_Out_Of_Range (arr_get text (i - 1))) (\<lambda>a.
              ok_then (checked Index_Out_Of_Range (arr_get pattern matched)) (\<lambda>b.
                Some (Inr (if a = b then matched + 1 else matched)))))
      else Some (Inr matched))"

text \<open>
  What a turn of the loops leads to: the method returns, the loops go on with the next \<open>i\<close>, \<open>matchLength\<close> and
  \<open>wildLetter\<close>, or the pattern before a wildcard is searched in a piece of the text.
\<close>

datatype kmp_next = Return int | Go_On bool nat nat "char option" | Check_Again string string

text \<open>The \<open>while\<close> loop's body for the character \<open>c\<close> of the pattern.\<close>

definition back_track ::
  "string \<Rightarrow> string \<Rightarrow> nat list \<Rightarrow> nat \<Rightarrow> nat \<Rightarrow> char option \<Rightarrow> char \<Rightarrow> kmp_next kmp_result" where
  "back_track source pattern table i matched wild c =
     (if c = CHR ''*'' \<and> wild = None then
        ok_then (substring source (int i - int matched) (int i)) (\<lambda>piece.
          ok_then (substring pattern 0 (int matched)) (\<lambda>prefix. Some (Inr (Check_Again piece prefix))))
      else if c = CHR ''*'' \<and> wild = Some (source ! i) then Some (Inr (Go_On False i matched wild))
      else
        ok_then (checked Index_Out_Of_Range (arr_get table (matched - 1))) (\<lambda>fall_back.
          ok_then (edge_case source pattern i fall_back) (\<lambda>matched'. Some (Inr (Go_On True i matched' None)))))"

text \<open>The part after the \<open>while\<close> loop.\<close>

definition match_letter :: "string \<Rightarrow> string \<Rightarrow> nat \<Rightarrow> nat \<Rightarrow> char option \<Rightarrow> char \<Rightarrow> kmp_next" where
  "match_letter source pattern i matched wild c =
     (if c = source ! i \<or> c = CHR ''*'' then
        if c = CHR ''*'' \<and> wild \<noteq> None \<and> wild \<noteq> Some (source ! i) then
          if matched = 1 then Go_On True (i + 1) matched (Some (source ! i)) else Go_On True (i + 1) 0 None
        else if matched + 1 = length pattern then Return (int i - (int (length pattern) - 1))
        else Go_On True (i + 1) (matched + 1) (if c = CHR ''*'' then Some (source ! i) else None)
      else Go_On True (i + 1) matched wild)"

definition kmp_turn ::
  "string \<Rightarrow> string \<Rightarrow> nat list \<Rightarrow> bool \<Rightarrow> nat \<Rightarrow> nat \<Rightarrow> char option \<Rightarrow> kmp_next kmp_result" where
  "kmp_turn source pattern table backing i matched wild =
     (if length source \<le> i then Some (Inr (Return (- 1)))
      else ok_then (checked Index_Out_Of_Range (arr_get pattern matched)) (\<lambda>c.
        if backing \<and> 0 < matched \<and> c \<noteq> source ! i then back_track source pattern table i matched wild c
        else Some (Inr (match_letter source pattern i matched wild c))))"

text \<open>\<open>matchLength\<close> and \<open>wildLetter\<close> after the prefix was searched.\<close>

definition after_check :: "string \<Rightarrow> string \<Rightarrow> nat \<Rightarrow> nat \<Rightarrow> int \<Rightarrow> (nat \<times> char option) kmp_result" where
  "after_check source pattern i matched kmp_value =
     (if kmp_value \<noteq> 0 then Some (Inr (0, Some (source ! i)))
      else ok_then (checked Index_Out_Of_Range (arr_get pattern (matched - 1))) (\<lambda>d.
        Some (Inr (matched, Some (source ! (if d = CHR ''*'' then i - 1 else i))))))"

partial_function (option) wild_kmp ::
  "string \<Rightarrow> string \<Rightarrow> nat list \<Rightarrow> bool \<Rightarrow> nat \<Rightarrow> nat \<Rightarrow> char option \<Rightarrow> int kmp_result" where
  "wild_kmp source pattern table backing i matched wild =
     ok_then (kmp_turn source pattern table backing i matched wild) (\<lambda>next.
       case next of
         Return k \<Rightarrow> Some (Inr k)
       | Go_On backing' i' matched' wild' \<Rightarrow> wild_kmp source pattern table backing' i' matched' wild'
       | Check_Again piece prefix \<Rightarrow>
           ok_then
             (if length piece < length prefix then Some (Inr (- 1))
              else ok_then (get_dfa prefix) (\<lambda>table'. wild_kmp piece prefix table' True 0 0 None))
             (\<lambda>kmp_value. ok_then (after_check source pattern i matched kmp_value) (\<lambda>s.
               wild_kmp source pattern table False i (fst s) (snd s))))"

definition kmp_search :: "string \<Rightarrow> string \<Rightarrow> int kmp_result" where
  "kmp_search source pattern =
     (if length source < length pattern then Some (Inr (- 1))
      else ok_then (get_dfa pattern) (\<lambda>table. wild_kmp source pattern table True 0 0 None))"

declare dfa_loop.simps [code] wild_kmp.simps [code]

text \<open>The pattern stands in the text at \<open>k\<close>, every character for itself.\<close>

definition occurs_at :: "string \<Rightarrow> string \<Rightarrow> nat \<Rightarrow> bool" where
  "occurs_at source pattern k \<longleftrightarrow> k + length pattern \<le> length source \<and> take (length pattern) (drop k source) = pattern"

section \<open>The search ends\<close>

definition links_ok :: "string \<Rightarrow> nat list \<Rightarrow> bool" where
  "links_ok pattern table \<longleftrightarrow> length table = length pattern \<and> (\<forall>k < length pattern. table ! k \<le> k - 1)"

lemma links_okD: "links_ok p table \<Longrightarrow> k < length p \<Longrightarrow> table ! k \<le> k - 1" "links_ok p table \<Longrightarrow> length table = length p"
  by (simp_all add: links_ok_def)

lemma links_ok_update: "\<lbrakk>links_ok p table; l + 1 \<le> i\<rbrakk> \<Longrightarrow> links_ok p (table[i := l])"
  unfolding links_ok_def by (cases "i < length table") (auto simp: nth_list_update)

lemma dfa_loop_returns:
  "\<lbrakk>links_ok p dfa; l + 2 \<le> i\<rbrakk> \<Longrightarrow> \<exists>table. dfa_loop p dfa l i = Some (Inr table) \<and> links_ok p table"
proof (induction "length p - i" arbitrary: dfa l i rule: less_induct)
  case outer: less
  show ?case
    using outer.prems
  proof (induction l rule: less_induct)
    case (less l)
    show ?case
    proof (cases "length p \<le> i")
      case True
      then show ?thesis using less.prems by (subst dfa_loop.simps) simp
    next
      case False
      then have at: "l + 1 < length p" and i: "length p - (i + 1) < length p - i" using less.prems(2) by simp_all
      consider "p ! (l + 1) = p ! i" | "p ! (l + 1) \<noteq> p ! i" "0 < l" | "p ! (l + 1) \<noteq> p ! i" "l = 0" by blast
      then show ?thesis
      proof cases
        case 1
        have "\<exists>table. dfa_loop p (dfa[i := l + 1]) (l + 1) (i + 1) = Some (Inr table) \<and> links_ok p table"
          by (rule outer.hyps [OF i links_ok_update]) (use less.prems in auto)
        then show ?thesis using False at 1 by (subst dfa_loop.simps) simp
      next
        case 2
        then have "dfa ! l < l" "l < length dfa" using links_okD(1) [OF less.prems(1), of l] links_okD(2) [OF less.prems(1)] at by simp_all
        moreover from this have "\<exists>table. dfa_loop p dfa (dfa ! l) i = Some (Inr table) \<and> links_ok p table"
          by (intro less.IH) (use less.prems in auto)
        ultimately show ?thesis using False at 2 by (subst dfa_loop.simps) simp
      next
        case 3
        have "\<exists>table. dfa_loop p (dfa[i := l]) l (i + 1) = Some (Inr table) \<and> links_ok p table"
          by (rule outer.hyps [OF i links_ok_update]) (use less.prems in auto)
        then show ?thesis using False at 3 by (subst dfa_loop.simps) simp
      qed
    qed
  qed
qed

lemma get_dfa_returns: "p \<noteq> [] \<Longrightarrow> \<exists>table. get_dfa p = Some (Inr table) \<and> links_ok p table"
  using dfa_loop_returns [of p "replicate (length p) 0" 0 2] by (simp add: get_dfa_def links_ok_def)

text \<open>A search result that can be relied on: no access out of bounds, and a position where the pattern fits.\<close>

definition proper :: "string \<Rightarrow> string \<Rightarrow> int kmp_result \<Rightarrow> bool" where
  "proper source pattern r \<longleftrightarrow> (\<exists>x. r = Some x \<and> x \<noteq> Inl Index_Out_Of_Range
     \<and> (CHR ''*'' \<notin> set pattern \<longrightarrow> x \<noteq> Inl Argument_Out_Of_Range)
     \<and> (\<forall>k. x = Inr k \<longrightarrow> k = - 1 \<or> 0 \<le> k \<and> k + int (length pattern) \<le> int (length source)))"

definition searching :: "string \<Rightarrow> nat list \<Rightarrow> nat \<Rightarrow> nat \<Rightarrow> bool" where
  "searching pattern table i matched \<longleftrightarrow> links_ok pattern table \<and> matched < length pattern \<and> matched \<le> i"

text \<open>What gets smaller within one position of the text.\<close>

definition pending :: "bool \<Rightarrow> nat \<Rightarrow> char option \<Rightarrow> nat \<times> nat" where
  "pending backing matched wild = (of_bool backing, 2 * matched + of_bool (wild \<noteq> None))"

definition smaller :: "string \<Rightarrow> bool \<Rightarrow> nat \<Rightarrow> nat \<Rightarrow> char option \<Rightarrow> bool \<Rightarrow> nat \<Rightarrow> nat \<Rightarrow> char option \<Rightarrow> bool" where
  "smaller source backing' i' matched' wild' backing i matched wild \<longleftrightarrow>
     length source - i' < length source - i
     \<or> i' = i \<and> (pending backing' matched' wild', pending backing matched wild) \<in> less_than <*lex*> less_than"

lemma match_letter_leads:
  assumes "searching p table i m" "i < length source" "c = p ! m"
  shows "case match_letter source p i m w c of
      Return k \<Rightarrow> 0 \<le> k \<and> k + int (length p) \<le> int (length source)
    | Go_On b' i' m' w' \<Rightarrow> searching p table i' m' \<and> i' = i + 1
    | Check_Again _ _ \<Rightarrow> False"
  using assms by (auto simp: match_letter_def searching_def)

lemma back_track_leads:
  assumes s: "searching p table i m" and i: "i < length source" and m: "0 < m" and c: "c = p ! m" "c \<noteq> source ! i"
  shows "(CHR ''*'' \<in> set p \<and> back_track source p table i m w c = Some (Inl Argument_Out_Of_Range))
    \<or> (\<exists>b' m' w'. back_track source p table i m w c = Some (Inr (Go_On b' i m' w')) \<and> searching p table i m'
         \<and> smaller source b' i m' w' True i m w)
    \<or> (CHR ''*'' \<in> set p \<and> (\<exists>piece. back_track source p table i m w c = Some (Inr (Check_Again piece (take m p)))))"
proof -
  have len: "m < length p" "m \<le> i" "links_ok p table" using s by (simp_all add: searching_def)
  then have star: "c = CHR ''*'' \<Longrightarrow> CHR ''*'' \<in> set p" using c(1) nth_mem [OF len(1)] by simp
  have fall: "table ! (m - 1) \<le> m - 1 - 1" "m - 1 < length table" using links_okD(1) [OF len(3), of "m - 1"] links_okD(2) [OF len(3)] len(1) by simp_all
  consider "c = CHR ''*''" "w = None" | "c = CHR ''*''" "w = Some (source ! i)" | "\<not> (c = CHR ''*'' \<and> (w = None \<or> w = Some (source ! i)))"
    by blast
  then show ?thesis
  proof cases
    case 1
    then have "substring p 0 (int m) = Some (Inr (take m p))" using len(1) by (simp add: substring_def)
    then show ?thesis using 1 star by (auto simp: back_track_def substring_def)
  next
    case 2
    then have "back_track source p table i m w c = Some (Inr (Go_On False i m w))" by (simp add: back_track_def)
    moreover have "smaller source False i m w True i m w" by (simp add: smaller_def pending_def)
    ultimately show ?thesis using s by blast
  next
    case 3
    have e: "\<exists>m'. edge_case source p i (table ! (m - 1)) = Some (Inr m')
        \<and> (m' = table ! (m - 1) \<or> m' = 1 \<and> table ! (m - 1) = 0 \<and> p ! 1 = CHR ''*'')"
    proof -
      have "arr_get p 0 = Some (p ! 0)" using len by (intro arr_get_in) auto
      then show ?thesis using len m i by (auto simp: edge_case_def)
    qed
    then obtain m' where m': "edge_case source p i (table ! (m - 1)) = Some (Inr m')"
      "m' = table ! (m - 1) \<or> m' = 1 \<and> p ! 1 = CHR ''*''" by blast
    have "searching p table i m'" using m' len m fall by (auto simp: searching_def)
    moreover have "2 * m' < 2 * m + (of_bool (w \<noteq> None) :: nat)"
      using m'(2)
    proof
      assume "m' = table ! (m - 1)"
      then show ?thesis using fall(1) m by auto
    next
      assume e: "m' = 1 \<and> p ! 1 = CHR ''*''"
      then have "m = 1 \<Longrightarrow> w \<noteq> None" using 3 c(1) by auto
      then show ?thesis using e m by (cases "m = 1") auto
    qed
    moreover have "back_track source p table i m w c = Some (Inr (Go_On True i m' None))"
      using 3 fall(2) m'(1) by (auto simp: back_track_def)
    ultimately have "searching p table i m'" "smaller source True i m' None True i m w"
      "back_track source p table i m w c = Some (Inr (Go_On True i m' None))" by (simp_all add: smaller_def pending_def)
    then show ?thesis by blast
  qed
qed


definition kmp_order where
  "kmp_order = measures [\<lambda>(source :: string, p :: string, b, i, m, w :: char option). length p, \<lambda>(source, p, b, i, m, w). length source - i,
     \<lambda>(source, p, b, i, m, w). of_bool b, \<lambda>(source, p, b, i, m, w). 2 * m + of_bool (w \<noteq> None)]"

lemma wf_kmp_order: "wf kmp_order"
  by (simp add: kmp_order_def)

lemma kmp_proper:
  "searching p table i m \<Longrightarrow> proper source p (wild_kmp source p table b i m w)"
proof (induction "(source, p, b, i, m, w)" arbitrary: source p table b i m w rule: wf_induct_rule [OF wf_kmp_order])
  case (1 source p b i m w)
  have go_on: "proper source p (wild_kmp source p table b' i' m' w')"
    if "searching p table i' m'" "smaller source b' i' m' w' b i m w" for b' i' m' w'
    using that by (intro 1(1)) (auto simp: smaller_def pending_def kmp_order_def)
  show ?case
  proof (cases "length source \<le> i")
    case True
    then show ?thesis by (subst wild_kmp.simps) (simp add: kmp_turn_def proper_def)
  next
    case False
    then have i: "i < length source" by simp
    have m: "m < length p" "m \<le> i" using 1(2) by (simp_all add: searching_def)
    show ?thesis
    proof (cases "b \<and> 0 < m \<and> p ! m \<noteq> source ! i")
      case False
      have turn: "kmp_turn source p table b i m w = Some (Inr (match_letter source p i m w (p ! m)))"
        using i m(1) False by (auto simp: kmp_turn_def)
      show ?thesis
        using match_letter_leads [OF 1(2) i refl, of w] i
        by (subst wild_kmp.simps) (auto simp: turn proper_def split: kmp_next.splits
            intro: go_on [unfolded proper_def] simp: smaller_def)
    next
      case True
      then have turn: "kmp_turn source p table b i m w = back_track source p table i m w (p ! m)"
        using i m(1) by (simp add: kmp_turn_def)
      have ends: "0 < m" "p ! m \<noteq> source ! i" "b" using True by simp_all
      from back_track_leads [OF 1(2) i ends(1) refl ends(2), of w] show ?thesis
      proof (elim disjE exE conjE)
        assume "CHR ''*'' \<in> set p" "back_track source p table i m w (p ! m) = Some (Inl Argument_Out_Of_Range)"
        then show ?thesis by (subst wild_kmp.simps) (simp add: turn proper_def)
      next
        fix b' m' w'
        assume "back_track source p table i m w (p ! m) = Some (Inr (Go_On b' i m' w'))" "searching p table i m'"
          "smaller source b' i m' w' True i m w"
        moreover from this have "proper source p (wild_kmp source p table b' i m' w')" using ends(3) by (intro go_on) simp_all
        ultimately show ?thesis by (subst wild_kmp.simps) (simp add: turn)
      next
        fix piece
        assume star: "CHR ''*'' \<in> set p" and again: "back_track source p table i m w (p ! m) = Some (Inr (Check_Again piece (take m p)))"
        let ?check = "if length piece < length (take m p) then Some (Inr (- 1))
              else ok_then (get_dfa (take m p)) (\<lambda>table'. wild_kmp piece (take m p) table' True 0 0 None)"
        have "take m p \<noteq> []" using ends(1) m(1) by auto
        then obtain table' where t: "get_dfa (take m p) = Some (Inr table')" "links_ok (take m p) table'"
          using get_dfa_returns by blast
        have "proper piece (take m p) (wild_kmp piece (take m p) table' True 0 0 None)"
          by (rule 1(1)) (use t m(1) ends(1) in \<open>auto simp: searching_def kmp_order_def\<close>)
        then have "\<exists>x. ?check = Some x \<and> x \<noteq> Inl Index_Out_Of_Range" using t by (simp add: proper_def) blast
        then obtain x where x: "?check = Some x" "x \<noteq> Inl Index_Out_Of_Range" by blast
        show ?thesis
        proof (cases x)
          case (Inl e)
          then show ?thesis using x star by (subst wild_kmp.simps) (simp add: turn again proper_def)
        next
          case (Inr k)
          have "\<exists>m' w'. after_check source p i m k = Some (Inr (m', w')) \<and> (m' = 0 \<or> m' = m)"
            using m(1) by (auto simp: after_check_def)
          then obtain m' w' where a: "after_check source p i m k = Some (Inr (m', w'))" "m' = 0 \<or> m' = m" by blast
          then have "proper source p (wild_kmp source p table False i m' w')"
            using 1(2) ends by (intro go_on) (auto simp: searching_def smaller_def pending_def)
          then show ?thesis using x(1) Inr a(1) by (subst wild_kmp.simps) (simp add: turn again)
        qed
      qed
    qed
  qed
qed


text \<open>
  C29. Searching always ends, for every text and pattern: an empty pattern raises IndexOutOfRangeException and no other
  does, a pattern without a wildcard never raises, and a result other than -1 is a position where a pattern of this
  length fits.
\<close>

theorem search_returns:
  "\<exists>r. kmp_search source pattern = Some r
     \<and> (r = Inl Index_Out_Of_Range \<longleftrightarrow> pattern = [])
     \<and> (r = Inl Argument_Out_Of_Range \<longrightarrow> CHR ''*'' \<in> set pattern)
     \<and> (\<forall>k. r = Inr k \<longrightarrow> k = - 1 \<or> 0 \<le> k \<and> k + int (length pattern) \<le> int (length source))"
proof (cases "pattern = []")
  case True
  then show ?thesis by (simp add: kmp_search_def get_dfa_def)
next
  case False
  then obtain table where t: "get_dfa pattern = Some (Inr table)" "links_ok pattern table" using get_dfa_returns by blast
  then have "proper source pattern (wild_kmp source pattern table True 0 0 None)"
    using False by (intro kmp_proper) (simp add: searching_def)
  then have "proper source pattern (kmp_search source pattern)" using t(1) by (simp add: kmp_search_def proper_def)
  then show ?thesis using False by (auto simp: proper_def)
qed

theorem search_returns_witness:
  "\<exists>r. kmp_search ''abcabd'' ''abd'' = Some r \<and> r \<noteq> Inl Index_Out_Of_Range \<and> r \<noteq> Inl Argument_Out_Of_Range"
  using search_returns [of "''abcabd''" "''abd''"] by auto

section \<open>Patterns of different letters\<close>

lemma no_links:
  assumes "distinct p" "2 \<le> i"
  shows "dfa_loop p (replicate (length p) 0) 0 i = Some (Inr (replicate (length p) 0))"
  using assms(2)
proof (induction "length p - i" arbitrary: i rule: less_induct)
  case less
  show ?case
  proof (cases "length p \<le> i")
    case True
    then show ?thesis by (subst dfa_loop.simps) simp
  next
    case False
    then have "p ! 1 \<noteq> p ! i" using assms(1) less.prems by (simp add: nth_eq_iff_index_eq)
    moreover have "dfa_loop p (replicate (length p) 0) 0 (i + 1) = Some (Inr (replicate (length p) 0))"
      using less.hyps [of "i + 1"] False less.prems by simp
    moreover have "(replicate (length p) 0)[i := 0] = replicate (length p) (0 :: nat)"
      using list_update_id [of "replicate (length p) (0 :: nat)" i] False by simp
    ultimately show ?thesis using False less.prems by (subst dfa_loop.simps) simp
  qed
qed

lemma occurs_nth: "occurs_at s p k \<longleftrightarrow> k + length p \<le> length s \<and> (\<forall>j < length p. s ! (k + j) = p ! j)"
  by (auto simp: occurs_at_def list_eq_iff_nth_eq)

definition first_at :: "string \<Rightarrow> string \<Rightarrow> int" where
  "first_at s p = (if \<exists>k. occurs_at s p k then int (LEAST k. occurs_at s p k) else - 1)"

text \<open>The \<open>m\<close> characters before \<open>i\<close> match, and the pattern does not occur before them.\<close>

definition so_far :: "string \<Rightarrow> string \<Rightarrow> nat \<Rightarrow> nat \<Rightarrow> bool" where
  "so_far s p i m \<longleftrightarrow> m < length p \<and> m \<le> i \<and> i \<le> length s \<and> (\<forall>j < m. s ! (i - m + j) = p ! j)
     \<and> (\<forall>k. occurs_at s p k \<longrightarrow> i - m \<le> k)"

lemma so_far_end: "so_far s p (length s) m \<Longrightarrow> first_at s p = - 1"
  by (fastforce simp: so_far_def first_at_def occurs_nth)

lemma so_far_next:
  assumes "so_far s p i m" "i < length s" "s ! i = p ! m"
  shows "m + 1 < length p \<Longrightarrow> so_far s p (i + 1) (m + 1)"
    "m + 1 = length p \<Longrightarrow> first_at s p = int i - (int (length p) - 1)"
proof -
  have all: "\<forall>j < m + 1. s ! (i - m + j) = p ! j" using assms by (auto simp: so_far_def less_Suc_eq)
  show "so_far s p (i + 1) (m + 1)" if "m + 1 < length p" using that all assms by (auto simp: so_far_def)
  assume len: "m + 1 = length p"
  have "occurs_at s p (i - m)" using all assms len by (auto simp: so_far_def occurs_nth)
  moreover have "\<forall>k. occurs_at s p k \<longrightarrow> i - m \<le> k" using assms(1) by (simp add: so_far_def)
  ultimately have "first_at s p = int (i - m)" by (auto simp: first_at_def intro!: Least_equality)
  then show "first_at s p = int i - (int (length p) - 1)" using assms(1) len by (simp add: so_far_def of_nat_diff)
qed

lemma so_far_shift:
  assumes "so_far s p i m" "i < length s" "s ! i \<noteq> p ! m" "distinct p"
  shows "so_far s p (if m = 0 then i + 1 else i) 0"
proof -
  have "i \<le> k \<and> (m = 0 \<longrightarrow> i < k)" if k: "occurs_at s p k" for k
  proof (rule ccontr)
    assume n: "\<not> (i \<le> k \<and> (m = 0 \<longrightarrow> i < k))"
    have le: "i - m \<le> k" "m < length p" "m \<le> i" using assms(1) k by (simp_all add: so_far_def)
    have p: "s ! (k + j) = p ! j" if "j < length p" for j using k that by (simp add: occurs_nth)
    show False
    proof (cases "k = i - m")
      case True
      then show False using p [OF le(2)] le assms(3) by simp
    next
      case False
      then have m: "k - (i - m) < m" "0 < k - (i - m)" "i - m + (k - (i - m)) = k" using n le by auto
      then have "s ! k = p ! (k - (i - m))" using assms(1) unfolding so_far_def by metis
      moreover have "s ! k = p ! 0" using p [of 0] le(2) by (cases p) simp_all
      moreover have "0 < length p" "k - (i - m) < length p" using m le(2) by linarith+
      ultimately show False using m(2) nth_eq_iff_index_eq [OF assms(4), of 0 "k - (i - m)"] by simp
    qed
  qed
  then show ?thesis using assms(1,2) by (auto simp: so_far_def Suc_le_eq)
qed


lemma kmp_different_letters:
  assumes "distinct p" "CHR ''*'' \<notin> set p"
  shows "so_far s p i m \<Longrightarrow> wild_kmp s p (replicate (length p) 0) True i m None = Some (Inr (first_at s p))"
proof (induction "(length s - i, m)" arbitrary: i m rule: wf_induct_rule [OF wf_lex_prod [OF wf_less_than wf_less_than]])
  case 1
  have m: "m < length p" "i \<le> length s" using 1(2) by (simp_all add: so_far_def)
  show ?case
  proof (cases "i = length s")
    case True
    then show ?thesis using so_far_end 1(2) by (subst wild_kmp.simps) (auto simp: kmp_turn_def)
  next
    case False
    then have i: "i < length s" using m(2) by simp
    have star: "p ! j \<noteq> CHR ''*''" if "j < length p" for j using assms(2) nth_mem [OF that] by metis
    consider "s ! i = p ! m" "m + 1 < length p" | "s ! i = p ! m" "m + 1 = length p" | "s ! i \<noteq> p ! m" "m = 0" | "s ! i \<noteq> p ! m" "0 < m"
      using m(1) by linarith
    then show ?thesis
    proof cases
      case 1
      have "wild_kmp s p (replicate (length p) 0) True (i + 1) (m + 1) None = Some (Inr (first_at s p))"
        using so_far_next(1) [OF "1.prems" i 1] i by (intro "1.hyps") auto
      then show ?thesis using i m(1) star [OF m(1)] 1 by (subst wild_kmp.simps) (simp add: kmp_turn_def match_letter_def)
    next
      case 2
      then show ?thesis using so_far_next(2) [OF "1.prems" i] i m(1) star [OF m(1)]
        by (subst wild_kmp.simps) (simp add: kmp_turn_def match_letter_def)
    next
      case 3
      have "wild_kmp s p (replicate (length p) 0) True (i + 1) 0 None = Some (Inr (first_at s p))"
        using so_far_shift [OF "1.prems" i 3(1) assms(1)] 3(2) i by (intro "1.hyps") auto
      then show ?thesis using i m(1) star [OF m(1)] 3 by (subst wild_kmp.simps) (simp add: kmp_turn_def match_letter_def)
    next
      case 4
      have "wild_kmp s p (replicate (length p) 0) True i 0 None = Some (Inr (first_at s p))"
        using so_far_shift [OF "1.prems" i 4(1) assms(1)] 4(2) by (intro "1.hyps") auto
      moreover have "edge_case s p i 0 = Some (Inr 0)" using 4(2) m(1) star [of 1] by (simp add: edge_case_def)
      ultimately show ?thesis using i m(1) star [OF m(1)] 4
        by (subst wild_kmp.simps) (simp add: kmp_turn_def back_track_def)
    qed
  qed
qed

text \<open>
  C30. For a pattern of different letters, none of them the wildcard, the search gives the first position where the
  pattern stands in the text, and -1 when it stands nowhere.
\<close>

theorem search_different_letters:
  assumes "pattern \<noteq> []" "distinct pattern" "CHR ''*'' \<notin> set pattern"
  shows "kmp_search source pattern = Some (Inr (if \<exists>k. occurs_at source pattern k
    then int (LEAST k. occurs_at source pattern k) else - 1))"
proof (cases "length source < length pattern")
  case True
  then show ?thesis by (auto simp: kmp_search_def occurs_at_def)
next
  case False
  have "so_far source pattern 0 0" using assms(1) by (simp add: so_far_def)
  then have "wild_kmp source pattern (replicate (length pattern) 0) True 0 0 None = Some (Inr (first_at source pattern))"
    by (rule kmp_different_letters [OF assms(2,3)])
  then show ?thesis using False assms(1) no_links [OF assms(2), of 2] by (simp add: kmp_search_def get_dfa_def first_at_def)
qed

theorem search_different_letters_witness: "kmp_search ''xabab'' ''ab'' = Some (Inr 1)"
proof -
  have "occurs_at ''xabab'' ''ab'' 1" by code_simp
  moreover have "\<not> occurs_at ''xabab'' ''ab'' 0" by code_simp
  ultimately have "(LEAST k. occurs_at ''xabab'' ''ab'' k) = 1"
    by (intro Least_equality) (auto simp: Suc_le_eq intro: gr0I)
  then show ?thesis using search_different_letters [of "''ab''" "''xabab''"] \<open>occurs_at ''xabab'' ''ab'' 1\<close> by auto
qed

text \<open>Other patterns: an occurrence that is passed over, and a position where the pattern does not stand.\<close>

lemmas kmp_steps = kmp_turn_def back_track_def match_letter_def edge_case_def after_check_def substring_def

lemma search_goes_wrong:
  "kmp_search ''aaab'' ''aab'' = Some (Inr (- 1))" "occurs_at ''aaab'' ''aab'' 1"
  "kmp_search ''xababbabc'' ''xababc'' = Some (Inr 3)" "\<not> occurs_at ''xababbabc'' ''xababc'' 3"
  "kmp_search ''abc'' ''**'' = Some (Inr (- 1))"
proof -
  show "occurs_at ''aaab'' ''aab'' 1" "\<not> occurs_at ''xababbabc'' ''xababc'' 3" by code_simp+
  show "kmp_search ''aaab'' ''aab'' = Some (Inr (- 1))"
    by (simp add: kmp_search_def get_dfa_def) ((subst dfa_loop.simps | subst wild_kmp.simps), simp add: kmp_steps)+
  show "kmp_search ''xababbabc'' ''xababc'' = Some (Inr 3)"
    by (simp add: kmp_search_def get_dfa_def) ((subst dfa_loop.simps | subst wild_kmp.simps), simp add: kmp_steps)+
  show "kmp_search ''abc'' ''**'' = Some (Inr (- 1))"
    by (simp add: kmp_search_def get_dfa_def) ((subst dfa_loop.simps | subst wild_kmp.simps), simp add: kmp_steps)+
qed

section \<open>A letter and a wildcard\<close>

lemma letter_scan:
  assumes "a \<notin> set us" "a \<noteq> CHR ''*''"
  shows "i \<le> length us \<Longrightarrow> wild_kmp (us @ a # b # vs) [a, CHR ''*''] table True i 0 None
      = wild_kmp (us @ a # b # vs) [a, CHR ''*''] table True (length us) 0 None"
proof (induction "length us - i" arbitrary: i)
  case (Suc n)
  then have i: "i < length us" by simp
  have "us ! i \<noteq> a" using assms(1) nth_mem [OF i] by metis
  then have "wild_kmp (us @ a # b # vs) [a, CHR ''*''] table True i 0 None
      = wild_kmp (us @ a # b # vs) [a, CHR ''*''] table True (i + 1) 0 None"
    using i assms(2) by (subst wild_kmp.simps) (simp add: kmp_turn_def match_letter_def nth_append)
  then show ?case using Suc.hyps(1) [of "i + 1"] Suc.hyps(2) i by simp
qed simp

text \<open>
  C31. The search for a letter and a wildcard finds the first such letter that has a character after it, unless that
  letter stands in the second half of the text: then it raises ArgumentOutOfRangeException, as the call
  \<open>text.Substring(i - matchLength, i)\<close> gives the end of the piece where .NET expects its length.
\<close>

theorem letter_then_wildcard:
  assumes "a \<noteq> CHR ''*''" "a \<notin> set us"
  shows "kmp_search (us @ a # b # vs) [a, CHR ''*''] = Some
    (if b = CHR ''*'' \<or> length us \<le> length vs + 1 then Inr (int (length us)) else Inl Argument_Out_Of_Range)"
proof -
  let ?s = "us @ a # b # vs" and ?p = "[a, CHR ''*'']" and ?j = "length us"
  have table: "get_dfa ?p = Some (Inr [0, 0])" by (simp add: get_dfa_def) (subst dfa_loop.simps, simp)
  have one: "get_dfa [a] = Some (Inr [0])" by (simp add: get_dfa_def) (subst dfa_loop.simps, simp)
  have "kmp_search ?s ?p = wild_kmp ?s ?p [0, 0] True 0 0 None" by (simp add: kmp_search_def table)
  also have "\<dots> = wild_kmp ?s ?p [0, 0] True ?j 0 None" by (rule letter_scan [OF assms(2,1)]) simp
  also have "\<dots> = wild_kmp ?s ?p [0, 0] True (?j + 1) 1 None"
    using assms(1) by (subst wild_kmp.simps) (simp add: kmp_turn_def match_letter_def)
  also have "\<dots> = Some (if b = CHR ''*'' \<or> ?j \<le> length vs + 1 then Inr (int ?j) else Inl Argument_Out_Of_Range)"
  proof (cases "b = CHR ''*''")
    case True
    then show ?thesis by (subst wild_kmp.simps) (simp add: kmp_turn_def match_letter_def nth_append)
  next
    case False
    have b: "?s ! (?j + 1) = b" by (simp add: nth_append)
    show ?thesis
    proof (cases "?j \<le> length vs + 1")
      case True
      let ?piece = "take (?j + 1) (a # b # vs)"
      have again: "kmp_turn ?s ?p [0, 0] True (?j + 1) 1 None = Some (Inr (Check_Again ?piece [a]))"
        using True False b by (simp add: kmp_turn_def back_track_def substring_def nat_add_distrib)
      have "wild_kmp ?piece [a] [0] True 0 0 None = Some (Inr 0)"
        using assms(1) by (subst wild_kmp.simps) (simp add: kmp_turn_def match_letter_def)
      moreover have "after_check ?s ?p (?j + 1) 1 0 = Some (Inr (1, Some b))"
        using assms(1) b by (simp add: after_check_def)
      moreover have "wild_kmp ?s ?p [0, 0] False (?j + 1) 1 (Some b) = Some (Inr (int ?j))"
        using b by (subst wild_kmp.simps) (simp add: kmp_turn_def match_letter_def)
      ultimately show ?thesis using True again by (subst wild_kmp.simps) (simp add: one)
    next
      case far: False
      then have "kmp_turn ?s ?p [0, 0] True (?j + 1) 1 None = Some (Inl Argument_Out_Of_Range)"
        using False b by (simp add: kmp_turn_def back_track_def substring_def)
      then show ?thesis using far False by (subst wild_kmp.simps) simp
    qed
  qed
  finally show ?thesis .
qed

theorem letter_then_wildcard_witness:
  "kmp_search ''zzabc'' ''a*'' = Some (Inr 2) \<and> kmp_search ''zzzab'' ''a*'' = Some (Inl Argument_Out_Of_Range)"
  using letter_then_wildcard [of "CHR ''a''" "''zz''" "CHR ''b''" "''c''"]
    letter_then_wildcard [of "CHR ''a''" "''zzz''" "CHR ''b''" "[]"] by simp

end
