(* ===== verification/Spec2Isabelle.thy ===== *)
theory Spec2Isabelle
  imports Heap_Queue Scan_Cfg Scan_Worker Worker_Protocol Segment_List Sea_Fused Base_Address Altivec_Predicates Rekodb_Proc
    Sea_Transform Neon_Lanes Neon_Wide Neon_Memory Neon_Cast Neon_Wrap Neon_Table Zvec_Lanes Zvec_Search
    Byte_Tools Wild_Kmp
begin

text \<open>
  A verification library for the reko-extras tools: programs around the Reko decompiler, and the compiler
  headers that RekoSifter bundles.  A theory reads like the file it models; paths below are relative to
  \<open>src/\<close>.  A call into Reko, .NET's thread pool or a compiler builtin is not in the repository: it is an
  argument of the definitions that use it, and a theorem that relies on what it does names that as a
  hypothesis.

  Conventions.  A class that is mutated is a record, and an operation maps the record before to the record
  after.  A reference to a mutable object is a number and the heap a store (\<open>Sea_Nodes\<close>, \<open>Scan_Cfg\<close>).  A raised
  exception is \<open>Inl\<close> of a sum, or \<open>None\<close> where there is only one.  A loop that can run for ever in the code is a
  \<open>partial_function (option)\<close>, where \<open>None\<close> is not returning; every theorem on such a loop proves that it
  returns, or that it does not.  Machine integers are words where they wrap.  Unbounded here and not in the
  code are the indices of the heap (a C# \<open>int\<close>, which wraps beyond 2^30 entries) and the addresses of the segment
  list; the characters of \<open>Wild_Kmp\<close> have 8 bits, those of .NET 16: the search only compares them with each other
  and with the asterisk.

  The parallel scanner (\<open>parallel/Scanner\<close>).
    \<open>Heap_Queue\<close>: \<open>PriorityQueue.cs\<close>, a heap in a growing array with every access checked.  The invariant is
    kept, no access is out of bounds, and the queue drains by priority; the contract is the locale
    \<open>max_queue\<close>, interpreted on the code's queue.
    \<open>Scan_Cfg\<close>: \<open>Cfg.cs\<close> and the registration of blocks and edges in \<open>Scanner.cs\<close>.  \<open>SplitBlock\<close> is a worklist
    loop with fuel: the weight of an item is 2 to the power of the number of instructions its block can
    still lose, each turn replaces an item by lighter ones, and \<open>split_fuel\<close>, a power of 2 above the address of
    the block's last instruction, is more than the weight of what the first turn leaves; \<open>split_block_ends\<close>
    proves that it is enough for every block end, also one before a delay slot.
    \<open>Scan_Worker\<close>: \<open>ProcedureWorker.cs\<close>, the work on one item: linear parsing, block ends with and
    without a delay slot, edges.
    \<open>Worker_Protocol\<close>: the same file's owner, the threads that wake it or enqueue items for it, and the threads
    that start a worker for the same address (\<open>TryStartProcedureWorker\<close>), as an interleaving of atomic steps
    over the state word and the scanner's two dictionaries; mutual exclusion of the queue, when the calls of
    the dictionaries can raise, and the schedules that lose a wake-up.

  The segment list (\<open>prologs/SegmentList.cs\<close>) is \<open>Segment_List\<close>: the list of segments refines a map from
  addresses to sorts, and \<open>occupy\<close> does not return on some overlaps.

  The sea of nodes (\<open>seaofnodes/SeaOfNodes\<close>).
    \<open>Sea_Nodes\<close>: \<open>Nodes/Node.cs\<close>, the graph with inputs and outputs; \<open>edges_ok\<close> says that they agree, and every
    operation keeps it.
    \<open>Sea_Peephole\<close> and \<open>Sea_Seq\<close>: \<open>Analysis/PeepholeOptimizer.*.cs\<close> over Reko's constants (the record \<open>reko\<close>, with
    the laws \<open>reko_ok\<close>); a new node has the value of the operation it stands for, and the operands that
    \<open>FuseAdjacentSlices\<close> loses.
    \<open>Sea_Test\<close>, \<open>Sea_Compare\<close>, \<open>Sea_Transform\<close>: \<open>Analysis/NodeValuePropagator.cs\<close> and its part \<open>.Test.cs\<close>.  A test of
    condition codes becomes a comparison.  The loop over an explicit stack is shown to do what a recursion
    (\<open>rewritten_as\<close>) does, and the comparison to have the operands of the subtraction on each path; the
    states of \<open>Transform\<close> are well-formed; a \<open>SegmentedPointerNode\<close> raises, as its \<open>Accept\<close> does.  Reko's \<open>WorkList\<close> is the record \<open>worklist\<close>, with the law
    \<open>worklist_ok\<close>; nothing depends on the order it has.
    \<open>Sea_Long\<close>: \<open>Analysis/LongAddRewriter.cs\<close>, which finds arithmetic on the halves of a long value, chained by
    the carry, and puts slices of one wide operation in place of both halves.  \<open>Sea_Edges\<close>: every fusion
    keeps \<open>graph_ok\<close> (\<open>edges_ok\<close>, and condition nodes have one operand or have lost their inputs), so no
    step of a fusion raises that only rewires edges; sample graphs.  \<open>Sea_Renamed\<close>: \<open>Seq\<close> replaces two
    definitions (a received register pair) by slices of one, after which the graph is the old one up to a
    renaming of these nodes (\<open>renames\<close>), and a value of the new graph is one of the old (\<open>named\<close>).
    \<open>Sea_Halves\<close> and \<open>Sea_Fused\<close>: over the laws \<open>long_ok\<close> of Reko's types and constants, \<open>halved\<close> says that two
    slices are the halves of a value; the fusions succeed and keep the values of the nodes they replace, for
    halves that are no slices, sequences or negative low constant, but for a borrow that is no borrow and a
    register pair added to itself.

  Text and bytes.  \<open>Wild_Kmp\<close>: \<open>prologs/WildKMP.cs\<close>, a search with wildcards that always ends and is right for
  patterns of different letters; its failure links and its call of \<open>Substring\<close> are not.  \<open>Byte_Tools\<close>: \<open>dehexdump/dehexdump/DeHexdumper.cs\<close> reads back the bytes of a hex dump in each
  format it recognizes, whose lines are full and in lower case, and \<open>swapw/Program.cs\<close> swaps the bytes of words.

  Base addresses (\<open>findbaseaddr/find_load_addr\<close>) are \<open>Base_Address\<close>: the strings of an image, the exhaustive
  search over candidate addresses by several threads, and a string matcher that never matches.

  The database (\<open>rekodb/rekodb\<close>).
    \<open>Json_Writer\<close>, \<open>Json_Reader\<close>, \<open>Json_Roundtrip\<close>: \<open>JsonWriter.cs\<close> and \<open>JsonReader.cs\<close>; reading what was written
    gives the tokens of the document back, for the characters both sides handle; the locale \<open>token_source\<close>
    is the reader's contract for its clients.
    \<open>Rekodb_Types\<close>, \<open>Rekodb_Expr\<close>, \<open>Rekodb_Proc\<close>: the serializers refine document trees (\<open>acts\<close>), the readers of
    types, storages, procedures and programs, round trips, and the documents that cannot be read back.

  The compiler headers (\<open>RekoSifter/external/CppSharp--vs2017-x64/lib/clang/11.0.0/include\<close>).  A routine with its
  overloads for all element types is one definition; a vector is the list of its elements in the order of C
  subscripts; a builtin is an argument.
    \<open>Neon_Base\<close> to \<open>Neon_Table\<close>: \<open>arm_neon.h\<close>.  Each routine has a little- and a big-endian body (\<open>le\<close>); \<open>vreg le v\<close>
    is the register of \<open>v\<close>, and the lemmas say that a routine is one function of registers on both byte orders.
    \<open>Neon_Lanes\<close>: lane-wise arithmetic; \<open>Neon_Builtin\<close>, \<open>Neon_Wrap\<close>: wrappers of one builtin; \<open>Neon_Perm\<close>:
    permutations; \<open>Neon_Wide\<close>: routines composed of others; \<open>Neon_Memory\<close>: loads and stores, which move the same registers on
    both byte orders; \<open>Neon_Cast\<close>:
    reinterpreting casts, over \<open>Vector_Bytes\<close>; \<open>Neon_Table\<close>: pairs of permutations and table lookups.
    \<open>Altivec\<close>: \<open>altivec.h\<close>, the routines that compute in C.  \<open>Altivec_Predicates\<close>: its predicates, which test the
    comparison of their name in all or some lanes.
    \<open>Zvec_Lanes\<close>, \<open>Zvec_Search\<close>: \<open>vecintrin.h\<close> (IBM Z), element access, masks, selection, memory, packing,
    predicates and searches.

  Groups of lemmas.  Each theory proves an invariant or a view (\<open>pq_inv\<close>, \<open>store_ok\<close>, \<open>wf\<close>, \<open>edges_ok\<close>,
  \<open>well_formed\<close>, \<open>vreg\<close>), that the operations keep it, and from that the properties; a property's number
  stands before it.  Witnesses apply a property to concrete data.

  Not modelled, and why.
    The drivers (\<open>Program.cs\<close> of every tool), \<open>batch\<close>, \<open>chunks\<close>, \<open>interactive\<close> and \<open>RekoSifter\<close> parse command lines,
    start processes and threads, and print; what they compute is computed by Reko.
    \<open>blocksoup\<close>, \<open>scannerV2\<close>, \<open>Benchmarks\<close>, \<open>LLVMTestsConverter\<close>, \<open>typeinference\<close>, \<open>x86opcodes\<close> work on Reko's
    instructions, images and types, or on text files.
    \<open>prologs\<close> beside \<open>SegmentList.cs\<close> and \<open>WildKMP.cs\<close>: \<open>girlscout.cs\<close>, \<open>boyscout.cs\<close> and \<open>AnnotatedCFG.cs\<close> are a port in progress over
    \<open>defaultdict.cs\<close>, most of whose members raise \<open>NotImplementedException\<close>, and drive Reko's rewriter.
    In \<open>LongAddRewriter.cs\<close>, \<open>TryFuseLongOperation\<close> and what only it calls have no caller.
    \<open>NodeGraphBuilder\<close> translates Reko's statements and expressions; the renderers only print.
    Of the headers, \<open>opencl-c.h\<close> and \<open>arm_mve.h\<close> hold declarations without bodies, and the remaining routines of
    the modelled ones forward to a builtin.
\<close>

end
